(* ===== verification/Nil_Prelude.thy ===== *)
theory Nil_Prelude
  imports Main "HOL-Library.Word" "HOL-Library.AList" "HOL-Library.List_Lexorder"
begin

text \<open>
  The prelude of the development: names for the machine types of the Rust sources, fallible
  results, slices with Rust's range checks, checked and saturating arithmetic, big-endian
  integers, decimal text, and the generic lemmas the components share.

  Rust's \<open>Result<A, E>\<close> is \<open>'e + 'a\<close> (\<open>Inl\<close> the error, \<open>Inr\<close> the value); a byte slice or
  vector is a list of \<open>8 word\<close>; a \<open>String\<close> is the list of its UTF-8 bytes. \<open>usize\<close> is a
  \<open>nat\<close>: it counts elements of lists that exist in memory.
\<close>

section \<open>Machine types\<close>

type_synonym byte = "8 word"
type_synonym bytes = "byte list"
type_synonym u16 = "16 word"
type_synonym u32 = "32 word"
type_synonym u64 = "64 word"

text \<open>Collections of rewrite rules: results, slices and encodings.\<close>

named_theorems result_simps
named_theorems slice_simps
named_theorems codec_simps

text \<open>A byte-string literal (Rust's \<open>b"..."\<close> and the bytes of a string literal).\<close>

definition lit :: "string \<Rightarrow> bytes" where
  "lit s = map of_char s"

lemma length_lit [simp]: "length (lit s) = length s"
  by (simp add: lit_def)

section \<open>Results\<close>

definition bindE :: "'e + 'a \<Rightarrow> ('a \<Rightarrow> 'e + 'b) \<Rightarrow> 'e + 'b" where
  "bindE m f = (case m of Inl e \<Rightarrow> Inl e | Inr x \<Rightarrow> f x)"

definition ok_or :: "'e \<Rightarrow> 'a option \<Rightarrow> 'e + 'a" where
  "ok_or e x = (case x of None \<Rightarrow> Inl e | Some y \<Rightarrow> Inr y)"

definition ensure :: "'e \<Rightarrow> bool \<Rightarrow> 'e + unit" where
  "ensure e b = (if b then Inr () else Inl e)"

definition map_err :: "('e \<Rightarrow> 'f) \<Rightarrow> 'e + 'a \<Rightarrow> 'f + 'a" where
  "map_err h m = (case m of Inl e \<Rightarrow> Inl (h e) | Inr x \<Rightarrow> Inr x)"

lemma bindE_simps [simp, result_simps]:
  "bindE (Inl e) f = Inl e"
  "bindE (Inr x) f = f x"
  by (simp_all add: bindE_def)

lemma bindE_eq_Inr [simp, result_simps]:
  "bindE m f = Inr y \<longleftrightarrow> (\<exists>x. m = Inr x \<and> f x = Inr y)"
  by (cases m) auto

lemma bindE_eq_Inl [result_simps]:
  "bindE m f = Inl e \<longleftrightarrow> m = Inl e \<or> (\<exists>x. m = Inr x \<and> f x = Inl e)"
  by (cases m) auto

lemma ok_or_simps [simp, result_simps]:
  "ok_or e None = Inl e"
  "ok_or e (Some x) = Inr x"
  by (simp_all add: ok_or_def)

lemma ok_or_eq_Inr [simp, result_simps]: "ok_or e x = Inr y \<longleftrightarrow> x = Some y"
  by (cases x) auto

lemma ok_or_eq_Inl [result_simps]: "ok_or e x = Inl e' \<longleftrightarrow> x = None \<and> e' = e"
  by (cases x) auto

lemma ensure_eq_Inr [simp, result_simps]: "ensure e b = Inr u \<longleftrightarrow> b"
  by (simp add: ensure_def)

lemma ensure_eq_Inl [result_simps]: "ensure e b = Inl e' \<longleftrightarrow> \<not> b \<and> e' = e"
  by (auto simp: ensure_def)

lemma ensure_True [simp, result_simps]: "ensure e True = Inr ()"
  by (simp add: ensure_def)

lemma map_err_eq_Inr [simp, result_simps]: "map_err h m = Inr x \<longleftrightarrow> m = Inr x"
  by (cases m) (auto simp: map_err_def)

lemma map_err_Inr [simp, result_simps]: "map_err h (Inr x) = Inr x"
  by (simp add: map_err_def)

section \<open>Slices\<close>

text \<open>\<open>slice.get(a..b)\<close> and \<open>slice.get(i)\<close>: \<open>None\<close> out of range.\<close>

definition get_range :: "'a list \<Rightarrow> nat \<Rightarrow> nat \<Rightarrow> 'a list option" where
  "get_range xs a b = (if a \<le> b \<and> b \<le> length xs then Some (take (b - a) (drop a xs)) else None)"

definition get_at :: "'a list \<Rightarrow> nat \<Rightarrow> 'a option" where
  "get_at xs i = (if i < length xs then Some (xs ! i) else None)"

definition starts_with :: "'a list \<Rightarrow> 'a list \<Rightarrow> bool" where
  "starts_with xs p \<longleftrightarrow> take (length p) xs = p"

lemma get_range_Some [slice_simps]:
  "get_range xs a b = Some ys \<longleftrightarrow> a \<le> b \<and> b \<le> length xs \<and> ys = take (b - a) (drop a xs)"
  by (auto simp: get_range_def)

lemma get_range_length: "get_range xs a b = Some ys \<Longrightarrow> length ys = b - a"
  by (auto simp: get_range_def split: if_splits)

lemma get_at_Some [slice_simps]: "get_at xs i = Some x \<longleftrightarrow> i < length xs \<and> x = xs ! i"
  by (auto simp: get_at_def)

lemma get_range_append:
  assumes "a = length xs" and "b = length xs + length ys"
  shows "get_range (xs @ ys @ zs) a b = Some ys"
  using assms by (simp add: get_range_def)

lemma get_at_append: "i = length xs \<Longrightarrow> get_at (xs @ y # zs) i = Some y"
  by (simp add: get_at_def)

lemma starts_with_append [simp]: "starts_with (p @ xs) p"
  by (simp add: starts_with_def)

text \<open>\<open>slice[i..i + n].copy_from_slice(bs)\<close>, for a range inside the slice.\<close>

definition copy_at :: "nat \<Rightarrow> 'a list \<Rightarrow> 'a list \<Rightarrow> 'a list" where
  "copy_at i bs xs = take i xs @ bs @ drop (i + length bs) xs"

lemma length_copy_at [simp]: "i + length bs \<le> length xs \<Longrightarrow> length (copy_at i bs xs) = length xs"
  by (simp add: copy_at_def)

lemma nth_copy_at:
  "i + length bs \<le> length xs \<Longrightarrow> j < length xs \<Longrightarrow>
     copy_at i bs xs ! j = (if i \<le> j \<and> j < i + length bs then bs ! (j - i) else xs ! j)"
  by (auto simp: copy_at_def nth_append min_def)

section \<open>Checked and saturating arithmetic\<close>

definition checked_add :: "'a::len word \<Rightarrow> 'a word \<Rightarrow> 'a word option" where
  "checked_add a b = (if unat a + unat b < 2 ^ LENGTH('a) then Some (a + b) else None)"

definition checked_sub :: "'a::len word \<Rightarrow> 'a word \<Rightarrow> 'a word option" where
  "checked_sub a b = (if b \<le> a then Some (a - b) else None)"

definition saturating_add :: "'a::len word \<Rightarrow> 'a word \<Rightarrow> 'a word" where
  "saturating_add a b = (if unat a + unat b < 2 ^ LENGTH('a) then a + b else - 1)"

definition saturating_sub :: "'a::len word \<Rightarrow> 'a word \<Rightarrow> 'a word" where
  "saturating_sub a b = (if b \<le> a then a - b else 0)"

text \<open>\<open>usize::checked_add\<close> on a 64-bit target.\<close>

definition checked_add_usize :: "nat \<Rightarrow> nat \<Rightarrow> nat option" where
  "checked_add_usize a b = (if a + b < 2 ^ 64 then Some (a + b) else None)"

definition checked_sub_usize :: "nat \<Rightarrow> nat \<Rightarrow> nat option" where
  "checked_sub_usize a b = (if b \<le> a then Some (a - b) else None)"

lemma checked_sub_usize_eq_Some:
  "checked_sub_usize a b = Some c \<longleftrightarrow> b \<le> a \<and> c = a - b"
  by (auto simp: checked_sub_usize_def)

lemma checked_add_Some:
  "checked_add a b = Some c \<Longrightarrow> unat c = unat a + unat b" for a :: "'a::len word"
  by (auto simp: checked_add_def unat_word_ariths split: if_splits)

lemma checked_sub_Some:
  "checked_sub a b = Some c \<longleftrightarrow> b \<le> a \<and> unat c = unat a - unat b" for a :: "'a::len word"
  by (auto simp: checked_sub_def unat_sub word_le_nat_alt intro!: word_unat_eq_iff [THEN iffD2])

lemma unat_saturating_sub: "unat (saturating_sub a b) = unat a - unat b"
  by (auto simp: saturating_sub_def unat_sub word_le_nat_alt)

lemma unat_saturating_add:
  "unat (saturating_add a b) = min (unat a + unat b) (2 ^ LENGTH('a) - 1)" for a :: "'a::len word"
  by (auto simp: saturating_add_def unat_word_ariths unsigned_minus_1_eq_mask mask_eq_exp_minus_1)

lemma checked_add_usize_Some [simp]:
  "a + b < 2 ^ 64 \<Longrightarrow> checked_add_usize a b = Some (a + b)"
  by (simp add: checked_add_usize_def)

lemma checked_add_usize_eq_Some:
  "checked_add_usize a b = Some c \<longleftrightarrow> a + b < 2 ^ 64 \<and> c = a + b"
  by (auto simp: checked_add_usize_def)

section \<open>Big-endian integers\<close>

fun be_of_nat :: "nat \<Rightarrow> nat \<Rightarrow> bytes" where
  "be_of_nat 0 x = []"
| "be_of_nat (Suc n) x = be_of_nat n (x div 256) @ [word_of_nat (x mod 256)]"

lemmas be_of_nat_numeral = be_of_nat.simps(2) [of "pred_numeral v" for v, folded numeral_eq_Suc]

definition nat_of_be :: "bytes \<Rightarrow> nat" where
  "nat_of_be bs = foldl (\<lambda>a b. a * 256 + unat b) 0 bs"

text \<open>\<open>to_be_bytes\<close> and \<open>from_be_bytes\<close> of an unsigned integer of \<open>n\<close> bytes.\<close>

definition to_be :: "nat \<Rightarrow> 'a::len word \<Rightarrow> bytes" where
  "to_be n w = be_of_nat n (unat w)"

definition of_be :: "bytes \<Rightarrow> 'a::len word" where
  "of_be bs = word_of_nat (nat_of_be bs)"

lemma length_be_of_nat [simp]: "length (be_of_nat n x) = n"
  by (induction n arbitrary: x) auto

lemma length_to_be [simp]: "length (to_be n w) = n"
  by (simp add: to_be_def)

lemma nat_of_be_Nil [simp]: "nat_of_be [] = 0"
  by (simp add: nat_of_be_def)

lemma nat_of_be_snoc [simp]: "nat_of_be (bs @ [b]) = nat_of_be bs * 256 + unat b"
  by (simp add: nat_of_be_def)

lemma unat_byte_lt [simp]: "unat (b :: byte) < 256"
  using unsigned_less [of b] by simp

lemma nat_of_be_of_nat: "x < 256 ^ n \<Longrightarrow> nat_of_be (be_of_nat n x) = x"
proof (induction n arbitrary: x)
  case (Suc n)
  have "x div 256 < 256 ^ n"
    using Suc.prems by (simp add: less_mult_imp_div_less mult.commute)
  with Suc.IH show ?case
    by (simp add: unat_of_nat)
qed simp

lemma nat_of_be_less: "nat_of_be bs < 256 ^ length bs"
proof (induction bs rule: rev_induct)
  case (snoc b bs)
  have "nat_of_be bs * 256 + unat b < nat_of_be bs * 256 + 256" by simp
  also have "\<dots> = (nat_of_be bs + 1) * 256" by simp
  also have "\<dots> \<le> 256 ^ length bs * 256"
    using snoc.IH by (intro mult_right_mono) auto
  finally show ?case by simp
qed simp

lemma be_of_nat_of_be: "length bs = n \<Longrightarrow> be_of_nat n (nat_of_be bs) = bs"
proof (induction bs arbitrary: n rule: rev_induct)
  case (snoc b bs)
  then obtain m where "n = Suc m" "length bs = m" by (cases n) auto
  with snoc.IH [of m] show ?case by simp
qed simp

lemma unat_less_pow: "unat w < 2 ^ LENGTH('a)" for w :: "'a::len word"
  by (rule unsigned_less)

lemma of_be_to_be [codec_simps]:
  "2 ^ LENGTH('a) \<le> (256::nat) ^ n \<Longrightarrow> of_be (to_be n w) = (w :: 'a::len word)"
  using less_le_trans [OF unat_less_pow [of w]]
  by (simp add: of_be_def to_be_def nat_of_be_of_nat)

lemma to_be_inject:
  "to_be 2 v = to_be 2 w \<longleftrightarrow> v = w" for v w :: u16
proof
  assume "to_be 2 v = to_be 2 w"
  then have "(of_be (to_be 2 v) :: u16) = of_be (to_be 2 w)" by (rule arg_cong)
  then show "v = w" by (simp add: of_be_to_be)
qed simp

lemma to_be_of_be [codec_simps]:
  assumes "length bs = n" and "(256::nat) ^ n \<le> 2 ^ LENGTH('a)"
  shows "to_be n (of_be bs :: 'a::len word) = bs"
proof -
  have "nat_of_be bs < 2 ^ LENGTH('a)"
    using nat_of_be_less [of bs] assms by simp
  then show ?thesis
    using assms by (simp add: to_be_def of_be_def unat_of_nat be_of_nat_of_be)
qed

section \<open>Adjacent slices\<close>

text \<open>
  A parser reads adjacent ranges of one buffer: gluing the ranges it read gives the buffer back
  (canonicity), and reading a concatenation gives its pieces back (round trip).
\<close>

lemma get_range_glue:
  assumes "get_range xs a b = Some ys" and "get_range xs b c = Some zs"
  shows "get_range xs a c = Some (ys @ zs)"
proof -
  have ab: "a \<le> b" "b \<le> c" using assms by (auto simp: slice_simps)
  then have "c - a = (b - a) + (c - b)" by simp
  then have "take (c - a) (drop a xs) = take (b - a) (drop a xs) @ take (c - b) (drop (b - a) (drop a xs))"
    by (simp only: take_add)
  with ab show ?thesis using assms by (simp add: slice_simps)
qed

lemma get_at_range: "get_at xs i = Some x \<Longrightarrow> get_range xs i (Suc i) = Some [x]"
  by (simp add: slice_simps take_Suc hd_drop_conv_nth)

lemma get_range_all [codec_simps]: "b = length xs \<Longrightarrow> get_range xs 0 b = Some xs"
  by (simp add: get_range_def)

lemma get_range_skip [codec_simps]:
  "length xs \<le> a \<Longrightarrow> a \<le> b \<Longrightarrow> get_range (xs @ ys) a b = get_range ys (a - length xs) (b - length xs)"
  by (auto simp: get_range_def)

lemma get_range_prefix [codec_simps]: "b = length xs \<Longrightarrow> get_range (xs @ ys) 0 b = Some xs"
  by (simp add: get_range_def)

lemma get_at_skip [codec_simps]:
  "length xs \<le> i \<Longrightarrow> get_at (xs @ ys) i = get_at ys (i - length xs)"
  by (auto simp: get_at_def nth_append)

lemma get_range_skip_Cons [codec_simps]:
  "1 \<le> a \<Longrightarrow> a \<le> b \<Longrightarrow> get_range (x # xs) a b = get_range xs (a - 1) (b - 1)"
  using get_range_skip [of "[x]" a b xs] by simp

lemma get_at_skip_Cons [codec_simps]: "1 \<le> i \<Longrightarrow> get_at (x # xs) i = get_at xs (i - 1)"
  using get_at_skip [of "[x]" i xs] by simp

lemma get_at_0 [codec_simps]: "get_at (x # xs) 0 = Some x"
  by (simp add: get_at_def)

section \<open>Text\<close>

text \<open>
  UTF-8 as \<open>std::str::from_utf8\<close> accepts it: \<open>utf8_head\<close> is the width of the well-formed scalar
  a byte string starts with (0 when it starts with none; no overlong form, no surrogate, nothing
  above U+10FFFF).
\<close>

definition utf8_cont :: "byte \<Rightarrow> bool" where
  "utf8_cont b \<longleftrightarrow> 128 \<le> b \<and> b \<le> 191"

definition utf8_head :: "bytes \<Rightarrow> nat" where
  "utf8_head bs =
     (case bs of [] \<Rightarrow> 0
      | a # r1 \<Rightarrow> if a < 128 then 1 else
          (case r1 of [] \<Rightarrow> 0
           | b # r2 \<Rightarrow> if 194 \<le> a \<and> a \<le> 223 then (if utf8_cont b then 2 else 0) else
               (case r2 of [] \<Rightarrow> 0
                | c # r3 \<Rightarrow>
                    if 224 \<le> a \<and> a \<le> 239 then
                      (if utf8_cont b \<and> (a = 224 \<longrightarrow> 160 \<le> b) \<and> (a = 237 \<longrightarrow> b \<le> 159) \<and> utf8_cont c
                       then 3 else 0)
                    else (case r3 of [] \<Rightarrow> 0
                     | d # r4 \<Rightarrow>
                         if 240 \<le> a \<and> a \<le> 244 \<and> utf8_cont b \<and> (a = 240 \<longrightarrow> 144 \<le> b)
                            \<and> (a = 244 \<longrightarrow> b \<le> 143) \<and> utf8_cont c \<and> utf8_cont d
                         then 4 else 0))))"

function utf8_valid :: "bytes \<Rightarrow> bool" where
  "utf8_valid bs =
     (if bs = [] then True
      else if utf8_head bs = 0 then False
      else utf8_valid (drop (utf8_head bs) bs))"
  by pat_completeness auto
termination by (relation "measure length") auto

declare utf8_valid.simps [simp del]

definition from_utf8 :: "bytes \<Rightarrow> bytes option" where
  "from_utf8 bs = (if utf8_valid bs then Some bs else None)"

lemma utf8_valid_Nil [simp]: "utf8_valid []"
  by (simp add: utf8_valid.simps)

lemma utf8_valid_ascii [simp]: "a < 128 \<Longrightarrow> utf8_valid (a # bs) = utf8_valid bs"
  by (subst utf8_valid.simps) (simp add: utf8_head_def)

lemma ascii_utf8: "(\<And>b. b \<in> set bs \<Longrightarrow> b < 128) \<Longrightarrow> utf8_valid bs"
  by (induction bs) auto

lemma from_utf8_Some [slice_simps]: "from_utf8 bs = Some t \<longleftrightarrow> utf8_valid bs \<and> t = bs"
  by (auto simp: from_utf8_def)

text \<open>Byte classes of the standard library.\<close>

definition is_ascii_lowercase :: "byte \<Rightarrow> bool" where
  "is_ascii_lowercase b \<longleftrightarrow> 97 \<le> b \<and> b \<le> 122"

definition is_ascii_uppercase :: "byte \<Rightarrow> bool" where
  "is_ascii_uppercase b \<longleftrightarrow> 65 \<le> b \<and> b \<le> 90"

definition is_ascii_digit :: "byte \<Rightarrow> bool" where
  "is_ascii_digit b \<longleftrightarrow> 48 \<le> b \<and> b \<le> 57"

lemma byte_le_ascii: "b \<le> c \<Longrightarrow> c < 128 \<Longrightarrow> b < (128 :: byte)"
  by (rule le_less_trans)

section \<open>Hash maps as association lists\<close>

lemma alist_update_new: "k \<notin> fst ` set al \<Longrightarrow> AList.update k v al = al @ [(k, v)]"
  by (induction al) auto

lemma snd_set_delete:
  assumes "distinct (map fst al)" and "distinct (map snd al)" and "map_of al k = Some a"
  shows "snd ` set (AList.delete k al) = snd ` set al - {a}"
proof -
  have ka: "(k, a) \<in> set al" using assms(3) by (rule map_of_SomeD)
  have 1: "k' = k" if "(k', a) \<in> set al" for k'
    using that ka assms(2) inj_onD [of snd "set al" "(k', a)" "(k, a)"] by (auto simp: distinct_map)
  have 2: "b = a" if "(k, b) \<in> set al" for b
    using that ka assms(1) by (auto dest: eq_key_imp_eq_value)
  have S: "set (AList.delete k al) = {x \<in> set al. fst x \<noteq> k}"
    unfolding AList.delete_eq by (auto simp: case_prod_unfold)
  have "b \<in> snd ` set (AList.delete k al) \<longleftrightarrow> b \<in> snd ` set al - {a}" for b
  proof
    assume "b \<in> snd ` set (AList.delete k al)"
    then obtain k' where "(k', b) \<in> set al" "k' \<noteq> k" unfolding S by auto
    with 1 show "b \<in> snd ` set al - {a}" by (metis DiffI image_eqI singletonD snd_conv)
  next
    assume "b \<in> snd ` set al - {a}"
    then obtain k' where k': "(k', b) \<in> set al" "b \<noteq> a" by auto
    with 2 have "k' \<noteq> k" by metis
    with k'(1) show "b \<in> snd ` set (AList.delete k al)" unfolding S by (intro image_eqI [of _ _ "(k', b)"]) auto
  qed
  then show ?thesis by blast
qed

lemma distinct_map_delete: "distinct (map f al) \<Longrightarrow> distinct (map f (AList.delete k al))"
  unfolding AList.delete_eq by (rule distinct_map_filter)

lemma set_update_subset: "set (AList.update k v al) \<subseteq> insert (k, v) (set al)"
  by (induction al) auto

lemma map_of_filter_distinct:
  assumes "distinct (map fst xs)"
  shows "map_of (filter P xs) k = (case map_of xs k of None \<Rightarrow> None | Some v \<Rightarrow> if P (k, v) then Some v else None)"
  using assms
proof (induction xs)
  case (Cons x xs)
  have "map_of xs k = None" if "fst x = k" using Cons.prems that by (auto simp: map_of_eq_None_iff)
  then show ?case using Cons by (cases x) (auto split: option.splits)
qed simp

section \<open>Addresses and durations of the standard library\<close>

datatype ipv4addr = Ipv4Addr byte byte byte byte

primrec ipv4_octets :: "ipv4addr \<Rightarrow> bytes" where
  "ipv4_octets (Ipv4Addr a b c d) = [a, b, c, d]"

lemma length_ipv4_octets [simp]: "length (ipv4_octets a) = 4"
  by (cases a) simp

lemma ipv4_octets_inject [simp]: "ipv4_octets a = ipv4_octets b \<longleftrightarrow> a = b"
  by (cases a; cases b) simp

text \<open>\<open>u32::from(Ipv4Addr)\<close> and \<open>Ipv4Addr::from(u32)\<close>.\<close>

definition ipv4_to_u32 :: "ipv4addr \<Rightarrow> u32" where
  "ipv4_to_u32 a = of_be (ipv4_octets a)"

definition ipv4_of_octets :: "bytes \<Rightarrow> ipv4addr" where
  "ipv4_of_octets bs = Ipv4Addr (bs ! 0) (bs ! 1) (bs ! 2) (bs ! 3)"

definition ipv4_of_u32 :: "u32 \<Rightarrow> ipv4addr" where
  "ipv4_of_u32 w = ipv4_of_octets (to_be 4 w)"

lemma ipv4_octets_of_octets: "length bs = 4 \<Longrightarrow> ipv4_octets (ipv4_of_octets bs) = bs"
  by (cases bs rule: list.exhaust; auto simp: ipv4_of_octets_def nth_Cons' eval_nat_numeral length_Suc_conv)

lemma ipv4_of_octets_octets [simp]: "ipv4_of_octets (ipv4_octets a) = a"
  by (cases a) (simp add: ipv4_of_octets_def)

lemma ipv4_u32_inverse [simp]: "ipv4_to_u32 (ipv4_of_u32 w) = w" "ipv4_of_u32 (ipv4_to_u32 a) = a"
  by (simp_all add: ipv4_to_u32_def ipv4_of_u32_def ipv4_octets_of_octets of_be_to_be to_be_of_be)

lemma ipv4_of_u32_inject [simp]: "ipv4_of_u32 v = ipv4_of_u32 w \<longleftrightarrow> v = w"
  by (metis ipv4_u32_inverse(1))

datatype socket_addr_v4 = SocketAddrV4 (sa_ip: ipv4addr) (sa_port: u16)

record duration =
  du_secs :: u64
  du_nanos :: u32

text \<open>The value of a computation that panics (an arithmetic overflow with overflow checks on).\<close>

datatype panic = Panic

text \<open>\<open>u16::try_from(usize)\<close>.\<close>

definition u16_try_from :: "nat \<Rightarrow> u16 option" where
  "u16_try_from n = (if n < 65536 then Some (word_of_nat n) else None)"

lemma u16_try_from_Some: "u16_try_from n = Some w \<longleftrightarrow> n < 65536 \<and> w = word_of_nat n"
  by (auto simp: u16_try_from_def)

end
