(* ===== verification/Machines.thy ===== *)
theory Machines
  imports Nil_Prelude
begin

text \<open>
  Stateful components as machines: an operation takes an input and a state and gives an output and
  the next state. \<open>run\<close> feeds a machine a sequence of inputs; the locale \<open>machine\<close> is the
  contract of an invariant, and its lemmas are the inductions over sequences of operations that the
  components (replay cache, address pool, rate limiter, durable sets, ledgers) share.
\<close>

fun run :: "('i \<Rightarrow> 's \<Rightarrow> 'o \<times> 's) \<Rightarrow> 'i list \<Rightarrow> 's \<Rightarrow> 'o list \<times> 's" where
  "run step [] s = ([], s)"
| "run step (i # is) s =
     (let (out, s1) = step i s; (outs, s2) = run step is s1 in (out # outs, s2))"

lemma run_Cons:
  "run step (i # is) s =
     (fst (step i s) # fst (run step is (snd (step i s))), snd (run step is (snd (step i s))))"
  by (simp add: case_prod_unfold Let_def)

lemma run_append:
  "run step (is @ js) s =
     (fst (run step is s) @ fst (run step js (snd (run step is s))),
      snd (run step js (snd (run step is s))))"
  by (induction "is" arbitrary: s) (simp_all add: run_Cons del: run.simps(2))

lemma length_run [simp]: "length (fst (run step is s)) = length is"
  by (induction "is" arbitrary: s) (simp_all add: run_Cons del: run.simps(2))

lemma run_nth:
  "j < length is \<Longrightarrow> fst (run step is s) ! j = fst (step (is ! j) (snd (run step (take j is) s)))"
proof (induction "is" arbitrary: s j)
  case (Cons i "is")
  then show ?case by (cases j) (simp_all add: run_Cons del: run.simps(2))
qed simp

text \<open>What a step establishes and every step keeps still holds before a later step.\<close>

lemma run_after:
  assumes keep: "\<And>x t. P t \<Longrightarrow> P (snd (step x t))" and "i < j" and "j \<le> length is"
    and "P (snd (step (is ! i) (snd (run step (take i is) s))))"
  shows "P (snd (run step (take j is) s))"
proof -
  have all: "P t \<Longrightarrow> P (snd (run step xs t))" for t xs
    by (induction xs arbitrary: t) (simp_all add: run_Cons keep del: run.simps(2))
  have "take (Suc i) is = take i is @ [is ! i]" using assms(2,3) by (simp add: take_Suc_conv_app_nth)
  then have "P (snd (run step (take (Suc i) is) s))" using assms(4) by (simp add: run_append case_prod_unfold Let_def)
  moreover have "take j is = take (Suc i) is @ take (j - Suc i) (drop (Suc i) is)"
    using assms(2) take_add [of "Suc i" "j - Suc i" "is"] by simp
  ultimately show ?thesis using all by (simp add: run_append)
qed

locale machine =
  fixes step :: "'i \<Rightarrow> 's \<Rightarrow> 'o \<times> 's" and inv :: "'s \<Rightarrow> bool"
  assumes step_inv: "inv s \<Longrightarrow> inv (snd (step i s))"
begin

lemma run_inv: "inv s \<Longrightarrow> inv (snd (run step is s))"
  by (induction "is" arbitrary: s) (simp_all add: run_Cons step_inv del: run.simps(2))

lemma run_output:
  assumes "inv s" and "j < length is"
  obtains t where "inv t" and "fst (run step is s) ! j = fst (step (is ! j) t)"
    and "t = snd (run step (take j is) s)"
  using run_inv [OF assms(1), of "take j is"] run_nth [OF assms(2), of step s] that by blast

end

end
