(* ===== verification/Hex.thy ===== *)
theory Hex
  imports Nil_Prelude
begin

unbundle bit_operations_syntax

text \<open>
  The hexadecimal codecs. The crates carry several copies of one codec: \<open>nil-core/src/grant.rs\<close>
  (\<open>to_hex\<close>, \<open>from_hex\<close>), \<open>nil-transport/src/connectip.rs\<close> (the attestation headers) and the
  Coordinator's pair (\<open>api.rs\<close> \<open>to_hex\<close>, written with \<open>format!("{x:02x}")\<close>, and \<open>config.rs\<close>
  \<open>from_hex\<close>). Each copy is modelled from its own lines; the locale \<open>hex_codec\<close> is the contract
  they share, and it is interpreted on all three.
\<close>

section \<open>The codec of nil-core\<close>

definition nib :: "byte \<Rightarrow> byte option" where
  "nib c =
     (if 48 \<le> c \<and> c \<le> 57 then Some (c - 48)
      else if 97 \<le> c \<and> c \<le> 102 then Some (c - 97 + 10)
      else if 65 \<le> c \<and> c \<le> 70 then Some (c - 65 + 10)
      else None)"

text \<open>The loop over \<open>chunks_exact(2)\<close>: an early return on the first byte that is no digit.\<close>

fun hex_chunks :: "bytes \<Rightarrow> bytes option" where
  "hex_chunks (a # b # rest) =
     (case nib a of None \<Rightarrow> None
      | Some h \<Rightarrow> (case nib b of None \<Rightarrow> None
         | Some l \<Rightarrow> map_option (Cons (push_bit 4 h OR l)) (hex_chunks rest)))"
| "hex_chunks _ = Some []"

definition from_hex :: "bytes \<Rightarrow> bytes option" where
  "from_hex h = (if length h mod 2 \<noteq> 0 then None else hex_chunks h)"

definition HEX :: bytes where
  "HEX = lit ''0123456789abcdef''"

definition hex_byte :: "byte \<Rightarrow> bytes" where
  "hex_byte b = [HEX ! unat (drop_bit 4 b), HEX ! unat (b AND 15)]"

definition to_hex :: "bytes \<Rightarrow> bytes" where
  "to_hex bs = concat (map hex_byte bs)"

section \<open>The codec of the CONNECT-IP headers\<close>

definition connectip_nibble :: "byte \<Rightarrow> byte option" where
  "connectip_nibble c =
     (if 48 \<le> c \<and> c \<le> 57 then Some (c - 48)
      else if 97 \<le> c \<and> c \<le> 102 then Some (c - 97 + 10)
      else if 65 \<le> c \<and> c \<le> 70 then Some (c - 65 + 10)
      else None)"

fun connectip_chunks :: "bytes \<Rightarrow> bytes option" where
  "connectip_chunks (a # b # rest) =
     (case connectip_nibble a of None \<Rightarrow> None
      | Some h \<Rightarrow> (case connectip_nibble b of None \<Rightarrow> None
         | Some l \<Rightarrow> map_option (Cons (push_bit 4 h OR l)) (connectip_chunks rest)))"
| "connectip_chunks _ = Some []"

definition connectip_from_hex :: "bytes \<Rightarrow> bytes option" where
  "connectip_from_hex h = (if length h mod 2 \<noteq> 0 then None else connectip_chunks h)"

definition connectip_to_hex :: "bytes \<Rightarrow> bytes" where
  "connectip_to_hex bs =
     concat (map (\<lambda>b. [HEX ! unat (drop_bit 4 b), HEX ! unat (b AND 15)]) bs)"

section \<open>The codec of the Coordinator\<close>

text \<open>
  \<open>format!("{x:02x}")\<close>: the digits of the value in base 16, without leading zeros, padded on the
  left with \<open>0\<close> to two characters.
\<close>

fun hex_digits :: "nat \<Rightarrow> bytes" where
  "hex_digits n = (if n < 16 then [HEX ! n] else hex_digits (n div 16) @ [HEX ! (n mod 16)])"

declare hex_digits.simps [simp del]

definition fmt_02x :: "byte \<Rightarrow> bytes" where
  "fmt_02x b = (let ds = hex_digits (unat b) in replicate (2 - length ds) 48 @ ds)"

definition api_to_hex :: "bytes \<Rightarrow> bytes" where
  "api_to_hex bs = concat (map fmt_02x bs)"

definition config_nib :: "byte \<Rightarrow> byte option" where
  "config_nib c =
     (if 48 \<le> c \<and> c \<le> 57 then Some (c - 48)
      else if 97 \<le> c \<and> c \<le> 102 then Some (c - 97 + 10)
      else if 65 \<le> c \<and> c \<le> 70 then Some (c - 65 + 10)
      else None)"

fun config_chunks :: "bytes \<Rightarrow> bytes option" where
  "config_chunks (a # b # rest) =
     (case config_nib a of None \<Rightarrow> None
      | Some h \<Rightarrow> (case config_nib b of None \<Rightarrow> None
         | Some l \<Rightarrow> map_option (Cons (push_bit 4 h OR l)) (config_chunks rest)))"
| "config_chunks _ = Some []"

definition config_from_hex :: "bytes \<Rightarrow> bytes option" where
  "config_from_hex h = (if length h mod 2 \<noteq> 0 then None else config_chunks h)"

section \<open>Lemmas on digits\<close>

definition ascii_lower :: "byte \<Rightarrow> byte" where
  "ascii_lower c = (if 65 \<le> c \<and> c \<le> 90 then c + 32 else c)"

text \<open>The bytes a canonical (lowercase) hexadecimal text is made of.\<close>

definition lower_hex_digit :: "byte \<Rightarrow> bool" where
  "lower_hex_digit b \<longleftrightarrow> (48 \<le> b \<and> b \<le> 57) \<or> (97 \<le> b \<and> b \<le> 102)"

lemma less_16_cases:
  "(n::nat) < 16 \<Longrightarrow> n \<in> {0, 1, 2, 3, 4, 5, 6, 7, 8, 9, 10, 11, 12, 13, 14, 15}"
  by simp arith

lemma HEX_nth: "n < 16 \<Longrightarrow> HEX ! n = word_of_nat (if n < 10 then 48 + n else 87 + n)"
  by (drule less_16_cases) (auto simp: HEX_def lit_def)

lemma nib_HEX: "n < 16 \<Longrightarrow> nib (HEX ! n) = Some (word_of_nat n)"
  by (drule less_16_cases) (auto simp: HEX_def lit_def nib_def)

lemma HEX_lower: "n < 16 \<Longrightarrow> lower_hex_digit (HEX ! n)"
  by (drule less_16_cases) (auto simp: HEX_def lit_def lower_hex_digit_def)

lemma nib_Some:
  assumes "nib c = Some v"
  shows "unat v < 16" and "HEX ! unat v = ascii_lower c"
proof -
  have "unat v < 16 \<and> HEX ! unat v = ascii_lower c"
  proof (cases "48 \<le> c \<and> c \<le> 57")
    case True
    with assms have v: "unat v = unat c - 48" "unat c \<le> 57"
      by (auto simp: nib_def unat_sub word_le_nat_alt)
    with True show ?thesis
      by (auto simp: HEX_nth ascii_lower_def word_le_nat_alt)
  next
    case False
    show ?thesis
    proof (cases "97 \<le> c \<and> c \<le> 102")
      case True
      with False assms have "v = c - 87" by (auto simp: nib_def split: if_splits)
      with True have "unat v = unat c - 87" "97 \<le> unat c" "unat c \<le> 102"
        by (auto simp: unat_sub word_le_nat_alt)
      with True show ?thesis
        by (auto simp: HEX_nth ascii_lower_def word_le_nat_alt)
    next
      case F2: False
      with False assms have c: "65 \<le> c" "c \<le> 70" and "v = c - 55"
        by (auto simp: nib_def split: if_splits)
      then have "unat v = unat c - 55" "65 \<le> unat c" "unat c \<le> 70"
        by (auto simp: unat_sub word_le_nat_alt)
      then show ?thesis
        by (auto simp: HEX_nth ascii_lower_def word_le_nat_alt of_nat_diff)
    qed
  qed
  then show "unat v < 16" "HEX ! unat v = ascii_lower c" by auto
qed

lemma and_15_take_bit: "b AND 15 = take_bit 4 (b :: byte)"
  by (simp add: take_bit_eq_mask mask_eq_exp_minus_1)

lemma nibbles_join: "push_bit 4 (drop_bit 4 b) OR (b AND 15) = (b :: byte)"
  unfolding and_15_take_bit by (rule bit_word_eqI) (auto simp: bit_simps)

lemma nibble_bounds: "unat (drop_bit 4 (b :: byte)) < 16" "unat (b AND 15 :: byte) < 16"
proof -
  show "unat (drop_bit 4 b) < 16"
    using unat_byte_lt [of b] by (simp add: drop_bit_eq_div unat_div less_mult_imp_div_less)
  show "unat (b AND 15) < 16"
    by (simp add: and_15_take_bit take_bit_eq_mod unat_mod)
qed

lemma hex_chunks_hex_byte [simp]: "hex_chunks (hex_byte b @ s) = map_option (Cons b) (hex_chunks s)"
  using nibble_bounds [of b] by (simp add: hex_byte_def nib_HEX nibbles_join)

lemma length_hex_byte [simp]: "length (hex_byte b) = 2"
  by (simp add: hex_byte_def)

lemma to_hex_simps [simp]:
  "to_hex [] = []"
  "to_hex (b # bs) = hex_byte b @ to_hex bs"
  by (simp_all add: to_hex_def)

lemma length_to_hex [simp]: "length (to_hex bs) = 2 * length bs"
  by (induction bs) auto

lemma hex_chunks_to_hex: "hex_chunks (to_hex bs) = Some bs"
  by (induction bs) auto

lemma from_hex_to_hex [simp]: "from_hex (to_hex bs) = Some bs"
  by (simp add: from_hex_def hex_chunks_to_hex)

lemma nibble_bit_less:
  assumes "unat (h :: byte) < 16" and "bit h n"
  shows "n < 4"
proof -
  have "take_bit 4 h = h"
    using assms(1) by (simp add: take_bit_eq_mod word_unat_eq_iff unat_mod)
  then show ?thesis
    using assms(2) by (metis bit_take_bit_iff)
qed

lemma hex_join_split:
  assumes "unat h < 16" and "unat l < 16"
  shows "drop_bit 4 (push_bit 4 h OR l) = (h :: byte)" and "(push_bit 4 h OR l) AND 15 = l"
proof -
  note hl = nibble_bit_less [OF assms(1)] nibble_bit_less [OF assms(2)]
  show "drop_bit 4 (push_bit 4 h OR l) = h"
    by (rule bit_word_eqI) (auto simp: bit_simps dest: hl)
  show "(push_bit 4 h OR l) AND 15 = l"
    unfolding and_15_take_bit by (rule bit_word_eqI) (auto simp: bit_simps dest: hl)
qed

lemma hex_byte_join:
  "nib a = Some h \<Longrightarrow> nib b = Some l \<Longrightarrow>
     hex_byte (push_bit 4 h OR l) = [ascii_lower a, ascii_lower b]"
  unfolding hex_byte_def by (simp only: hex_join_split nib_Some)

lemma to_hex_hex_chunks:
  "hex_chunks s = Some bs \<Longrightarrow> even (length s) \<Longrightarrow> to_hex bs = map ascii_lower s"
  by (induction s arbitrary: bs rule: hex_chunks.induct)
     (auto simp: hex_byte_join split: option.splits)

lemma to_hex_from_hex: "from_hex s = Some bs \<Longrightarrow> to_hex bs = map ascii_lower s"
  by (auto simp: from_hex_def to_hex_hex_chunks even_iff_mod_2_eq_zero split: if_splits)

lemma ascii_lower_id: "lower_hex_digit c \<Longrightarrow> ascii_lower c = c"
  by (auto simp: lower_hex_digit_def ascii_lower_def word_le_nat_alt)

lemma to_hex_lower: "list_all lower_hex_digit (to_hex bs)"
  using nibble_bounds by (induction bs) (auto simp: hex_byte_def HEX_lower)

lemma length_from_hex: "from_hex s = Some bs \<Longrightarrow> length s = 2 * length bs"
  by (metis length_map length_to_hex to_hex_from_hex)

lemma hex_digits_eq:
  "hex_digits n = (if n < 16 then [HEX ! n] else hex_digits (n div 16) @ [HEX ! (n mod 16)])"
  by (rule hex_digits.simps)

lemma fmt_02x_hex_byte: "fmt_02x b = hex_byte b"
proof -
  have hi: "unat (drop_bit 4 b) = unat b div 16" by (simp add: drop_bit_eq_div unat_div)
  have lo: "unat (b AND 15) = unat b mod 16"
    by (simp add: and_15_take_bit take_bit_eq_mod unat_mod)
  have "unat b div 16 < 16"
    using unat_byte_lt [of b] by (simp add: less_mult_imp_div_less)
  then have "hex_digits (unat b) = (if unat b < 16 then [HEX ! unat b]
      else [HEX ! (unat b div 16), HEX ! (unat b mod 16)])"
    by (subst hex_digits_eq) (simp add: hex_digits_eq [of "unat b div 16"])
  then show ?thesis
    by (simp add: fmt_02x_def hex_byte_def hi lo Let_def HEX_nth [of 0])
qed

section \<open>The contract of a codec\<close>

text \<open>
  What the callers rely on: decoding inverts encoding, what decodes is the encoding up to the case
  of its letters, and an encoding is lowercase. Every copy satisfies it, so an identifier one
  component renders and another parses is the same byte string, and a canonical (lowercase)
  spelling is unique.
\<close>

locale hex_codec =
  fixes enc :: "bytes \<Rightarrow> bytes" and dec :: "bytes \<Rightarrow> bytes option"
  assumes dec_enc: "dec (enc bs) = Some bs"
    and enc_dec: "dec s = Some bs \<Longrightarrow> enc bs = map ascii_lower s"
    and enc_lower: "list_all lower_hex_digit (enc bs)"
    and enc_length: "length (enc bs) = 2 * length bs"
begin

lemma enc_inject: "enc as = enc bs \<longleftrightarrow> as = bs"
  by (metis dec_enc option.inject)

lemma lower_unique:
  assumes "dec s = Some bs" and "list_all lower_hex_digit s"
  shows "s = enc bs"
proof -
  have "map ascii_lower s = s"
    using assms(2) by (induction s) (auto simp: ascii_lower_id)
  then show ?thesis using enc_dec [OF assms(1)] by simp
qed

lemma dec_length: "dec s = Some bs \<Longrightarrow> length s = 2 * length bs"
  by (metis enc_dec enc_length length_map)

end

interpretation core_hex: hex_codec to_hex from_hex
  by unfold_locales (simp_all add: to_hex_from_hex to_hex_lower)

lemma connectip_nibble_eq: "connectip_nibble = nib"
  by (simp add: fun_eq_iff connectip_nibble_def nib_def)

lemma connectip_chunks_eq: "connectip_chunks s = hex_chunks s"
  by (induction s rule: hex_chunks.induct) (auto simp: connectip_nibble_eq split: option.splits)

lemma connectip_hex_eq: "connectip_to_hex = to_hex" "connectip_from_hex = from_hex"
  by (auto simp: fun_eq_iff connectip_to_hex_def to_hex_def hex_byte_def [abs_def]
      connectip_from_hex_def from_hex_def connectip_chunks_eq)

interpretation connectip_hex: hex_codec connectip_to_hex connectip_from_hex
  unfolding connectip_hex_eq by (rule core_hex.hex_codec_axioms)

lemma config_nib_eq: "config_nib = nib"
  by (simp add: fun_eq_iff config_nib_def nib_def)

lemma config_chunks_eq: "config_chunks s = hex_chunks s"
  by (induction s rule: hex_chunks.induct) (auto simp: config_nib_eq split: option.splits)

lemma config_hex_eq: "api_to_hex = to_hex" "config_from_hex = from_hex"
  by (auto simp: fun_eq_iff api_to_hex_def to_hex_def fmt_02x_hex_byte [abs_def]
      config_from_hex_def from_hex_def config_chunks_eq)

interpretation coordinator_hex: hex_codec api_to_hex config_from_hex
  unfolding config_hex_eq by (rule core_hex.hex_codec_axioms)

section \<open>Properties\<close>

text \<open>
  The three codecs are interchangeable. Each decodes what it or another one encoded, to the
  same bytes; and a text is accepted exactly when, up to the case of its letters, it is the
  encoding of the bytes it decodes to, so the lowercase spelling is unique.
\<close>

theorem hex_codecs_interchangeable:
  "from_hex (to_hex bs) = Some bs \<and> config_from_hex (api_to_hex bs) = Some bs \<and>
   connectip_from_hex (connectip_to_hex bs) = Some bs \<and>
   api_to_hex bs = to_hex bs \<and> connectip_to_hex bs = to_hex bs \<and>
   config_from_hex s = from_hex s \<and> connectip_from_hex s = from_hex s \<and>
   (from_hex s = Some bs \<longleftrightarrow> map ascii_lower s = to_hex bs \<and> from_hex s \<noteq> None)"
  using core_hex.enc_dec [of s] core_hex.enc_inject
  by (auto simp: connectip_hex_eq config_hex_eq core_hex.dec_enc)

end
