(* ===== verification/Grant.thy ===== *)
theory Grant
  imports Nil_Prelude
begin

text \<open>
  \<open>nil-core/src/grant.rs\<close>: short-lived, audience-bound node grants (NWG2). The Coordinator signs one
  grant per selected node (\<open>grant_mint\<close>); a node holds public keys only and verifies
  (\<open>grant_verify\<close>, \<open>grant_verify_for_node\<close>).

  Ed25519 and SHA-256 are third-party code: they are the fields of a record \<open>crypto\<close> every
  definition that uses them takes as its argument. \<open>crypto_ok\<close> states what the code relies on.
\<close>

section \<open>Primitives the module calls\<close>

record crypto =
  cr_sha256 :: "bytes \<Rightarrow> bytes"
  cr_public :: "bytes \<Rightarrow> bytes"
  cr_sign :: "bytes \<Rightarrow> bytes \<Rightarrow> bytes"
  cr_key_valid :: "bytes \<Rightarrow> bool"
  cr_key_weak :: "bytes \<Rightarrow> bool"
  cr_signature_ok :: "bytes \<Rightarrow> bool"
  cr_verify_strict :: "bytes \<Rightarrow> bytes \<Rightarrow> bytes \<Rightarrow> bool"

text \<open>
  The documented behaviour of the primitives: output lengths, and that a signature of a key pair
  is well formed and verifies under its public key, which is a valid, non-weak key.
\<close>

definition crypto_ok :: "crypto \<Rightarrow> bool" where
  "crypto_ok C \<longleftrightarrow>
     (\<forall>m. length (cr_sha256 C m) = 32) \<and>
     (\<forall>k m. length (cr_sign C k m) = 64) \<and>
     (\<forall>k m. cr_signature_ok C (cr_sign C k m)) \<and>
     (\<forall>k. length (cr_public C k) = 32 \<and> cr_key_valid C (cr_public C k)
        \<and> \<not> cr_key_weak C (cr_public C k)) \<and>
     (\<forall>k m. cr_verify_strict C (cr_public C k) m (cr_sign C k m))"

section \<open>Constants\<close>

definition MAGIC :: bytes where "MAGIC = lit ''NWG2''"
definition LEGACY_MAGIC :: bytes where "LEGACY_MAGIC = lit ''NWG1''"
definition KEY_ID_DOMAIN :: bytes where "KEY_ID_DOMAIN = lit ''nilvpn.nwg2.key-id''"
definition KEY_ID_LEN :: nat where "KEY_ID_LEN = 32"
definition NONCE_LEN :: nat where "NONCE_LEN = 32"
definition MEASUREMENT_LEN :: nat where "MEASUREMENT_LEN = 48"
definition TLS_SPKI_SHA256_LEN :: nat where "TLS_SPKI_SHA256_LEN = 32"
definition PREVIOUS_HOP_LEN :: nat where "PREVIOUS_HOP_LEN = 1 + 4"
definition NEXT_HOP_LEN :: nat where "NEXT_HOP_LEN = 1 + 4 + 2"
definition SIGNATURE_LEN :: nat where "SIGNATURE_LEN = 64"

definition KEY_ID_OFFSET :: nat where "KEY_ID_OFFSET = length MAGIC"
definition ISSUED_AT_OFFSET :: nat where "ISSUED_AT_OFFSET = KEY_ID_OFFSET + KEY_ID_LEN"
definition EXPIRES_AT_OFFSET :: nat where "EXPIRES_AT_OFFSET = ISSUED_AT_OFFSET + 8"
definition NONCE_OFFSET :: nat where "NONCE_OFFSET = EXPIRES_AT_OFFSET + 8"
definition ROLE_OFFSET :: nat where "ROLE_OFFSET = NONCE_OFFSET + NONCE_LEN"
definition TRANSPORT_OFFSET :: nat where "TRANSPORT_OFFSET = ROLE_OFFSET + 1"
definition TEE_OFFSET :: nat where "TEE_OFFSET = TRANSPORT_OFFSET + 1"
definition REALM_LEN_OFFSET :: nat where "REALM_LEN_OFFSET = TEE_OFFSET + 1"
definition NODE_ID_LEN_OFFSET :: nat where "NODE_ID_LEN_OFFSET = REALM_LEN_OFFSET + 2"
definition IDENTIFIERS_OFFSET :: nat where "IDENTIFIERS_OFFSET = NODE_ID_LEN_OFFSET + 2"

definition MIN_TOKEN_LEN :: nat where
  "MIN_TOKEN_LEN = IDENTIFIERS_OFFSET + 2 + MEASUREMENT_LEN + TLS_SPKI_SHA256_LEN
     + PREVIOUS_HOP_LEN + NEXT_HOP_LEN + SIGNATURE_LEN"

definition MAX_GRANT_IDENTIFIER_LEN :: nat where "MAX_GRANT_IDENTIFIER_LEN = 64"

definition MAX_GRANT_TOKEN_LEN :: nat where
  "MAX_GRANT_TOKEN_LEN = IDENTIFIERS_OFFSET + (2 * MAX_GRANT_IDENTIFIER_LEN) + MEASUREMENT_LEN
     + TLS_SPKI_SHA256_LEN + PREVIOUS_HOP_LEN + NEXT_HOP_LEN + SIGNATURE_LEN"

definition MAX_GRANT_TTL_SECS :: u64 where "MAX_GRANT_TTL_SECS = 600"
definition MAX_GRANT_CLOCK_SKEW_SECS :: u64 where "MAX_GRANT_CLOCK_SKEW_SECS = 30"

section \<open>Enumerations\<close>

datatype tee = SevSnp | Tdx

datatype grant_role = Entry | Middle | Exit

datatype grant_transport = Masque | AmneziaWg | Wstunnel | Reality

fun role_to_wire :: "grant_role \<Rightarrow> byte" where
  "role_to_wire Entry = 1" | "role_to_wire Middle = 2" | "role_to_wire Exit = 3"

definition role_parse :: "bytes \<Rightarrow> grant_role option" where
  "role_parse v =
     (if v = lit ''entry'' then Some Entry
      else if v = lit ''middle'' then Some Middle
      else if v = lit ''exit'' then Some Exit else None)"

fun role_as_str :: "grant_role \<Rightarrow> bytes" where
  "role_as_str Entry = lit ''entry''"
| "role_as_str Middle = lit ''middle''"
| "role_as_str Exit = lit ''exit''"

definition role_from_wire :: "byte \<Rightarrow> grant_role option" where
  "role_from_wire v =
     (if v = 1 then Some Entry else if v = 2 then Some Middle else if v = 3 then Some Exit else None)"

fun transport_to_wire :: "grant_transport \<Rightarrow> byte" where
  "transport_to_wire Masque = 1" | "transport_to_wire AmneziaWg = 2"
| "transport_to_wire Wstunnel = 3" | "transport_to_wire Reality = 4"

definition transport_parse :: "bytes \<Rightarrow> grant_transport option" where
  "transport_parse v =
     (if v = lit ''masque'' then Some Masque
      else if v = lit ''amnezia-wg'' then Some AmneziaWg
      else if v = lit ''wstunnel'' then Some Wstunnel
      else if v = lit ''reality'' then Some Reality else None)"

fun transport_as_str :: "grant_transport \<Rightarrow> bytes" where
  "transport_as_str Masque = lit ''masque''"
| "transport_as_str AmneziaWg = lit ''amnezia-wg''"
| "transport_as_str Wstunnel = lit ''wstunnel''"
| "transport_as_str Reality = lit ''reality''"

definition transport_from_wire :: "byte \<Rightarrow> grant_transport option" where
  "transport_from_wire v =
     (if v = 1 then Some Masque else if v = 2 then Some AmneziaWg
      else if v = 3 then Some Wstunnel else if v = 4 then Some Reality else None)"

fun tee_to_wire :: "tee \<Rightarrow> byte" where
  "tee_to_wire SevSnp = 1" | "tee_to_wire Tdx = 2"

definition tee_from_wire :: "byte \<Rightarrow> tee option" where
  "tee_from_wire v = (if v = 1 then Some SevSnp else if v = 2 then Some Tdx else None)"

section \<open>Errors and identifiers\<close>

datatype grant_error =
    InvalidSigningKeyLength | InvalidPublicKey | NoVerificationKeys | KeyIdCollision
  | InvalidIdentifier string | InvalidTtl | TimeOverflow | LegacyGrantRejected
  | UnsupportedVersion | Malformed | UnknownKey | BadSignature | InvalidLifetime
  | NotYetValid | Expired | InvalidNextHopPolicy | WrongAudience

definition is_edge :: "byte \<Rightarrow> bool" where
  "is_edge b \<longleftrightarrow> is_ascii_lowercase b \<or> is_ascii_digit b"

definition is_inner :: "byte \<Rightarrow> bool" where
  "is_inner b \<longleftrightarrow> is_edge b \<or> b \<in> set (lit ''._:-'')"

definition validate_named_identifier :: "string \<Rightarrow> bytes \<Rightarrow> grant_error + unit" where
  "validate_named_identifier name bs =
     (if bs = [] \<or> length bs > MAX_GRANT_IDENTIFIER_LEN then Inl (InvalidIdentifier name)
      else if \<not> is_edge (bs ! 0) \<or> \<not> is_edge (bs ! (length bs - 1)) \<or> \<not> list_all is_inner bs
      then Inl (InvalidIdentifier name)
      else Inr ())"

definition validate_identifier :: "bytes \<Rightarrow> grant_error + unit" where
  "validate_identifier identifier = validate_named_identifier ''grant identifier'' identifier"

definition key_id_for_public_key :: "crypto \<Rightarrow> bytes \<Rightarrow> bytes" where
  "key_id_for_public_key C public_key = cr_sha256 C (KEY_ID_DOMAIN @ public_key)"

text \<open>\<open>SystemTime::now().duration_since(UNIX_EPOCH)\<close> is \<open>None\<close> for a clock before 1970.\<close>

definition now_unix_secs :: "duration option \<Rightarrow> u64" where
  "now_unix_secs since_epoch = (case since_epoch of Some d \<Rightarrow> du_secs d | None \<Rightarrow> 0)"

definition now_unix_secs_for_expiry :: "duration option \<Rightarrow> u64" where
  "now_unix_secs_for_expiry since_epoch = (case since_epoch of Some d \<Rightarrow> du_secs d | None \<Rightarrow> - 1)"

section \<open>Identities and audiences\<close>

record node_identity =
  gi_realm :: bytes
  gi_node_id :: bytes
  gi_role :: grant_role
  gi_transport :: grant_transport
  gi_tee :: tee
  gi_measurement :: bytes
  gi_tls_spki_sha256 :: bytes

definition node_identity_new ::
  "bytes \<Rightarrow> bytes \<Rightarrow> grant_role \<Rightarrow> grant_transport \<Rightarrow> tee \<Rightarrow> bytes \<Rightarrow> bytes \<Rightarrow> grant_error + node_identity"
where
  "node_identity_new realm node_id role transport tee measurement tls_spki_sha256 =
     bindE (validate_named_identifier ''grant realm'' realm) (\<lambda>_.
     bindE (validate_named_identifier ''grant node_id'' node_id) (\<lambda>_.
     Inr \<lparr>gi_realm = realm, gi_node_id = node_id, gi_role = role, gi_transport = transport,
          gi_tee = tee, gi_measurement = measurement, gi_tls_spki_sha256 = tls_spki_sha256\<rparr>))"

record audience =
  au_node :: node_identity
  au_previous_hop :: "ipv4addr option"
  au_next_hop :: "socket_addr_v4 option"

definition from_node_identity ::
  "node_identity \<Rightarrow> ipv4addr option \<Rightarrow> socket_addr_v4 option \<Rightarrow> grant_error + audience"
where
  "from_node_identity node previous_hop next_hop =
     (let ok = Inr \<lparr>au_node = node, au_previous_hop = previous_hop, au_next_hop = next_hop\<rparr>;
          bad = Inl InvalidNextHopPolicy
      in case (gi_role node, previous_hop, next_hop) of
           (Entry, None, Some endpoint) \<Rightarrow> if sa_port endpoint \<noteq> 0 then ok else bad
         | (Middle, Some _, Some endpoint) \<Rightarrow> if sa_port endpoint \<noteq> 0 then ok else bad
         | (Exit, _, None) \<Rightarrow> ok
         | _ \<Rightarrow> bad)"

definition audience_new ::
  "bytes \<Rightarrow> bytes \<Rightarrow> grant_role \<Rightarrow> grant_transport \<Rightarrow> tee \<Rightarrow> bytes \<Rightarrow> bytes \<Rightarrow>
   ipv4addr option \<Rightarrow> socket_addr_v4 option \<Rightarrow> grant_error + audience"
where
  "audience_new realm node_id role transport tee measurement tls_spki_sha256 previous_hop next_hop =
     bindE (node_identity_new realm node_id role transport tee measurement tls_spki_sha256) (\<lambda>node.
     from_node_identity node previous_hop next_hop)"

section \<open>Keys\<close>

record signing_key =
  sk_seed :: bytes

definition from_seed :: "bytes \<Rightarrow> signing_key" where
  "from_seed seed = \<lparr>sk_seed = seed\<rparr>"

definition try_from_slice :: "bytes \<Rightarrow> grant_error + signing_key" where
  "try_from_slice seed =
     (if length seed = 32 then Inr (from_seed seed) else Inl InvalidSigningKeyLength)"

definition public_key_bytes :: "crypto \<Rightarrow> signing_key \<Rightarrow> bytes" where
  "public_key_bytes C key = cr_public C (sk_seed key)"

definition signing_key_id :: "crypto \<Rightarrow> signing_key \<Rightarrow> bytes" where
  "signing_key_id C key = key_id_for_public_key C (public_key_bytes C key)"

text \<open>The verifier's \<open>HashMap\<close> from key identifiers to keys, as an association list.\<close>

record verifier =
  gv_keys :: "(bytes \<times> bytes) list"

definition add_public_key :: "crypto \<Rightarrow> verifier \<Rightarrow> bytes \<Rightarrow> grant_error + (bytes \<times> verifier)" where
  "add_public_key C v public_key =
     (if \<not> cr_key_valid C public_key then Inl InvalidPublicKey
      else if cr_key_weak C public_key then Inl InvalidPublicKey
      else let key_id = key_id_for_public_key C public_key in
        (case map_of (gv_keys v) key_id of
           Some existing \<Rightarrow>
             if existing \<noteq> public_key then Inl KeyIdCollision else Inr (key_id, v)
         | None \<Rightarrow>
             Inr (key_id, v\<lparr>gv_keys := AList.update key_id public_key (gv_keys v)\<rparr>)))"

fun add_public_keys :: "crypto \<Rightarrow> verifier \<Rightarrow> bytes list \<Rightarrow> grant_error + verifier" where
  "add_public_keys C v [] = Inr v"
| "add_public_keys C v (k # ks) =
     bindE (add_public_key C v k) (\<lambda>(_, v'). add_public_keys C v' ks)"

definition verifier_new :: "crypto \<Rightarrow> bytes list \<Rightarrow> grant_error + verifier" where
  "verifier_new C public_keys =
     bindE (add_public_keys C \<lparr>gv_keys = []\<rparr> public_keys) (\<lambda>v.
     if gv_keys v = [] then Inl NoVerificationKeys else Inr v)"

definition from_public_key :: "crypto \<Rightarrow> bytes \<Rightarrow> grant_error + verifier" where
  "from_public_key C public_key = verifier_new C [public_key]"

definition key_ids :: "verifier \<Rightarrow> bytes list" where
  "key_ids v = sort (map fst (gv_keys v))"

definition contains_key_id :: "verifier \<Rightarrow> bytes \<Rightarrow> bool" where
  "contains_key_id v key_id = (map_of (gv_keys v) key_id \<noteq> None)"

section \<open>Minting\<close>

record grant =
  gr_token :: bytes
  gr_nonce :: bytes

definition previous_hop_wire :: "ipv4addr option \<Rightarrow> bytes" where
  "previous_hop_wire h =
     (case h of Some ip \<Rightarrow> 1 # ipv4_octets ip | None \<Rightarrow> replicate PREVIOUS_HOP_LEN 0)"

definition next_hop_wire :: "socket_addr_v4 option \<Rightarrow> bytes" where
  "next_hop_wire h =
     (case h of Some ep \<Rightarrow> 1 # ipv4_octets (sa_ip ep) @ to_be 2 (sa_port ep)
      | None \<Rightarrow> replicate NEXT_HOP_LEN 0)"

definition grant_mint ::
  "crypto \<Rightarrow> signing_key \<Rightarrow> audience \<Rightarrow> bytes \<Rightarrow> duration \<Rightarrow> u64 \<Rightarrow> grant_error + grant"
where
  "grant_mint C key aud nonce ttl now =
     (let node = au_node aud; realm = gi_realm node; node_id = gi_node_id node in
      bindE (validate_named_identifier ''grant realm'' realm) (\<lambda>_.
      bindE (validate_named_identifier ''grant node_id'' node_id) (\<lambda>_.
      let ttl_secs = du_secs ttl in
      if du_nanos ttl \<noteq> 0 \<or> \<not> (1 \<le> ttl_secs \<and> ttl_secs \<le> MAX_GRANT_TTL_SECS) then Inl InvalidTtl
      else
      bindE (ok_or TimeOverflow (checked_add now ttl_secs)) (\<lambda>expires_at.
      bindE (ok_or (InvalidIdentifier ''grant realm'') (u16_try_from (length realm))) (\<lambda>realm_len.
      bindE (ok_or (InvalidIdentifier ''grant node_id'') (u16_try_from (length node_id))) (\<lambda>node_id_len.
      bindE (ok_or Malformed (checked_add_usize IDENTIFIERS_OFFSET (length realm))) (\<lambda>l1.
      bindE (ok_or Malformed (checked_add_usize l1 (length node_id))) (\<lambda>l2.
      bindE (ok_or Malformed (checked_add_usize l2 MEASUREMENT_LEN)) (\<lambda>l3.
      bindE (ok_or Malformed (checked_add_usize l3 TLS_SPKI_SHA256_LEN)) (\<lambda>l4.
      bindE (ok_or Malformed (checked_add_usize l4 PREVIOUS_HOP_LEN)) (\<lambda>l5.
      bindE (ok_or Malformed (checked_add_usize l5 NEXT_HOP_LEN)) (\<lambda>payload_len.
      let token = MAGIC @ signing_key_id C key @ to_be 8 now @ to_be 8 expires_at @ nonce
            @ [role_to_wire (gi_role node), transport_to_wire (gi_transport node),
               tee_to_wire (gi_tee node)]
            @ to_be 2 realm_len @ to_be 2 node_id_len @ realm @ node_id
            @ gi_measurement node @ gi_tls_spki_sha256 node
            @ previous_hop_wire (au_previous_hop aud) @ next_hop_wire (au_next_hop aud)
      in Inr \<lparr>gr_token = token @ cr_sign C (sk_seed key) token, gr_nonce = nonce\<rparr>))))))))))))"

section \<open>Parsing\<close>

record parsed_grant =
  pg_key_id :: bytes
  pg_issued_at :: u64
  pg_expires_at :: u64
  pg_nonce :: bytes
  pg_audience :: audience
  pg_signed_payload :: bytes
  pg_signature :: bytes

definition read_array :: "nat \<Rightarrow> bytes \<Rightarrow> nat \<Rightarrow> grant_error + bytes" where
  "read_array n token offset =
     bindE (ok_or Malformed (checked_add_usize offset n)) (\<lambda>e.
     bindE (ok_or Malformed (get_range token offset e)) (\<lambda>bs.
     if length bs = n then Inr bs else Inl Malformed))"

definition read_u16 :: "bytes \<Rightarrow> nat \<Rightarrow> grant_error + u16" where
  "read_u16 token offset = bindE (read_array 2 token offset) (\<lambda>bs. Inr (of_be bs))"

definition read_u64 :: "bytes \<Rightarrow> nat \<Rightarrow> grant_error + u64" where
  "read_u64 token offset = bindE (read_array 8 token offset) (\<lambda>bs. Inr (of_be bs))"

definition parse_previous_hop :: "bytes \<Rightarrow> grant_error + ipv4addr option" where
  "parse_previous_hop w =
     (case w of
        [f, a, b, c, d] \<Rightarrow>
          if w = [0, 0, 0, 0, 0] then Inr None
          else if f = 1 then Inr (Some (Ipv4Addr a b c d))
          else Inl Malformed
      | _ \<Rightarrow> Inl Malformed)"

definition parse_next_hop :: "bytes \<Rightarrow> grant_error + socket_addr_v4 option" where
  "parse_next_hop w =
     (case w of
        [f, a, b, c, d, port_hi, port_lo] \<Rightarrow>
          if w = [0, 0, 0, 0, 0, 0, 0] then Inr None
          else if f = 1 then
            (let port = of_be [port_hi, port_lo] in
             if port = 0 then Inl Malformed else Inr (Some (SocketAddrV4 (Ipv4Addr a b c d) port)))
          else Inl Malformed
      | _ \<Rightarrow> Inl Malformed)"

definition grant_parse :: "crypto \<Rightarrow> bytes \<Rightarrow> grant_error + parsed_grant" where
  "grant_parse C token =
     (if starts_with token LEGACY_MAGIC then Inl LegacyGrantRejected
      else if length token < MIN_TOKEN_LEN then Inl Malformed
      else if get_range token 0 (length MAGIC) \<noteq> Some MAGIC then Inl UnsupportedVersion
      else
      bindE (ok_or Malformed (checked_sub_usize (length token) SIGNATURE_LEN)) (\<lambda>signature_offset.
      bindE (read_u16 token REALM_LEN_OFFSET) (\<lambda>rl.
      bindE (read_u16 token NODE_ID_LEN_OFFSET) (\<lambda>nl.
      let realm_len = unat rl; node_id_len = unat nl in
      if realm_len = 0 \<or> realm_len > MAX_GRANT_IDENTIFIER_LEN
         \<or> node_id_len = 0 \<or> node_id_len > MAX_GRANT_IDENTIFIER_LEN then Inl Malformed
      else
      bindE (ok_or Malformed (checked_add_usize IDENTIFIERS_OFFSET realm_len)) (\<lambda>realm_end.
      bindE (ok_or Malformed (checked_add_usize realm_end node_id_len)) (\<lambda>node_id_end.
      bindE (ok_or Malformed (checked_add_usize node_id_end MEASUREMENT_LEN)) (\<lambda>measurement_end.
      bindE (ok_or Malformed (checked_add_usize measurement_end TLS_SPKI_SHA256_LEN)) (\<lambda>spki_end.
      bindE (ok_or Malformed (checked_add_usize spki_end PREVIOUS_HOP_LEN)) (\<lambda>previous_hop_end.
      bindE (ok_or Malformed (checked_add_usize previous_hop_end NEXT_HOP_LEN)) (\<lambda>next_hop_end.
      if next_hop_end \<noteq> signature_offset then Inl Malformed
      else
      bindE (ok_or Malformed (get_range token IDENTIFIERS_OFFSET realm_end)) (\<lambda>realm_bytes.
      bindE (ok_or Malformed (from_utf8 realm_bytes)) (\<lambda>realm.
      bindE (ok_or Malformed (get_range token realm_end node_id_end)) (\<lambda>node_id_bytes.
      bindE (ok_or Malformed (from_utf8 node_id_bytes)) (\<lambda>node_id.
      bindE (ok_or Malformed (get_at token ROLE_OFFSET)) (\<lambda>role_byte.
      bindE (ok_or Malformed (role_from_wire role_byte)) (\<lambda>role.
      bindE (ok_or Malformed (get_at token TRANSPORT_OFFSET)) (\<lambda>transport_byte.
      bindE (ok_or Malformed (transport_from_wire transport_byte)) (\<lambda>transport.
      bindE (ok_or Malformed (get_at token TEE_OFFSET)) (\<lambda>tee_byte.
      bindE (ok_or Malformed (tee_from_wire tee_byte)) (\<lambda>tee.
      bindE (ok_or Malformed (get_range token node_id_end measurement_end)) (\<lambda>measurement.
      bindE (ok_or Malformed (get_range token measurement_end spki_end)) (\<lambda>tls_spki_sha256.
      bindE (ok_or Malformed (get_range token spki_end previous_hop_end)) (\<lambda>pw.
      bindE (parse_previous_hop pw) (\<lambda>previous_hop.
      bindE (ok_or Malformed (get_range token previous_hop_end next_hop_end)) (\<lambda>nw.
      bindE (parse_next_hop nw) (\<lambda>next_hop.
      bindE (map_err (\<lambda>_. Malformed) (audience_new realm node_id role transport tee measurement
               tls_spki_sha256 previous_hop next_hop)) (\<lambda>aud.
      bindE (ok_or Malformed (get_range token signature_offset (length token))) (\<lambda>signature.
      bindE (ensure Malformed (cr_signature_ok C signature)) (\<lambda>_.
      bindE (read_array KEY_ID_LEN token KEY_ID_OFFSET) (\<lambda>key_id.
      bindE (read_u64 token ISSUED_AT_OFFSET) (\<lambda>issued_at.
      bindE (read_u64 token EXPIRES_AT_OFFSET) (\<lambda>expires_at.
      bindE (read_array NONCE_LEN token NONCE_OFFSET) (\<lambda>nonce.
      Inr \<lparr>pg_key_id = key_id, pg_issued_at = issued_at, pg_expires_at = expires_at,
           pg_nonce = nonce, pg_audience = aud,
           pg_signed_payload = take signature_offset token, pg_signature = signature\<rparr>)))))))))))))))))))))))))))))))))"

section \<open>Verification\<close>

record verified_grant =
  vg_key_id :: bytes
  vg_issued_at :: u64
  vg_expires_at :: u64
  vg_nonce :: bytes
  vg_audience :: audience

definition into_verified :: "parsed_grant \<Rightarrow> verified_grant" where
  "into_verified p =
     \<lparr>vg_key_id = pg_key_id p, vg_issued_at = pg_issued_at p, vg_expires_at = pg_expires_at p,
      vg_nonce = pg_nonce p, vg_audience = pg_audience p\<rparr>"

definition verify_authentic :: "crypto \<Rightarrow> bytes \<Rightarrow> verifier \<Rightarrow> u64 \<Rightarrow> grant_error + parsed_grant" where
  "verify_authentic C token v now =
     bindE (grant_parse C token) (\<lambda>parsed.
     bindE (ok_or UnknownKey (map_of (gv_keys v) (pg_key_id parsed))) (\<lambda>verifying_key.
     bindE (ensure BadSignature
              (cr_verify_strict C verifying_key (pg_signed_payload parsed) (pg_signature parsed))) (\<lambda>_.
     bindE (ok_or InvalidLifetime (checked_sub (pg_expires_at parsed) (pg_issued_at parsed))) (\<lambda>lifetime.
     if \<not> (1 \<le> lifetime \<and> lifetime \<le> MAX_GRANT_TTL_SECS) then Inl InvalidLifetime
     else if pg_expires_at parsed \<le> now then Inl Expired
     else if saturating_sub (pg_issued_at parsed) now > MAX_GRANT_CLOCK_SKEW_SECS then Inl NotYetValid
     else Inr parsed))))"

definition grant_verify ::
  "crypto \<Rightarrow> bytes \<Rightarrow> verifier \<Rightarrow> audience \<Rightarrow> u64 \<Rightarrow> grant_error + verified_grant"
where
  "grant_verify C token v expected_audience now =
     bindE (verify_authentic C token v now) (\<lambda>parsed.
     if pg_audience parsed \<noteq> expected_audience then Inl WrongAudience
     else Inr (into_verified parsed))"

definition grant_verify_for_node ::
  "crypto \<Rightarrow> bytes \<Rightarrow> verifier \<Rightarrow> node_identity \<Rightarrow> u64 \<Rightarrow> grant_error + verified_grant"
where
  "grant_verify_for_node C token v expected_node now =
     bindE (verify_authentic C token v now) (\<lambda>parsed.
     if au_node (pg_audience parsed) \<noteq> expected_node then Inl WrongAudience
     else Inr (into_verified parsed))"

section \<open>Codecs of the enumerations\<close>

text \<open>
  An enumeration and its wire (or text) form: decoding inverts encoding and accepts nothing else.
\<close>

locale enum_codec =
  fixes enc :: "'a \<Rightarrow> 'b" and dec :: "'b \<Rightarrow> 'a option"
  assumes dec_enc: "dec (enc x) = Some x"
    and enc_dec: "dec w = Some x \<Longrightarrow> enc x = w"
begin

lemma enc_inject: "enc x = enc y \<longleftrightarrow> x = y"
  by (metis dec_enc option.inject)

lemma dec_Some_iff: "dec w = Some x \<longleftrightarrow> w = enc x"
  by (auto simp: dec_enc enc_dec)

lemma dec_None_iff: "dec w = None \<longleftrightarrow> w \<notin> range enc"
  by (metis dec_Some_iff not_None_eq rangeE rangeI)

end

interpretation role_wire: enum_codec role_to_wire role_from_wire
proof (unfold_locales, goal_cases)
  case (1 x)
  show ?case by (cases x) (simp_all add: role_from_wire_def)
qed (auto simp: role_from_wire_def split: if_splits)

interpretation transport_wire: enum_codec transport_to_wire transport_from_wire
proof (unfold_locales, goal_cases)
  case (1 x)
  show ?case by (cases x) (simp_all add: transport_from_wire_def)
qed (auto simp: transport_from_wire_def split: if_splits)

interpretation tee_wire: enum_codec tee_to_wire tee_from_wire
proof (unfold_locales, goal_cases)
  case (1 x)
  show ?case by (cases x) (simp_all add: tee_from_wire_def)
qed (auto simp: tee_from_wire_def split: if_splits)

interpretation role_text: enum_codec role_as_str role_parse
proof (unfold_locales, goal_cases)
  case (1 x)
  show ?case by (cases x) (simp_all add: role_parse_def lit_def)
qed (auto simp: role_parse_def split: if_splits)

interpretation transport_text: enum_codec transport_as_str transport_parse
proof (unfold_locales, goal_cases)
  case (1 x)
  show ?case by (cases x) (simp_all add: transport_parse_def lit_def)
qed (auto simp: transport_parse_def split: if_splits)

section \<open>Well-formed identifiers, identities and audiences\<close>

definition identifier_ok :: "bytes \<Rightarrow> bool" where
  "identifier_ok bs \<longleftrightarrow>
     bs \<noteq> [] \<and> length bs \<le> 64 \<and> is_edge (hd bs) \<and> is_edge (last bs) \<and> (\<forall>b \<in> set bs. is_inner b)"

definition identity_ok :: "node_identity \<Rightarrow> bool" where
  "identity_ok n \<longleftrightarrow>
     identifier_ok (gi_realm n) \<and> identifier_ok (gi_node_id n) \<and>
     length (gi_measurement n) = 48 \<and> length (gi_tls_spki_sha256 n) = 32"

text \<open>
  The shape of a path: an entry has no predecessor and a next hop, a middle node has both, an exit
  has no next hop; the port of a next hop is never zero.
\<close>

definition hops_ok :: "grant_role \<Rightarrow> ipv4addr option \<Rightarrow> socket_addr_v4 option \<Rightarrow> bool" where
  "hops_ok r prev nxt \<longleftrightarrow>
     (r = Entry \<longleftrightarrow> prev = None \<and> nxt \<noteq> None) \<and>
     (r = Middle \<longleftrightarrow> prev \<noteq> None \<and> nxt \<noteq> None) \<and>
     (\<forall>ep. nxt = Some ep \<longrightarrow> sa_port ep \<noteq> 0)"

definition audience_ok :: "audience \<Rightarrow> bool" where
  "audience_ok a \<longleftrightarrow>
     identity_ok (au_node a) \<and> hops_ok (gi_role (au_node a)) (au_previous_hop a) (au_next_hop a)"

lemma validate_named_identifier_Inr [simp]:
  "validate_named_identifier name bs = Inr u \<longleftrightarrow> identifier_ok bs"
  by (auto simp: validate_named_identifier_def identifier_ok_def MAX_GRANT_IDENTIFIER_LEN_def
      hd_conv_nth last_conv_nth list_all_iff)

lemma validate_named_identifier_Inl:
  "validate_named_identifier name bs = Inl e \<longleftrightarrow> \<not> identifier_ok bs \<and> e = InvalidIdentifier name"
  by (auto simp: validate_named_identifier_def identifier_ok_def MAX_GRANT_IDENTIFIER_LEN_def
      hd_conv_nth last_conv_nth list_all_iff)

lemma is_inner_ascii: "is_inner b \<Longrightarrow> b < 128"
  by (auto simp: is_inner_def is_edge_def is_ascii_lowercase_def is_ascii_digit_def lit_def
      intro: byte_le_ascii)

lemma identifier_ok_utf8: "identifier_ok bs \<Longrightarrow> utf8_valid bs"
  by (auto simp: identifier_ok_def intro!: ascii_utf8 is_inner_ascii)

lemma from_node_identity_Inr:
  "from_node_identity n prev nxt = Inr a \<longleftrightarrow>
     hops_ok (gi_role n) prev nxt \<and> a = \<lparr>au_node = n, au_previous_hop = prev, au_next_hop = nxt\<rparr>"
  by (cases "gi_role n"; cases prev; cases nxt)
     (auto simp: from_node_identity_def hops_ok_def Let_def)

lemma audience_new_Inr:
  "audience_new realm node_id role transport tee measurement spki prev nxt = Inr a \<longleftrightarrow>
     identifier_ok realm \<and> identifier_ok node_id \<and> hops_ok role prev nxt \<and>
     a = \<lparr>au_node = \<lparr>gi_realm = realm, gi_node_id = node_id, gi_role = role,
           gi_transport = transport, gi_tee = tee, gi_measurement = measurement,
           gi_tls_spki_sha256 = spki\<rparr>, au_previous_hop = prev, au_next_hop = nxt\<rparr>"
  by (auto simp: audience_new_def node_identity_new_def from_node_identity_Inr)

section \<open>The canonical encoding\<close>

text \<open>The encoding the module's documentation gives, field by field.\<close>

definition nwg2_payload :: "bytes \<Rightarrow> u64 \<Rightarrow> u64 \<Rightarrow> bytes \<Rightarrow> audience \<Rightarrow> bytes" where
  "nwg2_payload key_id issued_at expires_at nonce aud =
     (let n = au_node aud in
      lit ''NWG2'' @ key_id @ to_be 8 issued_at @ to_be 8 expires_at @ nonce
      @ [role_to_wire (gi_role n)] @ [transport_to_wire (gi_transport n)] @ [tee_to_wire (gi_tee n)]
      @ be_of_nat 2 (length (gi_realm n)) @ be_of_nat 2 (length (gi_node_id n))
      @ gi_realm n @ gi_node_id n @ gi_measurement n @ gi_tls_spki_sha256 n
      @ previous_hop_wire (au_previous_hop aud) @ next_hop_wire (au_next_hop aud))"

lemmas grant_lengths =
  KEY_ID_LEN_def NONCE_LEN_def MEASUREMENT_LEN_def TLS_SPKI_SHA256_LEN_def PREVIOUS_HOP_LEN_def
  NEXT_HOP_LEN_def SIGNATURE_LEN_def MAX_GRANT_IDENTIFIER_LEN_def

lemma grant_offsets:
  "length MAGIC = 4" "KEY_ID_OFFSET = 4" "ISSUED_AT_OFFSET = 36" "EXPIRES_AT_OFFSET = 44"
  "NONCE_OFFSET = 52" "ROLE_OFFSET = 84" "TRANSPORT_OFFSET = 85" "TEE_OFFSET = 86"
  "REALM_LEN_OFFSET = 87" "NODE_ID_LEN_OFFSET = 89" "IDENTIFIERS_OFFSET = 91"
  "MIN_TOKEN_LEN = 249" "MAX_GRANT_TOKEN_LEN = 375"
  by (simp_all add: MAGIC_def KEY_ID_OFFSET_def ISSUED_AT_OFFSET_def EXPIRES_AT_OFFSET_def
      NONCE_OFFSET_def ROLE_OFFSET_def TRANSPORT_OFFSET_def TEE_OFFSET_def REALM_LEN_OFFSET_def
      NODE_ID_LEN_OFFSET_def IDENTIFIERS_OFFSET_def MIN_TOKEN_LEN_def MAX_GRANT_TOKEN_LEN_def
      grant_lengths)

lemma length_hop_wires [simp]:
  "length (previous_hop_wire h) = 5" "length (next_hop_wire g) = 7"
  by (simp_all add: previous_hop_wire_def next_hop_wire_def grant_lengths split: option.split)

lemma hop_wire_simps:
  "previous_hop_wire None = [0, 0, 0, 0, 0]"
  "previous_hop_wire (Some (Ipv4Addr a b c d)) = [1, a, b, c, d]"
  "next_hop_wire None = [0, 0, 0, 0, 0, 0, 0]"
  "next_hop_wire (Some (SocketAddrV4 (Ipv4Addr a b c d) p)) = [1, a, b, c, d] @ to_be 2 p"
  by (simp_all add: previous_hop_wire_def next_hop_wire_def PREVIOUS_HOP_LEN_def NEXT_HOP_LEN_def
      numeral_eq_Suc)

lemma parse_previous_hop_wire [simp]: "parse_previous_hop (previous_hop_wire h) = Inr h"
proof (cases h)
  case (Some ip)
  then show ?thesis by (cases ip) (simp add: parse_previous_hop_def hop_wire_simps)
qed (simp add: parse_previous_hop_def hop_wire_simps)

lemma parse_previous_hop_Inr:
  assumes "parse_previous_hop w = Inr h"
  shows "w = previous_hop_wire h"
proof -
  obtain f a b c d where "w = [f, a, b, c, d]"
    using assms by (auto simp: parse_previous_hop_def split: list.splits)
  with assms show ?thesis
    by (auto simp: parse_previous_hop_def hop_wire_simps split: if_splits)
qed

lemma to_be_2_split: "\<exists>hi lo. to_be 2 w = [hi, lo]"
  using length_to_be [of 2 w] by (auto simp: numeral_2_eq_2 length_Suc_conv simp del: length_to_be)

lemma parse_next_hop_wire [simp]:
  assumes "\<And>ep. h = Some ep \<Longrightarrow> sa_port ep \<noteq> 0"
  shows "parse_next_hop (next_hop_wire h) = Inr h"
proof (cases h)
  case None
  then show ?thesis by (simp add: parse_next_hop_def hop_wire_simps)
next
  case (Some ep)
  obtain a b c d p where ep: "ep = SocketAddrV4 (Ipv4Addr a b c d) p"
    by (cases ep; cases "sa_ip ep") auto
  obtain hi lo where w: "to_be 2 p = [hi, lo]" using to_be_2_split by blast
  then have "of_be [hi, lo] = p" using of_be_to_be [of 2 p] by simp
  then show ?thesis
    using assms Some ep w by (simp add: parse_next_hop_def hop_wire_simps)
qed

lemma parse_next_hop_Inr:
  assumes "parse_next_hop w = Inr h"
  shows "w = next_hop_wire h" and "\<And>ep. h = Some ep \<Longrightarrow> sa_port ep \<noteq> 0"
proof -
  obtain f a b c d p q where w: "w = [f, a, b, c, d, p, q]"
    using assms by (auto simp: parse_next_hop_def split: list.splits)
  have pq: "to_be 2 (of_be [p, q] :: u16) = [p, q]" by (simp add: to_be_of_be)
  from w assms show "w = next_hop_wire h"
    by (auto simp: parse_next_hop_def hop_wire_simps Let_def pq split: if_splits)
  from w assms show "\<And>ep. h = Some ep \<Longrightarrow> sa_port ep \<noteq> 0"
    by (auto simp: parse_next_hop_def Let_def split: if_splits)
qed

lemma parse_hop_iff:
  "parse_previous_hop w = Inr h \<longleftrightarrow> w = previous_hop_wire h"
  "parse_next_hop w = Inr g \<longleftrightarrow> w = next_hop_wire g \<and> (\<forall>ep. g = Some ep \<longrightarrow> sa_port ep \<noteq> 0)"
  using parse_next_hop_Inr [of w g] by (auto dest: parse_previous_hop_Inr)

section \<open>Parsing is canonical\<close>

lemma read_array_Inr [simp]:
  "read_array n token i = Inr bs \<longleftrightarrow> i + n < 2 ^ 64 \<and> get_range token i (i + n) = Some bs"
proof -
  have "get_range token i (i + n) = Some bs \<Longrightarrow> length bs = n" by (simp add: get_range_length)
  then show ?thesis
    by (auto simp: read_array_def checked_add_usize_eq_Some split: if_splits)
qed

lemma read_int_Inr [simp]:
  "read_u16 token i = Inr w \<longleftrightarrow> i + 2 < 2 ^ 64 \<and> get_range token i (i + 2) = Some (to_be 2 w)"
  "read_u64 token i = Inr v \<longleftrightarrow> i + 8 < 2 ^ 64 \<and> get_range token i (i + 8) = Some (to_be 8 v)"
  using get_range_length [of token i "i + 2"] get_range_length [of token i "i + 8"]
  by (auto simp: read_u16_def read_u64_def of_be_to_be to_be_of_be)

text \<open>Everything a successful parse has read, as adjacent ranges of the token.\<close>

definition nwg2_layout :: "crypto \<Rightarrow> bytes \<Rightarrow> parsed_grant \<Rightarrow> u16 \<Rightarrow> u16 \<Rightarrow> bool" where
  "nwg2_layout C token p rl nl \<longleftrightarrow>
    (let n = au_node (pg_audience p); r = unat rl; k = unat nl in
    get_range token 0 4 = Some MAGIC \<and>
    get_range token 4 36 = Some (pg_key_id p) \<and>
    get_range token 36 44 = Some (to_be 8 (pg_issued_at p)) \<and>
    get_range token 44 52 = Some (to_be 8 (pg_expires_at p)) \<and>
    get_range token 52 84 = Some (pg_nonce p) \<and>
    get_at token 84 = Some (role_to_wire (gi_role n)) \<and>
    get_at token 85 = Some (transport_to_wire (gi_transport n)) \<and>
    get_at token 86 = Some (tee_to_wire (gi_tee n)) \<and>
    get_range token 87 89 = Some (to_be 2 rl) \<and>
    get_range token 89 91 = Some (to_be 2 nl) \<and>
    get_range token 91 (91 + r) = Some (gi_realm n) \<and>
    get_range token (91 + r) (91 + r + k) = Some (gi_node_id n) \<and>
    get_range token (91 + r + k) (139 + r + k) = Some (gi_measurement n) \<and>
    get_range token (139 + r + k) (171 + r + k) = Some (gi_tls_spki_sha256 n) \<and>
    get_range token (171 + r + k) (176 + r + k) = Some (previous_hop_wire (au_previous_hop (pg_audience p))) \<and>
    get_range token (176 + r + k) (183 + r + k) = Some (next_hop_wire (au_next_hop (pg_audience p))) \<and>
    get_range token (183 + r + k) (247 + r + k) = Some (pg_signature p) \<and>
    length token = 247 + r + k \<and> pg_signed_payload p = take (183 + r + k) token \<and>
    cr_signature_ok C (pg_signature p) \<and>
    identifier_ok (gi_realm n) \<and> identifier_ok (gi_node_id n) \<and>
    hops_ok (gi_role n) (au_previous_hop (pg_audience p)) (au_next_hop (pg_audience p)))"

lemma grant_parse_layout:
  assumes "grant_parse C token = Inr p"
  obtains rl nl where "nwg2_layout C token p rl nl"
proof -
  note parse_simps = grant_offsets grant_lengths checked_add_usize_eq_Some
    checked_sub_usize_eq_Some from_utf8_Some audience_new_Inr role_wire.dec_Some_iff
    transport_wire.dec_Some_iff tee_wire.dec_Some_iff parse_hop_iff Let_def
  obtain rl nl where w: "get_range token 87 89 = Some (to_be 2 rl)"
      "get_range token 89 91 = Some (to_be 2 nl)"
    and len: "length token = 247 + (unat (rl :: u16) + unat (nl :: u16))"
    using assms unfolding grant_parse_def by (clarsimp simp: parse_simps split: if_splits)
  have "nwg2_layout C token p rl nl"
    using assms w len unfolding grant_parse_def nwg2_layout_def
    by (clarsimp simp: parse_simps to_be_inject add.assoc split: if_splits)
  then show ?thesis by (rule that)
qed

text \<open>A parsed token is the canonical encoding of what was parsed, and its audience is well formed.\<close>

lemma nwg2_layout_payload:
  assumes "nwg2_layout C token p rl nl"
  shows "get_range token 0 (183 + unat rl + unat nl) = Some (nwg2_payload (pg_key_id p)
     (pg_issued_at p) (pg_expires_at p) (pg_nonce p) (pg_audience p))"
proof -
  note rs = assms [unfolded nwg2_layout_def Let_def]
  have len: "length (gi_realm (au_node (pg_audience p))) = unat rl"
    "length (gi_node_id (au_node (pg_audience p))) = unat nl"
    using rs by (auto dest: get_range_length)
  have wire: "get_range token 84 85 = Some [role_to_wire (gi_role (au_node (pg_audience p)))]"
    "get_range token 85 86 = Some [transport_to_wire (gi_transport (au_node (pg_audience p)))]"
    "get_range token 86 87 = Some [tee_to_wire (gi_tee (au_node (pg_audience p)))]"
    using rs by (auto dest: get_at_range)
  show ?thesis
    unfolding nwg2_payload_def Let_def len MAGIC_def [symmetric] to_be_def [symmetric]
    by (insert rs wire, elim conjE, (rule get_range_glue, assumption)+, assumption)
qed

lemma grant_parse_canonical:
  assumes "grant_parse C token = Inr p"
  shows "pg_signed_payload p = nwg2_payload (pg_key_id p) (pg_issued_at p) (pg_expires_at p)
           (pg_nonce p) (pg_audience p)"
    and "token = pg_signed_payload p @ pg_signature p"
    and "audience_ok (pg_audience p)" and "length (pg_key_id p) = 32" and "length (pg_nonce p) = 32"
    and "length (pg_signature p) = 64" and "cr_signature_ok C (pg_signature p)"
proof -
  obtain rl nl where layout: "nwg2_layout C token p rl nl"
    using grant_parse_layout [OF assms] .
  note rs = layout [unfolded nwg2_layout_def Let_def]
  show "pg_signed_payload p = nwg2_payload (pg_key_id p) (pg_issued_at p) (pg_expires_at p)
      (pg_nonce p) (pg_audience p)"
    using nwg2_layout_payload [OF layout] rs by (simp add: get_range_Some)
  show "token = pg_signed_payload p @ pg_signature p"
    using rs by (auto simp: get_range_Some)
  show "audience_ok (pg_audience p)"
    using rs by (auto simp: audience_ok_def identity_ok_def dest: get_range_length)
  show "length (pg_key_id p) = 32" "length (pg_nonce p) = 32" "length (pg_signature p) = 64"
    "cr_signature_ok C (pg_signature p)"
    using rs by (auto dest: get_range_length)
qed

section \<open>Parsing inverts the encoding\<close>

lemma length_nwg2_payload:
  "audience_ok aud \<Longrightarrow> length key_id = 32 \<Longrightarrow> length nonce = 32 \<Longrightarrow>
     length (nwg2_payload key_id issued expires nonce aud) =
       183 + length (gi_realm (au_node aud)) + length (gi_node_id (au_node aud))"
  by (simp add: nwg2_payload_def Let_def audience_ok_def identity_ok_def)

lemma layout_grant_parse:
  assumes "nwg2_layout C token p rl nl"
  shows "grant_parse C token = Inr p"
proof -
  note rs = assms [unfolded nwg2_layout_def Let_def]
  let ?n = "au_node (pg_audience p)"
  have len: "length (gi_realm ?n) = unat rl" "length (gi_node_id ?n) = unat nl"
    using rs by (auto dest: get_range_length)
  then have ids: "0 < unat rl" "unat rl \<le> 64" "0 < unat nl" "unat nl \<le> 64"
    using rs by (metis identifier_ok_def length_greater_0_conv)+
  have legacy: "\<not> starts_with token LEGACY_MAGIC"
  proof -
    have "take 4 token = MAGIC" using rs by (simp add: get_range_Some)
    moreover have "length LEGACY_MAGIC = 4" "MAGIC \<noteq> LEGACY_MAGIC"
      by (simp_all add: LEGACY_MAGIC_def MAGIC_def lit_def)
    ultimately show ?thesis by (simp add: starts_with_def)
  qed
  have aud: "audience_new (gi_realm ?n) (gi_node_id ?n) (gi_role ?n) (gi_transport ?n) (gi_tee ?n)
      (gi_measurement ?n) (gi_tls_spki_sha256 ?n) (au_previous_hop (pg_audience p))
      (au_next_hop (pg_audience p)) = Inr (pg_audience p)"
    using rs by (auto simp: audience_new_Inr)
  have reads: "read_u16 token 87 = Inr rl" "read_u16 token 89 = Inr nl"
    "read_u64 token 36 = Inr (pg_issued_at p)" "read_u64 token 44 = Inr (pg_expires_at p)"
    "read_array 32 token 4 = Inr (pg_key_id p)" "read_array 32 token 52 = Inr (pg_nonce p)"
    "parse_next_hop (next_hop_wire (au_next_hop (pg_audience p))) = Inr (au_next_hop (pg_audience p))"
    "from_utf8 (gi_realm ?n) = Some (gi_realm ?n)" "from_utf8 (gi_node_id ?n) = Some (gi_node_id ?n)"
    using rs by (auto simp: hops_ok_def from_utf8_Some identifier_ok_utf8)
  show ?thesis
    unfolding grant_parse_def using rs ids legacy
    by (simp add: grant_offsets grant_lengths Let_def reads aud checked_sub_usize_def
        role_wire.dec_enc transport_wire.dec_enc tee_wire.dec_enc add.assoc)
qed

lemma grant_parse_payload:
  assumes "audience_ok aud" and "length key_id = 32" and "length nonce = 32"
    and "length sig = 64" and "cr_signature_ok C sig"
  shows "grant_parse C (nwg2_payload key_id issued expires nonce aud @ sig) = Inr
     \<lparr>pg_key_id = key_id, pg_issued_at = issued, pg_expires_at = expires, pg_nonce = nonce,
      pg_audience = aud, pg_signed_payload = nwg2_payload key_id issued expires nonce aud,
      pg_signature = sig\<rparr>"
proof -
  let ?n = "au_node aud"
  have lens: "length (gi_realm ?n) \<le> 64" "length (gi_node_id ?n) \<le> 64"
    "length (gi_measurement ?n) = 48" "length (gi_tls_spki_sha256 ?n) = 32"
    using assms(1) by (auto simp: audience_ok_def identity_ok_def identifier_ok_def)
  have "unat (word_of_nat (length (gi_realm ?n)) :: u16) = length (gi_realm ?n)"
    "unat (word_of_nat (length (gi_node_id ?n)) :: u16) = length (gi_node_id ?n)"
    using lens by (simp_all add: unat_of_nat)
  note un = this
  show ?thesis
    using assms lens
    by (intro layout_grant_parse [where rl = "word_of_nat (length (gi_realm ?n))"
          and nl = "word_of_nat (length (gi_node_id ?n))"])
       (simp add: nwg2_layout_def Let_def un to_be_def length_nwg2_payload,
        simp add: nwg2_payload_def Let_def codec_simps audience_ok_def identity_ok_def MAGIC_def
          to_be_def)
qed

section \<open>Minting on every branch\<close>

text \<open>
  \<open>grant_mint\<close> on every branch, in the order of the code's checks: the remaining conversions and
  length computations of the code never fail for valid identifiers.
\<close>

definition ttl_ok :: "duration \<Rightarrow> bool" where
  "ttl_ok ttl \<longleftrightarrow> du_nanos ttl = 0 \<and> 1 \<le> du_secs ttl \<and> du_secs ttl \<le> 600"

definition signed_grant :: "crypto \<Rightarrow> signing_key \<Rightarrow> bytes \<Rightarrow> bytes \<Rightarrow> grant" where
  "signed_grant C key payload nonce =
     \<lparr>gr_token = payload @ cr_sign C (sk_seed key) payload, gr_nonce = nonce\<rparr>"

lemma validate_named_identifier_eq:
  "validate_named_identifier name bs =
     (if identifier_ok bs then Inr () else Inl (InvalidIdentifier name))"
  using validate_named_identifier_Inr [of name bs "()"] validate_named_identifier_Inl [of name bs]
  by (cases "validate_named_identifier name bs") auto

lemma grant_mint_eq:
  "grant_mint C key aud nonce ttl now =
     (if \<not> identifier_ok (gi_realm (au_node aud)) then Inl (InvalidIdentifier ''grant realm'')
      else if \<not> identifier_ok (gi_node_id (au_node aud)) then Inl (InvalidIdentifier ''grant node_id'')
      else if \<not> ttl_ok ttl then Inl InvalidTtl
      else if 2 ^ 64 \<le> unat now + unat (du_secs ttl) then Inl TimeOverflow
      else Inr (signed_grant C key
             (nwg2_payload (signing_key_id C key) now (now + du_secs ttl) nonce aud) nonce))"
proof (cases "identifier_ok (gi_realm (au_node aud)) \<and> identifier_ok (gi_node_id (au_node aud))")
  case True
  then have len: "length (gi_realm (au_node aud)) \<le> 64" "length (gi_node_id (au_node aud)) \<le> 64"
    by (auto simp: identifier_ok_def)
  have w: "to_be 2 (word_of_nat (length (gi_realm (au_node aud))) :: u16) = be_of_nat 2 (length (gi_realm (au_node aud)))"
    "to_be 2 (word_of_nat (length (gi_node_id (au_node aud))) :: u16) = be_of_nat 2 (length (gi_node_id (au_node aud)))"
    using len by (simp_all add: to_be_def unat_of_nat)
  from len True show ?thesis
    by (simp add: grant_mint_def Let_def validate_named_identifier_eq checked_add_def
        u16_try_from_def grant_offsets grant_lengths MAX_GRANT_TTL_SECS_def ttl_ok_def
        nwg2_payload_def signed_grant_def w MAGIC_def)
next
  case False
  then show ?thesis
    by (auto simp: grant_mint_def Let_def validate_named_identifier_eq)
qed

section \<open>Verifying\<close>

definition lifetime_ok :: "u64 \<Rightarrow> u64 \<Rightarrow> u64 \<Rightarrow> bool" where
  "lifetime_ok issued expires now \<longleftrightarrow>
     unat issued < unat expires \<and> unat expires \<le> unat issued + 600 \<and>
     unat now < unat expires \<and> unat issued \<le> unat now + 30"

lemma lifetime_checks:
  "bindE (ok_or InvalidLifetime (checked_sub e i)) (\<lambda>lifetime.
     if \<not> (1 \<le> lifetime \<and> lifetime \<le> MAX_GRANT_TTL_SECS) then Inl InvalidLifetime
     else if e \<le> now then Inl Expired
     else if saturating_sub i now > MAX_GRANT_CLOCK_SKEW_SECS then Inl NotYetValid
     else Inr x) = Inr y \<longleftrightarrow> x = y \<and> lifetime_ok i e now"
proof (cases "i \<le> e")
  case True
  then have "unat (e - i) = unat e - unat i" "unat i \<le> unat e"
    by (simp_all add: unat_sub word_le_nat_alt)
  with True show ?thesis
    by (auto simp: checked_sub_def lifetime_ok_def unat_saturating_sub word_le_nat_alt
        word_less_nat_alt MAX_GRANT_TTL_SECS_def MAX_GRANT_CLOCK_SKEW_SECS_def split: if_splits)
next
  case False
  then show ?thesis by (simp add: checked_sub_def lifetime_ok_def word_le_nat_alt)
qed

lemma verify_authentic_Inr:
  "verify_authentic C token v now = Inr p \<longleftrightarrow>
     grant_parse C token = Inr p \<and>
     (\<exists>pk. map_of (gv_keys v) (pg_key_id p) = Some pk \<and>
        cr_verify_strict C pk (pg_signed_payload p) (pg_signature p)) \<and>
     lifetime_ok (pg_issued_at p) (pg_expires_at p) now"
  unfolding verify_authentic_def bindE_eq_Inr [of "grant_parse C token"]
    bindE_eq_Inr [of "ok_or UnknownKey m" for m] bindE_eq_Inr [of "ensure BadSignature b" for b]
    lifetime_checks
  by auto

lemma grant_verify_Inr:
  "grant_verify C token v aud now = Inr g \<longleftrightarrow>
     (\<exists>p. verify_authentic C token v now = Inr p \<and> pg_audience p = aud \<and> g = into_verified p)"
  by (auto simp: grant_verify_def split: if_splits)

lemma grant_verify_for_node_Inr:
  "grant_verify_for_node C token v n now = Inr g \<longleftrightarrow>
     (\<exists>p. verify_authentic C token v now = Inr p \<and> au_node (pg_audience p) = n \<and> g = into_verified p)"
  by (auto simp: grant_verify_for_node_def split: if_splits)

section \<open>Verifier keys\<close>

definition verifier_ok :: "crypto \<Rightarrow> verifier \<Rightarrow> bool" where
  "verifier_ok C v \<longleftrightarrow> distinct (map fst (gv_keys v)) \<and>
     (\<forall>(i, k) \<in> set (gv_keys v). i = key_id_for_public_key C k \<and> cr_key_valid C k \<and> \<not> cr_key_weak C k)"

lemma add_public_key_Inr:
  assumes "add_public_key C v k = Inr (i, v')" and "verifier_ok C v"
  shows "verifier_ok C v'" and "i = key_id_for_public_key C k" and "map_of (gv_keys v') i = Some k"
    and "set (gv_keys v') = insert (i, k) (set (gv_keys v))"
proof -
  let ?i = "key_id_for_public_key C k"
  from assms(1) have k: "cr_key_valid C k" "\<not> cr_key_weak C k" and i: "i = ?i"
    by (auto simp: add_public_key_def Let_def split: if_splits option.splits)
  have "verifier_ok C v' \<and> map_of (gv_keys v') i = Some k
    \<and> set (gv_keys v') = insert (i, k) (set (gv_keys v))"
  proof (cases "map_of (gv_keys v) ?i")
    case None
    with assms(1) i have v': "v' = v\<lparr>gv_keys := AList.update i k (gv_keys v)\<rparr>"
      by (auto simp: add_public_key_def Let_def split: if_splits)
    from None i have "i \<notin> fst ` set (gv_keys v)" by (simp add: map_of_eq_None_iff)
    then have "AList.update i k (gv_keys v) = gv_keys v @ [(i, k)]" by (rule alist_update_new)
    with v' i k assms(2) None show ?thesis
      by (auto simp: verifier_ok_def map_of_eq_None_iff map_add_Some_iff)
  next
    case (Some e)
    with assms(1) i have "v' = v" "e = k"
      by (auto simp: add_public_key_def Let_def split: if_splits)
    with Some i assms(2) show ?thesis by (auto dest: map_of_SomeD)
  qed
  with i show "verifier_ok C v'" "i = ?i" "map_of (gv_keys v') i = Some k"
    "set (gv_keys v') = insert (i, k) (set (gv_keys v))" by auto
qed

lemma add_public_keys_Inr:
  assumes "add_public_keys C v ks = Inr v'" and "verifier_ok C v"
  shows "verifier_ok C v' \<and>
    set (gv_keys v') = set (gv_keys v) \<union> (\<lambda>k. (key_id_for_public_key C k, k)) ` set ks"
  using assms
proof (induction ks arbitrary: v)
  case (Cons k ks)
  then obtain i w where w: "add_public_key C v k = Inr (i, w)" "add_public_keys C w ks = Inr v'"
    by auto
  show ?case
    using add_public_key_Inr [OF w(1) Cons.prems(2)] Cons.IH [OF w(2)] by auto
qed auto

lemma verifier_ok_lookup:
  "verifier_ok C v \<Longrightarrow> (i, k) \<in> set (gv_keys v) \<Longrightarrow> map_of (gv_keys v) i = Some k"
  by (simp add: verifier_ok_def)

lemma verifier_new_Inr:
  assumes "verifier_new C ks = Inr v"
  shows "verifier_ok C v" and "gv_keys v \<noteq> []"
    and "set (gv_keys v) = (\<lambda>k. (key_id_for_public_key C k, k)) ` set ks"
  using assms add_public_keys_Inr [of C "\<lparr>gv_keys = []\<rparr>" ks v]
  by (auto simp: verifier_new_def verifier_ok_def split: if_splits)

lemma add_public_keys_ok:
  assumes "verifier_ok C v"
    and "\<And>k. k \<in> set ks \<Longrightarrow> cr_key_valid C k \<and> \<not> cr_key_weak C k"
    and "inj_on (key_id_for_public_key C) (snd ` set (gv_keys v) \<union> set ks)"
  shows "\<exists>v'. add_public_keys C v ks = Inr v'"
  using assms
proof (induction ks arbitrary: v)
  case (Cons k ks)
  have "e = k" if "map_of (gv_keys v) (key_id_for_public_key C k) = Some e" for e
  proof -
    from that have "(key_id_for_public_key C k, e) \<in> set (gv_keys v)" by (rule map_of_SomeD)
    moreover from this Cons.prems(1) have "key_id_for_public_key C k = key_id_for_public_key C e"
      by (auto simp: verifier_ok_def)
    ultimately show ?thesis
      using inj_onD [OF Cons.prems(3), of k e] by (force simp: rev_image_eqI)
  qed
  then obtain i w where w: "add_public_key C v k = Inr (i, w)"
    using Cons.prems(2) [of k]
    by (cases "map_of (gv_keys v) (key_id_for_public_key C k)") (auto simp: add_public_key_def Let_def)
  note wk = add_public_key_Inr [OF w Cons.prems(1)]
  have "snd ` set (gv_keys w) \<union> set ks = snd ` set (gv_keys v) \<union> set (k # ks)"
    using wk(4) by auto
  with Cons.prems(2,3) have "\<exists>v'. add_public_keys C w ks = Inr v'"
    by (intro Cons.IH [OF wk(1)]) simp_all
  with w show ?case by auto
qed auto

section \<open>Properties\<close>

text \<open>A concrete instance of the primitives, on which the hypotheses can be evaluated.\<close>

definition demo_crypto :: crypto where
  "demo_crypto =
     \<lparr>cr_sha256 = (\<lambda>m. take 32 (rev m @ replicate 32 0)), cr_public = (\<lambda>k. take 32 (k @ replicate 32 0)),
      cr_sign = (\<lambda>k m. take 64 (take 32 (k @ replicate 32 0) @ rev m @ replicate 64 0)),
      cr_key_valid = (\<lambda>k. length k = 32), cr_key_weak = (\<lambda>k. False),
      cr_signature_ok = (\<lambda>s. length s = 64),
      cr_verify_strict = (\<lambda>k m s. s = take 64 (k @ rev m @ replicate 64 0))\<rparr>"

lemma demo_crypto_ok: "crypto_ok demo_crypto"
  by (auto simp: crypto_ok_def demo_crypto_def min_def)

definition demo_node :: node_identity where
  "demo_node = \<lparr>gi_realm = lit ''nil'', gi_node_id = lit ''n1'', gi_role = Entry, gi_transport = Masque,
     gi_tee = SevSnp, gi_measurement = replicate 48 1, gi_tls_spki_sha256 = replicate 32 2\<rparr>"

definition demo_audience :: audience where
  "demo_audience = \<lparr>au_node = demo_node, au_previous_hop = None,
     au_next_hop = Some (SocketAddrV4 (Ipv4Addr 10 0 0 2) 443)\<rparr>"

lemma demo_audience_ok: "audience_ok demo_audience"
  by (simp add: audience_ok_def identity_ok_def identifier_ok_def hops_ok_def demo_audience_def
      demo_node_def lit_def is_edge_def is_inner_def is_ascii_lowercase_def is_ascii_digit_def)

definition demo_key :: signing_key where
  "demo_key = from_seed (replicate 32 9)"

definition demo_ttl :: duration where
  "demo_ttl = \<lparr>du_secs = 60, du_nanos = 0\<rparr>"

definition demo_verifier :: verifier where
  "demo_verifier = \<lparr>gv_keys = [(signing_key_id demo_crypto demo_key, public_key_bytes demo_crypto demo_key)]\<rparr>"

definition demo_grant :: grant where
  "demo_grant = signed_grant demo_crypto demo_key (nwg2_payload (signing_key_id demo_crypto demo_key)
     1000 1060 (replicate 32 3) demo_audience) (replicate 32 3)"

lemma demo_mint:
  "grant_mint demo_crypto demo_key demo_audience (replicate 32 3) demo_ttl 1000 = Inr demo_grant"
  using demo_audience_ok
  by (simp add: grant_mint_eq audience_ok_def identity_ok_def ttl_ok_def demo_ttl_def demo_grant_def)

definition demo_parsed :: parsed_grant where
  "demo_parsed =
     \<lparr>pg_key_id = signing_key_id demo_crypto demo_key, pg_issued_at = 1000, pg_expires_at = 1060,
      pg_nonce = replicate 32 3, pg_audience = demo_audience,
      pg_signed_payload = nwg2_payload (signing_key_id demo_crypto demo_key) 1000 1060
        (replicate 32 3) demo_audience,
      pg_signature = cr_sign demo_crypto (sk_seed demo_key) (nwg2_payload
        (signing_key_id demo_crypto demo_key) 1000 1060 (replicate 32 3) demo_audience)\<rparr>"

lemma demo_parse: "grant_parse demo_crypto (gr_token demo_grant) = Inr demo_parsed"
  using demo_crypto_ok demo_audience_ok
  by (simp add: demo_parsed_def demo_grant_def signed_grant_def grant_parse_payload crypto_ok_def
      signing_key_id_def key_id_for_public_key_def)

lemma demo_authentic:
  "verify_authentic demo_crypto (gr_token demo_grant) demo_verifier 1010 = Inr demo_parsed"
  unfolding verify_authentic_Inr demo_parse using demo_crypto_ok
  by (simp add: demo_parsed_def demo_verifier_def lifetime_ok_def crypto_ok_def public_key_bytes_def)

lemma mint_verifies:
  assumes "crypto_ok C" and "audience_ok aud" and "length nonce = 32"
    and "grant_mint C key aud nonce ttl now = Inr g"
    and "map_of (gv_keys v) (signing_key_id C key) = Some (public_key_bytes C key)"
    and "unat now \<le> unat t + 30" and "unat t < unat now + unat (du_secs ttl)"
  defines "vg \<equiv> \<lparr>vg_key_id = signing_key_id C key, vg_issued_at = now,
      vg_expires_at = now + du_secs ttl, vg_nonce = nonce, vg_audience = aud\<rparr>"
  shows "grant_verify C (gr_token g) v aud t = Inr vg \<and>
    grant_verify_for_node C (gr_token g) v (au_node aud) t = Inr vg"
proof -
  let ?payload = "nwg2_payload (signing_key_id C key) now (now + du_secs ttl) nonce aud"
  have ttl: "ttl_ok ttl" and over: "unat now + unat (du_secs ttl) < 2 ^ 64"
    and g: "gr_token g = ?payload @ cr_sign C (sk_seed key) ?payload"
    using assms(4) by (auto simp: grant_mint_eq signed_grant_def split: if_splits)
  have exp: "unat (now + du_secs ttl) = unat now + unat (du_secs ttl)"
    using over by (simp add: unat_word_ariths)
  have "lifetime_ok now (now + du_secs ttl) t"
    using ttl assms(6,7) by (auto simp: lifetime_ok_def exp ttl_ok_def word_le_nat_alt)
  moreover have "grant_parse C (gr_token g) = Inr \<lparr>pg_key_id = signing_key_id C key,
      pg_issued_at = now, pg_expires_at = now + du_secs ttl, pg_nonce = nonce, pg_audience = aud,
      pg_signed_payload = ?payload, pg_signature = cr_sign C (sk_seed key) ?payload\<rparr>"
    unfolding g using assms(1-3)
    by (intro grant_parse_payload) (simp_all add: crypto_ok_def signing_key_id_def key_id_for_public_key_def)
  ultimately have "verify_authentic C (gr_token g) v t = Inr \<lparr>pg_key_id = signing_key_id C key,
      pg_issued_at = now, pg_expires_at = now + du_secs ttl, pg_nonce = nonce, pg_audience = aud,
      pg_signed_payload = ?payload, pg_signature = cr_sign C (sk_seed key) ?payload\<rparr>"
    using assms(1,5) by (simp add: verify_authentic_Inr crypto_ok_def public_key_bytes_def)
  then show ?thesis
    by (simp add: grant_verify_Inr grant_verify_for_node_Inr into_verified_def vg_def)
qed

text \<open>
  C5: a grant minted for a well-formed audience verifies, both against that exact audience and
  against the node alone, at every verifier that trusts the issuer's key, from thirty seconds
  before it was issued (the clock-skew tolerance) until its expiry; the verified grant carries the
  issued audience, nonce and lifetime.
\<close>

theorem grant_mint_verify:
  assumes "crypto_ok C" and "audience_ok aud" and "length nonce = 32"
    and "grant_mint C key aud nonce ttl now = Inr g"
    and "map_of (gv_keys v) (signing_key_id C key) = Some (public_key_bytes C key)"
    and "unat now \<le> unat t + 30" and "unat t < unat now + unat (du_secs ttl)"
  defines "vg \<equiv> \<lparr>vg_key_id = signing_key_id C key, vg_issued_at = now,
      vg_expires_at = now + du_secs ttl, vg_nonce = nonce, vg_audience = aud\<rparr>"
  shows "grant_verify C (gr_token g) v aud t = Inr vg \<and>
    grant_verify_for_node C (gr_token g) v (au_node aud) t = Inr vg"
  unfolding vg_def by (rule mint_verifies [OF assms(1-7)])

theorem grant_mint_verify_witness:
  "\<exists>vg. grant_verify demo_crypto (gr_token demo_grant) demo_verifier demo_audience 1010 = Inr vg
     \<and> vg_audience vg = demo_audience"
  using grant_mint_verify [OF demo_crypto_ok demo_audience_ok _ demo_mint, of demo_verifier 1010]
  by (simp add: demo_verifier_def demo_ttl_def)

text \<open>
  C6: what a node may conclude from a grant it accepts. The token is the canonical encoding of the
  verified grant followed by a 64-byte signature over every preceding byte, made with a key the
  verifier trusts under the identifier the grant names; the lifetime is between 1 and 600 seconds,
  the grant is not expired and not issued more than thirty seconds ahead; it names this node, and
  its neighbours have the shape its path role allows.
\<close>

theorem grant_verify_for_node_sound:
  assumes "grant_verify_for_node C token v node now = Inr g"
  shows "\<exists>sig pk. token = nwg2_payload (vg_key_id g) (vg_issued_at g) (vg_expires_at g) (vg_nonce g)
             (vg_audience g) @ sig \<and> length sig = 64 \<and>
           map_of (gv_keys v) (vg_key_id g) = Some pk \<and>
           cr_verify_strict C pk (nwg2_payload (vg_key_id g) (vg_issued_at g) (vg_expires_at g)
             (vg_nonce g) (vg_audience g)) sig \<and>
           lifetime_ok (vg_issued_at g) (vg_expires_at g) now \<and>
           au_node (vg_audience g) = node \<and> audience_ok (vg_audience g)"
proof -
  obtain p where p: "verify_authentic C token v now = Inr p" "au_node (pg_audience p) = node"
    and g: "g = into_verified p"
    using assms by (auto simp: grant_verify_for_node_Inr)
  from p(1) have parse: "grant_parse C token = Inr p" by (simp add: verify_authentic_Inr)
  note c = grant_parse_canonical [OF parse]
  from p(1) obtain pk where "map_of (gv_keys v) (pg_key_id p) = Some pk"
      "cr_verify_strict C pk (pg_signed_payload p) (pg_signature p)"
      "lifetime_ok (pg_issued_at p) (pg_expires_at p) now"
    by (auto simp: verify_authentic_Inr)
  note key = this
  show ?thesis
    by (rule exI [of _ "pg_signature p"], rule exI [of _ pk])
       (simp add: g into_verified_def c(1) [symmetric] c(2) [symmetric] c(3,6) key p(2))
qed

theorem grant_verify_for_node_sound_witness:
  "\<exists>g. grant_verify_for_node demo_crypto (gr_token demo_grant) demo_verifier demo_node 1010 = Inr g
     \<and> lifetime_ok (vg_issued_at g) (vg_expires_at g) 1010"
proof -
  obtain g where
    g: "grant_verify_for_node demo_crypto (gr_token demo_grant) demo_verifier demo_node 1010 = Inr g"
    using demo_authentic
    by (auto simp: grant_verify_for_node_Inr demo_audience_def demo_parsed_def)
  with grant_verify_for_node_sound [OF g] show ?thesis by blast
qed

text \<open>
  The encoding is unambiguous. Of two tokens that parse, the signed bytes agree exactly when
  the grants agree, so one signature authorises one grant; and a token is determined by its grant
  and its signature, so a grant has no second spelling.
\<close>

theorem grant_parse_unambiguous:
  assumes "grant_parse C t1 = Inr p1" and "grant_parse C t2 = Inr p2"
  shows "(pg_signed_payload p1 = pg_signed_payload p2 \<longleftrightarrow> into_verified p1 = into_verified p2) \<and>
    (t1 = t2 \<longleftrightarrow> into_verified p1 = into_verified p2 \<and> pg_signature p1 = pg_signature p2)"
proof -
  note c1 = grant_parse_canonical [OF assms(1)] and c2 = grant_parse_canonical [OF assms(2)]
  have same: "into_verified p1 = into_verified p2" if eq: "pg_signed_payload p1 = pg_signed_payload p2"
  proof -
    have "grant_parse C t1 = Inr
        \<lparr>pg_key_id = pg_key_id p2, pg_issued_at = pg_issued_at p2, pg_expires_at = pg_expires_at p2,
         pg_nonce = pg_nonce p2, pg_audience = pg_audience p2,
         pg_signed_payload = pg_signed_payload p2, pg_signature = pg_signature p1\<rparr>"
      unfolding c1(2) eq c2(1) by (rule grant_parse_payload [OF c2(3-5) c1(6,7)])
    with assms(1) have p1: "p1 = \<lparr>pg_key_id = pg_key_id p2, pg_issued_at = pg_issued_at p2,
         pg_expires_at = pg_expires_at p2, pg_nonce = pg_nonce p2, pg_audience = pg_audience p2,
         pg_signed_payload = pg_signed_payload p2, pg_signature = pg_signature p1\<rparr>" by simp
    show ?thesis by (subst p1) (simp add: into_verified_def)
  qed
  moreover have payload: "pg_signed_payload p1 = pg_signed_payload p2"
    if "into_verified p1 = into_verified p2"
    using that by (simp add: c1(1) c2(1) into_verified_def)
  moreover have "p1 = p2" if "t1 = t2" using that assms by simp
  moreover have "t1 = t2" if "into_verified p1 = into_verified p2" "pg_signature p1 = pg_signature p2"
    using payload [OF that(1)] that(2) c1(2) c2(2) by metis
  ultimately show ?thesis by blast
qed

theorem grant_parse_unambiguous_witness:
  "\<exists>p. grant_parse demo_crypto (gr_token demo_grant) = Inr p \<and>
     (gr_token demo_grant = gr_token demo_grant \<longleftrightarrow> into_verified p = into_verified p \<and> pg_signature p = pg_signature p)"
  using demo_parse grant_parse_unambiguous [OF demo_parse demo_parse] by blast

text \<open>
  Minting on every branch. It fails on an invalid realm, then on an invalid node identifier,
  then on a lifetime that is not a whole number of seconds from 1 to 600, then on an expiry that
  does not fit the 64-bit timestamp, each with its own error, and in no other case; otherwise the
  token is the canonical payload, valid from now for the requested lifetime, and its signature.
\<close>

theorem grant_mint_branches:
  "grant_mint C key aud nonce ttl now =
     (if \<not> identifier_ok (gi_realm (au_node aud)) then Inl (InvalidIdentifier ''grant realm'')
      else if \<not> identifier_ok (gi_node_id (au_node aud)) then Inl (InvalidIdentifier ''grant node_id'')
      else if \<not> ttl_ok ttl then Inl InvalidTtl
      else if 2 ^ 64 \<le> unat now + unat (du_secs ttl) then Inl TimeOverflow
      else Inr (signed_grant C key
             (nwg2_payload (signing_key_id C key) now (now + du_secs ttl) nonce aud) nonce))"
  by (rule grant_mint_eq)

text \<open>
  Every token the parser accepts has a length between the module's two constants, so the bound
  the public protocol parsers apply before decoding (\<open>MAX_GRANT_TOKEN_LEN\<close>) rejects no valid grant.
\<close>

theorem grant_parse_length:
  assumes "grant_parse C token = Inr p"
  shows "MIN_TOKEN_LEN \<le> length token \<and> length token \<le> MAX_GRANT_TOKEN_LEN"
proof -
  note c = grant_parse_canonical [OF assms]
  have "gi_realm (au_node (pg_audience p)) \<noteq> []" "gi_node_id (au_node (pg_audience p)) \<noteq> []"
    "length (gi_realm (au_node (pg_audience p))) \<le> 64" "length (gi_node_id (au_node (pg_audience p))) \<le> 64"
    using c(3) by (auto simp: audience_ok_def identity_ok_def identifier_ok_def)
  moreover have "length token = 247 + length (gi_realm (au_node (pg_audience p)))
      + length (gi_node_id (au_node (pg_audience p)))"
    by (subst c(2)) (simp add: c(1) length_nwg2_payload [OF c(3-5)] c(6))
  moreover have "1 \<le> length xs" if "xs \<noteq> []" for xs :: bytes using that by (cases xs) auto
  ultimately have "1 \<le> length (gi_realm (au_node (pg_audience p)))"
    "1 \<le> length (gi_node_id (au_node (pg_audience p)))" "length token = 247
      + length (gi_realm (au_node (pg_audience p))) + length (gi_node_id (au_node (pg_audience p)))"
    "length (gi_realm (au_node (pg_audience p))) \<le> 64" "length (gi_node_id (au_node (pg_audience p))) \<le> 64"
    by blast+
  then show ?thesis unfolding grant_offsets by linarith
qed

theorem grant_parse_length_witness: "length (gr_token demo_grant) \<le> MAX_GRANT_TOKEN_LEN"
  using grant_parse_length [OF demo_parse] by simp

text \<open>
  A verifier built from a list of public keys holds exactly these keys, each under the
  identifier derived from it, every one of them valid and not weak, and lists its identifiers
  sorted without repetition. Building it succeeds for every nonempty list of such keys whose
  identifiers do not collide; an empty list is refused.
\<close>

theorem verifier_new_correct:
  "(\<forall>v. verifier_new C ks = Inr v \<longrightarrow>
      set (gv_keys v) = (\<lambda>k. (key_id_for_public_key C k, k)) ` set ks \<and>
      (\<forall>k \<in> set ks. cr_key_valid C k \<and> \<not> cr_key_weak C k \<and>
         map_of (gv_keys v) (key_id_for_public_key C k) = Some k) \<and>
      set (key_ids v) = key_id_for_public_key C ` set ks \<and> sorted (key_ids v) \<and> distinct (key_ids v)) \<and>
   (ks \<noteq> [] \<and> (\<forall>k \<in> set ks. cr_key_valid C k \<and> \<not> cr_key_weak C k) \<and>
      inj_on (key_id_for_public_key C) (set ks) \<longrightarrow> (\<exists>v. verifier_new C ks = Inr v)) \<and>
   verifier_new C [] = Inl NoVerificationKeys"
proof (intro conjI allI impI)
  fix v assume v: "verifier_new C ks = Inr v"
  note n = verifier_new_Inr [OF v]
  show keys: "set (gv_keys v) = (\<lambda>k. (key_id_for_public_key C k, k)) ` set ks" by (rule n(3))
  show "\<forall>k \<in> set ks. cr_key_valid C k \<and> \<not> cr_key_weak C k \<and>
         map_of (gv_keys v) (key_id_for_public_key C k) = Some k"
    using n(1) verifier_ok_lookup [OF n(1)] unfolding verifier_ok_def keys by auto
  show "set (key_ids v) = key_id_for_public_key C ` set ks"
    by (simp add: key_ids_def keys image_image)
  show "sorted (key_ids v)" "distinct (key_ids v)"
    using n(1) by (simp_all add: key_ids_def verifier_ok_def)
next
  assume ks: "ks \<noteq> [] \<and> (\<forall>k \<in> set ks. cr_key_valid C k \<and> \<not> cr_key_weak C k) \<and>
      inj_on (key_id_for_public_key C) (set ks)"
  have empty: "verifier_ok C \<lparr>gv_keys = []\<rparr>" by (simp add: verifier_ok_def)
  obtain v where v: "add_public_keys C \<lparr>gv_keys = []\<rparr> ks = Inr v"
    using add_public_keys_ok [OF empty, of ks] ks by auto
  with add_public_keys_Inr [OF v empty] ks show "\<exists>v. verifier_new C ks = Inr v"
    by (auto simp: verifier_new_def)
qed (simp add: verifier_new_def)

theorem verifier_new_correct_witness:
  "\<exists>v. verifier_new demo_crypto [replicate 32 1] = Inr v
     \<and> set (key_ids v) = {key_id_for_public_key demo_crypto (replicate 32 1)}"
proof -
  have "\<exists>v. verifier_new demo_crypto [replicate 32 1] = Inr v"
    using verifier_new_correct [of demo_crypto "[replicate 32 1]"] by (simp add: demo_crypto_def)
  then show ?thesis
    using verifier_new_correct [of demo_crypto "[replicate 32 1]"] by auto
qed

end
