(* ===== verification/Grant_Replay.thy ===== *)
theory Grant_Replay
  imports Grant Machines "HOL-Library.Product_Lexorder"
begin

text \<open>
  \<open>nil-node/src/grant_replay.rs\<close>: the node's bounded, process-local record of consumed grants. The
  \<open>HashMap\<close> is an association list; the \<open>BinaryHeap\<close> of reversed pairs is the ascending list of
  its elements (\<open>peek\<close> is the head, \<open>pop\<close> the tail, \<open>push\<close> an ordered insertion).
\<close>

section \<open>The cache\<close>

datatype replay_error = Replayed | PredatesProcess | Capacity | ReplayExpired

datatype replay_key = ReplayKey (rk_key_id: bytes) (rk_nonce: bytes)

text \<open>The derived order: by key identifier, then by nonce.\<close>

instantiation replay_key :: linorder
begin

definition less_eq_replay_key :: "replay_key \<Rightarrow> replay_key \<Rightarrow> bool" where
  "less_eq_replay_key a b \<longleftrightarrow> (rk_key_id a, rk_nonce a) \<le> (rk_key_id b, rk_nonce b)"

definition less_replay_key :: "replay_key \<Rightarrow> replay_key \<Rightarrow> bool" where
  "less_replay_key a b \<longleftrightarrow> (rk_key_id a, rk_nonce a) < (rk_key_id b, rk_nonce b)"

instance
proof
  fix x y z :: replay_key
  show "x < y \<longleftrightarrow> x \<le> y \<and> \<not> y \<le> x"
    unfolding less_eq_replay_key_def less_replay_key_def by (rule less_le_not_le)
  show "x \<le> x" by (simp add: less_eq_replay_key_def)
  show "x \<le> y \<Longrightarrow> y \<le> z \<Longrightarrow> x \<le> z" unfolding less_eq_replay_key_def by (rule order_trans)
  show "x \<le> y \<Longrightarrow> y \<le> x \<Longrightarrow> x = y"
    unfolding less_eq_replay_key_def by (drule (1) antisym) (simp add: replay_key.expand)
  show "x \<le> y \<or> y \<le> x" unfolding less_eq_replay_key_def by (rule linear)
qed

end

record replay_cache =
  rc_process_started_at :: u64
  rc_capacity :: nat
  rc_entries :: "(replay_key \<times> u64) list"
  rc_expirations :: "(u64 \<times> replay_key) list"

text \<open>\<open>new\<close> asserts a nonzero capacity: the panic is the value \<open>None\<close>.\<close>

definition replay_new :: "u64 \<Rightarrow> nat \<Rightarrow> replay_cache option" where
  "replay_new process_started_at capacity =
     (if capacity > 0 then Some \<lparr>rc_process_started_at = process_started_at, rc_capacity = capacity,
        rc_entries = [], rc_expirations = []\<rparr>
      else None)"

fun prune_loop ::
  "u64 \<Rightarrow> (replay_key \<times> u64) list \<Rightarrow> (u64 \<times> replay_key) list \<Rightarrow> (replay_key \<times> u64) list \<times> (u64 \<times> replay_key) list"
where
  "prune_loop now entries [] = (entries, [])"
| "prune_loop now entries ((expires_at, key) # rest) =
     (if expires_at > now then (entries, (expires_at, key) # rest)
      else prune_loop now
        (if map_of entries key = Some expires_at then AList.delete key entries else entries) rest)"

definition replay_prune :: "u64 \<Rightarrow> replay_cache \<Rightarrow> replay_cache" where
  "replay_prune now c =
     (let (entries, expirations) = prune_loop now (rc_entries c) (rc_expirations c)
      in c\<lparr>rc_entries := entries, rc_expirations := expirations\<rparr>)"

definition replay_consume ::
  "verified_grant \<times> u64 \<Rightarrow> replay_cache \<Rightarrow> (replay_error + unit) \<times> replay_cache"
where
  "replay_consume gt c0 =
     (let (grant, now) = gt; c = replay_prune now c0; key = ReplayKey (vg_key_id grant) (vg_nonce grant) in
      if now \<ge> vg_expires_at grant then (Inl ReplayExpired, c)
      else if vg_issued_at grant < rc_process_started_at c then (Inl PredatesProcess, c)
      else if map_of (rc_entries c) key \<noteq> None then (Inl Replayed, c)
      else if length (rc_entries c) \<ge> rc_capacity c then (Inl Capacity, c)
      else (Inr (), c\<lparr>rc_entries := AList.update key (vg_expires_at grant) (rc_entries c),
                       rc_expirations := insort (vg_expires_at grant, key) (rc_expirations c)\<rparr>))"

section \<open>Invariant\<close>

text \<open>
  Keys are unique, the queue is ordered and lists exactly the entries with their expiries, and the
  capacity is never exceeded.
\<close>

definition heap_of :: "(replay_key \<times> u64) list \<Rightarrow> (u64 \<times> replay_key) list \<Rightarrow> bool" where
  "heap_of entries q \<longleftrightarrow> distinct (map fst entries) \<and> distinct q \<and> sorted q \<and>
     (\<forall>e k. (e, k) \<in> set q \<longleftrightarrow> (k, e) \<in> set entries)"

definition replay_inv :: "replay_cache \<Rightarrow> bool" where
  "replay_inv c \<longleftrightarrow>
     heap_of (rc_entries c) (rc_expirations c) \<and> length (rc_entries c) \<le> rc_capacity c"

text \<open>Pruning removes exactly the entries that have expired.\<close>

lemma prune_loop_heap:
  assumes "heap_of entries q"
  shows "heap_of (fst (prune_loop now entries q)) (snd (prune_loop now entries q)) \<and>
    set (fst (prune_loop now entries q)) = {(k, e). (k, e) \<in> set entries \<and> now < e} \<and>
    length (fst (prune_loop now entries q)) \<le> length entries"
  using assms
proof (induction now entries q rule: prune_loop.induct)
  case (1 now entries)
  then have "entries = []" by (cases entries) (auto simp: heap_of_def)
  then show ?case by (simp add: heap_of_def)
next
  case (2 now entries e k rest)
  show ?case
  proof (cases "e > now")
    case True
    have "now < e'" if "(k', e') \<in> set entries" for k' e'
    proof -
      from that 2(2) have "(e', k') = (e, k) \<or> (e', k') \<in> set rest" by (auto simp: heap_of_def)
      moreover have "\<forall>x \<in> set rest. (e, k) \<le> x" using 2(2) by (simp add: heap_of_def)
      ultimately have "(e, k) \<le> (e', k')" by (metis order_refl)
      then have "e \<le> e'" by (auto simp: less_eq_prod_def)
      with True show ?thesis by (rule less_le_trans)
    qed
    with True 2(2) show ?thesis by auto
  next
    case False
    have m: "map_of entries k = Some e" and ke: "(k, e) \<in> set entries"
      using 2(2) by (auto simp: heap_of_def)
    have "heap_of (AList.delete k entries) rest"
      using 2(2) ke by (auto simp: heap_of_def distinct_map_filter AList.delete_eq
          dest: eq_key_imp_eq_value)
    note heap = this
    have "b = e" if "(k, b) \<in> set entries" for b
      using that ke 2(2) by (auto simp: heap_of_def dest: eq_key_imp_eq_value)
    then have "{(k', e'). (k', e') \<in> set (AList.delete k entries) \<and> now < e'} =
        {(k', e'). (k', e') \<in> set entries \<and> now < e'}"
      using False by (auto simp: AList.delete_eq)
    moreover have "length (AList.delete k entries) \<le> length entries" by (rule AList.length_delete_le)
    ultimately show ?thesis using 2(1) False m heap by auto
  qed
qed

lemma replay_prune_inv:
  assumes "replay_inv c"
  shows "replay_inv (replay_prune now c)"
    and "set (rc_entries (replay_prune now c)) = {(k, e). (k, e) \<in> set (rc_entries c) \<and> now < e}"
    and "rc_process_started_at (replay_prune now c) = rc_process_started_at c"
    and "rc_capacity (replay_prune now c) = rc_capacity c"
  using prune_loop_heap [of "rc_entries c" "rc_expirations c" now] assms
  by (auto simp: replay_inv_def replay_prune_def case_prod_unfold Let_def)

lemma heap_of_push:
  assumes "heap_of entries q" and "map_of entries k = None"
  shows "heap_of (AList.update k e entries) (insort (e, k) q)"
proof -
  have "k \<notin> fst ` set entries" using assms(2) by (simp add: map_of_eq_None_iff)
  then show ?thesis
    using assms(1)
    by (auto simp: heap_of_def alist_update_new distinct_insort sorted_insort set_insort_key rev_image_eqI)
qed

text \<open>The outcomes of \<open>consume\<close>, over the pruned cache.\<close>

lemma replay_consume_cases:
  assumes "replay_consume (g, now) c0 = (r, c')"
  defines "c \<equiv> replay_prune now c0" and "k \<equiv> ReplayKey (vg_key_id g) (vg_nonce g)"
  obtains (rejected) e where "r = Inl e" and "c' = c"
  | (accepted) "r = Inr ()" and "now < vg_expires_at g" and "rc_process_started_at c \<le> vg_issued_at g"
      and "map_of (rc_entries c) k = None" and "length (rc_entries c) < rc_capacity c"
      and "c' = c\<lparr>rc_entries := AList.update k (vg_expires_at g) (rc_entries c),
             rc_expirations := insort (vg_expires_at g, k) (rc_expirations c)\<rparr>"
  using assms unfolding replay_consume_def Let_def
  by (auto simp: not_le not_less split: if_splits)

lemma replay_consume_inv:
  assumes "replay_inv c0"
  shows "replay_inv (snd (replay_consume (g, now) c0))"
proof (cases "replay_consume (g, now) c0")
  case (Pair r c')
  note p = replay_prune_inv [OF assms, of now]
  from Pair show ?thesis
  proof (cases rule: replay_consume_cases)
    case accepted
    then have "length (AList.update (ReplayKey (vg_key_id g) (vg_nonce g)) (vg_expires_at g)
        (rc_entries (replay_prune now c0))) = Suc (length (rc_entries (replay_prune now c0)))"
      by (simp add: map_of_eq_None_iff alist_update_new)
    with accepted p(1) Pair show ?thesis
      by (simp add: replay_inv_def heap_of_push)
  qed (use p Pair in simp)
qed

interpretation replay: machine replay_consume replay_inv
  using replay_consume_inv by unfold_locales auto

lemma replay_new_inv: "replay_new t n = Some c \<Longrightarrow> replay_inv c"
  by (auto simp: replay_new_def replay_inv_def heap_of_def split: if_splits)

text \<open>An entry survives every operation made before its expiry, and blocks its key.\<close>

lemma replay_consume_keeps:
  assumes "replay_inv c" and "(k, e) \<in> set (rc_entries c)" and "now < e"
  shows "(k, e) \<in> set (rc_entries (snd (replay_consume (g, now) c)))"
    and "k = ReplayKey (vg_key_id g) (vg_nonce g) \<Longrightarrow> fst (replay_consume (g, now) c) \<noteq> Inr ()"
proof -
  note p = replay_prune_inv [OF assms(1), of now]
  have kept: "(k, e) \<in> set (rc_entries (replay_prune now c))" using p(2) assms(2,3) by auto
  obtain r c' where rc: "replay_consume (g, now) c = (r, c')" by fastforce
  then have "(k, e) \<in> set (rc_entries c') \<and> (k = ReplayKey (vg_key_id g) (vg_nonce g) \<longrightarrow> r \<noteq> Inr ())"
  proof (cases rule: replay_consume_cases)
    case accepted
    then have "ReplayKey (vg_key_id g) (vg_nonce g) \<notin> fst ` set (rc_entries (replay_prune now c))"
      by (simp add: map_of_eq_None_iff)
    with accepted kept show ?thesis by (auto simp: alist_update_new rev_image_eqI)
  qed (use kept in auto)
  with rc show "(k, e) \<in> set (rc_entries (snd (replay_consume (g, now) c)))"
    "k = ReplayKey (vg_key_id g) (vg_nonce g) \<Longrightarrow> fst (replay_consume (g, now) c) \<noteq> Inr ()" by auto
qed

lemma replay_consume_records:
  assumes "replay_inv c" and "fst (replay_consume (g, now) c) = Inr ()"
  shows "(ReplayKey (vg_key_id g) (vg_nonce g), vg_expires_at g) \<in> set (rc_entries (snd (replay_consume (g, now) c)))"
proof -
  obtain r c' where rc: "replay_consume (g, now) c = (r, c')" by fastforce
  then show ?thesis
  proof (cases rule: replay_consume_cases)
    case accepted
    then have "ReplayKey (vg_key_id g) (vg_nonce g) \<notin> fst ` set (rc_entries (replay_prune now c))"
      by (simp add: map_of_eq_None_iff)
    with accepted rc show ?thesis by (simp add: alist_update_new)
  qed (use rc assms(2) in auto)
qed

lemma replay_blocked:
  assumes "replay_inv c" and "(k, e) \<in> set (rc_entries c)" and "sorted (map snd gts)"
    and "j < length gts" and "fst (run replay_consume gts c) ! j = Inr ()"
    and "k = ReplayKey (vg_key_id (fst (gts ! j))) (vg_nonce (fst (gts ! j)))"
  shows "e \<le> snd (gts ! j)"
  using assms
proof (induction gts arbitrary: c j)
  case (Cons gt gts)
  obtain g now where gt: "gt = (g, now)" by fastforce
  show ?case
  proof (cases "now < e")
    case True
    note keeps = replay_consume_keeps [OF Cons.prems(1,2) True]
    show ?thesis
    proof (cases j)
      case 0
      with Cons.prems(5,6) keeps(2) show ?thesis by (simp add: gt run_Cons del: run.simps(2))
    next
      case (Suc i)
      with Cons.prems show ?thesis
        by (auto simp: gt run_Cons simp del: run.simps(2)
            intro!: Cons.IH [OF replay.step_inv keeps(1)])
    qed
  next
    case False
    then have "e \<le> now" by simp
    also have "now \<le> snd ((gt # gts) ! j)"
      using Cons.prems(3,4) gt by (cases j) auto
    finally show ?thesis .
  qed
qed simp

section \<open>Properties\<close>

text \<open>
  Single use. Under a clock that does not run backwards, however many grants a node process is
  shown, if two of them with the same key identifier and nonce are both accepted then the first one
  had already expired when the second was presented; since an accepted grant is unexpired, no grant
  is accepted twice.
\<close>

theorem replay_single_use:
  assumes "replay_new started cap = Some c" and "sorted (map snd gts)"
    and "i < j" and "j < length gts"
    and "fst (run replay_consume gts c) ! i = Inr ()" and "fst (run replay_consume gts c) ! j = Inr ()"
    and "vg_key_id (fst (gts ! i)) = vg_key_id (fst (gts ! j))"
    and "vg_nonce (fst (gts ! i)) = vg_nonce (fst (gts ! j))"
  shows "vg_expires_at (fst (gts ! i)) \<le> snd (gts ! j) \<and> fst (gts ! i) \<noteq> fst (gts ! j)"
proof -
  let ?s = "snd (run replay_consume (take i gts) c)"
  let ?s' = "snd (replay_consume (gts ! i) ?s)"
  have inv: "replay_inv ?s" using replay.run_inv [OF replay_new_inv [OF assms(1)]] .
  have split: "gts = take i gts @ gts ! i # drop (Suc i) gts"
    using assms(3,4) by (simp add: id_take_nth_drop)
  have "fst (replay_consume (gts ! i) ?s) = Inr ()"
    using assms(3-5) run_nth [of i gts replay_consume c] by simp
  then have entry: "(ReplayKey (vg_key_id (fst (gts ! i))) (vg_nonce (fst (gts ! i))),
      vg_expires_at (fst (gts ! i))) \<in> set (rc_entries ?s')"
    using replay_consume_records [OF inv, of "fst (gts ! i)" "snd (gts ! i)"] by simp
  have le: "vg_expires_at (fst (gts ! i)) \<le> snd (drop (Suc i) gts ! (j - Suc i))"
  proof (rule replay_blocked [OF replay.step_inv [OF inv] entry])
    show "sorted (map snd (drop (Suc i) gts))" using assms(2) by (metis drop_map sorted_wrt_drop)
    have "fst (run replay_consume gts c) ! j =
        fst (run replay_consume (drop (Suc i) gts) ?s') ! (j - Suc i)"
      using assms(3,4)
      by (subst split) (simp add: run_append run_Cons nth_append nth_Cons' del: run.simps(2))
    with assms(6) show "fst (run replay_consume (drop (Suc i) gts) ?s') ! (j - Suc i) = Inr ()" by simp
  qed (use assms(3,4,7,8) in auto)
  then have expired: "vg_expires_at (fst (gts ! i)) \<le> snd (gts ! j)" using assms(3,4) by simp
  moreover have "snd (gts ! j) < vg_expires_at (fst (gts ! j))"
    using assms(4,6) run_nth [of j gts replay_consume c]
    by (auto simp: replay_consume_def case_prod_unfold Let_def not_le split: if_splits)
  ultimately show ?thesis by auto
qed

definition demo_verified :: verified_grant where
  "demo_verified = \<lparr>vg_key_id = [1], vg_issued_at = 100, vg_expires_at = 160, vg_nonce = [2],
     vg_audience = demo_audience\<rparr>"

definition demo_reissued :: verified_grant where
  "demo_reissued = demo_verified\<lparr>vg_expires_at := 400\<rparr>"

definition demo_cache :: replay_cache where
  "demo_cache = \<lparr>rc_process_started_at = 90, rc_capacity = 4, rc_entries = [], rc_expirations = []\<rparr>"

lemma demo_cache_new: "replay_new 90 4 = Some demo_cache"
  by (simp add: replay_new_def demo_cache_def)

theorem replay_single_use_witness:
  "fst (run replay_consume [(demo_verified, 110), (demo_reissued, 200)] demo_cache) = [Inr (), Inr ()]
     \<and> vg_expires_at demo_verified \<le> 200"
proof -
  have r: "fst (run replay_consume [(demo_verified, 110), (demo_reissued, 200)] demo_cache) = [Inr (), Inr ()]"
    by (simp add: demo_cache_def demo_verified_def demo_reissued_def replay_consume_def
        replay_prune_def Let_def)
  have "vg_expires_at demo_verified \<le> 200"
    using replay_single_use [OF demo_cache_new, of "[(demo_verified, 110), (demo_reissued, 200)]" 0 1]
    unfolding r by (simp add: demo_reissued_def)
  with r show ?thesis by simp
qed

text \<open>
  The outcome of every presentation to a reachable cache. The cache never holds more entries
  than its capacity; an expired grant, a grant issued before the process started, a grant whose
  identifier is held by an unexpired entry and a grant that finds the cache full of unexpired
  entries are refused, each with its own error and in this order; every other grant is accepted.
\<close>

theorem replay_consume_outcome:
  assumes "replay_new started cap = Some c0" and "c = snd (run replay_consume gts c0)"
  shows "length (rc_entries c) \<le> rc_capacity c \<and>
    fst (replay_consume (g, now) c) =
      (if vg_expires_at g \<le> now then Inl ReplayExpired
       else if vg_issued_at g < rc_process_started_at c then Inl PredatesProcess
       else if \<exists>e. (ReplayKey (vg_key_id g) (vg_nonce g), e) \<in> set (rc_entries c) \<and> now < e
         then Inl Replayed
       else if rc_capacity c \<le> card {x \<in> set (rc_entries c). now < snd x} then Inl Capacity
       else Inr ())"
proof -
  have inv: "replay_inv c" using replay.run_inv [OF replay_new_inv [OF assms(1)]] assms(2) by simp
  note p = replay_prune_inv [OF inv, of now]
  have "distinct (rc_entries (replay_prune now c))"
    using p(1) by (simp add: replay_inv_def heap_of_def distinct_map)
  then have "length (rc_entries (replay_prune now c)) = card {x \<in> set (rc_entries c). now < snd x}"
    using p(2) by (metis (no_types, lifting) Collect_cong case_prod_unfold distinct_card prod.collapse)
  moreover have "map_of (rc_entries (replay_prune now c)) k \<noteq> None \<longleftrightarrow>
      (\<exists>e. (k, e) \<in> set (rc_entries c) \<and> now < e)" for k
    using p(2) by (auto simp: map_of_eq_None_iff image_iff)
  ultimately show ?thesis
    using inv p(3,4) by (auto simp: replay_consume_def Let_def replay_inv_def)
qed

theorem replay_consume_outcome_witness:
  "fst (replay_consume (demo_verified, 120) (snd (run replay_consume [(demo_verified, 110)] demo_cache)))
     = Inl Replayed"
  using replay_consume_outcome [OF demo_cache_new refl, of "[(demo_verified, 110)]" demo_verified 120]
  by (simp add: demo_cache_def demo_verified_def replay_consume_def replay_prune_def Let_def)







end
