(* ===== verification/Address_Pool.thy ===== *)
theory Address_Pool
  imports Machines
begin

unbundle bit_operations_syntax

text \<open>
  \<open>nil-node/src/pool.rs\<close>: the inner-tunnel IPv4 address pool. Host addresses are 32-bit words; the
  \<open>HashSet\<close> of addresses in use is a set and the \<open>HashMap\<close> from connection keys an association list.
\<close>

section \<open>The pool\<close>

record pool =
  pl_first :: u32
  pl_last :: u32
  pl_cursor :: u32
  pl_in_use :: "u32 set"
  pl_by_conn :: "(bytes \<times> u32) list"

text \<open>\<open>!0u32 << host_bits\<close> overflows, and panics, when all 32 bits are host bits.\<close>

definition pool_new :: "ipv4addr \<Rightarrow> byte \<Rightarrow> ipv4addr \<Rightarrow> panic + pool option" where
  "pool_new base prefix gateway =
     (if prefix \<ge> 31 then Inr None
      else let host_bits = 32 - unat prefix in
      if host_bits \<ge> 32 then Inl Panic
      else let mask = push_bit host_bits (NOT 0);
               network = ipv4_to_u32 base AND mask;
               broadcast = network OR NOT mask;
               first = network + 1;
               last = broadcast - 1
      in if first > last then Inr None
      else let gw = ipv4_to_u32 gateway in
      if gw AND mask \<noteq> network then Inr None
      else Inr (Some \<lparr>pl_first = first, pl_last = last, pl_cursor = first,
             pl_in_use = (if first \<le> gw \<and> gw \<le> last then {gw} else {}), pl_by_conn = []\<rparr>))"

definition default_v4 :: "panic + pool option" where
  "default_v4 = pool_new (Ipv4Addr 10 74 0 0) 16 (Ipv4Addr 10 74 0 1)"

text \<open>The probing loop; its first argument is the number of probes left (\<open>span - tried\<close>).\<close>

fun assign_loop :: "nat \<Rightarrow> bytes \<Rightarrow> pool \<Rightarrow> ipv4addr option \<times> pool" where
  "assign_loop 0 conn_key p = (None, p)"
| "assign_loop (Suc n) conn_key p =
     (let candidate = pl_cursor p;
          p1 = p\<lparr>pl_cursor := (if pl_cursor p \<ge> pl_last p then pl_first p else pl_cursor p + 1)\<rparr>
      in if candidate \<notin> pl_in_use p1 then
           (Some (ipv4_of_u32 candidate),
            p1\<lparr>pl_in_use := insert candidate (pl_in_use p1),
               pl_by_conn := AList.update conn_key candidate (pl_by_conn p1)\<rparr>)
         else assign_loop n conn_key p1)"

definition pool_assign :: "bytes \<Rightarrow> pool \<Rightarrow> ipv4addr option \<times> pool" where
  "pool_assign conn_key p =
     (case map_of (pl_by_conn p) conn_key of
        Some existing \<Rightarrow> (Some (ipv4_of_u32 existing), p)
      | None \<Rightarrow> assign_loop (unat (pl_last p - pl_first p + 1)) conn_key p)"

definition pool_release :: "bytes \<Rightarrow> pool \<Rightarrow> pool" where
  "pool_release conn_key p =
     (case map_of (pl_by_conn p) conn_key of
        Some addr \<Rightarrow> p\<lparr>pl_by_conn := AList.delete conn_key (pl_by_conn p),
                       pl_in_use := pl_in_use p - {addr}\<rparr>
      | None \<Rightarrow> p)"

datatype pool_op = Assign bytes | Release bytes

fun pool_step :: "pool_op \<Rightarrow> pool \<Rightarrow> ipv4addr option \<times> pool" where
  "pool_step (Assign k) p = pool_assign k p"
| "pool_step (Release k) p = (None, pool_release k p)"

section \<open>Invariant\<close>

text \<open>
  The assigned addresses are distinct, inside the assignable range and disjoint from the reserved
  ones; the addresses in use are the reserved and the assigned ones; the cursor is in range.
\<close>

definition pool_ok :: "u32 set \<Rightarrow> pool \<Rightarrow> bool" where
  "pool_ok reserved p \<longleftrightarrow>
     pl_first p \<le> pl_last p \<and> unat (pl_last p) < 2 ^ 32 - 1 \<and>
     pl_first p \<le> pl_cursor p \<and> pl_cursor p \<le> pl_last p \<and>
     distinct (map fst (pl_by_conn p)) \<and> distinct (map snd (pl_by_conn p)) \<and>
     pl_in_use p = reserved \<union> snd ` set (pl_by_conn p) \<and>
     reserved \<inter> snd ` set (pl_by_conn p) = {} \<and>
     (\<forall>a \<in> snd ` set (pl_by_conn p). pl_first p \<le> a \<and> a \<le> pl_last p)"

definition next_cursor :: "pool \<Rightarrow> pool" where
  "next_cursor p = p\<lparr>pl_cursor := (if pl_cursor p \<ge> pl_last p then pl_first p else pl_cursor p + 1)\<rparr>"

lemma next_cursor_sel [simp]:
  "pl_first (next_cursor p) = pl_first p" "pl_last (next_cursor p) = pl_last p"
  "pl_in_use (next_cursor p) = pl_in_use p" "pl_by_conn (next_cursor p) = pl_by_conn p"
  by (simp_all add: next_cursor_def)

lemma next_cursor_ok: "pool_ok R p \<Longrightarrow> pool_ok R (next_cursor p)"
  by (auto simp: pool_ok_def next_cursor_def word_le_nat_alt unat_word_ariths)

lemma assign_loop_Suc:
  "assign_loop (Suc n) k p =
     (if pl_cursor p \<notin> pl_in_use p
      then (Some (ipv4_of_u32 (pl_cursor p)),
        (next_cursor p)\<lparr>pl_in_use := insert (pl_cursor p) (pl_in_use p),
           pl_by_conn := AList.update k (pl_cursor p) (pl_by_conn p)\<rparr>)
      else assign_loop n k (next_cursor p))"
  by (simp add: Let_def next_cursor_def)

lemmas assign_loop_numeral = assign_loop_Suc [of "pred_numeral v" for v, folded numeral_eq_Suc]

lemma assign_record_ok:
  assumes "pool_ok R p" and "map_of (pl_by_conn p) k = None" and "pl_cursor p \<notin> pl_in_use p"
  shows "pool_ok R ((next_cursor p)\<lparr>pl_in_use := insert (pl_cursor p) (pl_in_use p),
           pl_by_conn := AList.update k (pl_cursor p) (pl_by_conn p)\<rparr>)"
proof -
  have "k \<notin> fst ` set (pl_by_conn p)" using assms(2) by (simp add: map_of_eq_None_iff)
  with assms next_cursor_ok [OF assms(1)] show ?thesis
    by (auto simp: pool_ok_def alist_update_new)
qed

lemma assign_loop_ok:
  assumes "pool_ok R p" and "map_of (pl_by_conn p) k = None" and "assign_loop n k p = (r, p')"
  shows "pool_ok R p' \<and> pl_first p' = pl_first p \<and> pl_last p' = pl_last p \<and>
    (case r of None \<Rightarrow> pl_by_conn p' = pl_by_conn p
     | Some ip \<Rightarrow> \<exists>a. ip = ipv4_of_u32 a \<and> a \<notin> pl_in_use p \<and> pl_first p \<le> a \<and> a \<le> pl_last p \<and>
         pl_by_conn p' = pl_by_conn p @ [(k, a)])"
  using assms
proof (induction n arbitrary: p)
  case (Suc n)
  show ?case
  proof (cases "pl_cursor p \<in> pl_in_use p")
    case True
    with Suc.IH [of "next_cursor p"] Suc.prems next_cursor_ok [OF Suc.prems(1)] show ?thesis
      unfolding assign_loop_Suc by (simp cong: option.case_cong)
  next
    case False
    have "k \<notin> fst ` set (pl_by_conn p)" using Suc.prems(2) by (simp add: map_of_eq_None_iff)
    then have new: "AList.update k (pl_cursor p) (pl_by_conn p) = pl_by_conn p @ [(k, pl_cursor p)]"
      by (rule alist_update_new)
    have rp: "r = Some (ipv4_of_u32 (pl_cursor p))"
      "p' = (next_cursor p)\<lparr>pl_in_use := insert (pl_cursor p) (pl_in_use p),
           pl_by_conn := AList.update k (pl_cursor p) (pl_by_conn p)\<rparr>"
      using Suc.prems(3) False unfolding assign_loop_Suc by auto
    have "pl_first p \<le> pl_cursor p" "pl_cursor p \<le> pl_last p"
      using Suc.prems(1) by (simp_all add: pool_ok_def)
    then show ?thesis
      using assign_record_ok [OF Suc.prems(1,2) False] False
      unfolding rp(1) rp(2) [symmetric] by (simp add: rp(2) new)
  qed
qed auto

section \<open>Every address is probed\<close>

lemma next_cursor_pow_sel [simp]:
  "pl_first ((next_cursor ^^ i) p) = pl_first p" "pl_last ((next_cursor ^^ i) p) = pl_last p"
  "pl_in_use ((next_cursor ^^ i) p) = pl_in_use p"
  by (induction i) simp_all

lemma assign_loop_None:
  "assign_loop n k p = (None, p') \<Longrightarrow> i < n \<Longrightarrow> pl_cursor ((next_cursor ^^ i) p) \<in> pl_in_use p"
proof (induction n arbitrary: p i)
  case (Suc n)
  then have "pl_cursor p \<in> pl_in_use p" and "assign_loop n k (next_cursor p) = (None, p')"
    unfolding assign_loop_Suc by (auto split: if_splits)
  with Suc.IH [of "next_cursor p"] Suc.prems(2) show ?case
    by (cases i) (auto simp: funpow_swap1)
qed simp

definition pool_span :: "pool \<Rightarrow> nat" where
  "pool_span p = unat (pl_last p) - unat (pl_first p) + 1"

lemma unat_next_cursor:
  "unat (pl_last q) < 2 ^ 32 - 1 \<Longrightarrow> unat (pl_cursor (next_cursor q)) =
     (if unat (pl_last q) \<le> unat (pl_cursor q) then unat (pl_first q) else Suc (unat (pl_cursor q)))"
  by (auto simp: next_cursor_def word_le_nat_alt unat_word_ariths)

lemma cursor_pow:
  assumes "pool_ok R p"
  shows "unat (pl_cursor ((next_cursor ^^ i) p)) =
    unat (pl_first p) + (unat (pl_cursor p) - unat (pl_first p) + i) mod pool_span p"
proof (induction i)
  case 0
  then show ?case using assms by (auto simp: pool_ok_def pool_span_def word_le_nat_alt)
next
  case (Suc i)
  let ?c = "(next_cursor ^^ i) p"
  define m where "m = (unat (pl_cursor p) - unat (pl_first p) + i) mod pool_span p"
  have "m < pool_span p" by (simp add: m_def pool_span_def)
  moreover have le: "unat (pl_first p) \<le> unat (pl_last p)" "unat (pl_last p) < 2 ^ 32 - 1"
    using assms by (simp_all add: pool_ok_def word_le_nat_alt)
  ultimately have "unat (pl_cursor (next_cursor ?c)) =
      (if Suc m = pool_span p then unat (pl_first p) else unat (pl_first p) + Suc m)"
    using Suc.IH [folded m_def] unat_next_cursor [of ?c] by (auto simp: pool_span_def)
  then show ?case by (simp add: mod_Suc m_def)
qed

lemma all_probed:
  assumes "pool_ok R p" and "pl_first p \<le> a" and "a \<le> pl_last p"
  shows "\<exists>i < pool_span p. pl_cursor ((next_cursor ^^ i) p) = a"
proof -
  let ?s = "pool_span p" and ?f = "unat (pl_first p)"
  let ?c = "unat (pl_cursor p) - ?f" and ?d = "unat a - ?f"
  let ?i = "(?d + (?s - ?c)) mod ?s"
  have r: "?f \<le> unat a" "unat a \<le> unat (pl_last p)" "?f \<le> unat (pl_cursor p)"
    "unat (pl_cursor p) \<le> unat (pl_last p)"
    using assms by (simp_all add: pool_ok_def word_le_nat_alt)
  then have lt: "?d < ?s" "?c < ?s" by (auto simp: pool_span_def)
  have "(?c + ?i) mod ?s = (?c + (?d + (?s - ?c))) mod ?s" by (rule mod_add_right_eq)
  also have "?c + (?d + (?s - ?c)) = ?d + ?s" using lt by simp
  finally have "(?c + ?i) mod ?s = ?d" using lt by simp
  then have "unat (pl_cursor ((next_cursor ^^ ?i) p)) = unat a"
    using cursor_pow [OF assms(1), of ?i] r by simp
  moreover have "?i < ?s" by (simp add: pool_span_def)
  ultimately show ?thesis using word_unat_eq_iff by blast
qed

lemma pool_span_word: "pool_ok R p \<Longrightarrow> unat (pl_last p - pl_first p + 1) = pool_span p"
  by (auto simp: pool_ok_def pool_span_def unat_word_ariths unat_sub word_le_nat_alt)

section \<open>The operations keep the invariant\<close>

lemma pool_assign_ok:
  assumes "pool_ok R p"
  shows "pool_ok R (snd (pool_assign k p))"
proof (cases "map_of (pl_by_conn p) k")
  case None
  obtain r p' where l: "assign_loop (unat (pl_last p - pl_first p + 1)) k p = (r, p')" by fastforce
  then show ?thesis
    using assign_loop_ok [OF assms None l] None by (simp add: pool_assign_def)
qed (simp add: pool_assign_def assms)

lemma pool_release_ok:
  assumes "pool_ok R p"
  shows "pool_ok R (pool_release k p)"
proof (cases "map_of (pl_by_conn p) k")
  case (Some a)
  have dist: "distinct (map fst (pl_by_conn p))" "distinct (map snd (pl_by_conn p))"
    using assms by (simp_all add: pool_ok_def)
  note del = snd_set_delete [OF dist Some]
  have "a \<in> snd ` set (pl_by_conn p)" using map_of_SomeD [OF Some] by (rule image_eqI [rotated]) simp
  then have "a \<notin> R" using assms by (auto simp: pool_ok_def)
  then have "R \<union> snd ` set (pl_by_conn p) - {a} = R \<union> (snd ` set (pl_by_conn p) - {a})" by blast
  moreover have "R \<inter> (snd ` set (pl_by_conn p) - {a}) = {}" using assms by (auto simp: pool_ok_def)
  moreover have "\<forall>b \<in> snd ` set (pl_by_conn p) - {a}. pl_first p \<le> b \<and> b \<le> pl_last p"
    using assms by (auto simp: pool_ok_def)
  ultimately show ?thesis
    using assms Some distinct_map_delete [OF dist(1)] distinct_map_delete [OF dist(2)]
    by (simp add: pool_release_def pool_ok_def del)
qed (simp add: pool_release_def assms)

interpretation pool_machine: machine pool_step "pool_ok R" for R
proof
  fix p :: pool and i
  assume "pool_ok R p"
  then show "pool_ok R (snd (pool_step i p))"
    by (cases i) (simp_all add: pool_assign_ok pool_release_ok)
qed

section \<open>Building a pool\<close>

lemma network_parts:
  fixes b :: u32
  assumes "1 \<le> h" and "h < 32"
  defines "net \<equiv> b AND push_bit h (NOT 0)"
  shows "unat (net OR NOT (push_bit h (NOT 0))) = unat net + (2 ^ h - 1)"
proof -
  have m: "NOT (push_bit h (NOT 0 :: u32)) = mask h"
    by (rule bit_word_eqI) (auto simp: bit_simps)
  have "unat (net OR mask h) = unat net OR unat (mask h :: u32)" by (rule unsigned_or_eq)
  also have "\<dots> = unat net + unat (mask h :: u32)"
    by (rule disjunctive_add [symmetric]) (auto simp: net_def bit_simps)
  also have "unat (mask h :: u32) = mask h"
    using assms(2) by (intro bit_eqI) (auto simp: bit_simps)
  finally show ?thesis by (simp add: m mask_eq_exp_minus_1)
qed

definition pool_reserved :: "pool \<Rightarrow> u32 \<Rightarrow> u32 set" where
  "pool_reserved p gw = {gw} \<inter> {pl_first p..pl_last p}"

lemma pool_new_Some:
  assumes "pool_new base prefix gateway = Inr (Some p)"
  shows "pool_ok (pool_reserved p (ipv4_to_u32 gateway)) p" and "pl_by_conn p = []"
    and "prefix < 31" and "1 \<le> unat prefix"
    and "unat (pl_first p) = unat (ipv4_to_u32 base AND push_bit (32 - unat prefix) (NOT 0)) + 1"
    and "unat (pl_last p) + 1 = unat (ipv4_to_u32 base AND push_bit (32 - unat prefix) (NOT 0))
           + (2 ^ (32 - unat prefix) - 1)"
proof -
  define h where "h = 32 - unat prefix"
  define m :: u32 where "m = push_bit h (NOT 0)"
  define net where "net = ipv4_to_u32 base AND m"
  have pre: "prefix < 31" "h < 32" and p: "p = \<lparr>pl_first = net + 1, pl_last = (net OR NOT m) - 1,
      pl_cursor = net + 1, pl_in_use = (if net + 1 \<le> ipv4_to_u32 gateway \<and>
        ipv4_to_u32 gateway \<le> (net OR NOT m) - 1 then {ipv4_to_u32 gateway} else {}), pl_by_conn = []\<rparr>"
    using assms by (auto simp: pool_new_def Let_def h_def m_def net_def not_le split: if_splits)
  then have un: "unat prefix < 31" "1 \<le> unat prefix"
    by (auto simp: word_less_nat_alt h_def)
  then have h: "1 \<le> h" "h < 32" "2 \<le> h" by (auto simp: h_def)
  have b: "unat (net OR NOT m) = unat net + (2 ^ h - 1)"
    using network_parts [OF h(1,2), of "ipv4_to_u32 base"] by (simp add: net_def m_def)
  have "(2::nat) ^ 2 \<le> 2 ^ h" using h(3) by (rule power_increasing) simp
  then have four: "4 \<le> (2::nat) ^ h" by simp
  have lim: "unat net + (2 ^ h - 1) < 2 ^ 32" using unat_less_pow [of "net OR NOT m"] b by simp
  have first: "unat (net + 1) = unat net + 1"
    using lim four by (simp add: unat_word_ariths)
  have last: "unat ((net OR NOT m) - 1) + 1 = unat net + (2 ^ h - 1)"
    using b four by (simp add: unat_sub word_le_nat_alt)
  have "net + 1 \<le> (net OR NOT m) - 1" using first last four by (simp add: word_le_nat_alt)
  moreover have "unat ((net OR NOT m) - 1) < 2 ^ 32 - 1" using last lim by simp
  ultimately show "pool_ok (pool_reserved p (ipv4_to_u32 gateway)) p"
    unfolding p by (auto simp: pool_ok_def pool_reserved_def)
  show "pl_by_conn p = []" "prefix < 31" "1 \<le> unat prefix"
    "unat (pl_first p) = unat (ipv4_to_u32 base AND push_bit (32 - unat prefix) (NOT 0)) + 1"
    "unat (pl_last p) + 1 = unat (ipv4_to_u32 base AND push_bit (32 - unat prefix) (NOT 0))
       + (2 ^ (32 - unat prefix) - 1)"
    using p pre un first last by (simp_all add: net_def m_def h_def)
qed

lemma pool_full_span:
  assumes "pool_ok (pool_reserved p0 gw) p" and "{pl_first p..pl_last p} \<subseteq> pl_in_use p"
  shows "pool_span p \<le> length (pl_by_conn p) + 1"
proof -
  have inj: "inj_on unat A" for A :: "u32 set" by (simp add: inj_on_def word_unat_eq_iff)
  have "pool_span p = card {unat (pl_first p)..unat (pl_last p)}"
    using assms(1) by (simp add: pool_span_def pool_ok_def word_le_nat_alt Suc_diff_le)
  also have "\<dots> \<le> card (unat ` pl_in_use p)"
  proof (rule card_mono)
    show "finite (unat ` pl_in_use p)" by (intro finite_imageI finite)
    show "{unat (pl_first p)..unat (pl_last p)} \<subseteq> unat ` pl_in_use p"
    proof
      fix n assume n: "n \<in> {unat (pl_first p)..unat (pl_last p)}"
      then have "unat (word_of_nat n :: u32) = n"
        using unat_less_pow [of "pl_last p"] by (simp add: unat_of_nat)
      with n assms(2) show "n \<in> unat ` pl_in_use p"
        by (intro image_eqI [of _ _ "word_of_nat n"]) (auto simp: word_le_nat_alt)
    qed
  qed
  also have "\<dots> = card (pl_in_use p)" by (rule card_image [OF inj])
  also have "\<dots> \<le> card (pool_reserved p0 gw) + card (snd ` set (pl_by_conn p))"
    using assms(1) by (metis card_Un_le pool_ok_def)
  also have "\<dots> \<le> 1 + length (pl_by_conn p)"
  proof (rule add_mono)
    show "card (pool_reserved p0 gw) \<le> 1"
      using card_mono [of "{gw}" "pool_reserved p0 gw"] by (simp add: pool_reserved_def)
    show "card (snd ` set (pl_by_conn p)) \<le> length (pl_by_conn p)"
      by (metis card_length length_map set_map)
  qed
  finally show ?thesis by simp
qed

section \<open>Properties\<close>

lemma pool_reachable:
  assumes "pool_new base prefix gateway = Inr (Some p0)"
  shows "pool_ok (pool_reserved p0 (ipv4_to_u32 gateway)) (snd (run pool_step ops p0))"
  by (rule pool_machine.run_inv [OF pool_new_Some(1) [OF assms]])

lemma pool_step_range:
  "pool_ok R p \<Longrightarrow> pl_first (snd (pool_step i p)) = pl_first p \<and> pl_last (snd (pool_step i p)) = pl_last p"
proof (cases i)
  case (Assign k)
  assume ok: "pool_ok R p"
  obtain r p' where l: "assign_loop (unat (pl_last p - pl_first p + 1)) k p = (r, p')" by fastforce
  with Assign assign_loop_ok [OF ok _ l] show ?thesis
    by (cases "map_of (pl_by_conn p) k") (auto simp: pool_assign_def)
qed (auto simp: pool_release_def split: option.split)

lemma pool_run_range:
  "pool_ok R p \<Longrightarrow> pl_first (snd (run pool_step ops p)) = pl_first p \<and> pl_last (snd (run pool_step ops p)) = pl_last p"
proof (induction ops arbitrary: p)
  case (Cons i ops)
  then show ?case
    using pool_step_range [OF Cons.prems, of i] pool_machine.step_inv [OF Cons.prems, of i]
    by (simp add: run_Cons del: run.simps(2))
qed simp

text \<open>
  After any sequence of assignments and releases, two connections never hold the same inner
  address, and no connection holds the network address, the broadcast address or the gateway.
\<close>

theorem pool_addresses_unique:
  assumes "pool_new base prefix gateway = Inr (Some p0)"
    and "map_of (pl_by_conn (snd (run pool_step ops p0))) k1 = Some a1"
  shows "(k1 \<noteq> k2 \<longrightarrow> map_of (pl_by_conn (snd (run pool_step ops p0))) k2 \<noteq> Some a1) \<and>
    a1 \<noteq> ipv4_to_u32 gateway \<and>
    (let network = ipv4_to_u32 base AND push_bit (32 - unat prefix) (NOT 0) in
     unat network < unat a1 \<and> unat a1 < unat network + (2 ^ (32 - unat prefix) - 1))"
proof -
  let ?p = "snd (run pool_step ops p0)"
  note new = pool_new_Some [OF assms(1)]
  have ok: "pool_ok (pool_reserved p0 (ipv4_to_u32 gateway)) ?p" by (rule pool_reachable [OF assms(1)])
  note range = pool_run_range [OF new(1), of ops]
  have in1: "(k1, a1) \<in> set (pl_by_conn ?p)" using assms(2) by (rule map_of_SomeD)
  then have a1: "a1 \<in> snd ` set (pl_by_conn ?p)" by (rule image_eqI [rotated]) simp
  have "k1 = k2" if "map_of (pl_by_conn ?p) k2 = Some a1"
    using in1 map_of_SomeD [OF that] ok inj_onD [of snd "set (pl_by_conn ?p)" "(k1, a1)" "(k2, a1)"]
    by (auto simp: pool_ok_def distinct_map)
  moreover have bounds: "pl_first p0 \<le> a1" "a1 \<le> pl_last p0"
    using ok a1 range by (auto simp: pool_ok_def)
  moreover have "a1 \<noteq> ipv4_to_u32 gateway"
    using ok a1 bounds by (auto simp: pool_ok_def pool_reserved_def)
  ultimately show ?thesis
    using new(5,6) by (auto simp: Let_def word_le_nat_alt)
qed

definition demo_pool :: pool where
  "demo_pool = \<lparr>pl_first = 167772161, pl_last = 167772166, pl_cursor = 167772161,
     pl_in_use = {167772161}, pl_by_conn = []\<rparr>"

lemma demo_pool_new: "pool_new (Ipv4Addr 10 0 0 0) 29 (Ipv4Addr 10 0 0 1) = Inr (Some demo_pool)"
  by (simp add: pool_new_def demo_pool_def Let_def ipv4_to_u32_def of_be_def nat_of_be_def
      mask_eq_exp_minus_1)

theorem pool_addresses_unique_witness:
  "map_of (pl_by_conn (snd (run pool_step [Assign [1], Assign [2]] demo_pool))) [2] \<noteq> Some 167772162"
proof -
  have "map_of (pl_by_conn (snd (run pool_step [Assign [1], Assign [2]] demo_pool))) [1] = Some 167772162"
    by (simp add: demo_pool_def pool_assign_def assign_loop_numeral assign_loop_Suc next_cursor_def
        del: assign_loop.simps(2))
  from pool_addresses_unique [OF demo_pool_new this, of "[2]"] show ?thesis by simp
qed

text \<open>
  Assignment and release, on every reachable pool. A connection that holds an address gets it
  back and nothing changes; otherwise assignment fails exactly when every assignable address is in
  use, and a success records an address that was not in use for this connection only. A release
  drops this connection's address and no other. Assignment never fails while fewer connections
  than assignable addresses (the gateway's apart) hold one.
\<close>

theorem pool_operations:
  assumes "pool_new base prefix gateway = Inr (Some p0)" and "p = snd (run pool_step ops p0)"
  shows "(\<forall>a. map_of (pl_by_conn p) k = Some a \<longrightarrow> pool_assign k p = (Some (ipv4_of_u32 a), p)) \<and>
    (map_of (pl_by_conn p) k = None \<longrightarrow>
      (case fst (pool_assign k p) of
         None \<Rightarrow> {pl_first p..pl_last p} \<subseteq> pl_in_use p \<and> pool_span p \<le> length (pl_by_conn p) + 1 \<and>
                 pl_by_conn (snd (pool_assign k p)) = pl_by_conn p
       | Some ip \<Rightarrow> ipv4_to_u32 ip \<in> {pl_first p..pl_last p} - pl_in_use p \<and>
           map_of (pl_by_conn (snd (pool_assign k p))) = (map_of (pl_by_conn p))(k \<mapsto> ipv4_to_u32 ip))) \<and>
    map_of (pl_by_conn (pool_release k p)) = (map_of (pl_by_conn p))(k := None)"
proof (intro conjI)
  have ok: "pool_ok (pool_reserved p0 (ipv4_to_u32 gateway)) p"
    using pool_reachable [OF assms(1)] assms(2) by simp
  show "\<forall>a. map_of (pl_by_conn p) k = Some a \<longrightarrow> pool_assign k p = (Some (ipv4_of_u32 a), p)"
    by (simp add: pool_assign_def)
  show "map_of (pl_by_conn (pool_release k p)) = (map_of (pl_by_conn p))(k := None)"
    by (auto simp: pool_release_def AList.delete_conv' split: option.split)
  show "map_of (pl_by_conn p) k = None \<longrightarrow>
      (case fst (pool_assign k p) of
         None \<Rightarrow> {pl_first p..pl_last p} \<subseteq> pl_in_use p \<and> pool_span p \<le> length (pl_by_conn p) + 1 \<and>
                 pl_by_conn (snd (pool_assign k p)) = pl_by_conn p
       | Some ip \<Rightarrow> ipv4_to_u32 ip \<in> {pl_first p..pl_last p} - pl_in_use p \<and>
           map_of (pl_by_conn (snd (pool_assign k p))) = (map_of (pl_by_conn p))(k \<mapsto> ipv4_to_u32 ip))"
  proof
    assume new: "map_of (pl_by_conn p) k = None"
    obtain r p' where l: "assign_loop (pool_span p) k p = (r, p')" by fastforce
    have a: "pool_assign k p = (r, p')" using new l by (simp add: pool_assign_def pool_span_word [OF ok])
    note lok = assign_loop_ok [OF ok new l]
    show "case fst (pool_assign k p) of
         None \<Rightarrow> {pl_first p..pl_last p} \<subseteq> pl_in_use p \<and> pool_span p \<le> length (pl_by_conn p) + 1 \<and>
                 pl_by_conn (snd (pool_assign k p)) = pl_by_conn p
       | Some ip \<Rightarrow> ipv4_to_u32 ip \<in> {pl_first p..pl_last p} - pl_in_use p \<and>
           map_of (pl_by_conn (snd (pool_assign k p))) = (map_of (pl_by_conn p))(k \<mapsto> ipv4_to_u32 ip)"
    proof (cases r)
      case None
      have full: "{pl_first p..pl_last p} \<subseteq> pl_in_use p"
        using all_probed [OF ok] assign_loop_None [of "pool_span p" k p p'] l None by fastforce
      with pool_full_span [OF ok full] lok a None show ?thesis by simp
    next
      case (Some ip)
      then obtain x where x: "ip = ipv4_of_u32 x" "x \<notin> pl_in_use p" "pl_first p \<le> x" "x \<le> pl_last p"
        "pl_by_conn p' = pl_by_conn p @ [(k, x)]" using lok by auto
      moreover have "map_of (pl_by_conn p @ [(k, x)]) = (map_of (pl_by_conn p))(k \<mapsto> x)"
        using new by (auto simp: map_add_def fun_eq_iff split: option.split)
      ultimately show ?thesis using Some a by simp
    qed
  qed
qed

theorem pool_operations_witness:
  "fst (pool_assign [3] (snd (run pool_step [Assign [1], Release [1]] demo_pool))) = Some (Ipv4Addr 10 0 0 3)"
proof -
  let ?p = "snd (run pool_step [Assign [1], Release [1]] demo_pool)"
  have p: "?p = demo_pool\<lparr>pl_cursor := 167772163\<rparr>"
    by (simp add: demo_pool_def pool_assign_def assign_loop_numeral assign_loop_Suc next_cursor_def
        pool_release_def del: assign_loop.simps(2))
  have a: "fst (pool_assign [3] ?p) = Some (ipv4_of_u32 167772163)"
    unfolding p by (simp add: demo_pool_def pool_assign_def assign_loop_numeral del: assign_loop.simps(2))
  have "ipv4_to_u32 (ipv4_of_u32 167772163) \<in> {pl_first ?p..pl_last ?p} - pl_in_use ?p"
    using pool_operations [OF demo_pool_new refl, of "[Assign [1], Release [1]]" "[3]"] a p
    by (simp add: demo_pool_def)
  moreover have "ipv4_of_u32 167772163 = Ipv4Addr 10 0 0 3"
    by (simp add: ipv4_of_u32_def ipv4_of_octets_def to_be_def be_of_nat_numeral)
  ultimately show ?thesis using a by simp
qed

text \<open>A prefix of zero makes the shift overflow instead of returning \<open>None\<close> or a pool.\<close>

lemma pool_new_prefix_zero: "pool_new base 0 gateway = Inl Panic"
  by (simp add: pool_new_def)

end
