(* ===== verification/Checksum.thy ===== *)
theory Checksum
  imports Nil_Prelude
begin

unbundle bit_operations_syntax

text \<open>
  \<open>nil-core/src/checksum.rs\<close>: finalisation of the IPv4 header checksum and of the TCP, UDP and ICMPv6
  checksums of a packet, in place. A packet is its list of bytes; the 32-bit accumulator keeps its
  width, and that it never overflows is proved.
\<close>

section \<open>The one's-complement sum\<close>

text \<open>The loop over the 16-bit words of the data; an odd last byte is the high byte of a word.\<close>

fun sum_words :: "u32 \<Rightarrow> bytes \<Rightarrow> u32" where
  "sum_words acc (a # b # rest) = sum_words (acc + ucast (of_be [a, b] :: u16)) rest"
| "sum_words acc [a] = acc + push_bit 8 (ucast a)"
| "sum_words acc [] = acc"

lemma fold_carry_decreases:
  assumes "drop_bit 16 (s :: u32) \<noteq> 0"
  shows "unat ((s AND 65535) + drop_bit 16 s) < unat s"
proof -
  have lo: "unat (s AND 65535) = unat s mod 65536"
  proof -
    have "s AND 65535 = take_bit 16 s" by (simp add: take_bit_eq_mask mask_eq_exp_minus_1)
    then show ?thesis by (simp add: take_bit_eq_mod unat_mod)
  qed
  have hi: "unat (drop_bit 16 s) = unat s div 65536" by (simp add: drop_bit_eq_div unat_div)
  have "unat s div 65536 \<noteq> 0" using assms hi by (metis unat_eq_zero)
  moreover have "unat s div 65536 * 65536 + unat s mod 65536 = unat s" by (rule div_mult_mod_eq)
  ultimately have "unat s mod 65536 + unat s div 65536 < unat s" by linarith
  moreover have "unat s < 2 ^ 32" using unat_less_pow [of s] by simp
  ultimately show ?thesis by (simp add: unat_word_ariths lo hi)
qed

text \<open>The folding loop.\<close>

function fold_carry :: "u32 \<Rightarrow> u32" where
  "fold_carry acc =
     (if drop_bit 16 acc \<noteq> 0 then fold_carry ((acc AND 65535) + drop_bit 16 acc) else acc)"
  by pat_completeness auto
termination by (relation "measure unat") (use fold_carry_decreases in auto)

declare fold_carry.simps [simp del]

definition ones_complement :: "bytes \<Rightarrow> u32 \<Rightarrow> u16" where
  "ones_complement data initial = NOT (ucast (fold_carry (sum_words initial data)))"

section \<open>Finalisation\<close>

definition fix_ipv4_l4 :: "nat \<Rightarrow> bytes \<Rightarrow> bytes" where
  "fix_ipv4_l4 ihl pkt =
     (let proto = pkt ! 9;
          total_len = unat (of_be [pkt ! 2, pkt ! 3] :: u16);
          fin = min total_len (length pkt)
      in if fin \<le> ihl then pkt
      else case (if proto = 6 then Some 16 else if proto = 17 then Some 6 else None) of
        None \<Rightarrow> pkt
      | Some csum_off \<Rightarrow>
          (let l4_len = fin - ihl in
           if l4_len < csum_off + 2 then pkt
           else let pkt = pkt[ihl + csum_off := 0, ihl + csum_off + 1 := 0];
                    sum = sum_words 0 (take 8 (drop 12 pkt)) + ucast proto + word_of_nat l4_len;
                    csum = ones_complement (take (fin - ihl) (drop ihl pkt)) sum;
                    csum = (if proto = 17 \<and> csum = 0 then 65535 else csum)
                in copy_at (ihl + csum_off) (to_be 2 csum) pkt))"

definition fix_ipv4_checksums :: "bytes \<Rightarrow> bytes" where
  "fix_ipv4_checksums pkt =
     (if length pkt < 20 \<or> drop_bit 4 (pkt ! 0) \<noteq> 4 then pkt
      else let ihl = unat (pkt ! 0 AND 15) * 4 in
      if ihl < 20 \<or> length pkt < ihl then pkt
      else let pkt = pkt[10 := 0, 11 := 0];
               ip_csum = ones_complement (take ihl pkt) 0;
               pkt = copy_at 10 (to_be 2 ip_csum) pkt
           in fix_ipv4_l4 ihl pkt)"

definition fix_ipv6_checksums :: "bytes \<Rightarrow> bytes" where
  "fix_ipv6_checksums pkt =
     (if length pkt < 40 \<or> drop_bit 4 (pkt ! 0) \<noteq> 6 then pkt
      else let next_header = pkt ! 6;
               payload_len = unat (of_be [pkt ! 4, pkt ! 5] :: u16)
      in case (if next_header = 6 then Some 16 else if next_header = 17 then Some 6
               else if next_header = 58 then Some 2 else None) of
        None \<Rightarrow> pkt
      | Some csum_off \<Rightarrow>
          (let fin = min (40 + payload_len) (length pkt) in
           if fin \<le> 40 then pkt
           else let l4_len = fin - 40 in
           if l4_len < csum_off + 2 then pkt
           else let pkt = pkt[40 + csum_off := 0, 40 + csum_off + 1 := 0];
                    sum = sum_words 0 (take 32 (drop 8 pkt))
                          + drop_bit 16 (word_of_nat l4_len) + (word_of_nat l4_len AND 65535)
                          + ucast next_header;
                    csum = ones_complement (take (fin - 40) (drop 40 pkt)) sum;
                    csum = (if (next_header = 17 \<or> next_header = 58) \<and> csum = 0 then 65535 else csum)
                in copy_at (40 + csum_off) (to_be 2 csum) pkt))"

definition fix_l4_checksums :: "bytes \<Rightarrow> bytes" where
  "fix_l4_checksums pkt =
     (case map_option (drop_bit 4) (get_at pkt 0) of
        Some v \<Rightarrow> if v = 4 then fix_ipv4_checksums pkt
                  else if v = 6 then fix_ipv6_checksums pkt else pkt
      | None \<Rightarrow> pkt)"

section \<open>Arithmetic of the sum\<close>

text \<open>The sum of the 16-bit words as a natural number.\<close>

fun word_sum :: "bytes \<Rightarrow> nat" where
  "word_sum (a # b # rest) = (unat a * 256 + unat b) + word_sum rest"
| "word_sum [a] = unat a * 256"
| "word_sum [] = 0"

lemma word_sum_append: "even (length xs) \<Longrightarrow> word_sum (xs @ ys) = word_sum xs + word_sum ys"
  by (induction xs rule: word_sum.induct) auto

lemma unat_be16: "unat (of_be [a, b] :: u16) = unat a * 256 + unat b"
proof -
  have "unat a * 256 + unat b < 65536"
    using unat_byte_lt [of a] unat_byte_lt [of b] by linarith
  moreover have "nat_of_be [a, b] = unat a * 256 + unat b" by (simp add: nat_of_be_def)
  ultimately show ?thesis unfolding of_be_def by (simp only: unat_of_nat) simp
qed

lemma word_sum_bound: "word_sum xs \<le> 65535 * ((length xs + 1) div 2)"
proof (induction xs rule: word_sum.induct)
  case (1 a b rest)
  moreover have "unat a * 256 + unat b \<le> 65535"
    using unat_byte_lt [of a] unat_byte_lt [of b] by linarith
  ultimately show ?case by simp
next
  case (2 a)
  have "unat a < 256" by simp
  then show ?case by (simp del: unat_byte_lt)
qed simp

lemma unat_sum_words:
  "unat s + word_sum xs < 2 ^ 32 \<Longrightarrow> unat (sum_words s xs) = unat s + word_sum xs"
proof (induction s xs rule: sum_words.induct)
  case (1 s a b rest)
  have "unat (s + ucast (of_be [a, b] :: u16)) = unat s + (unat a * 256 + unat b)"
    using 1(2) by (simp add: unat_word_ariths unat_be16 unsigned_ucast_eq take_bit_eq_mod)
  with 1 show ?case by simp
next
  case (2 s a)
  have "unat (push_bit 8 (ucast a :: u32)) = unat a * 256"
    using unat_byte_lt [of a]
    by (simp add: push_bit_eq_mult unat_word_ariths unsigned_ucast_eq take_bit_eq_mod del: unat_byte_lt)
  with 2 show ?case by (simp add: unat_word_ariths)
qed simp

text \<open>Folding keeps the sum modulo \<open>2 ^ 16 - 1\<close> and ends below \<open>2 ^ 16\<close>; only zero folds to zero.\<close>

lemma carry_step:
  "unat ((s AND 65535) + drop_bit 16 s) = unat s mod 65536 + unat s div 65536" for s :: u32
proof -
  have "s AND 65535 = take_bit 16 s" by (simp add: take_bit_eq_mask mask_eq_exp_minus_1)
  then have lo: "unat (s AND 65535) = unat s mod 65536" by (simp add: take_bit_eq_mod unat_mod)
  have hi: "unat (drop_bit 16 s) = unat s div 65536" by (simp add: drop_bit_eq_div unat_div)
  have "unat s div 65536 * 65536 + unat s mod 65536 = unat s" by (rule div_mult_mod_eq)
  then have "unat s mod 65536 + unat s div 65536 \<le> unat s" by linarith
  then have "unat s mod 65536 + unat s div 65536 < 2 ^ 32" using unat_less_pow [of s] by simp
  then show ?thesis by (simp add: unat_word_ariths lo hi)
qed

lemma carry_mod: "(n mod 65536 + n div 65536) mod 65535 = n mod 65535" for n :: nat
proof -
  have "n = 65535 * (n div 65536) + (n mod 65536 + n div 65536)"
    using div_mult_mod_eq [of n 65536] by linarith
  then have "n mod 65535 = (65535 * (n div 65536) + (n mod 65536 + n div 65536)) mod 65535" by simp
  also have "\<dots> = (n mod 65536 + n div 65536) mod 65535" by (rule mod_mult_self4)
  finally show ?thesis by simp
qed

lemma fold_carry_props:
  "unat (fold_carry s) mod 65535 = unat s mod 65535 \<and> unat (fold_carry s) < 65536 \<and>
   (fold_carry s = 0 \<longleftrightarrow> s = 0)"
proof (induction s rule: fold_carry.induct)
  case (1 s)
  have hi: "drop_bit 16 s = 0 \<longleftrightarrow> unat s div 65536 = 0"
    by (simp add: drop_bit_eq_div unat_div word_unat_eq_iff)
  show ?case
  proof (cases "drop_bit 16 s = 0")
    case True
    then have eq: "fold_carry s = s" by (simp add: fold_carry.simps [of s])
    have "unat s < 65536" using True hi by simp
    then show ?thesis by (simp add: eq)
  next
    case False
    let ?t = "(s AND 65535) + drop_bit 16 s"
    have eq: "fold_carry s = fold_carry ?t" using False by (subst fold_carry.simps) simp
    have m: "unat ?t mod 65535 = unat s mod 65535" by (simp only: carry_step carry_mod)
    have "unat ?t \<noteq> 0" using False hi by (simp only: carry_step)
    then have "?t \<noteq> 0" by (metis unsigned_0)
    moreover have "s \<noteq> 0" using False by auto
    ultimately show ?thesis using 1 [OF False] by (simp only: eq m)
  qed
qed

lemma unat_not_u16: "unat (NOT w) = 65535 - unat w" for w :: u16
proof -
  have "NOT w = - 1 - w" by (simp add: not_eq_complement)
  then show ?thesis by (simp add: unat_sub unsigned_minus_1_eq_mask mask_eq_exp_minus_1)
qed

lemma unat_ones_complement:
  assumes "unat init + word_sum xs < 2 ^ 32"
  obtains t where "unat (ones_complement xs init) = 65535 - t" and "t < 65536"
    and "t mod 65535 = (unat init + word_sum xs) mod 65535"
    and "t = 0 \<longleftrightarrow> unat init + word_sum xs = 0"
proof -
  let ?s = "sum_words init xs" and ?f = "fold_carry (sum_words init xs)"
  have s: "unat ?s = unat init + word_sum xs" by (rule unat_sum_words [OF assms])
  have f: "unat ?f mod 65535 = unat ?s mod 65535" "unat ?f < 65536" "?f = 0 \<longleftrightarrow> ?s = 0"
    using fold_carry_props [of ?s] by auto
  have "unat (ucast ?f :: u16) = unat ?f" using f(2) by (simp add: unsigned_ucast_eq take_bit_eq_mod)
  then have "unat (ones_complement xs init) = 65535 - unat ?f"
    by (simp add: ones_complement_def unat_not_u16)
  moreover have "unat ?f = 0 \<longleftrightarrow> unat ?s = 0" using f(3) by (simp add: word_unat_eq_iff)
  ultimately show ?thesis using f(1,2) s by (intro that [of "unat ?f"]) simp_all
qed

lemma ones_complement_zero_iff:
  assumes "unat init + word_sum xs < 2 ^ 32"
  shows "ones_complement xs init = 0 \<longleftrightarrow>
    (unat init + word_sum xs) mod 65535 = 0 \<and> unat init + word_sum xs \<noteq> 0"
proof -
  obtain t where t: "unat (ones_complement xs init) = 65535 - t" "t < 65536"
    "t mod 65535 = (unat init + word_sum xs) mod 65535" "t = 0 \<longleftrightarrow> unat init + word_sum xs = 0"
    by (rule unat_ones_complement [OF assms])
  have "ones_complement xs init = 0 \<longleftrightarrow> t = 65535"
    using t(1,2) by (auto simp: word_unat_eq_iff)
  moreover have "t = 65535 \<longleftrightarrow> t mod 65535 = 0 \<and> t \<noteq> 0"
  proof
    assume "t mod 65535 = 0 \<and> t \<noteq> 0"
    then have "65535 dvd t" "0 < t" by auto
    then have "65535 \<le> t" by (rule dvd_imp_le)
    with t(2) \<open>t mod 65535 = 0 \<and> t \<noteq> 0\<close> show "t = 65535" by linarith
  qed simp
  ultimately show ?thesis using t(3,4) by simp
qed

text \<open>
  Writing the checksum (or \<open>0xffff\<close> for a computed zero) into the zeroed field makes the sum
  verify.
\<close>

lemma checksum_verifies:
  assumes "unat init + word_sum xs + 65535 < 2 ^ 32"
    and "c = ones_complement xs init \<or> (ones_complement xs init = 0 \<and> c = 65535)"
    and "word_sum ys = word_sum xs + unat c"
  shows "ones_complement ys init = 0"
proof -
  let ?T = "unat init + word_sum xs"
  have lt: "?T < 2 ^ 32" using assms(1) by simp
  obtain t where t: "unat (ones_complement xs init) = 65535 - t" "t < 65536"
    "t mod 65535 = ?T mod 65535" "t = 0 \<longleftrightarrow> ?T = 0"
    by (rule unat_ones_complement [OF lt])
  have "unat c < 65536" using unat_less_pow [of c] by simp
  then have lt': "unat init + word_sum ys < 2 ^ 32" using assms(1,3) by simp
  have "(?T + unat c) mod 65535 = 0 \<and> ?T + unat c \<noteq> 0"
    using assms(2)
  proof
    assume "c = ones_complement xs init"
    then have c: "unat c = 65535 - t" using t(1) by simp
    have "(?T + unat c) mod 65535 = (t + unat c) mod 65535" by (metis mod_add_left_eq t(3))
    also have "t + unat c = 65535" using t(2) c by simp
    finally have "(?T + unat c) mod 65535 = 0" by simp
    moreover have "?T + unat c \<noteq> 0" using t(4) c by auto
    ultimately show ?thesis ..
  next
    assume a: "ones_complement xs init = 0 \<and> c = 65535"
    then have "?T mod 65535 = 0" using ones_complement_zero_iff [OF lt] by simp
    moreover have "unat c = 65535" using a by simp
    ultimately show ?thesis by (metis add_is_0 mod_add_self2 zero_neq_numeral)
  qed
  then show ?thesis
    using ones_complement_zero_iff [OF lt'] assms(3) by (simp add: add.assoc)
qed

section \<open>Checksum fields in a packet\<close>

lemma upd2_copy_at: "i + 1 < length xs \<Longrightarrow> xs[i := a, i + 1 := b] = copy_at i [a, b] xs"
  by (rule nth_equalityI) (auto simp: nth_copy_at nth_list_update nth_Cons')

lemma copy_at_again:
  "length bs = length cs \<Longrightarrow> i + length bs \<le> length xs \<Longrightarrow> copy_at i bs (copy_at i cs xs) = copy_at i bs xs"
  by (rule nth_equalityI) (auto simp: nth_copy_at)

lemma copy_at_commute:
  assumes "i + length bs \<le> j" and "j + length cs \<le> length xs"
  shows "copy_at i bs (copy_at j cs xs) = copy_at j cs (copy_at i bs xs)"
  using assms by (intro nth_equalityI) (auto simp: nth_copy_at)

definition slice :: "nat \<Rightarrow> nat \<Rightarrow> 'a list \<Rightarrow> 'a list" where
  "slice a e xs = take (e - a) (drop a xs)"

lemma length_slice [simp]: "length (slice a e xs) = min (length xs - a) (e - a)"
  by (simp add: slice_def min.commute)

lemma nth_slice: "i < e - a \<Longrightarrow> a + i < length xs \<Longrightarrow> slice a e xs ! i = xs ! (a + i)"
  by (simp add: slice_def)

lemma slice_copy_at:
  assumes "a \<le> i" and "i + length bs \<le> e" and "e \<le> length xs"
  shows "slice a e (copy_at i bs xs) = copy_at (i - a) bs (slice a e xs)"
  using assms by (intro nth_equalityI) (auto simp: nth_copy_at nth_slice add.commute)

lemma slice_copy_at_out:
  assumes "i + length bs \<le> a \<or> e \<le> i" and "i + length bs \<le> length xs"
  shows "slice a e (copy_at i bs xs) = slice a e xs"
  using assms by (intro nth_equalityI) (auto simp: nth_copy_at nth_slice)

lemma word_sum_field:
  assumes "even i" and "i + 2 \<le> length xs"
  shows "word_sum (copy_at i (to_be 2 c) xs) = word_sum (copy_at i [0, 0] xs) + unat (c :: u16)"
proof -
  obtain h l where hl: "to_be 2 c = [h, l]"
    using length_to_be [of 2 c] by (auto simp: numeral_2_eq_2 length_Suc_conv simp del: length_to_be)
  have "unat c = unat h * 256 + unat l"
    using of_be_to_be [of 2 c] unat_be16 [of h l] by (simp add: hl)
  moreover have "word_sum (copy_at i [x, y] xs) =
      word_sum (take i xs) + (unat x * 256 + unat y + word_sum (drop (i + 2) xs))" for x y
    using assms word_sum_append [of "take i xs"] by (simp add: copy_at_def min_def)
  ultimately show ?thesis by (simp add: hl)
qed

definition field_csum :: "nat \<Rightarrow> nat \<Rightarrow> nat \<Rightarrow> u32 \<Rightarrow> bool \<Rightarrow> bytes \<Rightarrow> u16" where
  "field_csum a e off init z pkt =
     (let c = ones_complement (slice a e (copy_at (a + off) [0, 0] pkt)) init
      in if z \<and> c = 0 then 65535 else c)"

definition finish_field :: "nat \<Rightarrow> nat \<Rightarrow> nat \<Rightarrow> u32 \<Rightarrow> bool \<Rightarrow> bytes \<Rightarrow> bytes" where
  "finish_field a e off init z pkt = copy_at (a + off) (to_be 2 (field_csum a e off init z pkt)) pkt"

text \<open>The contract of a finalised field: its range sums to zero, and finalising again changes nothing.\<close>

lemma finish_field_verifies:
  assumes "a + off + 2 \<le> e" and "e \<le> length pkt" and "even off"
    and "unat init + 65535 * ((e - a + 1) div 2) + 65535 < 2 ^ 32"
  shows "ones_complement (slice a e (finish_field a e off init z pkt)) init = 0"
proof (rule checksum_verifies)
  let ?Z = "slice a e (copy_at (a + off) [0, 0] pkt)"
  let ?c = "field_csum a e off init z pkt"
  have Z: "?Z = copy_at off [0, 0] (slice a e pkt)" using assms(1,2) by (simp add: slice_copy_at)
  have R: "slice a e (finish_field a e off init z pkt) = copy_at off (to_be 2 ?c) (slice a e pkt)"
    using assms(1,2) by (simp add: finish_field_def slice_copy_at)
  show "word_sum (slice a e (finish_field a e off init z pkt)) = word_sum ?Z + unat ?c"
    unfolding Z R using assms(1-3) by (intro word_sum_field) auto
  show "?c = ones_complement ?Z init \<or> (ones_complement ?Z init = 0 \<and> ?c = 65535)"
    by (simp add: field_csum_def Let_def)
  have "length ?Z = e - a" using assms(1,2) by simp
  then have "word_sum ?Z \<le> 65535 * ((e - a + 1) div 2)" using word_sum_bound [of ?Z] by simp
  then show "unat init + word_sum ?Z + 65535 < 2 ^ 32" using assms(4) by linarith
qed

lemma finish_field_again:
  assumes "a + off + 2 \<le> length pkt"
  shows "finish_field a e off init z (finish_field a e off init z pkt) = finish_field a e off init z pkt"
  using assms by (simp add: finish_field_def field_csum_def copy_at_again)

lemma length_finish_field [simp]:
  "a + off + 2 \<le> length pkt \<Longrightarrow> length (finish_field a e off init z pkt) = length pkt"
  by (simp add: finish_field_def)

lemma finish_field_nth:
  "a + off + 2 \<le> length pkt \<Longrightarrow> j < length pkt \<Longrightarrow> j \<noteq> a + off \<Longrightarrow> j \<noteq> a + off + 1 \<Longrightarrow>
     finish_field a e off init z pkt ! j = pkt ! j"
  by (auto simp: finish_field_def nth_copy_at)

section \<open>The finalisers as field finalisations\<close>

definition csum_offset :: "byte \<Rightarrow> nat option" where
  "csum_offset proto = (if proto = 6 then Some 16 else if proto = 17 then Some 6 else None)"

text \<open>The transport checksum an IPv4 (IPv6) packet has: the field's offset and the segment's end.\<close>

definition v4_segment :: "nat \<Rightarrow> bytes \<Rightarrow> (nat \<times> nat) option" where
  "v4_segment ihl pkt =
     (let fin = min (unat (of_be [pkt ! 2, pkt ! 3] :: u16)) (length pkt) in
      case csum_offset (pkt ! 9) of
        Some off \<Rightarrow> if ihl + off + 2 \<le> fin then Some (off, fin) else None
      | None \<Rightarrow> None)"

definition v4_pseudo :: "nat \<Rightarrow> nat \<Rightarrow> bytes \<Rightarrow> u32" where
  "v4_pseudo ihl fin pkt = sum_words 0 (slice 12 20 pkt) + ucast (pkt ! 9) + word_of_nat (fin - ihl)"

lemma fix_ipv4_l4_eq:
  assumes "20 \<le> ihl"
  shows "fix_ipv4_l4 ihl pkt = (case v4_segment ihl pkt of None \<Rightarrow> pkt
    | Some (off, fin) \<Rightarrow> finish_field ihl fin off (v4_pseudo ihl fin pkt) (pkt ! 9 = 17) pkt)"
proof -
  define fin where "fin = min (unat (of_be [pkt ! 2, pkt ! 3] :: u16)) (length pkt)"
  show ?thesis
  proof (cases "csum_offset (pkt ! 9)")
    case None
    then show ?thesis by (auto simp: fix_ipv4_l4_def v4_segment_def csum_offset_def Let_def split: if_splits)
  next
    case (Some off)
    show ?thesis
    proof (cases "ihl + off + 2 \<le> fin")
      case True
      have "fin \<le> length pkt" by (simp add: fin_def)
      with True have upd: "pkt[ihl + off := 0, ihl + off + 1 := 0] = copy_at (ihl + off) [0, 0] pkt"
        by (intro upd2_copy_at) simp
      have pseudo: "slice 12 20 (copy_at (ihl + off) [0, 0] pkt) = slice 12 20 pkt"
        using assms True \<open>fin \<le> length pkt\<close> by (intro slice_copy_at_out) auto
      have seg: "v4_segment ihl pkt = Some (off, fin)"
        using Some True by (simp add: v4_segment_def fin_def)
      have "fix_ipv4_l4 ihl pkt =
          (let pkt' = copy_at (ihl + off) [0, 0] pkt;
               csum = ones_complement (slice ihl fin pkt')
                 (sum_words 0 (slice 12 20 pkt') + ucast (pkt ! 9) + word_of_nat (fin - ihl));
               csum = (if pkt ! 9 = 17 \<and> csum = 0 then 65535 else csum)
           in copy_at (ihl + off) (to_be 2 csum) pkt')"
      proof -
        have g: "(fin \<le> ihl) = False" "(fin - ihl < off + 2) = False" using True by auto
        have e: "slice 12 20 p = take 8 (drop 12 p)" for p :: bytes by (simp add: slice_def)
        show ?thesis
          unfolding fix_ipv4_l4_def Let_def fin_def [symmetric] e slice_def [of ihl fin]
          by (simp only: g Some [unfolded csum_offset_def] option.case if_False upd)
      qed
      moreover have "copy_at (ihl + off) (to_be 2 c) (copy_at (ihl + off) [0, 0] pkt) =
          copy_at (ihl + off) (to_be 2 c) pkt" for c :: u16
        using True \<open>fin \<le> length pkt\<close> by (intro copy_at_again) auto
      ultimately show ?thesis
        unfolding seg finish_field_def field_csum_def Let_def v4_pseudo_def pseudo
        by (simp only: option.case prod.case)
    next
      case False
      then have g: "fin \<le> ihl \<or> fin - ihl < off + 2" by auto
      then have "fix_ipv4_l4 ihl pkt = pkt"
        unfolding fix_ipv4_l4_def Let_def fin_def [symmetric] Some [unfolded csum_offset_def]
        by (simp only: option.case) (elim disjE; simp only: if_True if_cancel)
      with False Some show ?thesis by (simp add: v4_segment_def fin_def [symmetric])
    qed
  qed
qed

definition v6_segment :: "bytes \<Rightarrow> (nat \<times> nat) option" where
  "v6_segment pkt =
     (let fin = min (40 + unat (of_be [pkt ! 4, pkt ! 5] :: u16)) (length pkt) in
      case (if pkt ! 6 = 58 then Some 2 else csum_offset (pkt ! 6)) of
        Some off \<Rightarrow> if 40 + off + 2 \<le> fin then Some (off, fin) else None
      | None \<Rightarrow> None)"

definition v6_pseudo :: "nat \<Rightarrow> bytes \<Rightarrow> u32" where
  "v6_pseudo fin pkt = sum_words 0 (slice 8 40 pkt) + drop_bit 16 (word_of_nat (fin - 40))
     + (word_of_nat (fin - 40) AND 65535) + ucast (pkt ! 6)"

lemma fix_ipv6_checksums_eq:
  "fix_ipv6_checksums pkt =
     (if length pkt < 40 \<or> drop_bit 4 (pkt ! 0) \<noteq> 6 then pkt
      else case v6_segment pkt of None \<Rightarrow> pkt
      | Some (off, fin) \<Rightarrow>
          finish_field 40 fin off (v6_pseudo fin pkt) (pkt ! 6 = 17 \<or> pkt ! 6 = 58) pkt)"
proof (cases "length pkt < 40 \<or> drop_bit 4 (pkt ! 0) \<noteq> 6")
  case False
  define fin where "fin = min (40 + unat (of_be [pkt ! 4, pkt ! 5] :: u16)) (length pkt)"
  define offs where "offs = (if pkt ! 6 = 58 then Some 2 else csum_offset (pkt ! 6))"
  have o: "(if pkt ! 6 = 6 then Some 16 else if pkt ! 6 = 17 then Some 6
      else if pkt ! 6 = 58 then Some 2 else None) = offs"
    by (auto simp: offs_def csum_offset_def)
  show ?thesis
  proof (cases "\<exists>off. offs = Some off \<and> 40 + off + 2 \<le> fin")
    case True
    then obtain off where off: "offs = Some off" "40 + off + 2 \<le> fin" by blast
    have len: "fin \<le> length pkt" by (simp add: fin_def)
    with off have upd: "pkt[40 + off := 0, 40 + off + 1 := 0] = copy_at (40 + off) [0, 0] pkt"
      by (intro upd2_copy_at) simp
    have pseudo: "slice 8 40 (copy_at (40 + off) [0, 0] pkt) = slice 8 40 pkt"
      using off len by (intro slice_copy_at_out) auto
    have seg: "v6_segment pkt = Some (off, fin)"
      unfolding v6_segment_def Let_def fin_def [symmetric] offs_def [symmetric] using off by simp
    have g: "(fin \<le> 40) = False" "(fin - 40 < off + 2) = False" using off by auto
    have e: "take 32 (drop 8 p) = slice 8 40 p" for p :: bytes by (simp add: slice_def)
    have "copy_at (40 + off) (to_be 2 c) (copy_at (40 + off) [0, 0] pkt) =
        copy_at (40 + off) (to_be 2 c) pkt" for c :: u16
      using off len by (intro copy_at_again) auto
    then show ?thesis
      unfolding seg finish_field_def field_csum_def v6_pseudo_def fix_ipv6_checksums_def Let_def
        fin_def [symmetric] o e slice_def [of 40 fin, symmetric]
      by (simp only: off(1) g option.case prod.case if_False upd False pseudo)
  next
    case none: False
    then have "v6_segment pkt = None"
      unfolding v6_segment_def Let_def fin_def [symmetric] offs_def [symmetric]
      by (cases offs) auto
    moreover have "fix_ipv6_checksums pkt = pkt"
    proof (cases offs)
      case (Some off)
      with none have "fin \<le> 40 \<or> fin - 40 < off + 2" by auto
      then show ?thesis
        unfolding fix_ipv6_checksums_def Let_def fin_def [symmetric] o Some
        by (simp only: option.case) (elim disjE; simp only: if_True if_cancel)
    qed (simp add: fix_ipv6_checksums_def Let_def o)
    ultimately show ?thesis by simp
  qed
qed (simp add: fix_ipv6_checksums_def)

lemma fix_ipv4_checksums_eq:
  assumes "20 \<le> length pkt" and "drop_bit 4 (pkt ! 0) = 4"
    and "ihl = unat (pkt ! 0 AND 15) * 4" and "20 \<le> ihl" and "ihl \<le> length pkt"
  shows "fix_ipv4_checksums pkt =
    (let p = finish_field 0 ihl 10 0 False pkt in
     case v4_segment ihl p of None \<Rightarrow> p
     | Some (off, fin) \<Rightarrow> finish_field ihl fin off (v4_pseudo ihl fin p) (p ! 9 = 17) p)"
proof -
  have upd: "pkt[10 := 0, 11 := 0] = copy_at 10 [0, 0] pkt"
    using upd2_copy_at [of 10 pkt 0 0] assms(1) by simp
  have "copy_at 10 (to_be 2 c) (copy_at 10 [0, 0] pkt) = copy_at 10 (to_be 2 c) pkt" for c :: u16
    using assms(1) by (intro copy_at_again) auto
  then have "fix_ipv4_checksums pkt = fix_ipv4_l4 ihl (finish_field 0 ihl 10 0 False pkt)"
    using assms
    by (simp add: fix_ipv4_checksums_def Let_def upd finish_field_def field_csum_def slice_def)
  then show ?thesis by (simp add: fix_ipv4_l4_eq [OF assms(4)] Let_def)
qed

section \<open>The accumulator never overflows\<close>

lemma unat_plus_le: "unat (a + b) \<le> unat a + unat b" for a b :: "'a::len word"
  by (simp add: unat_word_ariths)

lemma sum_words_slice_bound:
  "e - a \<le> 64 \<Longrightarrow> unat (sum_words 0 (slice a e pkt)) \<le> 65535 * 32"
proof -
  assume "e - a \<le> 64"
  then have "(length (slice a e pkt) + 1) div 2 \<le> 32" by simp
  then have b: "word_sum (slice a e pkt) \<le> 65535 * 32" using word_sum_bound [of "slice a e pkt"] by linarith
  then have "unat (sum_words 0 (slice a e pkt)) = unat (0 :: u32) + word_sum (slice a e pkt)"
    by (intro unat_sum_words) simp
  with b show ?thesis by simp
qed

lemma ucast_byte_bound: "unat (ucast (b :: byte) :: u32) \<le> 255"
  using unat_byte_lt [of b]
  by (simp add: unsigned_ucast_eq take_bit_eq_mod del: unat_byte_lt)

lemma v4_pseudo_bound: "fin - ihl \<le> 65535 \<Longrightarrow> unat (v4_pseudo ihl fin pkt) \<le> 65535 * 32 + 255 + 65535"
proof -
  assume l: "fin - ihl \<le> 65535"
  let ?s = "sum_words 0 (slice 12 20 pkt)" and ?p = "ucast (pkt ! 9) :: u32"
  have "unat (word_of_nat (fin - ihl) :: u32) \<le> 65535" using l by (simp add: unat_of_nat)
  then show ?thesis
    unfolding v4_pseudo_def
    using unat_plus_le [of "?s + ?p" "word_of_nat (fin - ihl)"] unat_plus_le [of ?s ?p]
      sum_words_slice_bound [of 20 12 pkt] ucast_byte_bound [of "pkt ! 9"]
    by linarith
qed

lemma v6_pseudo_bound: "fin - 40 \<le> 65535 \<Longrightarrow> unat (v6_pseudo fin pkt) \<le> 65535 * 32 + 255 + 65535 + 65535"
proof -
  assume l: "fin - 40 \<le> 65535"
  let ?s = "sum_words 0 (slice 8 40 pkt)" and ?p = "ucast (pkt ! 6) :: u32"
  let ?w = "word_of_nat (fin - 40) :: u32"
  have w: "unat ?w \<le> 65535" using l by (simp add: unat_of_nat)
  have "unat (drop_bit 16 ?w) \<le> unat ?w" by (simp add: drop_bit_eq_div unat_div)
  moreover have "?w AND 65535 = take_bit 16 ?w" by (simp add: take_bit_eq_mask mask_eq_exp_minus_1)
  then have "unat (?w AND 65535) \<le> unat ?w" by (simp add: take_bit_eq_mod unat_mod)
  ultimately show ?thesis
    unfolding v6_pseudo_def
    using w unat_plus_le [of "?s + drop_bit 16 ?w + (?w AND 65535)" ?p]
      unat_plus_le [of "?s + drop_bit 16 ?w" "?w AND 65535"] unat_plus_le [of ?s "drop_bit 16 ?w"]
      sum_words_slice_bound [of 40 8 pkt] ucast_byte_bound [of "pkt ! 6"]
    by linarith
qed

lemma v4_segment_Some:
  "v4_segment ihl pkt = Some (off, fin) \<Longrightarrow>
     ihl + off + 2 \<le> fin \<and> fin \<le> length pkt \<and> fin \<le> 65535 \<and> even off"
  using unat_less_pow [of "of_be [pkt ! 2, pkt ! 3] :: u16"]
  by (auto simp: v4_segment_def csum_offset_def Let_def split: if_splits option.splits)

lemma v6_segment_Some:
  "v6_segment pkt = Some (off, fin) \<Longrightarrow>
     40 + off + 2 \<le> fin \<and> fin \<le> length pkt \<and> fin - 40 \<le> 65535 \<and> even off"
  using unat_less_pow [of "of_be [pkt ! 4, pkt ! 5] :: u16"]
  by (auto simp: v6_segment_def csum_offset_def Let_def split: if_splits option.splits)

lemma segment_div: "n \<le> 65535 \<Longrightarrow> (n + 1) div 2 \<le> (32768 :: nat)"
  by simp

lemma nibble_le: "unat (b AND 15) \<le> 15" for b :: byte
proof -
  have "b AND 15 = take_bit 4 b" by (simp add: take_bit_eq_mask mask_eq_exp_minus_1)
  then show ?thesis by (simp add: take_bit_eq_mod unat_mod)
qed

section \<open>Properties\<close>

text \<open>A packet the IPv4 finaliser rewrites: long enough, version 4, a header of \<open>ihl\<close> bytes.\<close>

definition v4_packet :: "nat \<Rightarrow> bytes \<Rightarrow> bool" where
  "v4_packet ihl pkt \<longleftrightarrow> drop_bit 4 (pkt ! 0) = 4 \<and> ihl = unat (pkt ! 0 AND 15) * 4 \<and>
     20 \<le> ihl \<and> ihl \<le> length pkt"

lemma v4_segment_cong:
  "length p = length q \<Longrightarrow> p ! 2 = q ! 2 \<Longrightarrow> p ! 3 = q ! 3 \<Longrightarrow> p ! 9 = q ! 9 \<Longrightarrow>
     v4_segment ihl p = v4_segment ihl q"
  by (simp add: v4_segment_def)

lemma v4_stage:
  assumes "v4_packet ihl pkt"
  defines "p \<equiv> finish_field 0 ihl 10 0 False pkt"
  shows "v4_packet ihl p" and "length p = length pkt" and "v4_segment ihl p = v4_segment ihl pkt"
    and "v4_pseudo ihl fin p = v4_pseudo ihl fin pkt" and "p ! 9 = pkt ! 9"
    and "ones_complement (slice 0 ihl p) 0 = 0"
proof -
  have len: "20 \<le> length pkt" "ihl \<le> length pkt" "20 \<le> ihl" "ihl \<le> 60"
    using assms(1) by (auto simp: v4_packet_def nibble_le)
  then have nth: "p ! j = pkt ! j" if "j < length pkt" "j \<noteq> 10" "j \<noteq> 11" for j
    unfolding p_def using that by (intro finish_field_nth) auto
  show l: "length p = length pkt" unfolding p_def using len by simp
  have "p ! 0 = pkt ! 0" by (rule nth) (use len in auto)
  with assms(1) l show "v4_packet ihl p" by (simp add: v4_packet_def)
  show "v4_segment ihl p = v4_segment ihl pkt" using nth len l by (intro v4_segment_cong) auto
  show nine: "p ! 9 = pkt ! 9" using nth len by auto
  have "slice 12 20 p = slice 12 20 pkt"
    unfolding p_def finish_field_def using len by (intro slice_copy_at_out) auto
  then show "v4_pseudo ihl fin p = v4_pseudo ihl fin pkt" by (simp add: v4_pseudo_def nine)
  show "ones_complement (slice 0 ihl p) 0 = 0"
    unfolding p_def using len by (intro finish_field_verifies) auto
qed

lemma v4_fix:
  assumes "v4_packet ihl pkt"
  shows "fix_ipv4_checksums pkt = (case v4_segment ihl pkt of
      None \<Rightarrow> finish_field 0 ihl 10 0 False pkt
    | Some (off, fin) \<Rightarrow> finish_field ihl fin off (v4_pseudo ihl fin pkt) (pkt ! 9 = 17)
        (finish_field 0 ihl 10 0 False pkt))"
proof -
  have "20 \<le> length pkt" "drop_bit 4 (pkt ! 0) = 4" "ihl = unat (pkt ! 0 AND 15) * 4" "20 \<le> ihl"
    "ihl \<le> length pkt"
    using assms by (auto simp: v4_packet_def)
  from fix_ipv4_checksums_eq [OF this] show ?thesis
    by (simp add: v4_stage [OF assms] Let_def split: option.split)
qed

text \<open>The header field and the transport field of one packet do not interfere.\<close>

lemma v4_fields_independent:
  assumes "v4_packet ihl pkt" and "v4_segment ihl pkt = Some (off, fin)"
  defines "init \<equiv> v4_pseudo ihl fin pkt" and "z \<equiv> pkt ! 9 = 17"
  defines "p' \<equiv> finish_field ihl fin off init z (finish_field 0 ihl 10 0 False pkt)"
  shows "length p' = length pkt" and "v4_packet ihl p'" and "v4_segment ihl p' = Some (off, fin)"
    and "v4_pseudo ihl fin p' = init" and "p' ! 9 = pkt ! 9"
    and "ones_complement (slice 0 ihl p') 0 = 0" and "ones_complement (slice ihl fin p') init = 0"
    and "finish_field 0 ihl 10 0 False p' = p'"
    and "\<And>j. j < length pkt \<Longrightarrow> j \<notin> {10, 11, ihl + off, ihl + off + 1} \<Longrightarrow> p' ! j = pkt ! j"
proof -
  let ?p = "finish_field 0 ihl 10 0 False pkt"
  note st = v4_stage [OF assms(1)]
  note seg = v4_segment_Some [OF assms(2)]
  have ihl: "20 \<le> ihl" "ihl \<le> length pkt" using assms(1) by (auto simp: v4_packet_def)
  have nth: "p' ! j = ?p ! j" if "j < length pkt" "j \<noteq> ihl + off" "j \<noteq> ihl + off + 1" for j
    unfolding p'_def using that seg st(2) by (intro finish_field_nth) auto
  show len: "length p' = length pkt" unfolding p'_def using seg st(2) by simp
  have "p' ! 0 = ?p ! 0" by (rule nth) (use ihl in auto)
  with st(1,2) len show "v4_packet ihl p'" by (simp add: v4_packet_def)
  have "v4_segment ihl p' = v4_segment ihl ?p" using nth ihl len st(2) by (intro v4_segment_cong) auto
  then show "v4_segment ihl p' = Some (off, fin)" using st(3) assms(2) by simp
  show nine: "p' ! 9 = pkt ! 9" using nth [of 9] st(5) ihl by simp
  have sl: "slice a e p' = slice a e ?p" if "e \<le> ihl" for a e
    unfolding p'_def finish_field_def [of ihl] using that seg st(2) by (intro slice_copy_at_out) auto
  then show "v4_pseudo ihl fin p' = init"
    using st(4,5) nine ihl by (simp add: v4_pseudo_def init_def)
  show hdr: "ones_complement (slice 0 ihl p') 0 = 0" using sl st(6) by simp
  show "ones_complement (slice ihl fin p') init = 0"
    unfolding p'_def
  proof (rule finish_field_verifies)
    have "unat init \<le> 65535 * 32 + 255 + 65535"
      unfolding init_def using seg by (intro v4_pseudo_bound) auto
    moreover have "(fin - ihl + 1) div 2 \<le> 32768" using seg by (intro segment_div) auto
    ultimately show "unat init + 65535 * ((fin - ihl + 1) div 2) + 65535 < 2 ^ 32" by simp
  qed (use seg st(2) in auto)
  have "field_csum 0 ihl 10 0 False p' = field_csum 0 ihl 10 0 False pkt"
  proof -
    have "slice 0 ihl (copy_at (0 + 10) [0, 0] p') = copy_at 10 [0, 0] (slice 0 ihl p')"
      using ihl len by (subst slice_copy_at) auto
    also have "\<dots> = copy_at 10 [0, 0] (slice 0 ihl ?p)" using sl by simp
    also have "\<dots> = slice 0 ihl (copy_at (0 + 10) [0, 0] ?p)"
      using ihl st(2) by (subst slice_copy_at) auto
    also have "copy_at (0 + 10) [0, 0] ?p = copy_at (0 + 10) [0, 0] pkt"
      unfolding finish_field_def using ihl by (intro copy_at_again) auto
    finally show ?thesis by (simp add: field_csum_def)
  qed
  then show "finish_field 0 ihl 10 0 False p' = p'"
    unfolding finish_field_def [of 0] p'_def finish_field_def [of ihl] finish_field_def [of 0 ihl]
    using seg ihl st(2) by (subst copy_at_commute) (auto simp: copy_at_again finish_field_def)
  show "\<And>j. j < length pkt \<Longrightarrow> j \<notin> {10, 11, ihl + off, ihl + off + 1} \<Longrightarrow> p' ! j = pkt ! j"
    using nth finish_field_nth [of 0 10 pkt] ihl by auto
qed

text \<open>
  C25: finalising an IPv4 packet makes its header checksum verify and, when it carries a TCP or UDP
  segment long enough to hold its checksum field, makes that checksum verify over the pseudo-header
  too; only the checksum fields change, the length does not, and finalising again is the identity.
\<close>

theorem fix_ipv4_checksums_correct:
  assumes "v4_packet ihl pkt"
  defines "p' \<equiv> fix_ipv4_checksums pkt"
  shows "ones_complement (slice 0 ihl p') 0 = 0 \<and>
    (\<forall>off fin. v4_segment ihl pkt = Some (off, fin) \<longrightarrow>
       ones_complement (slice ihl fin p') (v4_pseudo ihl fin p') = 0) \<and>
    length p' = length pkt \<and>
    (\<forall>j < length pkt. p' ! j \<noteq> pkt ! j \<longrightarrow> j \<in> {10, 11} \<or>
       (\<exists>off fin. v4_segment ihl pkt = Some (off, fin) \<and> j \<in> {ihl + off, ihl + off + 1})) \<and>
    fix_ipv4_checksums p' = p'"
proof (cases "v4_segment ihl pkt")
  case None
  note st = v4_stage [OF assms(1)]
  have p': "p' = finish_field 0 ihl 10 0 False pkt" using None by (simp add: p'_def v4_fix [OF assms(1)])
  have len: "12 \<le> length pkt" using assms(1) by (auto simp: v4_packet_def)
  have "fix_ipv4_checksums p' = p'"
    unfolding p' using v4_fix [OF st(1)] None st(3) len by (simp add: finish_field_again)
  moreover have "p' ! j = pkt ! j" if "j < length pkt" "j \<notin> {10, 11}" for j
    unfolding p' using that len by (intro finish_field_nth) auto
  ultimately show ?thesis using None st p' by auto
next
  case (Some x)
  then obtain off fin where seg: "v4_segment ihl pkt = Some (off, fin)" by (cases x) auto
  note ind = v4_fields_independent [OF assms(1) seg]
  have p': "p' = finish_field ihl fin off (v4_pseudo ihl fin pkt) (pkt ! 9 = 17)
      (finish_field 0 ihl 10 0 False pkt)"
    using seg by (simp add: p'_def v4_fix [OF assms(1)])
  note ind = ind [folded p']
  have "fix_ipv4_checksums p' = finish_field ihl fin off (v4_pseudo ihl fin pkt) (pkt ! 9 = 17) p'"
    using v4_fix [OF ind(2)] by (simp add: ind)
  also have "\<dots> = p'"
    unfolding p' using v4_segment_Some [OF seg] v4_stage(2) [OF assms(1)]
    by (intro finish_field_again) simp
  finally show ?thesis using ind seg by (auto simp: p'_def [symmetric])
qed

text \<open>
  The same for IPv6 packets with a TCP, UDP or ICMPv6 segment, whose checksum is in addition
  never transmitted as zero for UDP and ICMPv6; every other packet is left alone.
\<close>

theorem fix_ipv6_checksums_correct:
  assumes "40 \<le> length pkt" and "drop_bit 4 (pkt ! 0) = 6"
  defines "p' \<equiv> fix_ipv6_checksums pkt"
  shows "(v6_segment pkt = None \<longrightarrow> p' = pkt) \<and>
    (\<forall>off fin. v6_segment pkt = Some (off, fin) \<longrightarrow>
       ones_complement (slice 40 fin p') (v6_pseudo fin p') = 0 \<and>
       (pkt ! 6 \<noteq> 6 \<longrightarrow> slice (40 + off) (42 + off) p' \<noteq> [0, 0]) \<and>
       (\<forall>j < length pkt. j \<notin> {40 + off, 41 + off} \<longrightarrow> p' ! j = pkt ! j)) \<and>
    length p' = length pkt \<and> fix_ipv6_checksums p' = p'"
proof (cases "v6_segment pkt")
  case None
  then show ?thesis using assms by (simp add: fix_ipv6_checksums_eq)
next
  case (Some x)
  then obtain off fin where seg: "v6_segment pkt = Some (off, fin)" by (cases x) auto
  let ?z = "pkt ! 6 = 17 \<or> pkt ! 6 = 58" and ?init = "v6_pseudo fin pkt"
  note sg = v6_segment_Some [OF seg]
  have p': "p' = finish_field 40 fin off ?init ?z pkt"
    using assms seg by (simp add: fix_ipv6_checksums_eq)
  have nth: "p' ! j = pkt ! j" if "j < length pkt" "j \<noteq> 40 + off" "j \<noteq> 41 + off" for j
    unfolding p' using that sg by (intro finish_field_nth) auto
  have len: "length p' = length pkt" unfolding p' using sg by simp
  have sl: "slice 8 40 p' = slice 8 40 pkt"
    unfolding p' finish_field_def using sg by (intro slice_copy_at_out) auto
  have h: "p' ! 0 = pkt ! 0" "p' ! 4 = pkt ! 4" "p' ! 5 = pkt ! 5" "p' ! 6 = pkt ! 6"
  proof -
    have "0 < length pkt" "4 < length pkt" "5 < length pkt" "6 < length pkt" using assms(1) by linarith+
    then show "p' ! 0 = pkt ! 0" "p' ! 4 = pkt ! 4" "p' ! 5 = pkt ! 5" "p' ! 6 = pkt ! 6"
      by (simp_all add: nth)
  qed
  have pseudo: "v6_pseudo fin p' = ?init" by (simp add: v6_pseudo_def sl h)
  have seg': "v6_segment p' = Some (off, fin)" using seg unfolding v6_segment_def len h .
  have "fix_ipv6_checksums p' = finish_field 40 fin off ?init ?z p'"
    using assms(1,2) seg' by (simp add: fix_ipv6_checksums_eq len h pseudo)
  also have "\<dots> = p'" unfolding p' using sg by (intro finish_field_again) simp
  finally have again: "fix_ipv6_checksums p' = p'" .
  have ok: "ones_complement (slice 40 fin p') ?init = 0"
    unfolding p'
  proof (rule finish_field_verifies)
    have "unat ?init \<le> 65535 * 32 + 255 + 65535 + 65535" using sg by (intro v6_pseudo_bound) auto
    moreover have "(fin - 40 + 1) div 2 \<le> 32768" using sg by (intro segment_div) auto
    ultimately show "unat ?init + 65535 * ((fin - 40 + 1) div 2) + 65535 < 2 ^ 32" by simp
  qed (use sg in auto)
  have nonzero: "slice (40 + off) (42 + off) p' \<noteq> [0, 0]" if "pkt ! 6 \<noteq> 6"
  proof -
    have "?z" using that seg by (auto simp: v6_segment_def csum_offset_def Let_def split: if_splits option.splits)
    then have c: "field_csum 40 fin off ?init ?z pkt \<noteq> 0" by (simp add: field_csum_def Let_def)
    have "slice (40 + off) (42 + off) p' = to_be 2 (field_csum 40 fin off ?init ?z pkt)"
      unfolding p' finish_field_def using sg by (simp add: slice_def copy_at_def)
    moreover have "to_be 2 (0 :: u16) = [0, 0]" by (simp add: to_be_def be_of_nat_numeral)
    ultimately show ?thesis using c to_be_inject by metis
  qed
  show ?thesis using seg nth len again ok pseudo nonzero by auto
qed

definition demo_v4 :: bytes where
  "demo_v4 = [69, 0, 0, 28, 0, 0, 64, 0, 64, 17, 0, 0, 10, 0, 0, 1, 10, 0, 0, 2, 0, 53, 0, 53, 0, 8, 0, 0]"

lemma demo_v4_packet: "v4_packet 20 demo_v4"
  by (simp add: v4_packet_def demo_v4_def)

theorem fix_ipv4_checksums_correct_witness:
  "v4_segment 20 demo_v4 = Some (6, 28) \<and>
   ones_complement (slice 20 28 (fix_ipv4_checksums demo_v4)) (v4_pseudo 20 28 (fix_ipv4_checksums demo_v4)) = 0"
proof -
  have "v4_segment 20 demo_v4 = Some (6, 28)"
    by (simp add: v4_segment_def csum_offset_def demo_v4_def unat_be16)
  with fix_ipv4_checksums_correct [OF demo_v4_packet] show ?thesis by blast
qed

definition demo_v6 :: bytes where
  "demo_v6 = [96, 0, 0, 0, 0, 4, 58, 64] @ replicate 32 1 @ [128, 0, 9, 9]"

theorem fix_ipv6_checksums_correct_witness:
  "v6_segment demo_v6 = Some (2, 44) \<and>
   ones_complement (slice 40 44 (fix_ipv6_checksums demo_v6)) (v6_pseudo 44 (fix_ipv6_checksums demo_v6)) = 0"
proof -
  have len: "40 \<le> length demo_v6" by (simp add: demo_v6_def)
  have v: "drop_bit 4 (demo_v6 ! 0) = 6" by (simp add: demo_v6_def)
  have "v6_segment demo_v6 = Some (2, 44)"
    by (simp add: v6_segment_def demo_v6_def unat_be16)
  with fix_ipv6_checksums_correct [OF len v] show ?thesis by blast
qed

text \<open>
  The finaliser reads no fragment offset: of a later fragment of a UDP datagram it rewrites payload
  bytes, here two zero bytes of a fragment at offset 1480 with a correct header.
\<close>

definition demo_fragment :: bytes where
  "demo_fragment = [69, 0, 0, 28, 0, 0, 0, 185, 64, 17, 102, 22, 10, 0, 0, 1, 10, 0, 0, 2, 0, 0, 0, 0, 0, 0, 0, 0]"

lemma fix_ipv4_checksums_rewrites_fragment:
  "ones_complement (slice 0 20 demo_fragment) 0 = 0 \<and> fix_ipv4_checksums demo_fragment \<noteq> demo_fragment"
proof
  show "ones_complement (slice 0 20 demo_fragment) 0 = 0"
    by (subst ones_complement_zero_iff) (simp_all add: demo_fragment_def slice_def)
  have p: "v4_packet 20 demo_fragment" by (simp add: v4_packet_def demo_fragment_def)
  have "v4_segment 20 demo_fragment = Some (6, 28)"
    by (simp add: v4_segment_def csum_offset_def demo_fragment_def unat_be16)
  then have *: "ones_complement (slice 20 28 (fix_ipv4_checksums demo_fragment))
      (v4_pseudo 20 28 (fix_ipv4_checksums demo_fragment)) = 0"
    using v4_fields_independent(4,7) [OF p] v4_fix [OF p] by simp
  have s: "sum_words 0 (slice 12 20 demo_fragment) = 5123" by (simp add: demo_fragment_def slice_def of_be_def nat_of_be_def)
  have "v4_pseudo 20 28 demo_fragment = 5148" unfolding v4_pseudo_def s by (simp add: demo_fragment_def)
  then have "ones_complement (slice 20 28 demo_fragment) (v4_pseudo 20 28 demo_fragment) \<noteq> 0"
    by (subst ones_complement_zero_iff) (simp_all add: demo_fragment_def slice_def)
  with * show "fix_ipv4_checksums demo_fragment \<noteq> demo_fragment" by metis
qed

end
