(* ===== verification/Connectip.thy ===== *)
theory Connectip
  imports Nil_Prelude
begin

unbundle bit_operations_syntax

text \<open>
  \<open>nil-transport/src/connectip.rs\<close>: CONNECT-IP datagram framing over QUIC variable-length integers
  (RFC 9000, section 16). Client and node share it: context 0 carries an IP packet, context 1
  cover-traffic padding that must never reach the exit's TUN device.
\<close>

section \<open>Constants and errors\<close>

definition CONTEXT_ID_IP_PACKET :: u64 where "CONTEXT_ID_IP_PACKET = 0"
definition CONTEXT_ID_PADDING :: u64 where "CONTEXT_ID_PADDING = 1"
definition MAX_VARINT :: u64 where "MAX_VARINT = push_bit 62 1 - 1"
definition MAX_FRAMING_OVERHEAD :: nat where "MAX_FRAMING_OVERHEAD = 8 + 1"

datatype datagram_payload = Ip bytes | Padding

text \<open>The texts of \<open>Error::InvalidPacket\<close>.\<close>

datatype packet_error =
    BufferTooSmall nat nat | TruncatedContextId | TruncatedFlowId | UnsupportedContextId u64

section \<open>Variable-length integers\<close>

definition varint_len :: "u64 \<Rightarrow> nat" where
  "varint_len v = (if v \<le> 63 then 1 else if v \<le> 16383 then 2 else if v \<le> 1073741823 then 4 else 8)"

text \<open>\<open>write_varint\<close> fills a prefix of an 8-byte buffer and returns the number of bytes written.\<close>

definition write_varint :: "u64 \<Rightarrow> bytes \<Rightarrow> nat \<times> bytes" where
  "write_varint v buf =
     (let n = varint_len v in
      if n = 1 then (1, buf[0 := ucast v])
      else if n = 2 then (2, copy_at 0 (to_be 2 ((ucast v :: u16) OR 0x4000)) buf)
      else if n = 4 then (4, copy_at 0 (to_be 4 ((ucast v :: u32) OR 0x80000000)) buf)
      else (8, copy_at 0 (to_be 8 (v OR 0xc000000000000000)) buf))"

definition encode_varint :: "u64 \<Rightarrow> bytes \<Rightarrow> bytes" where
  "encode_varint v out = (let (n, buf) = write_varint v (replicate 8 0) in out @ take n buf)"

definition decode_varint :: "bytes \<Rightarrow> (u64 \<times> bytes) option" where
  "decode_varint buf =
     (case buf of [] \<Rightarrow> None
      | first # _ \<Rightarrow>
          (let len = push_bit (unat (drop_bit 6 first)) 1 in
           if length buf < len then None
           else let val = foldl (\<lambda>val b. push_bit 8 val OR ucast b) (ucast (first AND 0x3f))
                            (take (len - 1) (drop 1 buf))
                in Some (val, drop len buf)))"

section \<open>Datagrams\<close>

definition cip_encode :: "bytes \<Rightarrow> bytes" where
  "cip_encode ip = encode_varint CONTEXT_ID_IP_PACKET [] @ ip"

text \<open>The destination buffer after the call, with the number of bytes written.\<close>

definition cip_encode_into :: "bytes \<Rightarrow> bytes \<Rightarrow> packet_error + (nat \<times> bytes)" where
  "cip_encode_into ip dst =
     (let ctx_len = varint_len CONTEXT_ID_IP_PACKET;
          needed = ctx_len + length ip
      in if length dst < needed then Inl (BufferTooSmall needed (length dst))
      else let (n, tmp) = write_varint CONTEXT_ID_IP_PACKET (replicate 8 0);
               dst = copy_at 0 (take n tmp) dst;
               dst = copy_at n ip dst
           in Inr (needed, dst))"

definition cip_decode :: "bytes \<Rightarrow> packet_error + bytes" where
  "cip_decode payload =
     bindE (ok_or TruncatedContextId (decode_varint payload)) (\<lambda>(ctx, rest).
     if ctx \<noteq> CONTEXT_ID_IP_PACKET then Inl (UnsupportedContextId ctx) else Inr rest)"

definition encode_datagram :: "u64 \<Rightarrow> bytes \<Rightarrow> bytes" where
  "encode_datagram flow_id ip =
     encode_varint CONTEXT_ID_IP_PACKET (encode_varint flow_id []) @ ip"

definition encode_padding_datagram :: "u64 \<Rightarrow> nat \<Rightarrow> bytes" where
  "encode_padding_datagram flow_id pad_len =
     encode_varint CONTEXT_ID_PADDING (encode_varint flow_id []) @ replicate pad_len 0"

definition decode_datagram :: "bytes \<Rightarrow> packet_error + (u64 \<times> datagram_payload)" where
  "decode_datagram buf =
     bindE (ok_or TruncatedFlowId (decode_varint buf)) (\<lambda>(flow_id, rest).
     bindE (ok_or TruncatedContextId (decode_varint rest)) (\<lambda>(ctx, payload).
     if ctx = CONTEXT_ID_IP_PACKET then Inr (flow_id, Ip payload)
     else if ctx = CONTEXT_ID_PADDING then Inr (flow_id, Padding)
     else Inl (UnsupportedContextId ctx)))"

section \<open>Arithmetic of the integers\<close>

lemma be_of_nat_mod: "be_of_nat n (x mod 256 ^ n) = be_of_nat n x"
proof (induction n arbitrary: x)
  case (Suc n)
  have "x mod (256 * 256 ^ n) div 256 = x div 256 mod 256 ^ n" by (simp add: div_mult2_eq mod_mult2_eq)
  moreover have "x mod (256 * 256 ^ n) mod 256 = x mod 256" by (simp add: mod_mult2_eq)
  ultimately show ?case using Suc.IH [of "x div 256"] by simp
qed simp

lemma be_of_nat_Cons: "be_of_nat (Suc n) x = word_of_nat (x div 256 ^ n) # be_of_nat n x"
proof (induction n arbitrary: x)
  case 0
  have "(word_of_nat (x mod 256) :: byte) = word_of_nat x"
    using word_of_nat_eq_iff [of "x mod 256" x, where 'a = 8] by (simp add: take_bit_eq_mod)
  then show ?case by simp
next
  case (Suc n)
  have "be_of_nat (Suc (Suc n)) x = be_of_nat (Suc n) (x div 256) @ [word_of_nat (x mod 256)]" by simp
  also have "\<dots> = word_of_nat (x div 256 div 256 ^ n) # be_of_nat n (x div 256) @ [word_of_nat (x mod 256)]"
    unfolding Suc.IH by simp
  also have "x div 256 div 256 ^ n = x div 256 ^ Suc n" by (simp add: div_mult2_eq)
  finally show ?case by simp
qed

text \<open>The accumulating loop of the decoder, at most seven bytes long, computes the big-endian value.\<close>

lemma unat_shift_or:
  assumes "unat (v :: u64) < 2 ^ 56"
  shows "unat (push_bit 8 v OR ucast (b :: byte)) = unat v * 256 + unat b"
proof -
  have p: "unat (push_bit 8 v) = unat v * 256"
    using assms by (simp add: push_bit_eq_mult unat_word_ariths)
  have "unat b < 256" by simp
  then have u: "unat (ucast b :: u64) = unat b"
    by (simp add: unsigned_ucast_eq take_bit_eq_mod del: unat_byte_lt)
  have "unat (push_bit 8 v OR ucast b) = unat (push_bit 8 v) OR unat (ucast b :: u64)"
    by (rule unsigned_or_eq)
  also have "\<dots> = unat (push_bit 8 v) + unat (ucast b :: u64)"
    by (rule disjunctive_add [symmetric]) (auto simp: bit_simps dest: bit_imp_le_length)
  finally show ?thesis by (simp add: p u)
qed

lemma decode_fold:
  assumes "length bs \<le> 7" and "unat v < 64"
  shows "unat (foldl (\<lambda>val b. push_bit 8 val OR ucast b) v bs) = unat (v :: u64) * 256 ^ length bs + nat_of_be bs"
  using assms(1)
proof (induction bs rule: rev_induct)
  case (snoc b bs)
  let ?f = "foldl (\<lambda>val b. push_bit 8 val OR ucast b) v bs"
  have f: "unat ?f = unat v * 256 ^ length bs + nat_of_be bs" using snoc by simp
  also have "\<dots> < unat v * 256 ^ length bs + 256 ^ length bs" using nat_of_be_less [of bs] by simp
  also have "\<dots> = (unat v + 1) * 256 ^ length bs" by simp
  also have "\<dots> \<le> 64 * 256 ^ 6"
    using assms(2) snoc.prems by (intro mult_mono power_increasing) auto
  finally have "unat ?f < 2 ^ 56" by simp
  from unat_shift_or [OF this, of b] f show ?case by (simp add: algebra_simps)
qed simp

lemma unat_or_high:
  assumes "unat (w :: 'a::len word) < 2 ^ k"
  shows "unat (w OR push_bit k u) = unat w + unat (push_bit k u)"
proof -
  have t: "take_bit k (unat w) = unat w" using assms by (simp add: take_bit_nat_eq_self)
  have b: "i < k" if "bit w i" for i
    using that t by (metis bit_take_bit_iff bit_unsigned_iff bit_imp_le_length possible_bit_nat)
  have "unat (w OR push_bit k u) = unat w OR unat (push_bit k u)" by (rule unsigned_or_eq)
  also have "\<dots> = unat w + unat (push_bit k u)"
    by (rule disjunctive_add [symmetric]) (auto simp: bit_simps dest: b)
  finally show ?thesis .
qed

text \<open>The first byte: the length class in the upper two bits, the value's top six bits below.\<close>

lemma first_byte:
  assumes "c < 4" and "q < 64"
  defines "f \<equiv> (word_of_nat (c * 64 + q) :: byte)"
  shows "unat (drop_bit 6 f) = c" and "unat (ucast (f AND 0x3f) :: u64) = q"
proof -
  have f: "unat f = c * 64 + q" unfolding f_def unat_of_nat using assms(1,2) by simp
  show "unat (drop_bit 6 f) = c" using assms(1,2) f by (simp add: drop_bit_eq_div unat_div)
  have "f AND 0x3f = take_bit 6 f" by (simp add: take_bit_eq_mask mask_eq_exp_minus_1)
  then have "unat (f AND 0x3f) = q" using f assms(2) by (simp add: take_bit_eq_mod unat_mod)
  then show "unat (ucast (f AND 0x3f) :: u64) = q"
    using assms(2) by (simp add: unsigned_ucast_eq take_bit_eq_mod)
qed

lemma decode_varint_be:
  assumes "c < 4" and "m = 2 ^ c - 1" and "x < 64 * 256 ^ m"
  shows "decode_varint (be_of_nat (Suc m) (c * 64 * 256 ^ m + x) @ rest) = Some (word_of_nat x, rest)"
proof -
  define y where "y = c * 64 * 256 ^ m + x"
  define q where "q = x div 256 ^ m"
  define f where "f = (word_of_nat (c * 64 + q) :: byte)"
  have q: "q < 64" using assms(3) unfolding q_def by (simp add: less_mult_imp_div_less)
  have "y div 256 ^ m = c * 64 + q" by (simp add: y_def q_def)
  then have y: "be_of_nat (Suc m) y = f # be_of_nat m y" by (simp only: be_of_nat_Cons f_def)
  note fb = first_byte [OF assms(1) q, folded f_def]
  have len: "push_bit (unat (drop_bit 6 f)) 1 = Suc m"
    unfolding fb(1) using assms(2) by (simp add: push_bit_eq_mult)
  have "(2::nat) ^ c \<le> 2 ^ 3" using assms(1) by (intro power_increasing) auto
  then have m7: "m \<le> 7" using assms(2) by simp
  define v where "v = foldl (\<lambda>val b. push_bit 8 val OR ucast b) (ucast (f AND 0x3f) :: u64) (be_of_nat m y)"
  have "nat_of_be (be_of_nat m y) = x mod 256 ^ m"
    using be_of_nat_mod [of m y] nat_of_be_of_nat [of "y mod 256 ^ m" m] by (simp add: y_def)
  then have "unat v = q * 256 ^ m + x mod 256 ^ m"
    using decode_fold [of "be_of_nat m y" "ucast (f AND 0x3f)"] m7 fb(2) q by (simp add: v_def)
  also have "\<dots> = x" unfolding q_def by (rule div_mult_mod_eq)
  finally have "word_of_nat (unat v) = (word_of_nat x :: u64)" by (rule arg_cong)
  then have "v = word_of_nat x" by simp
  then show ?thesis
    unfolding decode_varint_def y_def [symmetric] y append_Cons list.case len Let_def by (simp add: v_def)
qed

lemma take_first_written: "take (Suc 0) ((replicate 8 0)[0 := b]) = [b]"
  by (simp add: numeral_eq_Suc)

lemma encode_varint_short:
  assumes "v \<le> 63"
  shows "encode_varint v out = out @ be_of_nat (Suc 0) (unat v)"
  using assms take_first_written [of "ucast v"]
  by (simp add: encode_varint_def write_varint_def varint_len_def be_of_nat_Cons del: be_of_nat.simps(2))

lemma encode_varint_be:
  assumes "v \<le> MAX_VARINT"
  obtains c m where "c < 4" and "m = 2 ^ c - 1" and "unat v < 64 * 256 ^ m"
    and "\<And>out. encode_varint v out = out @ be_of_nat (Suc m) (c * 64 * 256 ^ m + unat v)"
    and "varint_len v = Suc m"
proof -
  have max: "unat v < 64 * 256 ^ 7"
    using assms by (simp add: MAX_VARINT_def word_le_nat_alt)
  consider "v \<le> 63" | "\<not> v \<le> 63" "v \<le> 16383" | "\<not> v \<le> 16383" "v \<le> 1073741823" "\<not> v \<le> 63"
    | "\<not> v \<le> 1073741823" "\<not> v \<le> 16383" "\<not> v \<le> 63"
    by blast
  then show ?thesis
  proof cases
    case 1
    then have "unat v < 64" by (simp add: word_le_nat_alt)
    with 1 show ?thesis
      by (intro that [of 0 0]) (simp_all add: encode_varint_short varint_len_def)
  next
    case 2
    then have lt: "unat v < 16384" by (simp add: word_le_nat_alt)
    then have u: "unat (ucast v :: u16) = unat v" by (simp add: unsigned_ucast_eq take_bit_eq_mod)
    have "unat ((ucast v :: u16) OR push_bit 14 1) = unat v + unat (push_bit 14 1 :: u16)"
      using unat_or_high [of "ucast v :: u16" 14 1] lt u by simp
    then have "unat ((ucast v :: u16) OR 0x4000) = 1 * 64 * 256 ^ 1 + unat v" by (simp add: push_bit_eq_mult)
    then have "encode_varint v out = out @ be_of_nat (Suc 1) (1 * 64 * 256 ^ 1 + unat v)" for out
      using 2 unfolding Suc_1
      by (simp add: encode_varint_def write_varint_def varint_len_def copy_at_def to_be_def)
    with 2 lt show ?thesis
      by (intro that [of 1 1]) (simp_all add: varint_len_def)
  next
    case 3
    then have lt: "unat v < 2 ^ 30" by (simp add: word_le_nat_alt)
    then have u: "unat (ucast v :: u32) = unat v" by (simp add: unsigned_ucast_eq take_bit_eq_mod)
    have "unat ((ucast v :: u32) OR push_bit 30 2) = unat v + unat (push_bit 30 2 :: u32)"
      using unat_or_high [of "ucast v :: u32" 30 2] lt u by simp
    then have "unat ((ucast v :: u32) OR 0x80000000) = 2 * 64 * 256 ^ 3 + unat v" by (simp add: push_bit_eq_mult)
    with 3 lt show ?thesis
      by (intro that [of 2 3])
         (auto simp: encode_varint_def write_varint_def varint_len_def copy_at_def to_be_def)
  next
    case 4
    have lt: "unat v < 2 ^ 62" using max by simp
    have "unat (v OR push_bit 62 3) = unat v + unat (push_bit 62 3 :: u64)"
      using unat_or_high [of v 62 3] lt by simp
    then have "unat (v OR 0xc000000000000000) = 3 * 64 * 256 ^ 7 + unat v" by (simp add: push_bit_eq_mult)
    with 4 max show ?thesis
      by (intro that [of 3 7])
         (auto simp: encode_varint_def write_varint_def varint_len_def copy_at_def to_be_def)
  qed
qed

lemma decode_encode_varint:
  assumes "v \<le> MAX_VARINT"
  shows "decode_varint (encode_varint v [] @ rest) = Some (v, rest)"
proof (rule encode_varint_be [OF assms])
  fix c m :: nat
  assume "c < 4" "m = 2 ^ c - 1" "unat v < 64 * 256 ^ m"
    and e: "\<And>out. encode_varint v out = out @ be_of_nat (Suc m) (c * 64 * 256 ^ m + unat v)"
  then have "decode_varint (be_of_nat (Suc m) (c * 64 * 256 ^ m + unat v) @ rest) = Some (word_of_nat (unat v), rest)"
    by (intro decode_varint_be)
  then show ?thesis unfolding e append_Nil by (simp del: be_of_nat.simps)
qed

lemma encode_varint_append: "encode_varint v out = out @ encode_varint v []"
  by (simp add: encode_varint_def case_prod_unfold Let_def)

lemma length_encode_varint:
  assumes "v \<le> MAX_VARINT"
  shows "length (encode_varint v []) = varint_len v"
proof (rule encode_varint_be [OF assms])
  fix c m :: nat
  assume e: "\<And>out. encode_varint v out = out @ be_of_nat (Suc m) (c * 64 * 256 ^ m + unat v)"
    and "varint_len v = Suc m"
  then show ?thesis unfolding e append_Nil by (simp del: be_of_nat.simps)
qed

lemma varint_len_le: "varint_len v \<le> 8"
  by (simp add: varint_len_def)

lemma context_ids [simp]:
  "CONTEXT_ID_IP_PACKET \<le> MAX_VARINT" "CONTEXT_ID_PADDING \<le> MAX_VARINT"
  "CONTEXT_ID_IP_PACKET \<noteq> CONTEXT_ID_PADDING" "CONTEXT_ID_PADDING \<noteq> CONTEXT_ID_IP_PACKET"
  "varint_len CONTEXT_ID_IP_PACKET = 1" "varint_len CONTEXT_ID_PADDING = 1"
  by (simp_all add: CONTEXT_ID_IP_PACKET_def CONTEXT_ID_PADDING_def MAX_VARINT_def varint_len_def word_le_nat_alt)

text \<open>What a decoded integer consumed: a prefix of one to eight bytes.\<close>

lemma decode_varint_SomeD:
  assumes "decode_varint buf = Some (v, rest)"
  obtains hdr where "buf = hdr @ rest" and "1 \<le> length hdr" and "length hdr \<le> 8"
proof -
  from assms obtain f tl where buf: "buf = f # tl"
    by (cases buf) (auto simp: decode_varint_def)
  define n where "n = (push_bit (unat (drop_bit 6 f)) 1 :: nat)"
  have "unat f < 256" by simp
  then have "unat (drop_bit 6 f) < 4"
    by (simp add: drop_bit_eq_div unat_div less_mult_imp_div_less del: unat_byte_lt)
  then have "(2::nat) ^ unat (drop_bit 6 f) \<le> 2 ^ 3" by (intro power_increasing) auto
  then have n: "1 \<le> n" "n \<le> 8" by (simp_all add: n_def push_bit_eq_mult)
  from assms have "rest = drop n buf" "n \<le> length buf"
    unfolding decode_varint_def buf list.case n_def [symmetric]
    by (auto simp: Let_def split: if_splits)
  then show ?thesis using that [of "take n buf"] n by simp
qed

lemma datagram_roundtrip: "flow \<le> MAX_VARINT \<Longrightarrow> decode_datagram (encode_datagram flow p) = Inr (flow, Ip p)"
  using encode_varint_append [of CONTEXT_ID_IP_PACKET "encode_varint flow []"]
  by (simp add: encode_datagram_def decode_datagram_def decode_encode_varint)

section \<open>Properties\<close>

text \<open>
  C26: Framing round trip. For every flow id that a variable-length integer can carry, the receiver of
  an encoded datagram gets the same flow id and the same IP packet, and the receiver of an encoded
  padding datagram gets the flow id and no packet at all; both framings grow the payload by at least
  two bytes and at most \<open>MAX_FRAMING_OVERHEAD\<close>. The flow-less form round trips as well.
\<close>

theorem connectip_roundtrip:
  assumes "flow_id \<le> MAX_VARINT"
  shows "decode_datagram (encode_datagram flow_id ip) = Inr (flow_id, Ip ip) \<and>
    decode_datagram (encode_padding_datagram flow_id n) = Inr (flow_id, Padding) \<and>
    length (encode_datagram flow_id ip) \<le> length ip + MAX_FRAMING_OVERHEAD \<and>
    length (encode_padding_datagram flow_id n) \<le> n + MAX_FRAMING_OVERHEAD \<and>
    length ip + 2 \<le> length (encode_datagram flow_id ip) \<and>
    cip_decode (cip_encode ip) = Inr ip"
proof (intro conjI)
  let ?h = "encode_varint flow_id []"
  have l: "length ?h = varint_len flow_id" and "1 \<le> varint_len flow_id"
    using length_encode_varint [OF assms] by (simp_all add: varint_len_def)
  have e: "encode_datagram flow_id ip = ?h @ encode_varint CONTEXT_ID_IP_PACKET [] @ ip"
    and p: "encode_padding_datagram flow_id n = ?h @ encode_varint CONTEXT_ID_PADDING [] @ replicate n 0"
    unfolding encode_datagram_def encode_padding_datagram_def
    using encode_varint_append [of _ ?h] by simp_all
  show "decode_datagram (encode_datagram flow_id ip) = Inr (flow_id, Ip ip)"
    and "decode_datagram (encode_padding_datagram flow_id n) = Inr (flow_id, Padding)"
    unfolding e p using assms by (simp_all add: decode_datagram_def decode_encode_varint)
  show "length (encode_datagram flow_id ip) \<le> length ip + MAX_FRAMING_OVERHEAD"
    and "length (encode_padding_datagram flow_id n) \<le> n + MAX_FRAMING_OVERHEAD"
    and "length ip + 2 \<le> length (encode_datagram flow_id ip)"
    unfolding e p using l varint_len_le [of flow_id] \<open>1 \<le> _\<close>
    by (simp_all add: length_encode_varint MAX_FRAMING_OVERHEAD_def)
  show "cip_decode (cip_encode ip) = Inr ip"
    by (simp add: cip_decode_def cip_encode_def decode_encode_varint)
qed

text \<open>A long flow id: the eight-byte form, the framing overhead at its maximum.\<close>

theorem connectip_roundtrip_witness:
  "decode_datagram (encode_datagram 0x3fffffffffffffff [0x45, 0]) = Inr (0x3fffffffffffffff, Ip [0x45, 0])"
  using connectip_roundtrip [of "0x3fffffffffffffff" "[0x45, 0]" 0] by (simp add: MAX_VARINT_def word_le_nat_alt)

text \<open>
  What the receiver hands to the TUN device. A datagram that decodes as an IP packet starts with
  two variable-length integers, the flow id that is returned and context id 0, and the packet is
  exactly the bytes after them; one whose context id is the padding id never yields a packet; any
  other context id is an error.
\<close>

theorem decode_datagram_sound:
  assumes "decode_varint buf = Some (flow_id, rest)" and "decode_varint rest = Some (ctx, payload)"
  shows "decode_datagram buf =
      (if ctx = 0 then Inr (flow_id, Ip payload)
       else if ctx = 1 then Inr (flow_id, Padding) else Inl (UnsupportedContextId ctx)) \<and>
    (\<exists>hdr. buf = hdr @ payload \<and> 2 \<le> length hdr \<and> length hdr \<le> 16)"
proof (intro conjI)
  show "decode_datagram buf =
      (if ctx = 0 then Inr (flow_id, Ip payload)
       else if ctx = 1 then Inr (flow_id, Padding) else Inl (UnsupportedContextId ctx))"
    using assms by (simp add: decode_datagram_def CONTEXT_ID_IP_PACKET_def CONTEXT_ID_PADDING_def)
  obtain h1 where "buf = h1 @ rest" "1 \<le> length h1" "length h1 \<le> 8"
    by (rule decode_varint_SomeD [OF assms(1)])
  moreover obtain h2 where "rest = h2 @ payload" "1 \<le> length h2" "length h2 \<le> 8"
    by (rule decode_varint_SomeD [OF assms(2)])
  ultimately show "\<exists>hdr. buf = hdr @ payload \<and> 2 \<le> length hdr \<and> length hdr \<le> 16"
    by (intro exI [of _ "h1 @ h2"]) simp
qed

theorem decode_datagram_sound_witness:
  "decode_datagram [4, 1, 0, 0] = Inr (4, Padding)"
  using decode_datagram_sound [of "[4, 1, 0, 0]" 4 "[1, 0, 0]" 1 "[0, 0]"]
  by (simp add: decode_varint_def drop_bit_eq_div)

text \<open>
  The allocation-free encoder agrees with the allocating one. It fails exactly when the buffer is
  shorter than the encoding, reporting both lengths; otherwise it writes the encoding at the front,
  leaves the rest of the buffer as it was and returns the encoding's length.
\<close>

theorem cip_encode_into_eq_encode:
  "cip_encode_into ip dst =
     (let e = cip_encode ip in
      if length dst < length e then Inl (BufferTooSmall (length e) (length dst))
      else Inr (length e, e @ drop (length e) dst))"
proof -
  have e: "encode_varint CONTEXT_ID_IP_PACKET [] = [0]"
    using encode_varint_short [of 0 "[]"] by (simp add: CONTEXT_ID_IP_PACKET_def)
  have w: "write_varint CONTEXT_ID_IP_PACKET (replicate 8 0) = (1, replicate 8 0)"
    by (simp add: write_varint_def CONTEXT_ID_IP_PACKET_def varint_len_def numeral_eq_Suc)
  have t: "take 1 (replicate 8 0) = [0 :: byte]" by (simp add: numeral_eq_Suc)
  show ?thesis
    by (cases dst) (auto simp: cip_encode_into_def cip_encode_def e w t copy_at_def Let_def)
qed

end
