(* ===== verification/Text.thy ===== *)
theory Text
  imports Nil_Prelude
begin

text \<open>
  The text operations of the standard library that the stores and the configuration code use, on
  the bytes of a UTF-8 string: decimal integers, splitting, trimming and white space.
\<close>

section \<open>Splitting\<close>

text \<open>\<open>str::split_once\<close> and \<open>str::split\<close> at a one-byte separator.\<close>

fun split_once :: "byte \<Rightarrow> bytes \<Rightarrow> (bytes \<times> bytes) option" where
  "split_once c [] = None"
| "split_once c (b # bs) =
     (if b = c then Some ([], bs)
      else case split_once c bs of None \<Rightarrow> None | Some (l, r) \<Rightarrow> Some (b # l, r))"

fun split_at :: "byte \<Rightarrow> bytes \<Rightarrow> bytes list" where
  "split_at c [] = [[]]"
| "split_at c (b # bs) =
     (if b = c then [] # split_at c bs
      else case split_at c bs of [] \<Rightarrow> [[b]] | l # ls \<Rightarrow> (b # l) # ls)"

lemma split_at_ne [simp]: "split_at c bs \<noteq> []"
  by (cases bs) (auto split: list.splits)

lemma split_at_free: "c \<notin> set bs \<Longrightarrow> split_at c bs = [bs]"
  by (induction bs) auto

lemma split_at_append: "c \<notin> set l \<Longrightarrow> split_at c (l @ c # bs) = l # split_at c bs"
  by (induction l) auto

lemma split_once_append: "c \<notin> set l \<Longrightarrow> split_once c (l @ c # r) = Some (l, r)"
  by (induction l) auto

lemma split_once_Some: "split_once c bs = Some (l, r) \<Longrightarrow> bs = l @ c # r \<and> c \<notin> set l"
proof (induction bs arbitrary: l)
  case (Cons b bs)
  show ?case
  proof (cases "b = c")
    case False
    with Cons.prems obtain l' where "split_once c bs = Some (l', r)" "l = b # l'"
      by (cases "split_once c bs") auto
    with Cons.IH False show ?thesis by auto
  qed (use Cons.prems in simp)
qed simp

text \<open>The newline-terminated lines of a file; a final fragment without newline is not one of them.\<close>

abbreviation newline :: byte where "newline \<equiv> 10"

definition complete_lines :: "bytes \<Rightarrow> bytes list" where
  "complete_lines bs = butlast (split_at newline bs)"

definition terminated :: "bytes \<Rightarrow> bool" where
  "terminated bs \<longleftrightarrow> bs = [] \<or> last bs = newline"

lemma split_at_glue:
  "split_at c (a @ b) =
     butlast (split_at c a) @ (last (split_at c a) @ hd (split_at c b)) # tl (split_at c b)"
proof (induction a)
  case (Cons x a)
  obtain l ls where "split_at c a = l # ls" by (cases "split_at c a") auto
  with Cons show ?case by (cases ls) auto
qed (simp add: hd_Cons_tl)

lemma complete_lines_mono: "set (complete_lines a) \<subseteq> set (complete_lines (a @ b))"
  by (cases "tl (split_at newline b)")
     (auto simp: complete_lines_def split_at_glue [of _ a b] butlast_append)

lemma last_split_at_terminated: "last (split_at c (a @ [c])) = []"
  by (simp add: split_at_glue [of c a "[c]"])

lemma terminated_last: "terminated bs \<Longrightarrow> last (split_at newline bs) = []"
  by (cases bs rule: rev_cases) (auto simp: terminated_def last_split_at_terminated)

lemma split_at_no_sep: "l \<in> set (split_at c bs) \<Longrightarrow> c \<notin> set l"
proof (induction bs arbitrary: l)
  case (Cons b bs)
  obtain x xs where "split_at c bs = x # xs" by (cases "split_at c bs") auto
  with Cons show ?case by (auto split: if_splits)
qed simp

lemma complete_lines_no_newline: "l \<in> set (complete_lines bs) \<Longrightarrow> newline \<notin> set l"
  using split_at_no_sep in_set_butlastD by (fastforce simp: complete_lines_def)

lemma complete_lines_Nil [simp]: "complete_lines [] = []"
  by (simp add: complete_lines_def)

lemma complete_lines_append:
  assumes "terminated a"
  shows "complete_lines (a @ b) = complete_lines a @ complete_lines b"
proof -
  obtain l ls where "split_at newline b = l # ls" by (cases "split_at newline b") auto
  then show ?thesis
    using terminated_last [OF assms] by (simp add: complete_lines_def split_at_glue [of _ a b] butlast_append)
qed

lemma complete_lines_line: "newline \<notin> set l \<Longrightarrow> complete_lines (l @ [newline]) = [l]"
  by (simp add: complete_lines_def split_at_append)

lemma terminated_Nil [simp]: "terminated []"
  by (simp add: terminated_def)

lemma terminated_append [simp]: "terminated (a @ [newline])"
  by (simp add: terminated_def)

lemma terminated_append_line [simp]: "terminated (a @ l @ [newline])"
  using terminated_append [of "a @ l"] by simp

text \<open>A terminated file is the concatenation of its lines.\<close>

definition unlines :: "bytes list \<Rightarrow> bytes" where
  "unlines ls = concat (map (\<lambda>l. l @ [newline]) ls)"

lemma unlines_simps [simp]:
  "unlines [] = []" "unlines (l # ls) = l @ newline # unlines ls" "unlines (xs @ ys) = unlines xs @ unlines ys"
  by (simp_all add: unlines_def)

lemma terminated_unlines [simp]: "terminated (unlines ls)"
  by (cases ls rule: rev_cases) simp_all

lemma complete_lines_unlines: "(\<And>l. l \<in> set ls \<Longrightarrow> newline \<notin> set l) \<Longrightarrow> complete_lines (unlines ls) = ls"
  by (induction ls rule: rev_induct) (simp_all add: complete_lines_append complete_lines_line)

section \<open>Decimal integers\<close>

text \<open>\<open>to_string\<close> of an unsigned integer, and \<open>parse\<close> into one (an optional plus sign, then digits).\<close>

fun dec_of_nat :: "nat \<Rightarrow> bytes" where
  "dec_of_nat n = (if n < 10 then [word_of_nat (48 + n)] else dec_of_nat (n div 10) @ [word_of_nat (48 + n mod 10)])"

declare dec_of_nat.simps [simp del]

definition nat_of_dec :: "bytes \<Rightarrow> nat" where
  "nat_of_dec ds = foldl (\<lambda>n d. n * 10 + (unat d - 48)) 0 ds"

definition parse_uint :: "nat \<Rightarrow> bytes \<Rightarrow> nat option" where
  "parse_uint bound bs =
     (let ds = (case bs of [] \<Rightarrow> [] | b # r \<Rightarrow> if b = 43 then r else bs) in
      if ds = [] \<or> \<not> list_all is_ascii_digit ds \<or> nat_of_dec ds > bound then None
      else Some (nat_of_dec ds))"

definition parse_u32 :: "bytes \<Rightarrow> u32 option" where
  "parse_u32 bs = map_option word_of_nat (parse_uint (2 ^ 32 - 1) bs)"

definition parse_u64 :: "bytes \<Rightarrow> u64 option" where
  "parse_u64 bs = map_option word_of_nat (parse_uint (2 ^ 64 - 1) bs)"

definition u_to_string :: "'a::len word \<Rightarrow> bytes" where
  "u_to_string w = dec_of_nat (unat w)"

lemma nat_of_dec_snoc [simp]: "nat_of_dec (ds @ [d]) = nat_of_dec ds * 10 + (unat d - 48)"
  by (simp add: nat_of_dec_def)

lemma unat_digit: "n < 10 \<Longrightarrow> unat (word_of_nat (48 + n) :: byte) = 48 + n"
  unfolding unat_of_nat by simp

lemma nat_of_dec_of_nat [simp]: "nat_of_dec (dec_of_nat n) = n"
proof (induction n rule: dec_of_nat.induct)
  case (1 n)
  then show ?case
    using unat_digit [of n] unat_digit [of "n mod 10"]
    by (simp add: dec_of_nat.simps [of n] nat_of_dec_def [of "[_]"])
qed

lemma digit_word: "n < 10 \<Longrightarrow> is_ascii_digit (word_of_nat (48 + n))"
  using unat_digit [of n] by (simp add: is_ascii_digit_def word_le_nat_alt)

lemma dec_digits: "list_all is_ascii_digit (dec_of_nat n)"
proof (induction n rule: dec_of_nat.induct)
  case (1 n)
  then show ?case
    using digit_word [of n] digit_word [of "n mod 10"] by (simp add: dec_of_nat.simps [of n])
qed

lemma dec_ne [simp]: "dec_of_nat n \<noteq> []"
  by (simp add: dec_of_nat.simps)

lemma length_dec: "n < 10 ^ Suc k \<Longrightarrow> length (dec_of_nat n) \<le> Suc k"
proof (induction k arbitrary: n)
  case 0
  then show ?case by (simp add: dec_of_nat.simps)
next
  case (Suc k)
  then have "n div 10 < 10 ^ Suc k" by (simp add: less_mult_imp_div_less)
  from Suc.IH [OF this] show ?case by (subst dec_of_nat.simps) simp
qed

lemma dec_digit: "d \<in> set (dec_of_nat n) \<Longrightarrow> is_ascii_digit d"
  using dec_digits [of n] by (simp add: list_all_iff)

lemma dec_not_in:
  assumes "\<not> is_ascii_digit c"
  shows "c \<notin> set (dec_of_nat n)"
  using assms dec_digit by blast

lemma not_digits [simp]:
  "\<not> is_ascii_digit 10" "\<not> is_ascii_digit 32" "\<not> is_ascii_digit 43" "\<not> is_ascii_digit 45" "\<not> is_ascii_digit 13"
  by (simp_all add: is_ascii_digit_def)

lemma parse_uint_dec:
  assumes "n \<le> bound"
  shows "parse_uint bound (dec_of_nat n) = Some n"
proof -
  obtain b r where "dec_of_nat n = b # r" by (cases "dec_of_nat n") auto
  moreover from this have "b \<noteq> 43" using dec_digit [of b n] by auto
  ultimately show ?thesis
    using assms dec_digits [of n] nat_of_dec_of_nat [of n] by (simp add: parse_uint_def)
qed

lemma parse_u_to_string [codec_simps]:
  "parse_u32 (u_to_string e) = Some e" "parse_u64 (u_to_string t) = Some t"
proof -
  have "unat e \<le> 2 ^ 32 - 1" "unat t \<le> 2 ^ 64 - 1"
    using unat_less_pow [of e] unat_less_pow [of t] by simp_all
  then show "parse_u32 (u_to_string e) = Some e" "parse_u64 (u_to_string t) = Some t"
    by (simp_all add: parse_u32_def parse_u64_def u_to_string_def parse_uint_dec)
qed

lemma u_to_string_not_in: "\<not> is_ascii_digit c \<Longrightarrow> c \<notin> set (u_to_string w)"
  by (simp add: u_to_string_def dec_not_in)

lemma u_to_string_ne [simp]: "u_to_string w \<noteq> []"
  by (simp add: u_to_string_def)

section \<open>UTF-8 text\<close>

lemma utf8_head_append: "utf8_head a \<noteq> 0 \<Longrightarrow> utf8_head (a @ b) = utf8_head a"
  by (cases a; cases "tl a"; cases "tl (tl a)"; cases "tl (tl (tl a))")
     (simp_all add: utf8_head_def split: if_splits)

lemma utf8_head_le: "utf8_head a \<le> length a"
  by (cases a; cases "tl a"; cases "tl (tl a)"; cases "tl (tl (tl a))") (simp_all add: utf8_head_def)

lemma utf8_valid_append: "utf8_valid a \<Longrightarrow> utf8_valid (a @ b) = utf8_valid b"
proof (induction a rule: utf8_valid.induct)
  case (1 a)
  show ?case
  proof (cases "a = []")
    case False
    with 1(2) have h: "utf8_head a \<noteq> 0" and "utf8_valid (drop (utf8_head a) a)"
      by (subst (asm) utf8_valid.simps; simp split: if_splits)+
    with 1(1) False have "utf8_valid (drop (utf8_head a) a @ b) = utf8_valid b" by simp
    moreover have "drop (utf8_head a) (a @ b) = drop (utf8_head a) a @ b"
      using utf8_head_le [of a] by simp
    ultimately show ?thesis
      using False h by (subst utf8_valid.simps) (simp add: utf8_head_append)
  qed simp
qed

lemma utf8_valid_unlines: "(\<And>l. l \<in> set ls \<Longrightarrow> utf8_valid l) \<Longrightarrow> utf8_valid (unlines ls)"
  by (induction ls) (simp_all add: utf8_valid_append)

lemma digits_utf8: "utf8_valid (u_to_string w @ bs) = utf8_valid bs"
proof -
  have "utf8_valid (u_to_string w)"
  proof (rule ascii_utf8)
    fix b assume "b \<in> set (u_to_string w)"
    then have "b \<le> 57" using dec_digit by (auto simp: u_to_string_def is_ascii_digit_def)
    then show "b < 128" by (rule byte_le_ascii) simp
  qed
  then show ?thesis by (rule utf8_valid_append)
qed

section \<open>White space\<close>

text \<open>
  The width of the white-space scalar a UTF-8 text starts with, 0 when it starts with none
  (\<open>char::is_whitespace\<close>: the ASCII ones, U+0085, U+00A0, U+1680, U+2000 to U+200A, U+2028, U+2029,
  U+202F, U+205F and U+3000).
\<close>

definition ws_head :: "bytes \<Rightarrow> nat" where
  "ws_head bs =
     (case bs of [] \<Rightarrow> 0
      | a # r1 \<Rightarrow> if 9 \<le> a \<and> a \<le> 13 \<or> a = 32 then 1 else
          (case r1 of [] \<Rightarrow> 0
           | b # r2 \<Rightarrow> if a = 194 \<and> (b = 133 \<or> b = 160) then 2 else
               (case r2 of [] \<Rightarrow> 0
                | c # r3 \<Rightarrow>
                    if a = 225 \<and> b = 154 \<and> c = 128 \<or>
                       a = 226 \<and> b = 128 \<and> (128 \<le> c \<and> c \<le> 138 \<or> c = 168 \<or> c = 169 \<or> c = 175) \<or>
                       a = 226 \<and> b = 129 \<and> c = 159 \<or> a = 227 \<and> b = 128 \<and> c = 128
                    then 3 else 0)))"

text \<open>\<open>str::split_whitespace\<close>, with the field read so far.\<close>

function split_ws :: "bytes \<Rightarrow> bytes \<Rightarrow> bytes list" where
  "split_ws cur [] = (if cur = [] then [] else [cur])"
| "split_ws cur (b # bs) =
     (if ws_head (b # bs) = 0 then split_ws (cur @ [b]) bs
      else (if cur = [] then [] else [cur]) @ split_ws [] (drop (ws_head (b # bs)) (b # bs)))"
  by pat_completeness auto
termination by (relation "measure (\<lambda>(_, bs). length bs)") auto

definition split_whitespace :: "bytes \<Rightarrow> bytes list" where
  "split_whitespace bs = split_ws [] bs"

text \<open>Fields of printable ASCII, separated by single spaces.\<close>

definition graphic :: "byte \<Rightarrow> bool" where
  "graphic b \<longleftrightarrow> 33 \<le> b \<and> b \<le> 126"

lemma ws_head_graphic:
  assumes "graphic b"
  shows "ws_head (b # bs) = 0"
proof -
  have "\<not> (9 \<le> b \<and> b \<le> 13)" "b \<noteq> 32" "b \<noteq> 194" "b \<noteq> 225" "b \<noteq> 226" "b \<noteq> 227"
    using assms by (auto simp: graphic_def word_le_nat_alt)
  then show ?thesis by (simp add: ws_head_def split: list.split)
qed

lemma ws_head_space [simp]: "ws_head (32 # bs) = 1"
  by (simp add: ws_head_def)

lemma split_ws_field: "list_all graphic w \<Longrightarrow> split_ws cur (w @ bs) = split_ws (cur @ w) bs"
  by (induction w arbitrary: cur) (simp_all add: ws_head_graphic)

lemma split_whitespace_last: "list_all graphic w \<Longrightarrow> w \<noteq> [] \<Longrightarrow> split_whitespace w = [w]"
  using split_ws_field [of w "[]" "[]"] by (simp add: split_whitespace_def)

lemma split_whitespace_Cons:
  "list_all graphic w \<Longrightarrow> w \<noteq> [] \<Longrightarrow> split_whitespace (w @ 32 # bs) = w # split_whitespace bs"
  using split_ws_field [of w "[]" "32 # bs"] by (simp add: split_whitespace_def)

lemma digit_graphic: "is_ascii_digit d \<Longrightarrow> graphic d"
  by (auto simp: graphic_def is_ascii_digit_def word_le_nat_alt)

lemma dec_graphic: "list_all graphic (u_to_string w)"
  using dec_digits [of "unat w"] by (auto simp: list_all_iff u_to_string_def intro: digit_graphic)

text \<open>\<open>str::trim\<close>.\<close>

function trim_start :: "bytes \<Rightarrow> bytes" where
  "trim_start bs = (if bs = [] \<or> ws_head bs = 0 then bs else trim_start (drop (ws_head bs) bs))"
  by pat_completeness auto
termination by (relation "measure length") auto

function trim_end :: "bytes \<Rightarrow> bytes" where
  "trim_end bs =
     (if bs = [] then []
      else if ws_head bs > 0 then
        (let rest = trim_end (drop (ws_head bs) bs) in if rest = [] then [] else take (ws_head bs) bs @ rest)
      else take (max 1 (utf8_head bs)) bs @ trim_end (drop (max 1 (utf8_head bs)) bs))"
  by pat_completeness auto
termination by (relation "measure length") auto

declare trim_start.simps [simp del] trim_end.simps [simp del]

definition trim :: "bytes \<Rightarrow> bytes" where
  "trim bs = trim_start (trim_end bs)"

lemma trim_end_graphic: "list_all graphic bs \<Longrightarrow> trim_end bs = bs"
proof (induction bs rule: trim_end.induct)
  case (1 bs)
  show ?case
  proof (cases bs)
    case (Cons b r)
    have g: "ws_head bs = 0" "list_all graphic (drop n bs)" for n
      using 1(3) ws_head_graphic [of b r] set_drop_subset [of n bs] by (auto simp: Cons list_all_iff)
    then have "trim_end (drop (max 1 (utf8_head bs)) bs) = drop (max 1 (utf8_head bs)) bs"
      using 1(2) Cons by auto
    then show ?thesis using g by (subst trim_end.simps) simp
  qed (simp add: trim_end.simps)
qed

lemma trim_graphic: "list_all graphic bs \<Longrightarrow> trim bs = bs"
  by (cases bs) (auto simp: trim_def trim_end_graphic trim_start.simps ws_head_graphic)

end
