(* ===== verification/Filesystem.thy ===== *)
theory Filesystem
  imports Text Machines
begin

text \<open>
  The part of \<open>std::fs\<close> and \<open>std::io\<close> that the durable stores use, as a state-passing model with
  failures and crashes. A file system maps the entries of each directory to inodes. Of an inode it
  records the bytes a process reads and the length of the prefix that the last \<open>fsync\<close> made durable;
  of a directory, the earlier versions of its entries that a crash may bring back until the
  directory itself is synced. Each system call consumes one entry of a list of faults chosen by the
  environment: it succeeds, or fails with an error kind (a failed write having written any prefix).
\<close>

section \<open>State\<close>

datatype io_kind = NotFound | AlreadyExists | InvalidData | InvalidInput | WouldBlock | OtherKind

datatype io_error = IoError (err_kind: io_kind) (err_reason: string)

text \<open>A path with a file name: the text before the last separator, and the name.\<close>

datatype path = Path (p_dir: bytes) (p_name: bytes)

text \<open>
  \<open>Path::with_extension\<close> on a file name: what follows the last dot (of a name that does not start
  with its only dot) is replaced.
\<close>

definition file_stem :: "bytes \<Rightarrow> bytes" where
  "file_stem name =
     (let r = dropWhile (\<lambda>b. b \<noteq> 46) (rev name) in
      case r of [] \<Rightarrow> name | _ # before \<Rightarrow> if before = [] then name else rev before)"

definition with_extension :: "bytes \<Rightarrow> bytes \<Rightarrow> bytes" where
  "with_extension name ext = file_stem name @ [46] @ ext"

record inode =
  i_data :: bytes
  i_stable :: nat
  i_clean :: bool

datatype fault = Pass | Fail io_kind nat

type_synonym handle = nat

record fs =
  f_inodes :: "nat \<Rightarrow> inode"
  f_next :: nat
  f_names :: "bytes \<Rightarrow> bytes \<Rightarrow> nat option"
  f_olds :: "bytes \<Rightarrow> (bytes \<Rightarrow> nat option) list"
  f_faults :: "fault list"

type_synonym 'a io = "fs \<Rightarrow> (io_error + 'a) \<times> fs"

definition empty_inode :: inode where
  "empty_inode = \<lparr>i_data = [], i_stable = 0, i_clean = True\<rparr>"

definition empty_fs :: "fault list \<Rightarrow> fs" where
  "empty_fs fl = \<lparr>f_inodes = (\<lambda>_. empty_inode), f_next = 0, f_names = (\<lambda>_ _. None), f_olds = (\<lambda>_. []), f_faults = fl\<rparr>"

section \<open>Sequencing\<close>

definition io_return :: "'a \<Rightarrow> 'a io" where
  "io_return x s = (Inr x, s)"

definition io_throw :: "io_error \<Rightarrow> 'a io" where
  "io_throw e s = (Inl e, s)"

definition io_bind :: "'a io \<Rightarrow> ('a \<Rightarrow> 'b io) \<Rightarrow> 'b io" where
  "io_bind m f s = (case m s of (Inl e, s1) \<Rightarrow> (Inl e, s1) | (Inr x, s1) \<Rightarrow> f x s1)"

definition io_catch :: "'a io \<Rightarrow> (io_error \<Rightarrow> 'a io) \<Rightarrow> 'a io" where
  "io_catch m h s = (case m s of (Inl e, s1) \<Rightarrow> h e s1 | (Inr x, s1) \<Rightarrow> (Inr x, s1))"

text \<open>A call whose result is discarded (\<open>let _ = ...\<close>).\<close>

definition io_ignore :: "'a io \<Rightarrow> unit io" where
  "io_ignore m s = (Inr (), snd (m s))"

definition io_lift :: "io_error + 'a \<Rightarrow> 'a io" where
  "io_lift r s = (r, s)"

fun io_each :: "('a \<Rightarrow> unit io) \<Rightarrow> 'a list \<Rightarrow> unit io" where
  "io_each f [] = io_return ()"
| "io_each f (x # xs) = io_bind (f x) (\<lambda>_. io_each f xs)"

text \<open>A system call: its effect when the environment lets it pass, and what a failure leaves.\<close>

definition syscall :: "'a io \<Rightarrow> (nat \<Rightarrow> fs \<Rightarrow> fs) \<Rightarrow> 'a io" where
  "syscall ok part s =
     (case f_faults s of
        [] \<Rightarrow> ok s
      | Pass # fl \<Rightarrow> ok (s\<lparr>f_faults := fl\<rparr>)
      | Fail k n # fl \<Rightarrow> (Inl (IoError k ''''), part n (s\<lparr>f_faults := fl\<rparr>)))"

section \<open>System calls\<close>

definition lookup :: "path \<Rightarrow> fs \<Rightarrow> nat option" where
  "lookup p s = f_names s (p_dir p) (p_name p)"

text \<open>A change of one directory's entries keeps the version before it as one a crash may restore.\<close>

definition set_entries :: "bytes \<Rightarrow> (bytes \<Rightarrow> nat option) \<Rightarrow> fs \<Rightarrow> fs" where
  "set_entries d es s =
     s\<lparr>f_names := (f_names s)(d := es), f_olds := (f_olds s)(d := f_names s d # f_olds s d)\<rparr>"

definition set_inode :: "nat \<Rightarrow> inode \<Rightarrow> fs \<Rightarrow> fs" where
  "set_inode i nd s = s\<lparr>f_inodes := (f_inodes s)(i := nd)\<rparr>"

definition create_file :: "path \<Rightarrow> fs \<Rightarrow> handle \<times> fs" where
  "create_file p s =
     (let i = f_next s in
      (i, set_entries (p_dir p) ((f_names s (p_dir p))(p_name p := Some i))
            (set_inode i empty_inode (s\<lparr>f_next := i + 1\<rparr>))))"

definition truncate_to :: "nat \<Rightarrow> inode \<Rightarrow> inode" where
  "truncate_to n nd = \<lparr>i_data = take n (i_data nd), i_stable = min n (i_stable nd), i_clean = False\<rparr>"

definition append_to :: "bytes \<Rightarrow> inode \<Rightarrow> inode" where
  "append_to bs nd = nd\<lparr>i_data := i_data nd @ bs, i_clean := False\<rparr>"

definition flushed :: "inode \<Rightarrow> inode" where
  "flushed nd = nd\<lparr>i_stable := length (i_data nd), i_clean := True\<rparr>"

text \<open>\<open>OpenOptions\<close>: only the flags that decide which file is opened and what happens to it.\<close>

record open_options =
  oo_truncate :: bool
  oo_create :: bool
  oo_create_new :: bool

definition fs_open :: "open_options \<Rightarrow> path \<Rightarrow> handle io" where
  "fs_open opts p = syscall (\<lambda>s.
     case lookup p s of
       Some i \<Rightarrow>
         if oo_create_new opts then (Inl (IoError AlreadyExists ''''), s)
         else if oo_truncate opts then (Inr i, set_inode i (truncate_to 0 (f_inodes s i)) s)
         else (Inr i, s)
     | None \<Rightarrow>
         if oo_create opts \<or> oo_create_new opts then (let (i, s1) = create_file p s in (Inr i, s1))
         else (Inl (IoError NotFound ''''), s)) (\<lambda>_ s. s)"

definition fs_check :: "unit io" where
  "fs_check = syscall (io_return ()) (\<lambda>_ s. s)"

definition fs_read :: "handle \<Rightarrow> bytes io" where
  "fs_read h = syscall (\<lambda>s. (Inr (i_data (f_inodes s h)), s)) (\<lambda>_ s. s)"

definition fs_read_at :: "handle \<Rightarrow> nat \<Rightarrow> byte io" where
  "fs_read_at h k = syscall (\<lambda>s.
     let bs = i_data (f_inodes s h) in
     if k < length bs then (Inr (bs ! k), s) else (Inl (IoError OtherKind ''failed to fill whole buffer''), s)) (\<lambda>_ s. s)"

text \<open>\<open>Path::exists\<close> answers no when it cannot tell.\<close>

definition fs_exists :: "path \<Rightarrow> bool io" where
  "fs_exists p = io_catch (syscall (\<lambda>s. (Inr (lookup p s \<noteq> None), s)) (\<lambda>_ s. s)) (\<lambda>_. io_return False)"

definition fs_len :: "handle \<Rightarrow> nat io" where
  "fs_len h = syscall (\<lambda>s. (Inr (length (i_data (f_inodes s h))), s)) (\<lambda>_ s. s)"

definition fs_write_all :: "handle \<Rightarrow> bytes \<Rightarrow> unit io" where
  "fs_write_all h bs =
     syscall (\<lambda>s. (Inr (), set_inode h (append_to bs (f_inodes s h)) s))
       (\<lambda>n s. set_inode h (append_to (take n bs) (f_inodes s h)) s)"

text \<open>A \<open>File\<close> has no user-space buffer: its \<open>flush\<close> does nothing.\<close>

definition fs_flush :: "handle \<Rightarrow> unit io" where
  "fs_flush h = io_return ()"

definition fs_sync_all :: "handle \<Rightarrow> unit io" where
  "fs_sync_all h = syscall (\<lambda>s. (Inr (), set_inode h (flushed (f_inodes s h)) s)) (\<lambda>_ s. s)"

definition fs_set_len :: "handle \<Rightarrow> nat \<Rightarrow> unit io" where
  "fs_set_len h n = syscall (\<lambda>s. (Inr (), set_inode h (truncate_to n (f_inodes s h)) s)) (\<lambda>_ s. s)"

text \<open>\<open>rename\<close> replaces the target in one step; both names are in one directory here.\<close>

definition fs_rename :: "bytes \<Rightarrow> bytes \<Rightarrow> bytes \<Rightarrow> unit io" where
  "fs_rename d a b = syscall (\<lambda>s.
     case f_names s d a of
       None \<Rightarrow> (Inl (IoError NotFound ''''), s)
     | Some i \<Rightarrow> (Inr (), set_entries d ((f_names s d)(a := None, b := Some i)) s)) (\<lambda>_ s. s)"

definition fs_remove_file :: "path \<Rightarrow> unit io" where
  "fs_remove_file p = syscall (\<lambda>s.
     case lookup p s of
       None \<Rightarrow> (Inl (IoError NotFound ''''), s)
     | Some i \<Rightarrow> (Inr (), set_entries (p_dir p) ((f_names s (p_dir p))(p_name p := None)) s)) (\<lambda>_ s. s)"

text \<open>Opening a directory and syncing it.\<close>

definition fs_sync_dir :: "bytes \<Rightarrow> unit io" where
  "fs_sync_dir d = io_bind fs_check (\<lambda>_.
     syscall (\<lambda>s. (Inr (), s\<lparr>f_olds := (f_olds s)(d := [])\<rparr>)) (\<lambda>_ s. s))"

text \<open>
  \<open>std::fs::read\<close>: opening a file by name and reading it. That it is not there is reported only when
  it is not there.
\<close>

definition fs_read_file :: "path \<Rightarrow> bytes io" where
  "fs_read_file p s =
     (case syscall (\<lambda>s.
        case lookup p s of
          None \<Rightarrow> (Inl (IoError NotFound ''''), s)
        | Some i \<Rightarrow> (Inr (i_data (f_inodes s i)), s)) (\<lambda>_ s. s) s of
        (Inl e, s1) \<Rightarrow> (Inl (if lookup p s \<noteq> None \<and> err_kind e = NotFound then IoError OtherKind (err_reason e) else e), s1)
      | r \<Rightarrow> r)"

section \<open>Crashes\<close>

text \<open>
  After a crash each directory has one of the versions of its entries since its last sync, and each
  inode with unsynced changes has its durable prefix followed by arbitrary bytes.
\<close>

record crash_choice =
  cc_version :: "bytes \<Rightarrow> nat"
  cc_tail :: "nat \<Rightarrow> bytes"
  cc_faults :: "fault list"

definition versions :: "bytes \<Rightarrow> fs \<Rightarrow> (bytes \<Rightarrow> nat option) list" where
  "versions d s = f_names s d # f_olds s d"

definition stable_data :: "inode \<Rightarrow> bytes" where
  "stable_data nd = take (i_stable nd) (i_data nd)"

definition crash_inode :: "bytes \<Rightarrow> inode \<Rightarrow> inode" where
  "crash_inode tail nd =
     (if i_clean nd then nd
      else \<lparr>i_data = stable_data nd @ tail, i_stable = length (stable_data nd @ tail), i_clean = True\<rparr>)"

definition crash :: "crash_choice \<Rightarrow> fs \<Rightarrow> fs" where
  "crash cc s =
     s\<lparr>f_names := (\<lambda>d. versions d s ! (cc_version cc d mod length (versions d s))),
       f_olds := (\<lambda>_. []),
       f_inodes := (\<lambda>i. crash_inode (cc_tail cc i) (f_inodes s i)),
       f_faults := cc_faults cc\<rparr>"

end
