(* ===== verification/Log_File.thy ===== *)
theory Log_File
  imports Filesystem
begin

text \<open>
  What the line-oriented logs of the stores rely on: a file \<open>n\<close> of a directory \<open>d\<close>, rewritten through
  a temporary file \<open>t\<close> of the same directory. \<open>log_ok d n t L s\<close> says that the entries \<open>L\<close> are durable:
  whatever version of the directory and whatever unsynced bytes a crash leaves, they are part of the
  content of the file. \<open>live d n h s\<close> says that an append through the handle \<open>h\<close> reaches this file and
  starts on a new line. The lemmas give the effect of every system call on the two.
\<close>

section \<open>Well-formed file systems\<close>

definition fs_wf :: "fs \<Rightarrow> bool" where
  "fs_wf s \<longleftrightarrow>
     (\<forall>d. \<forall>v\<in>set (versions d s). \<forall>n i. v n = Some i \<longrightarrow> i < f_next s) \<and>
     (\<forall>i. i_stable (f_inodes s i) \<le> length (i_data (f_inodes s i)) \<and>
          (i_clean (f_inodes s i) \<longrightarrow> i_stable (f_inodes s i) = length (i_data (f_inodes s i))))"

definition tmp_apart :: "bytes \<Rightarrow> bytes \<Rightarrow> bytes \<Rightarrow> fs \<Rightarrow> bool" where
  "tmp_apart d n t s \<longleftrightarrow>
     n \<noteq> t \<and> (\<forall>v\<in>set (versions d s). \<forall>i. v n = Some i \<longrightarrow> v t \<noteq> Some i \<and> f_names s d t \<noteq> Some i)"

definition live :: "bytes \<Rightarrow> bytes \<Rightarrow> handle \<Rightarrow> fs \<Rightarrow> bool" where
  "live d n h s \<longleftrightarrow>
     (\<forall>v\<in>set (versions d s). v n = Some h) \<and> terminated (i_data (f_inodes s h))"

lemma versions_simps [simp]:
  "versions d (s\<lparr>f_faults := fl\<rparr>) = versions d s"
  "versions d (s\<lparr>f_next := k\<rparr>) = versions d s"
  "versions d (set_inode i nd s) = versions d s"
  "versions d (set_entries e es s) = (if d = e then es # versions d s else versions d s)"
  "versions d (s\<lparr>f_olds := (f_olds s)(e := [])\<rparr>) = (if d = e then [f_names s d] else versions d s)"
  by (simp_all add: versions_def set_inode_def set_entries_def)

lemma fs_simps [simp]:
  "f_inodes (set_inode i nd s) = (f_inodes s)(i := nd)" "f_next (set_inode i nd s) = f_next s"
  "f_names (set_inode i nd s) = f_names s" "f_faults (set_inode i nd s) = f_faults s"
  "f_olds (set_inode i nd s) = f_olds s"
  "f_inodes (set_entries d es s) = f_inodes s" "f_next (set_entries d es s) = f_next s"
  "f_names (set_entries d es s) = (f_names s)(d := es)" "f_faults (set_entries d es s) = f_faults s"
  by (simp_all add: set_inode_def set_entries_def)

lemma live_faults [simp]: "live d n h (s\<lparr>f_faults := fl\<rparr>) = live d n h s"
  by (simp add: live_def)

text \<open>The names of the directory's current version are among its versions.\<close>

lemma current_version [simp]: "f_names s d \<in> set (versions d s)"
  by (simp add: versions_def)

lemma live_lookup: "live d n h s \<Longrightarrow> f_names s d n = Some h"
  using current_version [of s d] by (auto simp: live_def simp del: current_version)

section \<open>Changes of inodes\<close>

definition inode_wf :: "inode \<Rightarrow> bool" where
  "inode_wf nd \<longleftrightarrow> i_stable nd \<le> length (i_data nd) \<and> (i_clean nd \<longrightarrow> i_stable nd = length (i_data nd))"

lemma fs_wf_inode: "fs_wf s \<Longrightarrow> inode_wf (f_inodes s i)"
  by (simp add: fs_wf_def inode_wf_def)

lemma inode_wf_simps [simp]:
  "inode_wf empty_inode" "inode_wf (flushed nd)" "inode_wf nd \<Longrightarrow> inode_wf (append_to bs nd)"
  "inode_wf nd \<Longrightarrow> inode_wf (truncate_to k nd)"
  by (auto simp: inode_wf_def empty_inode_def flushed_def append_to_def truncate_to_def)

lemma fs_wf_set_inode: "fs_wf s \<Longrightarrow> inode_wf nd \<Longrightarrow> fs_wf (set_inode i nd s)"
  by (simp add: fs_wf_def inode_wf_def)

lemma stable_data_append_to: "inode_wf nd \<Longrightarrow> stable_data (append_to bs nd) = stable_data nd"
  by (simp add: stable_data_def append_to_def inode_wf_def)

lemma stable_data_flushed [simp]: "stable_data (flushed nd) = i_data nd"
  by (simp add: stable_data_def flushed_def)

lemma flushed_grow: "stable_data (flushed nd) = stable_data nd @ drop (i_stable nd) (i_data nd)"
  by (simp add: stable_data_def flushed_def)

lemma flushed_data [simp]: "i_data (flushed nd) = i_data nd" "i_clean (flushed nd)"
  by (simp_all add: flushed_def)

lemma append_to_data [simp]: "i_data (append_to bs nd) = i_data nd @ bs"
  by (simp add: append_to_def)

lemma stable_prefix: "i_data nd = stable_data nd @ drop (i_stable nd) (i_data nd)"
  by (simp add: stable_data_def)

lemma clean_stable: "inode_wf nd \<Longrightarrow> i_clean nd \<Longrightarrow> stable_data nd = i_data nd"
  by (simp add: inode_wf_def stable_data_def)

lemma fs_wf_set_entries:
  assumes "fs_wf s" and "\<And>m i. es m = Some i \<Longrightarrow> i < f_next s"
  shows "fs_wf (set_entries d es s)"
  using assms by (auto simp: fs_wf_def split: if_splits)

lemma fs_wf_names: "fs_wf s \<Longrightarrow> f_names s d m = Some i \<Longrightarrow> i < f_next s"
  using current_version [of s d] by (auto simp: fs_wf_def simp del: current_version)

lemma fs_wf_sync: "fs_wf s \<Longrightarrow> fs_wf (s\<lparr>f_olds := (f_olds s)(e := [])\<rparr>)"
  using fs_wf_names [of s e] by (auto simp: fs_wf_def split: if_splits)

lemma fs_wf_fresh: "fs_wf s \<Longrightarrow> v \<in> set (versions d s) \<Longrightarrow> v m \<noteq> Some (f_next s)"
  by (auto simp: fs_wf_def)

lemma fs_wf_next: "fs_wf s \<Longrightarrow> f_next s \<le> k \<Longrightarrow> fs_wf (s\<lparr>f_next := k\<rparr>)"
  by (fastforce simp: fs_wf_def)

lemma stable_data_crash:
  "stable_data (crash_inode junk nd) = (if i_clean nd then stable_data nd else stable_data nd @ junk)"
proof -
  have "stable_data \<lparr>i_data = bs, i_stable = length bs, i_clean = c\<rparr> = bs" for bs c
    by (simp add: stable_data_def)
  then show ?thesis by (simp add: crash_inode_def del: length_append)
qed

lemma crash_inode_wf: "inode_wf nd \<Longrightarrow> inode_wf (crash_inode junk nd)"
  by (simp add: crash_inode_def inode_wf_def)

lemma fs_wf_iff:
  "fs_wf s \<longleftrightarrow> (\<forall>d v n i. v \<in> set (versions d s) \<longrightarrow> v n = Some i \<longrightarrow> i < f_next s) \<and>
     (\<forall>i. inode_wf (f_inodes s i))"
  by (auto simp: fs_wf_def inode_wf_def)

lemma version_nth [simp]: "versions d s ! (k mod length (versions d s)) \<in> set (versions d s)"
  by (rule nth_mem) (simp add: versions_def)

lemma versions_crash:
  "versions d (crash cc s) = [versions d s ! (cc_version cc d mod length (versions d s))]"
  by (simp add: crash_def versions_def)

lemma fs_wf_crash:
  assumes "fs_wf s"
  shows "fs_wf (crash cc s)"
proof -
  have "i < f_next s" if "v \<in> set (versions e (crash cc s))" "v m = Some i" for e v m i
    using that version_nth [of e s "cc_version cc e"] assms unfolding versions_crash fs_wf_iff
    by (auto simp del: version_nth)
  moreover have "inode_wf (f_inodes (crash cc s) i)" for i
    using assms by (simp add: crash_def fs_wf_iff crash_inode_wf)
  ultimately show ?thesis by (simp add: fs_wf_iff crash_def)
qed

lemma tmp_apart_crash:
  assumes "tmp_apart d n t s"
  shows "tmp_apart d n t (crash cc s)"
proof -
  have "f_names (crash cc s) d = versions d s ! (cc_version cc d mod length (versions d s))"
    by (simp add: crash_def)
  then show ?thesis
    using assms version_nth [of d s "cc_version cc d"] unfolding tmp_apart_def versions_crash
    by (auto simp del: version_nth)
qed

section \<open>Specifications of calls\<close>

text \<open>
  \<open>spec P m Q E\<close>: from a state with \<open>P\<close>, a call that succeeds with \<open>x\<close> ends in a state with \<open>Q x\<close>,
  and one that fails ends in a state with \<open>E\<close>.
\<close>

definition spec :: "(fs \<Rightarrow> bool) \<Rightarrow> 'a io \<Rightarrow> ('a \<Rightarrow> fs \<Rightarrow> bool) \<Rightarrow> (fs \<Rightarrow> bool) \<Rightarrow> bool" where
  "spec P m Q E \<longleftrightarrow> (\<forall>s. P s \<longrightarrow> (case m s of (Inl e, s1) \<Rightarrow> E s1 | (Inr x, s1) \<Rightarrow> Q x s1))"

lemma specI:
  assumes "\<And>s e s1. P s \<Longrightarrow> m s = (Inl e, s1) \<Longrightarrow> E s1" and "\<And>s x s1. P s \<Longrightarrow> m s = (Inr x, s1) \<Longrightarrow> Q x s1"
  shows "spec P m Q E"
  using assms by (auto simp: spec_def split: prod.splits sum.splits)

lemma spec_Inr: "spec P m Q E \<Longrightarrow> P s \<Longrightarrow> m s = (Inr x, s1) \<Longrightarrow> Q x s1"
  by (auto simp: spec_def dest!: spec [of _ s])

lemma spec_Inl: "spec P m Q E \<Longrightarrow> P s \<Longrightarrow> m s = (Inl e, s1) \<Longrightarrow> E s1"
  by (auto simp: spec_def dest!: spec [of _ s])

lemma spec_weaken:
  assumes "spec P m Q E" and "\<And>s. P' s \<Longrightarrow> P s" and "\<And>x s. Q x s \<Longrightarrow> Q' x s" and "\<And>s. E s \<Longrightarrow> E' s"
  shows "spec P' m Q' E'"
  using assms(2-4) spec_Inr [OF assms(1)] spec_Inl [OF assms(1)] by (intro specI) blast+

lemma spec_return: "(\<And>s. P s \<Longrightarrow> Q x s) \<Longrightarrow> spec P (io_return x) Q E"
  by (simp add: spec_def io_return_def)

lemma spec_throw: "(\<And>s. P s \<Longrightarrow> E s) \<Longrightarrow> spec P (io_throw e) Q E"
  by (simp add: spec_def io_throw_def)

lemma spec_lift: "(\<And>s. P s \<Longrightarrow> E s) \<Longrightarrow> (\<And>s x. P s \<Longrightarrow> r = Inr x \<Longrightarrow> Q x s) \<Longrightarrow> spec P (io_lift r) Q E"
  by (cases r) (simp_all add: spec_def io_lift_def)

lemma spec_bind: "spec P m Q E \<Longrightarrow> (\<And>x. spec (Q x) (f x) R E) \<Longrightarrow> spec P (io_bind m f) R E"
  by (fastforce simp: spec_def io_bind_def split: prod.splits sum.splits)

lemma spec_catch: "spec P m Q F \<Longrightarrow> (\<And>e. spec F (h e) Q E) \<Longrightarrow> spec P (io_catch m h) Q E"
  by (fastforce simp: spec_def io_catch_def split: prod.splits sum.splits)

lemma spec_ignore: "spec P m (\<lambda>_. Q) Q \<Longrightarrow> spec P (io_ignore m) (\<lambda>_. Q) E"
proof (rule specI)
  fix s x s1
  assume m: "spec P m (\<lambda>_. Q) Q" and "P s" and "io_ignore m s = (Inr x, s1)"
  then show "Q s1"
    by (cases "m s"; cases "fst (m s)") (auto simp: io_ignore_def dest: spec_Inr [OF m] spec_Inl [OF m])
qed (simp add: io_ignore_def)

lemma spec_if: "(b \<Longrightarrow> spec P m Q E) \<Longrightarrow> (\<not> b \<Longrightarrow> spec P m' Q E) \<Longrightarrow> spec P (if b then m else m') Q E"
  by simp

lemma spec_each:
  assumes "\<And>pre x. spec (Q pre) (f x) (\<lambda>_. Q (pre @ [x])) E"
  shows "spec (Q pre) (io_each f xs) (\<lambda>_. Q (pre @ xs)) E"
proof (induction xs arbitrary: pre)
  case (Cons x xs)
  from Cons [of "pre @ [x]"] show ?case by (auto intro!: spec_bind assms)
qed (auto intro: spec_return)

definition fault_free :: "(fs \<Rightarrow> bool) \<Rightarrow> bool" where
  "fault_free P \<longleftrightarrow> (\<forall>s fl. P s \<longrightarrow> P (s\<lparr>f_faults := fl\<rparr>))"

lemma spec_syscall:
  assumes "fault_free P" and "spec P ok Q E" and "\<And>s k. P s \<Longrightarrow> E (part k s)"
  shows "spec P (syscall ok part) Q E"
  using assms unfolding spec_def syscall_def fault_free_def
  by (auto split: list.splits fault.splits)

lemma spec_check: "fault_free P \<Longrightarrow> spec P fs_check (\<lambda>_. P) P"
  unfolding fs_check_def by (rule spec_syscall) (auto intro: spec_return)

lemma spec_read:
  "fault_free P \<Longrightarrow> spec P (fs_read h) (\<lambda>bs s. P s \<and> bs = i_data (f_inodes s h)) P"
  unfolding fs_read_def by (rule spec_syscall) (auto simp: spec_def)

lemma fault_free_intros [intro, simp]:
  "fault_free (live d n h)" "fault_free (\<lambda>s. f_names s d m = e)"
  "fault_free (\<lambda>s. i_data (f_inodes s h) = c)" "fault_free (\<lambda>s. R (i_data (f_inodes s h)))"
  "fault_free (\<lambda>s. b)" "fault_free (\<lambda>s. f_inodes s h = nd)"
  "fault_free (\<lambda>s. \<forall>v\<in>set (versions d s). v n = Some h)"
  by (simp_all add: fault_free_def)

lemma fault_free_conj [intro, simp]: "fault_free P \<Longrightarrow> fault_free Q \<Longrightarrow> fault_free (\<lambda>s. P s \<and> Q s)"
  by (simp add: fault_free_def)

lemma spec_open_existing:
  assumes "fault_free P"
  shows "spec P (fs_open \<lparr>oo_truncate = False, oo_create = False, oo_create_new = False\<rparr> p)
     (\<lambda>h s. P s \<and> lookup p s = Some h) P"
  unfolding fs_open_def
  by (rule spec_syscall) (use assms in \<open>auto simp: spec_def split: option.splits\<close>)

section \<open>Durable content\<close>

text \<open>
  The content of a file is a set of entries read from its bytes (its complete lines, or the keys of
  its records); appending bytes never removes an entry.
\<close>

locale log_content =
  fixes content :: "bytes \<Rightarrow> 'k set"
  assumes content_mono: "content a \<subseteq> content (a @ b)"
begin

definition lines_in :: "'k set \<Rightarrow> nat option \<Rightarrow> fs \<Rightarrow> bool" where
  "lines_in L e s \<longleftrightarrow>
     (case e of None \<Rightarrow> L = {} | Some i \<Rightarrow> L \<subseteq> content (stable_data (f_inodes s i)))"

definition holds_lines :: "bytes \<Rightarrow> bytes \<Rightarrow> 'k set \<Rightarrow> fs \<Rightarrow> bool" where
  "holds_lines d n L s \<longleftrightarrow> (\<forall>v\<in>set (versions d s). lines_in L (v n) s)"

definition log_ok :: "bytes \<Rightarrow> bytes \<Rightarrow> bytes \<Rightarrow> 'k set \<Rightarrow> fs \<Rightarrow> bool" where
  "log_ok d n t L s \<longleftrightarrow> fs_wf s \<and> tmp_apart d n t s \<and> holds_lines d n L s"

lemma lines_in_simps [simp]:
  "lines_in L None s \<longleftrightarrow> L = {}"
  "lines_in L (Some i) s \<longleftrightarrow> L \<subseteq> content (stable_data (f_inodes s i))"
  by (simp_all add: lines_in_def)

lemma lines_in_frame [simp]:
  "lines_in L e (s\<lparr>f_faults := fl\<rparr>) = lines_in L e s" "lines_in L e (s\<lparr>f_next := k\<rparr>) = lines_in L e s"
  "lines_in L e (s\<lparr>f_olds := os\<rparr>) = lines_in L e s" "lines_in L e (set_entries d es s) = lines_in L e s"
  by (cases e; simp)+

lemma log_ok_faults [simp]: "log_ok d n t L (s\<lparr>f_faults := fl\<rparr>) = log_ok d n t L s"
  by (simp add: log_ok_def fs_wf_def tmp_apart_def holds_lines_def)

lemma log_ok_mono: "log_ok d n t L s \<Longrightarrow> M \<subseteq> L \<Longrightarrow> log_ok d n t M s"
  by (auto simp: log_ok_def holds_lines_def lines_in_def split: option.splits)

lemma log_ok_wf: "log_ok d n t L s \<Longrightarrow> fs_wf s"
  by (simp add: log_ok_def)

lemma fault_free_log_ok [intro, simp]: "fault_free (log_ok d n t L)"
  by (simp add: fault_free_def)

text \<open>An inode whose durable prefix only grows loses no line.\<close>

lemma lines_in_grow:
  assumes "lines_in L e s" and "stable_data nd = stable_data (f_inodes s i) @ bs"
  shows "lines_in L e (set_inode i nd s)"
  using assms content_mono [of "stable_data (f_inodes s i)" bs]
  by (fastforce simp: lines_in_def split: option.splits)

lemma log_ok_grow:
  assumes "log_ok d n t L s" and "inode_wf nd" and "stable_data nd = stable_data (f_inodes s i) @ bs"
  shows "log_ok d n t L (set_inode i nd s)"
  using assms lines_in_grow [OF _ assms(3)]
  by (simp add: log_ok_def fs_wf_set_inode tmp_apart_def holds_lines_def)

lemma log_ok_append: "log_ok d n t L s \<Longrightarrow> log_ok d n t L (set_inode i (append_to bs (f_inodes s i)) s)"
  by (rule log_ok_grow [where bs = "[]"])
     (simp_all add: fs_wf_inode log_ok_wf stable_data_append_to)

lemma log_ok_flushed: "log_ok d n t L s \<Longrightarrow> log_ok d n t L (set_inode i (flushed (f_inodes s i)) s)"
  by (rule log_ok_grow [where bs = "drop (i_stable (f_inodes s i)) (i_data (f_inodes s i))"])
     (simp_all add: flushed_grow del: stable_data_flushed)

text \<open>An inode that is no version of the log may change in any way.\<close>

lemma log_ok_other:
  assumes "log_ok d n t L s" and "inode_wf nd" and "\<And>v. v \<in> set (versions d s) \<Longrightarrow> v n \<noteq> Some i"
  shows "log_ok d n t L (set_inode i nd s)"
proof -
  have "lines_in L (v n) (set_inode i nd s)" if "v \<in> set (versions d s)" for v
  proof -
    from assms(1) that have "lines_in L (v n) s" by (simp add: log_ok_def holds_lines_def)
    then show ?thesis using assms(3) [OF that] by (auto simp: lines_in_def split: option.splits)
  qed
  then show ?thesis using assms by (simp add: log_ok_def fs_wf_set_inode tmp_apart_def holds_lines_def)
qed

text \<open>The log's own inode, with every version of the directory naming it: the lines it then holds.\<close>

lemma log_ok_replace:
  assumes "log_ok d n t L s" and "inode_wf nd" and "\<And>v. v \<in> set (versions d s) \<Longrightarrow> v n = Some i"
    and "M \<subseteq> content (stable_data nd)"
  shows "log_ok d n t M (set_inode i nd s)"
proof -
  have "lines_in M (v n) (set_inode i nd s)" if "v \<in> set (versions d s)" for v
    using assms(3) [OF that] assms(4) by simp
  then show ?thesis
    using assms(1,2) by (simp add: log_ok_def fs_wf_set_inode tmp_apart_def holds_lines_def)
qed

lemma log_ok_entries:
  assumes "log_ok d n t L s" and "\<And>m i. es m = Some i \<Longrightarrow> i < f_next s"
    and "es n = f_names s d n" and "\<And>v i. v \<in> set (versions d s) \<Longrightarrow> v n = Some i \<Longrightarrow> es t \<noteq> Some i"
  shows "log_ok d n t L (set_entries d es s)"
proof -
  have "tmp_apart d n t s" "lines_in L (f_names s d n) s"
    using assms(1) current_version [of s d] by (auto simp: log_ok_def holds_lines_def simp del: current_version)
  then show ?thesis
    using assms assms(4) [OF current_version]
    by (auto simp: log_ok_def fs_wf_set_entries tmp_apart_def holds_lines_def)
qed

lemma log_ok_other_dir:
  assumes "log_ok d n t L s" and "\<And>m i. es m = Some i \<Longrightarrow> i < f_next s" and "e \<noteq> d"
  shows "log_ok d n t L (set_entries e es s)"
  using assms by (auto simp: log_ok_def fs_wf_set_entries tmp_apart_def holds_lines_def)

lemma log_ok_rename:
  assumes "log_ok d n t L s" and "f_names s d t = Some i" and "M \<subseteq> L"
    and "M \<subseteq> content (stable_data (f_inodes s i))"
  shows "log_ok d n t M (set_entries d ((f_names s d)(t := None, n := Some i)) s)"
proof -
  have nt: "n \<noteq> t" and ap: "\<And>v j. v \<in> set (versions d s) \<Longrightarrow> v n = Some j \<Longrightarrow> v t \<noteq> Some j"
    using assms(1) by (auto simp: log_ok_def tmp_apart_def)
  moreover have "holds_lines d n M s"
    using log_ok_mono [OF assms(1,3)] by (simp add: log_ok_def)
  moreover have "fs_wf s" using assms(1) by (simp add: log_ok_def)
  moreover from this have "fs_wf (set_entries d ((f_names s d)(t := None, n := Some i)) s)"
    using assms(2) by (intro fs_wf_set_entries) (auto split: if_splits dest: fs_wf_names)
  ultimately show ?thesis
    using assms(4) by (auto simp: log_ok_def tmp_apart_def holds_lines_def)
qed

lemma log_ok_sync: "log_ok d n t L s \<Longrightarrow> log_ok d n t L (s\<lparr>f_olds := (f_olds s)(e := [])\<rparr>)"
  by (auto simp: log_ok_def fs_wf_sync tmp_apart_def holds_lines_def split: if_splits)

lemma log_ok_next: "log_ok d n t L s \<Longrightarrow> f_next s \<le> k \<Longrightarrow> log_ok d n t L (s\<lparr>f_next := k\<rparr>)"
  by (simp add: log_ok_def fs_wf_next tmp_apart_def holds_lines_def)

lemma log_ok_create_tmp:
  assumes "log_ok d n t L s" and "create_file (Path d t) s = (i, s')"
  shows "log_ok d n t L s' \<and> f_names s' d t = Some i \<and> f_inodes s' i = empty_inode"
proof -
  have i: "i = f_next s" and s': "s' = set_entries d ((f_names s d)(t := Some i)) (set_inode i empty_inode (s\<lparr>f_next := Suc i\<rparr>))"
    using assms(2) by (auto simp: create_file_def Let_def)
  have wf: "fs_wf s" and nt: "n \<noteq> t" using assms(1) by (simp_all add: log_ok_def tmp_apart_def)
  let ?s = "set_inode i empty_inode (s\<lparr>f_next := Suc i\<rparr>)"
  have "log_ok d n t L (s\<lparr>f_next := Suc i\<rparr>)" using log_ok_next [OF assms(1), of "Suc i"] i by simp
  then have "log_ok d n t L ?s"
    using fs_wf_fresh [OF wf] i by (intro log_ok_other) simp_all
  then have "log_ok d n t L (set_entries d ((f_names s d)(t := Some i)) ?s)"
    using fs_wf_names [OF wf] fs_wf_fresh [OF wf] i nt
    by (intro log_ok_entries) (auto split: if_splits dest: less_SucI)
  then show ?thesis by (simp add: s')
qed

lemma log_ok_create_log:
  assumes "log_ok d n t {} s" and "create_file (Path d n) s = (i, s')"
  shows "log_ok d n t {} s' \<and> f_names s' d n = Some i \<and> f_inodes s' i = empty_inode"
proof -
  have i: "i = f_next s" and s': "s' = set_entries d ((f_names s d)(n := Some i)) (set_inode i empty_inode (s\<lparr>f_next := Suc i\<rparr>))"
    using assms(2) by (auto simp: create_file_def Let_def)
  have wf: "fs_wf s" and nt: "n \<noteq> t" and ap: "tmp_apart d n t s" using assms(1) by (simp_all add: log_ok_def tmp_apart_def)
  have "fs_wf s'"
    using fs_wf_names [OF wf] fs_wf_next [OF wf, of "Suc i"] i unfolding s'
    by (intro fs_wf_set_entries fs_wf_set_inode) (auto split: if_splits dest: less_SucI)
  moreover have "tmp_apart d n t s'"
    using ap nt i fs_wf_fresh [OF wf] fs_wf_fresh [OF wf current_version [of s d]]
    by (auto simp: s' tmp_apart_def)
  ultimately show ?thesis
    by (simp add: log_ok_def s' holds_lines_def lines_in_def split: option.splits)
qed

lemma crash_inode_lines:
  "content (stable_data nd) \<subseteq> content (stable_data (crash_inode junk nd))"
  using content_mono [of "stable_data nd" junk] by (simp add: stable_data_crash)

lemma log_ok_crash:
  assumes "log_ok d n t L s"
  shows "log_ok d n t L (crash cc s)"
proof -
  have wf: "fs_wf s" using assms by (simp add: log_ok_def)
  have "fs_wf (crash cc s)" by (rule fs_wf_crash [OF wf])
  moreover have "tmp_apart d n t (crash cc s)" using assms by (simp add: log_ok_def tmp_apart_crash)
  moreover have "holds_lines d n L (crash cc s)"
  proof -
    have "lines_in L e (crash cc s)" if "lines_in L e s" for e
      using that crash_inode_lines
      by (force simp: lines_in_def crash_def split: option.splits)
    then show ?thesis
      using assms version_nth [of d s "cc_version cc d"] unfolding holds_lines_def versions_crash
      by (auto simp: log_ok_def holds_lines_def simp del: version_nth)
  qed
  ultimately show ?thesis by (simp add: log_ok_def)
qed

lemma log_ok_empty: "n \<noteq> t \<Longrightarrow> log_ok d n t {} (empty_fs fl)"
  by (auto simp: log_ok_def fs_wf_def tmp_apart_def holds_lines_def lines_in_def empty_fs_def versions_def
      empty_inode_def)

subsection \<open>Rewriting through the temporary\<close>

text \<open>The temporary file while it is written: its contents so far.\<close>

definition writing :: "bytes \<Rightarrow> bytes \<Rightarrow> bytes \<Rightarrow> 'k set \<Rightarrow> handle \<Rightarrow> bytes \<Rightarrow> fs \<Rightarrow> bool" where
  "writing d n t L f c s \<longleftrightarrow> log_ok d n t L s \<and> f_names s d t = Some f \<and> i_data (f_inodes s f) = c"

lemma fault_free_writing [intro, simp]: "fault_free (writing d n t L f c)"
  by (simp add: writing_def fault_free_def)

lemma writing_truncate:
  assumes "log_ok d n t L s" and "f_names s d t = Some f"
  shows "writing d n t L f [] (set_inode f (truncate_to 0 (f_inodes s f)) s)"
proof -
  have "log_ok d n t L (set_inode f (truncate_to 0 (f_inodes s f)) s)"
    using assms by (intro log_ok_other) (auto simp: log_ok_def fs_wf_inode tmp_apart_def)
  then show ?thesis using assms(2) by (simp add: writing_def truncate_to_def)
qed

lemma writing_create:
  "log_ok d n t L s \<Longrightarrow> create_file (Path d t) s = (f, s1) \<Longrightarrow> writing d n t L f [] s1"
  using log_ok_create_tmp [of d n t L s f s1] by (simp add: writing_def empty_inode_def)

lemma spec_open_tmp:
  "spec (log_ok d n t L) (fs_open \<lparr>oo_truncate = True, oo_create = True, oo_create_new = False\<rparr> (Path d t))
     (\<lambda>f. writing d n t L f []) (log_ok d n t L)"
  unfolding fs_open_def
  by (rule spec_syscall)
     (auto simp: spec_def lookup_def writing_truncate writing_create split: option.splits prod.splits)

lemma spec_write_tmp: "spec (writing d n t L f c) (fs_write_all f bs) (\<lambda>_. writing d n t L f (c @ bs)) (log_ok d n t L)"
  unfolding fs_write_all_def
  by (rule spec_syscall) (auto simp: spec_def writing_def log_ok_append)

lemma spec_write_records:
  "spec (writing d n t L f []) (io_each (fs_write_all f) rs) (\<lambda>_. writing d n t L f (concat rs)) (log_ok d n t L)"
proof -
  have "spec (writing d n t L f (concat [])) (io_each (fs_write_all f) rs) (\<lambda>_. writing d n t L f (concat ([] @ rs))) (log_ok d n t L)"
    by (rule spec_each [where Q = "\<lambda>rs. writing d n t L f (concat rs)"]) (simp add: spec_write_tmp)
  then show ?thesis by simp
qed

lemma spec_sync_tmp:
  "spec (writing d n t L f c) (fs_sync_all f)
     (\<lambda>_ s. writing d n t L f c s \<and> stable_data (f_inodes s f) = c) (log_ok d n t L)"
  unfolding fs_sync_all_def
  by (rule spec_syscall) (auto simp: spec_def writing_def log_ok_flushed)

text \<open>The log's current file and its contents.\<close>

definition current :: "bytes \<Rightarrow> bytes \<Rightarrow> bytes \<Rightarrow> 'k set \<Rightarrow> handle \<Rightarrow> bytes \<Rightarrow> fs \<Rightarrow> bool" where
  "current d n t L f c s \<longleftrightarrow> log_ok d n t L s \<and> f_names s d n = Some f \<and> i_data (f_inodes s f) = c"

lemma fault_free_current [intro, simp]: "fault_free (current d n t L f c)"
  by (simp add: current_def fault_free_def)

lemma spec_rename_tmp:
  assumes "M \<subseteq> L" and "M \<subseteq> content c"
  shows "spec (\<lambda>s. writing d n t L f c s \<and> stable_data (f_inodes s f) = c) (fs_rename d t n)
     (\<lambda>_. current d n t M f c) (log_ok d n t M)"
proof -
  have "current d n t M f c (set_entries d ((f_names s d)(t := None, n := Some f)) s)"
    if "writing d n t L f c s" "stable_data (f_inodes s f) = c" for s
    using that assms log_ok_rename [of d n t L s f M] by (simp add: writing_def current_def)
  then show ?thesis
    unfolding fs_rename_def
    by (intro spec_syscall)
       (auto simp: spec_def writing_def fault_free_def intro: log_ok_mono [OF _ assms(1)] split: option.splits)
qed

lemma spec_sync_dir:
  "spec (current d n t M f c) (fs_sync_dir d)
     (\<lambda>_ s. current d n t M f c s \<and> (\<forall>v\<in>set (versions d s). v n = Some f)) (log_ok d n t M)"
  unfolding fs_sync_dir_def
proof (rule spec_bind)
  show "spec (current d n t M f c) fs_check (\<lambda>_. current d n t M f c) (log_ok d n t M)"
    by (rule spec_weaken [OF spec_check [OF fault_free_current [of d n t M f c]]]) (auto simp: current_def)
qed (rule spec_syscall, auto simp: spec_def current_def log_ok_sync)

lemma log_ok_remove_tmp:
  "log_ok d n t L s \<Longrightarrow> log_ok d n t L (set_entries d ((f_names s d)(t := None)) s)"
  by (rule log_ok_entries) (auto simp: log_ok_def tmp_apart_def intro: fs_wf_names split: if_splits)

lemma spec_remove_tmp: "spec (log_ok d n t L) (fs_remove_file (Path d t)) (\<lambda>_. log_ok d n t L) (log_ok d n t L)"
  unfolding fs_remove_file_def
  by (rule spec_syscall) (auto simp: spec_def lookup_def log_ok_remove_tmp split: option.splits)

end

section \<open>Logs of lines\<close>

text \<open>The lines of a file as its content.\<close>

interpretation lines: log_content "\<lambda>bs. set (complete_lines bs)"
  by unfold_locales (rule complete_lines_mono)

text \<open>After the write and before the sync: the file ends in the new line.\<close>

definition appended :: "bytes \<Rightarrow> bytes \<Rightarrow> bytes \<Rightarrow> bytes set \<Rightarrow> handle \<Rightarrow> bytes \<Rightarrow> fs \<Rightarrow> bool" where
  "appended d n t L h l s \<longleftrightarrow> lines.log_ok d n t L s \<and> (\<forall>v\<in>set (versions d s). v n = Some h) \<and>
     (\<exists>c. i_data (f_inodes s h) = c @ l @ [newline] \<and> terminated c \<and> L \<subseteq> set (complete_lines c))"

lemma fault_free_appended [intro, simp]: "fault_free (appended d n t L h l)"
  by (simp add: fault_free_def appended_def)

lemma live_lines:
  assumes "lines.log_ok d n t L s" and "live d n h s"
  shows "L \<subseteq> set (complete_lines (i_data (f_inodes s h)))"
proof -
  have "lines.lines_in L (Some h) s"
    using assms live_lookup [of d n h s] current_version [of s d]
    by (auto simp: lines.log_ok_def lines.holds_lines_def simp del: lines.lines_in_simps current_version)
  then show ?thesis
    using complete_lines_mono [of "stable_data (f_inodes s h)"] stable_prefix [of "f_inodes s h"]
    by (metis lines.lines_in_simps(2) subset_trans)
qed

lemma appended_write:
  assumes "lines.log_ok d n t L s" and "live d n h s"
  shows "appended d n t L h l (set_inode h (append_to (l @ [newline]) (f_inodes s h)) s)"
  using assms live_lines [OF assms] lines.log_ok_append [OF assms(1)] by (auto simp: appended_def live_def)

lemma appended_sync:
  assumes "appended d n t L h l s" and "newline \<notin> set l"
  shows "lines.log_ok d n t (insert l L) (set_inode h (flushed (f_inodes s h)) s)"
    and "live d n h (set_inode h (flushed (f_inodes s h)) s)"
proof -
  from assms(1) obtain c where c: "i_data (f_inodes s h) = c @ l @ [newline]" "terminated c" "L \<subseteq> set (complete_lines c)"
    and ok: "lines.log_ok d n t L s" and v: "\<And>v. v \<in> set (versions d s) \<Longrightarrow> v n = Some h"
    by (auto simp: appended_def)
  have "complete_lines (c @ l @ [newline]) = complete_lines c @ [l]"
    using c(2) assms(2) by (simp add: complete_lines_append complete_lines_line)
  then show "lines.log_ok d n t (insert l L) (set_inode h (flushed (f_inodes s h)) s)"
    using c v by (intro lines.log_ok_replace [OF ok]) auto
  show "live d n h (set_inode h (flushed (f_inodes s h)) s)"
    using c(1) v by (simp add: live_def)
qed

lemma spec_append_line:
  assumes "newline \<notin> set l"
  shows "spec (\<lambda>s. lines.log_ok d n t L s \<and> live d n h s)
    (io_bind (fs_write_all h (l @ [newline])) (\<lambda>_. io_bind (fs_flush h) (\<lambda>_. fs_sync_all h)))
    (\<lambda>_ s. lines.log_ok d n t (insert l L) s \<and> live d n h s) (lines.log_ok d n t L)"
proof -
  have w: "spec (\<lambda>s. lines.log_ok d n t L s \<and> live d n h s) (fs_write_all h (l @ [newline])) (\<lambda>_. appended d n t L h l) (lines.log_ok d n t L)"
    unfolding fs_write_all_def
    by (rule spec_syscall) (auto simp: spec_def lines.log_ok_append appended_write)
  have y: "spec (appended d n t L h l) (fs_sync_all h) (\<lambda>_ s. lines.log_ok d n t (insert l L) s \<and> live d n h s) (lines.log_ok d n t L)"
    unfolding fs_sync_all_def
    by (rule spec_syscall) (auto simp: spec_def appended_sync [OF _ assms], simp add: appended_def)
  show ?thesis
    by (intro spec_bind [OF w] spec_bind [OF _ y]) (auto simp: fs_flush_def intro: spec_return)
qed

section \<open>Stores over a log\<close>

text \<open>
  A store is opened from the file system and then takes operations; the machine runs one process of
  it at a time. \<open>Start\<close> (re)starts the process, whatever became of the last one; \<open>Crash\<close> is a crash
  of the operating system with the choices it leaves to the environment.
\<close>

datatype 'i event = Start | Do 'i | Crash crash_choice

fun store_step ::
  "'d io \<Rightarrow> ('i \<Rightarrow> 'd \<Rightarrow> fs \<Rightarrow> 'o \<times> 'd \<times> fs) \<Rightarrow> 'i event \<Rightarrow> 'd option \<times> fs \<Rightarrow> 'o option \<times> 'd option \<times> fs"
where
  "store_step opn op Start (d, s) =
     (case opn s of (Inl e, s1) \<Rightarrow> (None, None, s1) | (Inr d1, s1) \<Rightarrow> (None, Some d1, s1))"
| "store_step opn op (Do i) (d, s) =
     (case d of None \<Rightarrow> (None, None, s)
      | Some d0 \<Rightarrow> (let (out, d1, s1) = op i d0 s in (Some out, Some d1, s1)))"
| "store_step opn op (Crash cc) (d, s) = (None, None, crash cc s)"

text \<open>
  The contract of a single-use store. \<open>adds\<close> is the entry an operation reports as accepted, \<open>drops\<close>
  the entries an operation is asked to forget, \<open>key_of\<close> the key of an entry and \<open>known\<close> the entries of
  the in-memory state. An accepted key is new and durable; accepted entries stay known and durable
  until they are dropped.
\<close>

locale log_store = log_content content for content :: "bytes \<Rightarrow> 'k set" +
  fixes d n t :: bytes
    and opn :: "'d io" and op :: "'i \<Rightarrow> 'd \<Rightarrow> fs \<Rightarrow> 'o \<times> 'd \<times> fs"
    and known :: "'d \<Rightarrow> 'k set" and slot :: "'d \<Rightarrow> handle option"
    and adds :: "'i \<Rightarrow> 'o \<Rightarrow> 'k option" and drops :: "'i \<Rightarrow> 'k set" and key_of :: "'k \<Rightarrow> bytes"
    and good :: "'d \<Rightarrow> bool" and canon :: "'k set"
  assumes open_law: "L \<subseteq> canon \<Longrightarrow> spec (log_ok d n t L) opn
      (\<lambda>st s. good st \<and> log_ok d n t L s \<and> L \<subseteq> known st \<and> (\<forall>h. slot st = Some h \<longrightarrow> live d n h s)) (log_ok d n t L)"
    and op_law: "\<lbrakk>L \<subseteq> canon; good st; log_ok d n t L s; L \<subseteq> known st; \<forall>h. slot st = Some h \<longrightarrow> live d n h s; op i st s = (out, st1, s1);
        M = (case adds i out of None \<Rightarrow> L - drops i | Some l \<Rightarrow> insert l L)\<rbrakk>
      \<Longrightarrow> good st1 \<and> log_ok d n t M s1 \<and> M \<subseteq> known st1 \<and> (\<forall>h. slot st1 = Some h \<longrightarrow> live d n h s1)"
    and fresh_law: "\<lbrakk>good st; op i st s = (out, st1, s1); adds i out = Some l\<rbrakk>
      \<Longrightarrow> key_of l \<notin> key_of ` known st \<and> l \<in> canon"
begin

definition protects :: "'k set \<Rightarrow> 'd option \<times> fs \<Rightarrow> bool" where
  "protects L ds = (case ds of (st, s) \<Rightarrow>
     L \<subseteq> canon \<and> log_ok d n t L s \<and>
     (case st of None \<Rightarrow> True
      | Some st1 \<Rightarrow> good st1 \<and> L \<subseteq> known st1 \<and> (\<forall>h. slot st1 = Some h \<longrightarrow> live d n h s)))"

lemma protects_mono:
  assumes "protects L ds" and "M \<subseteq> L"
  shows "protects M ds"
proof -
  obtain st s where ds: "ds = (st, s)" by (cases ds)
  have "M \<subseteq> canon" "log_ok d n t M s"
    using assms log_ok_mono [of d n t L s M] by (auto simp: protects_def ds)
  then show ?thesis
    using assms by (cases st) (auto simp: protects_def ds dest: subsetD)
qed

definition line_of :: "'i event \<Rightarrow> 'o option \<Rightarrow> 'k option" where
  "line_of ev out = (case (ev, out) of (Do i, Some r) \<Rightarrow> adds i r | _ \<Rightarrow> None)"

definition forgotten :: "'i event \<Rightarrow> 'k set" where
  "forgotten ev = (case ev of Do i \<Rightarrow> drops i | _ \<Rightarrow> {})"

lemma protects_step:
  assumes "protects L ds" and "store_step opn op ev ds = (out, ds1)"
  shows "protects (case line_of ev out of None \<Rightarrow> L - forgotten ev | Some l \<Rightarrow> insert l L) ds1"
proof -
  obtain st s where ds: "ds = (st, s)" by (cases ds)
  have ok: "log_ok d n t L s" and ca: "L \<subseteq> canon" using assms(1) by (simp_all add: protects_def ds)
  show ?thesis
  proof (cases ev)
    case Start
    then show ?thesis
      using assms(2) ok ca spec_Inr [OF open_law [OF ca] ok] spec_Inl [OF open_law [OF ca] ok]
      by (cases "opn s"; cases "fst (opn s)") (auto simp: ds line_of_def forgotten_def protects_def)
  next
    case (Crash cc)
    then show ?thesis
      using assms(2) ok ca by (auto simp: ds line_of_def forgotten_def protects_def log_ok_crash)
  next
    case (Do i)
    show ?thesis
    proof (cases st)
      case None
      with Do assms(2) ok ca show ?thesis
        by (auto simp: ds line_of_def forgotten_def protects_def intro: log_ok_mono)
    next
      case (Some st0)
      obtain o1 st1 s1 where o: "op i st0 s = (o1, st1, s1)" by (cases "op i st0 s") auto
      with assms(2) Some Do have "out = Some o1" "ds1 = (Some st1, s1)" by (auto simp: ds)
      moreover have "good st0" "L \<subseteq> known st0" "\<forall>h. slot st0 = Some h \<longrightarrow> live d n h s"
        using assms(1) Some by (simp_all add: ds protects_def)
      moreover have "forgotten ev = drops i" "line_of ev (Some o1) = adds i o1"
        by (simp_all add: forgotten_def line_of_def Do)
      ultimately show ?thesis
        using op_law [OF ca _ ok _ _ o refl] fresh_law [OF _ o] ca
        by (cases "adds i o1") (auto simp: protects_def)
    qed
  qed
qed

text \<open>Protection of one entry lasts until the entry is asked to be forgotten.\<close>

lemma run_protects:
  assumes "protects L ds" and "\<And>ev. ev \<in> set evs \<Longrightarrow> L \<inter> forgotten ev = {}"
  shows "protects L (snd (run (store_step opn op) evs ds))"
  using assms
proof (induction evs arbitrary: ds)
  case (Cons ev evs)
  obtain out ds1 where st: "store_step opn op ev ds = (out, ds1)" by (cases "store_step opn op ev ds")
  have "L \<subseteq> (case line_of ev out of None \<Rightarrow> L - forgotten ev | Some l \<Rightarrow> insert l L)"
    using Cons.prems(2) [of ev] by (auto split: option.splits)
  then have "protects L ds1" by (rule protects_mono [OF protects_step [OF Cons.prems(1) st]])
  then show ?case using Cons st by (simp add: run_Cons del: run.simps(2))
qed simp

text \<open>The key of a protected entry is accepted only after the entry was asked to be forgotten.\<close>

lemma protected_use:
  assumes "protects {l} ds" and "outs = fst (run (store_step opn op) evs ds)" and "j < length evs"
    and "line_of (evs ! j) (outs ! j) = Some l'" and "key_of l = key_of l'"
  shows "\<exists>m<j. l \<in> forgotten (evs ! m)"
proof (rule ccontr)
  assume nf: "\<not> ?thesis"
  let ?r = "run (store_step opn op) (take j evs) ds"
  have p: "protects {l} (snd ?r)"
    using nf assms(3) by (intro run_protects [OF assms(1)]) (auto simp: in_set_conv_nth)
  obtain k where k: "evs ! j = Do k" "outs ! j \<noteq> None" "line_of (Do k) (outs ! j) = Some l'"
    using assms(4) by (auto simp: line_of_def split: event.splits option.splits)
  have "outs ! j = fst (store_step opn op (evs ! j) (snd ?r))"
    using run_nth [OF assms(3), of "store_step opn op" ds] assms(2) by simp
  then obtain st0 s where r: "snd ?r = (Some st0, s)" "outs ! j = Some (fst (op k st0 s))"
    using k by (cases "snd ?r"; cases "fst (snd ?r)") (auto simp: case_prod_unfold Let_def)
  obtain o1 st1 s1 where o1: "op k st0 s = (o1, st1, s1)" by (cases "op k st0 s")
  have "key_of l' \<notin> key_of ` known st0"
    using p k(3) r o1 fresh_law [of st0 k s o1 st1 s1 l'] by (simp add: protects_def line_of_def)
  moreover have "l \<in> known st0" using p r by (auto simp: protects_def)
  ultimately show False using assms(5) imageI [of l "known st0" key_of] by simp
qed

text \<open>Single use: between two acceptances of one key the line of the first was dropped on request.\<close>

lemma single_use:
  assumes "log_ok d n t {} s0" and "outs = fst (run (store_step opn op) evs (None, s0))"
    and "i < j" and "j < length evs"
    and "line_of (evs ! i) (outs ! i) = Some l" and "line_of (evs ! j) (outs ! j) = Some l'"
    and "key_of l = key_of l'"
  shows "\<exists>m. i < m \<and> m < j \<and> l \<in> forgotten (evs ! m)"
proof -
  let ?m = "store_step opn op" and ?a = "take (Suc i) evs" and ?b = "drop (Suc i) evs"
  let ?s = "snd (run ?m (take i evs) (None, s0))"
  obtain out ds1 where st: "?m (evs ! i) ?s = (out, ds1)" by (cases "?m (evs ! i) ?s")
  have i: "i < length evs" using assms(3,4) by simp
  have out: "out = outs ! i" using run_nth [OF i, of ?m "(None, s0)"] st assms(2) by simp
  have "protects {} ?s" using assms(1) by (intro run_protects) (simp_all add: protects_def)
  from protects_step [OF this st] have "protects {l} ds1" using assms(5) out by simp
  moreover have "snd (run ?m ?a (None, s0)) = ds1"
    using st i by (simp add: take_Suc_conv_app_nth run_append)
  ultimately have p: "protects {l} (snd (run ?m ?a (None, s0)))" by simp
  have o: "outs = fst (run ?m ?a (None, s0)) @ fst (run ?m ?b (snd (run ?m ?a (None, s0))))"
    using run_append [of ?m ?a ?b "(None, s0)"] assms(2) by simp
  have l: "length (fst (run ?m ?a (None, s0))) = Suc i" using i by simp
  obtain q where q: "j = Suc i + q" using assms(3) less_iff_Suc_add by auto
  have "\<exists>m<q. l \<in> forgotten (?b ! m)"
    by (rule protected_use [OF p refl _ _ assms(7)]) (use assms(4,6) o l q i in \<open>simp_all add: nth_append\<close>)
  then show ?thesis using q i by auto (metis add_Suc less_add_Suc1 nat_add_left_cancel_less)
qed

end

end
