(* ===== verification/Durable.thy ===== *)
theory Durable
  imports Log_File
begin

text \<open>
  \<open>nil-core/src/durable.rs\<close>: the three restart-safe sets of opaque keys. Each mirrors an in-memory
  set to an append-only file of newline-terminated records; two of them can drop entries by
  rewriting the file through a temporary. A \<open>String\<close> is the list of its bytes, a \<open>HashMap\<close> an
  association list; the mutex makes each call atomic. The partitioned set takes over a legacy file at its
  first start.
\<close>

section \<open>Opening files\<close>

definition open_private :: "path \<Rightarrow> bool \<Rightarrow> handle io" where
  "open_private p app = fs_open \<lparr>oo_truncate = \<not> app, oo_create = True, oo_create_new = False\<rparr> p"

definition open_private_append_existing :: "path \<Rightarrow> handle io" where
  "open_private_append_existing p =
     fs_open \<lparr>oo_truncate = False, oo_create = False, oo_create_new = False\<rparr> p"

definition open_or_create_private_append :: "path \<Rightarrow> (handle \<times> bool) io" where
  "open_or_create_private_append p =
     io_catch (io_bind (open_private_append_existing p) (\<lambda>file. io_return (file, False)))
       (\<lambda>e. if err_kind e = NotFound then
              io_catch
                (io_bind (fs_open \<lparr>oo_truncate = False, oo_create = False, oo_create_new = True\<rparr> p)
                   (\<lambda>file. io_return (file, True)))
                (\<lambda>e2. if err_kind e2 = AlreadyExists then
                         io_bind (open_private_append_existing p) (\<lambda>file. io_return (file, False))
                       else io_throw e2)
            else io_throw e)"

definition durable_parent :: "path \<Rightarrow> bytes" where
  "durable_parent p = (if p_dir p \<noteq> [] then p_dir p else lit ''.'')"

text \<open>An empty directory part and \<open>.\<close> name the same directory; entries are kept under the former.\<close>

definition sync_parent_dir :: "path \<Rightarrow> unit io" where
  "sync_parent_dir p =
     fs_sync_dir (let d = durable_parent p in if d = lit ''.'' then p_dir p else d)"

definition create_parent :: "path \<Rightarrow> unit io" where
  "create_parent p = (if p_dir p \<noteq> [] then fs_check else io_return ())"

section \<open>Records\<close>

definition torn_record :: io_error where
  "torn_record = IoError InvalidData ''has a torn final record''"

definition read_complete_records :: "handle \<Rightarrow> bytes list io" where
  "read_complete_records file =
     io_bind fs_check (\<lambda>_. io_bind (fs_read file) (\<lambda>contents.
       if \<not> utf8_valid contents then io_throw (IoError InvalidData ''stream did not contain valid UTF-8'')
       else if contents = [] then io_return []
       else if last contents \<noteq> newline then io_throw torn_record
       else io_return (split_at newline (butlast contents))))"

definition invalid_record :: "string \<Rightarrow> io_error" where
  "invalid_record reason = IoError InvalidData reason"

text \<open>The result, and the handle slot after the call.\<close>

definition append_record :: "handle option \<Rightarrow> bytes \<Rightarrow> fs \<Rightarrow> (io_error + unit) \<times> handle option \<times> fs" where
  "append_record file record s =
     (let (result, s1) =
        (case file of
           Some h \<Rightarrow> io_bind (fs_write_all h record) (\<lambda>_. io_bind (fs_flush h) (\<lambda>_. fs_sync_all h)) s
         | None \<Rightarrow> io_throw (IoError OtherKind ''durable store has no writable file handle'') s)
      in (result, (case result of Inl _ \<Rightarrow> None | Inr _ \<Rightarrow> file), s1))"

section \<open>The plain set\<close>

record durable_set =
  ds_seen :: "bytes set"
  ds_file :: "handle option"
  ds_path :: "path option"

definition ds_in_memory :: durable_set where
  "ds_in_memory = \<lparr>ds_seen = {}, ds_file = None, ds_path = None\<rparr>"

fun ds_load :: "bytes set \<Rightarrow> bytes list \<Rightarrow> io_error + bytes set" where
  "ds_load seen [] = Inr seen"
| "ds_load seen (key # ks) =
     (if key = [] then Inl (invalid_record ''key is empty'') else ds_load (insert key seen) ks)"

definition ds_open :: "path \<Rightarrow> durable_set io" where
  "ds_open p =
     io_bind (create_parent p) (\<lambda>_.
     io_bind (open_or_create_private_append p) (\<lambda>(file, created).
     io_bind (read_complete_records file) (\<lambda>records.
     io_bind (io_lift (ds_load {} records)) (\<lambda>seen.
     io_bind (if created then fs_sync_all file else io_return ()) (\<lambda>_.
     io_bind (sync_parent_dir p) (\<lambda>_.
     io_return \<lparr>ds_seen = seen, ds_file = Some file, ds_path = Some p\<rparr>))))))"

definition ds_insert :: "bytes \<Rightarrow> durable_set \<Rightarrow> fs \<Rightarrow> (io_error + bool) \<times> durable_set \<times> fs" where
  "ds_insert key d s =
     (if key = [] \<or> newline \<in> set key then
        (Inl (IoError InvalidInput ''durable key must be non-empty and must not contain a newline''), d, s)
      else if key \<in> ds_seen d then (Inr False, d, s)
      else if ds_path d \<noteq> None then
        (case append_record (ds_file d) (key @ [newline]) s of
           (Inl e, file, s1) \<Rightarrow> (Inl e, d\<lparr>ds_file := file\<rparr>, s1)
         | (Inr _, file, s1) \<Rightarrow> (Inr True, d\<lparr>ds_file := file, ds_seen := insert key (ds_seen d)\<rparr>, s1))
      else (Inr True, d\<lparr>ds_seen := insert key (ds_seen d)\<rparr>, s))"

definition ds_contains :: "bytes \<Rightarrow> durable_set \<Rightarrow> bool" where
  "ds_contains key d = (key \<in> ds_seen d)"

definition ds_len :: "durable_set \<Rightarrow> nat" where
  "ds_len d = card (ds_seen d)"

definition ds_is_durable :: "durable_set \<Rightarrow> bool" where
  "ds_is_durable d = (ds_path d \<noteq> None)"

section \<open>The set partitioned by epoch\<close>

definition LEGACY_EPOCH :: u32 where "LEGACY_EPOCH = 0"

abbreviation space :: byte where "space \<equiv> 32"

record epoch_set =
  es_seen :: "(bytes \<times> u32) list"
  es_file :: "handle option"
  es_path :: "path option"

definition es_in_memory :: epoch_set where
  "es_in_memory = \<lparr>es_seen = [], es_file = None, es_path = None\<rparr>"

definition es_parse :: "bytes \<Rightarrow> io_error + (bytes \<times> u32)" where
  "es_parse line =
     bindE (ok_or (invalid_record ''missing epoch separator'') (split_once space line)) (\<lambda>(epoch_text, key).
     if key = [] \<or> space \<in> set key then Inl (invalid_record ''key is empty or contains a space'')
     else bindE (ok_or (invalid_record ''epoch is not a u32'') (parse_u32 epoch_text)) (\<lambda>epoch.
     Inr (key, epoch)))"

text \<open>Inserting a loaded entry: the previous value of the key must not differ.\<close>

definition load_entry :: "string \<Rightarrow> 'k \<Rightarrow> 'v \<Rightarrow> ('k \<times> 'v) list \<Rightarrow> io_error + ('k \<times> 'v) list" where
  "load_entry conflict key v seen =
     (case map_of seen key of
        Some previous \<Rightarrow>
          if previous \<noteq> v then Inl (invalid_record conflict) else Inr (AList.update key v seen)
      | None \<Rightarrow> Inr (AList.update key v seen))"

fun es_load :: "(bytes \<times> u32) list \<Rightarrow> bytes list \<Rightarrow> io_error + (bytes \<times> u32) list" where
  "es_load seen [] = Inr seen"
| "es_load seen (line # ls) =
     bindE (es_parse line) (\<lambda>(key, epoch).
     bindE (load_entry ''key appears under conflicting epochs'' key epoch seen) (\<lambda>seen1. es_load seen1 ls))"

definition es_record :: "u32 \<Rightarrow> bytes \<Rightarrow> bytes" where
  "es_record epoch key = u_to_string epoch @ [space] @ key @ [newline]"

text \<open>The legacy keys folded in, with the number of records appended.\<close>

fun es_fold_legacy ::
  "handle \<Rightarrow> (bytes \<times> u32) list \<Rightarrow> nat \<Rightarrow> bytes list \<Rightarrow> ((bytes \<times> u32) list \<times> nat) io" where
  "es_fold_legacy file seen folded [] = io_return (seen, folded)"
| "es_fold_legacy file seen folded (key # ks) =
     (if key = [] \<or> space \<in> set key then
        io_throw (invalid_record ''legacy key is empty or cannot be represented in the epoch format'')
      else if map_of seen key \<noteq> None then es_fold_legacy file seen folded ks
      else io_bind (fs_write_all file (es_record LEGACY_EPOCH key)) (\<lambda>_.
           es_fold_legacy file (AList.update key LEGACY_EPOCH seen) (folded + 1) ks))"

definition es_migrate :: "handle \<Rightarrow> (bytes \<times> u32) list \<Rightarrow> path \<Rightarrow> ((bytes \<times> u32) list) io" where
  "es_migrate file seen lp =
     io_bind
       (io_catch
          (io_bind (fs_open \<lparr>oo_truncate = False, oo_create = False, oo_create_new = False\<rparr> lp) (\<lambda>f. io_return (Some f)))
          (\<lambda>e. if err_kind e = NotFound then io_return None else io_throw e)) (\<lambda>legacy.
     case legacy of
       None \<Rightarrow> io_return seen
     | Some lf \<Rightarrow>
         io_bind (read_complete_records lf) (\<lambda>records.
         io_bind (es_fold_legacy file seen 0 records) (\<lambda>(seen1, folded).
         io_bind (if folded > 0 then io_bind (fs_flush file) (\<lambda>_. fs_sync_all file) else io_return ()) (\<lambda>_.
         io_bind (io_ignore (fs_rename (p_dir lp) (p_name lp) (p_name lp @ lit ''.migrated''))) (\<lambda>_.
         io_return seen1)))))"

definition es_open :: "path \<Rightarrow> path option \<Rightarrow> epoch_set io" where
  "es_open p legacy_path =
     io_bind (create_parent p) (\<lambda>_.
     io_bind (open_or_create_private_append p) (\<lambda>(file, created).
     io_bind (read_complete_records file) (\<lambda>records.
     io_bind (io_lift (es_load [] records)) (\<lambda>seen.
     io_bind (if created then fs_sync_all file else io_return ()) (\<lambda>_.
     io_bind (sync_parent_dir p) (\<lambda>_.
     io_bind (case legacy_path of None \<Rightarrow> io_return seen | Some lp \<Rightarrow> es_migrate file seen lp) (\<lambda>seen1.
     io_return \<lparr>es_seen = seen1, es_file = Some file, es_path = Some p\<rparr>)))))))"

definition insert_in_epoch ::
  "u32 \<Rightarrow> bytes \<Rightarrow> epoch_set \<Rightarrow> fs \<Rightarrow> (io_error + bool) \<times> epoch_set \<times> fs" where
  "insert_in_epoch epoch key d s =
     (if key = [] \<or> newline \<in> set key \<or> space \<in> set key then
        (Inl (IoError InvalidInput ''epoch-durable key must be non-empty and must not contain a space or newline''), d, s)
      else if map_of (es_seen d) key \<noteq> None then (Inr False, d, s)
      else if es_path d \<noteq> None then
        (case append_record (es_file d) (es_record epoch key) s of
           (Inl e, file, s1) \<Rightarrow> (Inl e, d\<lparr>es_file := file\<rparr>, s1)
         | (Inr _, file, s1) \<Rightarrow>
             (Inr True, d\<lparr>es_file := file, es_seen := AList.update key epoch (es_seen d)\<rparr>, s1))
      else (Inr True, d\<lparr>es_seen := AList.update key epoch (es_seen d)\<rparr>, s))"

definition tmp_name :: "path \<Rightarrow> bytes" where
  "tmp_name p = with_extension (p_name p) (lit ''compact.tmp'')"

definition compact_tmp :: "path \<Rightarrow> path" where
  "compact_tmp p = Path (p_dir p) (tmp_name p)"

text \<open>The closure \<open>compact\<close> of both rewriting operations: the replacement's handle, or an error.\<close>

definition compact :: "path \<Rightarrow> bytes list \<Rightarrow> handle io" where
  "compact p records =
     io_bind (open_private (compact_tmp p) False) (\<lambda>f.
     io_bind (io_each (fs_write_all f) records) (\<lambda>_.
     io_bind (fs_flush f) (\<lambda>_.
     io_bind (fs_sync_all f) (\<lambda>_.
     io_bind (fs_rename (p_dir p) (tmp_name p) (p_name p)) (\<lambda>_.
     io_bind (sync_parent_dir p) (\<lambda>_.
     open_private_append_existing p))))))"

definition compact_or_clean :: "path \<Rightarrow> bytes list \<Rightarrow> handle io" where
  "compact_or_clean p records =
     io_catch (compact p records) (\<lambda>e. io_bind (io_ignore (fs_remove_file (compact_tmp p))) (\<lambda>_. io_throw e))"

definition drop_epochs :: "u32 set \<Rightarrow> epoch_set \<Rightarrow> fs \<Rightarrow> (io_error + nat) \<times> epoch_set \<times> fs" where
  "drop_epochs retained d s =
     (if retained = {} then (Inr 0, d, s)
      else
        (let to_drop = length (filter (\<lambda>(k, e). e \<notin> retained) (es_seen d));
             survivors = filter (\<lambda>(k, e). e \<in> retained) (es_seen d)
         in if to_drop = 0 then (Inr 0, d, s)
         else case es_path d of
           Some p \<Rightarrow>
             (case compact_or_clean p (map (\<lambda>(k, e). es_record e k) survivors) s of
                (Inl e, s1) \<Rightarrow> (Inl e, d\<lparr>es_file := None\<rparr>, s1)
              | (Inr replacement, s1) \<Rightarrow>
                  (Inr to_drop, d\<lparr>es_file := Some replacement, es_seen := survivors\<rparr>, s1))
         | None \<Rightarrow> (Inr to_drop, d\<lparr>es_seen := survivors\<rparr>, s)))"

definition es_contains :: "bytes \<Rightarrow> epoch_set \<Rightarrow> bool" where
  "es_contains key d = (map_of (es_seen d) key \<noteq> None)"

definition es_len :: "epoch_set \<Rightarrow> nat" where
  "es_len d = length (es_seen d)"

section \<open>The set with insertion times\<close>

record timed_set =
  ts_seen :: "(bytes \<times> u64) list"
  ts_file :: "handle option"
  ts_path :: "path option"

datatype timed_insert = Inserted | AlreadyPresent | CapacityReached

definition ts_in_memory :: timed_set where
  "ts_in_memory = \<lparr>ts_seen = [], ts_file = None, ts_path = None\<rparr>"

definition ts_parse :: "bytes \<Rightarrow> io_error + (bytes \<times> u64)" where
  "ts_parse line =
     bindE (ok_or (invalid_record ''missing timestamp separator'') (split_once space line)) (\<lambda>(key, timestamp_text).
     if key = [] \<or> space \<in> set timestamp_text then
       Inl (invalid_record ''key is empty or timestamp contains extra fields'')
     else bindE (ok_or (invalid_record ''timestamp is not a unix-time u64'') (parse_u64 timestamp_text)) (\<lambda>timestamp.
     Inr (key, timestamp)))"

fun ts_load :: "(bytes \<times> u64) list \<Rightarrow> bytes list \<Rightarrow> io_error + (bytes \<times> u64) list" where
  "ts_load seen [] = Inr seen"
| "ts_load seen (line # ls) =
     bindE (ts_parse line) (\<lambda>(key, timestamp).
     bindE (load_entry ''key appears with conflicting timestamps'' key timestamp seen) (\<lambda>seen1. ts_load seen1 ls))"

definition ts_record :: "bytes \<Rightarrow> u64 \<Rightarrow> bytes" where
  "ts_record key t = key @ [space] @ u_to_string t @ [newline]"

definition ts_open :: "path \<Rightarrow> timed_set io" where
  "ts_open p =
     io_bind (create_parent p) (\<lambda>_.
     io_bind (open_or_create_private_append p) (\<lambda>(file, created).
     io_bind (read_complete_records file) (\<lambda>records.
     io_bind (io_lift (ts_load [] records)) (\<lambda>seen.
     io_bind (if created then fs_sync_all file else io_return ()) (\<lambda>_.
     io_bind (sync_parent_dir p) (\<lambda>_.
     io_return \<lparr>ts_seen = seen, ts_file = Some file, ts_path = Some p\<rparr>))))))"

definition insert_with_capacity ::
  "bytes \<Rightarrow> u64 \<Rightarrow> nat option \<Rightarrow> timed_set \<Rightarrow> fs \<Rightarrow> (io_error + timed_insert) \<times> timed_set \<times> fs" where
  "insert_with_capacity key now_unix max_entries d s =
     (if key = [] \<or> newline \<in> set key \<or> space \<in> set key then
        (Inl (IoError InvalidInput ''timed-durable key must be non-empty and must not contain a space or newline''), d, s)
      else if map_of (ts_seen d) key \<noteq> None then (Inr AlreadyPresent, d, s)
      else if (case max_entries of None \<Rightarrow> False | Some capacity \<Rightarrow> length (ts_seen d) \<ge> capacity) then
        (Inr CapacityReached, d, s)
      else if ts_path d \<noteq> None then
        (case append_record (ts_file d) (ts_record key now_unix) s of
           (Inl e, file, s1) \<Rightarrow> (Inl e, d\<lparr>ts_file := file\<rparr>, s1)
         | (Inr _, file, s1) \<Rightarrow>
             (Inr Inserted, d\<lparr>ts_file := file, ts_seen := AList.update key now_unix (ts_seen d)\<rparr>, s1))
      else (Inr Inserted, d\<lparr>ts_seen := AList.update key now_unix (ts_seen d)\<rparr>, s))"

definition ts_insert :: "bytes \<Rightarrow> u64 \<Rightarrow> timed_set \<Rightarrow> fs \<Rightarrow> (io_error + bool) \<times> timed_set \<times> fs" where
  "ts_insert key now_unix d s =
     (case insert_with_capacity key now_unix None d s of
        (Inl e, d1, s1) \<Rightarrow> (Inl e, d1, s1)
      | (Inr Inserted, d1, s1) \<Rightarrow> (Inr True, d1, s1)
      | (Inr AlreadyPresent, d1, s1) \<Rightarrow> (Inr False, d1, s1)
      | (Inr CapacityReached, d1, s1) \<Rightarrow>
          (Inl (IoError OtherKind ''unbounded timed-set insertion unexpectedly reached capacity''), d1, s1))"

definition insert_if_below_capacity ::
  "bytes \<Rightarrow> u64 \<Rightarrow> nat \<Rightarrow> timed_set \<Rightarrow> fs \<Rightarrow> (io_error + timed_insert) \<times> timed_set \<times> fs" where
  "insert_if_below_capacity key now_unix max_entries d s = insert_with_capacity key now_unix (Some max_entries) d s"

definition prune_older_than :: "u64 \<Rightarrow> timed_set \<Rightarrow> fs \<Rightarrow> (io_error + nat) \<times> timed_set \<times> fs" where
  "prune_older_than cutoff d s =
     (let to_drop = length (filter (\<lambda>(k, t). t < cutoff) (ts_seen d));
          survivors = filter (\<lambda>(k, t). t \<ge> cutoff) (ts_seen d)
      in if to_drop = 0 then (Inr 0, d, s)
      else case ts_path d of
        Some p \<Rightarrow>
          (case compact_or_clean p (map (\<lambda>(k, t). ts_record k t) survivors) s of
             (Inl e, s1) \<Rightarrow> (Inl e, d\<lparr>ts_file := None\<rparr>, s1)
           | (Inr replacement, s1) \<Rightarrow>
               (Inr to_drop, d\<lparr>ts_file := Some replacement, ts_seen := survivors\<rparr>, s1))
      | None \<Rightarrow> (Inr to_drop, d\<lparr>ts_seen := survivors\<rparr>, s))"

definition ts_contains :: "bytes \<Rightarrow> timed_set \<Rightarrow> bool" where
  "ts_contains key d = (map_of (ts_seen d) key \<noteq> None)"

definition ts_len :: "timed_set \<Rightarrow> nat" where
  "ts_len d = length (ts_seen d)"

section \<open>Calls on the log\<close>

text \<open>The log of a path, rewritten through its temporary.\<close>

abbreviation log :: "path \<Rightarrow> bytes set \<Rightarrow> fs \<Rightarrow> bool" where
  "log p L \<equiv> lines.log_ok (p_dir p) (p_name p) (tmp_name p) L"

abbreviation open_on :: "path \<Rightarrow> handle option \<Rightarrow> fs \<Rightarrow> bool" where
  "open_on p slot s \<equiv> \<forall>h. slot = Some h \<longrightarrow> live (p_dir p) (p_name p) h s"

lemma no_dot_tail:
  fixes xs bs :: bytes
  assumes "46 \<in> set bs"
  shows "bs \<noteq> rev (takeWhile (\<lambda>b. b \<noteq> 46) xs)"
  using assms set_takeWhileD [of 46 "\<lambda>b. b \<noteq> 46" xs] by auto

text \<open>The temporary never has the log's own name.\<close>

lemma tmp_name_neq: "p_name p \<noteq> tmp_name p"
proof
  define nm where "nm = p_name p"
  define ext where "ext = lit ''compact.tmp''"
  assume "p_name p = tmp_name p"
  then have e: "nm = file_stem nm @ 46 # ext"
    by (simp add: tmp_name_def with_extension_def nm_def ext_def)
  show False
  proof (cases "dropWhile (\<lambda>b. b \<noteq> 46) (rev nm)")
    case Nil
    moreover have "46 \<in> set nm" using arg_cong [OF e, of set] by auto
    ultimately show False by auto
  next
    case (Cons x before)
    then have "rev nm = takeWhile (\<lambda>b. b \<noteq> 46) (rev nm) @ x # before"
      by (metis takeWhile_dropWhile_id)
    then have nm: "nm = rev before @ x # rev (takeWhile (\<lambda>b. b \<noteq> 46) (rev nm))"
      by (metis rev_append rev_rev_ident rev.simps(2) append.assoc append_Cons append_Nil)
    show False
    proof (cases "before = []")
      case True
      then show False using e Cons by (simp add: file_stem_def)
    next
      case False
      then have "file_stem nm = rev before" using Cons by (simp add: file_stem_def)
      with e nm have "ext = rev (takeWhile (\<lambda>b. b \<noteq> 46) (rev nm))"
        by (metis append_same_eq list.inject same_append_eq)
      moreover have "46 \<in> set ext" by (simp add: ext_def lit_def)
      ultimately show False using no_dot_tail [of ext "rev nm"] by simp
    qed
  qed
qed

lemma sync_parent_eq: "sync_parent_dir p = fs_sync_dir (p_dir p)"
  by (simp add: sync_parent_dir_def durable_parent_def Let_def)

lemma append_record_log:
  assumes "newline \<notin> set l" and "log p L s" and "open_on p slot s"
    and "append_record slot (l @ [newline]) s = (r, slot1, s1)"
  shows "case r of Inl _ \<Rightarrow> log p L s1 \<and> slot1 = None
     | Inr _ \<Rightarrow> log p (insert l L) s1 \<and> open_on p slot1 s1"
proof (cases slot)
  case None
  then show ?thesis using assms by (auto simp: append_record_def io_throw_def)
next
  case (Some h)
  note sp = spec_append_line [OF assms(1), of "p_dir p" "p_name p" "tmp_name p" L h]
  have "log p L s \<and> live (p_dir p) (p_name p) h s" using assms(2,3) Some by simp
  from spec_Inr [OF sp this] spec_Inl [OF sp this] show ?thesis
    using assms(4) Some
    by (auto simp: append_record_def Let_def split: prod.splits sum.splits)
qed

text \<open>Opening the log: its handle, its lines, and that appends reach it once the directory is synced.\<close>

lemma log_create:
  assumes "log p L s" and "lookup p s = None" and "create_file p s = (i, s1)"
  shows "log p L s1 \<and> f_names s1 (p_dir p) (p_name p) = Some i"
proof -
  have "L = {}" using assms(1,2) current_version [of s "p_dir p"]
    by (auto simp: lines.log_ok_def lines.holds_lines_def lookup_def simp del: current_version dest: bspec)
  then show ?thesis using lines.log_ok_create_log [of "p_dir p" "p_name p" "tmp_name p" s i s1] assms by simp
qed

lemma spec_open_or_create:
  "spec (log p L) (open_or_create_private_append p)
     (\<lambda>(file, created) s. log p L s \<and> f_names s (p_dir p) (p_name p) = Some file) (log p L)"
proof -
  let ?d = "p_dir p" and ?n = "p_name p"
  have ex: "spec (log p L) (io_bind (open_private_append_existing p) (\<lambda>file. io_return (file, False)))
     (\<lambda>(file, created) s. log p L s \<and> f_names s ?d ?n = Some file) (log p L)"
    unfolding open_private_append_existing_def
    by (rule spec_bind [OF spec_open_existing]) (auto simp: lookup_def intro: spec_return)
  have new: "spec (log p L) (fs_open \<lparr>oo_truncate = False, oo_create = False, oo_create_new = True\<rparr> p)
     (\<lambda>file s. log p L s \<and> f_names s ?d ?n = Some file) (log p L)"
    unfolding fs_open_def
    by (rule spec_syscall) (auto simp: spec_def dest: log_create split: option.splits prod.splits)
  have nw: "spec (log p L)
     (io_bind (fs_open \<lparr>oo_truncate = False, oo_create = False, oo_create_new = True\<rparr> p) (\<lambda>file. io_return (file, True)))
     (\<lambda>(file, created) s. log p L s \<and> f_names s ?d ?n = Some file) (log p L)"
    by (rule spec_bind [OF new]) (auto intro: spec_return)
  show ?thesis
    unfolding open_or_create_private_append_def
    by (rule spec_catch [OF ex], rule spec_if, rule spec_catch [OF nw], rule spec_if, rule ex)
       (auto intro: spec_throw)
qed

lemma records_lines: "bs \<noteq> [] \<Longrightarrow> last bs = newline \<Longrightarrow> split_at newline (butlast bs) = complete_lines bs"
  by (cases bs rule: rev_cases) (simp_all add: complete_lines_def split_at_glue [of _ _ "[newline]"] butlast_append)

lemma spec_read_records:
  assumes "fault_free P"
  shows "spec P (read_complete_records f)
     (\<lambda>ls s. P s \<and> terminated (i_data (f_inodes s f)) \<and> ls = complete_lines (i_data (f_inodes s f))) P"
  unfolding read_complete_records_def
  by (intro spec_bind [OF spec_check [OF assms]] spec_bind [OF spec_read [OF assms]] spec_if spec_throw spec_return)
     (auto simp: records_lines terminated_def)

lemma spec_create_parent: "fault_free P \<Longrightarrow> spec P (create_parent p) (\<lambda>_. P) P"
  by (auto simp: create_parent_def intro: spec_check spec_return)

text \<open>The common start of the three \<open>open\<close> functions, for a loader of the records.\<close>

lemma spec_open_log:
  assumes "\<And>ls seen. load ls = Inr seen \<Longrightarrow> L \<subseteq> set ls \<Longrightarrow> (\<And>l. l \<in> set ls \<Longrightarrow> newline \<notin> set l) \<Longrightarrow> K seen"
    and "\<And>h seen. K seen \<Longrightarrow> spec (\<lambda>s. log p L s \<and> live (p_dir p) (p_name p) h s) (fin h seen) Q (log p L)"
  shows "spec (log p L)
     (io_bind (create_parent p) (\<lambda>_.
      io_bind (open_or_create_private_append p) (\<lambda>(h, created).
      io_bind (read_complete_records h) (\<lambda>records.
      io_bind (io_lift (load records)) (\<lambda>seen.
      io_bind (if created then fs_sync_all h else io_return ()) (\<lambda>_.
      io_bind (sync_parent_dir p) (\<lambda>_. fin h seen))))))) Q (log p L)"
proof -
  let ?d = "p_dir p" and ?n = "p_name p"
  define R where "R h seen s \<longleftrightarrow> log p L s \<and> f_names s ?d ?n = Some h \<and> terminated (i_data (f_inodes s h)) \<and> K seen"
    for h seen s
  define C where "C h s \<longleftrightarrow> log p L s \<and> f_names s ?d ?n = Some h" for h s
  have ffC: "fault_free (C h)" for h by (simp add: C_def fault_free_def)
  have ffR: "fault_free (R h seen)" for h seen by (simp add: R_def fault_free_def)
  have rd: "spec (C h) (read_complete_records h)
     (\<lambda>ls s. C h s \<and> terminated (i_data (f_inodes s h)) \<and> ls = complete_lines (i_data (f_inodes s h))) (log p L)" for h
    by (rule spec_weaken [OF spec_read_records [OF ffC]]) (auto simp: C_def)
  have lines: "L \<subseteq> set (complete_lines (i_data (f_inodes s h)))" if "C h s" for h s
  proof -
    have "lines.lines_in L (Some h) s"
      using that current_version [of s ?d]
      by (auto simp: C_def lines.log_ok_def lines.holds_lines_def simp del: lines.lines_in_simps current_version dest: bspec)
    then show ?thesis
      using complete_lines_mono [of "stable_data (f_inodes s h)"] stable_prefix [of "f_inodes s h"]
      by (metis lines.lines_in_simps(2) subset_trans)
  qed
  have ld: "spec (\<lambda>s. C h s \<and> terminated (i_data (f_inodes s h)) \<and> ls = complete_lines (i_data (f_inodes s h)))
     (io_lift (load ls)) (\<lambda>seen. R h seen) (log p L)" for h ls
    by (rule spec_lift) (use lines assms(1) complete_lines_no_newline in \<open>auto simp: C_def R_def\<close>)
  have sy: "spec (R h seen) (if created then fs_sync_all h else io_return ()) (\<lambda>_. R h seen) (log p L)" for h seen created
  proof (intro spec_if spec_return)
    show "spec (R h seen) (fs_sync_all h) (\<lambda>_. R h seen) (log p L)"
      unfolding fs_sync_all_def
      by (rule spec_syscall) (auto simp: ffR spec_def R_def lines.log_ok_flushed)
  qed
  have dir: "spec (R h seen) (fs_sync_dir ?d) (\<lambda>_ s. log p L s \<and> live ?d ?n h s) (log p L)" if "K seen" for h seen
    unfolding fs_sync_dir_def
  proof (rule spec_bind)
    show "spec (R h seen) fs_check (\<lambda>_. R h seen) (log p L)"
      by (rule spec_weaken [OF spec_check [OF ffR]]) (auto simp: R_def)
  qed (rule spec_syscall, auto simp: spec_def R_def lines.log_ok_sync live_def fault_free_def)
  have dirK: "spec (R h seen) (io_bind (fs_sync_dir ?d) (\<lambda>_. fin h seen)) Q (log p L)" for h seen
  proof (cases "K seen")
    case True
    show ?thesis by (rule spec_bind [OF dir [OF True] assms(2) [OF True]])
  qed (simp add: spec_def R_def)
  have op: "spec (log p L) (open_or_create_private_append p) (\<lambda>(h, created). C h) (log p L)"
    by (rule spec_weaken [OF spec_open_or_create]) (auto simp: C_def)
  have body: "spec ((\<lambda>(h, created). C h) fc) ((\<lambda>(h, created). io_bind (read_complete_records h) (\<lambda>records.
      io_bind (io_lift (load records)) (\<lambda>seen.
      io_bind (if created then fs_sync_all h else io_return ()) (\<lambda>_.
      io_bind (fs_sync_dir ?d) (\<lambda>_. fin h seen))))) fc) Q (log p L)" for fc
  proof (cases fc)
    case (Pair h created)
    show ?thesis
      unfolding Pair prod.case
      by (rule spec_bind [OF rd], rule spec_bind [OF ld], rule spec_bind [OF sy], rule dirK)
  qed
  show ?thesis
    unfolding sync_parent_eq
    by (intro spec_bind [OF spec_create_parent] spec_bind [OF op] body) simp
qed

section \<open>The plain set is a single-use store\<close>

definition ds_adds :: "bytes \<Rightarrow> io_error + bool \<Rightarrow> bytes option" where
  "ds_adds key out = (if out = Inr True then Some key else None)"

lemma ds_load_seen: "ds_load seen ls = Inr seen1 \<Longrightarrow> seen1 = seen \<union> set ls"
  by (induction ls arbitrary: seen) (auto split: if_splits)

lemma ds_insert_law:
  assumes "ds_path st = Some p" and "log p L s" and "L \<subseteq> ds_seen st" and "open_on p (ds_file st) s"
    and "ds_insert k st s = (out, st1, s1)" and "M = (case ds_adds k out of None \<Rightarrow> L - {} | Some l \<Rightarrow> insert l L)"
  shows "ds_path st1 = Some p \<and> log p M s1 \<and> M \<subseteq> ds_seen st1 \<and> open_on p (ds_file st1) s1"
proof (cases "k = [] \<or> newline \<in> set k \<or> k \<in> ds_seen st")
  case True
  with assms show ?thesis by (auto simp: ds_insert_def ds_adds_def split: if_splits)
next
  case False
  obtain r slot1 s2 where a: "append_record (ds_file st) (k @ [newline]) s = (r, slot1, s2)"
    by (cases "append_record (ds_file st) (k @ [newline]) s")
  have "newline \<notin> set k" using False by simp
  from append_record_log [OF this assms(2,4) a] False a assms(1,3,5,6) show ?thesis
    by (auto simp: ds_insert_def ds_adds_def split: sum.splits)
qed

lemma spec_ds_open:
  "spec (log p L) (ds_open p)
     (\<lambda>st s. ds_path st = Some p \<and> log p L s \<and> L \<subseteq> ds_seen st \<and> open_on p (ds_file st) s) (log p L)"
  unfolding ds_open_def
proof (rule spec_open_log [where K = "\<lambda>seen. L \<subseteq> seen"])
  fix h seen assume "L \<subseteq> seen"
  then show "spec (\<lambda>s. log p L s \<and> live (p_dir p) (p_name p) h s)
    (io_return \<lparr>ds_seen = seen, ds_file = Some h, ds_path = Some p\<rparr>)
    (\<lambda>st s. ds_path st = Some p \<and> log p L s \<and> L \<subseteq> ds_seen st \<and> open_on p (ds_file st) s) (log p L)"
    by (intro spec_return) simp
qed (auto dest!: ds_load_seen)

interpretation ds: log_store "\<lambda>bs. set (complete_lines bs)" "p_dir p" "p_name p" "tmp_name p" "ds_open p" ds_insert ds_seen ds_file
  ds_adds "\<lambda>_. {}" "\<lambda>l. l" "\<lambda>d. ds_path d = Some p" UNIV for p
proof (unfold_locales, goal_cases)
  case (1 L)
  show ?case by (rule spec_ds_open)
next
  case (2 L st s i out st1 s1 M)
  then show ?case by (intro ds_insert_law [of st p L s i out st1 s1 M]) simp_all
next
  case (3 st i s out st1 s1 l)
  then show ?case
    by (auto simp: ds_insert_def ds_adds_def split: if_splits sum.splits prod.splits)
qed

section \<open>Rewriting the log\<close>

lemma concat_records: "concat (map (\<lambda>l. l @ [newline]) ls) = unlines ls"
  by (simp add: unlines_def)

lemma spec_compact:
  assumes "records = map (\<lambda>l. l @ [newline]) ls" and "\<And>l. l \<in> set ls \<Longrightarrow> newline \<notin> set l"
    and "M \<subseteq> L" and "M \<subseteq> set ls"
  shows "spec (log p L) (compact_or_clean p records)
    (\<lambda>h s. log p M s \<and> live (p_dir p) (p_name p) h s) (log p M)"
proof -
  let ?d = "p_dir p" and ?n = "p_name p" and ?t = "tmp_name p"
  have lm: "log p L s \<Longrightarrow> log p M s" for s by (rule lines.log_ok_mono [OF _ assms(3)])
  have c: "M \<subseteq> set (complete_lines (concat records))"
    using assms by (simp add: concat_records complete_lines_unlines)
  have op: "spec (log p L) (open_private (compact_tmp p) False) (\<lambda>f. lines.writing ?d ?n ?t L f []) (log p M)"
    unfolding open_private_def compact_tmp_def not_False_eq_True
    by (rule spec_weaken [OF lines.spec_open_tmp [of ?d ?n ?t L]]) (auto simp: lines.writing_def intro: lm)
  have wr: "spec (lines.writing ?d ?n ?t L f []) (io_each (fs_write_all f) records) (\<lambda>_. lines.writing ?d ?n ?t L f (concat records)) (log p M)" for f
    by (rule spec_weaken [OF lines.spec_write_records [of ?d ?n ?t L]]) (auto simp: lines.writing_def intro: lm)
  have sy: "spec (lines.writing ?d ?n ?t L f (concat records)) (fs_sync_all f)
     (\<lambda>_ s. lines.writing ?d ?n ?t L f (concat records) s \<and> stable_data (f_inodes s f) = concat records) (log p M)" for f
    by (rule spec_weaken [OF lines.spec_sync_tmp [of ?d ?n ?t L]]) (auto simp: lines.writing_def intro: lm)
  have ren: "spec (\<lambda>s. lines.writing ?d ?n ?t L f (concat records) s \<and> stable_data (f_inodes s f) = concat records)
     (fs_rename ?d ?t ?n) (\<lambda>_. lines.current ?d ?n ?t M f (concat records)) (log p M)" for f
    by (rule lines.spec_rename_tmp [OF assms(3) c])
  let ?R = "\<lambda>f s. lines.current ?d ?n ?t M f (concat records) s \<and> (\<forall>v\<in>set (versions ?d s). v ?n = Some f)"
  have re: "spec (?R f) (open_private_append_existing p) (\<lambda>h s. log p M s \<and> live ?d ?n h s) (log p M)" for f
  proof -
    have "fault_free (?R f)" by (simp add: fault_free_def lines.current_def)
    from spec_open_existing [OF this, of p] show ?thesis
      unfolding open_private_append_existing_def
      by (rule spec_weaken) (use assms(1) in \<open>auto simp: lines.current_def live_def lookup_def concat_records\<close>)
  qed
  have "spec (log p L) (compact p records) (\<lambda>h s. log p M s \<and> live ?d ?n h s) (log p M)"
    unfolding compact_def sync_parent_eq
    by (rule spec_bind [OF op], rule spec_bind [OF wr], rule spec_bind [OF _ spec_bind [OF sy]],
        unfold fs_flush_def, rule spec_return, assumption)
       (rule spec_bind [OF ren], rule spec_bind [OF lines.spec_sync_dir], rule re)
  moreover have "spec (log p M) (io_bind (io_ignore (fs_remove_file (compact_tmp p))) (\<lambda>_. io_throw e))
     (\<lambda>h s. log p M s \<and> live ?d ?n h s) (log p M)" for e
    unfolding compact_tmp_def
    by (rule spec_bind [OF spec_ignore [OF lines.spec_remove_tmp]]) (auto intro: spec_throw)
  ultimately show ?thesis
    unfolding compact_or_clean_def by (rule spec_catch)
qed

text \<open>The same on one run of the call.\<close>

lemma compact_log:
  assumes "records = map (\<lambda>l. l @ [newline]) ls" and "\<And>l. l \<in> set ls \<Longrightarrow> newline \<notin> set l"
    and "M \<subseteq> L" and "M \<subseteq> set ls" and "log p L s" and "compact_or_clean p records s = (r, s1)"
  shows "log p M s1" and "r = Inr h \<Longrightarrow> live (p_dir p) (p_name p) h s1"
proof -
  note sp = spec_compact [OF assms(1-4), of p]
  show "log p M s1"
    using spec_Inr [OF sp assms(5)] spec_Inl [OF sp assms(5)] assms(6) by (cases r) auto
  show "r = Inr h \<Longrightarrow> live (p_dir p) (p_name p) h s1"
    using spec_Inr [OF sp assms(5)] assms(6) by auto
qed

section \<open>The partitioned set is a single-use store\<close>

definition es_line :: "u32 \<Rightarrow> bytes \<Rightarrow> bytes" where
  "es_line epoch key = u_to_string epoch @ [space] @ key"

definition es_lines :: "bytes set" where
  "es_lines = {es_line e k | e k. k \<noteq> [] \<and> space \<notin> set k \<and> newline \<notin> set k}"

definition es_key :: "bytes \<Rightarrow> bytes" where
  "es_key l = (case split_once space l of None \<Rightarrow> [] | Some (_, k) \<Rightarrow> k)"

datatype epoch_op = InsertInEpoch u32 bytes | DropEpochs "u32 set"

datatype epoch_out = Recorded "io_error + bool" | Dropped "io_error + nat"

fun es_op :: "epoch_op \<Rightarrow> epoch_set \<Rightarrow> fs \<Rightarrow> epoch_out \<times> epoch_set \<times> fs" where
  "es_op (InsertInEpoch e k) d s = (let (r, d1, s1) = insert_in_epoch e k d s in (Recorded r, d1, s1))"
| "es_op (DropEpochs retained) d s = (let (r, d1, s1) = drop_epochs retained d s in (Dropped r, d1, s1))"

fun es_adds :: "epoch_op \<Rightarrow> epoch_out \<Rightarrow> bytes option" where
  "es_adds (InsertInEpoch e k) out = (if out = Recorded (Inr True) then Some (es_line e k) else None)"
| "es_adds (DropEpochs retained) out = None"

fun es_drops :: "epoch_op \<Rightarrow> bytes set" where
  "es_drops (InsertInEpoch e k) = {}"
| "es_drops (DropEpochs retained) = {es_line e k | e k. e \<notin> retained}"

definition es_known :: "epoch_set \<Rightarrow> bytes set" where
  "es_known d = (\<lambda>(k, e). es_line e k) ` set (es_seen d)"

lemma es_record_line: "es_record e k = es_line e k @ [newline]"
  by (simp add: es_record_def es_line_def)

lemma split_es_line: "split_once space (es_line e k) = Some (u_to_string e, k)"
  unfolding es_line_def by (simp add: split_once_append u_to_string_not_in)

lemma es_key_line [simp]: "es_key (es_line e k) = k"
  by (simp add: es_key_def split_es_line)

lemma es_line_newline: "newline \<notin> set k \<Longrightarrow> newline \<notin> set (es_line e k)"
  using u_to_string_not_in [of newline e] by (auto simp: es_line_def)

lemma es_line_inject [simp]: "es_line e k = es_line f l \<longleftrightarrow> e = f \<and> k = l"
proof
  assume "es_line e k = es_line f l"
  then have "Some (u_to_string e, k) = Some (u_to_string f, l)"
    unfolding split_es_line [symmetric] by (rule arg_cong)
  then show "e = f \<and> k = l" by (metis Pair_inject option.inject parse_u_to_string(1))
qed simp

lemma es_parse_line: "k \<noteq> [] \<Longrightarrow> space \<notin> set k \<Longrightarrow> es_parse (es_line e k) = Inr (k, e)"
  by (simp add: es_parse_def split_es_line parse_u_to_string)

lemma load_entry_Inr:
  "load_entry msg k v seen = Inr seen1 \<Longrightarrow>
     map_of seen1 = (map_of seen)(k \<mapsto> v) \<and> (\<forall>w. map_of seen k = Some w \<longrightarrow> w = v) \<and>
     distinct (map fst seen) \<le> distinct (map fst seen1)"
  by (auto simp: load_entry_def AList.update_conv' distinct_update split: option.splits if_splits)

lemma es_load_entries:
  assumes "es_load seen ls = Inr seen1"
  shows "map_of seen \<subseteq>\<^sub>m map_of seen1 \<and> (\<forall>l\<in>set ls. \<forall>k e. es_parse l = Inr (k, e) \<longrightarrow> map_of seen1 k = Some e)"
  using assms
proof (induction ls arbitrary: seen)
  case (Cons l ls)
  then obtain k e seen2 where l: "es_parse l = Inr (k, e)"
    and s2: "load_entry ''key appears under conflicting epochs'' k e seen = Inr seen2" "es_load seen2 ls = Inr seen1"
    by (auto split: prod.splits)
  then have "map_of seen \<subseteq>\<^sub>m map_of seen2" "map_of seen2 k = Some e"
    using load_entry_Inr [OF s2(1)] by (auto simp: map_le_def)
  then show ?case
    using Cons.IH [OF s2(2)] l by (auto simp: map_le_def dom_def)
qed simp

text \<open>What loading and migration keep: every entry, and well-formed keys.\<close>

lemma es_load_known:
  assumes "es_load [] ls = Inr seen" and "L \<subseteq> es_lines" and "L \<subseteq> set ls"
  shows "L \<subseteq> (\<lambda>(k, e). es_line e k) ` set seen"
proof
  fix l assume "l \<in> L"
  then obtain e k where l: "l = es_line e k" "k \<noteq> []" "space \<notin> set k" using assms(2) by (auto simp: es_lines_def)
  with \<open>l \<in> L\<close> assms(3) have "map_of seen k = Some e"
    using conjunct2 [OF es_load_entries [OF assms(1)], rule_format, of l k e] es_parse_line [of k e] by auto
  then show "l \<in> (\<lambda>(k, e). es_line e k) ` set seen"
    using l by (force dest: map_of_SomeD)
qed

lemma es_drops_iff: "es_line e k \<in> es_drops op \<longleftrightarrow> (\<exists>retained. op = DropEpochs retained \<and> e \<notin> retained)"
  by (cases op) auto

lemma insert_in_epoch_law:
  assumes "es_path st = Some p" and "log p L s" and "L \<subseteq> es_known st" and "open_on p (es_file st) s"
    and "insert_in_epoch e k st s = (out, st1, s1)"
    and "M = (if out = Inr True then insert (es_line e k) L else L)"
  shows "es_path st1 = Some p \<and> log p M s1 \<and> M \<subseteq> es_known st1 \<and> open_on p (es_file st1) s1 \<and> es_known st \<subseteq> es_known st1 \<and>
    (out = Inr True \<longrightarrow> k \<noteq> [] \<and> newline \<notin> set k \<and> space \<notin> set k \<and> k \<notin> fst ` set (es_seen st))"
proof (cases "k = [] \<or> newline \<in> set k \<or> space \<in> set k \<or> map_of (es_seen st) k \<noteq> None")
  case True
  with assms show ?thesis by (auto simp: insert_in_epoch_def split: if_splits)
next
  case False
  then have k: "k \<notin> fst ` set (es_seen st)" "newline \<notin> set (es_line e k)"
    by (auto simp: map_of_eq_None_iff es_line_newline)
  obtain r slot1 s2 where a: "append_record (es_file st) (es_line e k @ [newline]) s = (r, slot1, s2)"
    by (cases "append_record (es_file st) (es_line e k @ [newline]) s")
  from append_record_log [OF k(2) assms(2,4) a] False a k assms(1,3,5,6) show ?thesis
    by (auto simp: insert_in_epoch_def es_record_line es_known_def alist_update_new split: sum.splits)
qed

lemma drop_epochs_law:
  assumes "es_path st = Some p" and "log p L s" and "L \<subseteq> es_known st" and "open_on p (es_file st) s"
    and "\<forall>(k, e)\<in>set (es_seen st). newline \<notin> set k"
    and "drop_epochs retained st s = (out, st1, s1)" and "M = L - {es_line e k | e k. e \<notin> retained}"
  shows "es_path st1 = Some p \<and> log p M s1 \<and> M \<subseteq> es_known st1 \<and> open_on p (es_file st1) s1 \<and>
    set (es_seen st1) \<subseteq> set (es_seen st)"
proof (cases "retained = {} \<or> length (filter (\<lambda>(k, e). e \<notin> retained) (es_seen st)) = 0")
  case True
  have "M \<subseteq> L" using assms(7) by blast
  moreover have "st1 = st" "s1 = s" using True assms(6) by (cases "retained = {}"; simp add: drop_epochs_def Let_def)+
  ultimately show ?thesis using assms lines.log_ok_mono [OF assms(2) \<open>M \<subseteq> L\<close>] by auto
next
  case False
  define surv where "surv = filter (\<lambda>(k, e). e \<in> retained) (es_seen st)"
  define ls where "ls = map (\<lambda>(k, e). es_line e k) surv"
  have rec: "map (\<lambda>(k, e). es_record e k) surv = map (\<lambda>l. l @ [newline]) ls"
    by (simp add: ls_def es_record_line case_prod_unfold)
  have nl: "newline \<notin> set l" if "l \<in> set ls" for l
    using that assms(5) es_line_newline by (auto simp: ls_def surv_def)
  have M: "M \<subseteq> L" using assms(7) by blast
  have M2: "M \<subseteq> set ls"
  proof
    fix l assume "l \<in> M"
    then obtain k e where "l = es_line e k" "(k, e) \<in> set (es_seen st)" "e \<in> retained"
      using assms(3,7) by (auto simp: es_known_def)
    then show "l \<in> set ls" by (force simp: ls_def surv_def)
  qed
  obtain r s2 where c: "compact_or_clean p (map (\<lambda>(k, e). es_record e k) surv) s = (r, s2)"
    by (cases "compact_or_clean p (map (\<lambda>(k, e). es_record e k) surv) s")
  note cl = compact_log [OF rec nl M M2 assms(2) c]
  have "drop_epochs retained st s =
    (case r of Inl e \<Rightarrow> (Inl e, st\<lparr>es_file := None\<rparr>, s2)
     | Inr h \<Rightarrow> (Inr (length (filter (\<lambda>(k, e). e \<notin> retained) (es_seen st))), st\<lparr>es_file := Some h, es_seen := surv\<rparr>, s2))"
    using False assms(1) c by (simp add: drop_epochs_def Let_def surv_def split: sum.split)
  then show ?thesis
    using cl M2 assms(1,6) M subset_trans [OF M assms(3)]
    by (auto simp: es_known_def ls_def surv_def split: sum.splits)
qed

subsection \<open>Migration of the legacy file\<close>

definition plain_keys :: "(bytes \<times> 'v) list \<Rightarrow> bool" where
  "plain_keys seen \<longleftrightarrow> (\<forall>(k, v)\<in>set seen. newline \<notin> set k)"

text \<open>The legacy file and the name it is moved to are neither the log nor its temporary.\<close>

definition legacy_apart :: "path \<Rightarrow> path option \<Rightarrow> bool" where
  "legacy_apart p legacy_path = (case legacy_path of None \<Rightarrow> True | Some lp \<Rightarrow>
     p_dir lp = p_dir p \<longrightarrow>
       p_name lp \<noteq> p_name p \<and> p_name lp \<noteq> tmp_name p \<and>
       p_name lp @ lit ''.migrated'' \<noteq> p_name p \<and> p_name lp @ lit ''.migrated'' \<noteq> tmp_name p)"

abbreviation open_log :: "path \<Rightarrow> bytes set \<Rightarrow> handle \<Rightarrow> fs \<Rightarrow> bool" where
  "open_log p L h s \<equiv> log p L s \<and> live (p_dir p) (p_name p) h s"

lemma spec_write_live:
  "spec (open_log p L h) (fs_write_all h (l @ [newline])) (\<lambda>_. open_log p L h) (log p L)"
  unfolding fs_write_all_def
  by (rule spec_syscall) (auto simp: spec_def lines.log_ok_append live_def)

lemma spec_sync_live: "spec (open_log p L h) (fs_sync_all h) (\<lambda>_. open_log p L h) (log p L)"
  unfolding fs_sync_all_def
  by (rule spec_syscall) (auto simp: spec_def lines.log_ok_flushed live_def)

lemma open_log_rename:
  assumes "open_log p L h s" and "legacy_apart p (Some lp)" and "f_names s (p_dir lp) (p_name lp) = Some i"
  shows "open_log p L h (set_entries (p_dir lp) ((f_names s (p_dir lp))(p_name lp := None, p_name lp @ lit ''.migrated'' := Some i)) s)"
proof -
  let ?es = "(f_names s (p_dir lp))(p_name lp := None, p_name lp @ lit ''.migrated'' := Some i)"
  have wf: "fs_wf s" using assms(1) by (simp add: lines.log_ok_def)
  have b: "k < f_next s" if "?es m = Some k" for m k
    using that assms(3) fs_wf_names [OF wf] by (auto split: if_splits)
  show ?thesis
  proof (cases "p_dir lp = p_dir p")
    case True
    have n: "?es (p_name p) = f_names s (p_dir p) (p_name p)" "?es (tmp_name p) = f_names s (p_dir p) (tmp_name p)"
      using assms(2) True by (auto simp: legacy_apart_def)
    have "log p L (set_entries (p_dir p) ?es s)"
      using assms(1) n b by (intro lines.log_ok_entries) (auto simp: lines.log_ok_def tmp_apart_def)
    moreover have "?es (p_name p) = Some h" using n(1) live_lookup assms(1) by auto
    ultimately show ?thesis using assms(1) True by (simp add: live_def)
  next
    case False
    then show ?thesis
      using assms(1) b lines.log_ok_other_dir [of "p_dir p" "p_name p" "tmp_name p" L s ?es "p_dir lp"] by (auto simp: live_def)
  qed
qed

lemma spec_move_aside:
  assumes "legacy_apart p (Some lp)"
  shows "spec (open_log p L h) (fs_rename (p_dir lp) (p_name lp) (p_name lp @ lit ''.migrated''))
    (\<lambda>_. open_log p L h) (open_log p L h)"
  unfolding fs_rename_def
  by (rule spec_syscall) (use open_log_rename [OF _ assms] in \<open>auto simp: spec_def split: option.splits\<close>)

lemma spec_fold_legacy:
  assumes "\<And>k. k \<in> set ks \<Longrightarrow> newline \<notin> set k" and "plain_keys seen"
  shows "spec (open_log p L h) (es_fold_legacy h seen folded ks)
    (\<lambda>(seen1, folded1) s. open_log p L h s \<and> set seen \<subseteq> set seen1 \<and> plain_keys seen1) (log p L)"
  using assms
proof (induction ks arbitrary: seen folded)
  case Nil
  then show ?case by (auto intro: spec_return)
next
  case (Cons k ks)
  show ?case
  proof (cases "k = [] \<or> space \<in> set k \<or> map_of seen k \<noteq> None")
    case True
    then show ?thesis using Cons by (auto intro: spec_throw)
  next
    case False
    define seen2 where "seen2 = AList.update k LEGACY_EPOCH seen"
    have s2: "seen2 = seen @ [(k, LEGACY_EPOCH)]"
      using False by (simp add: seen2_def alist_update_new map_of_eq_None_iff)
    have "plain_keys seen2" using Cons.prems by (auto simp: s2 plain_keys_def)
    moreover have "\<And>l. l \<in> set ks \<Longrightarrow> newline \<notin> set l" using Cons.prems(1) by simp
    ultimately have "spec (open_log p L h) (es_fold_legacy h seen2 (folded + 1) ks)
      (\<lambda>(seen1, folded1) s. open_log p L h s \<and> set seen \<subseteq> set seen1 \<and> plain_keys seen1) (log p L)"
      by (intro spec_weaken [OF Cons.IH]) (auto simp: s2)
    then have "spec (open_log p L h) (io_bind (fs_write_all h (es_record LEGACY_EPOCH k)) (\<lambda>_. es_fold_legacy h seen2 (folded + 1) ks))
      (\<lambda>(seen1, folded1) s. open_log p L h s \<and> set seen \<subseteq> set seen1 \<and> plain_keys seen1) (log p L)"
      unfolding es_record_line by (rule spec_bind [OF spec_write_live])
    then show ?thesis using False by (simp add: seen2_def)
  qed
qed

lemma spec_open_legacy:
  assumes "fault_free P" and "\<And>s. P s \<Longrightarrow> E s"
  shows "spec P
     (io_catch (io_bind (fs_open \<lparr>oo_truncate = False, oo_create = False, oo_create_new = False\<rparr> lp) (\<lambda>f. io_return (Some f)))
       (\<lambda>e. if err_kind e = NotFound then io_return None else io_throw e)) (\<lambda>_. P) E"
proof (rule spec_catch)
  show "spec P (io_bind (fs_open \<lparr>oo_truncate = False, oo_create = False, oo_create_new = False\<rparr> lp)
    (\<lambda>f. io_return (Some f))) (\<lambda>_. P) P"
    by (rule spec_bind [OF spec_open_existing [OF assms(1)]]) (auto intro: spec_return)
qed (auto intro: spec_return spec_throw assms(2))

lemma spec_migrate:
  assumes "legacy_apart p (Some lp)" and "plain_keys seen"
  shows "spec (open_log p L h) (es_migrate h seen lp)
    (\<lambda>seen1 s. open_log p L h s \<and> set seen \<subseteq> set seen1 \<and> plain_keys seen1) (log p L)"
proof -
  let ?Q = "\<lambda>seen1 s. open_log p L h s \<and> set seen \<subseteq> set seen1 \<and> plain_keys seen1"
  have ff: "fault_free (open_log p L h)" by simp
  have rd: "spec (open_log p L h) (read_complete_records lf)
     (\<lambda>ls s. open_log p L h s \<and> ls = complete_lines (i_data (f_inodes s lf))) (log p L)" for lf
    by (rule spec_weaken [OF spec_read_records [OF ff]]) auto
  have fold: "spec (\<lambda>s. open_log p L h s \<and> ls = complete_lines (i_data (f_inodes s lf))) (es_fold_legacy h seen 0 ls)
     (\<lambda>(seen1, folded) s. ?Q seen1 s) (log p L)" for ls lf
  proof (cases "\<exists>bs. ls = complete_lines bs")
    case True
    then have "\<And>k. k \<in> set ls \<Longrightarrow> newline \<notin> set k" by (auto dest: complete_lines_no_newline)
    from spec_fold_legacy [OF this assms(2)] show ?thesis by (rule spec_weaken) auto
  qed (auto simp: spec_def)
  have tail: "spec ((\<lambda>(seen1, folded) s. ?Q seen1 s) sf)
     ((\<lambda>(seen1, folded). io_bind (if folded > 0 then io_bind (fs_flush h) (\<lambda>_. fs_sync_all h) else io_return ()) (\<lambda>_.
        io_bind (io_ignore (fs_rename (p_dir lp) (p_name lp) (p_name lp @ lit ''.migrated''))) (\<lambda>_. io_return seen1))) sf) ?Q (log p L)"
    for sf :: "(bytes \<times> u32) list \<times> nat"
  proof (cases sf)
    case (Pair seen1 folded)
    show ?thesis
    proof (cases "set seen \<subseteq> set seen1 \<and> plain_keys seen1")
      case True
      have "spec (open_log p L h) (if folded > 0 then io_bind (fs_flush h) (\<lambda>_. fs_sync_all h) else io_return ()) (\<lambda>_. open_log p L h) (log p L)"
        unfolding fs_flush_def by (auto intro!: spec_if spec_return spec_bind [OF spec_return spec_sync_live])
      moreover have "spec (open_log p L h) (io_bind (io_ignore (fs_rename (p_dir lp) (p_name lp) (p_name lp @ lit ''.migrated''))) (\<lambda>_. io_return seen1)) ?Q (log p L)"
        by (rule spec_bind [OF spec_ignore [OF spec_move_aside [OF assms(1)]]], rule spec_return) (use True in auto)
      ultimately have "spec (open_log p L h) (io_bind (if folded > 0 then io_bind (fs_flush h) (\<lambda>_. fs_sync_all h) else io_return ()) (\<lambda>_.
        io_bind (io_ignore (fs_rename (p_dir lp) (p_name lp) (p_name lp @ lit ''.migrated''))) (\<lambda>_. io_return seen1))) ?Q (log p L)"
        by (rule spec_bind)
      then show ?thesis unfolding Pair prod.case by (rule spec_weaken) auto
    qed (auto simp: spec_def Pair)
  qed
  have "spec (open_log p L h) (case legacy of None \<Rightarrow> io_return seen | Some lf \<Rightarrow>
         io_bind (read_complete_records lf) (\<lambda>records.
         io_bind (es_fold_legacy h seen 0 records) (\<lambda>(seen1, folded).
         io_bind (if folded > 0 then io_bind (fs_flush h) (\<lambda>_. fs_sync_all h) else io_return ()) (\<lambda>_.
         io_bind (io_ignore (fs_rename (p_dir lp) (p_name lp) (p_name lp @ lit ''.migrated''))) (\<lambda>_.
         io_return seen1))))) ?Q (log p L)" for legacy
  proof (cases legacy)
    case None
    then show ?thesis using assms(2) by (auto intro!: spec_return)
  next
    case (Some lf)
    show ?thesis unfolding Some option.case by (rule spec_bind [OF rd], rule spec_bind [OF fold], rule tail)
  qed
  then show ?thesis unfolding es_migrate_def by (rule spec_bind [OF spec_open_legacy [OF ff, of "log p L"], rotated]) simp
qed

subsection \<open>The contract\<close>

lemma split_once_parts: "split_once c l = Some (a, b) \<Longrightarrow> x \<notin> set l \<Longrightarrow> x \<notin> set a \<and> x \<notin> set b"
  using split_once_Some [of c l a b] by auto

lemma set_alist_update: "set (AList.update k v al) \<subseteq> insert (k, v) (set al)"
  by (induction al) auto

lemma es_load_plain:
  assumes "es_load seen ls = Inr seen1" and "\<And>l. l \<in> set ls \<Longrightarrow> newline \<notin> set l" and "plain_keys seen"
  shows "plain_keys seen1"
  using assms
proof (induction ls arbitrary: seen)
  case (Cons l ls)
  then obtain k e seen2 where l: "es_parse l = Inr (k, e)"
    and s2: "load_entry ''key appears under conflicting epochs'' k e seen = Inr seen2" "es_load seen2 ls = Inr seen1"
    by (auto split: prod.splits)
  have "newline \<notin> set k"
    using l Cons.prems(2) [of l] by (auto simp: es_parse_def split: if_splits dest!: split_once_parts)
  moreover have "set seen2 \<subseteq> insert (k, e) (set seen)"
    using s2(1) set_alist_update [of k e seen] by (auto simp: load_entry_def split: option.splits if_splits)
  ultimately have "plain_keys seen2" using Cons.prems(3) by (auto simp: plain_keys_def)
  with Cons.IH [OF s2(2)] Cons.prems(2) show ?case by simp
qed simp

lemma spec_es_open:
  assumes "legacy_apart p legacy_path" and "L \<subseteq> es_lines"
  shows "spec (log p L) (es_open p legacy_path)
    (\<lambda>st s. (es_path st = Some p \<and> plain_keys (es_seen st)) \<and> log p L s \<and> L \<subseteq> es_known st \<and> open_on p (es_file st) s) (log p L)"
  unfolding es_open_def
proof (rule spec_open_log [where K = "\<lambda>seen. L \<subseteq> (\<lambda>(k, e). es_line e k) ` set seen \<and> plain_keys seen"])
  fix ls seen
  assume ls: "es_load [] ls = Inr seen" "L \<subseteq> set ls" "\<And>l. l \<in> set ls \<Longrightarrow> newline \<notin> set l"
  have "plain_keys seen" by (rule es_load_plain [OF ls(1)]) (use ls(3) in \<open>auto simp: plain_keys_def\<close>)
  then show "L \<subseteq> (\<lambda>(k, e). es_line e k) ` set seen \<and> plain_keys seen"
    using es_load_known [OF ls(1) assms(2) ls(2)] by simp
next
  fix h seen
  assume K: "L \<subseteq> (\<lambda>(k, e). es_line e k) ` set seen \<and> plain_keys seen"
  let ?R = "\<lambda>seen1 s. open_log p L h s \<and> set seen \<subseteq> set seen1 \<and> plain_keys seen1"
  have "spec (open_log p L h) (case legacy_path of None \<Rightarrow> io_return seen | Some lp \<Rightarrow> es_migrate h seen lp) ?R (log p L)"
    using K assms(1) spec_migrate [of p _ seen L h]
    by (cases legacy_path) (auto simp: conj_assoc intro: spec_return)
  moreover have "spec (?R seen1) (io_return \<lparr>es_seen = seen1, es_file = Some h, es_path = Some p\<rparr>)
    (\<lambda>st s. (es_path st = Some p \<and> plain_keys (es_seen st)) \<and> log p L s \<and> L \<subseteq> es_known st \<and> open_on p (es_file st) s) (log p L)" for seen1
    by (rule spec_return) (use K in \<open>auto simp: es_known_def\<close>)
  ultimately show "spec (open_log p L h) (io_bind (case legacy_path of None \<Rightarrow> io_return seen | Some lp \<Rightarrow> es_migrate h seen lp)
      (\<lambda>seen1. io_return \<lparr>es_seen = seen1, es_file = Some h, es_path = Some p\<rparr>))
    (\<lambda>st s. (es_path st = Some p \<and> plain_keys (es_seen st)) \<and> log p L s \<and> L \<subseteq> es_known st \<and> open_on p (es_file st) s) (log p L)"
    by (rule spec_bind)
qed

lemma es_op_law:
  assumes st: "es_path st = Some p \<and> plain_keys (es_seen st)" and "log p L s" and "L \<subseteq> es_known st"
    and "open_on p (es_file st) s" and "es_op i st s = (out, st1, s1)"
    and M: "M = (case es_adds i out of None \<Rightarrow> L - es_drops i | Some l \<Rightarrow> insert l L)"
  shows "(es_path st1 = Some p \<and> plain_keys (es_seen st1)) \<and> log p M s1 \<and> M \<subseteq> es_known st1 \<and> open_on p (es_file st1) s1"
proof (cases i)
  case (InsertInEpoch e k)
  obtain r where r: "insert_in_epoch e k st s = (r, st1, s1)" "out = Recorded r"
    using assms(5) InsertInEpoch by (auto split: prod.splits)
  have "M = (if r = Inr True then insert (es_line e k) L else L)" using M InsertInEpoch r by simp
  note law = insert_in_epoch_law [OF conjunct1 [OF st] assms(2-4) r(1) this]
  have "set (es_seen st1) \<subseteq> insert (k, e) (set (es_seen st)) \<and> (r \<noteq> Inr True \<longrightarrow> es_seen st1 = es_seen st)"
    using r(1) set_alist_update [of k e "es_seen st"]
    by (auto simp: insert_in_epoch_def split: if_splits sum.splits prod.splits)
  then have "plain_keys (es_seen st1)" using st law by (auto simp: plain_keys_def)
  with law show ?thesis by simp
next
  case (DropEpochs retained)
  obtain r where r: "drop_epochs retained st s = (r, st1, s1)"
    using assms(5) DropEpochs by (auto split: prod.splits)
  have "M = L - {es_line e k | e k. e \<notin> retained}" using M DropEpochs by simp
  note law = drop_epochs_law [OF conjunct1 [OF st] assms(2-4) _ r this]
  have "\<forall>(k, e)\<in>set (es_seen st). newline \<notin> set k" using st by (simp add: plain_keys_def)
  from law [OF this] st show ?thesis by (auto simp: plain_keys_def)
qed

lemma es_fresh_law:
  assumes "es_op i st s = (out, st1, s1)" and "es_adds i out = Some l"
  shows "es_key l \<notin> es_key ` es_known st \<and> l \<in> es_lines"
proof (cases i)
  case (InsertInEpoch e k)
  obtain r where r: "insert_in_epoch e k st s = (r, st1, s1)" "out = Recorded r"
    using assms(1) InsertInEpoch by (auto split: prod.splits)
  then have "r = Inr True" "l = es_line e k" using assms(2) InsertInEpoch by (auto split: if_splits)
  moreover from this r have "k \<noteq> [] \<and> newline \<notin> set k \<and> space \<notin> set k \<and> k \<notin> fst ` set (es_seen st)"
    by (auto simp: insert_in_epoch_def map_of_eq_None_iff split: if_splits)
  moreover have "es_key ` es_known st = fst ` set (es_seen st)" by (force simp: es_known_def)
  ultimately show ?thesis by (auto simp: es_lines_def)
qed (use assms(2) in simp)

text \<open>With any legacy path that is apart from the log, the partitioned set meets the contract.\<close>

lemma epoch_store:
  assumes "legacy_apart p legacy_path"
  shows "log_store (\<lambda>bs. set (complete_lines bs)) (p_dir p) (p_name p) (tmp_name p) (es_open p legacy_path) es_op es_known es_file
    es_adds es_drops es_key (\<lambda>d. es_path d = Some p \<and> plain_keys (es_seen d)) es_lines"
proof (unfold_locales, goal_cases)
  case (1 L)
  then show ?case by (rule spec_es_open [OF assms])
next
  case (2 L st s i out st1 s1 M)
  then show ?case by (intro es_op_law) simp_all
next
  case (3 st i s out st1 s1 l)
  then show ?case by (intro es_fresh_law) simp_all
qed

subsection \<open>The first start on a machine with a legacy file\<close>

text \<open>A log that is not there is created empty by a successful open, and appends reach it.\<close>

abbreviation new_log :: "path \<Rightarrow> fs \<Rightarrow> bool" where
  "new_log p s \<equiv> log p {} s \<and> lookup p s = None"

lemma spec_create_new:
  "spec (new_log p) (open_or_create_private_append p)
     (\<lambda>(h, created) s. log p {} s \<and> f_names s (p_dir p) (p_name p) = Some h \<and> i_data (f_inodes s h) = []) (\<lambda>_. True)"
proof -
  let ?Q = "\<lambda>h s. log p {} s \<and> f_names s (p_dir p) (p_name p) = Some h \<and> i_data (f_inodes s h) = []"
  have ff: "fault_free (new_log p)" by (simp add: fault_free_def lookup_def)
  have ex: "spec (new_log p) (io_bind (open_private_append_existing p) (\<lambda>h. io_return (h, False))) (\<lambda>(h, created). ?Q h) (new_log p)"
    unfolding open_private_append_existing_def
    by (rule spec_bind [OF spec_open_existing [OF ff]]) (auto simp: spec_def)
  have Q: "?Q i s1" if "new_log p s" "create_file p s = (i, s1)" for s i s1
  proof -
    have "f_inodes s1 i = empty_inode" using that(2) by (auto simp: create_file_def Let_def)
    then show ?thesis using log_create [of p "{}" s i s1] that by (simp add: empty_inode_def)
  qed
  have "spec (new_log p) (fs_open \<lparr>oo_truncate = False, oo_create = False, oo_create_new = True\<rparr> p) ?Q (new_log p)"
    unfolding fs_open_def
    by (rule spec_syscall [OF ff]) (auto simp: spec_def split: prod.splits dest: Q [OF conjI])
  then have nw: "spec (new_log p)
     (io_bind (fs_open \<lparr>oo_truncate = False, oo_create = False, oo_create_new = True\<rparr> p) (\<lambda>h. io_return (h, True)))
     (\<lambda>(h, created). ?Q h) (new_log p)"
    by (rule spec_bind) (auto intro: spec_return)
  have ex1: "spec (new_log p) (io_bind (open_private_append_existing p) (\<lambda>h. io_return (h, False))) (\<lambda>(h, created). ?Q h) (\<lambda>_. True)"
    by (rule spec_weaken [OF ex]) auto
  show ?thesis
    unfolding open_or_create_private_append_def
    by (rule spec_catch [OF ex], rule spec_if, rule spec_catch [OF nw], rule spec_if, rule ex1) (auto intro: spec_throw)
qed

lemma spec_open_new:
  assumes "load [] = Inr seen" and "\<And>h. spec (\<lambda>s. open_log p {} h s \<and> i_data (f_inodes s h) = []) (fin h seen) Q (\<lambda>_. True)"
  shows "spec (new_log p)
     (io_bind (create_parent p) (\<lambda>_.
      io_bind (open_or_create_private_append p) (\<lambda>(h, created).
      io_bind (read_complete_records h) (\<lambda>records.
      io_bind (io_lift (load records)) (\<lambda>seen.
      io_bind (if created then fs_sync_all h else io_return ()) (\<lambda>_.
      io_bind (sync_parent_dir p) (\<lambda>_. fin h seen))))))) Q (\<lambda>_. True)"
proof -
  define C where "C h s \<longleftrightarrow> log p {} s \<and> f_names s (p_dir p) (p_name p) = Some h \<and> i_data (f_inodes s h) = []" for h s
  have ffC: "fault_free (C h)" for h by (simp add: C_def fault_free_def)
  have ff: "fault_free (new_log p)" by (simp add: fault_free_def lookup_def)
  have cp: "spec (new_log p) (create_parent p) (\<lambda>_. new_log p) (\<lambda>_. True)"
    unfolding create_parent_def by (intro spec_if spec_return spec_weaken [OF spec_check [OF ff]]) auto
  have rd: "spec (C h) (read_complete_records h) (\<lambda>ls s. C h s \<and> ls = []) (\<lambda>_. True)" for h
    by (rule spec_weaken [OF spec_read_records [OF ffC]]) (auto simp: C_def complete_lines_def)
  have ld: "spec (\<lambda>s. C h s \<and> ls = []) (io_lift (load ls)) (\<lambda>seen1 s. C h s \<and> seen1 = seen) (\<lambda>_. True)" for h ls
    by (rule spec_lift) (use assms(1) in auto)
  have sy: "spec (\<lambda>s. C h s \<and> seen1 = seen) (if created then fs_sync_all h else io_return ()) (\<lambda>_ s. C h s \<and> seen1 = seen) (\<lambda>_. True)"
    for h seen1 created
  proof (intro spec_if spec_return)
    show "spec (\<lambda>s. C h s \<and> seen1 = seen) (fs_sync_all h) (\<lambda>_ s. C h s \<and> seen1 = seen) (\<lambda>_. True)"
      unfolding fs_sync_all_def
      by (rule spec_syscall) (auto simp: spec_def C_def lines.log_ok_flushed fault_free_def)
  qed simp
  have dir: "spec (\<lambda>s. C h s \<and> seen1 = seen) (fs_sync_dir (p_dir p))
      (\<lambda>_ s. (open_log p {} h s \<and> i_data (f_inodes s h) = []) \<and> seen1 = seen) (\<lambda>_. True)" for h seen1
    unfolding fs_sync_dir_def
  proof (rule spec_bind)
    show "spec (\<lambda>s. C h s \<and> seen1 = seen) fs_check (\<lambda>_ s. C h s \<and> seen1 = seen) (\<lambda>_. True)"
      by (rule spec_weaken [OF spec_check]) (auto simp: C_def fault_free_def)
  qed (rule spec_syscall, auto simp: spec_def C_def lines.log_ok_sync live_def fault_free_def)
  have fin: "spec (\<lambda>s. (open_log p {} h s \<and> i_data (f_inodes s h) = []) \<and> seen1 = seen) (fin h seen1) Q (\<lambda>_. True)" for h seen1
    using assms(2) [of h] by (cases "seen1 = seen") (auto simp: spec_def)
  have body: "spec ((\<lambda>(h, created). C h) fc) ((\<lambda>(h, created). io_bind (read_complete_records h) (\<lambda>records.
      io_bind (io_lift (load records)) (\<lambda>seen.
      io_bind (if created then fs_sync_all h else io_return ()) (\<lambda>_.
      io_bind (fs_sync_dir (p_dir p)) (\<lambda>_. fin h seen))))) fc) Q (\<lambda>_. True)" for fc
  proof (cases fc)
    case (Pair h created)
    show ?thesis
      unfolding Pair prod.case
      by (rule spec_bind [OF rd], rule spec_bind [OF ld], rule spec_bind [OF sy], rule spec_bind [OF dir fin])
  qed
  have op: "spec (new_log p) (open_or_create_private_append p) (\<lambda>(h, created). C h) (\<lambda>_. True)"
    by (rule spec_weaken [OF spec_create_new]) (auto simp: C_def)
  show ?thesis
    unfolding sync_parent_eq by (intro spec_bind [OF cp] spec_bind [OF op] body)
qed

text \<open>
  Folding into the empty log: it holds the records of the keys folded so far, each of them under the
  legacy epoch and none of them synced yet.
\<close>

definition legacy_seen :: "(bytes \<times> u32) list \<Rightarrow> bool" where
  "legacy_seen seen \<longleftrightarrow> (\<forall>(k, e)\<in>set seen. e = LEGACY_EPOCH \<and> k \<noteq> [] \<and> space \<notin> set k \<and> newline \<notin> set k)"

abbreviation folding :: "path \<Rightarrow> (bytes \<times> u32) list \<Rightarrow> handle \<Rightarrow> fs \<Rightarrow> bool" where
  "folding p seen h s \<equiv> open_log p {} h s \<and> i_data (f_inodes s h) = unlines (map (\<lambda>(k, e). es_line e k) seen)"

lemma spec_fold_new:
  assumes "\<And>k. k \<in> set ks \<Longrightarrow> newline \<notin> set k" and "legacy_seen seen" and "folded = length seen"
  shows "spec (folding p seen h) (es_fold_legacy h seen folded ks)
    (\<lambda>(seen1, folded1) s. folding p seen1 h s \<and> legacy_seen seen1 \<and> folded1 = length seen1) (\<lambda>_. True)"
  using assms
proof (induction ks arbitrary: seen folded)
  case Nil
  then show ?case by (auto intro: spec_return)
next
  case (Cons k ks)
  show ?case
  proof (cases "k = [] \<or> space \<in> set k \<or> map_of seen k \<noteq> None")
    case True
    then show ?thesis using Cons by (auto intro: spec_throw)
  next
    case False
    define seen2 where "seen2 = AList.update k LEGACY_EPOCH seen"
    have s2: "seen2 = seen @ [(k, LEGACY_EPOCH)]"
      using False by (simp add: seen2_def alist_update_new map_of_eq_None_iff)
    have w: "spec (folding p seen h) (fs_write_all h (es_record LEGACY_EPOCH k)) (\<lambda>_. folding p seen2 h) (\<lambda>_. True)"
      unfolding fs_write_all_def es_record_line
      by (rule spec_syscall) (auto simp: spec_def lines.log_ok_append live_def fault_free_def s2)
    have "legacy_seen seen2" using Cons.prems False by (auto simp: s2 legacy_seen_def)
    moreover have "folded + 1 = length seen2" using Cons.prems(3) by (simp add: s2)
    ultimately have "spec (folding p seen2 h) (es_fold_legacy h seen2 (folded + 1) ks)
      (\<lambda>(seen1, folded1) s. folding p seen1 h s \<and> legacy_seen seen1 \<and> folded1 = length seen1) (\<lambda>_. True)"
      using Cons.prems(1) by (intro Cons.IH) auto
    then show ?thesis using False spec_bind [OF w] by (simp add: seen2_def)
  qed
qed

lemma legacy_seen_lines: "legacy_seen seen \<Longrightarrow> l \<in> set (map (\<lambda>(k, e). es_line e k) seen) \<Longrightarrow> newline \<notin> set l \<and> l \<in> es_lines"
  by (auto simp: legacy_seen_def es_lines_def es_line_newline)

lemma spec_sync_folded:
  assumes "legacy_seen seen"
  shows "spec (folding p seen h) (fs_sync_all h) (\<lambda>_. open_log p ((\<lambda>(k, e). es_line e k) ` set seen) h) (\<lambda>_. True)"
proof -
  let ?ls = "map (\<lambda>(k, e). es_line e k) seen"
  have c: "set (complete_lines (unlines ?ls)) = (\<lambda>(k, e). es_line e k) ` set seen"
    using complete_lines_unlines [of ?ls] legacy_seen_lines [OF assms] by simp
  have "log p ((\<lambda>(k, e). es_line e k) ` set seen) (set_inode h (flushed (f_inodes s h)) s)" if "folding p seen h s" for s
    using that c by (intro lines.log_ok_replace [of _ _ _ "{}"]) (auto simp: live_def)
  then show ?thesis
    unfolding fs_sync_all_def
    by (intro spec_syscall) (auto simp: spec_def live_def fault_free_def)
qed

lemma spec_migrate_new:
  assumes "legacy_apart p (Some lp)"
  shows "spec (folding p [] h) (es_migrate h [] lp)
    (\<lambda>seen1 s. legacy_seen seen1 \<and> open_log p ((\<lambda>(k, e). es_line e k) ` set seen1) h s) (\<lambda>_. True)"
proof -
  let ?Q = "\<lambda>seen1 s. legacy_seen seen1 \<and> open_log p ((\<lambda>(k, e). es_line e k) ` set seen1) h s"
  have ff: "fault_free (folding p [] h)" by (simp add: fault_free_def)
  have rd: "spec (folding p [] h) (read_complete_records lf) (\<lambda>ls s. folding p [] h s \<and> (\<forall>l\<in>set ls. newline \<notin> set l)) (\<lambda>_. True)" for lf
    by (rule spec_weaken [OF spec_read_records [OF ff]]) (auto dest: complete_lines_no_newline)
  have fold: "spec (\<lambda>s. folding p [] h s \<and> (\<forall>l\<in>set ls. newline \<notin> set l)) (es_fold_legacy h [] 0 ls)
     (\<lambda>(seen1, folded) s. folding p seen1 h s \<and> legacy_seen seen1 \<and> folded = length seen1) (\<lambda>_. True)" for ls
  proof (cases "\<forall>l\<in>set ls. newline \<notin> set l")
    case True
    then show ?thesis by (intro spec_weaken [OF spec_fold_new [of ls "[]" 0 p h]]) (auto simp: legacy_seen_def)
  qed (auto simp: spec_def)
  have sync: "spec (\<lambda>s. folding p seen1 h s \<and> legacy_seen seen1 \<and> folded = length seen1)
     (if folded > 0 then io_bind (fs_flush h) (\<lambda>_. fs_sync_all h) else io_return ()) (\<lambda>_. ?Q seen1) (\<lambda>_. True)" for seen1 folded
  proof (cases "legacy_seen seen1 \<and> folded = length seen1")
    case True
    have "spec (folding p seen1 h) (io_bind (fs_flush h) (\<lambda>_. fs_sync_all h)) (\<lambda>_. ?Q seen1) (\<lambda>_. True)"
      unfolding fs_flush_def
      by (rule spec_bind [OF spec_return], assumption, rule spec_weaken [OF spec_sync_folded]) (use True in auto)
    then have "spec (\<lambda>s. folding p seen1 h s \<and> legacy_seen seen1 \<and> folded = length seen1)
        (io_bind (fs_flush h) (\<lambda>_. fs_sync_all h)) (\<lambda>_. ?Q seen1) (\<lambda>_. True)"
      by (rule spec_weaken) auto
    then show ?thesis by (rule spec_if) (auto intro!: spec_return)
  qed (auto simp: spec_def)
  have tail: "spec (\<lambda>s. ?Q seen1 s) (io_bind (io_ignore (fs_rename (p_dir lp) (p_name lp) (p_name lp @ lit ''.migrated''))) (\<lambda>_. io_return seen1))
      ?Q (\<lambda>_. True)" for seen1
  proof (cases "legacy_seen seen1")
    case True
    have "spec (open_log p ((\<lambda>(k, e). es_line e k) ` set seen1) h)
       (io_bind (io_ignore (fs_rename (p_dir lp) (p_name lp) (p_name lp @ lit ''.migrated''))) (\<lambda>_. io_return seen1)) ?Q (\<lambda>_. True)"
      by (rule spec_bind [OF spec_ignore [OF spec_move_aside [OF assms]]], rule spec_return) (use True in auto)
    then show ?thesis by (rule spec_weaken) auto
  qed (simp add: spec_def)
  have "spec (folding p [] h) (case legacy of None \<Rightarrow> io_return [] | Some lf \<Rightarrow>
         io_bind (read_complete_records lf) (\<lambda>records.
         io_bind (es_fold_legacy h [] 0 records) (\<lambda>(seen1, folded).
         io_bind (if folded > 0 then io_bind (fs_flush h) (\<lambda>_. fs_sync_all h) else io_return ()) (\<lambda>_.
         io_bind (io_ignore (fs_rename (p_dir lp) (p_name lp) (p_name lp @ lit ''.migrated''))) (\<lambda>_.
         io_return seen1))))) ?Q (\<lambda>_. True)" for legacy
  proof (cases legacy)
    case (Some lf)
    have "spec ((\<lambda>(seen1, folded) s. folding p seen1 h s \<and> legacy_seen seen1 \<and> folded = length seen1) sf)
        ((\<lambda>(seen1, folded). io_bind (if folded > 0 then io_bind (fs_flush h) (\<lambda>_. fs_sync_all h) else io_return ()) (\<lambda>_.
         io_bind (io_ignore (fs_rename (p_dir lp) (p_name lp) (p_name lp @ lit ''.migrated''))) (\<lambda>_. io_return seen1))) sf) ?Q (\<lambda>_. True)"
      for sf :: "(bytes \<times> u32) list \<times> nat"
      by (cases sf) (simp only: prod.case, rule spec_bind [OF sync tail])
    then show ?thesis unfolding Some option.case by (rule spec_bind [OF rd spec_bind [OF fold]])
  qed (auto intro: spec_return simp: legacy_seen_def)
  then show ?thesis unfolding es_migrate_def by (rule spec_bind [OF spec_open_legacy [OF ff, of "\<lambda>_. True"], rotated]) simp
qed

text \<open>After the first start every key of the set is in the log to stay.\<close>

lemma spec_es_open_new:
  assumes "legacy_apart p legacy_path"
  shows "spec (new_log p) (es_open p legacy_path)
    (\<lambda>st s. es_path st = Some p \<and> legacy_seen (es_seen st) \<and> log p (es_known st) s \<and> open_on p (es_file st) s) (\<lambda>_. True)"
  unfolding es_open_def
proof (rule spec_open_new [where seen = "[]"])
  fix h
  have m: "spec (folding p [] h) (case legacy_path of None \<Rightarrow> io_return [] | Some lp \<Rightarrow> es_migrate h [] lp)
     (\<lambda>seen1 s. legacy_seen seen1 \<and> open_log p ((\<lambda>(k, e). es_line e k) ` set seen1) h s) (\<lambda>_. True)"
    using assms spec_migrate_new [of p _ h] by (cases legacy_path) (auto simp: legacy_seen_def intro: spec_return)
  have m1: "spec (\<lambda>s. open_log p {} h s \<and> i_data (f_inodes s h) = [])
     (case legacy_path of None \<Rightarrow> io_return [] | Some lp \<Rightarrow> es_migrate h [] lp)
     (\<lambda>seen1 s. legacy_seen seen1 \<and> open_log p ((\<lambda>(k, e). es_line e k) ` set seen1) h s) (\<lambda>_. True)"
    by (rule spec_weaken [OF m]) auto
  show "spec (\<lambda>s. open_log p {} h s \<and> i_data (f_inodes s h) = [])
     (io_bind (case legacy_path of None \<Rightarrow> io_return [] | Some lp \<Rightarrow> es_migrate h [] lp)
       (\<lambda>seen1. io_return \<lparr>es_seen = seen1, es_file = Some h, es_path = Some p\<rparr>))
     (\<lambda>st s. es_path st = Some p \<and> legacy_seen (es_seen st) \<and> log p (es_known st) s \<and> open_on p (es_file st) s) (\<lambda>_. True)"
    by (rule spec_bind [OF m1]) (auto simp: es_known_def intro!: spec_return)
qed simp

lemma legacy_protected:
  assumes "legacy_apart p legacy_path" and "log p {} s0" and "lookup p s0 = None"
    and "es_open p legacy_path s0 = (Inr st, s1)" and "k \<in> fst ` set (es_seen st)"
  shows "log_store.protects (\<lambda>bs. set (complete_lines bs)) (p_dir p) (p_name p) (tmp_name p) es_known es_file
    (\<lambda>d. es_path d = Some p \<and> plain_keys (es_seen d)) es_lines {es_line LEGACY_EPOCH k} (Some st, s1)"
proof -
  have o: "es_path st = Some p" "legacy_seen (es_seen st)" "log p (es_known st) s1" "open_on p (es_file st) s1"
    using spec_Inr [OF spec_es_open_new [OF assms(1)] _ assms(4)] assms(2,3) by blast+
  have k: "es_line LEGACY_EPOCH k \<in> es_known st" "es_line LEGACY_EPOCH k \<in> es_lines"
    using assms(5) o(2) by (force simp: es_known_def legacy_seen_def es_lines_def)+
  have "plain_keys (es_seen st)" using o(2) by (auto simp: legacy_seen_def plain_keys_def)
  moreover have "log p {es_line LEGACY_EPOCH k} s1" using lines.log_ok_mono [OF o(3)] k(1) by blast
  ultimately show ?thesis
    using k o by (simp add: log_store.protects_def [OF epoch_store [OF assms(1)]])
qed

lemma epoch_forgotten:
  assumes "legacy_apart p legacy_path" and "es_line e k \<in> log_store.forgotten es_drops ev"
  shows "\<exists>retained. ev = Do (DropEpochs retained) \<and> e \<notin> retained"
  using assms(2) unfolding log_store.forgotten_def [OF epoch_store [OF assms(1)]] by (cases ev) (auto simp: es_drops_iff)

section \<open>The timed set is a single-use store\<close>

definition ts_line :: "bytes \<Rightarrow> u64 \<Rightarrow> bytes" where
  "ts_line key t = key @ [space] @ u_to_string t"

definition field_keys :: "(bytes \<times> 'v) list \<Rightarrow> bool" where
  "field_keys seen \<longleftrightarrow> (\<forall>(k, v)\<in>set seen. newline \<notin> set k \<and> space \<notin> set k)"

definition ts_lines :: "bytes set" where
  "ts_lines = {ts_line k t | k t. k \<noteq> [] \<and> space \<notin> set k \<and> newline \<notin> set k}"

definition ts_key :: "bytes \<Rightarrow> bytes" where
  "ts_key l = (case split_once space l of None \<Rightarrow> [] | Some (k, _) \<Rightarrow> k)"

datatype timed_op = TimedInsert bytes u64 | InsertIfBelowCapacity bytes u64 nat | PruneOlderThan u64

datatype timed_out = TimedBool "io_error + bool" | TimedOutcome "io_error + timed_insert" | Pruned "io_error + nat"

fun ts_op :: "timed_op \<Rightarrow> timed_set \<Rightarrow> fs \<Rightarrow> timed_out \<times> timed_set \<times> fs" where
  "ts_op (TimedInsert k now) d s = (let (r, d1, s1) = ts_insert k now d s in (TimedBool r, d1, s1))"
| "ts_op (InsertIfBelowCapacity k now cap) d s =
     (let (r, d1, s1) = insert_if_below_capacity k now cap d s in (TimedOutcome r, d1, s1))"
| "ts_op (PruneOlderThan cutoff) d s = (let (r, d1, s1) = prune_older_than cutoff d s in (Pruned r, d1, s1))"

fun ts_adds :: "timed_op \<Rightarrow> timed_out \<Rightarrow> bytes option" where
  "ts_adds (TimedInsert k now) out = (if out = TimedBool (Inr True) then Some (ts_line k now) else None)"
| "ts_adds (InsertIfBelowCapacity k now cap) out =
     (if out = TimedOutcome (Inr Inserted) then Some (ts_line k now) else None)"
| "ts_adds (PruneOlderThan cutoff) out = None"

fun ts_drops :: "timed_op \<Rightarrow> bytes set" where
  "ts_drops (PruneOlderThan cutoff) = {ts_line k t | k t. t < cutoff \<and> space \<notin> set k}"
| "ts_drops _ = {}"

definition ts_known :: "timed_set \<Rightarrow> bytes set" where
  "ts_known d = (\<lambda>(k, t). ts_line k t) ` set (ts_seen d)"

lemma ts_record_line: "ts_record k t = ts_line k t @ [newline]"
  by (simp add: ts_record_def ts_line_def)

lemma split_ts_line: "space \<notin> set k \<Longrightarrow> split_once space (ts_line k t) = Some (k, u_to_string t)"
  by (simp add: ts_line_def split_once_append)

lemma ts_line_newline: "newline \<notin> set k \<Longrightarrow> newline \<notin> set (ts_line k t)"
  using u_to_string_not_in [of newline t] by (auto simp: ts_line_def)

lemma ts_parse_line: "k \<noteq> [] \<Longrightarrow> space \<notin> set k \<Longrightarrow> ts_parse (ts_line k t) = Inr (k, t)"
  by (simp add: ts_parse_def split_ts_line parse_u_to_string u_to_string_not_in)

lemma ts_load_entries:
  assumes "ts_load seen ls = Inr seen1"
  shows "map_of seen \<subseteq>\<^sub>m map_of seen1 \<and> (\<forall>l\<in>set ls. \<forall>k t. ts_parse l = Inr (k, t) \<longrightarrow> map_of seen1 k = Some t) \<and>
    (field_keys seen \<longrightarrow> (\<forall>l\<in>set ls. newline \<notin> set l) \<longrightarrow> field_keys seen1)"
  using assms
proof (induction ls arbitrary: seen)
  case (Cons l ls)
  then obtain k t seen2 where l: "ts_parse l = Inr (k, t)"
    and s2: "load_entry ''key appears with conflicting timestamps'' k t seen = Inr seen2" "ts_load seen2 ls = Inr seen1"
    by (auto split: prod.splits)
  have "map_of seen \<subseteq>\<^sub>m map_of seen2" "map_of seen2 k = Some t"
    using load_entry_Inr [OF s2(1)] by (auto simp: map_le_def)
  moreover have "set seen2 \<subseteq> insert (k, t) (set seen)"
    using s2(1) set_alist_update [of k t seen] by (auto simp: load_entry_def split: option.splits if_splits)
  moreover have "space \<notin> set k \<and> (newline \<notin> set l \<longrightarrow> newline \<notin> set k)"
    using l by (auto simp: ts_parse_def split: if_splits dest!: split_once_Some)
  ultimately show ?case
    using Cons.IH [OF s2(2)] l by (auto simp: map_le_def dom_def field_keys_def)
qed simp

lemma ts_line_inject:
  assumes "space \<notin> set k" and "space \<notin> set k1"
  shows "ts_line k t = ts_line k1 t1 \<longleftrightarrow> k = k1 \<and> t = t1"
proof
  assume "ts_line k t = ts_line k1 t1"
  then have "Some (k, u_to_string t) = Some (k1, u_to_string t1)"
    unfolding split_ts_line [OF assms(1), symmetric] split_ts_line [OF assms(2), symmetric] by (rule arg_cong)
  then show "k = k1 \<and> t = t1" by (metis Pair_inject option.inject parse_u_to_string(2))
qed simp

lemma ts_drops_iff:
  assumes "space \<notin> set k"
  shows "ts_line k t \<in> ts_drops op \<longleftrightarrow> (\<exists>cutoff. op = PruneOlderThan cutoff \<and> t < cutoff)"
proof (cases op)
  case (PruneOlderThan c)
  then show ?thesis using assms by (auto simp: ts_line_inject)
qed simp_all

lemma insert_with_capacity_law:
  assumes "ts_path st = Some p" and "log p L s" and "L \<subseteq> ts_known st" and "open_on p (ts_file st) s"
    and "insert_with_capacity k now cap st s = (out, st1, s1)"
    and "M = (if out = Inr Inserted then insert (ts_line k now) L else L)"
  shows "ts_path st1 = Some p \<and> log p M s1 \<and> M \<subseteq> ts_known st1 \<and> open_on p (ts_file st1) s1 \<and>
    (if out = Inr Inserted then k \<noteq> [] \<and> newline \<notin> set k \<and> space \<notin> set k \<and> k \<notin> fst ` set (ts_seen st) \<and>
       ts_seen st1 = ts_seen st @ [(k, now)] else ts_seen st1 = ts_seen st)"
proof (cases "k = [] \<or> newline \<in> set k \<or> space \<in> set k \<or> map_of (ts_seen st) k \<noteq> None \<or>
    (case cap of None \<Rightarrow> False | Some c \<Rightarrow> length (ts_seen st) \<ge> c)")
  case True
  with assms show ?thesis by (auto simp: insert_with_capacity_def split: if_splits)
next
  case False
  then have k: "k \<notin> fst ` set (ts_seen st)" "newline \<notin> set (ts_line k now)"
    by (auto simp: map_of_eq_None_iff ts_line_newline)
  obtain r slot1 s2 where a: "append_record (ts_file st) (ts_line k now @ [newline]) s = (r, slot1, s2)"
    by (cases "append_record (ts_file st) (ts_line k now @ [newline]) s")
  from append_record_log [OF k(2) assms(2,4) a] False a k assms(1,3,5,6) show ?thesis
    by (auto simp: insert_with_capacity_def ts_record_line ts_known_def alist_update_new split: sum.splits)
qed

lemma prune_older_than_law:
  assumes "ts_path st = Some p" and "log p L s" and "L \<subseteq> ts_known st" and "open_on p (ts_file st) s"
    and "field_keys (ts_seen st)"
    and "prune_older_than cutoff st s = (out, st1, s1)" and "M = L - {ts_line k t | k t. t < cutoff \<and> space \<notin> set k}"
  shows "ts_path st1 = Some p \<and> log p M s1 \<and> M \<subseteq> ts_known st1 \<and> open_on p (ts_file st1) s1 \<and>
    set (ts_seen st1) \<subseteq> set (ts_seen st)"
proof (cases "length (filter (\<lambda>(k, t). t < cutoff) (ts_seen st)) = 0")
  case True
  have "M \<subseteq> L" using assms(7) by blast
  moreover have "st1 = st" "s1 = s" using True assms(6) by (simp_all add: prune_older_than_def Let_def)
  ultimately show ?thesis using assms lines.log_ok_mono [OF assms(2) \<open>M \<subseteq> L\<close>] by auto
next
  case False
  define surv where "surv = filter (\<lambda>(k, t). t \<ge> cutoff) (ts_seen st)"
  define ls where "ls = map (\<lambda>(k, t). ts_line k t) surv"
  have rec: "map (\<lambda>(k, t). ts_record k t) surv = map (\<lambda>l. l @ [newline]) ls"
    by (simp add: ls_def ts_record_line case_prod_unfold)
  have nl: "newline \<notin> set l" if "l \<in> set ls" for l
    using that assms(5) ts_line_newline by (auto simp: ls_def surv_def field_keys_def)
  have M: "M \<subseteq> L" using assms(7) by blast
  have M2: "M \<subseteq> set ls"
  proof
    fix l assume "l \<in> M"
    then obtain k t where l: "l = ts_line k t" "(k, t) \<in> set (ts_seen st)"
      using assms(3,7) by (auto simp: ts_known_def)
    moreover from l(2) have "space \<notin> set k" using assms(5) by (auto simp: field_keys_def)
    ultimately have "\<not> t < cutoff" using \<open>l \<in> M\<close> assms(7) by blast
    with l show "l \<in> set ls" by (force simp: ls_def surv_def)
  qed
  obtain r s2 where c: "compact_or_clean p (map (\<lambda>(k, t). ts_record k t) surv) s = (r, s2)"
    by (cases "compact_or_clean p (map (\<lambda>(k, t). ts_record k t) surv) s")
  note cl = compact_log [OF rec nl M M2 assms(2) c]
  have "prune_older_than cutoff st s =
    (case r of Inl e \<Rightarrow> (Inl e, st\<lparr>ts_file := None\<rparr>, s2)
     | Inr h \<Rightarrow> (Inr (length (filter (\<lambda>(k, t). t < cutoff) (ts_seen st))), st\<lparr>ts_file := Some h, ts_seen := surv\<rparr>, s2))"
    using False assms(1) c by (simp add: prune_older_than_def Let_def surv_def split: sum.split)
  then show ?thesis
    using cl M2 assms(1,6) M subset_trans [OF M assms(3)]
    by (auto simp: ts_known_def ls_def surv_def split: sum.splits)
qed

lemma spec_ts_open:
  assumes "L \<subseteq> ts_lines"
  shows "spec (log p L) (ts_open p)
    (\<lambda>st s. (ts_path st = Some p \<and> field_keys (ts_seen st)) \<and> log p L s \<and> L \<subseteq> ts_known st \<and> open_on p (ts_file st) s) (log p L)"
  unfolding ts_open_def
proof (rule spec_open_log [where K = "\<lambda>seen. L \<subseteq> (\<lambda>(k, t). ts_line k t) ` set seen \<and> field_keys seen"])
  fix ls seen
  assume ls: "ts_load [] ls = Inr seen" "L \<subseteq> set ls" "\<And>l. l \<in> set ls \<Longrightarrow> newline \<notin> set l"
  note ld = ts_load_entries [OF ls(1)]
  have "l \<in> (\<lambda>(k, t). ts_line k t) ` set seen" if "l \<in> L" for l
  proof -
    obtain k t where l: "l = ts_line k t" "k \<noteq> []" "space \<notin> set k"
      using \<open>l \<in> L\<close> assms by (auto simp: ts_lines_def)
    with \<open>l \<in> L\<close> ls(2) ld have "map_of seen k = Some t" using ts_parse_line [of k t] by auto
    then show ?thesis using l by (force dest: map_of_SomeD)
  qed
  moreover have "field_keys seen" using ld ls(3) by (simp add: field_keys_def)
  ultimately show "L \<subseteq> (\<lambda>(k, t). ts_line k t) ` set seen \<and> field_keys seen" by blast
next
  fix h seen
  assume "L \<subseteq> (\<lambda>(k, t). ts_line k t) ` set seen \<and> field_keys seen"
  then show "spec (open_log p L h) (io_return \<lparr>ts_seen = seen, ts_file = Some h, ts_path = Some p\<rparr>)
    (\<lambda>st s. (ts_path st = Some p \<and> field_keys (ts_seen st)) \<and> log p L s \<and> L \<subseteq> ts_known st \<and> open_on p (ts_file st) s) (log p L)"
    by (intro spec_return) (simp add: ts_known_def)
qed

text \<open>Both insertions run the bounded one and report its acceptance.\<close>

lemma ts_op_insert:
  assumes "ts_op i st s = (out, st1, s1)" and "\<And>c. i \<noteq> PruneOlderThan c"
  obtains k now cap r where "insert_with_capacity k now cap st s = (r, st1, s1)" and "ts_drops i = {}"
    and "ts_adds i out = (if r = Inr Inserted then Some (ts_line k now) else None)"
proof (cases i)
  case (TimedInsert k now)
  obtain r st2 s2 where r: "insert_with_capacity k now None st s = (r, st2, s2)"
    by (cases "insert_with_capacity k now None st s")
  with assms(1) TimedInsert have "st2 = st1" "s2 = s1"
    "ts_adds i out = (if r = Inr Inserted then Some (ts_line k now) else None)"
    by (auto simp: ts_insert_def split: sum.splits timed_insert.splits)
  with r that TimedInsert show ?thesis by simp
next
  case (InsertIfBelowCapacity k now cap)
  then show ?thesis
    using assms(1) that by (auto simp: insert_if_below_capacity_def split: prod.splits)
qed (use assms(2) in blast)

interpretation ts: log_store "\<lambda>bs. set (complete_lines bs)" "p_dir p" "p_name p" "tmp_name p" "ts_open p" ts_op ts_known ts_file
  ts_adds ts_drops ts_key "\<lambda>d. ts_path d = Some p \<and> field_keys (ts_seen d)" ts_lines for p
proof (unfold_locales, goal_cases)
  case (1 L)
  then show ?case by (rule spec_ts_open)
next
  case (2 L st s i out st1 s1 M)
  show ?case
  proof (cases "\<exists>c. i = PruneOlderThan c")
    case True
    then obtain c r where i: "i = PruneOlderThan c" and r: "prune_older_than c st s = (r, st1, s1)"
      using 2 by (auto split: prod.splits)
    have "M = L - {ts_line k t | k t. t < c \<and> space \<notin> set k}" using 2 i by simp
    from prune_older_than_law [OF _ _ _ _ _ r this, of p] 2 show ?thesis by (auto simp: field_keys_def)
  next
    case False
    then obtain k now cap r where r: "insert_with_capacity k now cap st s = (r, st1, s1)"
      and "ts_drops i = {}" "ts_adds i out = (if r = Inr Inserted then Some (ts_line k now) else None)"
      using ts_op_insert [of i st s out st1 s1] 2 by metis
    then have "M = (if r = Inr Inserted then insert (ts_line k now) L else L)" using 2 by simp
    from insert_with_capacity_law [OF _ _ _ _ r this, of p] 2 show ?thesis
      by (auto simp: field_keys_def split: if_splits)
  qed
next
  case (3 st i s out st1 s1 l)
  then have "\<not> (\<exists>c. i = PruneOlderThan c)" by auto
  with 3 obtain k now cap r where r: "insert_with_capacity k now cap st s = (r, st1, s1)"
    and "ts_adds i out = (if r = Inr Inserted then Some (ts_line k now) else None)"
    using ts_op_insert [of i st s out st1 s1] by metis
  with 3 have "r = Inr Inserted" "l = ts_line k now" by (auto split: if_splits)
  moreover from this r have "k \<noteq> [] \<and> newline \<notin> set k \<and> space \<notin> set k \<and> k \<notin> fst ` set (ts_seen st)"
    by (auto simp: insert_with_capacity_def map_of_eq_None_iff split: if_splits)
  moreover have "ts_key ` ts_known st = fst ` set (ts_seen st)"
    using 3 by (force simp: ts_known_def ts_key_def split_ts_line field_keys_def)
  ultimately show ?case by (auto simp: ts_lines_def ts_key_def split_ts_line)
qed

section \<open>Quiet runs\<close>

text \<open>A log after the last sync, with no fault to come: its lines.current file holds exactly these lines.\<close>

definition settled :: "path \<Rightarrow> bytes list \<Rightarrow> handle \<Rightarrow> fs \<Rightarrow> bool" where
  "settled p ls h s \<longleftrightarrow> f_faults s = [] \<and> f_olds s (p_dir p) = [] \<and> f_names s (p_dir p) (p_name p) = Some h \<and>
     f_inodes s h = \<lparr>i_data = unlines ls, i_stable = length (unlines ls), i_clean = True\<rparr>"

definition good_key :: "bytes \<Rightarrow> bool" where
  "good_key k \<longleftrightarrow> k \<noteq> [] \<and> newline \<notin> set k \<and> utf8_valid k"

lemmas io_run = io_bind_def io_catch_def io_return_def io_throw_def io_lift_def syscall_def fs_check_def

lemma ds_load_all: "(\<And>k. k \<in> set ks \<Longrightarrow> k \<noteq> []) \<Longrightarrow> ds_load seen ks = Inr (seen \<union> set ks)"
  by (induction ks arbitrary: seen) auto

lemma read_lines_quiet:
  assumes "f_faults s = []" and "i_data (f_inodes s f) = unlines ks" and "\<And>k. k \<in> set ks \<Longrightarrow> good_key k"
  shows "read_complete_records f s = (Inr ks, s)"
proof -
  have "utf8_valid (unlines ks)" using assms(3) by (intro utf8_valid_unlines) (simp add: good_key_def)
  moreover have "unlines ks \<noteq> [] \<Longrightarrow> last (unlines ks) = newline" using terminated_unlines [of ks] by (simp add: terminated_def)
  moreover have "complete_lines (unlines ks) = ks"
    using assms(3) by (intro complete_lines_unlines) (simp add: good_key_def)
  moreover have "unlines ks = [] \<longleftrightarrow> ks = []" by (cases ks) auto
  ultimately show ?thesis
    using assms(1,2) records_lines [of "unlines ks"] by (auto simp: read_complete_records_def io_run fs_read_def)
qed

lemma read_settled:
  assumes "settled p ls h s" and "\<And>l. l \<in> set ls \<Longrightarrow> good_key l"
  shows "read_complete_records h s = (Inr ls, s)"
  using assms by (intro read_lines_quiet) (simp_all add: settled_def)

lemma open_settled:
  assumes "settled p ls h s" and "\<And>l. l \<in> set ls \<Longrightarrow> good_key l"
  shows "\<exists>s1. ds_open p s = (Inr \<lparr>ds_seen = set ls, ds_file = Some h, ds_path = Some p\<rparr>, s1) \<and> settled p ls h s1"
proof -
  have "create_parent p s = (Inr (), s)" using assms(1) by (simp add: create_parent_def io_run settled_def)
  moreover have "open_or_create_private_append p s = (Inr (h, False), s)"
    using assms(1) by (simp add: open_or_create_private_append_def open_private_append_existing_def fs_open_def io_run settled_def lookup_def)
  moreover have "ds_load {} ls = Inr (set ls)" using assms(2) ds_load_all [of ls "{}"] by (simp add: good_key_def)
  moreover have "sync_parent_dir p s = (Inr (), s\<lparr>f_olds := (f_olds s)(p_dir p := [])\<rparr>)"
    using assms(1) by (simp add: sync_parent_eq fs_sync_dir_def io_run settled_def)
  ultimately show ?thesis
    using read_settled [OF assms] assms(1) by (simp add: ds_open_def io_bind_def io_lift_def io_return_def settled_def)
qed

lemma open_new:
  "\<exists>h s1. ds_open p (empty_fs []) = (Inr \<lparr>ds_seen = {}, ds_file = Some h, ds_path = Some p\<rparr>, s1) \<and> settled p [] h s1"
  by (auto simp: ds_open_def create_parent_def open_or_create_private_append_def open_private_append_existing_def
      fs_open_def lookup_def empty_fs_def create_file_def Let_def read_complete_records_def fs_read_def
      fs_sync_all_def sync_parent_eq fs_sync_dir_def settled_def flushed_def empty_inode_def io_run
      set_entries_def set_inode_def)

lemma insert_settled:
  assumes "settled p ls h s" and "good_key k"
  shows "\<exists>s1. ds_insert k \<lparr>ds_seen = set ls, ds_file = Some h, ds_path = Some p\<rparr> s =
      (Inr (k \<notin> set ls), \<lparr>ds_seen = insert k (set ls), ds_file = Some h, ds_path = Some p\<rparr>, s1) \<and>
    settled p (if k \<in> set ls then ls else ls @ [k]) h s1"
proof (cases "k \<in> set ls")
  case True
  with assms show ?thesis by (auto simp: ds_insert_def good_key_def insert_absorb)
next
  case False
  then show ?thesis
    using assms
    by (auto simp: ds_insert_def good_key_def append_record_def Let_def fs_write_all_def fs_flush_def fs_sync_all_def
        io_run settled_def append_to_def flushed_def)
qed

lemma crash_settled: "settled p ls h s \<Longrightarrow> cc_faults cc = [] \<Longrightarrow> settled p ls h (crash cc s)"
  by (simp add: settled_def crash_def versions_def crash_inode_def)

text \<open>The answers of a set that forgets nothing: a key is new the first time.\<close>

fun novel :: "bytes set \<Rightarrow> bytes list \<Rightarrow> (io_error + bool) option list" where
  "novel seen [] = []"
| "novel seen (k # ks) = Some (Inr (k \<notin> seen)) # novel (insert k seen) ks"

lemma novel_nth: "i < length ks \<Longrightarrow> novel seen ks ! i = Some (Inr (ks ! i \<notin> seen \<and> ks ! i \<notin> set (take i ks)))"
  by (induction ks arbitrary: seen i) (auto simp: nth_Cons' take_Cons')

lemma inserts_settled:
  assumes "settled p ls h s" and "\<And>k. k \<in> set ks \<Longrightarrow> good_key k" and "\<And>l. l \<in> set ls \<Longrightarrow> good_key l"
  shows "\<exists>ls1 s1. run (store_step (ds_open p) ds_insert) (map Do ks)
      (Some \<lparr>ds_seen = set ls, ds_file = Some h, ds_path = Some p\<rparr>, s) =
      (novel (set ls) ks, Some \<lparr>ds_seen = set ls \<union> set ks, ds_file = Some h, ds_path = Some p\<rparr>, s1) \<and>
    settled p ls1 h s1 \<and> set ls1 = set ls \<union> set ks"
  using assms
proof (induction ks arbitrary: ls s)
  case Nil
  then show ?case by auto
next
  case (Cons k ks)
  obtain s1 where i: "ds_insert k \<lparr>ds_seen = set ls, ds_file = Some h, ds_path = Some p\<rparr> s =
      (Inr (k \<notin> set ls), \<lparr>ds_seen = insert k (set ls), ds_file = Some h, ds_path = Some p\<rparr>, s1)"
    and s1: "settled p (if k \<in> set ls then ls else ls @ [k]) h s1"
    using insert_settled [OF Cons.prems(1), of k] Cons.prems(2) by auto
  define ls2 where "ls2 = (if k \<in> set ls then ls else ls @ [k])"
  have e: "set ls2 = insert k (set ls)" by (auto simp: ls2_def)
  have "\<And>l. l \<in> set ls2 \<Longrightarrow> good_key l" using Cons.prems e by auto
  from Cons.IH [OF s1 [folded ls2_def] _ this] Cons.prems(2) show ?case
    unfolding e by (auto simp: run_Cons i simp del: run.simps(2))
qed

text \<open>Without faults the first start finds the legacy file and takes its keys over.\<close>

lemma fold_quiet:
  assumes "f_faults s = []" and "\<And>k. k \<in> set ks \<Longrightarrow> k \<noteq> [] \<and> space \<notin> set k"
  shows "\<exists>seen1 folded1 s1. es_fold_legacy h seen folded ks s = (Inr (seen1, folded1), s1) \<and> f_faults s1 = [] \<and>
    fst ` set seen1 = fst ` set seen \<union> set ks"
  using assms
proof (induction ks arbitrary: seen folded s)
  case Nil
  then show ?case by (simp add: io_run)
next
  case (Cons k ks)
  show ?case
  proof (cases "k \<in> fst ` set seen")
    case True
    then have "map_of seen k \<noteq> None" by (simp add: map_of_eq_None_iff)
    then show ?thesis using True Cons.prems Cons.IH [of s seen folded] by (auto simp: insert_absorb)
  next
    case False
    then have n: "map_of seen k = None" by (simp add: map_of_eq_None_iff)
    define s2 where "s2 = set_inode h (append_to (es_record LEGACY_EPOCH k) (f_inodes s h)) s"
    have "f_faults s2 = []" using Cons.prems(1) by (simp add: s2_def)
    from Cons.IH [OF this, of "AList.update k LEGACY_EPOCH seen" "folded + 1"] show ?thesis
      using Cons.prems n False
      by (auto simp: io_run fs_write_all_def alist_update_new simp flip: s2_def)
  qed
qed

lemma migrate_quiet:
  assumes "f_faults s = []" and "lookup lp s = Some f" and "i_data (f_inodes s f) = unlines ks"
    and "\<And>k. k \<in> set ks \<Longrightarrow> good_key k \<and> space \<notin> set k"
  shows "\<exists>seen1 s1. es_migrate h [] lp s = (Inr seen1, s1) \<and> fst ` set seen1 = set ks"
proof -
  obtain seen1 folded s1 where fold: "es_fold_legacy h [] 0 ks s = (Inr (seen1, folded), s1)" "f_faults s1 = []" "fst ` set seen1 = set ks"
    using fold_quiet [OF assms(1), of ks h "[]" 0] assms(4) by (auto simp: good_key_def)
  have "fs_open \<lparr>oo_truncate = False, oo_create = False, oo_create_new = False\<rparr> lp s = (Inr f, s)"
    using assms(1,2) by (simp add: fs_open_def syscall_def)
  then show ?thesis
    using read_lines_quiet [OF assms(1,3)] assms(4) fold
    by (auto simp: es_migrate_def io_run io_ignore_def fs_flush_def fs_sync_all_def)
qed

lemma open_legacy_quiet:
  assumes "fs_wf s" and "f_faults s = []" and "lookup p s = None" and "lookup lp s = Some f" and "i_data (f_inodes s f) = unlines ks"
    and "\<And>k. k \<in> set ks \<Longrightarrow> good_key k \<and> space \<notin> set k"
  shows "\<exists>st s1. es_open p (Some lp) s = (Inr st, s1) \<and> fst ` set (es_seen st) = set ks"
proof -
  let ?h = "f_next s"
  define s1 where "s1 = snd (create_file p s)"
  define s2 where "s2 = set_inode ?h (flushed empty_inode) s1"
  define s3 where "s3 = s2\<lparr>f_olds := (f_olds s2)(p_dir p := [])\<rparr>"
  have f: "f < ?h" using fs_wf_names [OF assms(1)] assms(4) by (auto simp: lookup_def)
  have n: "f_names s1 (p_dir lp) (p_name lp) = Some f" using assms(3,4) by (auto simp: s1_def create_file_def Let_def lookup_def set_entries_def set_inode_def)
  have c: "create_parent p s = (Inr (), s)" using assms(2) by (simp add: create_parent_def io_run)
  have o: "open_or_create_private_append p s = (Inr (?h, True), s1)"
    using assms(2,3) by (simp add: open_or_create_private_append_def open_private_append_existing_def fs_open_def io_run s1_def create_file_def Let_def)
  have 1: "f_faults s1 = []" "f_inodes s1 ?h = empty_inode" "f_inodes s1 f = f_inodes s f"
    using assms(2) f by (simp_all add: s1_def create_file_def Let_def set_entries_def set_inode_def)
  have r: "read_complete_records ?h s1 = (Inr [], s1)" using 1 by (intro read_lines_quiet) (simp_all add: empty_inode_def)
  have y: "fs_sync_all ?h s1 = (Inr (), s2)" "sync_parent_dir p s2 = (Inr (), s3)"
    using 1 by (simp_all add: fs_sync_all_def sync_parent_eq fs_sync_dir_def io_run s2_def s3_def)
  obtain seen1 s4 where m: "es_migrate ?h [] lp s3 = (Inr seen1, s4)" "fst ` set seen1 = set ks"
    using migrate_quiet [of s3 lp f ks ?h] 1 n f assms(5,6) by (auto simp: s3_def s2_def lookup_def)
  show ?thesis using c o r y m by (simp add: es_open_def io_bind_def io_lift_def io_return_def)
qed

section \<open>Properties\<close>

text \<open>
  C28: Single use across failures and restarts. However calls, write and sync failures, process
  restarts and operating-system crashes follow one another on a log that starts out absent, a key
  whose insertion was accepted once is never accepted again: not by the same process, and not by a
  later one that opened the file a crash left behind, whichever unsynced bytes and directory entries
  the crash lost.
\<close>

theorem durable_set_single_use:
  assumes "outs = fst (run (store_step (ds_open p) ds_insert) evs (None, empty_fs fl))"
    and "i < j" and "j < length evs" and "evs ! i = Do k" and "evs ! j = Do k"
    and "outs ! i = Some (Inr True)"
  shows "outs ! j \<noteq> Some (Inr True)"
proof
  assume "outs ! j = Some (Inr True)"
  then have "\<exists>m. i < m \<and> m < j \<and> k \<in> ds.forgotten (evs ! m)"
    using assms by (intro ds.single_use [OF lines.log_ok_empty [OF tmp_name_neq] assms(1-3)])
      (simp_all add: ds.line_of_def ds_adds_def)
  then obtain m where "k \<in> ds.forgotten (evs ! m)" by blast
  then show False by (cases "evs ! m") (simp_all add: ds.forgotten_def)
qed

definition demo_path :: path where "demo_path = Path (lit ''data'') (lit ''spent.log'')"

definition demo_crash :: crash_choice where
  "demo_crash = \<lparr>cc_version = (\<lambda>_. 1), cc_tail = (\<lambda>_. lit ''torn''), cc_faults = []\<rparr>"

text \<open>An acceptance, a crash, a restart and a second attempt with the same key.\<close>

theorem durable_set_single_use_witness:
  "let outs = fst (run (store_step (ds_open demo_path) ds_insert)
       [Start, Do (lit ''key''), Crash demo_crash, Start, Do (lit ''key'')] (None, empty_fs []))
   in outs ! 1 = Some (Inr True) \<and> outs ! 4 \<noteq> Some (Inr True)"
proof -
  have "fst (run (store_step (ds_open demo_path) ds_insert)
       [Start, Do (lit ''key''), Crash demo_crash, Start, Do (lit ''key'')] (None, empty_fs [])) ! 1 = Some (Inr True)"
    by code_simp
  then show ?thesis
    using durable_set_single_use [OF refl, of 1 4 "[Start, Do (lit ''key''), Crash demo_crash, Start, Do (lit ''key'')]" "lit ''key''" demo_path "[]"]
    by (simp add: Let_def del: run.simps)
qed

text \<open>
  C29: Nothing is lost and nothing is invented. Without failures a new log answers every insertion of a
  well-formed key, saying that the key is new the first time it comes and only then; and after a crash of
  the operating system, whatever the crash picks, the reopened set holds exactly the keys inserted before
  and answers later insertions as if there had been no crash.
\<close>

theorem durable_set_reopen:
  assumes "\<forall>k\<in>set (ks @ later). k \<noteq> [] \<and> newline \<notin> set k \<and> utf8_valid k" and "cc_faults cc = []"
  shows "\<exists>h s1 s2 s3.
    run (store_step (ds_open p) ds_insert) (Start # map Do ks @ [Crash cc, Start] @ map Do later) (None, empty_fs []) =
      (None # novel {} ks @ [None, None] @ novel (set ks) later,
       Some \<lparr>ds_seen = set ks \<union> set later, ds_file = Some h, ds_path = Some p\<rparr>, s3) \<and>
    snd (run (store_step (ds_open p) ds_insert) (Start # map Do ks) (None, empty_fs [])) =
      (Some \<lparr>ds_seen = set ks, ds_file = Some h, ds_path = Some p\<rparr>, s1) \<and>
    ds_open p (crash cc s1) = (Inr \<lparr>ds_seen = set ks, ds_file = Some h, ds_path = Some p\<rparr>, s2) \<and>
    (\<forall>i<length ks. novel {} ks ! i = Some (Inr (ks ! i \<notin> set (take i ks))))"
proof -
  let ?m = "store_step (ds_open p) ds_insert"
  have g: "\<And>k. k \<in> set ks \<Longrightarrow> good_key k" "\<And>k. k \<in> set later \<Longrightarrow> good_key k" using assms(1) by (simp_all add: good_key_def)
  obtain h s0 where o: "ds_open p (empty_fs []) = (Inr \<lparr>ds_seen = {}, ds_file = Some h, ds_path = Some p\<rparr>, s0)"
    and s0: "settled p [] h s0" using open_new by blast
  obtain ls s1 where r: "run ?m (map Do ks) (Some \<lparr>ds_seen = {}, ds_file = Some h, ds_path = Some p\<rparr>, s0) =
      (novel {} ks, Some \<lparr>ds_seen = set ks, ds_file = Some h, ds_path = Some p\<rparr>, s1)"
    and s1: "settled p ls h s1" "set ls = set ks"
    using inserts_settled [OF s0 g(1), of ks] by auto
  have gl: "\<And>l. l \<in> set ls \<Longrightarrow> good_key l" using g(1) s1(2) by simp
  obtain s2 where o2: "ds_open p (crash cc s1) = (Inr \<lparr>ds_seen = set ls, ds_file = Some h, ds_path = Some p\<rparr>, s2)"
    and s2: "settled p ls h s2" using open_settled [OF crash_settled [OF s1(1) assms(2)] gl] by auto
  obtain s3 where r3: "run ?m (map Do later) (Some \<lparr>ds_seen = set ls, ds_file = Some h, ds_path = Some p\<rparr>, s2) =
      (novel (set ls) later, Some \<lparr>ds_seen = set ls \<union> set later, ds_file = Some h, ds_path = Some p\<rparr>, s3)"
    using inserts_settled [OF s2 g(2) gl, of later] by auto
  show ?thesis
    using o r o2 r3 s1(2) novel_nth [of _ ks "{}"] by (simp add: run_Cons run_append del: run.simps(2))
qed

theorem durable_set_reopen_witness:
  "fst (run (store_step (ds_open demo_path) ds_insert)
      ([Start, Do (lit ''a b''), Do (lit ''c''), Do (lit ''a b''), Crash demo_crash, Start, Do (lit ''c''), Do (lit ''d'')]) (None, empty_fs [])) =
    [None, Some (Inr True), Some (Inr True), Some (Inr False), None, None, Some (Inr False), Some (Inr True)]"
  using durable_set_reopen [of "[lit ''a b'', lit ''c'', lit ''a b'']" "[lit ''c'', lit ''d'']" demo_crash demo_path]
  by (auto simp: lit_def demo_crash_def simp del: run.simps)

text \<open>
  C30: Single use of the partitioned set, over any well-formed file system, with or without a legacy file.
  Across failures, restarts and crashes a key accepted twice was released in between: a call to drop
  partitions, after the first acceptance and before the second, did not retain the epoch of the first.
  Legacy keys are spent too: where the log is not there yet, the first start without failures takes over
  exactly the keys of the legacy file; and however failures, restarts and crashes follow a first start that
  succeeded, a key it took over is accepted only after a call to drop partitions that did not retain the
  legacy epoch.
\<close>

theorem epoch_set_single_use:
  assumes "legacy_apart p legacy_path" and "fs_wf s0" and "tmp_apart (p_dir p) (p_name p) (tmp_name p) s0"
  shows "(\<forall>evs outs i j e f k.
      outs = fst (run (store_step (es_open p legacy_path) es_op) evs (None, s0)) \<and> i < j \<and> j < length evs \<and>
      evs ! i = Do (InsertInEpoch e k) \<and> evs ! j = Do (InsertInEpoch f k) \<and>
      outs ! i = Some (Recorded (Inr True)) \<and> outs ! j = Some (Recorded (Inr True)) \<longrightarrow>
      (\<exists>m retained. i < m \<and> m < j \<and> evs ! m = Do (DropEpochs retained) \<and> e \<notin> retained)) \<and>
    (\<forall>st s1 evs j f k. lookup p s0 = None \<and> es_open p legacy_path s0 = (Inr st, s1) \<and> k \<in> fst ` set (es_seen st) \<and>
      j < length evs \<and> evs ! j = Do (InsertInEpoch f k) \<and>
      fst (run (store_step (es_open p legacy_path) es_op) evs (Some st, s1)) ! j = Some (Recorded (Inr True)) \<longrightarrow>
      (\<exists>m<j. \<exists>retained. evs ! m = Do (DropEpochs retained) \<and> LEGACY_EPOCH \<notin> retained)) \<and>
    (\<forall>lp i ks. legacy_path = Some lp \<and> f_faults s0 = [] \<and> lookup p s0 = None \<and> lookup lp s0 = Some i \<and>
      i_data (f_inodes s0 i) = unlines ks \<and> (\<forall>k\<in>set ks. k \<noteq> [] \<and> newline \<notin> set k \<and> space \<notin> set k \<and> utf8_valid k) \<longrightarrow>
      (\<exists>st s1. es_open p legacy_path s0 = (Inr st, s1) \<and> fst ` set (es_seen st) = set ks))"
proof (intro conjI allI impI; (elim conjE)?)
  have ok: "log p {} s0" using assms(2,3) by (auto simp: lines.log_ok_def lines.holds_lines_def lines.lines_in_def split: option.splits)
  note st = epoch_store [OF assms(1)]
  {
    fix evs outs i j e f k
    assume a: "outs = fst (run (store_step (es_open p legacy_path) es_op) evs (None, s0))" "i < j" "j < length evs"
      "evs ! i = Do (InsertInEpoch e k)" "evs ! j = Do (InsertInEpoch f k)"
      "outs ! i = Some (Recorded (Inr True))" "outs ! j = Some (Recorded (Inr True))"
    have "\<exists>m. i < m \<and> m < j \<and> es_line e k \<in> log_store.forgotten es_drops (evs ! m)"
      by (rule log_store.single_use [OF st ok a(1-3), of "es_line e k" "es_line f k"])
         (simp_all add: log_store.line_of_def [OF st] a(4-7))
    then show "\<exists>m retained. i < m \<and> m < j \<and> evs ! m = Do (DropEpochs retained) \<and> e \<notin> retained"
      using epoch_forgotten [OF assms(1)] by blast
  next
    fix sd s1 evs j f k
    assume a: "lookup p s0 = None" "es_open p legacy_path s0 = (Inr sd, s1)" "k \<in> fst ` set (es_seen sd)"
      "j < length evs" "evs ! j = Do (InsertInEpoch f k)"
      "fst (run (store_step (es_open p legacy_path) es_op) evs (Some sd, s1)) ! j = Some (Recorded (Inr True))"
    have "\<exists>m<j. es_line LEGACY_EPOCH k \<in> log_store.forgotten es_drops (evs ! m)"
      by (rule log_store.protected_use [OF st legacy_protected [OF assms(1) ok a(1-3)] refl a(4), of "es_line f k"])
         (simp_all add: log_store.line_of_def [OF st] a(5,6))
    then show "\<exists>m<j. \<exists>retained. evs ! m = Do (DropEpochs retained) \<and> LEGACY_EPOCH \<notin> retained"
      using epoch_forgotten [OF assms(1)] by blast
  next
    fix lp i ks
    assume "legacy_path = Some lp" "f_faults s0 = []" "lookup p s0 = None" "lookup lp s0 = Some i"
      "i_data (f_inodes s0 i) = unlines ks" "\<forall>k\<in>set ks. k \<noteq> [] \<and> newline \<notin> set k \<and> space \<notin> set k \<and> utf8_valid k"
    then show "\<exists>st s1. es_open p legacy_path s0 = (Inr st, s1) \<and> fst ` set (es_seen st) = set ks"
      using open_legacy_quiet [OF assms(2)] by (simp add: good_key_def)
  }
qed

text \<open>A machine with a legacy file and no log.\<close>

definition demo_legacy :: path where "demo_legacy = Path (lit ''data'') (lit ''old.log'')"

definition demo_legacy_fs :: fs where
  "demo_legacy_fs = (empty_fs [])\<lparr>f_next := 1, f_names := (\<lambda>d n. if d = lit ''data'' \<and> n = lit ''old.log'' then Some 0 else None),
     f_inodes := (\<lambda>i. if i = 0 then \<lparr>i_data = unlines [lit ''k''], i_stable = 2, i_clean = True\<rparr> else empty_inode)\<rparr>"

lemma demo_legacy_ok:
  "legacy_apart demo_path (Some demo_legacy)" "fs_wf demo_legacy_fs"
  "tmp_apart (p_dir demo_path) (p_name demo_path) (tmp_name demo_path) demo_legacy_fs"
  "fs_wf (empty_fs [])" "tmp_apart (p_dir demo_path) (p_name demo_path) (tmp_name demo_path) (empty_fs [])"
  by (simp_all add: legacy_apart_def fs_wf_def tmp_apart_def demo_path_def demo_legacy_def demo_legacy_fs_def empty_fs_def
      versions_def empty_inode_def unlines_def tmp_name_neq lit_def) (simp_all add: tmp_name_def with_extension_def file_stem_def lit_def)

theorem epoch_set_single_use_witness:
  "(\<exists>m retained. 1 < m \<and> m < 3 \<and>
      [Start, Do (InsertInEpoch 1 (lit ''n'')), Do (DropEpochs {2}), Do (InsertInEpoch 2 (lit ''n''))] ! m = Do (DropEpochs retained) \<and>
      1 \<notin> retained) \<and>
   (\<exists>st s1. es_open demo_path (Some demo_legacy) demo_legacy_fs = (Inr st, s1) \<and> fst ` set (es_seen st) = {lit ''k''} \<and>
      fst (run (store_step (es_open demo_path (Some demo_legacy)) es_op) [Do (InsertInEpoch 5 (lit ''k''))] (Some st, s1)) ! 0 \<noteq>
        Some (Recorded (Inr True)))"
proof -
  note claim = epoch_set_single_use [OF demo_legacy_ok(1-3)]
  let ?evs = "[Start, Do (InsertInEpoch 1 (lit ''n'')), Do (DropEpochs {2}), Do (InsertInEpoch 2 (lit ''n''))]"
  let ?outs = "fst (run (store_step (es_open demo_path (Some demo_legacy)) es_op) ?evs (None, empty_fs []))"
  have o: "?outs ! 1 = Some (Recorded (Inr True))" "?outs ! 3 = Some (Recorded (Inr True))" by code_simp+
  have "\<exists>m retained. 1 < m \<and> m < 3 \<and> ?evs ! m = Do (DropEpochs retained) \<and> 1 \<notin> retained"
    by (rule conjunct1 [OF epoch_set_single_use [OF demo_legacy_ok(1,4,5)], rule_format, of ?outs ?evs 1 3 1 "lit ''n''" 2]) (use o in \<open>simp del: run.simps\<close>)
  moreover have ks: "f_faults demo_legacy_fs = []" "lookup demo_path demo_legacy_fs = None" "lookup demo_legacy demo_legacy_fs = Some 0"
      "i_data (f_inodes demo_legacy_fs 0) = unlines [lit ''k'']"
    by (simp_all add: demo_legacy_fs_def empty_fs_def lookup_def demo_path_def demo_legacy_def lit_def)
  moreover obtain st s1 where st: "es_open demo_path (Some demo_legacy) demo_legacy_fs = (Inr st, s1)" "fst ` set (es_seen st) = {lit ''k''}"
    using conjunct2 [OF conjunct2 [OF claim], rule_format, of demo_legacy 0 "[lit ''k'']"] ks by (auto simp: lit_def)
  moreover have "fst (run (store_step (es_open demo_path (Some demo_legacy)) es_op) [Do (InsertInEpoch 5 (lit ''k''))] (Some st, s1)) ! 0 \<noteq>
        Some (Recorded (Inr True))"
    using conjunct1 [OF conjunct2 [OF claim], rule_format, of st s1 "lit ''k''" 0 "[Do (InsertInEpoch 5 (lit ''k''))]" 5] ks(2) st
    by (auto simp del: run.simps)
  ultimately show ?thesis by blast
qed

text \<open>
  Single use of the timed set. Across failures, restarts and crashes, a key accepted twice (by
  either insertion) was pruned in between: a call to prune, after the first acceptance and before the
  second, had a cutoff above the first insertion time.
\<close>

theorem timed_set_single_use:
  assumes "outs = fst (run (store_step (ts_open p) ts_op) evs (None, empty_fs fl))"
    and "i < j" and "j < length evs" and "evs ! i = Do a" and "evs ! j = Do b"
    and "outs ! i = Some x" and "outs ! j = Some y"
    and "ts_adds a x = Some (ts_line k t)" and "ts_adds b y = Some (ts_line k u)" and "space \<notin> set k"
  shows "\<exists>m cutoff. i < m \<and> m < j \<and> evs ! m = Do (PruneOlderThan cutoff) \<and> t < cutoff"
proof -
  have "\<exists>m. i < m \<and> m < j \<and> ts_line k t \<in> ts.forgotten (evs ! m)"
    by (rule ts.single_use [OF lines.log_ok_empty [OF tmp_name_neq] assms(1-3), of "ts_line k t" "ts_line k u"])
       (simp_all add: ts.line_of_def ts_key_def split_ts_line assms(4-10))
  then obtain m where m: "i < m" "m < j" "ts_line k t \<in> ts.forgotten (evs ! m)" by blast
  then obtain c where "evs ! m = Do (PruneOlderThan c)" "t < c"
    unfolding ts.forgotten_def using ts_drops_iff [OF assms(10)] by (cases "evs ! m") auto
  with m show ?thesis by blast
qed

theorem timed_set_single_use_witness:
  "\<exists>m cutoff. 1 < m \<and> m < 3 \<and>
     [Start, Do (TimedInsert (lit ''k'') 5), Do (PruneOlderThan 9), Do (InsertIfBelowCapacity (lit ''k'') 10 1)] ! m = Do (PruneOlderThan cutoff) \<and>
     5 < cutoff"
proof (rule timed_set_single_use [where p = demo_path and fl = "[]" and k = "lit ''k''" and t = 5 and u = 10 and
    x = "TimedBool (Inr True)" and y = "TimedOutcome (Inr Inserted)", OF refl])
  show "fst (run (store_step (ts_open demo_path) ts_op)
    [Start, Do (TimedInsert (lit ''k'') 5), Do (PruneOlderThan 9), Do (InsertIfBelowCapacity (lit ''k'') 10 1)] (None, empty_fs [])) ! 1 = Some (TimedBool (Inr True))"
    by code_simp
  show "fst (run (store_step (ts_open demo_path) ts_op)
    [Start, Do (TimedInsert (lit ''k'') 5), Do (PruneOlderThan 9), Do (InsertIfBelowCapacity (lit ''k'') 10 1)] (None, empty_fs [])) ! 3 = Some (TimedOutcome (Inr Inserted))"
    by code_simp
qed (simp, simp, simp, simp, simp, simp, simp add: lit_def)

end
