(* ===== verification/Ratelimit.thy ===== *)
theory Ratelimit
  imports Machines
begin

text \<open>
  The two fixed-window rate limiters: nil-coordinator/src/ratelimit.rs counts hits, and
  nil-portal/src/ratelimit.rs charges costs that a reservation may give back. An \<open>Instant\<close> and the
  window are numbers of nanoseconds, and \<open>duration_since\<close> is the truncated difference. The lemmas
  bound what a key is granted in any interval no longer than the window, and show that the
  Coordinator's limiter is the Portal's with cost one as long as its counter does not wrap.
\<close>

type_synonym buckets = "(bytes \<times> nat \<times> u32) list"

record rate_limiter =
  rl_max :: u32
  rl_window :: nat
  rl_buckets :: buckets

definition limiter_new :: "u32 \<Rightarrow> nat \<Rightarrow> rate_limiter" where
  "limiter_new m window = \<lparr>rl_max = m, rl_window = window, rl_buckets = []\<rparr>"

text \<open>\<open>retain\<close> when the map has grown past 4096 keys.\<close>

definition gc_buckets :: "nat \<Rightarrow> nat \<Rightarrow> buckets \<Rightarrow> buckets" where
  "gc_buckets window now bs =
     (if length bs > 4096 then filter (\<lambda>(_, start, _). now - start < window) bs else bs)"

text \<open>\<open>entry(key).or_insert((now, 0))\<close>, started anew when the window has elapsed.\<close>

definition bucket_entry :: "nat \<Rightarrow> bytes \<Rightarrow> nat \<Rightarrow> buckets \<Rightarrow> nat \<times> u32" where
  "bucket_entry window key now bs =
     (let e = (case map_of bs key of None \<Rightarrow> (now, 0) | Some e \<Rightarrow> e) in
      if now - fst e \<ge> window then (now, 0) else e)"

section \<open>The Coordinator's limiter\<close>

definition coord_check :: "bytes \<Rightarrow> nat \<Rightarrow> rate_limiter \<Rightarrow> bool \<times> rate_limiter" where
  "coord_check key now rl =
     (let bs = gc_buckets (rl_window rl) now (rl_buckets rl);
          (start, used) = bucket_entry (rl_window rl) key now bs;
          used' = used + 1
      in (used' \<le> rl_max rl, rl\<lparr>rl_buckets := AList.update key (start, used') bs\<rparr>))"

section \<open>The Portal's limiter\<close>

definition charge_n :: "bytes \<Rightarrow> u32 \<Rightarrow> nat \<Rightarrow> rate_limiter \<Rightarrow> nat option \<times> rate_limiter" where
  "charge_n key cost now rl =
     (if cost = 0 then (None, rl)
      else
        let bs = gc_buckets (rl_window rl) now (rl_buckets rl);
            (start, used) = bucket_entry (rl_window rl) key now bs;
            used' = saturating_add used cost
        in (if used' \<le> rl_max rl then Some start else None, rl\<lparr>rl_buckets := AList.update key (start, used') bs\<rparr>))"

definition check_n :: "bytes \<Rightarrow> u32 \<Rightarrow> nat \<Rightarrow> rate_limiter \<Rightarrow> bool \<times> rate_limiter" where
  "check_n key cost now rl = (let (r, rl') = charge_n key cost now rl in (r \<noteq> None, rl'))"

definition portal_check :: "bytes \<Rightarrow> nat \<Rightarrow> rate_limiter \<Rightarrow> bool \<times> rate_limiter" where
  "portal_check key now rl = check_n key 1 now rl"

definition refund :: "bytes \<Rightarrow> nat \<Rightarrow> u32 \<Rightarrow> rate_limiter \<Rightarrow> rate_limiter" where
  "refund key window_start cost rl =
     (case map_of (rl_buckets rl) key of
        None \<Rightarrow> rl
      | Some (start, used) \<Rightarrow>
          if start = window_start then
            (let used' = saturating_sub used cost in
             rl\<lparr>rl_buckets := if used' = 0 then AList.delete key (rl_buckets rl) else AList.update key (start, used') (rl_buckets rl)\<rparr>)
          else rl)"

record reservation =
  rs_key :: bytes
  rs_window_start :: nat
  rs_cost :: u32
  rs_committed :: bool

definition reserve_n :: "bytes \<Rightarrow> u32 \<Rightarrow> nat \<Rightarrow> rate_limiter \<Rightarrow> reservation option \<times> rate_limiter" where
  "reserve_n key cost now rl =
     (let (r, rl') = charge_n key cost now rl in
      (map_option (\<lambda>start. \<lparr>rs_key = key, rs_window_start = start, rs_cost = cost, rs_committed = False\<rparr>) r, rl'))"

definition reservation_commit :: "reservation \<Rightarrow> reservation" where
  "reservation_commit r = r\<lparr>rs_committed := True\<rparr>"

definition reservation_drop :: "reservation \<Rightarrow> rate_limiter \<Rightarrow> rate_limiter" where
  "reservation_drop r rl = (if rs_committed r then rl else refund (rs_key r) (rs_window_start r) (rs_cost r) rl)"

section \<open>What a key is granted in a window\<close>

datatype lim_op = Charge bytes u32 nat | Refund bytes nat u32

fun limiter_op :: "lim_op \<Rightarrow> rate_limiter \<Rightarrow> nat option \<times> rate_limiter" where
  "limiter_op (Charge key cost now) rl = charge_n key cost now rl"
| "limiter_op (Refund key start cost) rl = (None, refund key start cost rl)"

text \<open>The units a key was granted, and those given back to it.\<close>

fun granted :: "bytes \<Rightarrow> lim_op list \<Rightarrow> nat option list \<Rightarrow> nat" where
  "granted k (Charge key cost now # ops) (r # rs) = (if key = k \<and> r \<noteq> None then unat cost else 0) + granted k ops rs"
| "granted k (Refund key start cost # ops) (r # rs) = granted k ops rs"
| "granted k _ _ = 0"

fun given_back :: "bytes \<Rightarrow> lim_op list \<Rightarrow> nat" where
  "given_back k [] = 0"
| "given_back k (Charge key cost now # ops) = given_back k ops"
| "given_back k (Refund key start cost # ops) = (if key = k then unat cost else 0) + given_back k ops"

text \<open>Every charge falls into the interval from \<open>a\<close> up to \<open>e\<close>.\<close>

fun charged_within :: "nat \<Rightarrow> nat \<Rightarrow> lim_op \<Rightarrow> bool" where
  "charged_within a e (Charge key cost now) \<longleftrightarrow> a \<le> now \<and> now < e"
| "charged_within a e (Refund key start cost) \<longleftrightarrow> True"

text \<open>What a key can still be granted before time \<open>e\<close>.\<close>

definition left_until :: "nat \<Rightarrow> bytes \<Rightarrow> rate_limiter \<Rightarrow> nat" where
  "left_until e k rl =
     (case map_of (rl_buckets rl) k of
        None \<Rightarrow> unat (rl_max rl)
      | Some (start, used) \<Rightarrow>
          (unat (rl_max rl) - unat used) + (if e \<le> start + rl_window rl then 0 else unat (rl_max rl)))"


definition limiter_ok :: "rate_limiter \<Rightarrow> bool" where
  "limiter_ok rl \<longleftrightarrow> distinct (map fst (rl_buckets rl))"

lemma distinct_gc: "distinct (map fst bs) \<Longrightarrow> distinct (map fst (gc_buckets w now bs))"
  by (auto simp: gc_buckets_def distinct_map inj_on_def)

lemma map_of_gc:
  assumes "distinct (map fst bs)"
  shows "map_of (gc_buckets w now bs) k = map_of bs k \<or>
         (\<exists>start used. map_of bs k = Some (start, used) \<and> w \<le> now - start \<and> map_of (gc_buckets w now bs) k = None)"
  by (auto simp: gc_buckets_def map_of_filter_distinct [OF assms] not_less split: option.splits)

text \<open>Collecting expired buckets is invisible: a bucket that is dropped would have been restarted.\<close>

lemma bucket_entry_gc:
  assumes "distinct (map fst bs)"
  shows "bucket_entry w key now (gc_buckets w now bs) = bucket_entry w key now bs"
  using map_of_gc [OF assms, of w now key] by (auto simp: bucket_entry_def)

lemma limiter_op_config [simp]:
  "rl_max (snd (limiter_op i rl)) = rl_max rl" "rl_window (snd (limiter_op i rl)) = rl_window rl"
  by (cases i; auto simp: charge_n_def refund_def Let_def case_prod_unfold split: option.splits)+

lemma limiter_op_ok: "limiter_ok rl \<Longrightarrow> limiter_ok (snd (limiter_op i rl))"
  by (cases i) (auto simp: limiter_ok_def charge_n_def refund_def Let_def case_prod_unfold distinct_gc
      AList.distinct_update AList.distinct_delete split: option.splits)

interpretation limiter: machine limiter_op limiter_ok
  by unfold_locales (rule limiter_op_ok)

lemma limiter_run_config:
  "rl_max (snd (run limiter_op is rl)) = rl_max rl \<and> rl_window (snd (run limiter_op is rl)) = rl_window rl"
  by (induction "is" arbitrary: rl) (simp_all add: run_Cons del: run.simps(2))

lemma left_until_le: "left_until e k rl \<le> 2 * unat (rl_max rl)"
  by (auto simp: left_until_def split: option.splits)

lemma charge_n_bucket:
  assumes ok: "limiter_ok rl" and cost: "cost \<noteq> 0"
    and entry: "bucket_entry (rl_window rl) key now (rl_buckets rl) = (start, used)"
  shows "fst (charge_n key cost now rl) = (if saturating_add used cost \<le> rl_max rl then Some start else None)"
    and "map_of (rl_buckets (snd (charge_n key cost now rl))) key = Some (start, saturating_add used cost)"
  using assms by (simp_all add: charge_n_def bucket_entry_gc limiter_ok_def update_conv' Let_def)

lemma unat_saturating_add32: "unat (saturating_add u c) = min (unat u + unat c) (2 ^ 32 - 1)" for u c :: u32
  by (simp add: unat_saturating_add)

lemma bucket_entry_left:
  assumes e: "now < e" "e \<le> now + rl_window rl"
    and entry: "bucket_entry (rl_window rl) k now (rl_buckets rl) = (start, used)"
  shows "(unat (rl_max rl) - unat used) + (if e \<le> start + rl_window rl then 0 else unat (rl_max rl)) \<le> left_until e k rl"
  using assms by (auto simp: bucket_entry_def left_until_def Let_def split: option.splits if_splits)

text \<open>A charge pays for what it grants.\<close>

lemma charge_left_own:
  assumes ok: "limiter_ok rl" and m: "unat (rl_max rl) < 2 ^ 32 - 1" and e: "now < e" "e \<le> now + rl_window rl"
  shows "(if fst (charge_n k cost now rl) \<noteq> None then unat cost else 0)
           + left_until e k (snd (charge_n k cost now rl)) \<le> left_until e k rl"
proof (cases "cost = 0")
  case True
  then show ?thesis by (simp add: charge_n_def)
next
  case False
  obtain start used where entry: "bucket_entry (rl_window rl) k now (rl_buckets rl) = (start, used)"
    by (cases "bucket_entry (rl_window rl) k now (rl_buckets rl)")
  note b = charge_n_bucket [OF ok False entry]
  have "left_until e k (snd (charge_n k cost now rl)) =
          (unat (rl_max rl) - min (unat used + unat cost) (2 ^ 32 - 1)) + (if e \<le> start + rl_window rl then 0 else unat (rl_max rl))"
    using limiter_op_config [of "Charge k cost now" rl] by (simp add: left_until_def b unat_saturating_add32)
  moreover have "fst (charge_n k cost now rl) \<noteq> None \<longleftrightarrow> min (unat used + unat cost) (2 ^ 32 - 1) \<le> unat (rl_max rl)"
    by (simp add: b word_le_nat_alt unat_saturating_add32)
  ultimately show ?thesis
    using bucket_entry_left [OF e entry] m by (auto simp: min_def split: if_splits)
qed

lemma charge_left_other:
  assumes ok: "limiter_ok rl" and k: "key \<noteq> k" and e: "now < e" "e \<le> now + rl_window rl"
  shows "left_until e k (snd (charge_n key cost now rl)) \<le> left_until e k rl"
proof -
  consider "map_of (gc_buckets (rl_window rl) now (rl_buckets rl)) k = map_of (rl_buckets rl) k"
    | start used where "map_of (rl_buckets rl) k = Some (start, used)" "rl_window rl \<le> now - start"
        "map_of (gc_buckets (rl_window rl) now (rl_buckets rl)) k = None"
    using map_of_gc [of "rl_buckets rl" "rl_window rl" now k] ok by (auto simp: limiter_ok_def)
  then show ?thesis
    using k e by cases (auto simp: charge_n_def Let_def case_prod_unfold left_until_def update_conv' split: option.splits)
qed

lemma refund_left:
  "left_until e k (refund key start cost rl) \<le> left_until e k rl + (if key = k then unat cost else 0)"
proof (cases "map_of (rl_buckets rl) key")
  case None
  then show ?thesis by (simp add: refund_def)
next
  case (Some e)
  obtain s u where e: "e = (s, u)" by (cases e)
  have sub: "saturating_sub u cost = 0 \<Longrightarrow> unat u \<le> unat cost"
    using unat_saturating_sub [of u cost] by simp
  show ?thesis
  proof (cases "key = k")
    case True
    then show ?thesis
      using Some sub by (auto simp: e refund_def left_until_def update_conv' delete_conv' unat_saturating_sub Let_def)
  next
    case False
    then have "map_of (rl_buckets (refund key start cost rl)) k = map_of (rl_buckets rl) k"
      by (auto simp: refund_def update_conv' delete_conv' Let_def split: option.splits)
    then show ?thesis
      using False limiter_op_config [of "Refund key start cost" rl] by (simp add: left_until_def split: option.splits)
  qed
qed

lemma granted_le_left:
  assumes "limiter_ok rl" "unat (rl_max rl) < 2 ^ 32 - 1" "list_all (charged_within a e) ops" "e \<le> a + rl_window rl"
  shows "granted k ops (fst (run limiter_op ops rl)) \<le> left_until e k rl + given_back k ops"
  using assms
proof (induction ops arbitrary: rl)
  case (Cons i ops)
  let ?rl = "snd (limiter_op i rl)"
  have IH: "granted k ops (fst (run limiter_op ops ?rl)) \<le> left_until e k ?rl + given_back k ops"
    using Cons by (simp add: limiter_op_ok)
  show ?case
  proof (cases i)
    case (Charge key cost now)
    then have t: "now < e" "e \<le> now + rl_window rl" using Cons.prems by auto
    have "(if key = k \<and> fst (charge_n key cost now rl) \<noteq> None then unat cost else 0) + left_until e k ?rl \<le> left_until e k rl"
      using charge_left_own [OF Cons.prems(1,2) t, of k cost] charge_left_other [OF Cons.prems(1) _ t, of key k cost]
      by (cases "key = k") (simp_all add: Charge)
    then show ?thesis using IH by (simp add: Charge run_Cons del: run.simps(2))
  next
    case (Refund key start cost)
    then show ?thesis using IH refund_left [of e k key start cost rl] by (simp add: run_Cons del: run.simps(2))
  qed
qed simp

text \<open>
  C39: in any interval no longer than the window a key is granted at most twice the limit beyond
  what it gave back, whatever was charged and refunded before and whatever other keys do: no
  interleaving of charges, refunds and bucket collection lets a key exceed it.
\<close>

theorem limiter_window_bound:
  assumes "rl = snd (run limiter_op before (limiter_new m window))" and "unat m < 2 ^ 32 - 1"
    and "list_all (charged_within a e) ops" and "e \<le> a + window"
  shows "granted k ops (fst (run limiter_op ops rl)) \<le> 2 * unat m + given_back k ops"
proof -
  have ok: "limiter_ok rl"
    using limiter.run_inv [of "limiter_new m window" before] assms(1) by (simp add: limiter_ok_def limiter_new_def)
  have c: "rl_max rl = m" "rl_window rl = window"
    using limiter_run_config [of before "limiter_new m window"] assms(1) by (simp_all add: limiter_new_def)
  show ?thesis
    using granted_le_left [OF ok, of a e ops k] left_until_le [of e k rl] assms(2-4) c by simp
qed

theorem limiter_window_bound_witness:
  "granted [97] [Charge [97] 2 9, Charge [97] 2 10, Refund [97] 10 1, Charge [97] 1 12]
     (fst (run limiter_op [Charge [97] 2 9, Charge [97] 2 10, Refund [97] 10 1, Charge [97] 1 12]
        (snd (run limiter_op [Charge [97] 1 1] (limiter_new 3 9))))) \<le> 2 * unat (3 :: u32) + 1"
  using limiter_window_bound [of _ "[Charge [97] 1 1]" 3 9 9 18 "[Charge [97] 2 9, Charge [97] 2 10, Refund [97] 10 1, Charge [97] 1 12]" "[97]", OF refl]
  by simp

section \<open>The Coordinator's limiter is the Portal's with cost one\<close>

definition coord_op :: "bytes \<times> nat \<Rightarrow> rate_limiter \<Rightarrow> bool \<times> rate_limiter" where
  "coord_op = (\<lambda>(key, now). coord_check key now)"

definition portal_op :: "bytes \<times> nat \<Rightarrow> rate_limiter \<Rightarrow> bool \<times> rate_limiter" where
  "portal_op = (\<lambda>(key, now). portal_check key now)"

definition counts_below :: "nat \<Rightarrow> rate_limiter \<Rightarrow> bool" where
  "counts_below n rl \<longleftrightarrow> (\<forall>(_, _, used) \<in> set (rl_buckets rl). unat used \<le> n)"

lemma bucket_entry_below:
  assumes "counts_below n rl"
  shows "unat (snd (bucket_entry w key now (gc_buckets w now (rl_buckets rl)))) \<le> n"
  using assms by (auto simp: counts_below_def bucket_entry_def gc_buckets_def Let_def split: option.splits dest!: map_of_SomeD)

lemma saturating_add_1: "unat u < 2 ^ 32 - 1 \<Longrightarrow> saturating_add u 1 = u + 1" for u :: u32
  by (simp add: saturating_add_def)

lemma coord_check_eq_portal:
  assumes "counts_below n rl" "n < 2 ^ 32 - 1"
  shows "coord_check key now rl = portal_check key now rl"
proof -
  have "unat (snd (bucket_entry (rl_window rl) key now (gc_buckets (rl_window rl) now (rl_buckets rl)))) < 2 ^ 32 - 1"
    using bucket_entry_below [OF assms(1), of "rl_window rl" key now] assms(2) by simp
  then show ?thesis
    by (simp add: coord_check_def portal_check_def check_n_def charge_n_def Let_def case_prod_unfold saturating_add_1)
qed

lemma coord_check_below:
  assumes "counts_below n rl" "n < 2 ^ 32 - 1"
  shows "counts_below (Suc n) (snd (coord_check key now rl))"
proof -
  let ?bs = "gc_buckets (rl_window rl) now (rl_buckets rl)"
  let ?e = "bucket_entry (rl_window rl) key now ?bs"
  have e: "unat (snd ?e) \<le> n" by (rule bucket_entry_below [OF assms(1)])
  then have "unat (snd ?e + 1) \<le> Suc n"
    using assms(2) by (simp add: unat_word_ariths)
  moreover have "set ?bs \<subseteq> set (rl_buckets rl)" by (auto simp: gc_buckets_def)
  moreover have "set (AList.update key v ?bs) \<subseteq> insert (key, v) (set ?bs)" for v
    by (rule set_update_subset)
  ultimately show ?thesis
    using assms(1) by (fastforce simp: counts_below_def coord_check_def Let_def case_prod_unfold)
qed

lemma coord_run_eq_portal:
  assumes "counts_below n rl" "n + length hits < 2 ^ 32"
  shows "run coord_op hits rl = run portal_op hits rl"
  using assms
proof (induction hits arbitrary: n rl)
  case (Cons h hits)
  obtain key now where h: "h = (key, now)" by (cases h)
  have n: "n < 2 ^ 32 - 1" using Cons.prems(2) by simp
  have step: "coord_op h rl = portal_op h rl"
    by (simp add: h coord_op_def portal_op_def coord_check_eq_portal [OF Cons.prems(1) n])
  have "counts_below (Suc n) (snd (coord_op h rl))"
    by (simp add: h coord_op_def coord_check_below [OF Cons.prems(1) n])
  then have "run coord_op hits (snd (coord_op h rl)) = run portal_op hits (snd (coord_op h rl))"
    using Cons.prems(2) by (intro Cons.IH [of "Suc n"]) simp_all
  then show ?case by (simp add: run_Cons step del: run.simps(2))
qed simp

text \<open>The wrapped counter opens an exhausted bucket again.\<close>

lemma coord_check_wraps:
  "fst (coord_check [97] 5 \<lparr>rl_max = 3, rl_window = 10, rl_buckets = [([97], 1, - 1)]\<rparr>)"
  by (simp add: coord_check_def gc_buckets_def bucket_entry_def)

text \<open>
  The Coordinator's limiter, whose counter is an unchecked \<open>u32\<close> increment, gives the same
  answers as the saturating limiter of the Portal for the first \<open>2 ^ 32 - 1\<close> hits.
\<close>

theorem coord_limiter_is_portal:
  assumes "length hits < 2 ^ 32"
  shows "run coord_op hits (limiter_new m window) = run portal_op hits (limiter_new m window)"
  using assms by (intro coord_run_eq_portal [of 0]) (simp_all add: counts_below_def limiter_new_def)

theorem coord_limiter_is_portal_witness:
  "run coord_op [([97], 1), ([98], 2), ([97], 20)] (limiter_new 1 10) =
   run portal_op [([97], 1), ([98], 2), ([97], 20)] (limiter_new 1 10)"
  using coord_limiter_is_portal [of "[([97], 1), ([98], 2), ([97], 20)]" 1 10] by simp

end
