(* ===== verification/Ip_Text.thy ===== *)
theory Ip_Text
  imports Text Hex
begin

text \<open>
  IP addresses as text, as the standard library reads and writes them (\<open>IpAddr::from_str\<close>,
  \<open>Ipv4Addr::from_str\<close>, \<open>Display\<close>). A parser takes the bytes that are left and gives a value
  and what it leaves; a failed one leaves the input as it was, which is what \<open>read_atomically\<close>
  does. The lemmas show that printing an IPv4 address and reading it back gives the address.
\<close>

datatype ipv6addr = Ipv6Addr (v6_segments: "u16 list")
datatype ip_addr = V4 ipv4addr | V6 ipv6addr

type_synonym 'a parser = "bytes \<Rightarrow> ('a \<times> bytes) option"

section \<open>Reading\<close>

definition to_digit :: "nat \<Rightarrow> byte \<Rightarrow> nat option" where
  "to_digit radix c =
     (if radix = 10 then (if is_ascii_digit c then Some (unat c - 48) else None) else map_option unat (nib c))"

fun num_loop :: "nat \<Rightarrow> nat \<Rightarrow> nat \<Rightarrow> bytes \<Rightarrow> nat \<Rightarrow> nat \<Rightarrow> (nat \<times> nat \<times> bytes) option" where
  "num_loop radix bound max_digits [] acc count = Some (acc, count, [])"
| "num_loop radix bound max_digits (c # rest) acc count =
     (case to_digit radix c of
        None \<Rightarrow> Some (acc, count, c # rest)
      | Some d \<Rightarrow>
          if acc * radix + d > bound \<or> count + 1 > max_digits then None
          else num_loop radix bound max_digits rest (acc * radix + d) (count + 1))"

definition read_number :: "nat \<Rightarrow> nat \<Rightarrow> nat \<Rightarrow> bool \<Rightarrow> nat parser" where
  "read_number radix bound max_digits allow_zero_prefix s =
     (case num_loop radix bound max_digits s 0 0 of
        None \<Rightarrow> None
      | Some (v, count, rest) \<Rightarrow>
          if count = 0 then None
          else if \<not> allow_zero_prefix \<and> hd s = 48 \<and> count > 1 then None
          else Some (v, rest))"

definition read_given_char :: "byte \<Rightarrow> unit parser" where
  "read_given_char c s = (case s of [] \<Rightarrow> None | b # rest \<Rightarrow> if b = c then Some ((), rest) else None)"

definition read_separator :: "byte \<Rightarrow> nat \<Rightarrow> 'a parser \<Rightarrow> 'a parser" where
  "read_separator sep index inner s =
     (if index > 0 then Option.bind (read_given_char sep s) (\<lambda>(_, rest). inner rest) else inner s)"

definition read_octet :: "nat \<Rightarrow> byte parser" where
  "read_octet index s =
     map_option (\<lambda>(v, rest). (word_of_nat v, rest)) (read_separator 46 index (read_number 10 255 3 False) s)"

definition read_ipv4_addr :: "ipv4addr parser" where
  "read_ipv4_addr s =
     Option.bind (read_octet 0 s) (\<lambda>(a, s1).
     Option.bind (read_octet 1 s1) (\<lambda>(b, s2).
     Option.bind (read_octet 2 s2) (\<lambda>(c, s3).
     Option.bind (read_octet 3 s3) (\<lambda>(d, s4). Some (Ipv4Addr a b c d, s4)))))"

text \<open>
  The groups of an IPv6 address: how many may still come, the index of the next one, the groups read,
  whether they end in an embedded IPv4 address, and what is left.
\<close>

fun read_groups :: "nat \<Rightarrow> nat \<Rightarrow> bytes \<Rightarrow> u16 list \<times> bool \<times> bytes" where
  "read_groups 0 i s = ([], False, s)"
| "read_groups (Suc n) i s =
     (case (if n > 0 then read_separator 58 i read_ipv4_addr s else None) of
        Some (Ipv4Addr a b c d, rest) \<Rightarrow> ([of_be [a, b], of_be [c, d]], True, rest)
      | None \<Rightarrow>
          (case read_separator 58 i (read_number 16 65535 4 True) s of
             None \<Rightarrow> ([], False, s)
           | Some (g, rest) \<Rightarrow>
               (let (gs, v4, rest') = read_groups n (Suc i) rest in (word_of_nat g # gs, v4, rest'))))"

definition read_ipv6_addr :: "ipv6addr parser" where
  "read_ipv6_addr s =
     (let (head, head_ipv4, s1) = read_groups 8 0 s in
      if length head = 8 then Some (Ipv6Addr head, s1)
      else if head_ipv4 then None
      else
        Option.bind (read_given_char 58 s1) (\<lambda>(_, s2).
        Option.bind (read_given_char 58 s2) (\<lambda>(_, s3).
        let (tail, _, s4) = read_groups (8 - (length head + 1)) 0 s3 in
        Some (Ipv6Addr (head @ replicate (8 - length head - length tail) 0 @ tail), s4))))"

definition parse_ipv4 :: "bytes \<Rightarrow> ipv4addr option" where
  "parse_ipv4 s =
     (if length s > 15 then None
      else case read_ipv4_addr s of Some (a, []) \<Rightarrow> Some a | _ \<Rightarrow> None)"

definition read_ip_addr :: "ip_addr parser" where
  "read_ip_addr s =
     (case read_ipv4_addr s of
        Some (a, rest) \<Rightarrow> Some (V4 a, rest)
      | None \<Rightarrow> map_option (\<lambda>(a, rest). (V6 a, rest)) (read_ipv6_addr s))"

definition parse_ip :: "bytes \<Rightarrow> ip_addr option" where
  "parse_ip s = (case read_ip_addr s of Some (a, []) \<Rightarrow> Some a | _ \<Rightarrow> None)"

section \<open>Writing\<close>

primrec ipv4_to_string :: "ipv4addr \<Rightarrow> bytes" where
  "ipv4_to_string (Ipv4Addr a b c d) =
     u_to_string a @ 46 # u_to_string b @ 46 # u_to_string c @ 46 # u_to_string d"

text \<open>The first longest run of zero segments, as a start and a length.\<close>

fun zero_run :: "u16 list \<Rightarrow> nat \<Rightarrow> nat \<times> nat \<Rightarrow> nat \<times> nat \<Rightarrow> nat \<times> nat" where
  "zero_run [] i current longest = longest"
| "zero_run (g # gs) i current longest =
     (if g = 0 then
        (let current' = (if snd current = 0 then i else fst current, snd current + 1) in
         zero_run gs (i + 1) current' (if snd current' > snd longest then current' else longest))
      else zero_run gs (i + 1) (0, 0) longest)"

fun fmt_subslice :: "u16 list \<Rightarrow> bytes" where
  "fmt_subslice [] = []"
| "fmt_subslice [g] = hex_digits (unat g)"
| "fmt_subslice (g # gs) = hex_digits (unat g) @ 58 # fmt_subslice gs"

definition ipv6_to_string :: "ipv6addr \<Rightarrow> bytes" where
  "ipv6_to_string a =
     (let gs = v6_segments a in
      if take 6 gs = [0, 0, 0, 0, 0, 65535] then
        lit ''::ffff:'' @ ipv4_to_string (ipv4_of_octets (to_be 2 (gs ! 6) @ to_be 2 (gs ! 7)))
      else
        let (start, len) = zero_run gs 0 (0, 0) (0, 0) in
        if len > 1 then fmt_subslice (take start gs) @ [58, 58] @ fmt_subslice (drop (start + len) gs)
        else fmt_subslice gs)"

primrec ip_to_string :: "ip_addr \<Rightarrow> bytes" where
  "ip_to_string (V4 a) = ipv4_to_string a"
| "ip_to_string (V6 a) = ipv6_to_string a"

section \<open>Classes of IPv4 addresses\<close>

primrec v4_first :: "ipv4addr \<Rightarrow> byte" where
  "v4_first (Ipv4Addr a b c d) = a"

definition v4_unspecified :: "ipv4addr \<Rightarrow> bool" where
  "v4_unspecified a \<longleftrightarrow> a = Ipv4Addr 0 0 0 0"

definition v4_loopback :: "ipv4addr \<Rightarrow> bool" where
  "v4_loopback a \<longleftrightarrow> v4_first a = 127"

definition v4_multicast :: "ipv4addr \<Rightarrow> bool" where
  "v4_multicast a \<longleftrightarrow> 224 \<le> v4_first a \<and> v4_first a \<le> 239"

definition v4_broadcast :: ipv4addr where
  "v4_broadcast = Ipv4Addr 255 255 255 255"

section \<open>Printing and reading back\<close>

lemma dec_no_zero_prefix: "hd (dec_of_nat n) = 48 \<Longrightarrow> length (dec_of_nat n) = 1"
proof (induction n rule: dec_of_nat.induct)
  case (1 n)
  show ?case
  proof (cases "n < 10")
    case True
    then show ?thesis by (simp add: dec_of_nat.simps [of n])
  next
    case False
    then have s: "dec_of_nat n = dec_of_nat (n div 10) @ [word_of_nat (48 + n mod 10)]" by (simp add: dec_of_nat.simps [of n])
    then have "hd (dec_of_nat (n div 10)) = 48" using 1(2) by simp
    moreover from this have "length (dec_of_nat (n div 10)) = 1" using 1(1) False by simp
    ultimately have "dec_of_nat (n div 10) = [48]" by (cases "dec_of_nat (n div 10)") auto
    then have "nat_of_dec (dec_of_nat (n div 10)) = 0" by (simp add: nat_of_dec_def)
    then show ?thesis using False by simp
  qed
qed

lemma nat_of_dec_Cons: "nat_of_dec (d # ds) = (unat d - 48) * 10 ^ length ds + nat_of_dec ds"
proof (induction ds rule: rev_induct)
  case (snoc x xs)
  then show ?case using nat_of_dec_snoc [of "d # xs" x] by (simp add: algebra_simps)
qed (simp add: nat_of_dec_def)

lemma num_loop_digits:
  assumes "list_all is_ascii_digit ds" and "acc * 10 ^ length ds + nat_of_dec ds \<le> bound" and "count + length ds \<le> maxd"
    and "rest = [] \<or> \<not> is_ascii_digit (hd rest)"
  shows "num_loop 10 bound maxd (ds @ rest) acc count =
    Some (acc * 10 ^ length ds + nat_of_dec ds, count + length ds, rest)"
  using assms
proof (induction ds arbitrary: acc count)
  case Nil
  then show ?case by (cases rest) (auto simp: to_digit_def nat_of_dec_def)
next
  case (Cons d ds)
  have e: "(acc * 10 + (unat d - 48)) * 10 ^ length ds + nat_of_dec ds = acc * 10 ^ length (d # ds) + nat_of_dec (d # ds)"
    by (simp add: nat_of_dec_Cons algebra_simps)
  have "acc * 10 + (unat d - 48) \<le> (acc * 10 + (unat d - 48)) * 10 ^ length ds + nat_of_dec ds"
    by (rule trans_le_add1) (use mult_le_mono2 [of 1 "10 ^ length ds" "acc * 10 + (unat d - 48)"] in simp)
  also have "\<dots> \<le> bound" unfolding e by (rule Cons.prems(2))
  finally show ?case
    using Cons.IH [of "acc * 10 + (unat d - 48)" "count + 1"] Cons.prems unfolding e by (simp add: to_digit_def)
qed

lemma read_number_dec:
  assumes "n \<le> 255" and "rest = [] \<or> \<not> is_ascii_digit (hd rest)"
  shows "read_number 10 255 3 False (dec_of_nat n @ rest) = Some (n, rest)"
proof -
  have "length (dec_of_nat n) \<le> 3" using length_dec [of n 2] assms(1) by simp
  then have "num_loop 10 255 3 (dec_of_nat n @ rest) 0 0 = Some (n, length (dec_of_nat n), rest)"
    using num_loop_digits [OF dec_digits, of 0 n 255 0 3 rest] assms by simp
  then show ?thesis using dec_no_zero_prefix [of n] by (auto simp: read_number_def)
qed

lemma read_octet_dec:
  assumes "rest = [] \<or> \<not> is_ascii_digit (hd rest)"
  shows "read_octet 0 (u_to_string a @ rest) = Some (a, rest)"
    and "0 < i \<Longrightarrow> read_octet i (46 # u_to_string a @ rest) = Some (a, rest)"
  using read_number_dec [OF _ assms, of "unat a"] unat_byte_lt [of a]
  by (simp_all add: read_octet_def read_separator_def read_given_char_def u_to_string_def)

lemma read_ipv4_to_string:
  assumes "rest = [] \<or> \<not> is_ascii_digit (hd rest)"
  shows "read_ipv4_addr (ipv4_to_string a @ rest) = Some (a, rest)"
proof -
  have dot: "46 # s = [] \<or> \<not> is_ascii_digit (hd (46 # s))" for s by (simp add: is_ascii_digit_def)
  show ?thesis
    by (cases a) (simp add: read_ipv4_addr_def read_octet_dec [OF dot] read_octet_dec [OF assms])
qed

lemma length_octet: "length (u_to_string (a :: byte)) \<le> 3"
  using length_dec [of "unat a" 2] unat_byte_lt [of a] by (simp add: u_to_string_def)

lemma length_ipv4_to_string: "length (ipv4_to_string a) \<le> 15"
proof (cases a)
  case (Ipv4Addr x y z w)
  then show ?thesis using length_octet [of x] length_octet [of y] length_octet [of z] length_octet [of w] by simp
qed

lemma parse_ipv4_to_string [simp]: "parse_ipv4 (ipv4_to_string a) = Some a"
  using read_ipv4_to_string [of "[]" a] length_ipv4_to_string [of a] by (simp add: parse_ipv4_def)

lemma parse_ip_to_string_V4 [simp]: "parse_ip (ipv4_to_string a) = Some (V4 a)"
  using read_ipv4_to_string [of "[]" a] by (simp add: parse_ip_def read_ip_addr_def)

lemma parse_ipv4_ip: "parse_ipv4 s = Some a \<Longrightarrow> parse_ip s = Some (V4 a)"
  by (auto simp: parse_ipv4_def parse_ip_def read_ip_addr_def split: if_splits option.splits list.splits)

end
