(* ===== verification/Net.thy ===== *)
theory Net
  imports Ip_Text
begin

text \<open>
  The guards of nil-core/src/net.rs: boolean environment flags and the rule that a sensitive link is
  TLS or loopback. The WHATWG URL parser is a parameter, a function from the trimmed text to the
  scheme and the host it finds; \<open>env\<close> is the process environment and \<open>debug\<close> says whether the build
  has debug assertions.
\<close>

type_synonym environment = "string \<Rightarrow> bytes option"

text \<open>\<open>std::env::var\<close>: present and UTF-8, absent, or not UTF-8.\<close>

datatype env_result = EnvOk bytes | EnvNotPresent | EnvNotUnicode

definition env_var :: "environment \<Rightarrow> string \<Rightarrow> env_result" where
  "env_var env name =
     (case env name of None \<Rightarrow> EnvNotPresent | Some v \<Rightarrow> if utf8_valid v then EnvOk v else EnvNotUnicode)"

definition env_ok :: "environment \<Rightarrow> string \<Rightarrow> bytes option" where
  "env_ok env name = (case env_var env name of EnvOk v \<Rightarrow> Some v | _ \<Rightarrow> None)"

definition eq_ignore_ascii_case :: "bytes \<Rightarrow> bytes \<Rightarrow> bool" where
  "eq_ignore_ascii_case a b \<longleftrightarrow> map ascii_lower a = map ascii_lower b"

definition env_flag :: "environment \<Rightarrow> string \<Rightarrow> bool" where
  "env_flag env name =
     (case env_ok env name of
        None \<Rightarrow> False
      | Some v \<Rightarrow> let v = trim v in v = lit ''1'' \<or> eq_ignore_ascii_case v (lit ''true''))"

definition dev_env_flag :: "bool \<Rightarrow> environment \<Rightarrow> string \<Rightarrow> bool" where
  "dev_env_flag debug env name = (if debug then env_flag env name else False)"

datatype url_host = Domain bytes | HostV4 ipv4addr | HostV6 ipv6addr

record url =
  u_scheme :: bytes
  u_host :: "url_host option"

datatype url_error = InvalidUrl | NoHost | UnsupportedScheme bytes | PlaintextHost "url_host option"

definition v6_loopback :: "ipv6addr \<Rightarrow> bool" where
  "v6_loopback a \<longleftrightarrow> v6_segments a = [0, 0, 0, 0, 0, 0, 0, 1]"

primrec ip_is_loopback :: "ip_addr \<Rightarrow> bool" where
  "ip_is_loopback (V4 a) \<longleftrightarrow> v4_loopback a"
| "ip_is_loopback (V6 a) \<longleftrightarrow> v6_loopback a"

definition parse_network_url :: "(bytes \<Rightarrow> url option) \<Rightarrow> bytes \<Rightarrow> url_error + url" where
  "parse_network_url url_parse raw =
     bindE (ok_or InvalidUrl (url_parse (trim raw))) (\<lambda>parsed.
     if u_host parsed = None then Inl NoHost else Inr parsed)"

definition url_is_loopback :: "url \<Rightarrow> bool" where
  "url_is_loopback u =
     (case u_host u of
        Some (Domain host) \<Rightarrow> eq_ignore_ascii_case host (lit ''localhost'')
      | Some (HostV4 ip) \<Rightarrow> v4_loopback ip
      | Some (HostV6 ip) \<Rightarrow> v6_loopback ip
      | None \<Rightarrow> False)"

definition require_https_or_debug_loopback :: "bool \<Rightarrow> (bytes \<Rightarrow> url option) \<Rightarrow> bytes \<Rightarrow> url_error + unit" where
  "require_https_or_debug_loopback debug url_parse raw =
     bindE (parse_network_url url_parse raw) (\<lambda>parsed.
     if u_scheme parsed = lit ''https'' then Inr ()
     else if u_scheme parsed \<noteq> lit ''http'' then Inl (UnsupportedScheme (u_scheme parsed))
     else if debug \<and> url_is_loopback parsed then Inr ()
     else Inl (PlaintextHost (u_host parsed)))"

definition require_tls_or_loopback :: "(bytes \<Rightarrow> url option) \<Rightarrow> bytes \<Rightarrow> url_error + unit" where
  "require_tls_or_loopback url_parse raw =
     bindE (parse_network_url url_parse raw) (\<lambda>parsed.
     if u_scheme parsed = lit ''https'' then Inr ()
     else if u_scheme parsed \<noteq> lit ''http'' then Inl (UnsupportedScheme (u_scheme parsed))
     else if url_is_loopback parsed then Inr ()
     else Inl (PlaintextHost (u_host parsed)))"

definition is_loopback_host :: "bytes \<Rightarrow> bool" where
  "is_loopback_host host \<longleftrightarrow>
     eq_ignore_ascii_case host (lit ''localhost'') \<or>
     (case parse_ip host of None \<Rightarrow> False | Some ip \<Rightarrow> ip_is_loopback ip)"

lemma schemes_differ [simp]: "lit ''http'' \<noteq> lit ''https''"
  by (simp add: lit_def)

text \<open>
  A sensitive link is never plaintext across a network. The guards accept a URL exactly when it has
  a network host and its scheme is https, or http to a loopback host where the build allows that; a
  release build allows none, the guards reject every other scheme, and a release build ignores every
  development flag.
\<close>

theorem sensitive_links_guarded:
  "(require_https_or_debug_loopback debug url_parse raw = Inr () \<longleftrightarrow>
      (\<exists>u. url_parse (trim raw) = Some u \<and> u_host u \<noteq> None \<and>
         (u_scheme u = lit ''https'' \<or> (debug \<and> u_scheme u = lit ''http'' \<and> url_is_loopback u)))) \<and>
   (require_tls_or_loopback url_parse raw = Inr () \<longleftrightarrow>
      (\<exists>u. url_parse (trim raw) = Some u \<and> u_host u \<noteq> None \<and>
         (u_scheme u = lit ''https'' \<or> (u_scheme u = lit ''http'' \<and> url_is_loopback u)))) \<and>
   \<not> dev_env_flag False env name"
proof (cases "url_parse (trim raw)")
  case None
  then show ?thesis
    by (simp add: require_https_or_debug_loopback_def require_tls_or_loopback_def parse_network_url_def dev_env_flag_def bindE_def)
next
  case (Some u)
  then show ?thesis
    by (cases "u_host u")
       (auto simp: require_https_or_debug_loopback_def require_tls_or_loopback_def parse_network_url_def dev_env_flag_def)
qed

end
