(* ===== verification/Client_Ip.thy ===== *)
theory Client_Ip
  imports Net
begin

text \<open>
  Source attribution for the rate-limited endpoints (nil-coordinator/src/client_ip.rs, which
  nil-portal/src/client_ip.rs repeats with another message). A header map is the list of its
  (lower-case name, value) pairs in order; the peer is the address of the socket.
\<close>

type_synonym headers = "(bytes \<times> bytes) list"

definition CLIENT_IP_HEADER :: bytes where
  "CLIENT_IP_HEADER = lit ''x-nil-client-ip''"

text \<open>\<open>HeaderValue::to_str\<close>: visible ASCII and tabs only.\<close>

definition visible_ascii :: "byte \<Rightarrow> bool" where
  "visible_ascii b \<longleftrightarrow> 32 \<le> b \<and> b < 127 \<or> b = 9"

definition header_to_str :: "bytes \<Rightarrow> bytes option" where
  "header_to_str v = (if list_all visible_ascii v then Some v else None)"

definition get_all :: "bytes \<Rightarrow> headers \<Rightarrow> bytes list" where
  "get_all name hs = map snd (filter (\<lambda>(n, v). n = name) hs)"

datatype client_ip_rejection =
  MissingConnectInfo | MissingPolicy | UntrustedPeer | InvalidHeader | UnexpectedHeader

datatype policy_error = NonUnicodeProxy | NonCanonicalProxy | ProxyRequired

record client_ip_policy =
  cp_trusted_proxy :: "ip_addr option"

definition parse_canonical_ip :: "bytes \<Rightarrow> ip_addr option" where
  "parse_canonical_ip raw =
     Option.bind (parse_ip raw) (\<lambda>parsed. if ip_to_string parsed = raw then Some parsed else None)"

definition from_config :: "bytes option \<Rightarrow> bool \<Rightarrow> policy_error + client_ip_policy" where
  "from_config raw release_build =
     (case raw of
        Some r \<Rightarrow> bindE (ok_or NonCanonicalProxy (parse_canonical_ip r)) (\<lambda>ip. Inr \<lparr>cp_trusted_proxy = Some ip\<rparr>)
      | None \<Rightarrow> if release_build then Inl ProxyRequired else Inr \<lparr>cp_trusted_proxy = None\<rparr>)"

definition policy_from_env :: "environment \<Rightarrow> bool \<Rightarrow> policy_error + client_ip_policy" where
  "policy_from_env env release_build =
     (case env_var env ''NW_TRUSTED_PROXY_IP'' of
        EnvOk raw \<Rightarrow> from_config (Some raw) release_build
      | EnvNotPresent \<Rightarrow> from_config None release_build
      | EnvNotUnicode \<Rightarrow> Inl NonUnicodeProxy)"

definition resolve :: "client_ip_policy \<Rightarrow> ip_addr \<Rightarrow> headers \<Rightarrow> client_ip_rejection + ip_addr" where
  "resolve policy peer hs =
     (case cp_trusted_proxy policy of
        None \<Rightarrow> if CLIENT_IP_HEADER \<in> fst ` set hs then Inl UnexpectedHeader else Inr peer
      | Some trusted_proxy \<Rightarrow>
          if peer \<noteq> trusted_proxy then Inl UntrustedPeer
          else
            (case get_all CLIENT_IP_HEADER hs of
               [] \<Rightarrow> Inl InvalidHeader
             | v # vs \<Rightarrow>
                 if vs \<noteq> [] then Inl InvalidHeader
                 else
                   bindE (ok_or InvalidHeader (header_to_str v)) (\<lambda>raw.
                   ok_or InvalidHeader (parse_canonical_ip raw))))"

definition rejection_status :: "client_ip_rejection \<Rightarrow> nat" where
  "rejection_status r =
     (case r of
        MissingConnectInfo \<Rightarrow> 500 | MissingPolicy \<Rightarrow> 500 | UntrustedPeer \<Rightarrow> 403
      | InvalidHeader \<Rightarrow> 400 | UnexpectedHeader \<Rightarrow> 400)"

text \<open>The parts of a request the extractor reads: the extensions and the headers.\<close>

record parts =
  pa_connect :: "ip_addr option"
  pa_policy :: "client_ip_policy option"
  pa_headers :: headers

definition from_request_parts :: "parts \<Rightarrow> client_ip_rejection + ip_addr" where
  "from_request_parts p =
     bindE (ok_or MissingConnectInfo (pa_connect p)) (\<lambda>peer.
     bindE (ok_or MissingPolicy (pa_policy p)) (\<lambda>policy.
     resolve policy peer (pa_headers p)))"

section \<open>Attribution\<close>

lemma parse_canonical_ip_Some: "parse_canonical_ip raw = Some ip \<longleftrightarrow> raw = ip_to_string ip \<and> parse_ip raw = Some ip"
  by (auto simp: parse_canonical_ip_def bind_eq_Some_conv split: if_splits)

lemma get_all_Nil: "get_all name hs = [] \<longleftrightarrow> name \<notin> fst ` set hs"
  by (force simp: get_all_def filter_empty_conv)

lemma resolve_Inr:
  "resolve policy peer hs = Inr ip \<longleftrightarrow>
     (case cp_trusted_proxy policy of
        None \<Rightarrow> get_all CLIENT_IP_HEADER hs = [] \<and> ip = peer
      | Some proxy \<Rightarrow> peer = proxy \<and> get_all CLIENT_IP_HEADER hs = [ip_to_string ip] \<and>
          list_all visible_ascii (ip_to_string ip) \<and> parse_ip (ip_to_string ip) = Some ip)"
proof (cases "cp_trusted_proxy policy")
  case None
  then show ?thesis by (auto simp: resolve_def get_all_Nil)
next
  case (Some proxy)
  then show ?thesis
    by (auto simp: resolve_def header_to_str_def parse_canonical_ip_Some bindE_def split: list.splits if_splits)
qed

lemma from_request_parts_Inr:
  "from_request_parts p = Inr ip \<longleftrightarrow>
     (\<exists>peer policy. pa_connect p = Some peer \<and> pa_policy p = Some policy \<and> resolve policy peer (pa_headers p) = Inr ip)"
  by (cases "pa_connect p"; cases "pa_policy p") (auto simp: from_request_parts_def bindE_def)

lemma policy_from_env_Inr:
  "policy_from_env env release = Inr policy \<Longrightarrow> release \<Longrightarrow>
     \<exists>ip. cp_trusted_proxy policy = Some ip \<and> env ''NW_TRUSTED_PROXY_IP'' = Some (ip_to_string ip)"
  by (auto simp: policy_from_env_def env_var_def from_config_def parse_canonical_ip_Some bindE_def
      split: option.splits if_splits env_result.splits sum.splits)

lemma ipv4_visible: "list_all visible_ascii (ipv4_to_string a)"
proof -
  have "list_all visible_ascii (u_to_string w)" for w :: byte
    using dec_digits [of "unat w"]
    by (auto simp: u_to_string_def list_all_iff visible_ascii_def is_ascii_digit_def word_le_nat_alt word_less_nat_alt)
  then show ?thesis by (cases a) (simp add: visible_ascii_def)
qed

lemma visible_utf8: "list_all visible_ascii v \<Longrightarrow> utf8_valid v"
proof (rule ascii_utf8)
  fix b assume "list_all visible_ascii v" "b \<in> set v"
  then have "visible_ascii b" by (simp add: list_all_iff)
  then show "b < 128" by (auto simp: visible_ascii_def word_less_nat_alt)
qed

text \<open>
  C40: source attribution cannot be chosen by a caller. With the policy a release build loads, a
  request that is attributed to an address came over a socket from the one pinned proxy and carries
  that address, canonically written, as the only value of the reserved header; and the proxy can
  attribute a request to every IPv4 address that way.
\<close>

theorem client_ip_attribution:
  assumes "policy_from_env env True = Inr policy" and "pa_policy p = Some policy"
  shows "\<exists>proxy. env ''NW_TRUSTED_PROXY_IP'' = Some (ip_to_string proxy) \<and>
    (from_request_parts p = Inr ip \<longrightarrow>
       pa_connect p = Some proxy \<and> get_all CLIENT_IP_HEADER (pa_headers p) = [ip_to_string ip]) \<and>
    (pa_connect p = Some proxy \<and> get_all CLIENT_IP_HEADER (pa_headers p) = [ipv4_to_string a] \<longrightarrow>
       from_request_parts p = Inr (V4 a)) \<and>
    (pa_connect p \<noteq> None \<and> pa_connect p \<noteq> Some proxy \<longrightarrow> from_request_parts p = Inl UntrustedPeer)"
proof -
  from policy_from_env_Inr [OF assms(1) TrueI] obtain proxy
    where proxy: "cp_trusted_proxy policy = Some proxy" "env ''NW_TRUSTED_PROXY_IP'' = Some (ip_to_string proxy)" by blast
  have "from_request_parts p = Inl UntrustedPeer" if "pa_connect p = Some peer" "peer \<noteq> proxy" for peer
    using that assms(2) proxy(1) by (simp add: from_request_parts_def resolve_def)
  then show ?thesis
    using assms(2) proxy ipv4_visible [of a]
    by (intro exI [of _ proxy]) (auto simp: from_request_parts_Inr resolve_Inr)
qed

theorem client_ip_attribution_witness:
  "from_request_parts \<lparr>pa_connect = Some (V4 (Ipv4Addr 10 0 0 2)), pa_policy = Some \<lparr>cp_trusted_proxy = Some (V4 (Ipv4Addr 10 0 0 2))\<rparr>,
     pa_headers = [(CLIENT_IP_HEADER, ipv4_to_string (Ipv4Addr 198 51 100 7))]\<rparr> = Inr (V4 (Ipv4Addr 198 51 100 7))"
proof -
  let ?proxy = "V4 (Ipv4Addr 10 0 0 2)"
  let ?env = "\<lambda>name. if name = ''NW_TRUSTED_PROXY_IP'' then Some (ip_to_string ?proxy) else None"
  let ?p = "\<lparr>pa_connect = Some ?proxy, pa_policy = Some \<lparr>cp_trusted_proxy = Some ?proxy\<rparr>,
     pa_headers = [(CLIENT_IP_HEADER, ipv4_to_string (Ipv4Addr 198 51 100 7))]\<rparr>"
  have u: "utf8_valid (ip_to_string ?proxy)"
    using visible_utf8 [OF ipv4_visible] by (simp only: ip_to_string.simps)
  have "policy_from_env ?env True = Inr \<lparr>cp_trusted_proxy = Some ?proxy\<rparr>"
    using u by (simp add: policy_from_env_def env_var_def from_config_def parse_canonical_ip_def del: ipv4_to_string.simps)
  from client_ip_attribution [OF this, of ?p _ "Ipv4Addr 198 51 100 7"] obtain proxy
    where "ip_to_string ?proxy = ip_to_string proxy"
      "pa_connect ?p = Some proxy \<and> get_all CLIENT_IP_HEADER (pa_headers ?p) = [ipv4_to_string (Ipv4Addr 198 51 100 7)] \<longrightarrow>
       from_request_parts ?p = Inr (V4 (Ipv4Addr 198 51 100 7))"
      "pa_connect ?p \<noteq> None \<and> pa_connect ?p \<noteq> Some proxy \<longrightarrow> from_request_parts ?p = Inl UntrustedPeer"
    by auto
  moreover have "from_request_parts ?p \<noteq> Inl UntrustedPeer"
    by (simp add: from_request_parts_def resolve_def get_all_def header_to_str_def ok_or_def bindE_def split: option.split)
  ultimately show ?thesis by (cases "proxy = ?proxy") (auto simp: get_all_def simp del: ipv4_to_string.simps)
qed

end
