(* ===== verification/Pathsel.thy ===== *)
theory Pathsel
  imports Grant Net
begin

text \<open>
  The node registry of the Coordinator (the first part of nil-coordinator/src/pathsel.rs). The
  registry file is read in two steps, the JSON decoding (a parameter) and the validation, which is
  modelled field by field; the lemmas show what a registry that was accepted is made of.
\<close>

section \<open>Data\<close>

datatype path_role = RoleEntry | RoleMiddle | RoleExit

datatype wire_tee = WSevSnp | WTdx

record tcb_floor =
  tf_fmc :: "byte option"
  tf_bootloader :: byte
  tf_tee :: byte
  tf_snp :: byte
  tf_microcode :: byte

record wire_tdx_policy =
  wt_td_attributes :: bytes
  wt_xfam :: bytes
  wt_mr_config_id :: bytes
  wt_mr_owner :: bytes
  wt_mr_owner_config :: bytes
  wt_rt_mr0 :: bytes
  wt_rt_mr1 :: bytes
  wt_rt_mr2 :: bytes
  wt_rt_mr3 :: bytes
  wt_mr_service_td :: "bytes option"

record tdx_policy =
  tp_td_attributes :: bytes
  tp_xfam :: bytes
  tp_mr_config_id :: bytes
  tp_mr_owner :: bytes
  tp_mr_owner_config :: bytes
  tp_rt_mr0 :: bytes
  tp_rt_mr1 :: bytes
  tp_rt_mr2 :: bytes
  tp_rt_mr3 :: bytes
  tp_mr_service_td :: "bytes option"

record registry_file_node =
  rf_id :: bytes
  rf_host :: bytes
  rf_port :: u16
  rf_tee :: bytes
  rf_measurement :: bytes
  rf_tls_spki_sha256 :: "bytes option"
  rf_operator :: bytes
  rf_jurisdiction :: bytes
  rf_wg_pub :: "bytes option"
  rf_role :: bytes
  rf_min_tcb_sevsnp :: "tcb_floor option"
  rf_tdx_policy :: "wire_tdx_policy option"
  rf_transparency_log_key :: "bytes option"

record registry_node =
  rn_id :: bytes
  rn_host :: bytes
  rn_port :: u16
  rn_tee :: wire_tee
  rn_measurement :: bytes
  rn_tls_spki_sha256 :: "bytes option"
  rn_operator :: bytes
  rn_jurisdiction :: bytes
  rn_wg_pub :: "bytes option"
  rn_role :: path_role
  rn_min_tcb_sevsnp :: "tcb_floor option"
  rn_tdx_policy :: "tdx_policy option"
  rn_transparency_log_key :: "bytes option"

record hop =
  hp_host :: bytes
  hp_port :: u16
  hp_tee :: wire_tee
  hp_measurement :: bytes
  hp_tls_spki_sha256 :: "bytes option"
  hp_wg_pub :: "bytes option"
  hp_min_tcb_sevsnp :: "tcb_floor option"
  hp_tdx_policy :: "wire_tdx_policy option"
  hp_transparency_log_key :: "bytes option"
  hp_grant :: "bytes option"
  hp_grant_nonce :: "bytes option"

record selected_hop =
  sh_hop :: hop
  sh_node_id :: bytes
  sh_intended_role :: path_role

record node_registry =
  nr_nodes :: "registry_node list"
  nr_dead :: "bytes set"

datatype registry_error =
    BadId grant_error | SlugLength string nat | SlugStart string | SlugEnd string | SlugChars string
  | BadJurisdiction | HostLength | HostNotCanonicalIp | HostMalformedIp | HostDot
  | LabelLength | LabelHyphen | LabelChars | PortZero | BadTee bytes | BadRole bytes
  | HexLength string nat | HexChars string | HexInvalid string | TcbOnTdx | TdxDebug | TdxZero string
  | TdxPolicyRequired | TdxPolicyOnSev | RegistryUnreadable bytes | RegistryUnparsable bytes
  | RegistryEmpty bytes | AtEntry nat registry_error | DuplicateId nat bytes | DuplicateEndpoint nat bytes u16
  | RegistryUnset

section \<open>Roles\<close>

definition path_role_parse :: "bytes \<Rightarrow> path_role option" where
  "path_role_parse s =
     (if s = lit ''entry'' then Some RoleEntry
      else if s = lit ''middle'' then Some RoleMiddle
      else if s = lit ''exit'' then Some RoleExit else None)"

definition for_position :: "nat \<Rightarrow> nat \<Rightarrow> path_role" where
  "for_position i hops = (if i + 1 = hops then RoleExit else if i = 0 then RoleEntry else RoleMiddle)"

definition fills :: "registry_node \<Rightarrow> path_role \<Rightarrow> bool" where
  "fills n pos \<longleftrightarrow> rn_role n = pos"

section \<open>Validation\<close>

definition validate_lower_hex :: "string \<Rightarrow> bytes \<Rightarrow> nat \<Rightarrow> registry_error + unit" where
  "validate_lower_hex fd v n =
     (if length v \<noteq> n * 2 then Inl (HexLength fd n)
      else if \<not> list_all lower_hex_digit v then Inl (HexChars fd)
      else Inr ())"

definition decode_fixed_hex :: "nat \<Rightarrow> string \<Rightarrow> bytes \<Rightarrow> registry_error + bytes" where
  "decode_fixed_hex n fd v =
     bindE (validate_lower_hex fd v n) (\<lambda>_.
     ok_or (HexInvalid fd) (Option.bind (from_hex v) (\<lambda>bs. if length bs = n then Some bs else None)))"

definition all_zero :: "bytes \<Rightarrow> bool" where
  "all_zero bs \<longleftrightarrow> list_all (\<lambda>b. b = 0) bs"

fun require_nonzero :: "(string \<times> bytes) list \<Rightarrow> registry_error + unit" where
  "require_nonzero [] = Inr ()"
| "require_nonzero ((name, v) # rest) = (if all_zero v then Inl (TdxZero name) else require_nonzero rest)"

definition validate_tdx_policy :: "wire_tdx_policy \<Rightarrow> registry_error + tdx_policy" where
  "validate_tdx_policy dto =
     bindE (decode_fixed_hex 8 ''tdx_policy.td_attributes'' (wt_td_attributes dto)) (\<lambda>td_attributes.
     if td_attributes ! 0 AND 1 \<noteq> 0 then Inl TdxDebug
     else
     bindE (decode_fixed_hex 48 ''tdx_policy.rt_mr0'' (wt_rt_mr0 dto)) (\<lambda>rt_mr0.
     bindE (decode_fixed_hex 48 ''tdx_policy.rt_mr1'' (wt_rt_mr1 dto)) (\<lambda>rt_mr1.
     bindE (decode_fixed_hex 48 ''tdx_policy.rt_mr2'' (wt_rt_mr2 dto)) (\<lambda>rt_mr2.
     bindE (decode_fixed_hex 48 ''tdx_policy.rt_mr3'' (wt_rt_mr3 dto)) (\<lambda>rt_mr3.
     bindE (require_nonzero [(''rt_mr0'', rt_mr0), (''rt_mr1'', rt_mr1), (''rt_mr2'', rt_mr2), (''rt_mr3'', rt_mr3)]) (\<lambda>_.
     bindE (decode_fixed_hex 8 ''tdx_policy.xfam'' (wt_xfam dto)) (\<lambda>xfam.
     bindE (decode_fixed_hex 48 ''tdx_policy.mr_config_id'' (wt_mr_config_id dto)) (\<lambda>mr_config_id.
     bindE (decode_fixed_hex 48 ''tdx_policy.mr_owner'' (wt_mr_owner dto)) (\<lambda>mr_owner.
     bindE (decode_fixed_hex 48 ''tdx_policy.mr_owner_config'' (wt_mr_owner_config dto)) (\<lambda>mr_owner_config.
     bindE (case wt_mr_service_td dto of
              None \<Rightarrow> Inr None
            | Some v \<Rightarrow> bindE (decode_fixed_hex 48 ''tdx_policy.mr_service_td'' v) (\<lambda>bs. Inr (Some bs))) (\<lambda>mr_service_td.
     Inr \<lparr>tp_td_attributes = td_attributes, tp_xfam = xfam, tp_mr_config_id = mr_config_id, tp_mr_owner = mr_owner,
          tp_mr_owner_config = mr_owner_config, tp_rt_mr0 = rt_mr0, tp_rt_mr1 = rt_mr1, tp_rt_mr2 = rt_mr2,
          tp_rt_mr3 = rt_mr3, tp_mr_service_td = mr_service_td\<rparr>)))))))))))"

definition encode_lower_hex :: "bytes \<Rightarrow> bytes" where
  "encode_lower_hex bs = concat (map (\<lambda>b. [HEX ! unat (drop_bit 4 b), HEX ! unat (b AND 15)]) bs)"

definition tdx_policy_to_wire :: "tdx_policy \<Rightarrow> wire_tdx_policy" where
  "tdx_policy_to_wire p =
     \<lparr>wt_td_attributes = encode_lower_hex (tp_td_attributes p), wt_xfam = encode_lower_hex (tp_xfam p),
      wt_mr_config_id = encode_lower_hex (tp_mr_config_id p), wt_mr_owner = encode_lower_hex (tp_mr_owner p),
      wt_mr_owner_config = encode_lower_hex (tp_mr_owner_config p), wt_rt_mr0 = encode_lower_hex (tp_rt_mr0 p),
      wt_rt_mr1 = encode_lower_hex (tp_rt_mr1 p), wt_rt_mr2 = encode_lower_hex (tp_rt_mr2 p),
      wt_rt_mr3 = encode_lower_hex (tp_rt_mr3 p), wt_mr_service_td = map_option encode_lower_hex (tp_mr_service_td p)\<rparr>"

definition validate_slug :: "string \<Rightarrow> bytes \<Rightarrow> nat \<Rightarrow> registry_error + unit" where
  "validate_slug fd v max_len =
     (if v = [] \<or> length v > max_len then Inl (SlugLength fd max_len)
      else if \<not> is_ascii_lowercase (hd v) \<and> \<not> is_ascii_digit (hd v) then Inl (SlugStart fd)
      else if \<not> is_ascii_lowercase (last v) \<and> \<not> is_ascii_digit (last v) then Inl (SlugEnd fd)
      else if \<not> list_all (\<lambda>b. is_ascii_lowercase b \<or> is_ascii_digit b \<or> b \<in> set (lit ''-_.'')) v then Inl (SlugChars fd)
      else Inr ())"

definition validate_jurisdiction :: "bytes \<Rightarrow> registry_error + unit" where
  "validate_jurisdiction v =
     (if length v \<noteq> 2 \<or> \<not> list_all is_ascii_uppercase v then Inl BadJurisdiction else Inr ())"

fun validate_labels :: "bytes list \<Rightarrow> registry_error + unit" where
  "validate_labels [] = Inr ()"
| "validate_labels (label # rest) =
     (if label = [] \<or> length label > 63 then Inl LabelLength
      else if hd label = 45 \<or> last label = 45 then Inl LabelHyphen
      else if \<not> list_all (\<lambda>b. is_ascii_lowercase b \<or> is_ascii_digit b \<or> b = 45) label then Inl LabelChars
      else validate_labels rest)"

definition validate_host :: "bytes \<Rightarrow> registry_error + unit" where
  "validate_host v =
     (if v = [] \<or> length v > 253 then Inl HostLength
      else case parse_ip v of
        Some ip \<Rightarrow> if v \<noteq> ip_to_string ip then Inl HostNotCanonicalIp else Inr ()
      | None \<Rightarrow>
          if list_all (\<lambda>b. is_ascii_digit b \<or> b = 46) v \<or> 58 \<in> set v then Inl HostMalformedIp
          else if hd v = 46 \<or> last v = 46 then Inl HostDot
          else validate_labels (split_at 46 v))"

definition validate_optional_hex :: "string \<Rightarrow> bytes option \<Rightarrow> nat \<Rightarrow> registry_error + unit" where
  "validate_optional_hex fd v n = (case v of None \<Rightarrow> Inr () | Some d \<Rightarrow> validate_lower_hex fd d n)"

definition parse_tee :: "bytes \<Rightarrow> registry_error + wire_tee" where
  "parse_tee s = (if s = lit ''sev-snp'' then Inr WSevSnp else if s = lit ''tdx'' then Inr WTdx else Inl (BadTee s))"

definition node_policy :: "wire_tee \<Rightarrow> wire_tdx_policy option \<Rightarrow> registry_error + tdx_policy option" where
  "node_policy t p =
     (case (t, p) of
        (WTdx, Some policy) \<Rightarrow> bindE (validate_tdx_policy policy) (\<lambda>q. Inr (Some q))
      | (WTdx, None) \<Rightarrow> Inl TdxPolicyRequired
      | (WSevSnp, Some _) \<Rightarrow> Inl TdxPolicyOnSev
      | (WSevSnp, None) \<Rightarrow> Inr None)"

definition validate_registry_node :: "registry_file_node \<Rightarrow> registry_error + registry_node" where
  "validate_registry_node dto =
     bindE (map_err BadId (validate_identifier (rf_id dto))) (\<lambda>_.
     bindE (validate_slug ''operator'' (rf_operator dto) 128) (\<lambda>_.
     bindE (validate_jurisdiction (rf_jurisdiction dto)) (\<lambda>_.
     bindE (validate_host (rf_host dto)) (\<lambda>_.
     if rf_port dto = 0 then Inl PortZero
     else
     bindE (parse_tee (rf_tee dto)) (\<lambda>t.
     bindE (ok_or (BadRole (rf_role dto)) (path_role_parse (rf_role dto))) (\<lambda>role.
     bindE (validate_lower_hex ''measurement'' (rf_measurement dto) 48) (\<lambda>_.
     bindE (validate_optional_hex ''tls_spki_sha256'' (rf_tls_spki_sha256 dto) 32) (\<lambda>_.
     bindE (validate_optional_hex ''wg_pub'' (rf_wg_pub dto) 32) (\<lambda>_.
     bindE (validate_optional_hex ''transparency_log_key'' (rf_transparency_log_key dto) 32) (\<lambda>_.
     if t = WTdx \<and> rf_min_tcb_sevsnp dto \<noteq> None then Inl TcbOnTdx
     else
     bindE (node_policy t (rf_tdx_policy dto)) (\<lambda>policy.
     Inr \<lparr>rn_id = rf_id dto, rn_host = rf_host dto, rn_port = rf_port dto, rn_tee = t, rn_measurement = rf_measurement dto,
          rn_tls_spki_sha256 = rf_tls_spki_sha256 dto, rn_operator = rf_operator dto, rn_jurisdiction = rf_jurisdiction dto,
          rn_wg_pub = rf_wg_pub dto, rn_role = role, rn_min_tcb_sevsnp = rf_min_tcb_sevsnp dto, rn_tdx_policy = policy,
          rn_transparency_log_key = rf_transparency_log_key dto\<rparr>)))))))))))"

section \<open>The registry\<close>

definition all_nodes_have_tls_spki :: "node_registry \<Rightarrow> bool" where
  "all_nodes_have_tls_spki r = list_all (\<lambda>n. rn_tls_spki_sha256 n \<noteq> None) (nr_nodes r)"

definition all_nodes_have_transparency_key :: "node_registry \<Rightarrow> bool" where
  "all_nodes_have_transparency_key r = list_all (\<lambda>n. rn_transparency_log_key n \<noteq> None) (nr_nodes r)"

definition all_sev_nodes_have_min_tcb :: "node_registry \<Rightarrow> bool" where
  "all_sev_nodes_have_min_tcb r = list_all (\<lambda>n. rn_tee n \<noteq> WSevSnp \<or> rn_min_tcb_sevsnp n \<noteq> None) (nr_nodes r)"

definition nested_endpoint :: "registry_node \<Rightarrow> bool" where
  "nested_endpoint n \<longleftrightarrow>
     rn_port n = 443 \<and>
     (case parse_ipv4 (rn_host n) of
        None \<Rightarrow> False
      | Some ip \<Rightarrow> \<not> v4_unspecified ip \<and> \<not> v4_loopback ip \<and> \<not> v4_multicast ip \<and> ip \<noteq> v4_broadcast)"

definition all_nodes_have_nested_ipv4_endpoints :: "node_registry \<Rightarrow> bool" where
  "all_nodes_have_nested_ipv4_endpoints r = list_all nested_endpoint (nr_nodes r)"

text \<open>The loop of \<open>from_file\<close>: the index, the identities and endpoints seen and the nodes so far.\<close>

fun add_nodes ::
  "nat \<Rightarrow> registry_file_node list \<Rightarrow> bytes set \<Rightarrow> (bytes \<times> u16) set \<Rightarrow> registry_node list \<Rightarrow> registry_error + registry_node list"
where
  "add_nodes index [] ids endpoints nodes = Inr nodes"
| "add_nodes index (dto # dtos) ids endpoints nodes =
     bindE (map_err (AtEntry index) (validate_registry_node dto)) (\<lambda>n.
     if rn_id n \<in> ids then Inl (DuplicateId index (rn_id n))
     else if (rn_host n, rn_port n) \<in> endpoints then Inl (DuplicateEndpoint index (rn_host n) (rn_port n))
     else add_nodes (index + 1) dtos (insert (rn_id n) ids) (insert (rn_host n, rn_port n) endpoints) (nodes @ [n]))"

definition registry_from_file ::
  "(bytes \<Rightarrow> bytes option) \<Rightarrow> (bytes \<Rightarrow> registry_file_node list option) \<Rightarrow> bytes \<Rightarrow> registry_error + node_registry" where
  "registry_from_file read_file from_json p =
     bindE (ok_or (RegistryUnreadable p) (read_file p)) (\<lambda>contents.
     bindE (ok_or (RegistryUnparsable p) (from_json contents)) (\<lambda>dtos.
     if dtos = [] then Inl (RegistryEmpty p)
     else bindE (add_nodes 0 dtos {} {} []) (\<lambda>nodes. Inr \<lparr>nr_nodes = nodes, nr_dead = {}\<rparr>)))"

definition dev_measurement :: bytes where
  "dev_measurement = lit ''000102030405060708090a0b0c0d0e0f101112131415161718191a1b1c1d1e1f202122232425262728292a2b2c2d2e2f''"

definition dev_node :: "string \<Rightarrow> string \<Rightarrow> string \<Rightarrow> string \<Rightarrow> path_role \<Rightarrow> registry_node" where
  "dev_node nid host op jur role =
     \<lparr>rn_id = lit nid, rn_host = lit host, rn_port = 443, rn_tee = WSevSnp, rn_measurement = dev_measurement,
      rn_tls_spki_sha256 = Some (concat (replicate 32 (lit ''00''))), rn_operator = lit op, rn_jurisdiction = lit jur,
      rn_wg_pub = None, rn_role = role, rn_min_tcb_sevsnp = None, rn_tdx_policy = None, rn_transparency_log_key = None\<rparr>"

definition dev_default :: node_registry where
  "dev_default =
     \<lparr>nr_nodes =
        [dev_node ''entry-us'' ''192.0.2.10'' ''op-anvil'' ''US'' RoleEntry,
         dev_node ''middle-de'' ''198.51.100.20'' ''op-borealis'' ''DE'' RoleMiddle,
         dev_node ''exit-ch'' ''203.0.113.30'' ''op-cirrus'' ''CH'' RoleExit,
         dev_node ''exit-se'' ''203.0.113.31'' ''op-dune'' ''SE'' RoleExit],
      nr_dead = {}\<rparr>"

definition registry_from_env ::
  "bool \<Rightarrow> environment \<Rightarrow> (bytes \<Rightarrow> bytes option) \<Rightarrow> (bytes \<Rightarrow> registry_file_node list option) \<Rightarrow> registry_error + node_registry" where
  "registry_from_env debug env read_file from_json =
     (case env_ok env ''NW_NODE_REGISTRY'' of
        Some p \<Rightarrow> registry_from_file read_file from_json p
      | None \<Rightarrow> if \<not> dev_env_flag debug env ''NW_ALLOW_DEV_FALLBACKS'' then Inl RegistryUnset else Inr dev_default)"

definition mark_down :: "bytes \<Rightarrow> node_registry \<Rightarrow> node_registry" where
  "mark_down host r = r\<lparr>nr_dead := insert host (nr_dead r)\<rparr>"

definition mark_up :: "bytes \<Rightarrow> node_registry \<Rightarrow> node_registry" where
  "mark_up host r = r\<lparr>nr_dead := nr_dead r - {host}\<rparr>"

definition live_nodes :: "node_registry \<Rightarrow> registry_node list" where
  "live_nodes r = filter (\<lambda>n. rn_host n \<notin> nr_dead r) (nr_nodes r)"

section \<open>TDX policies\<close>

lemma encode_lower_hex_eq: "encode_lower_hex = to_hex"
  by (rule ext) (simp add: encode_lower_hex_def to_hex_def hex_byte_def [abs_def])

lemma validate_lower_hex_Inr [simp]:
  "validate_lower_hex fd v n = Inr u \<longleftrightarrow> length v = n * 2 \<and> list_all lower_hex_digit v"
  by (simp add: validate_lower_hex_def)

lemma decode_fixed_hex_Inr: "decode_fixed_hex n fd v = Inr bs \<longleftrightarrow> length bs = n \<and> v = to_hex bs"
proof
  assume "decode_fixed_hex n fd v = Inr bs"
  then have *: "length bs = n" "from_hex v = Some bs" "list_all lower_hex_digit v"
    by (auto simp: decode_fixed_hex_def bind_eq_Some_conv split: if_splits)
  have "map ascii_lower v = v" using *(3) by (induction v) (auto simp: ascii_lower_id)
  then show "length bs = n \<and> v = to_hex bs" using * to_hex_from_hex [OF *(2)] by simp
qed (simp add: decode_fixed_hex_def to_hex_lower)

definition policy_ok :: "tdx_policy \<Rightarrow> bool" where
  "policy_ok p \<longleftrightarrow>
     length (tp_td_attributes p) = 8 \<and> tp_td_attributes p ! 0 AND 1 = 0 \<and> length (tp_xfam p) = 8 \<and>
     (\<forall>f\<in>{tp_mr_config_id, tp_mr_owner, tp_mr_owner_config, tp_rt_mr0, tp_rt_mr1, tp_rt_mr2, tp_rt_mr3}. length (f p) = 48) \<and>
     (\<forall>f\<in>{tp_rt_mr0, tp_rt_mr1, tp_rt_mr2, tp_rt_mr3}. \<not> all_zero (f p)) \<and>
     (\<forall>m. tp_mr_service_td p = Some m \<longrightarrow> length m = 48)"

lemma validate_tdx_policy_to_wire: "policy_ok p \<Longrightarrow> validate_tdx_policy (tdx_policy_to_wire p) = Inr p"
proof -
  assume ok: "policy_ok p"
  have d: "length bs = n \<Longrightarrow> decode_fixed_hex n fd (to_hex bs) = Inr bs" for n fd bs by (simp add: decode_fixed_hex_Inr)
  show ?thesis
    using ok by (cases "tp_mr_service_td p")
      (simp_all add: policy_ok_def validate_tdx_policy_def tdx_policy_to_wire_def encode_lower_hex_eq d)
qed

lemma validate_tdx_policy_sound:
  assumes "validate_tdx_policy w = Inr p"
  shows "policy_ok p \<and> tdx_policy_to_wire p = w"
  using assms
  by (cases "wt_mr_service_td w")
     (auto simp: validate_tdx_policy_def decode_fixed_hex_Inr policy_ok_def tdx_policy_to_wire_def encode_lower_hex_eq
       split: if_splits)

text \<open>
  A TDX policy survives its wire form. The policies that validation accepts are exactly the wire forms
  of well-formed policies (fixed lengths, debug mode off, no runtime register zero), and validating the
  wire form of a well-formed policy gives that policy back, so what the registry file pins is what the
  client receives, byte for byte.
\<close>

theorem tdx_policy_roundtrip:
  "validate_tdx_policy w = Inr p \<longleftrightarrow> policy_ok p \<and> w = tdx_policy_to_wire p"
  using validate_tdx_policy_to_wire validate_tdx_policy_sound by blast

section \<open>Accepted registries\<close>

definition hex_text :: "nat \<Rightarrow> bytes \<Rightarrow> bool" where
  "hex_text n v \<longleftrightarrow> (\<exists>bs. length bs = n \<and> v = to_hex bs)"

definition host_ok :: "bytes \<Rightarrow> bool" where
  "host_ok h \<longleftrightarrow>
     (case parse_ip h of
        Some ip \<Rightarrow> h = ip_to_string ip
      | None \<Rightarrow> length h \<le> 253 \<and> 58 \<notin> set h \<and> validate_labels (split_at 46 h) = Inr ())"

definition node_ok :: "registry_node \<Rightarrow> bool" where
  "node_ok n \<longleftrightarrow>
     validate_identifier (rn_id n) = Inr () \<and> host_ok (rn_host n) \<and> rn_port n \<noteq> 0 \<and> hex_text 48 (rn_measurement n) \<and>
     (\<forall>f\<in>{rn_tls_spki_sha256, rn_wg_pub, rn_transparency_log_key}. \<forall>v. f n = Some v \<longrightarrow> hex_text 32 v) \<and>
     validate_jurisdiction (rn_jurisdiction n) = Inr () \<and> validate_slug ''operator'' (rn_operator n) 128 = Inr () \<and>
     (case rn_tee n of
        WTdx \<Rightarrow> rn_min_tcb_sevsnp n = None \<and> (\<exists>p. rn_tdx_policy n = Some p \<and> policy_ok p)
      | WSevSnp \<Rightarrow> rn_tdx_policy n = None)"

lemma lower_hex_decodes:
  assumes "length v = n * 2" and "list_all lower_hex_digit v"
  shows "hex_text n v"
proof -
  have chunks: "\<exists>bs. hex_chunks v = Some bs" if "even (length v)" "list_all lower_hex_digit v" for v
    using that by (induction v rule: hex_chunks.induct) (auto simp: nib_def lower_hex_digit_def)
  have even: "even (length v)" using assms(1) by simp
  from chunks [OF even assms(2)] obtain bs where "from_hex v = Some bs" using even by (auto simp: from_hex_def)
  moreover have "map ascii_lower v = v" using assms(2) by (induction v) (auto simp: ascii_lower_id)
  ultimately show ?thesis
    using to_hex_from_hex [of v bs] length_from_hex [of v bs] assms(1) by (auto simp: hex_text_def intro!: exI [of _ bs])
qed

lemma validate_optional_hex_Inr: "validate_optional_hex fd v n = Inr u \<Longrightarrow> v = Some d \<Longrightarrow> hex_text n d"
  by (simp add: validate_optional_hex_def lower_hex_decodes)

lemma validate_host_ok: "validate_host h = Inr () \<Longrightarrow> host_ok h"
  by (auto simp: validate_host_def host_ok_def split: if_splits option.splits)

lemma node_policy_Inr:
  assumes "node_policy t w = Inr q"
  shows "case t of WTdx \<Rightarrow> \<exists>p. q = Some p \<and> policy_ok p | WSevSnp \<Rightarrow> q = None"
  using assms validate_tdx_policy_sound by (auto simp: node_policy_def split: wire_tee.splits option.splits)

lemma validate_registry_node_ok:
  assumes "validate_registry_node dto = Inr n"
  shows "node_ok n"
proof -
  from assms obtain t role policy where
    v: "validate_identifier (rf_id dto) = Inr ()" "validate_slug ''operator'' (rf_operator dto) 128 = Inr ()"
      "validate_jurisdiction (rf_jurisdiction dto) = Inr ()" "validate_host (rf_host dto) = Inr ()" "rf_port dto \<noteq> 0"
    and h: "validate_lower_hex ''measurement'' (rf_measurement dto) 48 = Inr ()"
      "validate_optional_hex ''tls_spki_sha256'' (rf_tls_spki_sha256 dto) 32 = Inr ()"
      "validate_optional_hex ''wg_pub'' (rf_wg_pub dto) 32 = Inr ()"
      "validate_optional_hex ''transparency_log_key'' (rf_transparency_log_key dto) 32 = Inr ()"
    and p: "\<not> (t = WTdx \<and> rf_min_tcb_sevsnp dto \<noteq> None)" "node_policy t (rf_tdx_policy dto) = Inr policy"
    and n: "rn_id n = rf_id dto" "rn_host n = rf_host dto" "rn_port n = rf_port dto" "rn_tee n = t" "rn_measurement n = rf_measurement dto"
      "rn_tls_spki_sha256 n = rf_tls_spki_sha256 dto" "rn_operator n = rf_operator dto" "rn_jurisdiction n = rf_jurisdiction dto"
      "rn_wg_pub n = rf_wg_pub dto" "rn_min_tcb_sevsnp n = rf_min_tcb_sevsnp dto" "rn_tdx_policy n = policy"
      "rn_transparency_log_key n = rf_transparency_log_key dto"
    unfolding validate_registry_node_def by (auto split: if_splits simp del: validate_lower_hex_Inr; blast)
  show ?thesis
    using v p(1) node_policy_Inr [OF p(2)] validate_host_ok lower_hex_decodes [of _ 48] h(1)
      validate_optional_hex_Inr [OF h(2)] validate_optional_hex_Inr [OF h(3)] validate_optional_hex_Inr [OF h(4)]
    by (auto simp: node_ok_def n split: wire_tee.splits)
qed

lemma add_nodes_sound:
  assumes "add_nodes index dtos ids endpoints nodes = Inr out"
    and "ids = rn_id ` set nodes" and "endpoints = (\<lambda>n. (rn_host n, rn_port n)) ` set nodes"
    and "\<forall>n\<in>set nodes. node_ok n" and "distinct (map rn_id nodes)" and "distinct (map (\<lambda>n. (rn_host n, rn_port n)) nodes)"
  shows "length out = length nodes + length dtos \<and> (\<forall>n\<in>set out. node_ok n) \<and> distinct (map rn_id out) \<and>
    distinct (map (\<lambda>n. (rn_host n, rn_port n)) out)"
  using assms
proof (induction index dtos ids endpoints nodes rule: add_nodes.induct)
  case (2 index dto dtos ids endpoints nodes)
  from 2(2) obtain n where n: "validate_registry_node dto = Inr n" "rn_id n \<notin> ids" "(rn_host n, rn_port n) \<notin> endpoints"
    "add_nodes (index + 1) dtos (insert (rn_id n) ids) (insert (rn_host n, rn_port n) endpoints) (nodes @ [n]) = Inr out"
    by (auto split: if_splits)
  have "length out = length (nodes @ [n]) + length dtos \<and> (\<forall>n\<in>set out. node_ok n) \<and> distinct (map rn_id out) \<and>
      distinct (map (\<lambda>n. (rn_host n, rn_port n)) out)"
    using 2(3-) n validate_registry_node_ok [OF n(1)] by (intro 2(1)) auto
  then show ?case by simp
qed simp

text \<open>
  C34: An accepted registry is well-formed. Whatever the file holds, a registry that loads has at least one
  node and as many as the file lists, every node is canonical (a grant identifier, a printed address or a
  lowercase name, fixed-length lowercase hexadecimal keys, a TDX policy exactly on TDX nodes and a firmware
  floor never there), identities and endpoints are unique, and no host is marked dead.
\<close>

theorem registry_from_file_well_formed:
  assumes "registry_from_file read_file from_json p = Inr r"
  shows "\<exists>contents dtos. read_file p = Some contents \<and> from_json contents = Some dtos \<and>
    nr_nodes r \<noteq> [] \<and> length (nr_nodes r) = length dtos \<and> (\<forall>n\<in>set (nr_nodes r). node_ok n) \<and>
    distinct (map rn_id (nr_nodes r)) \<and> distinct (map (\<lambda>n. (rn_host n, rn_port n)) (nr_nodes r)) \<and> nr_dead r = {}"
proof -
  obtain contents dtos nodes where c: "read_file p = Some contents" "from_json contents = Some dtos" "dtos \<noteq> []"
    "add_nodes 0 dtos {} {} [] = Inr nodes" "r = \<lparr>nr_nodes = nodes, nr_dead = {}\<rparr>"
    using assms by (auto simp: registry_from_file_def split: if_splits)
  from add_nodes_sound [OF c(4)] c show ?thesis by auto
qed

text \<open>An entry of a registry file, for evaluating the model.\<close>

definition demo_entry :: registry_file_node where
  "demo_entry =
     \<lparr>rf_id = [97], rf_host = ipv4_to_string (Ipv4Addr 192 0 2 10), rf_port = 443, rf_tee = lit ''sev-snp'', rf_measurement = replicate 96 97,
      rf_tls_spki_sha256 = None, rf_operator = [98], rf_jurisdiction = [67, 72], rf_wg_pub = None, rf_role = lit ''exit'',
      rf_min_tcb_sevsnp = None, rf_tdx_policy = None, rf_transparency_log_key = None\<rparr>"

definition demo_entry_node :: registry_node where
  "demo_entry_node =
     \<lparr>rn_id = [97], rn_host = ipv4_to_string (Ipv4Addr 192 0 2 10), rn_port = 443, rn_tee = WSevSnp, rn_measurement = replicate 96 97,
      rn_tls_spki_sha256 = None, rn_operator = [98], rn_jurisdiction = [67, 72], rn_wg_pub = None, rn_role = RoleExit,
      rn_min_tcb_sevsnp = None, rn_tdx_policy = None, rn_transparency_log_key = None\<rparr>"

lemma demo_entry_validates: "validate_registry_node demo_entry = Inr demo_entry_node"
proof -
  have "ipv4_to_string a \<noteq> []" for a by (cases a) simp
  moreover have "length (ipv4_to_string a) \<le> 253" for a using length_ipv4_to_string [of a] by simp
  ultimately have "validate_host (ipv4_to_string (Ipv4Addr 192 0 2 10)) = Inr ()"
    unfolding validate_host_def parse_ip_to_string_V4 by (simp add: not_less del: ipv4_to_string.simps)
  moreover have "validate_identifier [97] = Inr ()"
    by (simp add: validate_identifier_def validate_named_identifier_def is_edge_def is_inner_def is_ascii_lowercase_def MAX_GRANT_IDENTIFIER_LEN_def)
  moreover have "validate_slug ''operator'' [98] 128 = Inr ()" by (simp add: validate_slug_def is_ascii_lowercase_def)
  moreover have "validate_jurisdiction [67, 72] = Inr ()" by (simp add: validate_jurisdiction_def is_ascii_uppercase_def)
  moreover have "path_role_parse (lit ''exit'') = Some RoleExit" by (simp add: path_role_parse_def lit_def)
  moreover have "list_all lower_hex_digit (replicate 96 97)" by (simp add: list_all_iff lower_hex_digit_def)
  ultimately show ?thesis
    by (simp add: validate_registry_node_def demo_entry_def demo_entry_node_def parse_tee_def validate_optional_hex_def
        node_policy_def validate_lower_hex_def)
qed

theorem registry_from_file_well_formed_witness:
  "\<exists>r. registry_from_file (\<lambda>_. Some []) (\<lambda>_. Some [demo_entry]) [] = Inr r \<and> (\<forall>n\<in>set (nr_nodes r). node_ok n)"
proof -
  have "registry_from_file (\<lambda>_. Some []) (\<lambda>_. Some [demo_entry]) [] = Inr \<lparr>nr_nodes = [demo_entry_node], nr_dead = {}\<rparr>"
    by (simp add: registry_from_file_def demo_entry_validates)
  from registry_from_file_well_formed [OF this] this show ?thesis by auto
qed

end
