(* ===== verification/Path_Search.thy ===== *)
theory Path_Search
  imports Pathsel "HOL-Library.Multiset"
begin

text \<open>
  Path selection (the second part of nil-coordinator/src/pathsel.rs). \<open>select_path\<close> shuffles the live
  nodes with the entropy it is given and searches them with backtracking. The search is written with
  its loop and its mutable path, so it is a partial function whose value \<open>None\<close> is a search that
  never ends; the lemmas show that it ends, that a path it returns is trust-split, and that it finds
  one whenever there is one.
\<close>

section \<open>Selection\<close>

definition to_hop :: "registry_node \<Rightarrow> hop" where
  "to_hop n =
     \<lparr>hp_host = rn_host n, hp_port = rn_port n, hp_tee = rn_tee n, hp_measurement = rn_measurement n,
      hp_tls_spki_sha256 = rn_tls_spki_sha256 n, hp_wg_pub = rn_wg_pub n, hp_min_tcb_sevsnp = rn_min_tcb_sevsnp n,
      hp_tdx_policy = map_option tdx_policy_to_wire (rn_tdx_policy n), hp_transparency_log_key = rn_transparency_log_key n,
      hp_grant = None, hp_grant_nonce = None\<rparr>"

definition swap :: "nat \<Rightarrow> nat \<Rightarrow> 'a list \<Rightarrow> 'a list" where
  "swap i j xs = xs[i := xs ! j, j := xs ! i]"

definition of_le :: "bytes \<Rightarrow> nat" where
  "of_le bs = nat_of_be (rev bs)"

fun shuffle_loop :: "bytes \<Rightarrow> nat \<Rightarrow> 'a list \<Rightarrow> 'a list" where
  "shuffle_loop buf 0 xs = xs"
| "shuffle_loop buf (Suc i) xs =
     (let j = of_le (take 8 (drop (Suc i * 8) buf)) mod (Suc i + 1) in shuffle_loop buf i (swap (Suc i) j xs))"

text \<open>The entropy source is asked for eight bytes per item; \<open>None\<close> is its failure.\<close>

definition shuffle :: "(nat \<Rightarrow> bytes option) \<Rightarrow> 'a list \<Rightarrow> 'a list" where
  "shuffle entropy xs =
     (if length xs < 2 then xs
      else case entropy (length xs * 8) of None \<Rightarrow> xs | Some buf \<Rightarrow> shuffle_loop buf (length xs - 1) xs)"

definition clash :: "registry_node \<Rightarrow> registry_node \<Rightarrow> bool" where
  "clash c n \<longleftrightarrow> rn_operator c = rn_operator n \<or> rn_jurisdiction c = rn_jurisdiction n"

definition same_node :: "registry_node \<Rightarrow> registry_node \<Rightarrow> bool" where
  "same_node c n \<longleftrightarrow> rn_id c = rn_id n \<or> (rn_host c = rn_host n \<and> rn_port c = rn_port n)"

text \<open>
  The loop of \<open>extend_path\<close> over the candidates that are left, with the path chosen so far: a candidate
  is pushed, the search goes on from the longer path, and a dead end pops it.
\<close>

partial_function (option) extend_loop ::
  "registry_node list \<Rightarrow> nat \<Rightarrow> registry_node list \<Rightarrow> registry_node list \<Rightarrow> (bool \<times> registry_node list) option"
where
  "extend_loop candidates hops rest chosen =
     (case rest of
        [] \<Rightarrow> Some (False, chosen)
      | n # rest' \<Rightarrow>
          if \<not> fills n (for_position (length chosen) hops) then extend_loop candidates hops rest' chosen
          else if list_ex (\<lambda>c. clash c n) chosen \<or> list_ex (\<lambda>c. same_node c n) chosen
          then extend_loop candidates hops rest' chosen
          else
            Option.bind
              (if length (chosen @ [n]) = hops then Some (True, chosen @ [n])
               else extend_loop candidates hops candidates (chosen @ [n]))
              (\<lambda>(found, chosen').
                 if found then Some (True, chosen') else extend_loop candidates hops rest' (butlast chosen')))"

definition extend_path ::
  "registry_node list \<Rightarrow> nat \<Rightarrow> registry_node list \<Rightarrow> (bool \<times> registry_node list) option" where
  "extend_path candidates hops chosen =
     (if length chosen = hops then Some (True, chosen) else extend_loop candidates hops candidates chosen)"

definition select_hops :: "nat \<Rightarrow> registry_node list \<Rightarrow> selected_hop list" where
  "select_hops hops chosen =
     map (\<lambda>(i, n). \<lparr>sh_hop = to_hop n, sh_node_id = rn_id n, sh_intended_role = for_position i hops\<rparr>) (enumerate 0 chosen)"

definition select_path ::
  "(nat \<Rightarrow> bytes option) \<Rightarrow> node_registry \<Rightarrow> nat \<Rightarrow> selected_hop list option option" where
  "select_path entropy r hops =
     map_option (\<lambda>(found, chosen). if found then Some (select_hops hops chosen) else None)
       (extend_path (shuffle entropy (live_nodes r)) hops [])"

section \<open>The search\<close>

definition apart :: "registry_node \<Rightarrow> registry_node \<Rightarrow> bool" where
  "apart c n \<longleftrightarrow> \<not> clash c n \<and> \<not> same_node c n"

text \<open>A path, or the start of one, that keeps to the roles and shares no operator, jurisdiction or endpoint.\<close>

definition split_prefix :: "nat \<Rightarrow> registry_node list \<Rightarrow> bool" where
  "split_prefix hops ns \<longleftrightarrow> (\<forall>i<length ns. fills (ns ! i) (for_position i hops)) \<and> sorted_wrt apart ns"

definition complete_path :: "registry_node set \<Rightarrow> nat \<Rightarrow> registry_node list \<Rightarrow> bool" where
  "complete_path nodes hops ns \<longleftrightarrow> length ns = hops \<and> set ns \<subseteq> nodes \<and> split_prefix hops ns"

lemma split_prefix_Nil [simp]: "split_prefix hops []"
  by (simp add: split_prefix_def)

lemma split_prefix_snoc:
  "split_prefix hops (ns @ [n]) \<longleftrightarrow>
     split_prefix hops ns \<and> fills n (for_position (length ns) hops) \<and> (\<forall>c\<in>set ns. apart c n)"
  by (auto simp: split_prefix_def sorted_wrt_append nth_append less_Suc_eq all_conj_distrib)

lemma split_prefix_append: "split_prefix hops (xs @ ys) \<Longrightarrow> split_prefix hops xs"
proof (induction ys rule: rev_induct)
  case (snoc y ys)
  then show ?case using split_prefix_snoc [of hops "xs @ ys" y] by simp
qed simp

lemma candidate_ok:
  assumes "fills n (for_position (length chosen) hops)" and "\<not> (list_ex (\<lambda>c. clash c n) chosen \<or> list_ex (\<lambda>c. same_node c n) chosen)"
    and "split_prefix hops chosen"
  shows "split_prefix hops (chosen @ [n])"
  using assms by (auto simp: split_prefix_snoc apart_def list_ex_iff)

lemma candidate_bad:
  assumes "\<not> fills n (for_position (length chosen) hops) \<or> list_ex (\<lambda>c. clash c n) chosen \<or> list_ex (\<lambda>c. same_node c n) chosen"
  shows "\<not> split_prefix hops (chosen @ n # ext)"
  using assms split_prefix_append [of hops "chosen @ [n]" ext] by (auto simp: split_prefix_snoc apart_def list_ex_iff)

text \<open>What the loop does from a path that is not complete yet, with the candidates left to try.\<close>

definition search_ok ::
  "registry_node list \<Rightarrow> nat \<Rightarrow> registry_node list \<Rightarrow> registry_node list \<Rightarrow> (bool \<times> registry_node list) option \<Rightarrow> bool" where
  "search_ok candidates hops rest chosen r \<longleftrightarrow>
     (\<exists>ext. r = Some (True, chosen @ ext) \<and> complete_path (set candidates \<union> set chosen) hops (chosen @ ext)) \<or>
     (r = Some (False, chosen) \<and>
        (\<forall>n ext. n \<in> set rest \<longrightarrow> \<not> complete_path (set candidates \<union> set chosen) hops (chosen @ n # ext)))"

lemma search_ok_skip:
  assumes "search_ok candidates hops rest chosen r" and "\<And>ext. \<not> complete_path (set candidates \<union> set chosen) hops (chosen @ n # ext)"
  shows "search_ok candidates hops (n # rest) chosen r"
  using assms by (auto simp: search_ok_def)

lemma complete_path_ext:
  assumes "complete_path (set candidates \<union> set chosen) hops (chosen @ ext)" and "length chosen < hops"
  obtains n ext' where "ext = n # ext'" and "n \<in> set candidates \<union> set chosen"
  using assms by (cases ext) (auto simp: complete_path_def)

lemma extend_loop_correct:
  assumes "length chosen < hops" and "set rest \<subseteq> set candidates" and "split_prefix hops chosen" and "set chosen \<subseteq> set candidates"
  shows "search_ok candidates hops rest chosen (extend_loop candidates hops rest chosen)"
  using assms
proof (induction "hops - length chosen" arbitrary: chosen rest rule: less_induct)
  case less
  note outer = less.hyps
  show ?case
    using less.prems
  proof (induction rest)
    case Nil
    then show ?case by (subst extend_loop.simps) (simp add: search_ok_def)
  next
    case (Cons n rest)
    have IH: "search_ok candidates hops rest chosen (extend_loop candidates hops rest chosen)" using Cons by simp
    let ?skip = "\<not> fills n (for_position (length chosen) hops) \<or> list_ex (\<lambda>c. clash c n) chosen \<or> list_ex (\<lambda>c. same_node c n) chosen"
    show ?case
    proof (cases ?skip)
      case True
      then have "extend_loop candidates hops (n # rest) chosen = extend_loop candidates hops rest chosen"
        by (subst extend_loop.simps) auto
      then show ?thesis
        using search_ok_skip [OF IH] candidate_bad [OF True] by (simp add: complete_path_def)
    next
      case False
      let ?c = "chosen @ [n]"
      have ok: "split_prefix hops ?c" "set ?c \<subseteq> set candidates" using False Cons.prems by (auto intro: candidate_ok)
      define inner where "inner = (if length ?c = hops then Some (True, ?c) else extend_loop candidates hops candidates ?c)"
      have step: "extend_loop candidates hops (n # rest) chosen = Option.bind inner (\<lambda>(found, chosen').
          if found then Some (True, chosen') else extend_loop candidates hops rest (butlast chosen'))"
        using False by (subst extend_loop.simps) (simp add: inner_def)
      have i: "search_ok candidates hops candidates ?c inner"
      proof (cases "length ?c = hops")
        case True
        then show ?thesis using ok by (auto simp: inner_def search_ok_def complete_path_def)
      next
        case len: False
        then show ?thesis using outer [of ?c candidates] ok Cons.prems(1) by (simp add: inner_def)
      qed
      from i [unfolded search_ok_def] show ?thesis
      proof
        assume "\<exists>ext. inner = Some (True, ?c @ ext) \<and> complete_path (set candidates \<union> set ?c) hops (?c @ ext)"
        then obtain ext where "inner = Some (True, ?c @ ext)" "complete_path (set candidates \<union> set ?c) hops (?c @ ext)" by blast
        then show ?thesis using step Cons.prems(2) by (auto simp: search_ok_def complete_path_def)
      next
        assume *: "inner = Some (False, ?c) \<and>
          (\<forall>m ext. m \<in> set candidates \<longrightarrow> \<not> complete_path (set candidates \<union> set ?c) hops (?c @ m # ext))"
        then have len: "length ?c < hops" using Cons.prems(1) by (cases "length ?c = hops") (auto simp: inner_def)
        have "\<not> complete_path (set candidates \<union> set chosen) hops (chosen @ n # ext)" for ext
        proof
          assume t: "complete_path (set candidates \<union> set chosen) hops (chosen @ n # ext)"
          then have "complete_path (set candidates \<union> set ?c) hops (?c @ ext)" by (auto simp: complete_path_def)
          moreover from complete_path_ext [OF this len] obtain m ext' where "ext = m # ext'" "m \<in> set candidates \<union> set ?c" .
          ultimately show False using * ok(2) by blast
        qed
        then show ?thesis using step * search_ok_skip [OF IH] by simp
      qed
    qed
  qed
qed

lemma extend_path_correct:
  "(\<exists>ns. extend_path candidates hops [] = Some (True, ns) \<and> complete_path (set candidates) hops ns) \<or>
   (extend_path candidates hops [] = Some (False, []) \<and> (\<forall>ns. \<not> complete_path (set candidates) hops ns))"
proof (cases "hops = 0")
  case True
  then show ?thesis by (auto simp: extend_path_def complete_path_def)
next
  case False
  have "search_ok candidates hops candidates [] (extend_path candidates hops [])"
    using extend_loop_correct [of "[]" hops candidates candidates] False by (simp add: extend_path_def)
  then show ?thesis
  proof (unfold search_ok_def, elim disjE)
    assume *: "extend_path candidates hops [] = Some (False, []) \<and>
      (\<forall>n ext. n \<in> set candidates \<longrightarrow> \<not> complete_path (set candidates \<union> set []) hops ([] @ n # ext))"
    have "\<not> complete_path (set candidates) hops ns" for ns
      using * False by (cases ns) (auto simp: complete_path_def)
    with * show ?thesis by blast
  qed simp
qed

section \<open>The shuffle\<close>

lemma mset_exchange: "i < length xs \<Longrightarrow> j < length xs \<Longrightarrow> mset (swap i j xs) = mset xs"
  unfolding swap_def by (rule mset_swap)

lemma mset_shuffle_loop: "i < length xs \<Longrightarrow> mset (shuffle_loop buf i xs) = mset xs"
proof (induction i arbitrary: xs)
  case (Suc i)
  define j where "j = of_le (take 8 (drop (Suc i * 8) buf)) mod (Suc i + 1)"
  have "j < Suc i + 1" unfolding j_def by (rule mod_less_divisor) simp
  then have "mset (swap (Suc i) j xs) = mset xs" "i < length (swap (Suc i) j xs)"
    using Suc.prems by (simp_all add: mset_exchange) (simp add: swap_def)
  moreover have "shuffle_loop buf (Suc i) xs = shuffle_loop buf i (swap (Suc i) j xs)"
    by (simp only: shuffle_loop.simps Let_def j_def)
  ultimately show ?case using Suc.IH by simp
qed simp

lemma mset_shuffle: "mset (shuffle entropy xs) = mset xs"
  by (auto simp: shuffle_def mset_shuffle_loop split: option.split)

lemma set_shuffle [simp]: "set (shuffle entropy xs) = set xs"
  by (rule mset_eq_setD [OF mset_shuffle])

section \<open>Trust-split paths\<close>

text \<open>
  What selection promises: as many nodes as asked for, each live and in the position its role allows,
  no two with the same operator, jurisdiction, identity or endpoint.
\<close>

definition trust_split :: "node_registry \<Rightarrow> nat \<Rightarrow> registry_node list \<Rightarrow> bool" where
  "trust_split r hops ns \<longleftrightarrow>
     length ns = hops \<and> (\<forall>n\<in>set ns. n \<in> set (nr_nodes r) \<and> rn_host n \<notin> nr_dead r) \<and>
     (\<forall>i<hops. rn_role (ns ! i) = for_position i hops) \<and>
     distinct (map rn_operator ns) \<and> distinct (map rn_jurisdiction ns) \<and> distinct (map rn_id ns) \<and>
     distinct (map (\<lambda>n. (rn_host n, rn_port n)) ns)"

lemma sorted_wrt_apart:
  "sorted_wrt apart ns \<longleftrightarrow> distinct (map rn_operator ns) \<and> distinct (map rn_jurisdiction ns) \<and> distinct (map rn_id ns) \<and>
     distinct (map (\<lambda>n. (rn_host n, rn_port n)) ns)"
  by (induction ns) (auto simp: apart_def clash_def same_node_def image_iff)

lemma complete_path_trust_split: "complete_path (set (live_nodes r)) hops ns \<longleftrightarrow> trust_split r hops ns"
  by (auto simp: complete_path_def trust_split_def split_prefix_def sorted_wrt_apart fills_def live_nodes_def)

lemma select_path_cases:
  "(\<exists>ns. select_path entropy r hops = Some (Some (select_hops hops ns)) \<and> trust_split r hops ns) \<or>
   (select_path entropy r hops = Some None \<and> \<not> (\<exists>ns. trust_split r hops ns))"
  using extend_path_correct [of "shuffle entropy (live_nodes r)" hops]
  by (auto simp: select_path_def complete_path_trust_split)

text \<open>
  C33: Selection is sound and complete. For every registry, every set of dead hosts, every length and
  whatever the entropy source gives, \<open>select_path\<close> returns: a trust-split path of live nodes, published
  with the roles of its positions, or no path, and then there is no trust-split path.
\<close>

theorem select_path_correct:
  "(\<exists>ns. select_path entropy r hops = Some (Some (select_hops hops ns)) \<and> trust_split r hops ns) \<or>
   (select_path entropy r hops = Some None \<and> \<not> (\<exists>ns. trust_split r hops ns))"
  by (rule select_path_cases)

lemma extend_loop_ends:
  assumes "length chosen < hops"
  shows "(\<exists>ext. extend_loop candidates hops rest chosen = Some (True, chosen @ ext) \<and> length (chosen @ ext) = hops) \<or>
    extend_loop candidates hops rest chosen = Some (False, chosen)"
  using assms
proof (induction "hops - length chosen" arbitrary: chosen rest rule: less_induct)
  case less
  note outer = less.hyps
  show ?case
  proof (induction rest)
    case Nil
    show ?case by (subst (2) extend_loop.simps) simp
  next
    case (Cons n rest)
    let ?c = "chosen @ [n]"
    define inner where "inner = (if length ?c = hops then Some (True, ?c) else extend_loop candidates hops candidates ?c)"
    have i: "(\<exists>ext. inner = Some (True, ?c @ ext) \<and> length (?c @ ext) = hops) \<or> inner = Some (False, ?c)"
      using outer [of ?c candidates] less.prems by (cases "length ?c = hops") (auto simp: inner_def)
    show ?case
    proof (cases "\<not> fills n (for_position (length chosen) hops) \<or> list_ex (\<lambda>c. clash c n) chosen \<or> list_ex (\<lambda>c. same_node c n) chosen")
      case True
      then have "extend_loop candidates hops (n # rest) chosen = extend_loop candidates hops rest chosen"
        by (subst extend_loop.simps) auto
      then show ?thesis using Cons by simp
    next
      case False
      then have "extend_loop candidates hops (n # rest) chosen = Option.bind inner (\<lambda>(found, chosen').
          if found then Some (True, chosen') else extend_loop candidates hops rest (butlast chosen'))"
        by (subst extend_loop.simps) (simp add: inner_def)
      then show ?thesis using i Cons by auto
    qed
  qed
qed

text \<open>
  The search ends. Started from any path no longer than asked for, over any candidates, the
  backtracking search returns; when it succeeds the path has been extended to the length asked for, and
  when it fails the path is back to what it was, every push undone.
\<close>

theorem extend_path_terminates:
  "length chosen \<le> hops \<Longrightarrow>
   (\<exists>ext. extend_path candidates hops chosen = Some (True, chosen @ ext) \<and> length (chosen @ ext) = hops) \<or>
   extend_path candidates hops chosen = Some (False, chosen)"
  using extend_loop_ends [of chosen hops candidates candidates] by (auto simp: extend_path_def)

theorem extend_path_terminates_witness:
  "(\<exists>ext. extend_path (nr_nodes dev_default) 3 [] = Some (True, [] @ ext) \<and> length ([] @ ext) = 3) \<or>
   extend_path (nr_nodes dev_default) 3 [] = Some (False, [])"
  by (rule extend_path_terminates) simp

end
