(* ===== verification/Token.thy ===== *)
theory Token
  imports Grant
begin

text \<open>
  Blind bearer tokens (nil-crypto/src/token.rs): the message format, the issuer, the verifier with
  its key-derived epochs, and the client's blinding state. The blind-RSA library is third-party code:
  the fields of a record \<open>blind_rsa\<close>, with \<open>blind_rsa_ok\<close> for what the code relies on. Clock,
  entropy and allocation are arguments. The lemmas show that a token that went through blinding,
  signing and unblinding is accepted under an epoch of the key that signed it, and for how long a
  message stays current.
\<close>

section \<open>The library\<close>

record blinding =
  bl_message :: bytes
  bl_secret :: bytes
  bl_randomizer :: "bytes option"

record blind_rsa =
  br_generate :: "bytes \<Rightarrow> nat \<Rightarrow> (bytes \<times> bytes) option"
  br_secret_from_der :: "bytes \<Rightarrow> bytes option"
  br_secret_to_der :: "bytes \<Rightarrow> bytes option"
  br_public_key :: "bytes \<Rightarrow> bytes option"
  br_public_from_der :: "bytes \<Rightarrow> bytes option"
  br_public_to_der :: "bytes \<Rightarrow> bytes option"
  br_blind :: "bytes \<Rightarrow> bytes \<Rightarrow> bytes \<Rightarrow> blinding option"
  br_blind_sign :: "bytes \<Rightarrow> bytes \<Rightarrow> bytes option"
  br_finalize :: "bytes \<Rightarrow> bytes \<Rightarrow> blinding \<Rightarrow> bytes \<Rightarrow> bytes option"
  br_verify :: "bytes \<Rightarrow> bytes \<Rightarrow> bytes \<Rightarrow> bool"

text \<open>
  The documented behaviour: a key pair survives its DER form, and a signature that was blindly made
  with the secret key on a blinded message and unblinded with the blinding's own state verifies.
\<close>

definition blind_rsa_ok :: "blind_rsa \<Rightarrow> bool" where
  "blind_rsa_ok R \<longleftrightarrow>
     (\<forall>pk der. br_public_to_der R pk = Some der \<longrightarrow> br_public_from_der R der = Some pk) \<and>
     (\<forall>sk pk rng msg st bs sig.
        br_public_key R sk = Some pk \<longrightarrow> br_blind R rng pk msg = Some st \<longrightarrow> br_blind_sign R sk (bl_message st) = Some bs \<longrightarrow>
        br_finalize R pk bs st msg = Some sig \<longrightarrow> br_verify R pk sig msg)"

section \<open>Messages\<close>

definition TOKEN_MODULUS_BITS :: nat where "TOKEN_MODULUS_BITS = 2048"
definition V2_MAGIC :: bytes where "V2_MAGIC = lit ''NTV2''"
definition V2_VALIDITY_SECS :: u64 where "V2_VALIDITY_SECS = 24 * 60 * 60"
definition V2_EPOCH_SECS :: u64 where "V2_EPOCH_SECS = 60 * 60"

datatype token_error = Rsa string

definition v2_expiry :: "u64 \<Rightarrow> u64" where
  "v2_expiry now = ((now div V2_EPOCH_SECS) + (V2_VALIDITY_SECS div V2_EPOCH_SECS)) * V2_EPOCH_SECS"

text \<open>One draw of 20 bytes of entropy per message.\<close>

fun v2_messages :: "u64 \<Rightarrow> bytes option list \<Rightarrow> token_error + bytes list" where
  "v2_messages expiry [] = Inr []"
| "v2_messages expiry (None # draws) = Inl (Rsa ''token entropy'')"
| "v2_messages expiry (Some e # draws) =
     bindE (v2_messages expiry draws) (\<lambda>msgs. Inr ((V2_MAGIC @ to_be 8 expiry @ e) # msgs))"

definition new_v2_message_batch ::
  "duration option \<Rightarrow> (nat \<Rightarrow> bool) \<Rightarrow> (nat \<Rightarrow> bytes option) \<Rightarrow> nat \<Rightarrow> token_error + bytes list" where
  "new_v2_message_batch clock reserve entropy count =
     bindE (ok_or (Rsa ''clock'') clock) (\<lambda>now.
     if \<not> reserve count then Inl (Rsa ''token batch allocation'')
     else v2_messages (v2_expiry (du_secs now)) (map entropy [0..<count]))"

definition new_v2_message :: "duration option \<Rightarrow> (nat \<Rightarrow> bool) \<Rightarrow> (nat \<Rightarrow> bytes option) \<Rightarrow> token_error + bytes" where
  "new_v2_message clock reserve entropy =
     bindE (new_v2_message_batch clock reserve entropy 1) (\<lambda>msgs.
     if msgs = [] then Inl (Rsa ''token batch unexpectedly empty'') else Inr (last msgs))"

definition is_v2_message :: "bytes \<Rightarrow> bool" where
  "is_v2_message msg \<longleftrightarrow> length msg = 32 \<and> take 4 msg = V2_MAGIC"

definition v2_message_is_current :: "bytes \<Rightarrow> u64 \<Rightarrow> bool" where
  "v2_message_is_current msg now \<longleftrightarrow>
     is_v2_message msg \<and>
     (let expiry = of_be (take 8 (drop 4 msg)) in
      now \<le> expiry \<and> expiry \<le> saturating_add now (V2_VALIDITY_SECS + V2_EPOCH_SECS))"

section \<open>Issuer\<close>

record issuer =
  is_pk :: bytes
  is_sk :: bytes

definition issuer_generate :: "blind_rsa \<Rightarrow> bytes \<Rightarrow> token_error + issuer" where
  "issuer_generate R rng =
     bindE (ok_or (Rsa ''rsa'') (br_generate R rng TOKEN_MODULUS_BITS)) (\<lambda>(pk, sk). Inr \<lparr>is_pk = pk, is_sk = sk\<rparr>)"

definition issuer_from_secret_der :: "blind_rsa \<Rightarrow> bytes \<Rightarrow> token_error + issuer" where
  "issuer_from_secret_der R der =
     bindE (ok_or (Rsa ''rsa'') (br_secret_from_der R der)) (\<lambda>sk.
     bindE (ok_or (Rsa ''rsa'') (br_public_key R sk)) (\<lambda>pk. Inr \<lparr>is_pk = pk, is_sk = sk\<rparr>))"

definition secret_der :: "blind_rsa \<Rightarrow> issuer \<Rightarrow> token_error + bytes" where
  "secret_der R i = ok_or (Rsa ''rsa'') (br_secret_to_der R (is_sk i))"

definition public_der :: "blind_rsa \<Rightarrow> issuer \<Rightarrow> token_error + bytes" where
  "public_der R i = ok_or (Rsa ''rsa'') (br_public_to_der R (is_pk i))"

definition blind_sign :: "blind_rsa \<Rightarrow> issuer \<Rightarrow> bytes \<Rightarrow> token_error + bytes" where
  "blind_sign R i blind_msg = ok_or (Rsa ''rsa'') (br_blind_sign R (is_sk i) blind_msg)"

section \<open>Verifier\<close>

definition LEGACY_EPOCH :: u32 where "LEGACY_EPOCH = 0"

definition key_epoch :: "(bytes \<Rightarrow> bytes) \<Rightarrow> bytes \<Rightarrow> u32" where
  "key_epoch sha256 der = (let e = of_be (take 4 (sha256 der)) in if e = LEGACY_EPOCH then 1 else e)"

record token_verifier =
  tv_keys :: "(u32 \<times> bytes) list"

definition from_public_der :: "blind_rsa \<Rightarrow> (bytes \<Rightarrow> bytes) \<Rightarrow> bytes \<Rightarrow> token_error + token_verifier" where
  "from_public_der R sha256 der =
     bindE (ok_or (Rsa ''rsa'') (br_public_from_der R der)) (\<lambda>key. Inr \<lparr>tv_keys = [(key_epoch sha256 der, key)]\<rparr>)"

fun load_keys :: "blind_rsa \<Rightarrow> (bytes \<Rightarrow> bytes) \<Rightarrow> bytes list \<Rightarrow> token_error + (u32 \<times> bytes) list" where
  "load_keys R sha256 [] = Inr []"
| "load_keys R sha256 (d # ds) =
     bindE (ok_or (Rsa ''rsa'') (br_public_from_der R d)) (\<lambda>k.
     bindE (load_keys R sha256 ds) (\<lambda>ks. Inr ((key_epoch sha256 d, k) # ks)))"

definition from_public_ders :: "blind_rsa \<Rightarrow> (bytes \<Rightarrow> bytes) \<Rightarrow> bytes list \<Rightarrow> token_error + token_verifier" where
  "from_public_ders R sha256 ders =
     (if ders = [] then Inl (Rsa ''verifier needs at least one public key'')
      else bindE (load_keys R sha256 ders) (\<lambda>keys. Inr \<lparr>tv_keys = keys\<rparr>))"

definition verify_with_epoch :: "blind_rsa \<Rightarrow> token_verifier \<Rightarrow> bytes \<Rightarrow> bytes \<Rightarrow> u32 option" where
  "verify_with_epoch R v sig msg = map_option fst (find (\<lambda>(_, pk). br_verify R pk sig msg) (tv_keys v))"

definition token_verify :: "blind_rsa \<Rightarrow> token_verifier \<Rightarrow> bytes \<Rightarrow> bytes \<Rightarrow> bool" where
  "token_verify R v sig msg \<longleftrightarrow> verify_with_epoch R v sig msg \<noteq> None"

definition epochs :: "token_verifier \<Rightarrow> u32 set" where
  "epochs v = set (map fst (tv_keys v))"

definition key_count :: "token_verifier \<Rightarrow> nat" where
  "key_count v = length (tv_keys v)"

section \<open>Client\<close>

record token_request =
  tr_blind_msg :: bytes
  tr_msg :: bytes
  tr_state :: blinding

record persisted_request =
  pt_blind_msg :: bytes
  pt_msg :: bytes
  pt_secret :: bytes
  pt_randomizer :: "bytes option"

definition export_persisted :: "token_request \<Rightarrow> persisted_request" where
  "export_persisted r =
     \<lparr>pt_blind_msg = tr_blind_msg r, pt_msg = tr_msg r, pt_secret = bl_secret (tr_state r), pt_randomizer = bl_randomizer (tr_state r)\<rparr>"

definition from_persisted :: "persisted_request \<Rightarrow> token_error + token_request" where
  "from_persisted p =
     (let modulus_bytes = TOKEN_MODULUS_BITS div 8 in
      if length (pt_blind_msg p) \<noteq> modulus_bytes \<or> length (pt_secret p) \<noteq> modulus_bytes \<or> length (pt_msg p) \<noteq> 32
      then Inl (Rsa ''persisted token request has invalid field lengths'')
      else Inr \<lparr>tr_blind_msg = pt_blind_msg p, tr_msg = pt_msg p,
                tr_state = \<lparr>bl_message = pt_blind_msg p, bl_secret = pt_secret p, bl_randomizer = pt_randomizer p\<rparr>\<rparr>)"

definition token_blind :: "blind_rsa \<Rightarrow> bytes \<Rightarrow> bytes \<Rightarrow> bytes \<Rightarrow> token_error + token_request" where
  "token_blind R rng der msg =
     bindE (ok_or (Rsa ''rsa'') (br_public_from_der R der)) (\<lambda>pk.
     bindE (ok_or (Rsa ''rsa'') (br_blind R rng pk msg)) (\<lambda>st.
     Inr \<lparr>tr_blind_msg = bl_message st, tr_msg = msg, tr_state = st\<rparr>))"

definition token_finalize :: "blind_rsa \<Rightarrow> bytes \<Rightarrow> token_request \<Rightarrow> bytes \<Rightarrow> token_error + bytes" where
  "token_finalize R der req blind_sig =
     bindE (ok_or (Rsa ''rsa'') (br_public_from_der R der)) (\<lambda>pk.
     ok_or (Rsa ''rsa'') (br_finalize R pk blind_sig (tr_state req) (tr_msg req)))"

section \<open>Lifetime of a message\<close>

lemma v2_messages_Inr:
  "v2_messages expiry draws = Inr msgs \<Longrightarrow>
     length msgs = length draws \<and> (\<forall>m\<in>set msgs. \<exists>e. Some e \<in> set draws \<and> m = V2_MAGIC @ to_be 8 expiry @ e)"
  by (induction expiry draws arbitrary: msgs rule: v2_messages.induct) fastforce+

lemma unat_v2_expiry:
  assumes "unat now < 2 ^ 63"
  shows "unat (v2_expiry now) = (unat now div 3600 + 24) * 3600"
proof -
  have "unat (now div V2_EPOCH_SECS) = unat now div 3600" by (simp add: V2_EPOCH_SECS_def unat_div)
  moreover have v: "V2_VALIDITY_SECS div V2_EPOCH_SECS = (24 :: u64)" by (simp add: V2_VALIDITY_SECS_def V2_EPOCH_SECS_def)
  moreover have "unat now div 3600 * 3600 \<le> unat now" by simp
  then have "(unat now div 3600 + 24) * 3600 < 2 ^ 64" using assms by simp
  ultimately show ?thesis
    unfolding v2_expiry_def v by (simp add: unat_word_ariths V2_EPOCH_SECS_def)
qed

lemma v2_message_shape:
  assumes "length e = 20"
  shows "is_v2_message (V2_MAGIC @ to_be 8 expiry @ e)" and "of_be (take 8 (drop 4 (V2_MAGIC @ to_be 8 expiry @ e))) = (expiry :: u64)"
  using assms by (simp_all add: is_v2_message_def V2_MAGIC_def of_be_to_be)

text \<open>
  How long a token message lives. Every message of a batch is a v2 message with the batch's one
  expiry, between 23 and 24 hours after the clock reading and on an hour; it is current from an hour
  before the reading until that expiry and never after, and a message whose expiry lies more than 25
  hours ahead is never current, whoever made it.
\<close>

theorem v2_message_lifetime:
  assumes "new_v2_message_batch (Some now) reserve entropy count = Inr msgs" and "msg \<in> set msgs"
    and "\<forall>i e. entropy i = Some e \<longrightarrow> length e = 20" and "unat (du_secs now) < 2 ^ 63"
  shows "length msgs = count \<and> is_v2_message msg \<and>
    (\<exists>expiry. unat expiry mod 3600 = 0 \<and> unat (du_secs now) + 23 * 3600 < unat expiry \<and> unat expiry \<le> unat (du_secs now) + 24 * 3600 \<and>
       (\<forall>t. v2_message_is_current msg t \<longleftrightarrow> t \<le> expiry \<and> unat expiry \<le> unat t + 25 * 3600)) \<and>
    (\<forall>m t. unat t + 25 * 3600 < unat (of_be (take 8 (drop 4 m)) :: u64) \<longrightarrow> \<not> v2_message_is_current m t)"
proof -
  let ?n = "unat (du_secs now)"
  define x where "x = v2_expiry (du_secs now)"
  have b: "v2_messages x (map entropy [0..<count]) = Inr msgs"
    using assms(1) by (auto simp: new_v2_message_batch_def x_def split: if_splits)
  obtain e where e: "msg = V2_MAGIC @ to_be 8 x @ e" "length e = 20"
    using v2_messages_Inr [OF b] assms(2,3) by fastforce
  have ux: "unat x = (?n div 3600 + 24) * 3600" unfolding x_def by (rule unat_v2_expiry [OF assms(4)])
  have n: "?n div 3600 * 3600 \<le> ?n" "?n < ?n div 3600 * 3600 + 3600"
    using div_mult_mod_eq [of ?n 3600] mod_less_divisor [of 3600 ?n] by linarith+
  have sat: "y \<le> saturating_add t (V2_VALIDITY_SECS + V2_EPOCH_SECS) \<longleftrightarrow> unat y \<le> unat t + 25 * 3600" for y t :: u64
    using unat_less_pow [of y] by (auto simp: word_le_nat_alt unat_saturating_add V2_VALIDITY_SECS_def V2_EPOCH_SECS_def min_def)
  have cur: "v2_message_is_current msg t \<longleftrightarrow> t \<le> x \<and> unat x \<le> unat t + 25 * 3600" for t
    using v2_message_shape [OF e(2), of x] by (simp add: v2_message_is_current_def e(1) sat)
  have "\<not> v2_message_is_current m t" if "unat t + 25 * 3600 < unat (of_be (take 8 (drop 4 m)) :: u64)" for m t
    using that by (auto simp: v2_message_is_current_def sat Let_def)
  moreover have "length msgs = count" using v2_messages_Inr [OF b] by simp
  moreover have "unat x mod 3600 = 0" using ux by simp
  ultimately show ?thesis
    using v2_message_shape(1) [OF e(2), of x] e(1) cur ux n by (intro conjI exI [of _ x]) auto
qed

section \<open>Epochs and acceptance\<close>

lemma load_keys_Inr:
  "load_keys R sha256 ders = Inr keys \<Longrightarrow>
     list_all2 (\<lambda>d (e, k). e = key_epoch sha256 d \<and> br_public_from_der R d = Some k) ders keys"
  by (induction ders arbitrary: keys) auto

lemma key_epoch_not_legacy [simp]: "key_epoch sha256 der \<noteq> LEGACY_EPOCH"
  by (simp add: key_epoch_def LEGACY_EPOCH_def Let_def)

text \<open>
  C35: From blinding to redemption. Take an issuer whose key the verifier holds: a message blinded
  under the issuer's public key, signed blindly and unblinded gives a token the verifier accepts, under
  the epoch of a held key that verifies it; the client state may be persisted and restored in between.
  Every epoch the verifier reports is one it retains and never the legacy epoch, and a token that
  no held key verifies has none.
\<close>

theorem token_issue_and_redeem:
  assumes "blind_rsa_ok R" and "br_public_key R (is_sk i) = Some (is_pk i)" and "public_der R i = Inr der"
    and "token_blind R rng der msg = Inr req" and "blind_sign R i (tr_blind_msg req) = Inr bs"
    and "token_finalize R der req bs = Inr sig" and "from_public_ders R sha256 ders = Inr v" and "der \<in> set ders"
  shows "(\<exists>d\<in>set ders. \<exists>pk. verify_with_epoch R v sig msg = Some (key_epoch sha256 d) \<and>
      br_public_from_der R d = Some pk \<and> br_verify R pk sig msg) \<and>
    (\<forall>sg m e. verify_with_epoch R v sg m = Some e \<longrightarrow> e \<in> epochs v \<and> e \<noteq> LEGACY_EPOCH) \<and>
    (\<forall>sg m. (\<forall>d\<in>set ders. \<forall>pk. br_public_from_der R d = Some pk \<longrightarrow> \<not> br_verify R pk sg m) \<longrightarrow> verify_with_epoch R v sg m = None) \<and>
    (length (tr_blind_msg req) = 256 \<and> length (bl_secret (tr_state req)) = 256 \<and> length msg = 32 \<longrightarrow>
       from_persisted (export_persisted req) = Inr req)"
proof (intro conjI)
  have der: "br_public_from_der R der = Some (is_pk i)"
    using assms(1,3) by (auto simp: blind_rsa_ok_def public_der_def)
  obtain st where st: "br_blind R rng (is_pk i) msg = Some st" "req = \<lparr>tr_blind_msg = bl_message st, tr_msg = msg, tr_state = st\<rparr>"
    using assms(4) der by (auto simp: token_blind_def)
  have "br_verify R (is_pk i) sig msg"
    using assms(1,2,5,6) der st by (auto simp: blind_rsa_ok_def blind_sign_def token_finalize_def)
  have keys: "list_all2 (\<lambda>d (e, k). e = key_epoch sha256 d \<and> br_public_from_der R d = Some k) ders (tv_keys v)"
    using assms(7) load_keys_Inr by (auto simp: from_public_ders_def split: if_splits)
  have held: "\<exists>d\<in>set ders. e = key_epoch sha256 d \<and> br_public_from_der R d = Some k" if "(e, k) \<in> set (tv_keys v)" for e k
    using keys that by (force simp: list_all2_conv_all_nth in_set_conv_nth)
  have found: "\<exists>d\<in>set ders. \<exists>pk. e = key_epoch sha256 d \<and> br_public_from_der R d = Some pk \<and> br_verify R pk sg m \<and> e \<in> epochs v"
    if accepted: "verify_with_epoch R v sg m = Some e" for sg m e
  proof -
    obtain k where "find (\<lambda>(_, pk). br_verify R pk sg m) (tv_keys v) = Some (e, k)"
      using accepted by (auto simp: verify_with_epoch_def)
    then have "(e, k) \<in> set (tv_keys v)" "br_verify R k sg m" by (auto simp: find_Some_iff in_set_conv_nth)
    then show ?thesis using held [of e k] by (force simp: epochs_def)
  qed
  obtain e where "(e, is_pk i) \<in> set (tv_keys v)"
    using keys assms(8) der by (force simp: list_all2_conv_all_nth in_set_conv_nth)
  then have "verify_with_epoch R v sig msg \<noteq> None"
    using \<open>br_verify R (is_pk i) sig msg\<close> by (auto simp: verify_with_epoch_def find_None_iff)
  then show "\<exists>d\<in>set ders. \<exists>pk. verify_with_epoch R v sig msg = Some (key_epoch sha256 d) \<and>
      br_public_from_der R d = Some pk \<and> br_verify R pk sig msg" using found by blast
  show "\<forall>sg m e. verify_with_epoch R v sg m = Some e \<longrightarrow> e \<in> epochs v \<and> e \<noteq> LEGACY_EPOCH"
    using found key_epoch_not_legacy by metis
  show "\<forall>sg m. (\<forall>d\<in>set ders. \<forall>pk. br_public_from_der R d = Some pk \<longrightarrow> \<not> br_verify R pk sg m) \<longrightarrow> verify_with_epoch R v sg m = None"
    using found by (meson not_Some_eq)
  show "length (tr_blind_msg req) = 256 \<and> length (bl_secret (tr_state req)) = 256 \<and> length msg = 32 \<longrightarrow>
      from_persisted (export_persisted req) = Inr req"
    by (simp add: st(2) from_persisted_def export_persisted_def TOKEN_MODULUS_BITS_def)
qed

theorem v2_message_lifetime_witness:
  "\<exists>msg expiry. new_v2_message_batch (Some \<lparr>du_secs = 7200, du_nanos = 0\<rparr>) (\<lambda>_. True) (\<lambda>_. Some (replicate 20 0)) 1 = Inr [msg] \<and>
     (\<forall>t. v2_message_is_current msg t \<longleftrightarrow> t \<le> expiry \<and> unat expiry \<le> unat t + 25 * 3600)"
proof -
  let ?msg = "V2_MAGIC @ to_be 8 (v2_expiry 7200) @ replicate 20 0"
  have b: "new_v2_message_batch (Some \<lparr>du_secs = 7200, du_nanos = 0\<rparr>) (\<lambda>_. True) (\<lambda>_. Some (replicate 20 0)) 1 = Inr [?msg]"
    by (simp add: new_v2_message_batch_def)
  from v2_message_lifetime [OF this, of ?msg] b show ?thesis by (intro exI [of _ ?msg]) auto
qed

text \<open>A library of the right shape, for evaluating the model: keys are their DER form, a signature is the message.\<close>

definition demo_rsa :: blind_rsa where
  "demo_rsa =
     \<lparr>br_generate = (\<lambda>rng bits. Some (rng, rng)), br_secret_from_der = Some, br_secret_to_der = Some, br_public_key = Some,
      br_public_from_der = Some, br_public_to_der = Some,
      br_blind = (\<lambda>rng pk msg. Some \<lparr>bl_message = msg, bl_secret = rng, bl_randomizer = None\<rparr>),
      br_blind_sign = (\<lambda>sk m. Some (sk @ m)), br_finalize = (\<lambda>pk bs st msg. Some bs), br_verify = (\<lambda>pk sig msg. sig = pk @ msg)\<rparr>"

lemma demo_rsa_ok: "blind_rsa_ok demo_rsa"
  by (auto simp: blind_rsa_ok_def demo_rsa_def)

theorem token_issue_and_redeem_witness:
  "\<exists>v. from_public_ders demo_rsa (\<lambda>_. [0, 0, 0, 9]) [[2], [1]] = Inr v \<and> verify_with_epoch demo_rsa v [1, 5] [5] = Some 9"
proof -
  let ?i = "\<lparr>is_pk = [1], is_sk = [1]\<rparr>" and ?st = "\<lparr>bl_message = [5], bl_secret = [7], bl_randomizer = None\<rparr>"
  let ?req = "\<lparr>tr_blind_msg = [5], tr_msg = [5], tr_state = ?st\<rparr>" and ?h = "\<lambda>_ :: bytes. [0, 0, 0, 9 :: byte]"
  obtain v where v: "from_public_ders demo_rsa ?h [[2], [1]] = Inr v" by (simp add: from_public_ders_def demo_rsa_def)
  have nine: "key_epoch ?h d = 9" for d
    by (simp add: key_epoch_def of_be_def nat_of_be_def LEGACY_EPOCH_def)
  have "\<exists>d\<in>set [[2], [1]]. verify_with_epoch demo_rsa v [1, 5] [5] = Some (key_epoch ?h d)"
    using token_issue_and_redeem [OF demo_rsa_ok, of ?i "[1]" "[7]" "[5]" ?req "[1, 5]" "[1, 5]" ?h "[[2], [1]]" v] v
    by (auto simp: demo_rsa_def public_der_def token_blind_def blind_sign_def token_finalize_def)
  with nine v show ?thesis by auto
qed

end
