(* ===== verification/Coord_Config.thy ===== *)
theory Coord_Config
  imports Client_Ip Path_Search Token
begin

text \<open>
  The Coordinator's configuration (nil-coordinator/src/config.rs). The process environment, the
  files the keys are read from, the entropy source, the registry decoder and the token library are
  parameters; \<open>release_build\<close> is \<open>!cfg!(debug_assertions)\<close>. An error is a value of
  \<open>config_error\<close>, one constructor per message.
\<close>

section \<open>Socket addresses as text\<close>

datatype socket_addr = SockV4 ipv4addr u16 | SockV6 ipv6addr u32 u16

definition read_port :: "u16 parser" where
  "read_port s =
     Option.bind (read_given_char 58 s) (\<lambda>(_, rest).
     map_option (\<lambda>(v, r). (word_of_nat v, r)) (read_number 10 65535 (length rest) True rest))"

definition read_scope_id :: "u32 parser" where
  "read_scope_id s =
     Option.bind (read_given_char 37 s) (\<lambda>(_, rest).
     map_option (\<lambda>(v, r). (word_of_nat v, r)) (read_number 10 4294967295 (length rest) True rest))"

definition read_socket_addr_v4 :: "socket_addr parser" where
  "read_socket_addr_v4 s =
     Option.bind (read_ipv4_addr s) (\<lambda>(ip, r).
     map_option (\<lambda>(port, r1). (SockV4 ip port, r1)) (read_port r))"

definition read_socket_addr_v6 :: "socket_addr parser" where
  "read_socket_addr_v6 s =
     Option.bind (read_given_char 91 s) (\<lambda>(_, r).
     Option.bind (read_ipv6_addr r) (\<lambda>(ip, r1).
     let (scope, r2) = (case read_scope_id r1 of None \<Rightarrow> (0, r1) | Some x \<Rightarrow> x) in
     Option.bind (read_given_char 93 r2) (\<lambda>(_, r3).
     map_option (\<lambda>(port, r4). (SockV6 ip scope port, r4)) (read_port r3))))"

definition parse_socket_addr :: "bytes \<Rightarrow> socket_addr option" where
  "parse_socket_addr s =
     (case (case read_socket_addr_v4 s of None \<Rightarrow> read_socket_addr_v6 s | r \<Rightarrow> r) of
        Some (a, []) \<Rightarrow> Some a
      | _ \<Rightarrow> None)"

section \<open>Key files\<close>

text \<open>
  What opening a path with \<open>O_NOFOLLOW\<close> shows: the metadata of the open file and what reading it gives,
  which may differ from the length in the metadata.
\<close>

record key_file =
  kf_is_file :: bool
  kf_len :: nat
  kf_mode :: u32
  kf_contents :: "bytes option"

type_synonym key_files = "bytes \<Rightarrow> key_file option"

datatype config_error =
    BadAddr | BadHops | HopsRange | PubkeyNotHex | PubkeyInvalid token_error
  | RetiredGrantKey string | TwoSigningKeys | InlineKeyForbidden
  | OpenFailed bytes | NotRegularFile bytes | WrongLength bytes | TooLong bytes | NotPrivate bytes u32 | ReadFailed bytes
  | SeedShape | SeedNotLowerHex | ResultKeyRequired | ResultKeyEntropy | ResultKeyVar
  | BadRealm grant_error | RealmRequired | BadTtl | TtlRange | RegistryFailed registry_error
  | TooManyHops nat nat | Infeasible nat
  | PostureHops | PostureVerifier | PostureSigner | PostureRealm | PostureSignerFile | PostureResultKeyFile
  | PostureTls | PostureTransparency | PostureTcb | PostureNested

definition DEFAULT_NULLIFIER_WARN_AT :: nat where "DEFAULT_NULLIFIER_WARN_AT = 1000000"
definition GRANT_SEED_HEX_LEN :: nat where "GRANT_SEED_HEX_LEN = 64"
definition MAX_GRANT_SEED_FILE_BYTES :: nat where "MAX_GRANT_SEED_FILE_BYTES = GRANT_SEED_HEX_LEN + 1"
definition REDEMPTION_RESULT_KEY_BYTES :: nat where "REDEMPTION_RESULT_KEY_BYTES = 32"

definition group_other :: "u32 \<Rightarrow> bool" where
  "group_other mode \<longleftrightarrow> mode AND 63 \<noteq> 0"

definition seed_nibble :: "byte \<Rightarrow> byte" where
  "seed_nibble b = (if 48 \<le> b \<and> b \<le> 57 then b - 48 else b - 97 + 10)"

fun seed_chunks :: "bytes \<Rightarrow> bytes" where
  "seed_chunks (a # b # rest) = (push_bit 4 (seed_nibble a) OR seed_nibble b) # seed_chunks rest"
| "seed_chunks _ = []"

definition decode_canonical_grant_seed :: "bytes \<Rightarrow> config_error + bytes" where
  "decode_canonical_grant_seed raw =
     bindE (if length raw = GRANT_SEED_HEX_LEN then Inr raw
            else if length raw = MAX_GRANT_SEED_FILE_BYTES \<and> last raw = 10 then Inr (take GRANT_SEED_HEX_LEN raw)
            else Inl SeedShape) (\<lambda>hex.
     if \<not> list_all (\<lambda>b. is_ascii_digit b \<or> (97 \<le> b \<and> b \<le> 102)) hex then Inl SeedNotLowerHex
     else Inr (seed_chunks hex))"

definition open_grant_signing_key_file :: "key_files \<Rightarrow> bytes \<Rightarrow> bool \<Rightarrow> config_error + key_file" where
  "open_grant_signing_key_file files p enforce =
     bindE (ok_or (OpenFailed p) (files p)) (\<lambda>f.
     if \<not> kf_is_file f then Inl (NotRegularFile p)
     else if kf_len f > MAX_GRANT_SEED_FILE_BYTES then Inl (TooLong p)
     else if enforce \<and> group_other (kf_mode f) then Inl (NotPrivate p (kf_mode f AND 4095))
     else Inr f)"

definition load_grant_signing_key_file :: "key_files \<Rightarrow> bytes \<Rightarrow> bool \<Rightarrow> config_error + signing_key" where
  "load_grant_signing_key_file files p enforce =
     bindE (open_grant_signing_key_file files p enforce) (\<lambda>f.
     bindE (ok_or (ReadFailed p) (kf_contents f)) (\<lambda>contents.
     let raw = take (MAX_GRANT_SEED_FILE_BYTES + 1) contents in
     if length raw > MAX_GRANT_SEED_FILE_BYTES then Inl (TooLong p)
     else bindE (decode_canonical_grant_seed raw) (\<lambda>seed. Inr (from_seed seed))))"

definition load_grant_signer :: "environment \<Rightarrow> key_files \<Rightarrow> bool \<Rightarrow> config_error + (signing_key option \<times> bool)" where
  "load_grant_signer env files release_build =
     (if env ''NW_GRANT_KEY_FILE'' \<noteq> None then Inl (RetiredGrantKey ''NW_GRANT_KEY_FILE'')
      else if env ''NW_GRANT_KEY'' \<noteq> None then Inl (RetiredGrantKey ''NW_GRANT_KEY'')
      else
        case (env_ok env ''NW_GRANT_SIGNING_KEY_FILE'', env_ok env ''NW_GRANT_SIGNING_KEY'') of
          (Some _, Some _) \<Rightarrow> Inl TwoSigningKeys
        | (Some p, None) \<Rightarrow> bindE (load_grant_signing_key_file files p release_build) (\<lambda>k. Inr (Some k, True))
        | (None, Some raw) \<Rightarrow>
            if release_build then Inl InlineKeyForbidden
            else bindE (decode_canonical_grant_seed raw) (\<lambda>seed. Inr (Some (from_seed seed), False))
        | (None, None) \<Rightarrow> Inr (None, False))"

text \<open>\<open>read_exact\<close> of the key and one more \<open>read\<close>, which must find the end of the file.\<close>

definition load_redemption_result_key_file :: "key_files \<Rightarrow> bytes \<Rightarrow> bool \<Rightarrow> config_error + bytes" where
  "load_redemption_result_key_file files p enforce =
     bindE (ok_or (OpenFailed p) (files p)) (\<lambda>f.
     if \<not> kf_is_file f then Inl (NotRegularFile p)
     else if kf_len f \<noteq> REDEMPTION_RESULT_KEY_BYTES then Inl (WrongLength p)
     else if enforce \<and> group_other (kf_mode f) then Inl (NotPrivate p (kf_mode f AND 4095))
     else
       bindE (ok_or (ReadFailed p) (kf_contents f)) (\<lambda>contents.
       if length contents < REDEMPTION_RESULT_KEY_BYTES then Inl (ReadFailed p)
       else if length contents > REDEMPTION_RESULT_KEY_BYTES then Inl (WrongLength p)
       else Inr contents))"

definition load_redemption_result_key ::
  "environment \<Rightarrow> key_files \<Rightarrow> (nat \<Rightarrow> bytes option) \<Rightarrow> bool \<Rightarrow> config_error + (bytes \<times> bool)" where
  "load_redemption_result_key env files entropy release_build =
     (case env_var env ''NW_REDEMPTION_RESULT_KEY_FILE'' of
        EnvOk p \<Rightarrow> bindE (load_redemption_result_key_file files p release_build) (\<lambda>k. Inr (k, True))
      | EnvNotPresent \<Rightarrow>
          if release_build then Inl ResultKeyRequired
          else bindE (ok_or ResultKeyEntropy (entropy REDEMPTION_RESULT_KEY_BYTES)) (\<lambda>k. Inr (k, False))
      | EnvNotUnicode \<Rightarrow> Inl ResultKeyVar)"

section \<open>The posture of a release build\<close>

record release_posture =
  po_path_hops :: nat
  po_has_verifier :: bool
  po_has_grant_signer :: bool
  po_has_grant_realm :: bool
  po_signer_from_file :: bool
  po_result_key_from_file :: bool
  po_registry_tls_pinned :: bool
  po_registry_transparency_pinned :: bool
  po_registry_sev_tcb_pinned :: bool
  po_registry_nested_ipv4_ready :: bool
  po_release_build :: bool

definition validate_release_posture :: "release_posture \<Rightarrow> config_error + unit" where
  "validate_release_posture p =
     (if \<not> po_release_build p then Inr ()
      else if po_path_hops p < 2 then Inl PostureHops
      else if \<not> po_has_verifier p then Inl PostureVerifier
      else if \<not> po_has_grant_signer p then Inl PostureSigner
      else if \<not> po_has_grant_realm p then Inl PostureRealm
      else if \<not> po_signer_from_file p then Inl PostureSignerFile
      else if \<not> po_result_key_from_file p then Inl PostureResultKeyFile
      else if \<not> po_registry_tls_pinned p then Inl PostureTls
      else if \<not> po_registry_transparency_pinned p then Inl PostureTransparency
      else if \<not> po_registry_sev_tcb_pinned p then Inl PostureTcb
      else if \<not> po_registry_nested_ipv4_ready p then Inl PostureNested
      else Inr ())"

text \<open>\<open>None\<close> is a selection that never returns.\<close>

definition validate_registry_feasibility ::
  "(nat \<Rightarrow> bytes option) \<Rightarrow> node_registry \<Rightarrow> nat \<Rightarrow> (config_error + unit) option" where
  "validate_registry_feasibility entropy r hops =
     map_option (\<lambda>sel. if sel = None then Inl (Infeasible hops) else Inr ()) (select_path entropy r hops)"

section \<open>Loading the configuration\<close>

record coord_config =
  cc_addr :: socket_addr
  cc_registry :: node_registry
  cc_path_hops :: nat
  cc_verifier :: "token_verifier option"
  cc_nullifier_path :: "bytes option"
  cc_nullifier_dir :: "bytes option"
  cc_grant_signer :: "signing_key option"
  cc_grant_realm :: bytes
  cc_grant_ttl :: duration
  cc_redemption_result_key :: bytes
  cc_nullifier_warn_at :: nat

fun collect_hex :: "bytes list \<Rightarrow> config_error + bytes list" where
  "collect_hex [] = Inr []"
| "collect_hex (h # hs) =
     bindE (ok_or PubkeyNotHex (config_from_hex h)) (\<lambda>d. bindE (collect_hex hs) (\<lambda>ds. Inr (d # ds)))"

definition load_verifier ::
  "blind_rsa \<Rightarrow> (bytes \<Rightarrow> bytes) \<Rightarrow> environment \<Rightarrow> config_error + token_verifier option" where
  "load_verifier R sha256 env =
     (case env_ok env ''NW_TOKEN_PUBKEY'' of
        None \<Rightarrow> Inr None
      | Some l \<Rightarrow>
          bindE (collect_hex (filter (\<lambda>s. s \<noteq> []) (map trim (split_at 44 l)))) (\<lambda>ders.
          if ders = [] then Inr None
          else bindE (map_err PubkeyInvalid (from_public_ders R sha256 ders)) (\<lambda>v. Inr (Some v))))"

definition load_path_hops :: "environment \<Rightarrow> config_error + nat" where
  "load_path_hops env =
     bindE (case env_ok env ''NW_PATH_HOPS'' of
              Some raw \<Rightarrow> ok_or BadHops (parse_uint (2 ^ 64 - 1) raw)
            | None \<Rightarrow> Inr 3) (\<lambda>n.
     if \<not> (1 \<le> n \<and> n \<le> 8) then Inl HopsRange else Inr n)"

definition load_grant_realm :: "environment \<Rightarrow> signing_key option \<Rightarrow> config_error + bytes" where
  "load_grant_realm env signer =
     (let realm = (case env_ok env ''NW_GRANT_REALM'' of Some r \<Rightarrow> r | None \<Rightarrow> []) in
      bindE (if realm \<noteq> [] then map_err BadRealm (validate_identifier realm) else Inr ()) (\<lambda>_.
      if signer \<noteq> None \<and> realm = [] then Inl RealmRequired else Inr realm))"

definition load_grant_ttl :: "environment \<Rightarrow> config_error + duration" where
  "load_grant_ttl env =
     bindE (case env_ok env ''NW_GRANT_TTL_SECS'' of
              Some raw \<Rightarrow> ok_or BadTtl (parse_u64 raw)
            | None \<Rightarrow> Inr 300) (\<lambda>secs.
     if \<not> (1 \<le> secs \<and> secs \<le> MAX_GRANT_TTL_SECS) then Inl TtlRange
     else Inr \<lparr>du_secs = secs, du_nanos = 0\<rparr>)"

text \<open>The configuration before the registry has been searched for a path, with the posture to validate.\<close>

definition load_config ::
  "blind_rsa \<Rightarrow> (bytes \<Rightarrow> bytes) \<Rightarrow> environment \<Rightarrow> key_files \<Rightarrow> (nat \<Rightarrow> bytes option) \<Rightarrow> (bytes \<Rightarrow> bytes option) \<Rightarrow>
   (bytes \<Rightarrow> registry_file_node list option) \<Rightarrow> bool \<Rightarrow> config_error + (coord_config \<times> release_posture)" where
  "load_config R sha256 env files entropy read_file from_json release_build =
     bindE (ok_or BadAddr (parse_socket_addr
              (case env_ok env ''NW_COORDINATOR_ADDR'' of Some a \<Rightarrow> a | None \<Rightarrow> lit ''0.0.0.0:9090''))) (\<lambda>addr.
     bindE (load_path_hops env) (\<lambda>path_hops.
     bindE (load_verifier R sha256 env) (\<lambda>verifier.
     bindE (load_grant_signer env files release_build) (\<lambda>(signer, signer_from_file).
     bindE (load_redemption_result_key env files entropy release_build) (\<lambda>(result_key, result_key_from_file).
     bindE (load_grant_realm env signer) (\<lambda>realm.
     bindE (load_grant_ttl env) (\<lambda>ttl.
     bindE (map_err RegistryFailed (registry_from_env (\<not> release_build) env read_file from_json)) (\<lambda>registry.
     if path_hops > length (nr_nodes registry) then Inl (TooManyHops path_hops (length (nr_nodes registry)))
     else
       Inr (\<lparr>cc_addr = addr, cc_registry = registry, cc_path_hops = path_hops, cc_verifier = verifier,
             cc_nullifier_path = env_ok env ''NW_NULLIFIER_PATH'', cc_nullifier_dir = env_ok env ''NW_NULLIFIER_DIR'',
             cc_grant_signer = signer, cc_grant_realm = realm, cc_grant_ttl = ttl, cc_redemption_result_key = result_key,
             cc_nullifier_warn_at =
               (case Option.bind (env_ok env ''NW_NULLIFIER_WARN_AT'') (parse_uint (2 ^ 64 - 1)) of
                  Some n \<Rightarrow> n | None \<Rightarrow> DEFAULT_NULLIFIER_WARN_AT)\<rparr>,
            \<lparr>po_path_hops = path_hops, po_has_verifier = verifier \<noteq> None, po_has_grant_signer = signer \<noteq> None,
             po_has_grant_realm = realm \<noteq> [], po_signer_from_file = signer_from_file,
             po_result_key_from_file = result_key_from_file, po_registry_tls_pinned = all_nodes_have_tls_spki registry,
             po_registry_transparency_pinned = all_nodes_have_transparency_key registry,
             po_registry_sev_tcb_pinned = all_sev_nodes_have_min_tcb registry,
             po_registry_nested_ipv4_ready = all_nodes_have_nested_ipv4_endpoints registry,
             po_release_build = release_build\<rparr>)))))))))"

definition config_from_env ::
  "blind_rsa \<Rightarrow> (bytes \<Rightarrow> bytes) \<Rightarrow> environment \<Rightarrow> key_files \<Rightarrow> (nat \<Rightarrow> bytes option) \<Rightarrow> (bytes \<Rightarrow> bytes option) \<Rightarrow>
   (bytes \<Rightarrow> registry_file_node list option) \<Rightarrow> bool \<Rightarrow> (config_error + coord_config) option" where
  "config_from_env R sha256 env files entropy read_file from_json release_build =
     (case load_config R sha256 env files entropy read_file from_json release_build of
        Inl e \<Rightarrow> Some (Inl e)
      | Inr (cfg, posture) \<Rightarrow>
          map_option (\<lambda>feasible. bindE feasible (\<lambda>_. bindE (validate_release_posture posture) (\<lambda>_. Inr cfg)))
            (validate_registry_feasibility entropy (cc_registry cfg) (cc_path_hops cfg)))"

section \<open>Canonical seeds\<close>

lemma seed_chunks_hex: "list_all lower_hex_digit s \<Longrightarrow> hex_chunks s = Some (seed_chunks s)"
  by (induction s rule: seed_chunks.induct)
     (auto simp: nib_def seed_nibble_def lower_hex_digit_def)

lemma seed_chunks_to_hex: "seed_chunks (to_hex bs) = bs"
  using seed_chunks_hex [OF to_hex_lower [of bs]] by (simp add: hex_chunks_to_hex)

lemma lower_text: "(\<lambda>b. is_ascii_digit b \<or> (97 \<le> b \<and> b \<le> 102)) = lower_hex_digit"
  by (rule ext) (simp add: is_ascii_digit_def lower_hex_digit_def)

lemma to_hex_seed_chunks:
  assumes "length s = 64" and "list_all lower_hex_digit s"
  shows "to_hex (seed_chunks s) = s" and "length (seed_chunks s) = 32"
proof -
  have "map ascii_lower s = s" using assms(2) by (induction s) (auto simp: ascii_lower_id)
  then show *: "to_hex (seed_chunks s) = s"
    using to_hex_hex_chunks [OF seed_chunks_hex [OF assms(2)]] assms(1) by simp
  show "length (seed_chunks s) = 32" using arg_cong [OF *, of length] assms(1) by simp
qed

text \<open>A seed has exactly two spellings: 64 lowercase digits, and the same with a newline.\<close>

lemma decode_canonical_grant_seed_Inr:
  "decode_canonical_grant_seed raw = Inr seed \<longleftrightarrow> length seed = 32 \<and> (raw = to_hex seed \<or> raw = to_hex seed @ [10])"
proof
  assume l: "decode_canonical_grant_seed raw = Inr seed"
  then consider "length raw = 64" "list_all lower_hex_digit raw" "seed = seed_chunks raw"
    | "length raw = 65" "last raw = 10" "list_all lower_hex_digit (take 64 raw)" "seed = seed_chunks (take 64 raw)"
    by (auto simp: decode_canonical_grant_seed_def lower_text GRANT_SEED_HEX_LEN_def MAX_GRANT_SEED_FILE_BYTES_def split: if_splits)
  then show "length seed = 32 \<and> (raw = to_hex seed \<or> raw = to_hex seed @ [10])"
  proof cases
    case 2
    then have "raw = take 64 raw @ [10]" using append_butlast_last_id [of raw] by (cases "raw = []") (auto simp: butlast_conv_take)
    then show ?thesis using to_hex_seed_chunks [of "take 64 raw"] 2 by simp
  qed (use to_hex_seed_chunks in simp)
next
  assume r: "length seed = 32 \<and> (raw = to_hex seed \<or> raw = to_hex seed @ [10])"
  then show "decode_canonical_grant_seed raw = Inr seed"
    using to_hex_lower [of seed] seed_chunks_to_hex [of seed]
    by (auto simp: decode_canonical_grant_seed_def lower_text GRANT_SEED_HEX_LEN_def MAX_GRANT_SEED_FILE_BYTES_def)
qed

section \<open>Loading keys\<close>

text \<open>A key was read from a regular file; when privacy is enforced, only its owner can access it.\<close>

definition read_from :: "key_files \<Rightarrow> bytes \<Rightarrow> bool \<Rightarrow> bytes \<Rightarrow> bool" where
  "read_from files p enforce contents \<longleftrightarrow>
     (\<exists>f. files p = Some f \<and> kf_is_file f \<and> (enforce \<longrightarrow> kf_mode f AND 63 = 0) \<and> kf_contents f = Some contents)"

lemma load_grant_signing_key_file_Inr:
  assumes "load_grant_signing_key_file files p enforce = Inr k"
  shows "\<exists>seed contents. k = from_seed seed \<and> length seed = 32 \<and> read_from files p enforce contents \<and>
    (contents = to_hex seed \<or> contents = to_hex seed @ [10])"
proof -
  from assms obtain f contents seed where f: "open_grant_signing_key_file files p enforce = Inr f" "kf_contents f = Some contents"
      "length (take 66 contents) \<le> 65" "decode_canonical_grant_seed (take 66 contents) = Inr seed" "k = from_seed seed"
    by (auto simp: load_grant_signing_key_file_def Let_def MAX_GRANT_SEED_FILE_BYTES_def GRANT_SEED_HEX_LEN_def split: if_splits)
  have "take 66 contents = contents" using f(3) by simp
  moreover have "files p = Some f" "kf_is_file f" "enforce \<longrightarrow> kf_mode f AND 63 = 0"
    using f(1) by (auto simp: open_grant_signing_key_file_def group_other_def split: if_splits)
  ultimately show ?thesis
    using f by (auto simp: decode_canonical_grant_seed_Inr read_from_def intro!: exI [of _ seed])
qed

lemma load_redemption_result_key_file_Inr:
  "load_redemption_result_key_file files p enforce = Inr k \<Longrightarrow> length k = 32 \<and> read_from files p enforce k"
  by (auto simp: load_redemption_result_key_file_def read_from_def group_other_def REDEMPTION_RESULT_KEY_BYTES_def split: if_splits)

lemma env_ok_Some: "env_ok env name = Some v \<Longrightarrow> env name = Some v"
  by (auto simp: env_ok_def env_var_def split: option.splits if_splits)

lemma load_grant_signer_Inr:
  assumes "load_grant_signer env files release = Inr (Some k, True)"
  shows "\<exists>p seed contents. env ''NW_GRANT_SIGNING_KEY_FILE'' = Some p \<and> k = from_seed seed \<and> length seed = 32 \<and>
    read_from files p release contents \<and> (contents = to_hex seed \<or> contents = to_hex seed @ [10])"
  using assms load_grant_signing_key_file_Inr [of files _ release k]
  by (fastforce simp: load_grant_signer_def split: if_splits option.splits dest: env_ok_Some)

lemma load_redemption_result_key_Inr:
  assumes "load_redemption_result_key env files entropy release = Inr (k, True)"
  shows "length k = 32 \<and> (\<exists>p. env ''NW_REDEMPTION_RESULT_KEY_FILE'' = Some p \<and> read_from files p release k)"
  using assms load_redemption_result_key_file_Inr [of files _ release k]
  by (fastforce simp: load_redemption_result_key_def env_var_def split: env_result.splits option.splits if_splits)

lemma load_verifier_Inr: "load_verifier R sha256 env = Inr (Some v) \<Longrightarrow> tv_keys v \<noteq> []"
proof -
  assume "load_verifier R sha256 env = Inr (Some v)"
  then obtain ders where "from_public_ders R sha256 ders = Inr v" "ders \<noteq> []"
    by (auto simp: load_verifier_def split: option.splits if_splits)
  then show ?thesis by (cases ders) (auto simp: from_public_ders_def)
qed

lemma validate_release_posture_Inr:
  "validate_release_posture p = Inr () \<Longrightarrow> po_release_build p \<Longrightarrow>
     2 \<le> po_path_hops p \<and> po_has_verifier p \<and> po_has_grant_signer p \<and> po_has_grant_realm p \<and> po_signer_from_file p \<and>
     po_result_key_from_file p \<and> po_registry_tls_pinned p \<and> po_registry_transparency_pinned p \<and>
     po_registry_sev_tcb_pinned p \<and> po_registry_nested_ipv4_ready p"
  by (auto simp: validate_release_posture_def split: if_splits)

section \<open>What a loaded configuration guarantees\<close>

lemma validate_registry_feasibility_Inr:
  assumes "validate_registry_feasibility entropy r hops = Some (Inr ())"
  shows "\<exists>ns. select_path entropy2 r hops = Some (Some (select_hops hops ns)) \<and> trust_split r hops ns"
proof -
  have "select_path entropy r hops \<noteq> Some None"
    using assms by (auto simp: validate_registry_feasibility_def split: if_splits)
  then have "\<exists>ns. trust_split r hops ns" using select_path_cases [of entropy r hops] by blast
  then show ?thesis using select_path_cases [of entropy2 r hops] by blast
qed

lemma config_from_env_returns: "\<exists>r. config_from_env R sha256 env files entropy read_file from_json release = Some r"
proof (cases "load_config R sha256 env files entropy read_file from_json release")
  case (Inr x)
  then show ?thesis
    using select_path_cases [of entropy "cc_registry (fst x)" "cc_path_hops (fst x)"]
    by (cases x) (auto simp: config_from_env_def validate_registry_feasibility_def)
qed (simp add: config_from_env_def)

lemma config_from_env_Inr:
  assumes "config_from_env R sha256 env files entropy read_file from_json release = Some (Inr cfg)"
  obtains posture where "load_config R sha256 env files entropy read_file from_json release = Inr (cfg, posture)"
    and "validate_registry_feasibility entropy (cc_registry cfg) (cc_path_hops cfg) = Some (Inr ())"
    and "validate_release_posture posture = Inr ()"
  using assms by (auto simp: config_from_env_def split: sum.splits)

lemma load_grant_ttl_ok: "load_grant_ttl env = Inr d \<Longrightarrow> ttl_ok d"
  by (auto simp: load_grant_ttl_def ttl_ok_def MAX_GRANT_TTL_SECS_def split: if_splits)

lemma load_config_Inr:
  assumes "load_config R sha256 env files entropy read_file from_json release = Inr (cfg, posture)"
  shows "load_path_hops env = Inr (cc_path_hops cfg)" and "load_verifier R sha256 env = Inr (cc_verifier cfg)"
    and "load_grant_signer env files release = Inr (cc_grant_signer cfg, po_signer_from_file posture)"
    and "load_redemption_result_key env files entropy release = Inr (cc_redemption_result_key cfg, po_result_key_from_file posture)"
    and "load_grant_realm env (cc_grant_signer cfg) = Inr (cc_grant_realm cfg)"
    and "load_grant_ttl env = Inr (cc_grant_ttl cfg)"
    and "registry_from_env (\<not> release) env read_file from_json = Inr (cc_registry cfg)"
    and "po_release_build posture = release" and "po_path_hops posture = cc_path_hops cfg"
    and "po_has_verifier posture \<longleftrightarrow> cc_verifier cfg \<noteq> None" and "po_has_grant_signer posture \<longleftrightarrow> cc_grant_signer cfg \<noteq> None"
    and "po_has_grant_realm posture \<longleftrightarrow> cc_grant_realm cfg \<noteq> []"
    and "po_registry_tls_pinned posture = all_nodes_have_tls_spki (cc_registry cfg)"
    and "po_registry_transparency_pinned posture = all_nodes_have_transparency_key (cc_registry cfg)"
    and "po_registry_sev_tcb_pinned posture = all_sev_nodes_have_min_tcb (cc_registry cfg)"
    and "po_registry_nested_ipv4_ready posture = all_nodes_have_nested_ipv4_endpoints (cc_registry cfg)"
  using assms unfolding load_config_def by (auto split: if_splits)

text \<open>
  C38: a Coordinator built for release starts only in a state that enforces the protocol. When its
  configuration loads: paths have two to eight hops, tokens are verified with at least one key, grants
  are signed with a 32-byte seed that was read, in one of its two spellings, from a regular file only
  its owner can access, under a valid realm and for at most ten minutes, the ledger's 32-byte key was
  read from such a file too, every node is pinned and has a usable nested endpoint, and whatever the
  entropy source gives, path selection finds a trust-split path in the registry.
\<close>

theorem release_config_enforces:
  assumes "config_from_env R sha256 env files entropy read_file from_json True = Some (Inr cfg)"
  shows "2 \<le> cc_path_hops cfg \<and> cc_path_hops cfg \<le> 8 \<and> (\<exists>v. cc_verifier cfg = Some v \<and> tv_keys v \<noteq> []) \<and>
    (\<exists>p seed contents. env ''NW_GRANT_SIGNING_KEY_FILE'' = Some p \<and> cc_grant_signer cfg = Some (from_seed seed) \<and> length seed = 32 \<and>
       read_from files p True contents \<and> (contents = to_hex seed \<or> contents = to_hex seed @ [10])) \<and>
    identifier_ok (cc_grant_realm cfg) \<and> ttl_ok (cc_grant_ttl cfg) \<and>
    length (cc_redemption_result_key cfg) = 32 \<and>
    (\<exists>p. env ''NW_REDEMPTION_RESULT_KEY_FILE'' = Some p \<and> read_from files p True (cc_redemption_result_key cfg)) \<and>
    (\<forall>n\<in>set (nr_nodes (cc_registry cfg)). rn_tls_spki_sha256 n \<noteq> None \<and> rn_transparency_log_key n \<noteq> None \<and>
       (rn_tee n = WSevSnp \<longrightarrow> rn_min_tcb_sevsnp n \<noteq> None) \<and> nested_endpoint n) \<and>
    (\<forall>entropy2. \<exists>ns. select_path entropy2 (cc_registry cfg) (cc_path_hops cfg) = Some (Some (select_hops (cc_path_hops cfg) ns)) \<and>
       trust_split (cc_registry cfg) (cc_path_hops cfg) ns)"
proof -
  from config_from_env_Inr [OF assms] obtain po where
    po: "load_config R sha256 env files entropy read_file from_json True = Inr (cfg, po)"
      "validate_registry_feasibility entropy (cc_registry cfg) (cc_path_hops cfg) = Some (Inr ())"
      "validate_release_posture po = Inr ()" .
  note c = load_config_Inr [OF po(1)]
  have "po_release_build po" using c(8) by simp
  note p = validate_release_posture_Inr [OF po(3) this]
  have hops: "cc_path_hops cfg \<le> 8" using c(1) by (auto simp: load_path_hops_def split: if_splits)
  have "cc_verifier cfg \<noteq> None" using p c(10) by simp
  then obtain v where v: "cc_verifier cfg = Some v" "tv_keys v \<noteq> []" using c(2) load_verifier_Inr by fastforce
  have "cc_grant_signer cfg \<noteq> None" using p c(11) by simp
  then obtain k where k: "cc_grant_signer cfg = Some k" by blast
  have realm: "identifier_ok (cc_grant_realm cfg)"
    using c(5) p c(12) by (auto simp: load_grant_realm_def validate_identifier_def Let_def split: if_splits)
  have ttl: "ttl_ok (cc_grant_ttl cfg)"
    by (rule load_grant_ttl_ok [OF c(6)])
  have signer: "load_grant_signer env files True = Inr (Some k, True)" using c(3) p k by simp
  have rk: "load_redemption_result_key env files entropy True = Inr (cc_redemption_result_key cfg, True)" using c(4) p by simp
  have nodes: "\<forall>n\<in>set (nr_nodes (cc_registry cfg)). rn_tls_spki_sha256 n \<noteq> None \<and> rn_transparency_log_key n \<noteq> None \<and>
       (rn_tee n = WSevSnp \<longrightarrow> rn_min_tcb_sevsnp n \<noteq> None) \<and> nested_endpoint n"
    using p c(13-16)
    by (auto simp: all_nodes_have_tls_spki_def all_nodes_have_transparency_key_def all_sev_nodes_have_min_tcb_def
        all_nodes_have_nested_ipv4_endpoints_def list_all_iff)
  show ?thesis
    using p c(9) hops v k realm ttl nodes load_grant_signer_Inr [OF signer] load_redemption_result_key_Inr [OF rk]
      validate_registry_feasibility_Inr [OF po(2)] by simp
qed

section \<open>A release configuration\<close>

lemma read_number_port:
  assumes "rest = [] \<or> \<not> is_ascii_digit (hd rest)" and "n \<le> bound" and "length (dec_of_nat n) \<le> m"
  shows "read_number 10 bound m True (dec_of_nat n @ rest) = Some (n, rest)"
  using num_loop_digits [OF dec_digits, of 0 n bound 0 m rest] assms by (simp add: read_number_def)

lemma parse_socket_addr_v4: "parse_socket_addr (ipv4_to_string a @ 58 # u_to_string p) = Some (SockV4 a p)"
proof -
  have "unat p < 2 ^ LENGTH(16)" by (rule unsigned_less)
  then have "unat p \<le> 65535" by simp
  then have "read_port (58 # u_to_string p) = Some (p, [])"
    using read_number_port [of "[]" "unat p" 65535 "length (u_to_string p)"]
    by (simp add: read_port_def read_given_char_def u_to_string_def)
  then show ?thesis
    using read_ipv4_to_string [of "58 # u_to_string p" a]
    by (simp add: parse_socket_addr_def read_socket_addr_v4_def is_ascii_digit_def)
qed

definition release_entry :: "byte \<Rightarrow> ipv4addr \<Rightarrow> byte \<Rightarrow> string \<Rightarrow> registry_file_node" where
  "release_entry i a j role =
     \<lparr>rf_id = [i], rf_host = ipv4_to_string a, rf_port = 443, rf_tee = lit ''sev-snp'', rf_measurement = to_hex (replicate 48 0),
      rf_tls_spki_sha256 = Some (to_hex (replicate 32 0)), rf_operator = [i], rf_jurisdiction = [67, j], rf_wg_pub = None, rf_role = lit role,
      rf_min_tcb_sevsnp = Some \<lparr>tf_fmc = None, tf_bootloader = 1, tf_tee = 1, tf_snp = 1, tf_microcode = 1\<rparr>,
      rf_tdx_policy = None, rf_transparency_log_key = Some (to_hex (replicate 32 0))\<rparr>"

definition release_node :: "byte \<Rightarrow> ipv4addr \<Rightarrow> byte \<Rightarrow> path_role \<Rightarrow> registry_node" where
  "release_node i a j role =
     \<lparr>rn_id = [i], rn_host = ipv4_to_string a, rn_port = 443, rn_tee = WSevSnp, rn_measurement = to_hex (replicate 48 0),
      rn_tls_spki_sha256 = Some (to_hex (replicate 32 0)), rn_operator = [i], rn_jurisdiction = [67, j], rn_wg_pub = None, rn_role = role,
      rn_min_tcb_sevsnp = Some \<lparr>tf_fmc = None, tf_bootloader = 1, tf_tee = 1, tf_snp = 1, tf_microcode = 1\<rparr>,
      rn_tdx_policy = None, rn_transparency_log_key = Some (to_hex (replicate 32 0))\<rparr>"

lemma release_entry_validates:
  assumes "is_ascii_lowercase i" and "is_ascii_uppercase j" and "path_role_parse (lit role) = Some r"
  shows "validate_registry_node (release_entry i a j role) = Inr (release_node i a j r)"
proof -
  have "ipv4_to_string a \<noteq> []" by (cases a) simp
  moreover have "length (ipv4_to_string a) \<le> 253" using length_ipv4_to_string [of a] by simp
  ultimately have "validate_host (ipv4_to_string a) = Inr ()"
    unfolding validate_host_def parse_ip_to_string_V4 by (simp add: not_less del: ipv4_to_string.simps)
  moreover have "validate_identifier [i] = Inr ()"
    using assms(1) by (simp add: validate_identifier_def validate_named_identifier_def is_edge_def is_inner_def MAX_GRANT_IDENTIFIER_LEN_def)
  moreover have "validate_slug ''operator'' [i] 128 = Inr ()" using assms(1) by (simp add: validate_slug_def)
  moreover have "validate_jurisdiction [67, j] = Inr ()" using assms(2) by (simp add: validate_jurisdiction_def is_ascii_uppercase_def)
  ultimately show ?thesis
    using assms(3) to_hex_lower
    by (simp add: validate_registry_node_def release_entry_def release_node_def parse_tee_def validate_optional_hex_def
        node_policy_def validate_lower_hex_def)
qed

definition release_env :: environment where
  "release_env = map_of
     [(''NW_COORDINATOR_ADDR'', ipv4_to_string (Ipv4Addr 127 0 0 1) @ 58 # u_to_string (9090 :: u16)), (''NW_PATH_HOPS'', [50]),
      (''NW_TOKEN_PUBKEY'', [48, 49]), (''NW_GRANT_SIGNING_KEY_FILE'', [115]), (''NW_REDEMPTION_RESULT_KEY_FILE'', [114]),
      (''NW_GRANT_REALM'', [97]), (''NW_NODE_REGISTRY'', [110])]"

definition release_files :: key_files where
  "release_files = map_of
     [([115], \<lparr>kf_is_file = True, kf_len = 64, kf_mode = 384, kf_contents = Some (to_hex (replicate 32 7))\<rparr>),
      ([114], \<lparr>kf_is_file = True, kf_len = 32, kf_mode = 384, kf_contents = Some (replicate 32 9)\<rparr>)]"

definition release_nodes :: "registry_node list" where
  "release_nodes = [release_node 97 (Ipv4Addr 192 0 2 10) 72 RoleEntry, release_node 98 (Ipv4Addr 192 0 2 20) 90 RoleExit]"

definition release_json :: "bytes \<Rightarrow> registry_file_node list option" where
  "release_json contents =
     Some [release_entry 97 (Ipv4Addr 192 0 2 10) 72 ''entry'', release_entry 98 (Ipv4Addr 192 0 2 20) 90 ''exit'']"

lemma ipv4_to_string_inject: "ipv4_to_string a = ipv4_to_string b \<longleftrightarrow> a = b"
  by (metis option.inject parse_ipv4_to_string)

lemma release_registry:
  "registry_from_env False release_env (\<lambda>_. Some []) release_json = Inr \<lparr>nr_nodes = release_nodes, nr_dead = {}\<rparr>"
proof -
  have "validate_registry_node (release_entry 97 (Ipv4Addr 192 0 2 10) 72 ''entry'') = Inr (release_node 97 (Ipv4Addr 192 0 2 10) 72 RoleEntry)"
    "validate_registry_node (release_entry 98 (Ipv4Addr 192 0 2 20) 90 ''exit'') = Inr (release_node 98 (Ipv4Addr 192 0 2 20) 90 RoleExit)"
    by (rule release_entry_validates; simp add: is_ascii_lowercase_def is_ascii_uppercase_def path_role_parse_def lit_def)+
  then show ?thesis
    by (simp add: registry_from_env_def registry_from_file_def env_ok_def env_var_def release_env_def release_json_def release_nodes_def release_node_def
        ipv4_to_string_inject del: ipv4_to_string.simps)
qed

lemma release_trust_split: "trust_split \<lparr>nr_nodes = release_nodes, nr_dead = {}\<rparr> 2 release_nodes"
  by (auto simp: trust_split_def release_nodes_def release_node_def for_position_def less_2_cases_iff ipv4_to_string_inject
      simp del: ipv4_to_string.simps)

lemma release_nested: "list_all nested_endpoint release_nodes"
  by (simp add: release_nodes_def release_node_def nested_endpoint_def v4_unspecified_def v4_loopback_def v4_multicast_def
      v4_broadcast_def del: ipv4_to_string.simps)

lemma release_keys:
  "load_grant_signer release_env release_files True = Inr (Some (from_seed (replicate 32 7)), True)"
  "load_redemption_result_key release_env release_files entropy True = Inr (replicate 32 9, True)"
proof -
  have "decode_canonical_grant_seed (to_hex (replicate 32 7)) = Inr (replicate 32 7)"
    by (simp add: decode_canonical_grant_seed_Inr)
  then have "load_grant_signing_key_file release_files [115] True = Inr (from_seed (replicate 32 7))"
    by (simp add: load_grant_signing_key_file_def open_grant_signing_key_file_def release_files_def group_other_def
        MAX_GRANT_SEED_FILE_BYTES_def GRANT_SEED_HEX_LEN_def)
  then show "load_grant_signer release_env release_files True = Inr (Some (from_seed (replicate 32 7)), True)"
    by (simp add: load_grant_signer_def release_env_def env_ok_def env_var_def)
  show "load_redemption_result_key release_env release_files entropy True = Inr (replicate 32 9, True)"
    by (simp add: load_redemption_result_key_def load_redemption_result_key_file_def release_env_def release_files_def env_var_def
        group_other_def REDEMPTION_RESULT_KEY_BYTES_def)
qed

lemma release_scalars:
  "load_path_hops release_env = Inr 2"
  "load_grant_ttl release_env = Inr \<lparr>du_secs = 300, du_nanos = 0\<rparr>"
  "load_grant_realm release_env (Some k) = Inr [97]"
  "load_verifier demo_rsa sha256 release_env = Inr (Some \<lparr>tv_keys = [(key_epoch sha256 [1], [1])]\<rparr>)"
proof -
  show "load_path_hops release_env = Inr 2"
    by (simp add: load_path_hops_def release_env_def env_ok_def env_var_def parse_uint_def is_ascii_digit_def nat_of_dec_def)
  show "load_grant_ttl release_env = Inr \<lparr>du_secs = 300, du_nanos = 0\<rparr>"
    by (simp add: load_grant_ttl_def release_env_def env_ok_def env_var_def MAX_GRANT_TTL_SECS_def)
  show "load_grant_realm release_env (Some k) = Inr [97]"
    by (simp add: load_grant_realm_def release_env_def env_ok_def env_var_def validate_identifier_def validate_named_identifier_def
        is_edge_def is_inner_def is_ascii_lowercase_def MAX_GRANT_IDENTIFIER_LEN_def)
  show "load_verifier demo_rsa sha256 release_env = Inr (Some \<lparr>tv_keys = [(key_epoch sha256 [1], [1])]\<rparr>)"
    using trim_graphic [of "[48, 49]"]
    by (simp add: load_verifier_def release_env_def env_ok_def env_var_def graphic_def config_from_hex_def config_nib_def
        from_public_ders_def demo_rsa_def)
qed

lemma release_addr: "parse_socket_addr (case env_ok release_env ''NW_COORDINATOR_ADDR'' of Some a \<Rightarrow> a | None \<Rightarrow> lit ''0.0.0.0:9090'')
  = Some (SockV4 (Ipv4Addr 127 0 0 1) 9090)"
proof -
  have "utf8_valid (ipv4_to_string (Ipv4Addr 127 0 0 1) @ 58 # u_to_string (9090 :: u16))"
    using digits_utf8 [of "9090 :: u16" "[]"] by (simp add: digits_utf8)
  then show ?thesis
    using parse_socket_addr_v4 [of "Ipv4Addr 127 0 0 1" 9090]
    by (simp add: release_env_def env_ok_def env_var_def del: ipv4_to_string.simps)
qed

theorem release_config_enforces_witness:
  "\<exists>cfg. config_from_env demo_rsa (\<lambda>_. [0, 0, 0, 9]) release_env release_files (\<lambda>_. None) (\<lambda>_. Some []) release_json True = Some (Inr cfg) \<and>
     2 \<le> cc_path_hops cfg \<and> (\<exists>ns. trust_split (cc_registry cfg) (cc_path_hops cfg) ns)"
proof -
  let ?sha = "\<lambda>_ :: bytes. [0, 0, 0, 9 :: byte]"
  let ?load = "load_config demo_rsa ?sha release_env release_files (\<lambda>_. None) (\<lambda>_. Some []) release_json True"
  let ?r = "\<lparr>nr_nodes = release_nodes, nr_dead = {}\<rparr>"
  have "all_nodes_have_tls_spki ?r" "all_nodes_have_transparency_key ?r" "all_sev_nodes_have_min_tcb ?r"
    by (simp_all add: all_nodes_have_tls_spki_def all_nodes_have_transparency_key_def all_sev_nodes_have_min_tcb_def
        release_nodes_def release_node_def)
  note pins = this release_nested [folded all_nodes_have_nested_ipv4_endpoints_def [of ?r, simplified]]
  obtain cfg po where l: "?load = Inr (cfg, po)" "cc_registry cfg = ?r" "cc_path_hops cfg = 2" "validate_release_posture po = Inr ()"
    using release_addr release_registry release_keys release_scalars pins
    by (simp add: load_config_def validate_release_posture_def release_nodes_def)
  have "select_path (\<lambda>_. None) ?r 2 \<noteq> Some None" using select_path_cases [of "\<lambda>_. None" ?r 2] release_trust_split by auto
  then have "validate_registry_feasibility (\<lambda>_. None) ?r 2 = Some (Inr ())"
    using select_path_cases [of "\<lambda>_. None" ?r 2] by (auto simp: validate_registry_feasibility_def)
  with l have "config_from_env demo_rsa ?sha release_env release_files (\<lambda>_. None) (\<lambda>_. Some []) release_json True = Some (Inr cfg)"
    by (simp add: config_from_env_def)
  from this release_config_enforces [OF this] show ?thesis by blast
qed

end
