(* ===== verification/Nullifier.thy ===== *)
theory Nullifier
  imports Log_File Hex
begin

text \<open>
  \<open>nil-coordinator/src/nullifier.rs\<close>: spending a token exactly once, with a short-lived replayable
  result. The trait \<open>NullifierStore\<close> has a volatile, a file and a Postgres implementation; the record
  codec, the AEAD sealing of results and the three stores follow the source in its order. AES-256-GCM
  and the entropy source are parameters; the file store runs on the file-system model.
\<close>

section \<open>Parameters and constants\<close>

record aead =
  ae_encrypt :: "bytes \<Rightarrow> bytes \<Rightarrow> bytes \<Rightarrow> bytes \<Rightarrow> bytes option"
  ae_decrypt :: "bytes \<Rightarrow> bytes \<Rightarrow> bytes \<Rightarrow> bytes \<Rightarrow> bytes option"

definition RECORD_VERSION :: bytes where "RECORD_VERSION = lit ''NR2''"
definition AAD_DOMAIN :: bytes where "AAD_DOMAIN = lit ''nilvpn.redemption-result.v1''"
definition NF_NONCE_LEN :: nat where "NF_NONCE_LEN = 12"
definition TAG_LEN :: nat where "TAG_LEN = 16"
definition MAX_REPLAY_RESULT_BYTES :: nat where "MAX_REPLAY_RESULT_BYTES = 64 * 1024"
definition MAX_CIPHERTEXT_BYTES :: nat where
  "MAX_CIPHERTEXT_BYTES = NF_NONCE_LEN + MAX_REPLAY_RESULT_BYTES + TAG_LEN"
definition MAX_STORED_NULLIFIER_HEX :: nat where "MAX_STORED_NULLIFIER_HEX = 16 * 1024"
definition MAX_RECORD_LINE_BYTES :: nat where
  "MAX_RECORD_LINE_BYTES = 4 + 1 + 10 + 1 + MAX_STORED_NULLIFIER_HEX + 1 + 20 + 1 + MAX_CIPHERTEXT_BYTES * 2 + 1"
definition NF_LEGACY_EPOCH :: u32 where "NF_LEGACY_EPOCH = 0"

text \<open>
  What the code relies on of AES-256-GCM: encryption of a bounded message under a 32-byte key and a
  12-byte nonce succeeds, adds a 16-byte tag, and decrypts to the message under the same associated
  data.
\<close>

definition aead_ok :: "aead \<Rightarrow> bool" where
  "aead_ok A \<longleftrightarrow> (\<forall>key nonce aad msg. length key = 32 \<longrightarrow> length nonce = NF_NONCE_LEN \<longrightarrow>
     length msg \<le> MAX_REPLAY_RESULT_BYTES \<longrightarrow>
     (\<exists>ct. ae_encrypt A key nonce aad msg = Some ct \<and> length ct = length msg + TAG_LEN \<and>
           ae_decrypt A key nonce aad ct = Some msg))"

datatype commit_outcome = Granted (co_response: bytes) (co_newly_committed: bool) | AlreadySpent

text \<open>A call's result; the third case is the panic of \<open>expect\<close>.\<close>

datatype commit_result = CommitErr io_error | CommitOk commit_outcome | CommitPanic

section \<open>Sealing\<close>

definition replay_aad :: "u32 \<Rightarrow> bytes \<Rightarrow> u64 \<Rightarrow> bytes" where
  "replay_aad epoch key replay_until = AAD_DOMAIN @ to_be 4 epoch @ to_be 8 replay_until @ key"

definition bad_length :: "bytes \<Rightarrow> bool" where
  "bad_length plaintext \<longleftrightarrow> plaintext = [] \<or> length plaintext > MAX_REPLAY_RESULT_BYTES"

text \<open>\<open>entropy\<close> is the nonce that \<open>getrandom\<close> gives, or its failure.\<close>

definition seal :: "aead \<Rightarrow> bytes \<Rightarrow> u32 \<Rightarrow> bytes \<Rightarrow> u64 \<Rightarrow> bytes \<Rightarrow> bytes option \<Rightarrow> io_error + bytes" where
  "seal A ckey epoch key replay_until plaintext entropy =
     (if bad_length plaintext then
        Inl (IoError InvalidInput ''redemption replay result is empty or exceeds its fixed bound'')
      else
        bindE (ok_or (IoError OtherKind ''redemption replay nonce entropy unavailable'') entropy) (\<lambda>nonce.
        if length ckey \<noteq> 32 then Inl (IoError OtherKind ''invalid redemption replay key'')
        else
          bindE (ok_or (IoError OtherKind ''encrypt redemption replay result'')
                   (ae_encrypt A ckey nonce (replay_aad epoch key replay_until) plaintext)) (\<lambda>encrypted.
          Inr (nonce @ encrypted))))"

definition open_sealed :: "aead \<Rightarrow> bytes \<Rightarrow> u32 \<Rightarrow> bytes \<Rightarrow> u64 \<Rightarrow> bytes \<Rightarrow> io_error + bytes" where
  "open_sealed A ckey epoch key replay_until stored =
     (if \<not> (NF_NONCE_LEN + TAG_LEN \<le> length stored \<and> length stored \<le> MAX_CIPHERTEXT_BYTES) then
        Inl (IoError InvalidData ''redemption replay ciphertext has an invalid length'')
      else if length ckey \<noteq> 32 then Inl (IoError OtherKind ''invalid redemption replay key'')
      else
        let nonce = take NF_NONCE_LEN stored; ciphertext = drop NF_NONCE_LEN stored in
        bindE (ok_or (IoError InvalidData ''redemption replay ciphertext authentication failed'')
                 (ae_decrypt A ckey nonce (replay_aad epoch key replay_until) ciphertext)) (\<lambda>plaintext.
        if bad_length plaintext then
          Inl (IoError InvalidData ''redemption replay plaintext has an invalid length'')
        else Inr plaintext))"

section \<open>Records\<close>

record stored_record =
  sr_epoch :: u32
  sr_replay_until :: "u64 option"
  sr_ciphertext :: "bytes option"

type_synonym records = "(bytes \<times> stored_record) list"

definition spent_only :: "u32 \<Rightarrow> stored_record" where
  "spent_only epoch = \<lparr>sr_epoch = epoch, sr_replay_until = None, sr_ciphertext = None\<rparr>"

definition live_ciphertext :: "u64 \<Rightarrow> stored_record \<Rightarrow> (u64 \<times> bytes) option" where
  "live_ciphertext now r =
     (case (sr_replay_until r, sr_ciphertext r) of
        (Some until, Some ciphertext) \<Rightarrow> if now < until then Some (until, ciphertext) else None
      | _ \<Rightarrow> None)"

definition validate_commit :: "bytes \<Rightarrow> u64 \<Rightarrow> bytes \<Rightarrow> u64 \<Rightarrow> io_error + unit" where
  "validate_commit key replay_until proposed_response now =
     (if length key \<noteq> 64 \<or> \<not> list_all lower_hex_digit key then
        Inl (IoError InvalidInput ''nullifier must be exactly 32 bytes of canonical lowercase hex'')
      else if replay_until \<le> now then
        Inl (IoError InvalidInput ''redemption replay result is already expired'')
      else if bad_length proposed_response then
        Inl (IoError InvalidInput ''redemption replay result is empty or exceeds its fixed bound'')
      else Inr ())"

definition live_outcome ::
  "aead \<Rightarrow> bytes \<Rightarrow> bytes \<Rightarrow> stored_record \<Rightarrow> u64 \<Rightarrow> bool \<Rightarrow> commit_outcome option" where
  "live_outcome A ckey key r now newly_committed =
     (case live_ciphertext now r of
        None \<Rightarrow> None
      | Some (until, ciphertext) \<Rightarrow>
          (case open_sealed A ckey (sr_epoch r) key until ciphertext of
             Inr response \<Rightarrow> Some (Granted response newly_committed)
           | Inl _ \<Rightarrow> Some AlreadySpent))"

text \<open>\<open>prune\<close>: an expired record keeps its spent marker and loses its result.\<close>

definition prune_record :: "u64 \<Rightarrow> stored_record \<Rightarrow> nat \<times> stored_record" where
  "prune_record now r =
     (case sr_replay_until r of
        Some until \<Rightarrow>
          if now \<ge> until then
            (if sr_ciphertext r \<noteq> None then 1 else 0, r\<lparr>sr_ciphertext := None, sr_replay_until := None\<rparr>)
          else (0, r)
      | None \<Rightarrow> (0, r))"

definition prune_records :: "u64 \<Rightarrow> records \<Rightarrow> nat \<times> records" where
  "prune_records now rs =
     (sum_list (map (\<lambda>(k, r). fst (prune_record now r)) rs), map (\<lambda>(k, r). (k, snd (prune_record now r))) rs)"

section \<open>The volatile store\<close>

record memory_store =
  ms_records :: records
  ms_key :: bytes
  ms_partitioned :: bool

definition with_partitioning :: "bytes \<Rightarrow> bool \<Rightarrow> memory_store" where
  "with_partitioning key partitioned = \<lparr>ms_records = [], ms_key = key, ms_partitioned = partitioned\<rparr>"

definition memory_new :: "bytes \<Rightarrow> memory_store" where
  "memory_new key = with_partitioning key False"

text \<open>\<open>live_outcome(...).expect(...)\<close>.\<close>

definition expect_live :: "commit_outcome option \<Rightarrow> commit_result" where
  "expect_live o1 = (case o1 of Some out \<Rightarrow> CommitOk out | None \<Rightarrow> CommitPanic)"

definition memory_commit ::
  "aead \<Rightarrow> u32 \<Rightarrow> bytes \<Rightarrow> u64 \<Rightarrow> bytes \<Rightarrow> u64 \<Rightarrow> bytes option \<Rightarrow> memory_store \<Rightarrow> commit_result \<times> memory_store" where
  "memory_commit A epoch key replay_until proposed_response now entropy m =
     (case validate_commit key replay_until proposed_response now of
        Inl e \<Rightarrow> (CommitErr e, m)
      | Inr _ \<Rightarrow>
          (case map_of (ms_records m) key of
             Some existing \<Rightarrow>
               (case live_outcome A (ms_key m) key existing now False of
                  Some outcome \<Rightarrow> (CommitOk outcome, m)
                | None \<Rightarrow>
                    (CommitOk AlreadySpent,
                     m\<lparr>ms_records := AList.update key (existing\<lparr>sr_replay_until := None, sr_ciphertext := None\<rparr>) (ms_records m)\<rparr>))
           | None \<Rightarrow>
               (case seal A (ms_key m) epoch key replay_until proposed_response entropy of
                  Inl e \<Rightarrow> (CommitErr e, m)
                | Inr ciphertext \<Rightarrow>
                    (let r = \<lparr>sr_epoch = epoch, sr_replay_until = Some replay_until, sr_ciphertext = Some ciphertext\<rparr> in
                     (expect_live (live_outcome A (ms_key m) key r now True),
                      m\<lparr>ms_records := AList.update key r (ms_records m)\<rparr>)))))"

definition memory_prune :: "u64 \<Rightarrow> memory_store \<Rightarrow> nat \<times> memory_store" where
  "memory_prune now m = (let (removed, rs) = prune_records now (ms_records m) in (removed, m\<lparr>ms_records := rs\<rparr>))"

definition retain_epochs :: "u32 set \<Rightarrow> records \<Rightarrow> records" where
  "retain_epochs retained rs = filter (\<lambda>(k, r). sr_epoch r \<in> retained) rs"

definition memory_drop_epochs :: "u32 set \<Rightarrow> memory_store \<Rightarrow> nat \<times> memory_store" where
  "memory_drop_epochs retained m =
     (if \<not> ms_partitioned m \<or> retained = {} then (0, m)
      else let rs = retain_epochs retained (ms_records m) in
        (length (ms_records m) - length rs, m\<lparr>ms_records := rs\<rparr>))"

definition memory_supports_epoch_gc :: "memory_store \<Rightarrow> bool" where
  "memory_supports_epoch_gc m = ms_partitioned m"

definition memory_approx_len :: "memory_store \<Rightarrow> nat option" where
  "memory_approx_len m = Some (length (ms_records m))"

section \<open>The record codec\<close>

datatype file_mode = Flat | EpochMode

definition validate_stored_key :: "bytes \<Rightarrow> io_error + unit" where
  "validate_stored_key key =
     (if key \<noteq> [] \<and> length key \<le> MAX_STORED_NULLIFIER_HEX \<and> length key mod 2 = 0 \<and> list_all lower_hex_digit key
      then Inr () else Inl (IoError InvalidData ''stored nullifier is not canonical lowercase hex''))"

definition encode_record :: "bytes \<Rightarrow> stored_record \<Rightarrow> io_error + bytes" where
  "encode_record key r =
     bindE (validate_stored_key key) (\<lambda>_.
     bindE (case (sr_replay_until r, sr_ciphertext r) of
              (Some until, Some ciphertext) \<Rightarrow> Inr (u_to_string until, to_hex ciphertext)
            | (None, None) \<Rightarrow> Inr (lit ''-'', lit ''-'')
            | _ \<Rightarrow> Inl (IoError InvalidData ''inconsistent redemption record'')) (\<lambda>(until, ciphertext).
     let line = RECORD_VERSION @ [32] @ u_to_string (sr_epoch r) @ [32] @ key @ [32] @ until @ [32] @ ciphertext @ [newline] in
     if length line > MAX_RECORD_LINE_BYTES then
       Inl (IoError InvalidData ''redemption record exceeds its fixed bound'')
     else Inr line))"

definition parse_versioned :: "bytes list \<Rightarrow> io_error + (bytes \<times> stored_record)" where
  "parse_versioned fds =
     (if length fds \<noteq> 5 then Inl (IoError InvalidData ''malformed redemption record'')
      else
        bindE (ok_or (IoError InvalidData ''invalid redemption epoch'') (parse_u32 (fds ! 1))) (\<lambda>epoch.
        let key = fds ! 2 in
        bindE (validate_stored_key key) (\<lambda>_.
        if fds ! 3 = lit ''-'' \<and> fds ! 4 = lit ''-'' then Inr (key, spent_only epoch)
        else
          bindE (ok_or (IoError InvalidData ''invalid replay expiry'') (parse_u64 (fds ! 3))) (\<lambda>replay_until.
          if length (fds ! 4) > MAX_CIPHERTEXT_BYTES * 2 \<or> length (fds ! 4) mod 2 \<noteq> 0 \<or>
             \<not> list_all lower_hex_digit (fds ! 4)
          then Inl (IoError InvalidData ''invalid replay ciphertext encoding'')
          else
            bindE (ok_or (IoError InvalidData ''invalid replay ciphertext'') (from_hex (fds ! 4))) (\<lambda>ciphertext.
            Inr (key, \<lparr>sr_epoch = epoch, sr_replay_until = Some replay_until, sr_ciphertext = Some ciphertext\<rparr>))))))"

definition parse_record :: "bytes \<Rightarrow> file_mode \<Rightarrow> io_error + (bytes \<times> stored_record)" where
  "parse_record line mode =
     (let fds = split_whitespace line in
      if fds \<noteq> [] \<and> hd fds = RECORD_VERSION then parse_versioned fds
      else case fds of
        [key] \<Rightarrow> bindE (validate_stored_key key) (\<lambda>_. Inr (key, spent_only NF_LEGACY_EPOCH))
      | [epoch, key] \<Rightarrow>
          bindE (ok_or (IoError InvalidData ''invalid legacy redemption epoch'') (parse_u32 epoch)) (\<lambda>e.
          bindE (validate_stored_key key) (\<lambda>_. Inr (key, spent_only e)))
      | _ \<Rightarrow> Inl (IoError InvalidData
               (case mode of Flat \<Rightarrow> ''malformed flat nullifier record'' | EpochMode \<Rightarrow> ''malformed epoch nullifier record'')))"

text \<open>One bounded \<open>read_until\<close>: up to and including the newline.\<close>

definition read_line :: "bytes \<Rightarrow> bytes" where
  "read_line bs = (case split_once newline bs of None \<Rightarrow> bs | Some (l, _) \<Rightarrow> l @ [newline])"

lemma read_line_ne: "bs \<noteq> [] \<Longrightarrow> read_line bs \<noteq> []"
  by (simp add: read_line_def split: option.split)

definition or_insert :: "'k \<Rightarrow> 'v \<Rightarrow> ('k \<times> 'v) list \<Rightarrow> ('k \<times> 'v) list" where
  "or_insert k v al = (if map_of al k = None then al @ [(k, v)] else al)"

definition strip_cr :: "bytes \<Rightarrow> bytes" where
  "strip_cr l = (if l \<noteq> [] \<and> last l = 13 then butlast l else l)"

text \<open>The loop of \<open>load_records\<close> on the bytes not read yet.\<close>

function load_loop :: "file_mode \<Rightarrow> bytes \<Rightarrow> records \<Rightarrow> io_error + records" where
  "load_loop mode rest rs =
     (if rest = [] then Inr rs
      else
        let line = read_line (take (MAX_RECORD_LINE_BYTES + 1) rest) in
        if length line > MAX_RECORD_LINE_BYTES then
          Inl (IoError InvalidData ''redemption record line exceeds its fixed bound'')
        else if last line \<noteq> newline then Inr rs
        else
          let text = strip_cr (butlast line) in
          if text = [] then load_loop mode (drop (length line) rest) rs
          else if \<not> utf8_valid text then Inl (IoError InvalidData ''redemption record is not UTF-8'')
          else case parse_record text mode of
            Inl e \<Rightarrow> Inl e
          | Inr (key, r) \<Rightarrow> load_loop mode (drop (length line) rest) (or_insert key r rs))"
  by pat_completeness auto
termination
  by (relation "measure (\<lambda>(_, rest, _). length rest)")
     (auto simp: read_line_ne MAX_RECORD_LINE_BYTES_def)

declare load_loop.simps [simp del]

section \<open>The file store\<close>

record file_store =
  fl_records :: records
  fl_file :: "handle option"
  fl_path :: path
  fl_mode :: file_mode
  fl_key :: bytes

definition nf_open_private :: "path \<Rightarrow> bool \<Rightarrow> handle io" where
  "nf_open_private p app =
     io_bind (fs_open \<lparr>oo_truncate = \<not> app, oo_create = True, oo_create_new = False\<rparr> p) (\<lambda>f.
     io_bind fs_check (\<lambda>_. io_return f))"

definition sync_parent_directory :: "path \<Rightarrow> unit io" where
  "sync_parent_directory p = fs_sync_dir (p_dir p)"

definition sidecar_path :: "path \<Rightarrow> bytes \<Rightarrow> path" where
  "sidecar_path p suffix = Path (p_dir p) (p_name p @ suffix)"

definition acquire_process_lock :: "path \<Rightarrow> handle io" where
  "acquire_process_lock p =
     io_bind (nf_open_private (sidecar_path p (lit ''.redemption.lock'')) True) (\<lambda>f.
     io_bind (io_catch fs_check (\<lambda>_. io_throw (IoError WouldBlock ''redemption ledger is already open by another process''))) (\<lambda>_.
     io_return f))"

text \<open>The scan for the last newline, from a position back, with the number of bytes scanned.\<close>

fun tail_scan :: "handle \<Rightarrow> nat \<Rightarrow> nat \<Rightarrow> nat io" where
  "tail_scan f 0 scanned = io_return 0"
| "tail_scan f (Suc position) scanned =
     (if scanned \<ge> MAX_RECORD_LINE_BYTES then
        io_throw (IoError InvalidData ''unterminated redemption record exceeds its fixed recovery bound'')
      else
        io_bind fs_check (\<lambda>_. io_bind (fs_read_at f position) (\<lambda>b.
        if b = newline then io_return (position + 1) else tail_scan f position (scanned + 1))))"

definition open_if_found :: "path \<Rightarrow> handle option io" where
  "open_if_found p =
     io_catch (io_bind (fs_open \<lparr>oo_truncate = False, oo_create = False, oo_create_new = False\<rparr> p) (\<lambda>f. io_return (Some f)))
       (\<lambda>e. if err_kind e = NotFound then io_return None else io_throw e)"

definition truncate_unterminated_tail :: "path \<Rightarrow> unit io" where
  "truncate_unterminated_tail p =
     io_bind (open_if_found p) (\<lambda>found.
     case found of None \<Rightarrow> io_return ()
     | Some f \<Rightarrow>
         io_bind (fs_len f) (\<lambda>len.
         if len = 0 then io_return ()
         else
           io_bind fs_check (\<lambda>_. io_bind (fs_read_at f (len - 1)) (\<lambda>b.
           if b = newline then io_return ()
           else
             io_bind (tail_scan f (len - 1) 1) (\<lambda>truncate_at.
             io_bind (fs_set_len f truncate_at) (\<lambda>_. fs_sync_all f))))))"

definition load_records :: "path \<Rightarrow> file_mode \<Rightarrow> records io" where
  "load_records p mode =
     io_bind (open_if_found p) (\<lambda>found.
     case found of None \<Rightarrow> io_return []
     | Some f \<Rightarrow> io_bind (fs_read f) (\<lambda>contents. io_lift (load_loop mode contents [])))"

definition append_and_sync :: "handle option \<Rightarrow> bytes \<Rightarrow> fs \<Rightarrow> (io_error + unit) \<times> handle option \<times> fs" where
  "append_and_sync slot line s =
     (case slot of
        None \<Rightarrow> (Inl (IoError OtherKind ''redemption file store has no writable append handle''), None, s)
      | Some f \<Rightarrow>
          (case fs_len f s of
             (Inl e, s1) \<Rightarrow> (Inl e, Some f, s1)
           | (Inr committed_len, s1) \<Rightarrow>
               (case io_bind (fs_write_all f line) (\<lambda>_. io_bind (fs_flush f) (\<lambda>_. fs_sync_all f)) s1 of
                  (Inr _, s2) \<Rightarrow> (Inr (), Some f, s2)
                | (Inl append_error, s2) \<Rightarrow>
                    (case io_bind (fs_set_len f committed_len) (\<lambda>_. fs_sync_all f) s2 of
                       (Inl _, s3) \<Rightarrow> (Inl (IoError OtherKind ''redemption append failed; rollback failed''), None, s3)
                     | (Inr _, s3) \<Rightarrow> (Inl append_error, Some f, s3)))))"

definition rewrite_tmp :: "path \<Rightarrow> path" where
  "rewrite_tmp p = sidecar_path p (lit ''.redemption-rewrite.tmp'')"

text \<open>Writing the records in the order of their keys; an encoding error stops it.\<close>

definition write_record :: "handle \<Rightarrow> bytes \<times> stored_record \<Rightarrow> unit io" where
  "write_record f kr = io_bind (io_lift (encode_record (fst kr) (snd kr))) (\<lambda>line. fs_write_all f line)"

definition write_image :: "path \<Rightarrow> records \<Rightarrow> unit io" where
  "write_image p rs =
     io_bind (nf_open_private (rewrite_tmp p) False) (\<lambda>f.
     io_bind (io_each (write_record f) (sort_key fst rs)) (\<lambda>_.
     io_bind (fs_flush f) (\<lambda>_.
     io_bind (fs_sync_all f) (\<lambda>_.
     fs_rename (p_dir p) (p_name (rewrite_tmp p)) (p_name p)))))"

definition rewrite_locked :: "records \<Rightarrow> file_store \<Rightarrow> fs \<Rightarrow> (io_error + unit) \<times> file_store \<times> fs" where
  "rewrite_locked rs st s =
     (case write_image (fl_path st) rs s of
        (Inl e, s1) \<Rightarrow> (Inl e, st, snd (fs_remove_file (rewrite_tmp (fl_path st)) s1))
      | (Inr _, s1) \<Rightarrow>
          (let st1 = st\<lparr>fl_file := None, fl_records := rs\<rparr> in
           case nf_open_private (fl_path st) True s1 of
             (Inl e, s2) \<Rightarrow> (Inl e, st1, s2)
           | (Inr f, s2) \<Rightarrow>
               (case sync_parent_directory (fl_path st) s2 of
                  (r, s3) \<Rightarrow> (r, st1\<lparr>fl_file := Some f\<rparr>, s3))))"

definition prune_expired_sync :: "u64 \<Rightarrow> file_store \<Rightarrow> fs \<Rightarrow> (io_error + nat) \<times> file_store \<times> fs" where
  "prune_expired_sync now st s =
     (let (removed, rewritten) = prune_records now (fl_records st) in
      if removed > 0 then
        (case rewrite_locked rewritten st s of
           (Inl e, st1, s1) \<Rightarrow> (Inl e, st1, s1)
         | (Inr _, st1, s1) \<Rightarrow> (Inr removed, st1, s1))
      else (Inr removed, st, s))"

definition file_commit ::
  "aead \<Rightarrow> u32 \<Rightarrow> bytes \<Rightarrow> u64 \<Rightarrow> bytes \<Rightarrow> u64 \<Rightarrow> bytes option \<Rightarrow> file_store \<Rightarrow> fs \<Rightarrow> commit_result \<times> file_store \<times> fs" where
  "file_commit A epoch key replay_until proposed_response now entropy st s =
     (case validate_commit key replay_until proposed_response now of
        Inl e \<Rightarrow> (CommitErr e, st, s)
      | Inr _ \<Rightarrow>
          (case map_of (fl_records st) key of
             Some existing \<Rightarrow>
               (case live_outcome A (fl_key st) key existing now False of
                  Some outcome \<Rightarrow> (CommitOk outcome, st, s)
                | None \<Rightarrow>
                    if sr_ciphertext existing \<noteq> None then
                      (case rewrite_locked (AList.update key (existing\<lparr>sr_replay_until := None, sr_ciphertext := None\<rparr>) (fl_records st)) st s of
                         (Inl e, st1, s1) \<Rightarrow> (CommitErr e, st1, s1)
                       | (Inr _, st1, s1) \<Rightarrow> (CommitOk AlreadySpent, st1, s1))
                    else (CommitOk AlreadySpent, st, s))
           | None \<Rightarrow>
               (case seal A (fl_key st) epoch key replay_until proposed_response entropy of
                  Inl e \<Rightarrow> (CommitErr e, st, s)
                | Inr ciphertext \<Rightarrow>
                    (let r = \<lparr>sr_epoch = epoch, sr_replay_until = Some replay_until, sr_ciphertext = Some ciphertext\<rparr> in
                     case encode_record key r of
                       Inl e \<Rightarrow> (CommitErr e, st, s)
                     | Inr line \<Rightarrow>
                         (case append_and_sync (fl_file st) line s of
                            (Inl e, slot, s1) \<Rightarrow> (CommitErr e, st\<lparr>fl_file := slot\<rparr>, s1)
                          | (Inr _, slot, s1) \<Rightarrow>
                              (expect_live (live_outcome A (fl_key st) key r now True),
                               st\<lparr>fl_file := slot, fl_records := AList.update key r (fl_records st)\<rparr>, s1))))))"

definition file_drop_epochs :: "u32 set \<Rightarrow> file_store \<Rightarrow> fs \<Rightarrow> (io_error + nat) \<times> file_store \<times> fs" where
  "file_drop_epochs retained st s =
     (if fl_mode st \<noteq> EpochMode \<or> retained = {} then (Inr 0, st, s)
      else
        let rewritten = retain_epochs retained (fl_records st);
            removed = length (fl_records st) - length rewritten
        in if removed > 0 then
             (case rewrite_locked rewritten st s of
                (Inl e, st1, s1) \<Rightarrow> (Inl e, st1, s1)
              | (Inr _, st1, s1) \<Rightarrow> (Inr removed, st1, s1))
           else (Inr removed, st, s))"

text \<open>Folding the legacy records in: the map, and whether it grew.\<close>

definition fold_legacy :: "records \<Rightarrow> records \<Rightarrow> records \<times> bool" where
  "fold_legacy rs legacy =
     foldl (\<lambda>(rs, folded) (k, r). if map_of rs k = None then (rs @ [(k, r)], True) else (rs, folded)) (rs, False) legacy"

definition legacy_present :: "path \<Rightarrow> path option \<Rightarrow> bool io" where
  "legacy_present p legacy_path =
     (case legacy_path of None \<Rightarrow> io_return False
      | Some lp \<Rightarrow> if lp \<noteq> p then fs_exists lp else io_return False)"

definition load_with_legacy :: "path \<Rightarrow> path option \<Rightarrow> file_mode \<Rightarrow> (records \<times> bool) io" where
  "load_with_legacy p legacy_path mode =
     io_bind (load_records p mode) (\<lambda>rs.
     if mode = EpochMode then
       io_bind (legacy_present p legacy_path) (\<lambda>there.
       if there then io_bind (load_records (the legacy_path) Flat) (\<lambda>lrs. io_return (fold_legacy rs lrs))
       else io_return (rs, False))
     else io_return (rs, False))"

definition file_open ::
  "path \<Rightarrow> path option \<Rightarrow> file_mode \<Rightarrow> bytes \<Rightarrow> u64 \<Rightarrow> file_store io" where
  "file_open p legacy_path mode key now =
     io_bind (if p_dir p \<noteq> [] then fs_check else io_return ()) (\<lambda>_.
     io_bind (acquire_process_lock p) (\<lambda>_.
     io_bind (if mode = EpochMode then
                io_bind (legacy_present p legacy_path) (\<lambda>there.
                if there then io_bind (acquire_process_lock (the legacy_path)) (\<lambda>_. io_return ()) else io_return ())
              else io_return ()) (\<lambda>_.
     io_bind (truncate_unterminated_tail p) (\<lambda>_.
     io_bind (load_with_legacy p legacy_path mode) (\<lambda>(rs, folded_legacy).
     io_bind (nf_open_private p True) (\<lambda>f.
     io_bind (sync_parent_directory p) (\<lambda>_.
     \<lambda>s. case prune_expired_sync now \<lparr>fl_records = rs, fl_file = Some f, fl_path = p, fl_mode = mode, fl_key = key\<rparr> s of
         (Inl e, st1, s1) \<Rightarrow> (Inl e, s1)
       | (Inr expired, st1, s1) \<Rightarrow>
           io_bind (\<lambda>s. if folded_legacy \<and> expired = 0 then
                          (case rewrite_locked (fl_records st1) st1 s of
                             (Inl e, st2, s2) \<Rightarrow> (Inl e, s2) | (Inr _, st2, s2) \<Rightarrow> (Inr st2, s2))
                        else (Inr st1, s)) (\<lambda>st2.
           io_bind (if mode = EpochMode then
                      io_bind (legacy_present p legacy_path) (\<lambda>there.
                      if there then
                        (case legacy_path of None \<Rightarrow> io_return ()
                         | Some lp \<Rightarrow> fs_rename (p_dir lp) (p_name lp) (p_name lp @ lit ''.migrated''))
                      else io_return ())
                    else io_return ()) (\<lambda>_.
           io_return st2)) s1)))))))"

definition open_flat :: "path \<Rightarrow> bytes \<Rightarrow> u64 \<Rightarrow> file_store io" where
  "open_flat p key now = file_open p None Flat key now"

definition open_epoch :: "path \<Rightarrow> path option \<Rightarrow> bytes \<Rightarrow> u64 \<Rightarrow> file_store io" where
  "open_epoch p legacy_path key now = file_open p legacy_path EpochMode key now"

definition file_supports_epoch_gc :: "file_store \<Rightarrow> bool" where
  "file_supports_epoch_gc st = (fl_mode st = EpochMode)"

definition file_approx_len :: "file_store \<Rightarrow> nat option" where
  "file_approx_len st = Some (length (fl_records st))"

definition should_warn :: "nat \<Rightarrow> nat \<Rightarrow> bool" where
  "should_warn n threshold = (threshold \<noteq> 0 \<and> n = threshold)"

section \<open>The Postgres store\<close>

text \<open>
  The table \<open>nullifiers\<close> by its primary key, and the three statements on it; \<open>BIGINT\<close> columns are
  integers. A comparison with \<open>NULL\<close> is not true. Calls to the database succeed, fail without effect,
  or lose the answer of a statement that ran.
\<close>

record pg_row =
  pr_epoch :: int
  pr_replay_until :: "int option"
  pr_replay_blob :: "bytes option"

type_synonym pg_table = "(bytes \<times> pg_row) list"

datatype db_fault = DbOk | DbFailed | DbAnswerLost

definition commit_sql :: "bytes \<Rightarrow> int \<Rightarrow> int \<Rightarrow> bytes \<Rightarrow> int \<Rightarrow> pg_table \<Rightarrow> pg_row \<times> pg_table" where
  "commit_sql msg epoch replay_until blob now t =
     (let row = (case map_of t msg of
          None \<Rightarrow> \<lparr>pr_epoch = epoch, pr_replay_until = Some replay_until, pr_replay_blob = Some blob\<rparr>
        | Some old \<Rightarrow>
            (if (case pr_replay_until old of None \<Rightarrow> False | Some u \<Rightarrow> u > now) then old
             else old\<lparr>pr_replay_until := None, pr_replay_blob := None\<rparr>))
      in (row, AList.update msg row t))"

definition prune_row :: "int \<Rightarrow> pg_row \<Rightarrow> nat \<times> pg_row" where
  "prune_row now row =
     (if pr_replay_blob row \<noteq> None \<and> (case pr_replay_until row of None \<Rightarrow> False | Some u \<Rightarrow> u \<le> now)
      then (1, row\<lparr>pr_replay_until := None, pr_replay_blob := None\<rparr>) else (0, row))"

definition prune_sql :: "int \<Rightarrow> pg_table \<Rightarrow> nat \<times> pg_table" where
  "prune_sql now t =
     (sum_list (map (\<lambda>(k, row). fst (prune_row now row)) t), map (\<lambda>(k, row). (k, snd (prune_row now row))) t)"

definition drop_sql :: "int set \<Rightarrow> pg_table \<Rightarrow> nat \<times> pg_table" where
  "drop_sql epochs t =
     (length (filter (\<lambda>(k, row). pr_epoch row \<notin> epochs) t), filter (\<lambda>(k, row). pr_epoch row \<in> epochs) t)"

definition i64_try_from :: "u64 \<Rightarrow> int option" where
  "i64_try_from w = (if uint w < 2 ^ 63 then Some (uint w) else None)"

definition u32_try_from :: "int \<Rightarrow> u32 option" where
  "u32_try_from i = (if 0 \<le> i \<and> i < 2 ^ 32 then Some (word_of_int i) else None)"

definition u64_try_from :: "int \<Rightarrow> u64 option" where
  "u64_try_from i = (if 0 \<le> i then Some (word_of_int i) else None)"

record pg_store =
  pg_rows :: pg_table
  pg_key :: bytes

definition db_call :: "string \<Rightarrow> db_fault \<Rightarrow> (pg_table \<Rightarrow> 'a \<times> pg_table) \<Rightarrow> pg_store \<Rightarrow> (io_error + 'a) \<times> pg_store" where
  "db_call what fault f st =
     (case fault of
        DbOk \<Rightarrow> (let (x, t) = f (pg_rows st) in (Inr x, st\<lparr>pg_rows := t\<rparr>))
      | DbFailed \<Rightarrow> (Inl (IoError OtherKind what), st)
      | DbAnswerLost \<Rightarrow> (Inl (IoError OtherKind what), st\<lparr>pg_rows := snd (f (pg_rows st))\<rparr>))"

text \<open>What the returned row means for the caller.\<close>

definition pg_outcome :: "aead \<Rightarrow> bytes \<Rightarrow> bytes \<Rightarrow> u64 \<Rightarrow> bytes \<Rightarrow> pg_row \<Rightarrow> io_error + commit_outcome" where
  "pg_outcome A ckey key now ciphertext row =
     (case (pr_replay_until row, pr_replay_blob row) of
        (Some stored_until, Some stored_ciphertext) \<Rightarrow>
          bindE (ok_or (IoError InvalidData ''stored redemption epoch is invalid'') (u32_try_from (pr_epoch row))) (\<lambda>stored_epoch.
          bindE (ok_or (IoError InvalidData ''stored replay expiry is invalid'') (u64_try_from stored_until)) (\<lambda>until.
          if now \<ge> until then Inr AlreadySpent
          else case open_sealed A ckey stored_epoch key until stored_ciphertext of
            Inr response \<Rightarrow> Inr (Granted response (stored_ciphertext = ciphertext))
          | Inl _ \<Rightarrow> Inr AlreadySpent))
      | _ \<Rightarrow> Inr AlreadySpent)"

definition pg_commit ::
  "aead \<Rightarrow> u32 \<Rightarrow> bytes \<Rightarrow> u64 \<Rightarrow> bytes \<Rightarrow> u64 \<Rightarrow> bytes option \<Rightarrow> db_fault \<Rightarrow> pg_store \<Rightarrow> (io_error + commit_outcome) \<times> pg_store" where
  "pg_commit A epoch key replay_until proposed_response now entropy fault st =
     (case bindE (validate_commit key replay_until proposed_response now) (\<lambda>_.
           bindE (seal A (pg_key st) epoch key replay_until proposed_response entropy) (\<lambda>ciphertext.
           bindE (ok_or (IoError InvalidInput ''replay expiry exceeds Postgres BIGINT'') (i64_try_from replay_until)) (\<lambda>replay_i64.
           bindE (ok_or (IoError InvalidInput ''current time exceeds Postgres BIGINT'') (i64_try_from now)) (\<lambda>now_i64.
           Inr (ciphertext, replay_i64, now_i64))))) of
        Inl e \<Rightarrow> (Inl e, st)
      | Inr (ciphertext, replay_i64, now_i64) \<Rightarrow>
          (case db_call ''postgres redemption commit'' fault (commit_sql key (uint epoch) replay_i64 ciphertext now_i64) st of
             (Inl e, st1) \<Rightarrow> (Inl e, st1)
           | (Inr row, st1) \<Rightarrow> (pg_outcome A (pg_key st) key now ciphertext row, st1)))"

definition pg_prune :: "u64 \<Rightarrow> db_fault \<Rightarrow> pg_store \<Rightarrow> (io_error + nat) \<times> pg_store" where
  "pg_prune now fault st =
     (case i64_try_from now of
        None \<Rightarrow> (Inl (IoError InvalidInput ''current time exceeds Postgres BIGINT''), st)
      | Some now_i64 \<Rightarrow> db_call ''postgres replay cleanup'' fault (prune_sql now_i64) st)"

definition pg_drop_epochs :: "u32 set \<Rightarrow> db_fault \<Rightarrow> pg_store \<Rightarrow> (io_error + nat) \<times> pg_store" where
  "pg_drop_epochs retained fault st =
     (if retained = {} then (Inr 0, st)
      else db_call ''postgres nullifier drop_epochs'' fault (drop_sql (uint ` retained)) st)"

section \<open>The record codec round trips\<close>

definition record_ok :: "stored_record \<Rightarrow> bool" where
  "record_ok r \<longleftrightarrow> (case (sr_replay_until r, sr_ciphertext r) of
     (Some _, Some ct) \<Rightarrow> length ct \<le> MAX_CIPHERTEXT_BYTES | (None, None) \<Rightarrow> True | _ \<Rightarrow> False)"

lemma lower_hex_graphic: "lower_hex_digit c \<Longrightarrow> graphic c"
  by (auto simp: lower_hex_digit_def graphic_def word_le_nat_alt)

lemma hex_fields_graphic: "list_all lower_hex_digit w \<Longrightarrow> list_all graphic w"
  by (auto simp: list_all_iff intro: lower_hex_graphic)

lemma graphic_plain: "graphic b \<Longrightarrow> b < 128 \<and> b \<noteq> newline \<and> b \<noteq> 13"
  by (auto simp: graphic_def word_le_nat_alt word_less_nat_alt)

lemma version_graphic: "list_all graphic RECORD_VERSION" "RECORD_VERSION \<noteq> []"
  by (simp_all add: RECORD_VERSION_def lit_def graphic_def)

lemma dash_graphic: "list_all graphic (lit ''-'')" "lit ''-'' \<noteq> []"
  by (simp_all add: lit_def graphic_def)

text \<open>A line of five graphic fields, and how it is read back.\<close>

definition record_line :: "bytes \<Rightarrow> bytes \<Rightarrow> bytes \<Rightarrow> bytes \<Rightarrow> bytes" where
  "record_line epoch key until ct = RECORD_VERSION @ [32] @ epoch @ [32] @ key @ [32] @ until @ [32] @ ct"

lemma record_line_fields:
  assumes "list_all graphic e" "list_all graphic k" "list_all graphic u" "list_all graphic c"
    and "e \<noteq> []" "k \<noteq> []" "u \<noteq> []" "c \<noteq> []"
  shows "split_whitespace (record_line e k u c) = [RECORD_VERSION, e, k, u, c]"
  using assms version_graphic by (simp add: record_line_def split_whitespace_Cons split_whitespace_last)

lemma record_line_plain:
  assumes "list_all graphic e" "list_all graphic k" "list_all graphic u" "list_all graphic c" "c \<noteq> []"
  shows "newline \<notin> set (record_line e k u c)" and "utf8_valid (record_line e k u c)"
    and "strip_cr (record_line e k u c) = record_line e k u c" and "record_line e k u c \<noteq> []"
proof -
  have g: "b < 128 \<and> b \<noteq> newline" if "b \<in> set (record_line e k u c)" for b
  proof -
    have "graphic b \<or> b = 32" using that assms version_graphic(1) by (auto simp: record_line_def list_all_iff)
    then show ?thesis using graphic_plain [of b] by auto
  qed
  show "newline \<notin> set (record_line e k u c)" using g by blast
  show "utf8_valid (record_line e k u c)" by (rule ascii_utf8) (use g in blast)
  have "last c \<noteq> 13" using assms(4,5) graphic_plain by (metis last_in_set list_all_iff)
  then show "strip_cr (record_line e k u c) = record_line e k u c"
    using assms(5) by (simp add: strip_cr_def record_line_def)
  show "record_line e k u c \<noteq> []" by (simp add: record_line_def)
qed

lemma validate_stored_key_Inr [simp]:
  "validate_stored_key k = Inr u \<longleftrightarrow>
     k \<noteq> [] \<and> length k \<le> MAX_STORED_NULLIFIER_HEX \<and> length k mod 2 = 0 \<and> list_all lower_hex_digit k"
  by (auto simp: validate_stored_key_def)

text \<open>The two text fields of a record's result.\<close>

definition result_fields :: "stored_record \<Rightarrow> bytes \<times> bytes" where
  "result_fields r = (case (sr_replay_until r, sr_ciphertext r) of
     (Some until, Some ct) \<Rightarrow> (u_to_string until, to_hex ct) | _ \<Rightarrow> (lit ''-'', lit ''-''))"

lemma u_to_string_dash: "u_to_string w \<noteq> lit ''-''"
  using u_to_string_not_in [of 45 w] by (auto simp: lit_def)

lemma parse_versioned_fields:
  assumes "record_ok r" and "validate_stored_key k = Inr ()" and "\<And>ct. sr_ciphertext r = Some ct \<Longrightarrow> ct \<noteq> []"
  shows "parse_versioned [RECORD_VERSION, u_to_string (sr_epoch r), k, fst (result_fields r), snd (result_fields r)] = Inr (k, r)"
proof (cases "sr_ciphertext r")
  case None
  with assms(1) have "sr_replay_until r = None" by (auto simp: record_ok_def split: option.splits)
  with None have "result_fields r = (lit ''-'', lit ''-'')" "r = spent_only (sr_epoch r)"
    by (simp_all add: result_fields_def spent_only_def)
  then show ?thesis
    using assms(2) parse_u_to_string(1) [of "sr_epoch r"] by (simp add: parse_versioned_def Let_def)
next
  case (Some ct)
  with assms(1) obtain until where u: "sr_replay_until r = Some until" "length ct \<le> MAX_CIPHERTEXT_BYTES"
    by (auto simp: record_ok_def split: option.splits)
  then have "result_fields r = (u_to_string until, to_hex ct)" using Some by (simp add: result_fields_def)
  moreover have "r = \<lparr>sr_epoch = sr_epoch r, sr_replay_until = Some until, sr_ciphertext = Some ct\<rparr>"
    using Some u(1) by simp
  ultimately show ?thesis
    using assms(2) u(2) parse_u_to_string u_to_string_dash [of until] to_hex_lower [of ct]
    by (simp add: parse_versioned_def Let_def)
qed

lemma to_hex_ne: "ct \<noteq> [] \<Longrightarrow> to_hex ct \<noteq> []"
  by (metis from_hex_to_hex option.inject to_hex_simps(1))

text \<open>An encoded line: its shape, and that reading it back gives the key and the record.\<close>

lemma encode_record_line:
  assumes "encode_record k r = Inr line" and "record_ok r" and "\<And>ct. sr_ciphertext r = Some ct \<Longrightarrow> ct \<noteq> []"
  obtains l where "line = l @ [newline]" and "newline \<notin> set l" and "utf8_valid l" and "strip_cr l = l" and "l \<noteq> []"
    and "length line \<le> MAX_RECORD_LINE_BYTES" and "\<And>mode. parse_record l mode = Inr (k, r)"
proof -
  let ?u = "fst (result_fields r)" and ?c = "snd (result_fields r)"
  define l where "l = record_line (u_to_string (sr_epoch r)) k ?u ?c"
  have k: "validate_stored_key k = Inr ()" and line: "line = l @ [newline]" "length line \<le> MAX_RECORD_LINE_BYTES"
    using assms(1,2)
    by (auto simp: encode_record_def Let_def l_def record_line_def result_fields_def record_ok_def
        split: option.splits if_splits)
  have f: "list_all graphic ?u" "list_all graphic ?c" "?u \<noteq> []" "?c \<noteq> []"
    using assms(2,3) dec_graphic dash_graphic to_hex_lower hex_fields_graphic to_hex_ne
    by (auto simp: result_fields_def record_ok_def split: option.splits)
  have kg: "list_all graphic k" "k \<noteq> []" using k hex_fields_graphic by auto
  note pl = record_line_plain [OF dec_graphic kg(1) f(1,2,4), of "sr_epoch r", folded l_def]
  have "parse_record l mode = Inr (k, r)" for mode
    unfolding parse_record_def l_def record_line_fields [OF dec_graphic kg(1) f(1,2) u_to_string_ne kg(2) f(3,4)]
    using parse_versioned_fields [OF assms(2) k assms(3)] by (simp add: Let_def)
  with that line pl show ?thesis by blast
qed

text \<open>Encoding succeeds for the records the stores keep.\<close>

lemma length_u32: "length (u_to_string (e :: u32)) \<le> 10"
  using length_dec [of "unat e" 9] unat_less_pow [of e] by (simp add: u_to_string_def)

lemma length_u64: "length (u_to_string (e :: u64)) \<le> 20"
  using length_dec [of "unat e" 19] unat_less_pow [of e] by (simp add: u_to_string_def)

lemma encode_record_total:
  assumes "record_ok r" and "validate_stored_key k = Inr ()"
  shows "\<exists>line. encode_record k r = Inr line"
proof -
  have "length (u_to_string (sr_epoch r)) \<le> 10" by (rule length_u32)
  then show ?thesis
    using assms length_u64 [of "the (sr_replay_until r)"]
    by (cases "sr_replay_until r"; cases "sr_ciphertext r")
       (auto simp: encode_record_def Let_def record_ok_def RECORD_VERSION_def MAX_RECORD_LINE_BYTES_def
         MAX_CIPHERTEXT_BYTES_def NF_NONCE_LEN_def MAX_REPLAY_RESULT_BYTES_def TAG_LEN_def)
qed

section \<open>Sealed results\<close>

lemma aead_okD:
  assumes "aead_ok A" and "length key = 32" and "length nonce = NF_NONCE_LEN" and "length msg \<le> MAX_REPLAY_RESULT_BYTES"
  obtains ct where "ae_encrypt A key nonce aad msg = Some ct" and "length ct = length msg + TAG_LEN"
    and "ae_decrypt A key nonce aad ct = Some msg"
proof -
  from assms have "\<exists>ct. ae_encrypt A key nonce aad msg = Some ct \<and> length ct = length msg + TAG_LEN \<and>
      ae_decrypt A key nonce aad ct = Some msg" by (simp add: aead_ok_def)
  with that show ?thesis by blast
qed

lemma seal_Inr:
  assumes "seal A ckey epoch key until msg entropy = Inr ct"
  obtains nonce where "entropy = Some nonce" and "\<not> bad_length msg" and "length ckey = 32"
  using assms by (auto simp: seal_def split: if_splits)

lemma open_seal:
  assumes "aead_ok A" and "seal A ckey epoch key until msg (Some nonce) = Inr ct" and "length nonce = NF_NONCE_LEN"
  shows "open_sealed A ckey epoch key until ct = Inr msg"
    and "length ct = NF_NONCE_LEN + length msg + TAG_LEN" and "length ct \<le> MAX_CIPHERTEXT_BYTES" and "ct \<noteq> []"
proof -
  have l: "\<not> bad_length msg" "length ckey = 32"
    and e: "\<exists>enc. ae_encrypt A ckey nonce (replay_aad epoch key until) msg = Some enc \<and> ct = nonce @ enc"
    using assms(2) by (auto simp: seal_def split: if_splits)
  have m: "length msg \<le> MAX_REPLAY_RESULT_BYTES" "msg \<noteq> []" using l(1) by (auto simp: bad_length_def)
  obtain enc where enc: "ae_encrypt A ckey nonce (replay_aad epoch key until) msg = Some enc"
    "length enc = length msg + TAG_LEN" "ae_decrypt A ckey nonce (replay_aad epoch key until) enc = Some msg"
    by (rule aead_okD [OF assms(1) l(2) assms(3) m(1)])
  then have ct: "ct = nonce @ enc" using e by simp
  show len: "length ct = NF_NONCE_LEN + length msg + TAG_LEN" using ct enc(2) assms(3) by simp
  then show "length ct \<le> MAX_CIPHERTEXT_BYTES" and "ct \<noteq> []"
    using m by (auto simp: MAX_CIPHERTEXT_BYTES_def NF_NONCE_LEN_def)
  have "take NF_NONCE_LEN ct = nonce" "drop NF_NONCE_LEN ct = enc" using ct assms(3) by simp_all
  then show "open_sealed A ckey epoch key until ct = Inr msg"
    using len m l enc(3) by (simp add: open_sealed_def MAX_CIPHERTEXT_BYTES_def Let_def)
qed

lemma seal_total:
  assumes "aead_ok A" and "length ckey = 32" and "\<not> bad_length msg" and "length nonce = NF_NONCE_LEN"
  shows "\<exists>ct. seal A ckey epoch key until msg (Some nonce) = Inr ct"
proof -
  have "length msg \<le> MAX_REPLAY_RESULT_BYTES" using assms(3) by (simp add: bad_length_def)
  then obtain enc where "ae_encrypt A ckey nonce (replay_aad epoch key until) msg = Some enc"
    by (rule aead_okD [OF assms(1,2,4)])
  then show ?thesis using assms by (simp add: seal_def)
qed

lemma validate_commit_Inr:
  "validate_commit k until resp now = Inr u \<longleftrightarrow>
     length k = 64 \<and> list_all lower_hex_digit k \<and> now < until \<and> \<not> bad_length resp"
  by (auto simp: validate_commit_def not_le)

lemma validate_commit_stored: "validate_commit k until resp now = Inr u \<Longrightarrow> validate_stored_key k = Inr ()"
  by (auto simp: validate_commit_Inr MAX_STORED_NULLIFIER_HEX_def)

section \<open>The volatile store\<close>

datatype nf_op =
    Commit u32 bytes u64 bytes u64 "bytes option"
  | PruneExpired u64
  | DropEpochs "u32 set"

datatype nf_out = Committed commit_result | Pruned "io_error + nat" | Dropped "io_error + nat"

fun memory_op :: "aead \<Rightarrow> nf_op \<Rightarrow> memory_store \<Rightarrow> nf_out \<times> memory_store" where
  "memory_op A (Commit epoch key until resp now entropy) m =
     (let (r, m1) = memory_commit A epoch key until resp now entropy m in (Committed r, m1))"
| "memory_op A (PruneExpired now) m = (let (n, m1) = memory_prune now m in (Pruned (Inr n), m1))"
| "memory_op A (DropEpochs retained) m = (let (n, m1) = memory_drop_epochs retained m in (Dropped (Inr n), m1))"

text \<open>The key of a record, and the result that is replayed for it: the first committed response until its expiry.\<close>

definition replays :: "aead \<Rightarrow> bytes \<Rightarrow> bytes \<Rightarrow> bytes \<Rightarrow> u64 \<Rightarrow> stored_record \<Rightarrow> bool" where
  "replays A ckey k resp until r \<longleftrightarrow>
     (\<exists>ct. sr_replay_until r = Some until \<and> sr_ciphertext r = Some ct \<and> open_sealed A ckey (sr_epoch r) k until ct = Inr resp)"

definition spent :: "aead \<Rightarrow> bytes \<Rightarrow> bytes \<Rightarrow> bytes \<Rightarrow> u64 \<Rightarrow> stored_record \<Rightarrow> bool" where
  "spent A ckey k resp until r \<longleftrightarrow> replays A ckey k resp until r \<or> (sr_replay_until r = None \<and> sr_ciphertext r = None)"

lemma live_outcome_replays:
  "replays A ckey k resp until r \<Longrightarrow>
     live_outcome A ckey k r now new = (if now < until then Some (Granted resp new) else None)"
  by (auto simp: replays_def live_outcome_def live_ciphertext_def)

lemma live_outcome_spent_only:
  "sr_replay_until r = None \<Longrightarrow> live_outcome A ckey k r now new = None"
  by (simp add: live_outcome_def live_ciphertext_def)

lemma map_of_prune: "map_of (snd (prune_records now rs)) k = map_option (\<lambda>r. snd (prune_record now r)) (map_of rs k)"
  by (induction rs) (auto simp: prune_records_def)

lemma prune_record_replays:
  "replays A ckey k resp until r \<Longrightarrow> now < until \<Longrightarrow> snd (prune_record now r) = r"
  by (auto simp: replays_def prune_record_def)

lemma prune_record_spent: "spent A ckey k resp until r \<Longrightarrow> spent A ckey k resp until (snd (prune_record now r))"
  by (cases "now \<ge> until") (auto simp: spent_def replays_def prune_record_def)

text \<open>A new grant is recorded with the response it returned; the panic of \<open>expect\<close> is unreachable.\<close>

lemma memory_commit_new:
  assumes "aead_ok A" and "\<And>n. entropy = Some n \<Longrightarrow> length n = NF_NONCE_LEN"
    and "memory_commit A epoch k until resp now entropy m = (out, m1)"
  shows "out \<noteq> CommitPanic" and "ms_key m1 = ms_key m"
    and "out = CommitOk (Granted resp1 True) \<Longrightarrow> map_of (ms_records m) k = None \<and> resp1 = resp \<and> now < until \<and>
      (\<exists>r. map_of (ms_records m1) k = Some r \<and> replays A (ms_key m) k resp until r)"
proof -
  have *: "out \<noteq> CommitPanic \<and> ms_key m1 = ms_key m \<and>
    (out = CommitOk (Granted resp1 True) \<longrightarrow> map_of (ms_records m) k = None \<and> resp1 = resp \<and> now < until \<and>
      (\<exists>r. map_of (ms_records m1) k = Some r \<and> replays A (ms_key m) k resp until r))" for resp1
  proof (cases "validate_commit k until resp now")
    case (Inl e)
    then show ?thesis using assms(3) by (auto simp: memory_commit_def)
  next
    case (Inr u)
    then have v: "now < until" by (simp add: validate_commit_Inr)
    show ?thesis
    proof (cases "map_of (ms_records m) k")
      case (Some r)
      then show ?thesis
        using assms(3) Inr
        by (auto simp: memory_commit_def live_outcome_def split: option.splits sum.splits prod.splits)
    next
      case None
      show ?thesis
      proof (cases "seal A (ms_key m) epoch k until resp entropy")
        case (Inl e)
        then show ?thesis using assms(3) Inr None by (auto simp: memory_commit_def)
      next
        case ct: (Inr ct)
        obtain n where n: "entropy = Some n" by (rule seal_Inr [OF ct])
        define r where "r = \<lparr>sr_epoch = epoch, sr_replay_until = Some until, sr_ciphertext = Some ct\<rparr>"
        have "replays A (ms_key m) k resp until r"
          using open_seal(1) [OF assms(1) ct [unfolded n] assms(2) [OF n]] by (simp add: replays_def r_def)
        then show ?thesis
          using assms(3) Inr None ct v live_outcome_replays [of A "ms_key m" k resp until r now True]
          by (auto simp: memory_commit_def expect_live_def r_def [symmetric] update_conv')
      qed
    qed
  qed
  show "out \<noteq> CommitPanic" "ms_key m1 = ms_key m" using * by simp_all
  show "out = CommitOk (Granted resp1 True) \<Longrightarrow> map_of (ms_records m) k = None \<and> resp1 = resp \<and> now < until \<and>
      (\<exists>r. map_of (ms_records m1) k = Some r \<and> replays A (ms_key m) k resp until r)" using * [of resp1] by simp
qed

text \<open>What later operations do to a spent key.\<close>

lemma memory_commit_spent:
  assumes "memory_commit A epoch k2 until2 resp2 now entropy m = (out, m1)"
    and "map_of (ms_records m) k = Some r" and "spent A (ms_key m) k resp until r"
  shows "\<exists>r1. map_of (ms_records m1) k = Some r1 \<and> spent A (ms_key m) k resp until r1 \<and>
    (now < until \<longrightarrow> r1 = r) \<and>
    (k2 = k \<longrightarrow> validate_commit k until2 resp2 now = Inr () \<longrightarrow>
       out = CommitOk (if replays A (ms_key m) k resp until r \<and> now < until then Granted resp False else AlreadySpent))"
proof (cases "k2 = k")
  case False
  then show ?thesis
    using assms by (auto simp: memory_commit_def update_conv' Let_def split: sum.splits option.splits)
next
  case True
  show ?thesis
  proof (cases "replays A (ms_key m) k resp until r")
    case rep: True
    then show ?thesis
      using assms True live_outcome_replays [OF rep, of now False]
      by (auto simp: memory_commit_def spent_def update_conv' split: sum.splits if_splits)
  next
    case False
    then have r: "sr_replay_until r = None" "sr_ciphertext r = None" using assms(3) by (auto simp: spent_def)
    then have "r\<lparr>sr_replay_until := None, sr_ciphertext := None\<rparr> = r" by simp
    then show ?thesis
      using assms True False r live_outcome_spent_only [OF r(1)]
      by (auto simp: memory_commit_def update_conv' spent_def split: sum.splits)
  qed
qed

lemma memory_op_spent:
  assumes "memory_op A i m = (out, m1)" and "\<And>retained. i \<noteq> DropEpochs retained"
    and "map_of (ms_records m) k = Some r" and "spent A (ms_key m) k resp until r"
  shows "ms_key m1 = ms_key m \<and> (\<exists>r1. map_of (ms_records m1) k = Some r1 \<and> spent A (ms_key m) k resp until r1)"
proof (cases i)
  case (Commit epoch k2 until2 resp2 now entropy)
  obtain o1 where o1: "memory_commit A epoch k2 until2 resp2 now entropy m = (o1, m1)"
    using assms(1) Commit by (auto split: prod.splits)
  have "ms_key m1 = ms_key m"
    using o1 by (auto simp: memory_commit_def Let_def split: sum.splits option.splits)
  then show ?thesis using memory_commit_spent [OF o1 assms(3,4)] by blast
next
  case (PruneExpired now)
  then show ?thesis
    using assms(1,3,4) map_of_prune [of now "ms_records m" k] prune_record_spent [OF assms(4)]
    by (auto simp: memory_prune_def split: prod.splits)
qed (use assms(2) in blast)

fun op_now :: "nf_op \<Rightarrow> u64 option" where
  "op_now (Commit epoch k until resp now entropy) = Some now"
| "op_now (PruneExpired now) = Some now"
| "op_now (DropEpochs retained) = None"

lemma memory_op_replays:
  assumes "memory_op A i m = (out, m1)" and "op_now i = Some now" and "now < until"
    and "map_of (ms_records m) k = Some r" and "replays A (ms_key m) k resp until r"
  shows "ms_key m1 = ms_key m \<and> map_of (ms_records m1) k = Some r"
proof (cases i)
  case (Commit epoch k2 until2 resp2 now2 entropy)
  obtain o1 where o1: "memory_commit A epoch k2 until2 resp2 now entropy m = (o1, m1)"
    using assms(1,2) Commit by (auto split: prod.splits)
  have "ms_key m1 = ms_key m"
    using o1 by (auto simp: memory_commit_def Let_def split: sum.splits option.splits)
  then show ?thesis
    using memory_commit_spent [OF o1 assms(4), of resp until] assms(3,5) by (auto simp: spent_def)
next
  case (PruneExpired now2)
  then show ?thesis
    using assms map_of_prune [of now "ms_records m" k] prune_record_replays [OF assms(5)]
    by (auto simp: memory_prune_def split: prod.splits)
qed (use assms(2) in simp)

text \<open>The key after a first grant, over the operations that follow it.\<close>

lemma memory_run_spent:
  assumes "map_of (ms_records m) k = Some r" and "spent A (ms_key m) k resp until r"
    and "\<And>i retained. i \<in> set is \<Longrightarrow> i \<noteq> DropEpochs retained"
  shows "\<exists>r1. map_of (ms_records (snd (run (memory_op A) is m))) k = Some r1 \<and>
    ms_key (snd (run (memory_op A) is m)) = ms_key m \<and> spent A (ms_key m) k resp until r1 \<and>
    (replays A (ms_key m) k resp until r \<longrightarrow> (\<forall>i\<in>set is. \<exists>now. op_now i = Some now \<and> now < until) \<longrightarrow> r1 = r)"
  using assms
proof (induction "is" arbitrary: m r)
  case (Cons i "is")
  obtain out m1 where o: "memory_op A i m = (out, m1)" by (cases "memory_op A i m")
  obtain r1 where r1: "map_of (ms_records m1) k = Some r1" "spent A (ms_key m) k resp until r1" "ms_key m1 = ms_key m"
    using memory_op_spent [OF o _ Cons.prems(1,2)] Cons.prems(3) [of i] by auto
  have same: "r1 = r" if "replays A (ms_key m) k resp until r" "\<exists>now. op_now i = Some now \<and> now < until"
    using memory_op_replays [OF o _ _ Cons.prems(1) that(1)] that(2) r1(1) by auto
  obtain r2 where "map_of (ms_records (snd (run (memory_op A) is m1))) k = Some r2"
    "ms_key (snd (run (memory_op A) is m1)) = ms_key m1" "spent A (ms_key m1) k resp until r2"
    "replays A (ms_key m1) k resp until r1 \<longrightarrow> (\<forall>i\<in>set is. \<exists>now. op_now i = Some now \<and> now < until) \<longrightarrow> r2 = r1"
    using Cons.IH [OF r1(1) r1(2) [folded r1(3)]] Cons.prems(3) by auto
  then show ?case using same r1(3) by (auto simp: run_Cons o simp del: run.simps(2))
qed auto

text \<open>
  C31: Spending is single-use and idempotent. In any history of commits and prunings of one store, after
  a commit that granted a response to a token for the first time, no later commit of the same token is
  a first grant: a valid one gets the stored response, byte for byte, or learns that the token is
  spent; and it does get the response while every call since came before the response expired.
\<close>

theorem memory_spend_once:
  assumes "aead_ok A" and "outs = fst (run (memory_op A) is (memory_new ckey))" and "i < j" and "j < length is"
    and "is ! i = Commit e1 k u1 p1 n1 (Some nonce)" and "length nonce = NF_NONCE_LEN"
    and "is ! j = Commit e2 k u2 p2 n2 en2" and "outs ! i = Committed (CommitOk (Granted resp True))"
    and "validate_commit k u2 p2 n2 = Inr ()"
    and "\<forall>m. i < m \<and> m < j \<longrightarrow> (\<forall>retained. is ! m \<noteq> DropEpochs retained)"
  shows "(outs ! j = Committed (CommitOk (Granted resp False)) \<or> outs ! j = Committed (CommitOk AlreadySpent)) \<and>
    resp = p1 \<and>
    ((\<forall>m. i < m \<and> m \<le> j \<longrightarrow> (\<exists>now. op_now (is ! m) = Some now \<and> now < u1)) \<longrightarrow>
       outs ! j = Committed (CommitOk (Granted resp False)))"
proof -
  let ?st = "\<lambda>n. snd (run (memory_op A) (take n is) (memory_new ckey))"
  have nth: "outs ! n = fst (memory_op A (is ! n) (?st n))" if "n < length is" for n
    using run_nth [OF that] assms(2) by simp
  obtain o1 m1 where c1: "memory_commit A e1 k u1 p1 n1 (Some nonce) (?st i) = (o1, m1)"
    by (cases "memory_commit A e1 k u1 p1 n1 (Some nonce) (?st i)")
  have "o1 = CommitOk (Granted resp True)" using nth [of i] assms(3-5,8) c1 by simp
  with memory_commit_new [OF assms(1) _ c1] assms(6) obtain r
    where r: "map_of (ms_records m1) k = Some r" "replays A (ms_key m1) k p1 u1 r" and resp: "resp = p1"
    by auto
  define ms where "ms = take (j - Suc i) (drop (Suc i) is)"
  have "take (Suc i) is = take i is @ [is ! i]" using assms(3,4) by (simp add: take_Suc_conv_app_nth)
  then have "?st (Suc i) = m1" using c1 assms(5) by (simp add: run_append)
  moreover have "take j is = take (Suc i) is @ ms"
    using assms(3) take_add [of "Suc i" "j - Suc i" "is"] by (simp add: ms_def)
  ultimately have stj: "?st j = snd (run (memory_op A) ms m1)" by (simp add: run_append)
  have ms: "\<exists>m. i < m \<and> m < j \<and> is ! m = x" if "x \<in> set ms" for x
  proof -
    from that obtain n where "n < length ms" "x = ms ! n" by (auto simp: in_set_conv_nth)
    then have "is ! (Suc i + n) = x" "Suc i + n < j" using assms(3,4) by (auto simp: ms_def)
    then show ?thesis by (intro exI [of _ "Suc i + n"]) simp
  qed
  obtain r1 where r1: "map_of (ms_records (?st j)) k = Some r1" "ms_key (?st j) = ms_key m1" "spent A (ms_key m1) k p1 u1 r1"
    "(\<forall>x\<in>set ms. \<exists>now. op_now x = Some now \<and> now < u1) \<longrightarrow> r1 = r"
    using memory_run_spent [OF r(1) _, of A p1 u1 ms] r(2) ms assms(10) unfolding stj by (auto simp: spent_def)
  obtain o2 m2 where c2: "memory_commit A e2 k u2 p2 n2 en2 (?st j) = (o2, m2)"
    by (cases "memory_commit A e2 k u2 p2 n2 en2 (?st j)")
  have oj: "outs ! j = Committed o2" using nth [OF assms(4)] assms(7) c2 by simp
  have o2: "o2 = CommitOk (if replays A (ms_key m1) k p1 u1 r1 \<and> n2 < u1 then Granted p1 False else AlreadySpent)"
    using memory_commit_spent [OF c2 r1(1), of p1 u1] r1(2,3) assms(9) by auto
  moreover have "replays A (ms_key m1) k p1 u1 r1 \<and> n2 < u1"
    if "\<forall>m. i < m \<and> m \<le> j \<longrightarrow> (\<exists>now. op_now (is ! m) = Some now \<and> now < u1)"
  proof -
    have "\<forall>x\<in>set ms. \<exists>now. op_now x = Some now \<and> now < u1" using ms that by (metis less_imp_le)
    moreover have "n2 < u1" using that assms(3,7) by force
    ultimately show ?thesis using r1(4) r(2) by simp
  qed
  ultimately show ?thesis using oj resp by auto
qed

section \<open>Evaluation\<close>

text \<open>An AEAD of the right shape, for evaluating the model: the message followed by a zero tag.\<close>

definition demo_aead :: aead where
  "demo_aead = \<lparr>ae_encrypt = (\<lambda>key nonce aad msg. Some (msg @ replicate TAG_LEN 0)),
     ae_decrypt = (\<lambda>key nonce aad ct. Some (take (length ct - TAG_LEN) ct))\<rparr>"

lemma demo_aead_ok: "aead_ok demo_aead"
  by (simp add: aead_ok_def demo_aead_def)

definition demo_token :: bytes where
  "demo_token = replicate 64 97"

definition demo_history :: "nf_op list" where
  "demo_history = [Commit 7 demo_token 100 [1, 2] 10 (Some (replicate NF_NONCE_LEN 0)), PruneExpired 20,
     Commit 7 demo_token 200 [3] 30 (Some (replicate NF_NONCE_LEN 1))]"

lemma demo_validates: "resp \<noteq> [] \<Longrightarrow> length resp \<le> 64 \<Longrightarrow> now < until \<Longrightarrow> validate_commit demo_token until resp now = Inr ()"
  by (auto simp: validate_commit_Inr demo_token_def lower_hex_digit_def bad_length_def MAX_REPLAY_RESULT_BYTES_def list_all_iff)

lemma demo_first: "fst (run (memory_op demo_aead) demo_history (memory_new (replicate 32 0))) ! 0 =
  Committed (CommitOk (Granted [1, 2] True))"
proof -
  have "\<exists>ct. seal demo_aead (replicate 32 0) 7 demo_token 100 [1, 2] (Some (replicate NF_NONCE_LEN 0)) = Inr ct"
    by (rule seal_total [OF demo_aead_ok]) (simp_all add: bad_length_def MAX_REPLAY_RESULT_BYTES_def)
  then obtain ct where ct: "seal demo_aead (replicate 32 0) 7 demo_token 100 [1, 2] (Some (replicate NF_NONCE_LEN 0)) = Inr ct" ..
  with open_seal(1) [OF demo_aead_ok this] show ?thesis
    using demo_validates [of "[1, 2]" 10 100]
    by (auto simp: demo_history_def memory_new_def with_partitioning_def memory_commit_def live_outcome_def live_ciphertext_def
        expect_live_def Let_def split: prod.splits)
qed

theorem memory_spend_once_witness:
  "fst (run (memory_op demo_aead) demo_history (memory_new (replicate 32 0))) ! 2 =
     Committed (CommitOk (Granted [1, 2] False))"
proof -
  have steps: "m = 1 \<or> m = 2" if "0 < m \<and> m \<le> 2" for m :: nat using that by auto
  have "\<forall>m. 0 < m \<and> m \<le> 2 \<longrightarrow> (\<exists>now. op_now (demo_history ! m) = Some now \<and> now < (100 :: u64))"
    by (auto simp: demo_history_def dest!: steps [OF conjI])
  moreover have "\<forall>m. 0 < m \<and> m < 2 \<longrightarrow> (\<forall>retained. demo_history ! m \<noteq> DropEpochs retained)"
    by (auto simp: demo_history_def dest!: steps [OF conjI [OF _ less_imp_le]])
  moreover have "demo_history ! 0 = Commit 7 demo_token 100 [1, 2] 10 (Some (replicate NF_NONCE_LEN 0))"
    "demo_history ! 2 = Commit 7 demo_token 200 [3] 30 (Some (replicate NF_NONCE_LEN 1))" "2 < length demo_history"
    by (simp_all add: demo_history_def)
  ultimately show ?thesis
    using memory_spend_once [OF demo_aead_ok refl, of 0 2 demo_history 7 demo_token 100 "[1, 2]" 10 "replicate NF_NONCE_LEN 0"
        7 200 "[3]" 30 "Some (replicate NF_NONCE_LEN 1)" "replicate 32 0" "[1, 2]"] demo_first demo_validates [of "[3]" 30 200]
    by simp
qed

text \<open>
  The ledger's record codec loses nothing. Every record the stores keep (a canonical token, an epoch,
  and either no result or an expiry with a non-empty ciphertext within the bound) is written as one
  newline-terminated UTF-8 line within the line bound, and that line reads back to the same token and record
  whatever the mode of the file.
\<close>

theorem record_codec_roundtrip:
  assumes "record_ok r" and "sr_ciphertext r \<noteq> Some []" and "validate_stored_key k = Inr ()"
  shows "\<exists>l. encode_record k r = Inr (l @ [newline]) \<and> newline \<notin> set l \<and> utf8_valid l \<and>
    length l < MAX_RECORD_LINE_BYTES \<and> (\<forall>mode. parse_record (strip_cr l) mode = Inr (k, r))"
proof -
  obtain line where line: "encode_record k r = Inr line" using encode_record_total [OF assms(1,3)] by blast
  from assms(2) have "\<And>ct. sr_ciphertext r = Some ct \<Longrightarrow> ct \<noteq> []" by auto
  from encode_record_line [OF line assms(1) this] obtain l where "line = l @ [newline]" "newline \<notin> set l" "utf8_valid l"
    "strip_cr l = l" "length line \<le> MAX_RECORD_LINE_BYTES" "\<And>mode. parse_record l mode = Inr (k, r)" by blast
  with line show ?thesis by (intro exI [of _ l]) simp
qed

theorem record_codec_roundtrip_witness:
  "\<exists>l. encode_record demo_token \<lparr>sr_epoch = 7, sr_replay_until = Some 100, sr_ciphertext = Some [1, 2, 3]\<rparr> = Inr (l @ [newline]) \<and>
     newline \<notin> set l \<and> utf8_valid l \<and> length l < MAX_RECORD_LINE_BYTES \<and>
     (\<forall>mode. parse_record (strip_cr l) mode =
        Inr (demo_token, \<lparr>sr_epoch = 7, sr_replay_until = Some 100, sr_ciphertext = Some [1, 2, 3]\<rparr>))"
  by (rule record_codec_roundtrip)
     (simp_all add: record_ok_def MAX_CIPHERTEXT_BYTES_def MAX_REPLAY_RESULT_BYTES_def NF_NONCE_LEN_def TAG_LEN_def
        demo_token_def lower_hex_digit_def MAX_STORED_NULLIFIER_HEX_def list_all_iff)

end
