(* ===== verification/Coord_Api.thy ===== *)
theory Coord_Api
  imports Coord_Config Ratelimit Nullifier
begin

text \<open>
  The Coordinator's HTTP API (nil-coordinator/src/api.rs): redeeming a token for a path. The token
  library, the signature primitives and the JSON codec are parameters; so is the ledger's
  \<open>commit_or_replay\<close>, which the code calls through the trait \<open>NullifierStore\<close>. One call's readings of
  the clocks and of the entropy source are its \<open>call_input\<close>. A result \<open>None\<close> is a call that gives
  no answer (a panic, or a selection that never returns). Log messages are not modelled.
\<close>

section \<open>State\<close>

record coord_libs =
  cl_rsa :: blind_rsa
  cl_crypto :: crypto
  cl_to_json :: "hop list \<Rightarrow> bytes option"
  cl_from_json :: "bytes \<Rightarrow> hop list option"

record call_input =
  ci_expiry_clock :: "duration option"
  ci_grant_clock :: "duration option"
  ci_shuffle :: "nat \<Rightarrow> bytes option"
  ci_nonce :: "nat \<Rightarrow> bytes option"
  ci_seal :: "bytes option"

type_synonym 's commit_fn = "u32 \<Rightarrow> bytes \<Rightarrow> u64 \<Rightarrow> bytes \<Rightarrow> u64 \<Rightarrow> bytes option \<Rightarrow> 's \<Rightarrow> commit_result \<times> 's"

record redeem_request =
  rr_msg :: bytes
  rr_token :: bytes

datatype redeem_error = NotConfigured | MalformedRequest | BadToken | AlreadyRedeemed | Unavailable | NoPath

definition REDEEM_RATE_MAX :: u32 where "REDEEM_RATE_MAX = 30"
definition REDEEM_RATE_WINDOW :: nat where "REDEEM_RATE_WINDOW = 60 * 10 ^ 9"

record 's coord_state =
  st_nullifiers :: 's
  st_limiter :: rate_limiter

definition with_nullifiers :: "'s \<Rightarrow> 's coord_state" where
  "with_nullifiers s = \<lparr>st_nullifiers = s, st_limiter = limiter_new REDEEM_RATE_MAX REDEEM_RATE_WINDOW\<rparr>"

definition coord_new :: "coord_config \<Rightarrow> memory_store coord_state" where
  "coord_new cfg = with_nullifiers (memory_new (cc_redemption_result_key cfg))"

section \<open>Grants for a path\<close>

datatype attach_error =
    PreviousNotIpv4 bytes | NextNotIpv4 bytes u16 | RoleOrder | MeasurementNotHex | MeasurementLength
  | SpkiMissing | SpkiNotHex | SpkiLength | GrantFailed grant_error | NonceEntropy

primrec grant_role_of :: "path_role \<Rightarrow> grant_role" where
  "grant_role_of RoleEntry = Entry"
| "grant_role_of RoleMiddle = Middle"
| "grant_role_of RoleExit = Exit"

primrec core_tee :: "wire_tee \<Rightarrow> tee" where
  "core_tee WSevSnp = SevSnp"
| "core_tee WTdx = Tdx"

fun collect_results :: "('a \<Rightarrow> 'e + 'b) \<Rightarrow> 'a list \<Rightarrow> 'e + 'b list" where
  "collect_results f [] = Inr []"
| "collect_results f (x # xs) = bindE (f x) (\<lambda>y. bindE (collect_results f xs) (\<lambda>ys. Inr (y # ys)))"

definition previous_endpoint :: "selected_hop list \<Rightarrow> nat \<Rightarrow> attach_error + ipv4addr option" where
  "previous_endpoint selected index =
     (if index = 0 then Inr None
      else
        let host = hp_host (sh_hop (selected ! (index - 1))) in
        bindE (ok_or (PreviousNotIpv4 host) (parse_ipv4 host)) (\<lambda>ip. Inr (Some ip)))"

definition next_endpoint :: "selected_hop list \<Rightarrow> nat \<Rightarrow> attach_error + socket_addr_v4 option" where
  "next_endpoint selected index =
     (if index + 1 < length selected then
        let h = sh_hop (selected ! (index + 1)) in
        bindE (ok_or (NextNotIpv4 (hp_host h) (hp_port h)) (parse_ipv4 (hp_host h))) (\<lambda>ip.
        Inr (Some (SocketAddrV4 ip (hp_port h))))
      else Inr None)"

fun order_neighbors ::
  "path_role \<Rightarrow> ipv4addr option \<Rightarrow> socket_addr_v4 option \<Rightarrow> attach_error + (ipv4addr option \<times> socket_addr_v4 option)" where
  "order_neighbors RoleEntry None (Some nxt) = Inr (None, Some nxt)"
| "order_neighbors RoleMiddle (Some prev) (Some nxt) = Inr (Some prev, Some nxt)"
| "order_neighbors RoleExit prev None = Inr (prev, None)"
| "order_neighbors _ _ _ = Inl RoleOrder"

definition path_neighbor :: "selected_hop list \<Rightarrow> nat \<Rightarrow> attach_error + (ipv4addr option \<times> socket_addr_v4 option)" where
  "path_neighbor selected index =
     bindE (previous_endpoint selected index) (\<lambda>previous_hop.
     bindE (next_endpoint selected index) (\<lambda>next_hop.
     order_neighbors (sh_intended_role (selected ! index)) previous_hop next_hop))"

definition grant_hop ::
  "crypto \<Rightarrow> signing_key \<Rightarrow> bytes \<Rightarrow> duration \<Rightarrow> u64 \<Rightarrow> bytes option \<Rightarrow> selected_hop \<Rightarrow>
   ipv4addr option \<times> socket_addr_v4 option \<Rightarrow> attach_error + selected_hop" where
  "grant_hop C signer realm ttl now entropy s neighbors =
     (let h = sh_hop s in
      bindE (ok_or MeasurementNotHex (from_hex (trim (hp_measurement h)))) (\<lambda>measurement.
      if length measurement \<noteq> 48 then Inl MeasurementLength
      else
      bindE (ok_or SpkiMissing (hp_tls_spki_sha256 h)) (\<lambda>spki_hex.
      bindE (ok_or SpkiNotHex (from_hex spki_hex)) (\<lambda>spki.
      if length spki \<noteq> 32 then Inl SpkiLength
      else
      bindE (map_err GrantFailed (audience_new realm (sh_node_id s) (grant_role_of (sh_intended_role s)) Masque
               (core_tee (hp_tee h)) measurement spki (fst neighbors) (snd neighbors))) (\<lambda>aud.
      bindE (ok_or NonceEntropy entropy) (\<lambda>nonce.
      bindE (map_err GrantFailed (grant_mint C signer aud nonce ttl now)) (\<lambda>g.
      Inr (s\<lparr>sh_hop := h\<lparr>hp_grant := Some (to_hex (gr_token g)), hp_grant_nonce := Some (to_hex (gr_nonce g))\<rparr>\<rparr>))))))))"

definition attach_grants ::
  "crypto \<Rightarrow> (nat \<Rightarrow> bytes option) \<Rightarrow> signing_key \<Rightarrow> bytes \<Rightarrow> duration \<Rightarrow> u64 \<Rightarrow> selected_hop list \<Rightarrow> attach_error + selected_hop list" where
  "attach_grants C nonce signer realm ttl now selected =
     bindE (collect_results (path_neighbor selected) [0..<length selected]) (\<lambda>path_neighbors.
     collect_results (\<lambda>i. grant_hop C signer realm ttl now (nonce i) (selected ! i) (path_neighbors ! i)) [0..<length selected])"

section \<open>Redemption\<close>

definition legacy_token_allowed :: "environment \<Rightarrow> u64 \<Rightarrow> bool" where
  "legacy_token_allowed env now =
     (case Option.bind (env_ok env ''NW_LEGACY_TOKEN_CUTOFF'') parse_u64 of None \<Rightarrow> False | Some cutoff \<Rightarrow> now \<le> cutoff)"

text \<open>The checks on the token, up to the epoch of the key that signed it.\<close>

definition check_token ::
  "coord_libs \<Rightarrow> environment \<Rightarrow> coord_config \<Rightarrow> call_input \<Rightarrow> redeem_request \<Rightarrow> redeem_error + (u32 \<times> bytes)" where
  "check_token L env cfg c req =
     bindE (ok_or NotConfigured (cc_verifier cfg)) (\<lambda>verifier.
     bindE (ok_or MalformedRequest (config_from_hex (rr_msg req))) (\<lambda>msg.
     bindE (ok_or MalformedRequest (config_from_hex (rr_token req))) (\<lambda>token.
     let now = now_unix_secs_for_expiry (ci_expiry_clock c) in
     if is_v2_message msg \<and> \<not> v2_message_is_current msg now then Inl BadToken
     else if \<not> is_v2_message msg \<and> (length msg \<noteq> 32 \<or> \<not> legacy_token_allowed env now) then Inl BadToken
     else bindE (ok_or BadToken (verify_with_epoch (cl_rsa L) verifier token msg)) (\<lambda>epoch. Inr (epoch, msg)))))"

text \<open>The response that is proposed to the ledger, with the time it was made and its expiry.\<close>

definition propose ::
  "coord_libs \<Rightarrow> coord_config \<Rightarrow> call_input \<Rightarrow> selected_hop list \<Rightarrow> redeem_error + (u64 \<times> u64 \<times> bytes)" where
  "propose L cfg c selected =
     (let grant_now = now_unix_secs (ci_grant_clock c) in
      if grant_now = 0 then Inl Unavailable
      else
      bindE (ok_or Unavailable (checked_add grant_now (du_secs (cc_grant_ttl cfg)))) (\<lambda>replay_until.
      bindE (case cc_grant_signer cfg of
               Some signer \<Rightarrow>
                 map_err (\<lambda>_. Unavailable)
                   (attach_grants (cl_crypto L) (ci_nonce c) signer (cc_grant_realm cfg) (cc_grant_ttl cfg) grant_now selected)
             | None \<Rightarrow> Inr selected) (\<lambda>granted.
      bindE (ok_or Unavailable (cl_to_json L (map sh_hop granted))) (\<lambda>proposed.
      Inr (grant_now, replay_until, proposed)))))"

definition redeem_logic ::
  "coord_libs \<Rightarrow> 's commit_fn \<Rightarrow> environment \<Rightarrow> coord_config \<Rightarrow> call_input \<Rightarrow> redeem_request \<Rightarrow> 's \<Rightarrow>
   (redeem_error + hop list) option \<times> 's" where
  "redeem_logic L commit env cfg c req s =
     (case check_token L env cfg c req of
        Inl e \<Rightarrow> (Some (Inl e), s)
      | Inr (epoch, msg) \<Rightarrow>
          (case select_path (ci_shuffle c) (cc_registry cfg) (cc_path_hops cfg) of
             None \<Rightarrow> (None, s)
           | Some None \<Rightarrow> (Some (Inl NoPath), s)
           | Some (Some selected) \<Rightarrow>
               (case propose L cfg c selected of
                  Inl e \<Rightarrow> (Some (Inl e), s)
                | Inr (grant_now, replay_until, proposed) \<Rightarrow>
                    (case commit epoch (api_to_hex msg) replay_until proposed grant_now (ci_seal c) s of
                       (CommitErr _, s1) \<Rightarrow> (Some (Inl Unavailable), s1)
                     | (CommitPanic, s1) \<Rightarrow> (None, s1)
                     | (CommitOk (Granted response _), s1) \<Rightarrow> (Some (ok_or AlreadyRedeemed (cl_from_json L response)), s1)
                     | (CommitOk AlreadySpent, s1) \<Rightarrow> (Some (Inl AlreadyRedeemed), s1)))))"

section \<open>The endpoints\<close>

primrec redeem_status :: "redeem_error \<Rightarrow> nat" where
  "redeem_status NotConfigured = 501"
| "redeem_status MalformedRequest = 400"
| "redeem_status BadToken = 401"
| "redeem_status AlreadyRedeemed = 409"
| "redeem_status Unavailable = 503"
| "redeem_status NoPath = 503"

text \<open>
  \<open>redeem\<close>: the extractors run in order, the address first and the body last; \<open>body\<close> is the JSON
  extractor's verdict, a status or the request. \<open>now\<close> is the limiter's reading of the clock.
\<close>

definition redeem ::
  "coord_libs \<Rightarrow> 's commit_fn \<Rightarrow> environment \<Rightarrow> coord_config \<Rightarrow> call_input \<Rightarrow> nat \<Rightarrow> parts \<Rightarrow> nat + redeem_request \<Rightarrow>
   's coord_state \<Rightarrow> (nat + hop list) option \<times> 's coord_state" where
  "redeem L commit env cfg c now p body st =
     (case from_request_parts p of
        Inl r \<Rightarrow> (Some (Inl (rejection_status r)), st)
      | Inr client_ip \<Rightarrow>
          (case body of
             Inl status \<Rightarrow> (Some (Inl status), st)
           | Inr req \<Rightarrow>
               (let (within, lim) = coord_check (ip_to_string client_ip) now (st_limiter st); st1 = st\<lparr>st_limiter := lim\<rparr> in
                if \<not> within then (Some (Inl 429), st1)
                else
                  let (r, s1) = redeem_logic L commit env cfg c req (st_nullifiers st1) in
                  (map_option (map_err redeem_status) r, st1\<lparr>st_nullifiers := s1\<rparr>))))"

fun unseen_measurements :: "bytes set \<Rightarrow> registry_node list \<Rightarrow> (wire_tee \<times> bytes) list" where
  "unseen_measurements seen [] = []"
| "unseen_measurements seen (n # ns) =
     (if rn_measurement n \<in> seen then unseen_measurements seen ns
      else (rn_tee n, rn_measurement n) # unseen_measurements (insert (rn_measurement n) seen) ns)"

definition measurements :: "coord_config \<Rightarrow> (wire_tee \<times> bytes) list" where
  "measurements cfg = unseen_measurements {} (nr_nodes (cc_registry cfg))"

section \<open>A redeemed path\<close>

lemma collect_results_Inr: "collect_results f xs = Inr ys \<longleftrightarrow> list_all2 (\<lambda>x y. f x = Inr y) xs ys"
  by (induction xs arbitrary: ys) (auto simp: list_all2_Cons1)

lemma collect_indices_Inr:
  "collect_results f [0..<n] = Inr ys \<longleftrightarrow> length ys = n \<and> (\<forall>i<n. f i = Inr (ys ! i))"
  by (auto simp: collect_results_Inr list_all2_conv_all_nth)

lemma attach_grants_Inr:
  assumes "attach_grants C nonce signer realm ttl now sel = Inr out"
  shows "length out = length sel" and "i < length sel \<Longrightarrow>
    \<exists>p n. path_neighbor sel i = Inr (p, n) \<and> grant_hop C signer realm ttl now (nonce i) (sel ! i) (p, n) = Inr (out ! i)"
proof -
  from assms obtain nbs where "collect_results (path_neighbor sel) [0..<length sel] = Inr nbs"
    "collect_results (\<lambda>i. grant_hop C signer realm ttl now (nonce i) (sel ! i) (nbs ! i)) [0..<length sel] = Inr out"
    by (auto simp: attach_grants_def)
  then have *: "length out = length sel" "\<forall>i<length sel. path_neighbor sel i = Inr (nbs ! i)"
    "\<forall>i<length sel. grant_hop C signer realm ttl now (nonce i) (sel ! i) (nbs ! i) = Inr (out ! i)"
    by (auto simp: collect_indices_Inr)
  show "length out = length sel" by (rule *)
  show "\<exists>p n. path_neighbor sel i = Inr (p, n) \<and> grant_hop C signer realm ttl now (nonce i) (sel ! i) (p, n) = Inr (out ! i)"
    if "i < length sel"
    using *(2,3) that by (cases "nbs ! i") auto
qed

text \<open>The neighbours a grant names: the addresses of the nodes before and after.\<close>

definition neighbours_of :: "(bytes \<times> u16) list \<Rightarrow> nat \<Rightarrow> ipv4addr option \<Rightarrow> socket_addr_v4 option \<Rightarrow> bool" where
  "neighbours_of eps i prev nxt \<longleftrightarrow>
     (if i = 0 then prev = None else \<exists>ip. parse_ipv4 (fst (eps ! (i - 1))) = Some ip \<and> prev = Some ip) \<and>
     (if Suc i < length eps then
        \<exists>ip. parse_ipv4 (fst (eps ! Suc i)) = Some ip \<and> nxt = Some (SocketAddrV4 ip (snd (eps ! Suc i)))
      else nxt = None)"

lemma path_neighbor_Inr:
  assumes "path_neighbor sel i = Inr (p, n)" and "i < length sel"
  shows "neighbours_of (map (\<lambda>s. (hp_host (sh_hop s), hp_port (sh_hop s))) sel) i p n"
proof -
  have "prev = p \<and> nxt = n" if "order_neighbors r prev nxt = Inr (p, n)" for r prev nxt
    using that by (cases "(r, prev, nxt)" rule: order_neighbors.cases) auto
  then have e: "previous_endpoint sel i = Inr p" "next_endpoint sel i = Inr n"
    using assms(1) by (auto simp: path_neighbor_def)
  have "if i = 0 then p = None else \<exists>ip. parse_ipv4 (hp_host (sh_hop (sel ! (i - 1)))) = Some ip \<and> p = Some ip"
    using e(1) by (auto simp: previous_endpoint_def Let_def split: if_splits)
  moreover have "if Suc i < length sel then \<exists>ip. parse_ipv4 (hp_host (sh_hop (sel ! Suc i))) = Some ip \<and>
      n = Some (SocketAddrV4 ip (hp_port (sh_hop (sel ! Suc i)))) else n = None"
    using e(2) by (auto simp: next_endpoint_def Let_def split: if_splits)
  ultimately show ?thesis using assms(2) by (auto simp: neighbours_of_def split: if_splits)
qed

lemma grant_hop_Inr:
  assumes "grant_hop C signer realm ttl now entropy s (p, n) = Inr out"
  obtains m spki_hex spki aud nonce g where
    "from_hex (trim (hp_measurement (sh_hop s))) = Some m" "length m = 48"
    "hp_tls_spki_sha256 (sh_hop s) = Some spki_hex" "from_hex spki_hex = Some spki" "length spki = 32"
    "audience_new realm (sh_node_id s) (grant_role_of (sh_intended_role s)) Masque (core_tee (hp_tee (sh_hop s))) m spki p n = Inr aud"
    "entropy = Some nonce" "grant_mint C signer aud nonce ttl now = Inr g"
    "out = s\<lparr>sh_hop := (sh_hop s)\<lparr>hp_grant := Some (to_hex (gr_token g)), hp_grant_nonce := Some (to_hex (gr_nonce g))\<rparr>\<rparr>"
  using assms unfolding grant_hop_def Let_def by (auto split: if_splits)

text \<open>The identity a node of the path checks a grant against.\<close>

definition identity_for :: "bytes \<Rightarrow> path_role \<Rightarrow> registry_node \<Rightarrow> node_identity \<Rightarrow> bool" where
  "identity_for realm role n ident \<longleftrightarrow>
     gi_realm ident = realm \<and> gi_node_id ident = rn_id n \<and> gi_role ident = grant_role_of role \<and> gi_transport ident = Masque \<and>
     gi_tee ident = core_tee (rn_tee n) \<and> from_hex (trim (rn_measurement n)) = Some (gi_measurement ident) \<and>
     (\<exists>h. rn_tls_spki_sha256 n = Some h \<and> from_hex h = Some (gi_tls_spki_sha256 ident))"

text \<open>
  A hop of a response is that of a node, with a grant for it: while the grant lives, the node accepts
  it under its own identity and learns the nonce and the neighbours on the path.
\<close>

definition granted_hop ::
  "crypto \<Rightarrow> verifier \<Rightarrow> bytes \<Rightarrow> duration \<Rightarrow> u64 \<Rightarrow> registry_node list \<Rightarrow> nat \<Rightarrow> hop \<Rightarrow> bool" where
  "granted_hop C v realm ttl now ns i h \<longleftrightarrow>
     (\<exists>aud tok nonce.
        h = (to_hop (ns ! i))\<lparr>hp_grant := Some (to_hex tok), hp_grant_nonce := Some (to_hex nonce)\<rparr> \<and>
        identity_for realm (for_position i (length ns)) (ns ! i) (au_node aud) \<and>
        neighbours_of (map (\<lambda>n. (rn_host n, rn_port n)) ns) i (au_previous_hop aud) (au_next_hop aud) \<and>
        (\<forall>t. unat now \<le> unat t + 30 \<and> unat t < unat now + unat (du_secs ttl) \<longrightarrow>
           (\<exists>vg. grant_verify_for_node C tok v (au_node aud) t = Inr vg \<and> vg_nonce vg = nonce \<and> vg_audience vg = aud)))"

lemma select_hops_nth:
  "i < length ns \<Longrightarrow> select_hops hops ns ! i = \<lparr>sh_hop = to_hop (ns ! i), sh_node_id = rn_id (ns ! i), sh_intended_role = for_position i hops\<rparr>"
  by (simp add: select_hops_def nth_enumerate_eq)

lemma to_hop_fields:
  "hp_measurement (to_hop n) = rn_measurement n" "hp_tls_spki_sha256 (to_hop n) = rn_tls_spki_sha256 n" "hp_tee (to_hop n) = rn_tee n"
  by (simp_all add: to_hop_def)

lemma select_hops_endpoints:
  "map (\<lambda>s. (hp_host (sh_hop s), hp_port (sh_hop s))) (select_hops hops ns) = map (\<lambda>n. (rn_host n, rn_port n)) ns"
  by (rule nth_equalityI) (simp_all add: select_hops_def nth_enumerate_eq to_hop_def)

lemma attach_grants_granted:
  assumes crypto: "crypto_ok C" and nonces: "\<And>i n. nonce i = Some n \<Longrightarrow> length n = 32"
    and trust: "map_of (gv_keys v) (signing_key_id C signer) = Some (public_key_bytes C signer)"
    and att: "attach_grants C nonce signer realm ttl now (select_hops (length ns) ns) = Inr out"
  shows "length out = length ns \<and> (\<forall>i<length ns. granted_hop C v realm ttl now ns i (sh_hop (out ! i)))"
proof (intro conjI allI impI)
  let ?sel = "select_hops (length ns) ns"
  have len: "length ?sel = length ns" by (simp add: select_hops_def)
  show "length out = length ns" using attach_grants_Inr(1) [OF att] len by simp
  fix i assume i: "i < length ns"
  then obtain p n where pn: "path_neighbor ?sel i = Inr (p, n)" "grant_hop C signer realm ttl now (nonce i) (?sel ! i) (p, n) = Inr (out ! i)"
    using attach_grants_Inr(2) [OF att, of i] len by auto
  have nb: "neighbours_of (map (\<lambda>n. (rn_host n, rn_port n)) ns) i p n"
    using path_neighbor_Inr [OF pn(1)] i len by (simp add: select_hops_endpoints)
  obtain m h spki aud no g where
    g: "from_hex (trim (rn_measurement (ns ! i))) = Some m" "length m = 48" "rn_tls_spki_sha256 (ns ! i) = Some h" "from_hex h = Some spki"
      "length spki = 32" "audience_new realm (rn_id (ns ! i)) (grant_role_of (for_position i (length ns))) Masque
        (core_tee (rn_tee (ns ! i))) m spki p n = Inr aud"
      "nonce i = Some no" "grant_mint C signer aud no ttl now = Inr g"
      "out ! i = (?sel ! i)\<lparr>sh_hop := (to_hop (ns ! i))\<lparr>hp_grant := Some (to_hex (gr_token g)), hp_grant_nonce := Some (to_hex (gr_nonce g))\<rparr>\<rparr>"
    by (rule grant_hop_Inr [OF pn(2)]) (simp add: select_hops_nth [OF i] to_hop_fields)
  have aud: "audience_ok aud" "au_previous_hop aud = p" "au_next_hop aud = n"
    and ident: "identity_for realm (for_position i (length ns)) (ns ! i) (au_node aud)"
    using g(6) [unfolded audience_new_Inr] g(1-5) by (auto simp: audience_ok_def identity_ok_def identity_for_def)
  have no: "gr_nonce g = no" using g(8) by (auto simp: grant_mint_eq signed_grant_def split: if_splits)
  have "\<exists>vg. grant_verify_for_node C (gr_token g) v (au_node aud) t = Inr vg \<and> vg_nonce vg = no \<and> vg_audience vg = aud"
    if "unat now \<le> unat t + 30" "unat t < unat now + unat (du_secs ttl)" for t
    using mint_verifies [OF crypto aud(1) nonces [OF g(7)] g(8) trust that] by simp
  then show "granted_hop C v realm ttl now ns i (sh_hop (out ! i))"
    unfolding granted_hop_def
    using g(9) ident nb aud no by (intro exI [of _ aud] exI [of _ "gr_token g"] exI [of _ no]) simp
qed

lemma redeem_logic_Inr:
  assumes "redeem_logic L commit env cfg c req s = (Some (Inr path), s1)"
  obtains epoch msg sel now until proposed resp new where
    "check_token L env cfg c req = Inr (epoch, msg)" "config_from_hex (rr_msg req) = Some msg"
    "select_path (ci_shuffle c) (cc_registry cfg) (cc_path_hops cfg) = Some (Some sel)" "propose L cfg c sel = Inr (now, until, proposed)"
    "commit epoch (api_to_hex msg) until proposed now (ci_seal c) s = (CommitOk (Granted resp new), s1)" "cl_from_json L resp = Some path"
proof -
  from assms obtain epoch msg sel now until proposed resp new where
    *: "check_token L env cfg c req = Inr (epoch, msg)"
      "select_path (ci_shuffle c) (cc_registry cfg) (cc_path_hops cfg) = Some (Some sel)" "propose L cfg c sel = Inr (now, until, proposed)"
      "commit epoch (api_to_hex msg) until proposed now (ci_seal c) s = (CommitOk (Granted resp new), s1)" "cl_from_json L resp = Some path"
    by (auto simp: redeem_logic_def split: sum.splits option.splits prod.splits commit_result.splits commit_outcome.splits)
  moreover have "config_from_hex (rr_msg req) = Some msg"
    using *(1) by (auto simp: check_token_def Let_def split: if_splits)
  ultimately show ?thesis using that by blast
qed

lemma propose_Inr:
  assumes "propose L cfg c sel = Inr (now, until, proposed)"
  shows "now = now_unix_secs (ci_grant_clock c)" and "\<exists>granted. cl_to_json L (map sh_hop granted) = Some proposed \<and>
    (case cc_grant_signer cfg of
       Some signer \<Rightarrow> attach_grants (cl_crypto L) (ci_nonce c) signer (cc_grant_realm cfg) (cc_grant_ttl cfg) now sel = Inr granted
     | None \<Rightarrow> granted = sel)"
  using assms by (auto simp: propose_def Let_def split: if_splits option.splits)

lemma propose_Inl: "propose L cfg c sel = Inl e \<Longrightarrow> e = Unavailable"
  by (auto simp: propose_def Let_def bindE_def ok_or_def map_err_def split: if_splits option.splits sum.splits)

lemma check_token_Inl: "check_token L env cfg c req = Inl e \<Longrightarrow> e \<noteq> AlreadyRedeemed"
  by (auto simp: check_token_def Let_def bindE_def ok_or_def split: if_splits option.splits sum.splits)

section \<open>The ledger behind the API\<close>

definition nonce_ok :: "bytes option \<Rightarrow> bool" where
  "nonce_ok entropy \<longleftrightarrow> (\<forall>n. entropy = Some n \<longrightarrow> length n = NF_NONCE_LEN)"

datatype redeem_op = RedeemOp call_input redeem_request | PruneOp u64
datatype redeem_out = Redeemed "(redeem_error + hop list) option" | PrunedResults nat

fun redeem_step ::
  "coord_libs \<Rightarrow> 's commit_fn \<Rightarrow> (u64 \<Rightarrow> 's \<Rightarrow> nat \<times> 's) \<Rightarrow> environment \<Rightarrow> coord_config \<Rightarrow> redeem_op \<Rightarrow> 's \<Rightarrow> redeem_out \<times> 's" where
  "redeem_step L commit prune env cfg (RedeemOp c req) s =
     (let (r, s1) = redeem_logic L commit env cfg c req s in (Redeemed r, s1))"
| "redeem_step L commit prune env cfg (PruneOp now) s = (let (n, s1) = prune now s in (PrunedResults n, s1))"

fun seal_ok :: "redeem_op \<Rightarrow> bool" where
  "seal_ok (RedeemOp c req) = nonce_ok (ci_seal c)"
| "seal_ok (PruneOp now) = True"

text \<open>
  What the API relies on of a ledger: the response a token was granted is recalled, whatever is
  committed or pruned later, and a later grant for the token is the response that is recalled.
\<close>

locale ledger =
  fixes commit :: "'s commit_fn" and prune :: "u64 \<Rightarrow> 's \<Rightarrow> nat \<times> 's" and recalls :: "'s \<Rightarrow> bytes \<Rightarrow> bytes \<Rightarrow> bool"
    and trusted :: bool
  assumes grant_recalled: "trusted \<Longrightarrow> nonce_ok entropy \<Longrightarrow>
      commit epoch k until resp now entropy s = (CommitOk (Granted r new), s1) \<Longrightarrow> recalls s1 k r"
    and commit_keeps: "recalls s k r \<Longrightarrow> commit epoch k2 until resp now entropy s = (out, s1) \<Longrightarrow> recalls s1 k r"
    and replay_same: "recalls s k r \<Longrightarrow> commit epoch k until resp now entropy s = (CommitOk (Granted r2 new), s1) \<Longrightarrow> r2 = r"
    and prune_keeps: "recalls s k r \<Longrightarrow> recalls (snd (prune now s)) k r"
begin

lemma redeem_logic_keeps: "recalls s k r \<Longrightarrow> recalls (snd (redeem_logic L commit env cfg c req s)) k r"
  by (auto simp: redeem_logic_def split: sum.splits option.splits prod.splits commit_result.splits commit_outcome.splits intro: commit_keeps)

lemma redeem_step_keeps: "recalls s k r \<Longrightarrow> recalls (snd (redeem_step L commit prune env cfg i s)) k r"
  using redeem_logic_keeps [of s k r L env cfg] prune_keeps [of s k r] by (cases i) (auto simp: case_prod_unfold Let_def)

lemma redeem_run_keeps: "recalls s k r \<Longrightarrow> recalls (snd (run (redeem_step L commit prune env cfg) is s)) k r"
  by (induction "is" arbitrary: s) (simp_all add: run_Cons redeem_step_keeps del: run.simps(2))

lemma redeem_logic_recalls:
  assumes "trusted" and "nonce_ok (ci_seal c)" and "redeem_logic L commit env cfg c req s = (Some (Inr path), s1)"
  shows "\<exists>msg r. config_from_hex (rr_msg req) = Some msg \<and> recalls s1 (api_to_hex msg) r \<and> cl_from_json L r = Some path"
  using redeem_logic_Inr [OF assms(3)] grant_recalled [OF assms(1,2)] by metis

lemma redeem_logic_same:
  assumes "recalls s (api_to_hex msg) r" and "config_from_hex (rr_msg req) = Some msg"
    and "redeem_logic L commit env cfg c req s = (Some (Inr path), s1)"
  shows "cl_from_json L r = Some path"
  using redeem_logic_Inr [OF assms(3)] replay_same [OF assms(1)] assms(2) by (metis option.inject)

theorem single_path:
  assumes "trusted" and "list_all seal_ok is" and "i < j" and "j < length is"
    and "is ! i = RedeemOp c1 q1" and "is ! j = RedeemOp c2 q2" and "config_from_hex (rr_msg q1) = config_from_hex (rr_msg q2)"
    and "fst (run (redeem_step L commit prune env cfg) is s) ! i = Redeemed (Some (Inr p1))"
    and "fst (run (redeem_step L commit prune env cfg) is s) ! j = Redeemed (Some (Inr p2))"
  shows "p1 = p2"
proof -
  let ?step = "redeem_step L commit prune env cfg" and ?st = "\<lambda>n. snd (run (redeem_step L commit prune env cfg) (take n is) s)"
  have i: "i < length is" using assms(3,4) by simp
  have "nonce_ok (ci_seal c1)" using assms(2,5) i by (auto simp: list_all_length dest!: spec [of _ i])
  moreover obtain s1 where s1: "redeem_logic L commit env cfg c1 q1 (?st i) = (Some (Inr p1), s1)"
    using run_nth [OF i, of ?step s] assms(5,8) by (auto simp: case_prod_unfold prod_eq_iff Let_def)
  ultimately obtain msg r where r: "config_from_hex (rr_msg q1) = Some msg" "recalls s1 (api_to_hex msg) r" "cl_from_json L r = Some p1"
    using redeem_logic_recalls [OF assms(1)] by blast
  have "?st (Suc i) = s1" using s1 i assms(5) by (simp add: take_Suc_conv_app_nth run_append)
  moreover have "take j is = take (Suc i) is @ take (j - Suc i) (drop (Suc i) is)"
    using assms(3) take_add [of "Suc i" "j - Suc i" "is"] by simp
  ultimately have "recalls (?st j) (api_to_hex msg) r" using redeem_run_keeps [OF r(2)] by (simp add: run_append)
  moreover obtain s2 where "redeem_logic L commit env cfg c2 q2 (?st j) = (Some (Inr p2), s2)"
    using run_nth [OF assms(4), of ?step s] assms(6,9) by (auto simp: case_prod_unfold prod_eq_iff Let_def)
  ultimately have "cl_from_json L r = Some p2" using redeem_logic_same r(1) assms(7) by metis
  then show ?thesis using r(3) by simp
qed

end

text \<open>The volatile store is such a ledger, when the AEAD behaves as documented.\<close>

definition memory_recalls :: "aead \<Rightarrow> memory_store \<Rightarrow> bytes \<Rightarrow> bytes \<Rightarrow> bool" where
  "memory_recalls A m k resp \<longleftrightarrow> (\<exists>r until. map_of (ms_records m) k = Some r \<and> spent A (ms_key m) k resp until r)"

lemma memory_commit_fresh:
  assumes "aead_ok A" and "nonce_ok entropy" and "map_of (ms_records m) k = None"
    and "memory_commit A epoch k until resp now entropy m = (out, m1)"
  shows "(\<exists>e. out = CommitErr e) \<and> m1 = m \<or>
    out = CommitOk (Granted resp True) \<and> ms_key m1 = ms_key m \<and> (\<exists>r. map_of (ms_records m1) k = Some r \<and> replays A (ms_key m) k resp until r)"
proof (cases "\<exists>ct. validate_commit k until resp now = Inr () \<and> seal A (ms_key m) epoch k until resp entropy = Inr ct")
  case False
  then show ?thesis using assms(3,4) by (auto simp: memory_commit_def split: sum.splits)
next
  case True
  then obtain ct where v: "validate_commit k until resp now = Inr ()" and ct: "seal A (ms_key m) epoch k until resp entropy = Inr ct" by blast
  obtain n where n: "entropy = Some n" by (rule seal_Inr [OF ct])
  define r where "r = \<lparr>sr_epoch = epoch, sr_replay_until = Some until, sr_ciphertext = Some ct\<rparr>"
  have "length n = NF_NONCE_LEN" using assms(2) n by (simp add: nonce_ok_def)
  then have rep: "replays A (ms_key m) k resp until r"
    using open_seal(1) [OF assms(1) ct [unfolded n]] by (simp add: replays_def r_def)
  moreover have "now < until" using v by (simp add: validate_commit_Inr)
  ultimately show ?thesis
    using assms(3,4) v ct live_outcome_replays [OF rep, of now True]
    by (auto simp: memory_commit_def expect_live_def r_def [symmetric] update_conv')
qed

lemma memory_commit_err: "memory_commit A epoch k until resp now entropy m = (CommitErr e, m1) \<Longrightarrow> m1 = m"
  by (auto simp: memory_commit_def expect_live_def Let_def split: sum.splits option.splits)

lemma memory_commit_granted:
  assumes "aead_ok A" and "nonce_ok entropy" and "memory_commit A epoch k until resp now entropy m = (CommitOk (Granted r new), m1)"
  shows "memory_recalls A m1 k r"
proof (cases "map_of (ms_records m) k")
  case None
  then show ?thesis using memory_commit_fresh [OF assms(1,2) None assms(3)] by (auto simp: memory_recalls_def spent_def)
next
  case (Some old)
  then have "m1 = m" "live_outcome A (ms_key m) k old now False = Some (Granted r new)"
    using assms(3) by (auto simp: memory_commit_def split: sum.splits option.splits)
  then have "\<exists>until2. replays A (ms_key m) k r until2 old"
    by (auto simp: live_outcome_def live_ciphertext_def replays_def split: option.splits sum.splits if_splits)
  then show ?thesis using Some \<open>m1 = m\<close> by (auto simp: memory_recalls_def spent_def)
qed

lemma memory_commit_recalls:
  assumes "memory_recalls A m k r" and "memory_commit A epoch k2 until resp now entropy m = (out, m1)"
  shows "memory_recalls A m1 k r" and "k2 = k \<Longrightarrow> out = CommitOk (Granted r2 new) \<Longrightarrow> r2 = r"
proof -
  from assms(1) obtain rec u where rec: "map_of (ms_records m) k = Some rec" "spent A (ms_key m) k r u rec"
    by (auto simp: memory_recalls_def)
  have key: "ms_key m1 = ms_key m"
    using assms(2) by (auto simp: memory_commit_def Let_def split: sum.splits option.splits)
  show "memory_recalls A m1 k r"
    using memory_commit_spent [OF assms(2) rec] key by (auto simp: memory_recalls_def)
  show "r2 = r" if "k2 = k" "out = CommitOk (Granted r2 new)"
  proof -
    have "validate_commit k until resp now = Inr ()"
      using assms(2) that by (auto simp: memory_commit_def split: sum.splits)
    then show ?thesis using memory_commit_spent [OF assms(2) rec] that by (auto split: if_splits)
  qed
qed

lemma memory_prune_recalls: "memory_recalls A m k r \<Longrightarrow> memory_recalls A (snd (memory_prune now m)) k r"
  using memory_op_spent [of A "PruneExpired now" m _ _ k _ r]
  by (fastforce simp: memory_recalls_def case_prod_unfold Let_def)

interpretation memory_ledger: ledger "memory_commit A" memory_prune "memory_recalls A" "aead_ok A" for A
  by unfold_locales (auto intro: memory_commit_granted memory_commit_recalls memory_prune_recalls)

section \<open>What redemption promises\<close>

definition json_ok :: "coord_libs \<Rightarrow> bool" where
  "json_ok L \<longleftrightarrow> (\<forall>p bs. cl_to_json L p = Some bs \<longrightarrow> cl_from_json L bs = Some p)"

text \<open>
  C2: a redeemed path can be used. When a token that is not in the ledger yet is redeemed, the
  response is a trust-split path of live nodes of the registry, and every hop of it carries a grant
  that the node of that hop accepts under its own identity until the grant expires, with the nonce of
  the response and with the addresses of the nodes before and after it on this path.
\<close>

theorem redeemed_path_granted:
  assumes "redeem_logic L (memory_commit A) env cfg c req m = (Some (Inr path), m1)"
    and "config_from_hex (rr_msg req) = Some msg" and "map_of (ms_records m) (api_to_hex msg) = None"
    and "cc_grant_signer cfg = Some signer"
    and "map_of (gv_keys v) (signing_key_id (cl_crypto L) signer) = Some (public_key_bytes (cl_crypto L) signer)"
    and "crypto_ok (cl_crypto L)" and "aead_ok A" and "json_ok L" and "nonce_ok (ci_seal c)"
    and "\<forall>i n. ci_nonce c i = Some n \<longrightarrow> length n = 32"
  shows "\<exists>ns. trust_split (cc_registry cfg) (cc_path_hops cfg) ns \<and> length path = cc_path_hops cfg \<and>
    (\<forall>i<length path. granted_hop (cl_crypto L) v (cc_grant_realm cfg) (cc_grant_ttl cfg) (now_unix_secs (ci_grant_clock c)) ns i (path ! i))"
proof -
  from redeem_logic_Inr [OF assms(1)] assms(2) obtain epoch sel now until proposed resp new where
    sel: "select_path (ci_shuffle c) (cc_registry cfg) (cc_path_hops cfg) = Some (Some sel)" "propose L cfg c sel = Inr (now, until, proposed)"
    and com: "memory_commit A epoch (api_to_hex msg) until proposed now (ci_seal c) m = (CommitOk (Granted resp new), m1)"
      "cl_from_json L resp = Some path"
    by (metis option.inject)
  have resp: "resp = proposed" using memory_commit_fresh [OF assms(7,9,3) com(1)] by auto
  from sel(1) select_path_cases [of "ci_shuffle c" "cc_registry cfg" "cc_path_hops cfg"] obtain ns where ns: "trust_split (cc_registry cfg) (cc_path_hops cfg) ns" "sel = select_hops (cc_path_hops cfg) ns"
    by auto
  then have len: "length ns = cc_path_hops cfg" by (simp add: trust_split_def)
  from propose_Inr [OF sel(2)] assms(4) obtain out where now: "now = now_unix_secs (ci_grant_clock c)"
    and out: "cl_to_json L (map sh_hop out) = Some proposed"
      "attach_grants (cl_crypto L) (ci_nonce c) signer (cc_grant_realm cfg) (cc_grant_ttl cfg) now (select_hops (length ns) ns) = Inr out"
    using ns(2) len by auto
  have "path = map sh_hop out" using out(1) com(2) resp assms(8) by (auto simp: json_ok_def)
  with attach_grants_granted [OF assms(6) _ assms(5) out(2)] assms(10) show ?thesis
    using ns(1) len now by (intro exI [of _ ns]) auto
qed

text \<open>
  C1: a token buys one path. In any sequence of redemptions and prunings of one Coordinator, all
  the paths returned for one token are the same path, whatever spelling of the token the requests use,
  whatever the clocks and the entropy source give, and whatever is redeemed in between.
\<close>

theorem redeem_single_path:
  assumes "aead_ok A" and "list_all seal_ok is" and "i < j" and "j < length is"
    and "is ! i = RedeemOp c1 q1" and "is ! j = RedeemOp c2 q2" and "config_from_hex (rr_msg q1) = config_from_hex (rr_msg q2)"
    and "outs = fst (run (redeem_step L (memory_commit A) memory_prune env cfg) is (memory_new key))"
    and "outs ! i = Redeemed (Some (Inr p1))" and "outs ! j = Redeemed (Some (Inr p2))"
  shows "p1 = p2"
  using assms(9,10) unfolding assms(8) by (rule memory_ledger.single_path [OF assms(1-7)])

text \<open>
  C37: in a Coordinator whose ledger is the volatile store, a redemption answers, and a failed one does
  not cost the token: every error but \<open>AlreadyRedeemed\<close> leaves the ledger as it was, and
  \<open>AlreadyRedeemed\<close> is only answered for a token that was in the ledger before.
\<close>

theorem redeem_failure_keeps_token:
  assumes "aead_ok A" and "json_ok L" and "nonce_ok (ci_seal c)"
  shows "\<exists>r m1. redeem_logic L (memory_commit A) env cfg c req m = (Some r, m1) \<and>
    (\<forall>e. r = Inl e \<longrightarrow>
       (if e = AlreadyRedeemed then \<exists>msg. config_from_hex (rr_msg req) = Some msg \<and> map_of (ms_records m) (api_to_hex msg) \<noteq> None
        else m1 = m))"
proof (cases "check_token L env cfg c req")
  case (Inl e)
  then show ?thesis using check_token_Inl [OF Inl] by (simp add: redeem_logic_def)
next
  case (Inr x)
  obtain epoch msg where x: "x = (epoch, msg)" by (cases x)
  have msg: "config_from_hex (rr_msg req) = Some msg" using Inr x by (auto simp: check_token_def Let_def split: if_splits)
  note tok = Inr [unfolded x]
  show ?thesis
  proof (cases "select_path (ci_shuffle c) (cc_registry cfg) (cc_path_hops cfg) = Some None")
    case True
    then show ?thesis using tok by (simp add: redeem_logic_def)
  next
    case False
    with select_path_cases obtain sel where sel: "select_path (ci_shuffle c) (cc_registry cfg) (cc_path_hops cfg) = Some (Some sel)" by metis
    show ?thesis
    proof (cases "propose L cfg c sel")
      case (Inl e)
      then show ?thesis using tok sel propose_Inl [OF Inl] by (simp add: redeem_logic_def)
    next
      case (Inr y)
      then obtain now until proposed where pr: "propose L cfg c sel = Inr (now, until, proposed)" by (cases y) auto
      obtain out m1 where com: "memory_commit A epoch (api_to_hex msg) until proposed now (ci_seal c) m = (out, m1)"
        by (cases "memory_commit A epoch (api_to_hex msg) until proposed now (ci_seal c) m")
      have json: "cl_from_json L proposed = Some p" if "cl_to_json L p = Some proposed" for p
        using assms(2) that by (simp add: json_ok_def)
      have "\<exists>g :: selected_hop list. cl_to_json L (map sh_hop g) = Some proposed" using propose_Inr(2) [OF pr] by blast
      then obtain g :: "selected_hop list" where g: "cl_to_json L (map sh_hop g) = Some proposed" ..
      note json = json [OF g]
      have "out \<noteq> CommitPanic" using memory_commit_new(1) [OF assms(1) _ com] assms(3) by (auto simp: nonce_ok_def)
      moreover have "out = CommitErr e \<Longrightarrow> m1 = m" for e using memory_commit_err com by blast
      moreover have "\<not> (\<exists>e. out = CommitErr e) \<Longrightarrow> map_of (ms_records m) (api_to_hex msg) = None \<Longrightarrow> out = CommitOk (Granted proposed True)"
        using memory_commit_fresh [OF assms(1,3) _ com] by auto
      ultimately show ?thesis
        using tok sel pr com json msg
        by (cases out; cases "map_of (ms_records m) (api_to_hex msg)")
           (auto simp: redeem_logic_def ok_or_def split: commit_outcome.splits option.splits)
    qed
  qed
qed

section \<open>Evaluation\<close>

definition demo_config :: coord_config where
  "demo_config =
     \<lparr>cc_addr = SockV4 (Ipv4Addr 127 0 0 1) 9090, cc_registry = \<lparr>nr_nodes = release_nodes, nr_dead = {}\<rparr>, cc_path_hops = 2,
      cc_verifier = Some \<lparr>tv_keys = [(9, [1])]\<rparr>, cc_nullifier_path = None, cc_nullifier_dir = None,
      cc_grant_signer = Some demo_key, cc_grant_realm = [97], cc_grant_ttl = demo_ttl,
      cc_redemption_result_key = replicate 32 9, cc_nullifier_warn_at = DEFAULT_NULLIFIER_WARN_AT\<rparr>"

definition demo_call :: call_input where
  "demo_call =
     \<lparr>ci_expiry_clock = Some \<lparr>du_secs = 1000, du_nanos = 0\<rparr>, ci_grant_clock = Some \<lparr>du_secs = 1000, du_nanos = 0\<rparr>, ci_shuffle = (\<lambda>_. None),
      ci_nonce = (\<lambda>_. Some (replicate 32 5)), ci_seal = Some (replicate NF_NONCE_LEN 0)\<rparr>"

definition demo_msg :: bytes where
  "demo_msg = V2_MAGIC @ to_be 8 (2000 :: u64) @ replicate 20 0"

definition demo_request :: redeem_request where
  "demo_request = \<lparr>rr_msg = to_hex demo_msg, rr_token = to_hex (1 # demo_msg)\<rparr>"

text \<open>A JSON codec that knows one response.\<close>

definition demo_path :: "hop list" where
  "demo_path =
     (case attach_grants demo_crypto (\<lambda>_. Some (replicate 32 5)) demo_key [97] demo_ttl 1000 (select_hops 2 release_nodes) of
        Inr out \<Rightarrow> map sh_hop out | Inl _ \<Rightarrow> [])"

definition demo_libs :: coord_libs where
  "demo_libs =
     \<lparr>cl_rsa = demo_rsa, cl_crypto = demo_crypto, cl_to_json = (\<lambda>p. if p = demo_path then Some [1] else None),
      cl_from_json = (\<lambda>bs. if bs = [1] then Some demo_path else None)\<rparr>"

lemma demo_json_ok: "json_ok demo_libs"
  by (auto simp: json_ok_def demo_libs_def split: if_splits)

lemma hex_graphic: "list_all graphic (to_hex bs)"
  using to_hex_lower [of bs] by (auto simp: list_all_iff lower_hex_digit_def graphic_def word_le_nat_alt)

lemma demo_attach:
  "\<exists>out. attach_grants demo_crypto (\<lambda>_. Some (replicate 32 5)) demo_key [97] demo_ttl 1000 (select_hops 2 release_nodes) = Inr out"
proof -
  let ?sel = "select_hops 2 release_nodes"
  have idx: "[0..<length ?sel] = [0, 1]" by (simp add: select_hops_def release_nodes_def)
  have hop: "\<exists>s'. grant_hop demo_crypto demo_key [97] demo_ttl 1000 (Some (replicate 32 5)) s (p, n) = Inr s'"
    if "hp_measurement (sh_hop s) = to_hex (replicate 48 0)" "hp_tls_spki_sha256 (sh_hop s) = Some (to_hex (replicate 32 0))"
      "identifier_ok (sh_node_id s)" "hops_ok (grant_role_of (sh_intended_role s)) p n" for s p n
  proof -
    note h = that
    have "identifier_ok [97]" by (simp add: identifier_ok_def is_edge_def is_inner_def is_ascii_lowercase_def)
    moreover have "\<exists>g. grant_mint demo_crypto demo_key aud (replicate 32 5) demo_ttl 1000 = Inr g"
      if "identifier_ok (gi_realm (au_node aud))" "identifier_ok (gi_node_id (au_node aud))" for aud
      using that by (simp add: grant_mint_eq demo_ttl_def ttl_ok_def)
    moreover obtain aud where "audience_new [97] (sh_node_id s) (grant_role_of (sh_intended_role s)) Masque
        (core_tee (hp_tee (sh_hop s))) (replicate 48 0) (replicate 32 0) p n = Inr aud"
      "gi_realm (au_node aud) = [97]" "gi_node_id (au_node aud) = sh_node_id s"
      using h(3,4) calculation(1) by (simp add: audience_new_Inr)
    moreover obtain g where "grant_mint demo_crypto demo_key aud (replicate 32 5) demo_ttl 1000 = Inr g"
      using calculation h(3) by metis
    ultimately show ?thesis
      using h by (simp add: grant_hop_def trim_graphic hex_graphic Let_def)
  qed
  have "identifier_ok [97]" "identifier_ok [98]" by (simp_all add: identifier_ok_def is_edge_def is_inner_def is_ascii_lowercase_def)
  note ids = this
  have 0: "path_neighbor ?sel 0 = Inr (None, Some (SocketAddrV4 (Ipv4Addr 192 0 2 20) 443))"
    and 1: "path_neighbor ?sel 1 = Inr (Some (Ipv4Addr 192 0 2 10), None)"
    by (simp_all add: path_neighbor_def previous_endpoint_def next_endpoint_def select_hops_def release_nodes_def release_node_def
        to_hop_def for_position_def del: ipv4_to_string.simps)
  obtain a where a: "grant_hop demo_crypto demo_key [97] demo_ttl 1000 (Some (replicate 32 5)) (?sel ! 0)
      (None, Some (SocketAddrV4 (Ipv4Addr 192 0 2 20) 443)) = Inr a"
    using hop [of "?sel ! 0" None "Some (SocketAddrV4 (Ipv4Addr 192 0 2 20) 443)"] ids
    by (auto simp: select_hops_def release_nodes_def release_node_def to_hop_def for_position_def hops_ok_def)
  obtain b where b: "grant_hop demo_crypto demo_key [97] demo_ttl 1000 (Some (replicate 32 5)) (?sel ! 1)
      (Some (Ipv4Addr 192 0 2 10), None) = Inr b"
    using hop [of "?sel ! 1" "Some (Ipv4Addr 192 0 2 10)" None] ids
    by (auto simp: select_hops_def release_nodes_def release_node_def to_hop_def for_position_def hops_ok_def)
  show ?thesis unfolding attach_grants_def idx using 0 1 a b by simp
qed

lemma demo_select: "select_path (\<lambda>_. None) \<lparr>nr_nodes = release_nodes, nr_dead = {}\<rparr> 2 = Some (Some (select_hops 2 release_nodes))"
proof -
  let ?r = "\<lparr>nr_nodes = release_nodes, nr_dead = {}\<rparr>"
  have "ns = release_nodes" if "trust_split ?r 2 ns" for ns
  proof -
    from that obtain a b where ab: "ns = [a, b]" by (auto simp: trust_split_def length_Suc_conv numeral_2_eq_2)
    have "rn_role (ns ! 0) = RoleEntry" "rn_role (ns ! 1) = RoleExit" "set ns \<subseteq> set release_nodes"
      using that by (auto simp: trust_split_def for_position_def)
    then show ?thesis by (auto simp: ab release_nodes_def release_node_def)
  qed
  then show ?thesis using select_path_cases [of "\<lambda>_. None" ?r 2] release_trust_split by auto
qed

lemma api_to_hex_eq: "api_to_hex = to_hex"
  by (rule ext) (simp add: api_to_hex_def to_hex_def fmt_02x_hex_byte [abs_def])

lemma demo_msg_length [simp]: "length demo_msg = 32"
  by (simp add: demo_msg_def V2_MAGIC_def)

lemma demo_check: "check_token demo_libs env demo_config demo_call demo_request = Inr (9, demo_msg)"
proof -
  have hex: "config_from_hex (to_hex bs) = Some bs" for bs
    using coordinator_hex.dec_enc [of bs] by (simp add: api_to_hex_eq)
  have "is_v2_message demo_msg" by (simp add: is_v2_message_def demo_msg_def V2_MAGIC_def)
  moreover have "v2_message_is_current demo_msg 1000"
    using calculation by (simp add: v2_message_is_current_def demo_msg_def V2_MAGIC_def of_be_to_be saturating_add_def
        V2_VALIDITY_SECS_def V2_EPOCH_SECS_def)
  ultimately show ?thesis
    using hex [of demo_msg] hex [of "1 # demo_msg"] by (simp add: check_token_def demo_config_def demo_request_def demo_call_def now_unix_secs_for_expiry_def demo_libs_def
        demo_rsa_def verify_with_epoch_def)
qed

lemma demo_propose: "propose demo_libs demo_config demo_call (select_hops 2 release_nodes) = Inr (1000, 1000 + du_secs demo_ttl, [1])"
proof -
  obtain out where out: "attach_grants demo_crypto (\<lambda>_. Some (replicate 32 5)) demo_key [97] demo_ttl 1000 (select_hops 2 release_nodes) = Inr out"
    using demo_attach by blast
  then have "map sh_hop out = demo_path" by (simp add: demo_path_def)
  with out show ?thesis
    by (simp add: propose_def demo_config_def demo_call_def now_unix_secs_def checked_add_def demo_ttl_def demo_libs_def)
qed

text \<open>Redeeming the token on a store, in terms of the commit alone.\<close>

lemma demo_redeem:
  "redeem_logic demo_libs commit env demo_config demo_call demo_request s =
     (case commit 9 (to_hex demo_msg) (1000 + du_secs demo_ttl) [1] 1000 (Some (replicate NF_NONCE_LEN 0)) s of
        (CommitErr _, s1) \<Rightarrow> (Some (Inl Unavailable), s1)
      | (CommitPanic, s1) \<Rightarrow> (None, s1)
      | (CommitOk (Granted response _), s1) \<Rightarrow> (Some (if response = [1] then Inr demo_path else Inl AlreadyRedeemed), s1)
      | (CommitOk AlreadySpent, s1) \<Rightarrow> (Some (Inl AlreadyRedeemed), s1))"
proof -
  have "select_path (ci_shuffle demo_call) (cc_registry demo_config) (cc_path_hops demo_config) = Some (Some (select_hops 2 release_nodes))"
    using demo_select by (simp add: demo_call_def demo_config_def)
  moreover have "ci_seal demo_call = Some (replicate NF_NONCE_LEN 0)" by (simp add: demo_call_def)
  moreover have "ok_or AlreadyRedeemed (cl_from_json demo_libs r) = (if r = [1] then Inr demo_path else Inl AlreadyRedeemed)" for r
    by (simp add: demo_libs_def)
  ultimately show ?thesis
    by (simp add: redeem_logic_def demo_check demo_propose api_to_hex_eq split: prod.split commit_result.split commit_outcome.split)
qed

lemma demo_validate: "validate_commit (to_hex demo_msg) (1000 + du_secs demo_ttl) [1] 1000 = Inr ()"
  using to_hex_lower by (auto simp: validate_commit_Inr demo_ttl_def bad_length_def MAX_REPLAY_RESULT_BYTES_def)

lemma demo_first_redeem:
  obtains m r where "memory_commit demo_aead 9 (to_hex demo_msg) (1000 + du_secs demo_ttl) [1] 1000 (Some (replicate NF_NONCE_LEN 0))
      (memory_new (replicate 32 9)) = (CommitOk (Granted [1] True), m)"
    and "map_of (ms_records m) (to_hex demo_msg) = Some r" and "replays demo_aead (ms_key m) (to_hex demo_msg) [1] (1000 + du_secs demo_ttl) r"
proof -
  let ?m = "memory_new (replicate 32 9)"
  obtain out m where c: "memory_commit demo_aead 9 (to_hex demo_msg) (1000 + du_secs demo_ttl) [1] 1000 (Some (replicate NF_NONCE_LEN 0)) ?m = (out, m)"
    by fastforce
  have fresh: "map_of (ms_records ?m) (to_hex demo_msg) = None" by (simp add: memory_new_def with_partitioning_def)
  obtain ct where "seal demo_aead (ms_key ?m) 9 (to_hex demo_msg) (1000 + du_secs demo_ttl) [1] (Some (replicate NF_NONCE_LEN 0)) = Inr ct"
    using seal_total [OF demo_aead_ok, of "replicate 32 9" "[1]" "replicate NF_NONCE_LEN 0" 9 "to_hex demo_msg" "1000 + du_secs demo_ttl"]
    by (auto simp: memory_new_def with_partitioning_def bad_length_def MAX_REPLAY_RESULT_BYTES_def)
  then have "out \<noteq> CommitErr e" for e
    using c fresh demo_validate by (auto simp: memory_commit_def expect_live_def Let_def split: option.splits)
  with memory_commit_fresh [OF demo_aead_ok _ fresh c] c show ?thesis using that by (auto simp: nonce_ok_def)
qed

theorem redeemed_path_granted_witness:
  "\<exists>m1. redeem_logic demo_libs (memory_commit demo_aead) (\<lambda>_. None) demo_config demo_call demo_request (memory_new (replicate 32 9))
      = (Some (Inr demo_path), m1) \<and>
    (\<exists>ns. \<forall>i<length demo_path. granted_hop demo_crypto \<lparr>gv_keys = [(signing_key_id demo_crypto demo_key, public_key_bytes demo_crypto demo_key)]\<rparr>
       [97] demo_ttl 1000 ns i (demo_path ! i))"
proof -
  obtain m where m: "redeem_logic demo_libs (memory_commit demo_aead) (\<lambda>_. None) demo_config demo_call demo_request (memory_new (replicate 32 9))
      = (Some (Inr demo_path), m)"
    by (rule demo_first_redeem) (simp add: demo_redeem)
  have "config_from_hex (rr_msg demo_request) = Some demo_msg"
    using coordinator_hex.dec_enc [of demo_msg] by (simp add: demo_request_def api_to_hex_eq)
  from redeemed_path_granted [OF m this, of demo_key "\<lparr>gv_keys = [(signing_key_id demo_crypto demo_key, public_key_bytes demo_crypto demo_key)]\<rparr>"]
    demo_crypto_ok demo_aead_ok demo_json_ok
  obtain ns where "\<forall>i<length demo_path. granted_hop demo_crypto
      \<lparr>gv_keys = [(signing_key_id demo_crypto demo_key, public_key_bytes demo_crypto demo_key)]\<rparr> [97] demo_ttl 1000 ns i (demo_path ! i)"
    by (auto simp: memory_new_def with_partitioning_def demo_config_def demo_libs_def demo_call_def nonce_ok_def now_unix_secs_def)
  with m show ?thesis by blast
qed

theorem redeem_single_path_witness:
  "\<exists>p. fst (run (redeem_step demo_libs (memory_commit demo_aead) memory_prune (\<lambda>_. None) demo_config)
     [RedeemOp demo_call demo_request, RedeemOp demo_call demo_request] (memory_new (replicate 32 9))) =
     [Redeemed (Some (Inr p)), Redeemed (Some (Inr p))]"
proof -
  let ?ops = "[RedeemOp demo_call demo_request, RedeemOp demo_call demo_request]"
  let ?outs = "fst (run (redeem_step demo_libs (memory_commit demo_aead) memory_prune (\<lambda>_. None) demo_config) ?ops (memory_new (replicate 32 9)))"
  obtain m r where m: "memory_commit demo_aead 9 (to_hex demo_msg) (1000 + du_secs demo_ttl) [1] 1000 (Some (replicate NF_NONCE_LEN 0))
      (memory_new (replicate 32 9)) = (CommitOk (Granted [1] True), m)"
    and r: "map_of (ms_records m) (to_hex demo_msg) = Some r" "replays demo_aead (ms_key m) (to_hex demo_msg) [1] (1000 + du_secs demo_ttl) r"
    by (rule demo_first_redeem)
  have "1000 < 1000 + du_secs demo_ttl" by (simp add: demo_ttl_def)
  then have "memory_commit demo_aead 9 (to_hex demo_msg) (1000 + du_secs demo_ttl) [1] 1000 (Some (replicate NF_NONCE_LEN 0)) m =
      (CommitOk (Granted [1] False), m)"
    using r demo_validate by (simp add: memory_commit_def live_outcome_replays)
  with m obtain p1 p2 where o: "?outs = [Redeemed (Some (Inr p1)), Redeemed (Some (Inr p2))]" by (simp add: demo_redeem)
  have "p1 = p2"
    using redeem_single_path [OF demo_aead_ok, of ?ops 0 1 demo_call demo_request demo_call demo_request ?outs demo_libs "\<lambda>_. None"
        demo_config "replicate 32 9" p1 p2] o
    by (simp add: nonce_ok_def demo_call_def)
  with o show ?thesis by simp
qed

text \<open>A request whose token is not hexadecimal is refused, and the ledger is as it was.\<close>

theorem redeem_failure_keeps_token_witness:
  "redeem_logic demo_libs (memory_commit demo_aead) (\<lambda>_. None) demo_config demo_call \<lparr>rr_msg = [120], rr_token = []\<rparr>
     (memory_new (replicate 32 9)) = (Some (Inl MalformedRequest), memory_new (replicate 32 9))"
proof -
  let ?r = "redeem_logic demo_libs (memory_commit demo_aead) (\<lambda>_. None) demo_config demo_call \<lparr>rr_msg = [120], rr_token = []\<rparr>
    (memory_new (replicate 32 9))"
  have "fst ?r = Some (Inl MalformedRequest)"
    by (simp add: redeem_logic_def check_token_def demo_config_def config_from_hex_def)
  then show ?thesis
    using redeem_failure_keeps_token [OF demo_aead_ok demo_json_ok, of demo_call "\<lambda>_. None" demo_config
        "\<lparr>rr_msg = [120], rr_token = []\<rparr>" "memory_new (replicate 32 9)"]
    by (auto simp: nonce_ok_def demo_call_def)
qed

end
