(* ===== verification/Translog.thy ===== *)
theory Translog
  imports Text
begin

unbundle bit_operations_syntax

text \<open>
  Transparency-log inclusion (nil-crypto/src/translog.rs): the stapled proof, its wire form, and the
  offline verifier. SHA-256, Ed25519 and Base64 are parameters. \<open>checks\<close> says whether the build has
  overflow checks: a shift by 64 then panics, and otherwise shifts by 0. The reference is the Merkle
  tree of RFC 6962, its root \<open>mth\<close> and its audit paths \<open>audit\<close>; the lemmas show that the verifier's
  bit-level walk is that reference.
\<close>

section \<open>The verifier\<close>

record log_lib =
  ll_sha256 :: "bytes \<Rightarrow> bytes"
  ll_key_ok :: "bytes \<Rightarrow> bool"
  ll_sig_ok :: "bytes \<Rightarrow> bool"
  ll_verify :: "bytes \<Rightarrow> bytes \<Rightarrow> bytes \<Rightarrow> bool"
  ll_base64 :: "bytes \<Rightarrow> bytes"

definition leaf_hash :: "log_lib \<Rightarrow> bytes \<Rightarrow> bytes" where
  "leaf_hash L d = ll_sha256 L (0 # d)"

definition hash_children :: "log_lib \<Rightarrow> bytes \<Rightarrow> bytes \<Rightarrow> bytes" where
  "hash_children L l r = ll_sha256 L (1 # l @ r)"

record log_proof =
  lp_origin :: bytes
  lp_tree_size :: u64
  lp_leaf_index :: u64
  lp_root :: bytes
  lp_audit_path :: "bytes list"
  lp_checkpoint_sig :: bytes

text \<open>\<open>as u16\<close> keeps the low 16 bits of a length.\<close>

definition len_u16 :: "nat \<Rightarrow> bytes" where
  "len_u16 n = to_be 2 (word_of_nat n :: u16)"

definition log_encode :: "log_proof \<Rightarrow> bytes" where
  "log_encode p =
     len_u16 (length (lp_origin p)) @ lp_origin p @ to_be 8 (lp_tree_size p) @ to_be 8 (lp_leaf_index p) @ lp_root p @
     len_u16 (length (lp_audit_path p)) @ concat (lp_audit_path p) @ len_u16 (length (lp_checkpoint_sig p)) @ lp_checkpoint_sig p"

definition take_bytes :: "nat \<Rightarrow> bytes \<Rightarrow> (bytes \<times> bytes) option" where
  "take_bytes n b = (if length b < n then None else Some (take n b, drop n b))"

definition take_u16 :: "bytes \<Rightarrow> (u16 \<times> bytes) option" where
  "take_u16 b = map_option (\<lambda>(h, r). (of_be h, r)) (take_bytes 2 b)"

fun take_path :: "nat \<Rightarrow> bytes \<Rightarrow> (bytes list \<times> bytes) option" where
  "take_path 0 b = Some ([], b)"
| "take_path (Suc n) b =
     Option.bind (take_bytes 32 b) (\<lambda>(h, b1). Option.bind (take_path n b1) (\<lambda>(hs, b2). Some (h # hs, b2)))"

definition log_decode :: "bytes \<Rightarrow> log_proof option" where
  "log_decode b =
     Option.bind (take_u16 b) (\<lambda>(olen, b1).
     Option.bind (take_bytes (unat olen) b1) (\<lambda>(o1, b2).
     Option.bind (from_utf8 o1) (\<lambda>origin.
     Option.bind (take_bytes 8 b2) (\<lambda>(ts, b3).
     Option.bind (take_bytes 8 b3) (\<lambda>(li, b4).
     Option.bind (take_bytes 32 b4) (\<lambda>(root, b5).
     Option.bind (take_u16 b5) (\<lambda>(plen, b6).
     Option.bind (take_path (unat plen) b6) (\<lambda>(path, b7).
     Option.bind (take_u16 b7) (\<lambda>(slen, b8).
     Option.bind (take_bytes (unat slen) b8) (\<lambda>(sig, b9).
     if b9 \<noteq> [] then None
     else Some \<lparr>lp_origin = origin, lp_tree_size = of_be ts, lp_leaf_index = of_be li, lp_root = root,
                lp_audit_path = path, lp_checkpoint_sig = sig\<rparr>))))))))))"

text \<open>\<open>leading_zeros\<close> and \<open>count_ones\<close> of a 64-bit word.\<close>

definition leading_zeros :: "u64 \<Rightarrow> nat" where
  "leading_zeros x = length (takeWhile (\<lambda>i. \<not> bit x i) (rev [0..<64]))"

definition count_ones :: "u64 \<Rightarrow> nat" where
  "count_ones x = length (filter (bit x) [0..<64])"

definition bit_length :: "u64 \<Rightarrow> nat" where
  "bit_length x = 64 - leading_zeros x"

definition inner_step :: "log_lib \<Rightarrow> u64 \<Rightarrow> bytes \<Rightarrow> nat \<times> bytes \<Rightarrow> bytes" where
  "inner_step L index seed step =
     (case step of (i, sibling) \<Rightarrow> if drop_bit i index AND 1 = 0 then hash_children L seed sibling else hash_children L sibling seed)"

definition root_from_inclusion :: "bool \<Rightarrow> log_lib \<Rightarrow> u64 \<Rightarrow> u64 \<Rightarrow> bytes \<Rightarrow> bytes list \<Rightarrow> panic + bytes option" where
  "root_from_inclusion checks L index tsize leaf path =
     (if index \<ge> tsize then Inr None
      else
        let inner = bit_length (index XOR (tsize - 1)) in
        if inner = 64 \<and> checks then Inl Panic
        else
          let border = count_ones (drop_bit (inner mod 64) index) in
          if length path \<noteq> inner + border then Inr None
          else
            let seed = foldl (inner_step L index) leaf (enumerate 0 (take inner path)) in
            Inr (Some (foldl (\<lambda>seed sibling. hash_children L sibling seed) seed (drop inner path))))"

definition checkpoint_body :: "log_lib \<Rightarrow> bytes \<Rightarrow> u64 \<Rightarrow> bytes \<Rightarrow> bytes" where
  "checkpoint_body L origin tree_size root =
     origin @ [newline] @ u_to_string tree_size @ [newline] @ ll_base64 L root @ [newline]"

definition verify_checkpoint :: "log_lib \<Rightarrow> log_proof \<Rightarrow> bytes \<Rightarrow> bool" where
  "verify_checkpoint L p key \<longleftrightarrow>
     ll_sig_ok L (lp_checkpoint_sig p) \<and>
     ll_verify L key (checkpoint_body L (lp_origin p) (lp_tree_size p) (lp_root p)) (lp_checkpoint_sig p)"

definition verify_logged :: "bool \<Rightarrow> log_lib \<Rightarrow> bytes \<Rightarrow> log_proof \<Rightarrow> bytes \<Rightarrow> panic + bool" where
  "verify_logged checks L leaf_data p key =
     (if \<not> ll_key_ok L key then Inr False
      else if \<not> verify_checkpoint L p key then Inr False
      else bindE (root_from_inclusion checks L (lp_leaf_index p) (lp_tree_size p) (leaf_hash L leaf_data) (lp_audit_path p))
             (\<lambda>r. Inr (r = Some (lp_root p))))"

section \<open>Bits of numbers\<close>

definition nlen :: "nat \<Rightarrow> nat" where
  "nlen x = (if x = 0 then 0 else Suc (Max {i. bit x i}))"

definition pop :: "nat \<Rightarrow> nat" where
  "pop x = card {i. bit x i}"

lemma bit_nat_bound: "bit (x :: nat) i \<Longrightarrow> 2 ^ i \<le> x"
  by (metis bit_iff_odd div_less even_zero not_le)

lemma bit_nat_less: "(x :: nat) < 2 ^ n \<Longrightarrow> n \<le> i \<Longrightarrow> \<not> bit x i"
  using bit_nat_bound [of x i] power_increasing [of n i "2 :: nat"] by linarith

lemma finite_bits: "finite {i. bit (x :: nat) i}"
proof (rule finite_subset)
  show "{i. bit x i} \<subseteq> {..<x}" using less_le_trans [OF less_exp bit_nat_bound] by auto
qed simp

lemma nlen_eqI:
  assumes "\<And>i. n \<le> i \<Longrightarrow> \<not> bit x i" and "0 < n \<Longrightarrow> bit x (n - 1)"
  shows "nlen x = n"
proof (cases n)
  case 0
  then have "x = 0" using assms(1) by (auto intro: bit_eqI)
  then show ?thesis using 0 by (simp add: nlen_def)
next
  case (Suc k)
  then have "x \<noteq> 0" using assms(2) by (intro notI) simp
  moreover have "Max {i. bit x i} = k" using assms Suc by (intro Max_eqI finite_bits) (auto simp: not_less_eq_eq [symmetric] intro: ccontr)
  ultimately show ?thesis using Suc by (simp add: nlen_def)
qed

lemma nlen_above: "nlen x \<le> i \<Longrightarrow> \<not> bit x i"
  using Max_ge [OF finite_bits, of i x] by (auto simp: nlen_def split: if_splits)

lemma nlen_le: "(\<And>i. n \<le> i \<Longrightarrow> \<not> bit x i) \<Longrightarrow> nlen x \<le> n"
  using Max_in [OF finite_bits, of x] by (auto simp: nlen_def Suc_le_eq not_le [symmetric] bit_eq_iff)

lemma nat_has_bit: "0 < x \<Longrightarrow> \<exists>i. bit (x :: nat) i"
  by (rule ccontr) (use bit_eqI [of x 0] in auto)

lemma nlen_bounds: "0 < x \<Longrightarrow> 2 ^ (nlen x - 1) \<le> x \<and> x < 2 ^ nlen x"
proof
  assume "0 < x"
  then have "bit x (nlen x - 1)" using Max_in [OF finite_bits, of x] nat_has_bit [of x] by (auto simp: nlen_def)
  then show "2 ^ (nlen x - 1) \<le> x" by (rule bit_nat_bound)
  have "n < nlen x" if "bit x n" for n using nlen_above [of x n] that by (metis not_le)
  then have "take_bit (nlen x) x = x" by (intro bit_eqI) (auto simp: bit_take_bit_iff)
  then show "x < 2 ^ nlen x" by (simp add: take_bit_nat_eq_self_iff)
qed

section \<open>The reference: Merkle trees of RFC 6962\<close>

text \<open>The largest power of two below a size of at least two.\<close>

definition split_size :: "nat \<Rightarrow> nat" where
  "split_size n = 2 ^ (nlen (n - 1) - 1)"

lemma split_size_bounds:
  assumes "2 \<le> n"
  shows "0 < split_size n" and "split_size n < n" and "n \<le> 2 * split_size n"
proof -
  have b: "2 ^ (nlen (n - 1) - 1) \<le> n - 1" "n - 1 < 2 ^ nlen (n - 1)" using nlen_bounds [of "n - 1"] assms by simp_all
  then show "split_size n < n" using assms by (simp add: split_size_def)
  have "0 < nlen (n - 1)" using assms by (simp add: nlen_def)
  then have "2 ^ nlen (n - 1) = 2 * (2 ^ (nlen (n - 1) - 1) :: nat)" by (cases "nlen (n - 1)") auto
  then show "n \<le> 2 * split_size n" using b unfolding split_size_def by linarith
qed (simp add: split_size_def)

function mth :: "log_lib \<Rightarrow> bytes list \<Rightarrow> bytes" where
  "mth L ds =
     (if ds = [] then ll_sha256 L []
      else if length ds = 1 then leaf_hash L (hd ds)
      else let k = split_size (length ds) in hash_children L (mth L (take k ds)) (mth L (drop k ds)))"
  by pat_completeness auto
termination
proof (relation "measure (\<lambda>(_, ds). length ds)", goal_cases)
  case (2 L ds k)
  then have "2 \<le> length ds" by (cases ds) (auto simp: Suc_le_eq)
  then show ?case using split_size_bounds [of "length ds"] 2 by simp
next
  case (3 L ds k)
  then have "2 \<le> length ds" by (cases ds) (auto simp: Suc_le_eq)
  then show ?case using split_size_bounds [of "length ds"] 3 by simp
qed simp

function audit :: "log_lib \<Rightarrow> nat \<Rightarrow> bytes list \<Rightarrow> bytes list" where
  "audit L m ds =
     (if length ds < 2 then []
      else
        let k = split_size (length ds) in
        if m < k then audit L m (take k ds) @ [mth L (drop k ds)]
        else audit L (m - k) (drop k ds) @ [mth L (take k ds)])"
  by pat_completeness auto
termination
proof (relation "measure (\<lambda>(_, _, ds). length ds)", goal_cases)
  case (2 L m ds k)
  then show ?case using split_size_bounds [of "length ds"] by simp
next
  case (3 L m ds k)
  then show ?case using split_size_bounds [of "length ds"] by simp
qed simp

declare mth.simps [simp del] audit.simps [simp del]

section \<open>Directions\<close>

text \<open>
  On which side the sibling stands at each step, from the leaf up: first what the verifier computes from
  the bits of index and size, then what the recursive splitting of the tree gives.
\<close>

definition dirs :: "nat \<Rightarrow> nat \<Rightarrow> bool list" where
  "dirs m n = (let s = nlen (m XOR (n - 1)) in map (bit m) [0..<s] @ replicate (pop (drop_bit s m)) True)"

lemma upt_glue: "a \<le> b \<Longrightarrow> b \<le> c \<Longrightarrow> [a..<c] = [a..<b] @ [b..<c]"
  by (metis le_iff_add upt_add_eq_append)

lemma dirs_full:
  assumes "m < 2 ^ t"
  shows "dirs m (2 ^ t) = map (bit m) [0..<t]"
proof -
  define s where "s = nlen (m XOR (2 ^ t - 1))"
  have "(2 :: nat) ^ t - 1 = mask t" by (simp add: mask_eq_exp_minus_1)
  then have x: "bit (m XOR (2 ^ t - 1)) i \<longleftrightarrow> bit m i \<noteq> (i < t)" for i
    by (simp only: bit_xor_iff bit_mask_iff) simp
  have st: "s \<le> t" unfolding s_def using x bit_nat_less [OF assms] by (intro nlen_le) auto
  have ones: "bit m i" if "s \<le> i" "i < t" for i using nlen_above [of "m XOR (2 ^ t - 1)" i] x that by (simp add: s_def)
  have low: "i < t" if "bit m i" for i using bit_nat_less [OF assms, of i] that by (metis not_le)
  have "{i. bit (drop_bit s m) i} = {..<t - s}"
    using ones low by (auto simp: bit_drop_bit_eq less_diff_conv add.commute)
  then have "pop (drop_bit s m) = t - s" by (simp add: pop_def)
  moreover have "map (bit m) [s..<t] = replicate (t - s) True"
    using ones by (intro nth_equalityI) auto
  ultimately show ?thesis using upt_glue [of 0 s t] st unfolding dirs_def s_def [symmetric] Let_def by simp
qed

lemma split_size_bits:
  assumes "2 \<le> n"
  obtains t where "split_size n = 2 ^ t" and "bit (n - 1) t" and "n - 1 < 2 ^ Suc t" and "n - 1 - 2 ^ t < 2 ^ t"
proof
  let ?t = "nlen (n - 1) - 1"
  show "split_size n = 2 ^ ?t" by (simp add: split_size_def)
  note b = split_size_bounds [OF assms, unfolded split_size_def]
  show "n - 1 < 2 ^ Suc ?t" "n - 1 - 2 ^ ?t < 2 ^ ?t" using b assms by simp_all
  have "(n - 1) div 2 ^ ?t = 1" using b assms by (intro div_nat_eqI) simp_all
  then show "bit (n - 1) ?t" by (simp add: bit_iff_odd)
qed

lemma dirs_left:
  assumes "2 \<le> n" and "m < split_size n"
  shows "dirs m n = dirs m (split_size n) @ [False]"
proof -
  obtain t where t: "split_size n = 2 ^ t" "bit (n - 1) t" "n - 1 < 2 ^ Suc t" by (rule split_size_bits [OF assms(1)])
  have m: "m < 2 ^ t" using assms(2) t(1) by simp
  have "nlen (m XOR (n - 1)) = Suc t"
    using bit_nat_less [OF t(3)] bit_nat_less [OF m] t(2) by (intro nlen_eqI) (simp_all add: bit_xor_iff)
  moreover have "pop (drop_bit (Suc t) m) = 0"
    using bit_nat_less [OF m] by (simp add: pop_def bit_drop_bit_eq)
  ultimately show ?thesis
    using dirs_full [OF m] bit_nat_less [OF m, of t] by (simp add: dirs_def t(1) Let_def)
qed

lemma bit_plus_exp:
  assumes "(x :: nat) < 2 ^ t"
  shows "bit (2 ^ t + x) i \<longleftrightarrow> i = t \<or> bit x i"
proof -
  have "2 ^ t + x = 2 ^ t OR x"
    using bit_nat_less [OF assms] by (intro disjunctive_add) (auto simp: bit_exp_iff)
  then show ?thesis by (auto simp: bit_or_iff bit_exp_iff)
qed

lemma dirs_right:
  assumes "2 \<le> n" and "split_size n \<le> m" and "m < n"
  shows "dirs m n = dirs (m - split_size n) (n - split_size n) @ [True]"
proof -
  obtain t where t: "split_size n = 2 ^ t" "n - 1 - 2 ^ t < 2 ^ t" by (rule split_size_bits [OF assms(1)])
  define m' n' where "m' = m - 2 ^ t" and "n' = n - 1 - 2 ^ t"
  have k: "m = 2 ^ t + m'" "n - 1 = 2 ^ t + n'" "m' < 2 ^ t" "n' < 2 ^ t" "n - 2 ^ t - 1 = n'"
    using assms t by (auto simp: m'_def n'_def)
  have x: "m XOR (n - 1) = m' XOR n'"
    unfolding k(1,2) using k(3,4) bit_nat_less by (intro bit_eqI) (auto simp: bit_xor_iff bit_plus_exp)
  define s where "s = nlen (m' XOR n')"
  have st: "s \<le> t" unfolding s_def using bit_nat_less [OF k(3)] bit_nat_less [OF k(4)] by (intro nlen_le) (simp add: bit_xor_iff)
  have "{i. bit (drop_bit s m) i} = insert (t - s) {i. bit (drop_bit s m') i}"
    using st unfolding k(1) by (auto simp: bit_drop_bit_eq bit_plus_exp [OF k(3)])
  moreover have "t - s \<notin> {i. bit (drop_bit s m') i}" using st bit_nat_less [OF k(3), of t] by (simp add: bit_drop_bit_eq)
  ultimately have "pop (drop_bit s m) = Suc (pop (drop_bit s m'))" by (simp add: pop_def finite_bits)
  moreover have "map (bit m) [0..<s] = map (bit m') [0..<s]"
    using st unfolding k(1) by (auto simp: bit_plus_exp [OF k(3)])
  ultimately show ?thesis
    using x k(5) unfolding t(1) dirs_def m'_def [symmetric] by (simp add: s_def [symmetric] Let_def replicate_append_same)
qed

lemma dirs_1: "dirs 0 1 = []"
  by (simp add: dirs_def nlen_def pop_def)

section \<open>The verifier walks the tree\<close>

lemma bit_u64_bound: "bit (x :: u64) i \<Longrightarrow> i < 64"
  using bit_imp_le_length [of x i] by simp

lemma unat_drop_bit_u64: "unat (drop_bit s x) = drop_bit s (unat (x :: u64))"
  by (rule bit_eqI) (auto simp: bit_drop_bit_eq bit_unsigned_iff dest: bit_u64_bound)

lemma pop_count_ones: "count_ones x = pop (unat x)"
proof -
  have "{i. bit (unat x) i} = set (filter (bit x) [0..<64])" by (auto simp: bit_unsigned_iff dest: bit_u64_bound)
  then show ?thesis by (simp add: pop_def count_ones_def distinct_card [symmetric])
qed

lemma bit_length_nlen: "bit_length x = nlen (unat x)"
proof (rule sym, rule nlen_eqI)
  let ?P = "\<lambda>i. \<not> bit x i" and ?xs = "rev [0..<64]"
  have nth: "?xs ! j = 63 - j" if "j < 64" for j :: nat using that by (simp add: rev_nth)
  have le: "leading_zeros x \<le> 64" using length_takeWhile_le [of ?P ?xs] by (simp add: leading_zeros_def)
  show "\<not> bit (unat x) i" if "bit_length x \<le> i" for i
  proof (cases "i < 64")
    case True
    then have "63 - i < leading_zeros x" using that le by (simp add: bit_length_def)
    then have "?P (?xs ! (63 - i))"
      using nth_mem [of "63 - i" "takeWhile ?P ?xs"] set_takeWhileD [of _ ?P ?xs] takeWhile_nth [of "63 - i" ?P ?xs]
      by (simp add: leading_zeros_def)
    then show ?thesis using True nth [of "63 - i"] by (simp add: bit_unsigned_iff)
  qed (auto simp: bit_unsigned_iff dest: bit_u64_bound)
  show "bit (unat x) (bit_length x - 1)" if "0 < bit_length x"
  proof -
    have z: "leading_zeros x < 64" using that by (simp add: bit_length_def)
    then have "\<not> ?P (?xs ! leading_zeros x)" unfolding leading_zeros_def by (intro nth_length_takeWhile) simp
    then show ?thesis using z nth [OF z] by (simp add: bit_unsigned_iff bit_length_def)
  qed
qed

definition walk :: "log_lib \<Rightarrow> bytes \<Rightarrow> bool list \<Rightarrow> bytes list \<Rightarrow> bytes" where
  "walk L leaf ds path =
     foldl (\<lambda>seed (left, sibling). if left then hash_children L sibling seed else hash_children L seed sibling) leaf (zip ds path)"

lemma walk_snoc:
  "length ds = length path \<Longrightarrow> walk L leaf (ds @ [d]) (path @ [s]) =
     (if d then hash_children L s (walk L leaf ds path) else hash_children L (walk L leaf ds path) s)"
  by (simp add: walk_def)

lemma foldl_inner_steps:
  "foldl (inner_step L index) leaf (enumerate k path) =
   foldl (\<lambda>seed (left, sibling). if left then hash_children L sibling seed else hash_children L seed sibling) leaf
     (zip (map (bit index) [k..<k + length path]) path)"
proof (induction path arbitrary: k leaf)
  case (Cons p path)
  have "[k..<k + length (p # path)] = k # [Suc k..<Suc k + length path]" by (subst upt_conv_Cons) simp_all
  then show ?case using Cons.IH [of _ "Suc k"] by (simp add: inner_step_def and_one_eq bit_iff_odd_drop_bit mod2_eq_if)
qed simp

lemma foldl_border_steps:
  "foldl (\<lambda>seed sibling. hash_children L sibling seed) leaf path =
   foldl (\<lambda>seed (left, sibling). if left then hash_children L sibling seed else hash_children L seed sibling) leaf
     (zip (replicate (length path) True) path)"
  by (induction path arbitrary: leaf) auto

lemma root_from_inclusion_walk:
  assumes "index < tsize" and "unat tsize \<le> 2 ^ 63"
  shows "root_from_inclusion checks L index tsize leaf path =
    Inr (if length path = length (dirs (unat index) (unat tsize)) then Some (walk L leaf (dirs (unat index) (unat tsize)) path) else None)"
proof -
  let ?m = "unat index" and ?n = "unat tsize"
  have n: "unat (tsize - 1) = ?n - 1" using assms(1) by (intro unat_minus_one) (auto simp: word_less_nat_alt)
  have mn: "?m < ?n" using assms(1) by (simp add: word_less_nat_alt)
  define s where "s = bit_length (index XOR (tsize - 1))"
  have s: "s = nlen (?m XOR (?n - 1))" by (simp add: s_def bit_length_nlen unsigned_xor_eq n)
  have "s \<le> 63"
    unfolding s using mn assms(2) bit_nat_less [of ?m 63] bit_nat_less [of "?n - 1" 63] by (intro nlen_le) (simp add: bit_xor_iff)
  define b where "b = count_ones (drop_bit s index)"
  have b: "b = pop (drop_bit s ?m)" using \<open>s \<le> 63\<close> by (simp add: b_def pop_count_ones unat_drop_bit_u64)
  have d: "dirs ?m ?n = map (bit index) [0..<s] @ replicate b True"
    unfolding dirs_def s [symmetric] b Let_def using \<open>s \<le> 63\<close> by (simp add: bit_unsigned_iff)
  show ?thesis
  proof (cases "length path = s + b")
    case True
    then have "zip (dirs ?m ?n) path = zip (map (bit index) [0..<s]) (take s path) @ zip (replicate b True) (drop s path)"
      unfolding d by (simp add: zip_append1)
    moreover have "foldl (\<lambda>seed sibling. hash_children L sibling seed) (foldl (inner_step L index) leaf (enumerate 0 (take s path))) (drop s path) =
        walk L leaf (dirs ?m ?n) path"
      using True calculation by (simp add: walk_def foldl_inner_steps foldl_border_steps)
    ultimately show ?thesis
      using True \<open>s \<le> 63\<close> assms(1)
      by (simp add: root_from_inclusion_def Let_def s_def [symmetric] b_def [symmetric] d not_le)
  next
    case False
    then show ?thesis
      using \<open>s \<le> 63\<close> assms(1) by (simp add: root_from_inclusion_def Let_def s_def [symmetric] b_def [symmetric] d not_le)
  qed
qed

text \<open>Above that size the shift by 64 is reached: a build with overflow checks panics.\<close>

lemma root_from_inclusion_panics:
  assumes "2 ^ 63 < unat tsize"
  shows "root_from_inclusion True L 0 tsize leaf path = Inl Panic"
proof -
  have t: "tsize \<noteq> 0" using assms by auto
  then have n: "unat (tsize - 1) = unat tsize - 1" by (simp add: unat_minus_one)
  have "nlen (unat tsize - 1) = 64"
  proof (rule nlen_eqI)
    have "unat tsize - 1 < 2 ^ 64" using unat_less_pow [of tsize] by simp
    then show "\<not> bit (unat tsize - 1) i" if "64 \<le> i" for i using bit_nat_less that by blast
    have "(unat tsize - 1) div 2 ^ 63 = 1" using assms unat_less_pow [of tsize] by (intro div_nat_eqI) simp_all
    then show "bit (unat tsize - 1) (64 - 1)" by (simp add: bit_iff_odd)
  qed
  then have "bit_length (tsize - 1) = 64" by (simp add: bit_length_nlen n)
  then show ?thesis using t by (simp add: root_from_inclusion_def word_gt_0 not_le)
qed

section \<open>Completeness and soundness\<close>

lemma mth_split:
  assumes "2 \<le> length ds"
  shows "mth L ds = hash_children L (mth L (take (split_size (length ds)) ds)) (mth L (drop (split_size (length ds)) ds))"
  using assms by (subst mth.simps) (auto simp: Let_def)

lemma audit_split:
  assumes "2 \<le> length ds"
  shows "audit L m ds = (if m < split_size (length ds)
      then audit L m (take (split_size (length ds)) ds) @ [mth L (drop (split_size (length ds)) ds)]
      else audit L (m - split_size (length ds)) (drop (split_size (length ds)) ds) @ [mth L (take (split_size (length ds)) ds)])"
  using assms by (subst audit.simps) (simp add: Let_def)

lemma small_tree:
  assumes "m < length ds" and "\<not> 2 \<le> length ds"
  shows "m = 0" and "length ds = 1" and "ds = [ds ! 0]" and "mth L ds = leaf_hash L (ds ! 0)" and "audit L m ds = []"
proof -
  show m: "m = 0" "length ds = 1" using assms by auto
  then show d: "ds = [ds ! 0]" by (cases ds) auto
  show "mth L ds = leaf_hash L (ds ! 0)" using m by (cases ds) (auto simp: mth.simps)
  show "audit L m ds = []" using assms(2) by (subst audit.simps) simp
qed

lemma walk_audit:
  assumes "m < length ds"
  shows "length (audit L m ds) = length (dirs m (length ds)) \<and>
    walk L (leaf_hash L (ds ! m)) (dirs m (length ds)) (audit L m ds) = mth L ds"
  using assms
proof (induction "length ds" arbitrary: ds m rule: less_induct)
  case less
  show ?case
  proof (cases "2 \<le> length ds")
    case True
    let ?k = "split_size (length ds)"
    note b = split_size_bounds [OF True]
    show ?thesis
    proof (cases "m < ?k")
      case left: True
      have "length (take ?k ds) = ?k" using b by simp
      with less.hyps [of "take ?k ds" m] left b show ?thesis
        by (simp add: audit_split [OF True] mth_split [OF True] dirs_left [OF True left] walk_snoc)
    next
      case False
      with less.hyps [of "drop ?k ds" "m - ?k"] b less.prems show ?thesis
        by (simp add: audit_split [OF True] mth_split [OF True] dirs_right [OF True _ less.prems] walk_snoc)
    qed
  next
    case False
    show ?thesis using small_tree [OF less.prems False] dirs_1 by (simp add: walk_def)
  qed
qed

text \<open>
  The inputs that are hashed to build the tree of a list of entries, and those the verifier hashes on its
  way up. Soundness is relative to the hash having no collision among these finitely many inputs.
\<close>

function tree_inputs :: "log_lib \<Rightarrow> bytes list \<Rightarrow> bytes set" where
  "tree_inputs L ds =
     (if length ds < 2 then {0 # d |d. d \<in> set ds}
      else
        let k = split_size (length ds) in
        insert (1 # mth L (take k ds) @ mth L (drop k ds)) (tree_inputs L (take k ds) \<union> tree_inputs L (drop k ds)))"
  by pat_completeness auto
termination
proof (relation "measure (\<lambda>(_, ds). length ds)", goal_cases)
  case (2 L ds k)
  then show ?case using split_size_bounds [of "length ds"] by simp
next
  case (3 L ds k)
  then show ?case using split_size_bounds [of "length ds"] by simp
qed simp

declare tree_inputs.simps [simp del]

definition walk_input :: "log_lib \<Rightarrow> bytes \<Rightarrow> bool list \<Rightarrow> bytes list \<Rightarrow> nat \<Rightarrow> bytes" where
  "walk_input L leaf ds path i =
     1 # (if ds ! i then path ! i @ walk L leaf (take i ds) (take i path) else walk L leaf (take i ds) (take i path) @ path ! i)"

definition walk_inputs :: "log_lib \<Rightarrow> bytes \<Rightarrow> bool list \<Rightarrow> bytes list \<Rightarrow> bytes set" where
  "walk_inputs L leaf ds path = walk_input L leaf ds path ` {..<length path}"

lemma walk_inputs_snoc:
  assumes "length ds = length path"
  shows "walk_inputs L leaf (ds @ [d]) (path @ [s]) =
    insert (1 # (if d then s @ walk L leaf ds path else walk L leaf ds path @ s)) (walk_inputs L leaf ds path)"
proof -
  have "walk_input L leaf (ds @ [d]) (path @ [s]) i = walk_input L leaf ds path i" if "i < length path" for i
    using assms that by (simp add: walk_input_def nth_append)
  then have "walk_input L leaf (ds @ [d]) (path @ [s]) ` {..<length path} = walk_inputs L leaf ds path"
    unfolding walk_inputs_def by (intro image_cong refl) simp
  moreover have "walk_input L leaf (ds @ [d]) (path @ [s]) (length path) =
      1 # (if d then s @ walk L leaf ds path else walk L leaf ds path @ s)"
    using assms nth_append_length [of ds d "[]"] by (simp add: walk_input_def)
  ultimately show ?thesis by (simp add: walk_inputs_def lessThan_Suc)
qed

lemma hash_children_eq:
  assumes "hash_children L l r = hash_children L l' r'" and "length l = length l'"
    and "inj_on (ll_sha256 L) S" and "1 # l @ r \<in> S" and "1 # l' @ r' \<in> S"
  shows "l = l'" and "r = r'"
proof -
  have "1 # l @ r = 1 # l' @ r'" using inj_onD [OF assms(3) _ assms(4,5)] assms(1) by (simp add: hash_children_def)
  then show "l = l'" "r = r'" using assms(2) by auto
qed

lemma tree_inputs_split:
  assumes "2 \<le> length ds"
  shows "tree_inputs L ds =
    insert (1 # mth L (take (split_size (length ds)) ds) @ mth L (drop (split_size (length ds)) ds))
      (tree_inputs L (take (split_size (length ds)) ds) \<union> tree_inputs L (drop (split_size (length ds)) ds))"
  using assms by (subst tree_inputs.simps) (simp add: Let_def)

lemma length_hashes:
  assumes "\<And>x. length (ll_sha256 L x) = 32"
  shows "length (hash_children L l r) = 32" and "length (leaf_hash L d) = 32" and "length (mth L ds) = 32"
  using assms by (simp_all add: hash_children_def leaf_hash_def) (subst mth.simps, simp add: Let_def hash_children_def leaf_hash_def)

lemma length_walk:
  assumes "\<And>x. length (ll_sha256 L x) = 32" and "length leaf = 32"
  shows "length (walk L leaf ds path) = 32"
proof -
  have "length (foldl (\<lambda>seed (left, sibling). if left then hash_children L sibling seed else hash_children L seed sibling) leaf zs) = 32"
    for zs using assms(2) by (induction zs arbitrary: leaf) (auto simp: length_hashes [OF assms(1)])
  then show ?thesis by (simp add: walk_def)
qed

lemma walk_sound:
  assumes "\<And>x. length (ll_sha256 L x) = 32" and "length leaf = 32" and "\<forall>h\<in>set path. length h = 32"
    and "m < length ds" and "length path = length (dirs m (length ds))" and "walk L leaf (dirs m (length ds)) path = mth L ds"
    and "inj_on (ll_sha256 L) (tree_inputs L ds \<union> walk_inputs L leaf (dirs m (length ds)) path)"
  shows "leaf = leaf_hash L (ds ! m) \<and> path = audit L m ds \<and> 0 # ds ! m \<in> tree_inputs L ds"
  using assms(3-)
proof (induction "length ds" arbitrary: ds m path rule: less_induct)
  case less
  note len = length_hashes [OF assms(1)]
  show ?case
  proof (cases "2 \<le> length ds")
    case True
    let ?k = "split_size (length ds)"
    note b = split_size_bounds [OF True]
    have "length path \<noteq> 0"
      using less.prems(2,3) dirs_left [OF True, of m] dirs_right [OF True _ less.prems(2)] by (cases "m < ?k") auto
    then obtain p s where p: "path = p @ [s]" by (cases path rule: rev_cases) auto
    show ?thesis
    proof (cases "m < ?k")
      case left: True
      note d = dirs_left [OF True left]
      have lp: "length p = length (dirs m ?k)" using less.prems(3) d p by simp
      have "hash_children L (walk L leaf (dirs m ?k) p) s = hash_children L (mth L (take ?k ds)) (mth L (drop ?k ds))"
        using less.prems(4) by (simp add: d p walk_snoc lp mth_split [OF True])
      from hash_children_eq [OF this _ less.prems(5)] len length_walk [OF assms(1,2)]
      have e: "walk L leaf (dirs m ?k) p = mth L (take ?k ds)" "s = mth L (drop ?k ds)"
        by (simp_all add: d p walk_inputs_snoc lp tree_inputs_split [OF True])
      have "inj_on (ll_sha256 L) (tree_inputs L (take ?k ds) \<union> walk_inputs L leaf (dirs m ?k) p)"
        by (rule inj_on_subset [OF less.prems(5)]) (auto simp: d p walk_inputs_snoc lp tree_inputs_split [OF True])
      then have "leaf = leaf_hash L (take ?k ds ! m) \<and> p = audit L m (take ?k ds) \<and> 0 # take ?k ds ! m \<in> tree_inputs L (take ?k ds)"
        using less.hyps [of "take ?k ds" p m] b left lp e(1) less.prems(1) p by simp
      then show ?thesis using left e(2) p by (simp add: audit_split [OF True] tree_inputs_split [OF True])
    next
      case right: False
      note d = dirs_right [OF True _ less.prems(2)]
      have lp: "length p = length (dirs (m - ?k) (length ds - ?k))" using less.prems(3) d p right by simp
      have "hash_children L s (walk L leaf (dirs (m - ?k) (length ds - ?k)) p) = hash_children L (mth L (take ?k ds)) (mth L (drop ?k ds))"
        using less.prems(4) right by (simp add: d p walk_snoc lp mth_split [OF True])
      from hash_children_eq [OF this _ less.prems(5)] len less.prems(1) p right
      have e: "walk L leaf (dirs (m - ?k) (length ds - ?k)) p = mth L (drop ?k ds)" "s = mth L (take ?k ds)"
        by (simp_all add: d walk_inputs_snoc lp tree_inputs_split [OF True])
      have "inj_on (ll_sha256 L) (tree_inputs L (drop ?k ds) \<union> walk_inputs L leaf (dirs (m - ?k) (length ds - ?k)) p)"
        using right by (intro inj_on_subset [OF less.prems(5)]) (auto simp: d p walk_inputs_snoc lp tree_inputs_split [OF True])
      then have "leaf = leaf_hash L (drop ?k ds ! (m - ?k)) \<and> p = audit L (m - ?k) (drop ?k ds) \<and>
          0 # drop ?k ds ! (m - ?k) \<in> tree_inputs L (drop ?k ds)"
        using less.hyps [of "drop ?k ds" p "m - ?k"] b right lp e(1) less.prems(1,2) p by simp
      then show ?thesis using right e(2) p b by (simp add: audit_split [OF True] tree_inputs_split [OF True])
    qed
  next
    case False
    have "tree_inputs L ds = {0 # d |d. d \<in> set ds}" using False by (subst tree_inputs.simps) simp
    then show ?thesis using small_tree [OF less.prems(2) False] dirs_1 less.prems(3,4) less.prems(2) by (simp add: walk_def)
  qed
qed

text \<open>
  C36: The verifier's walk is the Merkle tree of RFC 6962. For a log of any size up to 2 to the 63 and any
  index in it, the bits of index and size lead from the entry's leaf hash along its audit path to the root
  of the tree; and any other entry or path that leads to the root exhibits a collision of the hash among the
  inputs hashed.
\<close>

theorem inclusion_is_rfc6962:
  assumes "\<And>x. length (ll_sha256 L x) = 32" and "unat tsize = length ds" and "index < tsize" and "length ds \<le> 2 ^ 63"
  shows "root_from_inclusion checks L index tsize (leaf_hash L (ds ! unat index)) (audit L (unat index) ds) = Inr (Some (mth L ds)) \<and>
    (\<forall>d path. (\<forall>h\<in>set path. length h = 32) \<longrightarrow>
       inj_on (ll_sha256 L) (insert (0 # d) (tree_inputs L ds \<union> walk_inputs L (leaf_hash L d) (dirs (unat index) (unat tsize)) path)) \<longrightarrow>
       root_from_inclusion checks L index tsize (leaf_hash L d) path = Inr (Some (mth L ds)) \<longrightarrow>
       d = ds ! unat index \<and> path = audit L (unat index) ds)"
proof (intro conjI allI impI)
  have m: "unat index < length ds" using assms(2,3) by (simp add: word_less_nat_alt)
  note w = root_from_inclusion_walk [OF assms(3), unfolded assms(2), OF assms(4)]
  show "root_from_inclusion checks L index tsize (leaf_hash L (ds ! unat index)) (audit L (unat index) ds) = Inr (Some (mth L ds))"
    using walk_audit [OF m, of L] by (simp add: w)
  fix d path
  assume p: "\<forall>h\<in>set path. length h = 32" and r: "root_from_inclusion checks L index tsize (leaf_hash L d) path = Inr (Some (mth L ds))"
    and inj: "inj_on (ll_sha256 L) (insert (0 # d) (tree_inputs L ds \<union> walk_inputs L (leaf_hash L d) (dirs (unat index) (unat tsize)) path))"
  have "length path = length (dirs (unat index) (length ds))" "walk L (leaf_hash L d) (dirs (unat index) (length ds)) path = mth L ds"
    using r unfolding w by (simp_all split: if_splits)
  moreover have "inj_on (ll_sha256 L) (tree_inputs L ds \<union> walk_inputs L (leaf_hash L d) (dirs (unat index) (length ds)) path)"
    by (rule inj_on_subset [OF inj [unfolded assms(2)]]) blast
  ultimately have s: "leaf_hash L d = leaf_hash L (ds ! unat index)" "path = audit L (unat index) ds" "0 # ds ! unat index \<in> tree_inputs L ds"
    using walk_sound [OF assms(1) length_hashes(2) [OF assms(1)] p m, of d] by simp_all
  have "ll_sha256 L (0 # d) = ll_sha256 L (0 # ds ! unat index)" using s(1) by (simp only: leaf_hash_def)
  then have "0 # d = 0 # ds ! unat index" by (rule inj_onD [OF inj]) (use s(3) in blast)+
  then show "d = ds ! unat index" "path = audit L (unat index) ds" using s(2) by simp_all
qed

section \<open>The wire form\<close>

lemma take_bytes_append [simp]: "length a = n \<Longrightarrow> take_bytes n (a @ b) = Some (a, b)"
  by (simp add: take_bytes_def)

lemma take_bytes_Some: "take_bytes n b = Some (a, r) \<longleftrightarrow> b = a @ r \<and> length a = n"
  by (auto simp: take_bytes_def)

lemma take_u16_append [simp]: "take_u16 (len_u16 n @ b) = Some (word_of_nat n, b)"
  by (simp add: take_u16_def len_u16_def of_be_to_be)

lemma take_u16_Some: "take_u16 b = Some (w, r) \<longleftrightarrow> b = to_be 2 w @ r"
  by (auto simp: take_u16_def take_bytes_Some to_be_of_be of_be_to_be)

lemma take_path_append: "\<forall>h\<in>set hs. length h = 32 \<Longrightarrow> take_path (length hs) (concat hs @ b) = Some (hs, b)"
  by (induction hs) simp_all

lemma take_path_Some: "take_path n b = Some (hs, r) \<Longrightarrow> b = concat hs @ r \<and> length hs = n \<and> (\<forall>h\<in>set hs. length h = 32)"
  by (induction n b arbitrary: hs r rule: take_path.induct) (auto simp: bind_eq_Some_conv take_bytes_Some split: prod.splits)

definition proof_ok :: "log_proof \<Rightarrow> bool" where
  "proof_ok p \<longleftrightarrow> length (lp_origin p) < 65536 \<and> utf8_valid (lp_origin p) \<and> length (lp_root p) = 32 \<and>
     length (lp_audit_path p) < 65536 \<and> (\<forall>h\<in>set (lp_audit_path p). length h = 32) \<and> length (lp_checkpoint_sig p) < 65536"

lemma unat_u16 [simp]: "n < 65536 \<Longrightarrow> unat (word_of_nat n :: u16) = n"
  unfolding unat_of_nat by simp

lemma len_u16_unat: "len_u16 (unat w) = to_be 2 (w :: u16)"
  by (simp add: len_u16_def)

lemma log_decode_encode:
  assumes "proof_ok p"
  shows "log_decode (log_encode p) = Some p"
proof -
  have "from_utf8 (lp_origin p) = Some (lp_origin p)" using assms by (simp add: from_utf8_def proof_ok_def)
  then show ?thesis
    using assms take_path_append [of "lp_audit_path p"]
    by (simp add: log_decode_def log_encode_def proof_ok_def of_be_to_be take_bytes_append [where b = "[]", simplified])
qed

lemma log_encode_decode:
  assumes "log_decode b = Some p"
  shows "log_encode p = b \<and> proof_ok p"
proof -
  from assms obtain olen b1 o1 b2 ts b3 li b4 rt b5 plen b6 path b7 slen b8 sig
    where d: "take_u16 b = Some (olen, b1)" "take_bytes (unat olen) b1 = Some (o1, b2)" "from_utf8 o1 = Some (lp_origin p)"
      "take_bytes 8 b2 = Some (ts, b3)" "take_bytes 8 b3 = Some (li, b4)" "take_bytes 32 b4 = Some (rt, b5)"
      "take_u16 b5 = Some (plen, b6)" "take_path (unat plen) b6 = Some (path, b7)" "take_u16 b7 = Some (slen, b8)"
      "take_bytes (unat slen) b8 = Some (sig, [])"
      and p: "lp_tree_size p = of_be ts" "lp_leaf_index p = of_be li" "lp_root p = rt" "lp_audit_path p = path" "lp_checkpoint_sig p = sig"
    unfolding log_decode_def by (auto simp: bind_eq_Some_conv split: prod.splits if_splits)
  have o: "lp_origin p = o1" "utf8_valid o1" using d(3) by (simp_all add: from_utf8_Some)
  have u: "unat w < 65536" for w :: u16 using unat_less_pow [of w] by simp
  have l: "length o1 = unat olen" "length path = unat plen" "length sig = unat slen" "\<forall>h\<in>set path. length h = 32"
      "length ts = 8" "length li = 8" "length rt = 32"
    and b: "b = to_be 2 olen @ o1 @ ts @ li @ rt @ to_be 2 plen @ concat path @ to_be 2 slen @ sig"
    using d take_path_Some [OF d(8)] by (auto simp: take_bytes_Some take_u16_Some)
  have "log_encode p = b" unfolding log_encode_def o(1) p b using l by (simp add: len_u16_unat to_be_of_be)
  moreover have "proof_ok p" using l u o(2) by (simp add: proof_ok_def o(1) p)
  ultimately show ?thesis ..
qed

text \<open>
  A stapled proof has one wire form. The bytes that decode are exactly the encodings of proofs whose
  lengths fit in 16 bits, with a UTF-8 origin and 32-byte hashes, and both directions are inverse to each
  other; truncated or trailing bytes never decode.
\<close>

theorem log_proof_codec: "log_decode b = Some p \<longleftrightarrow> proof_ok p \<and> b = log_encode p"
  using log_decode_encode log_encode_decode by blast

text \<open>A hash of the right shape, for evaluating the model: the first 32 bytes of the padded input.\<close>

definition demo_log :: log_lib where
  "demo_log = \<lparr>ll_sha256 = (\<lambda>x. take 32 (x @ replicate 32 0)), ll_key_ok = (\<lambda>_. True), ll_sig_ok = (\<lambda>_. True),
     ll_verify = (\<lambda>_ _ _. True), ll_base64 = (\<lambda>x. x)\<rparr>"

theorem inclusion_is_rfc6962_witness:
  "root_from_inclusion True demo_log 2 3 (leaf_hash demo_log [7]) (audit demo_log 2 [[5], [6], [7]]) = Inr (Some (mth demo_log [[5], [6], [7]]))"
  using inclusion_is_rfc6962 [of demo_log 3 "[[5], [6], [7]]" 2 True] by (simp add: demo_log_def)

end
