(* ===== verification/Snapshot_File.thy ===== *)
theory Snapshot_File
  imports Log_File
begin

text \<open>
  Files that are replaced as a whole: a file \<open>n\<close> of a directory \<open>d\<close>, written to a temporary file \<open>t\<close>
  of the same directory, synced and renamed into place. \<open>snap_ok d n t R s\<close> says that whatever version
  of the directory a crash brings back, the contents of the file satisfy \<open>R\<close> (\<open>None\<close> for no file).
\<close>

definition snap_entry :: "(bytes option \<Rightarrow> bool) \<Rightarrow> nat option \<Rightarrow> fs \<Rightarrow> bool" where
  "snap_entry R e s \<longleftrightarrow>
     (case e of None \<Rightarrow> R None | Some i \<Rightarrow> i_clean (f_inodes s i) \<and> R (Some (i_data (f_inodes s i))))"

definition snap_ok :: "bytes \<Rightarrow> bytes \<Rightarrow> bytes \<Rightarrow> (bytes option \<Rightarrow> bool) \<Rightarrow> fs \<Rightarrow> bool" where
  "snap_ok d n t R s \<longleftrightarrow> fs_wf s \<and> tmp_apart d n t s \<and> (\<forall>v\<in>set (versions d s). snap_entry R (v n) s)"

definition contents :: "bytes \<Rightarrow> bytes \<Rightarrow> fs \<Rightarrow> bytes option" where
  "contents d n s = map_option (\<lambda>i. i_data (f_inodes s i)) (f_names s d n)"

lemma snap_entry_simps [simp]:
  "snap_entry R None s \<longleftrightarrow> R None"
  "snap_entry R (Some i) s \<longleftrightarrow> i_clean (f_inodes s i) \<and> R (Some (i_data (f_inodes s i)))"
  by (simp_all add: snap_entry_def)

lemma snap_entry_frame [simp]:
  "snap_entry R e (s\<lparr>f_faults := fl\<rparr>) = snap_entry R e s" "snap_entry R e (s\<lparr>f_next := k\<rparr>) = snap_entry R e s"
  "snap_entry R e (s\<lparr>f_olds := os\<rparr>) = snap_entry R e s" "snap_entry R e (set_entries d es s) = snap_entry R e s"
  by (cases e; simp)+

lemma snap_entry_mono: "snap_entry R e s \<Longrightarrow> (\<And>c. R c \<Longrightarrow> S c) \<Longrightarrow> snap_entry S e s"
  by (cases e) auto

lemma snap_ok_faults [simp]: "snap_ok d n t R (s\<lparr>f_faults := fl\<rparr>) = snap_ok d n t R s"
  by (simp add: snap_ok_def fs_wf_def tmp_apart_def)

lemma contents_frame [simp]:
  "contents d n (s\<lparr>f_faults := fl\<rparr>) = contents d n s" "contents d n (s\<lparr>f_olds := os\<rparr>) = contents d n s"
  by (simp_all add: contents_def)

lemma snap_ok_mono: "snap_ok d n t R s \<Longrightarrow> (\<And>c. R c \<Longrightarrow> S c) \<Longrightarrow> snap_ok d n t S s"
  by (auto simp: snap_ok_def intro: snap_entry_mono)

lemma snap_ok_contents: "snap_ok d n t R s \<Longrightarrow> R (contents d n s)"
  by (cases "f_names s d n") (auto simp: snap_ok_def contents_def dest!: bspec [OF _ current_version])

lemma fault_free_snap [intro, simp]: "fault_free (snap_ok d n t R)" "fault_free (\<lambda>s. contents d n s = c)"
  by (simp_all add: fault_free_def)

section \<open>Effects of the calls\<close>

lemma snap_ok_other:
  assumes "snap_ok d n t R s" and "inode_wf nd" and "\<And>v. v \<in> set (versions d s) \<Longrightarrow> v n \<noteq> Some i"
  shows "snap_ok d n t R (set_inode i nd s)"
proof -
  have "snap_entry R (v n) (set_inode i nd s)" if "v \<in> set (versions d s)" for v
  proof -
    from assms(1) that have "snap_entry R (v n) s" by (simp add: snap_ok_def)
    then show ?thesis using assms(3) [OF that] by (cases "v n") auto
  qed
  then show ?thesis using assms by (simp add: snap_ok_def fs_wf_set_inode tmp_apart_def)
qed

lemma contents_other: "f_names s d n \<noteq> Some i \<Longrightarrow> contents d n (set_inode i nd s) = contents d n s"
  by (cases "f_names s d n") (auto simp: contents_def)

lemma snap_ok_create:
  assumes "snap_ok d n t R s" and "m \<noteq> n" and "create_file (Path d m) s = (f, s1)"
  shows "snap_ok d n t R s1" and "contents d n s1 = contents d n s" and "f_names s1 d m = Some f"
    and "i_data (f_inodes s1 f) = []" and "f_names s1 d n \<noteq> Some f"
proof -
  have wf: "fs_wf s" and ta: "tmp_apart d n t s" and ve: "\<And>v. v \<in> set (versions d s) \<Longrightarrow> snap_entry R (v n) s"
    using assms(1) by (auto simp: snap_ok_def)
  have s1: "f = f_next s" and s2: "s1 = set_entries d ((f_names s d)(m := Some f)) (set_inode f empty_inode (s\<lparr>f_next := f + 1\<rparr>))"
    using assms(3) by (auto simp: create_file_def Let_def)
  have fresh: "v k \<noteq> Some f" if "v \<in> set (versions d s)" for v k using fs_wf_fresh [OF wf that] s1 by simp
  have fresh': "f_names s d k \<noteq> Some f" for k by (rule fresh) simp
  have "fs_wf (set_inode f empty_inode (s\<lparr>f_next := f + 1\<rparr>))"
    using fs_wf_next [OF wf, of "f + 1"] s1 by (simp add: fs_wf_set_inode)
  then have "fs_wf s1" using fs_wf_names [OF wf, of d] unfolding s2
    by (intro fs_wf_set_entries) (auto simp: s1 less_Suc_eq split: if_splits)
  moreover have "tmp_apart d n t s1"
    using ta fresh fresh' assms(2) by (fastforce simp: tmp_apart_def s2)
  moreover have "snap_entry R (v n) s1" if "v \<in> set (versions d s)" for v
    using ve [OF that] fresh [OF that, of n] by (cases "v n") (auto simp: s2)
  ultimately show "snap_ok d n t R s1"
    using assms(2) by (auto simp: snap_ok_def s2 versions_def [of d s])
  show "contents d n s1 = contents d n s" "f_names s1 d m = Some f" "i_data (f_inodes s1 f) = []" "f_names s1 d n \<noteq> Some f"
    using assms(2) fresh' [of n] by (cases "f_names s d n"; auto simp: contents_def s2 empty_inode_def)+
qed

lemma snap_ok_rename:
  assumes "snap_ok d n t R s" and "f_names s d t = Some f" and "i_clean (f_inodes s f)"
  defines "s1 \<equiv> set_entries d ((f_names s d)(t := None, n := Some f)) s"
  shows "snap_ok d n t (\<lambda>c. R c \<or> c = Some (i_data (f_inodes s f))) s1" and "contents d n s1 = Some (i_data (f_inodes s f))"
proof -
  have wf: "fs_wf s" and ta: "tmp_apart d n t s" and ve: "\<And>v. v \<in> set (versions d s) \<Longrightarrow> snap_entry R (v n) s"
    using assms(1) by (auto simp: snap_ok_def)
  have "fs_wf s1" unfolding s1_def
    by (rule fs_wf_set_entries [OF wf]) (use fs_wf_names [OF wf] assms(2) in \<open>auto split: if_splits\<close>)
  moreover have "tmp_apart d n t s1" using ta by (auto simp: tmp_apart_def s1_def)
  moreover have "snap_entry (\<lambda>c. R c \<or> c = Some (i_data (f_inodes s f))) (v n) s1" if "v \<in> set (versions d s)" for v
    using snap_entry_mono [OF ve [OF that]] by (simp add: s1_def)
  ultimately show "snap_ok d n t (\<lambda>c. R c \<or> c = Some (i_data (f_inodes s f))) s1"
    using assms(3) by (auto simp: snap_ok_def s1_def)
  show "contents d n s1 = Some (i_data (f_inodes s f))" by (simp add: contents_def s1_def)
qed

lemma snap_ok_sync:
  assumes "snap_ok d n t R s"
  shows "snap_ok d n t (\<lambda>c. c = contents d n s) (s\<lparr>f_olds := (f_olds s)(d := [])\<rparr>)"
proof -
  have "snap_entry R (f_names s d n) s" "tmp_apart d n t s" "fs_wf s"
    using assms current_version [of s d] by (auto simp: snap_ok_def simp del: current_version)
  then show ?thesis
    using current_version [of s d]
    by (cases "f_names s d n") (auto simp: snap_ok_def fs_wf_sync tmp_apart_def contents_def simp del: current_version)
qed

lemma snap_ok_crash:
  assumes "snap_ok d n t R s"
  shows "snap_ok d n t (\<lambda>c. c = contents d n (crash cc s)) (crash cc s)" and "R (contents d n (crash cc s))"
proof -
  let ?s = "crash cc s"
  have wf: "fs_wf s" and ta: "tmp_apart d n t s" and ve: "\<And>v. v \<in> set (versions d s) \<Longrightarrow> snap_entry R (v n) s"
    using assms by (auto simp: snap_ok_def)
  have old: "f_names ?s d \<in> set (versions d s)" by (simp add: crash_def)
  have "fs_wf ?s" by (rule fs_wf_crash [OF wf])
  moreover have "tmp_apart d n t ?s" by (rule tmp_apart_crash [OF ta])
  moreover have e: "snap_entry R (f_names ?s d n) ?s"
    using ve [OF old] by (cases "f_names ?s d n") (auto simp: crash_def crash_inode_def)
  moreover have "versions d ?s = [f_names ?s d]" by (simp add: versions_def crash_def)
  ultimately show "snap_ok d n t (\<lambda>c. c = contents d n ?s) ?s" and "R (contents d n ?s)"
    by (cases "f_names ?s d n"; auto simp: snap_ok_def contents_def)+
qed

section \<open>Replacing the file\<close>

definition replace_file :: "bytes \<Rightarrow> bytes \<Rightarrow> bytes \<Rightarrow> bytes \<Rightarrow> unit io" where
  "replace_file d t n bs =
     io_bind (fs_open \<lparr>oo_truncate = True, oo_create = True, oo_create_new = False\<rparr> (Path d t)) (\<lambda>f.
     io_bind (fs_write_all f bs) (\<lambda>_.
     io_bind (fs_flush f) (\<lambda>_.
     io_bind (fs_sync_all f) (\<lambda>_.
     fs_rename d t n))))"

text \<open>The temporary file while it is written: what it holds, and that the file is untouched.\<close>

definition drafting :: "bytes \<Rightarrow> bytes \<Rightarrow> bytes \<Rightarrow> (bytes option \<Rightarrow> bool) \<Rightarrow> bytes option \<Rightarrow> handle \<Rightarrow> bytes \<Rightarrow> fs \<Rightarrow> bool" where
  "drafting d n t R c f bs s \<longleftrightarrow>
     snap_ok d n t R s \<and> contents d n s = c \<and> f_names s d t = Some f \<and> i_data (f_inodes s f) = bs"

lemma fault_free_drafting [intro, simp]: "fault_free (drafting d n t R c f bs)"
  by (simp add: drafting_def fault_free_def)

lemma drafting_inode:
  assumes "drafting d n t R c f bs s" and "inode_wf nd" and "i_data nd = bs'"
  shows "drafting d n t R c f bs' (set_inode f nd s)"
proof -
  have "v n \<noteq> Some f" if "v \<in> set (versions d s)" for v
    using assms(1) that by (auto simp: drafting_def snap_ok_def tmp_apart_def)
  then show ?thesis
    using assms snap_ok_other [of d n t R s nd f] contents_other [of s d n f nd] current_version [of s d]
    by (auto simp: drafting_def simp del: current_version)
qed

lemma snap_inode_wf: "snap_ok d n t R s \<Longrightarrow> inode_wf (f_inodes s i)"
  by (simp add: snap_ok_def fs_wf_inode)

lemma spec_open_draft:
  assumes "n \<noteq> t"
  shows "spec (\<lambda>s. snap_ok d n t R s \<and> contents d n s = c)
     (fs_open \<lparr>oo_truncate = True, oo_create = True, oo_create_new = False\<rparr> (Path d t))
     (\<lambda>f. drafting d n t R c f []) (\<lambda>s. snap_ok d n t R s \<and> contents d n s = c)"
proof -
  have "drafting d n t R c f [] (set_inode f (truncate_to 0 (f_inodes s f)) s)"
    if "snap_ok d n t R s" "contents d n s = c" "f_names s d t = Some f" for s f
    using that snap_inode_wf [OF that(1)]
    by (intro drafting_inode [where bs = "i_data (f_inodes s f)"]) (auto simp: drafting_def, simp add: truncate_to_def)
  moreover have "drafting d n t R c f [] s1"
    if "snap_ok d n t R s" "contents d n s = c" "create_file (Path d t) s = (f, s1)" for s f s1
    using snap_ok_create [OF that(1) _ that(3)] that(2) assms by (auto simp: drafting_def)
  ultimately show ?thesis
    unfolding fs_open_def
    by (intro spec_syscall) (auto simp: spec_def lookup_def split: option.splits prod.splits)
qed

lemma spec_write_draft:
  "spec (drafting d n t R c f []) (fs_write_all f bs) (\<lambda>_. drafting d n t R c f bs) (\<lambda>s. snap_ok d n t R s \<and> contents d n s = c)"
proof -
  have "drafting d n t R c f bs' (set_inode f (append_to bs' (f_inodes s f)) s)" if "drafting d n t R c f [] s" for s bs'
    using that snap_inode_wf by (intro drafting_inode [OF that]) (auto simp: drafting_def)
  then show ?thesis
    unfolding fs_write_all_def
    by (intro spec_syscall) (auto simp: spec_def, auto simp: drafting_def)
qed

lemma spec_sync_draft:
  "spec (drafting d n t R c f bs) (fs_sync_all f) (\<lambda>_ s. drafting d n t R c f bs s \<and> i_clean (f_inodes s f))
     (\<lambda>s. snap_ok d n t R s \<and> contents d n s = c)"
proof -
  have "drafting d n t R c f bs (set_inode f (flushed (f_inodes s f)) s)" if "drafting d n t R c f bs s" for s
    using that by (intro drafting_inode [OF that]) (auto simp: drafting_def)
  then show ?thesis
    unfolding fs_sync_all_def
    by (intro spec_syscall) (auto simp: spec_def, auto simp: drafting_def)
qed

lemma spec_replace_file:
  assumes "n \<noteq> t"
  shows "spec (\<lambda>s. snap_ok d n t R s \<and> contents d n s = c) (replace_file d t n bs)
     (\<lambda>_ s. snap_ok d n t (\<lambda>x. R x \<or> x = Some bs) s \<and> contents d n s = Some bs)
     (\<lambda>s. snap_ok d n t R s \<and> contents d n s = c)"
proof -
  have "spec (\<lambda>s. drafting d n t R c f bs s \<and> i_clean (f_inodes s f)) (fs_rename d t n)
     (\<lambda>_ s. snap_ok d n t (\<lambda>x. R x \<or> x = Some bs) s \<and> contents d n s = Some bs)
     (\<lambda>s. snap_ok d n t R s \<and> contents d n s = c)" for f
    unfolding fs_rename_def
    by (rule spec_syscall) (auto simp: spec_def drafting_def fault_free_def snap_ok_rename split: option.splits)
  note tail = spec_bind [OF spec_sync_draft this]
  have "spec (drafting d n t R c f bs) (io_bind (fs_flush f) (\<lambda>_. io_bind (fs_sync_all f) (\<lambda>_. fs_rename d t n)))
     (\<lambda>_ s. snap_ok d n t (\<lambda>x. R x \<or> x = Some bs) s \<and> contents d n s = Some bs)
     (\<lambda>s. snap_ok d n t R s \<and> contents d n s = c)" for f
    unfolding fs_flush_def by (rule spec_bind [OF spec_return tail])
  then show ?thesis
    unfolding replace_file_def by (intro spec_bind [OF spec_open_draft [OF assms]] spec_bind [OF spec_write_draft])
qed

text \<open>Syncing the directory leaves the present contents as the only ones.\<close>

lemma spec_settle:
  "spec (\<lambda>s. snap_ok d n t R s \<and> contents d n s = c) (fs_sync_dir d)
     (\<lambda>_ s. snap_ok d n t (\<lambda>x. x = c) s \<and> contents d n s = c) (\<lambda>s. snap_ok d n t R s \<and> contents d n s = c)"
  unfolding fs_sync_dir_def
  by (rule spec_bind [OF spec_check], simp, rule spec_syscall) (auto simp: spec_def intro: snap_ok_sync)

text \<open>Opening another file of the directory, such as a lock.\<close>

lemma spec_open_other:
  assumes "m \<noteq> n"
  shows "spec (\<lambda>s. snap_ok d n t R s \<and> contents d n s = c) (fs_open \<lparr>oo_truncate = False, oo_create = True, oo_create_new = False\<rparr> (Path d m))
     (\<lambda>_ s. snap_ok d n t R s \<and> contents d n s = c) (\<lambda>s. snap_ok d n t R s \<and> contents d n s = c)"
  unfolding fs_open_def
  by (rule spec_syscall) (auto simp: spec_def lookup_def snap_ok_create [OF _ assms] split: option.splits prod.splits)

text \<open>Reading the file gives its contents, or tells that there is none, or fails otherwise.\<close>

lemma read_file_cases:
  assumes "fs_read_file (Path d n) s = (r, s1)"
  shows "(\<exists>fl. s1 = s\<lparr>f_faults := fl\<rparr>) \<or> s1 = s"
    and "case r of Inr bs \<Rightarrow> contents d n s = Some bs | Inl e \<Rightarrow> err_kind e = NotFound \<longrightarrow> contents d n s = None"
  using assms
  by (auto simp: fs_read_file_def syscall_def lookup_def contents_def split: list.splits fault.splits option.splits if_splits)

end
