(* ===== verification/Portal_Store.thy ===== *)
theory Portal_Store
  imports Nullifier
begin

text \<open>
  The Portal's account store: the domain model (nil-portal/src/account/model.rs), the encodings the
  durable backends share (nil-portal/src/store/mod.rs) and the volatile store
  (nil-portal/src/store/memory.rs). A fixed-size byte array is the list of its bytes, a hash map an
  association list, and an operation that takes the write lock is a function from the state to a
  result and the next state. The lemmas show that the encodings lose nothing.
\<close>

section \<open>Accounts\<close>

datatype entitlement = EntNone | EntActive u64 | EntExpired

definition resolved :: "entitlement \<Rightarrow> u64 \<Rightarrow> entitlement" where
  "resolved e now = (case e of EntActive until \<Rightarrow> if until \<le> now then EntExpired else e | _ \<Rightarrow> e)"

definition active_until :: "entitlement \<Rightarrow> u64 \<Rightarrow> u64 option" where
  "active_until e now = (case resolved e now of EntActive until \<Rightarrow> Some until | _ \<Rightarrow> None)"

datatype entitlement_dto = DtoNone | DtoActive | DtoExpired

primrec entitlement_to_dto :: "entitlement \<Rightarrow> entitlement_dto" where
  "entitlement_to_dto EntNone = DtoNone"
| "entitlement_to_dto (EntActive until) = DtoActive"
| "entitlement_to_dto EntExpired = DtoExpired"

record account_record =
  ar_account_number :: bytes
  ar_entitlement :: entitlement
  ar_auth_pubkey :: bytes

section \<open>Encodings of the durable backends\<close>

definition hex32 :: "bytes \<Rightarrow> bytes" where
  "hex32 b = concat (map fmt_02x b)"

definition unhex32 :: "bytes \<Rightarrow> bytes option" where
  "unhex32 s = (if length s \<noteq> 64 then None else hex_chunks s)"

primrec ent_str :: "entitlement \<Rightarrow> bytes" where
  "ent_str EntNone = lit ''none''"
| "ent_str (EntActive until) = lit ''active:'' @ u_to_string until"
| "ent_str EntExpired = lit ''expired''"

definition ent_from :: "bytes \<Rightarrow> entitlement option" where
  "ent_from s =
     (if s = lit ''none'' then Some EntNone
      else if s = lit ''expired'' then Some EntExpired
      else if s = lit ''active'' then Some EntExpired
      else if take 7 s = lit ''active:'' then map_option EntActive (parse_u64 (drop 7 s))
      else None)"

definition auth_str :: "bytes \<Rightarrow> bytes" where
  "auth_str pk = hex32 pk"

definition auth_from :: "bytes \<Rightarrow> bytes option" where
  "auth_from s = (if s = [] then Some (replicate 32 0) else unhex32 s)"

datatype store_error = Duplicate | Backend string

definition MAX_MINT_BATCH_SIZE :: nat where "MAX_MINT_BATCH_SIZE = 16"
definition BLIND_TOKEN_HEX_LEN :: nat where "BLIND_TOKEN_HEX_LEN = 512"
definition RESULT_AAD_DOMAIN :: bytes where "RESULT_AAD_DOMAIN = lit ''nilvpn.portal-result.v1''"
definition RESULT_NONCE_LEN :: nat where "RESULT_NONCE_LEN = 12"
definition RESULT_TAG_LEN :: nat where "RESULT_TAG_LEN = 16"
definition RAW_SIGNATURE_BYTES :: nat where "RAW_SIGNATURE_BYTES = BLIND_TOKEN_HEX_LEN div 2"
definition MAX_RESULT_PLAINTEXT_BYTES :: nat where
  "MAX_RESULT_PLAINTEXT_BYTES = 1 + MAX_MINT_BATCH_SIZE * RAW_SIGNATURE_BYTES"

datatype result_kind = OneShot | SubscriptionMint

primrec result_kind_byte :: "result_kind \<Rightarrow> byte" where
  "result_kind_byte OneShot = 1"
| "result_kind_byte SubscriptionMint = 2"

definition result_aad :: "result_kind \<Rightarrow> bytes \<Rightarrow> bytes \<Rightarrow> u64 \<Rightarrow> bytes" where
  "result_aad kind operation_key request_hash expires_at =
     RESULT_AAD_DOMAIN @ [result_kind_byte kind] @ operation_key @ request_hash @ to_be 8 expires_at"

definition result_seal ::
  "aead \<Rightarrow> bytes \<Rightarrow> result_kind \<Rightarrow> bytes \<Rightarrow> bytes \<Rightarrow> u64 \<Rightarrow> bytes \<Rightarrow> bytes option \<Rightarrow> store_error + bytes" where
  "result_seal A ckey kind operation_key request_hash expires_at plaintext entropy =
     (if plaintext = [] \<or> length plaintext > MAX_RESULT_PLAINTEXT_BYTES then
        Inl (Backend ''portal replay result is empty or exceeds its fixed bound'')
      else
        bindE (ok_or (Backend ''portal replay nonce entropy unavailable'') entropy) (\<lambda>nonce.
        if length ckey \<noteq> 32 then Inl (Backend ''invalid portal result key'')
        else
          bindE (ok_or (Backend ''encrypt portal replay result'')
                   (ae_encrypt A ckey nonce (result_aad kind operation_key request_hash expires_at) plaintext)) (\<lambda>encrypted.
          Inr (nonce @ encrypted))))"

definition result_open ::
  "aead \<Rightarrow> bytes \<Rightarrow> result_kind \<Rightarrow> bytes \<Rightarrow> bytes \<Rightarrow> u64 \<Rightarrow> bytes \<Rightarrow> store_error + bytes" where
  "result_open A ckey kind operation_key request_hash expires_at stored =
     (if \<not> (RESULT_NONCE_LEN + RESULT_TAG_LEN \<le> length stored \<and>
            length stored \<le> RESULT_NONCE_LEN + RESULT_TAG_LEN + MAX_RESULT_PLAINTEXT_BYTES) then
        Inl (Backend ''portal replay ciphertext has an invalid length'')
      else if length ckey \<noteq> 32 then Inl (Backend ''invalid portal result key'')
      else
        bindE (ok_or (Backend ''portal replay authentication failed'')
                 (ae_decrypt A ckey (take RESULT_NONCE_LEN stored) (result_aad kind operation_key request_hash expires_at)
                    (drop RESULT_NONCE_LEN stored))) (\<lambda>plaintext.
        if plaintext = [] \<or> length plaintext > MAX_RESULT_PLAINTEXT_BYTES then
          Inl (Backend ''portal replay plaintext has an invalid length'')
        else Inr plaintext))"

fun encode_signatures :: "bytes list \<Rightarrow> store_error + bytes" where
  "encode_signatures [] = Inr []"
| "encode_signatures (signature # rest) =
     (if length signature \<noteq> RAW_SIGNATURE_BYTES then Inl (Backend ''refusing to persist a wrong-length mint signature'')
      else bindE (encode_signatures rest) (\<lambda>encoded. Inr (signature @ encoded)))"

definition encode_mint_payload :: "bytes list \<Rightarrow> store_error + bytes" where
  "encode_mint_payload signatures =
     (if signatures = [] \<or> length signatures > MAX_MINT_BATCH_SIZE then
        Inl (Backend ''refusing to persist an invalid mint signature batch size'')
      else bindE (encode_signatures signatures) (\<lambda>encoded. Inr (word_of_nat (length signatures) # encoded)))"

text \<open>\<open>chunks_exact\<close> of a slice whose length is a multiple of the chunk length.\<close>

fun chunks :: "nat \<Rightarrow> nat \<Rightarrow> bytes \<Rightarrow> bytes list" where
  "chunks n 0 bs = []"
| "chunks n (Suc count) bs = take n bs # chunks n count (drop n bs)"

definition decode_mint_payload :: "bytes \<Rightarrow> store_error + bytes list" where
  "decode_mint_payload payload =
     (case payload of
        [] \<Rightarrow> Inl (Backend ''mint replay payload is empty'')
      | c # signatures \<Rightarrow>
          (let count = unat c in
           if count = 0 \<or> count > MAX_MINT_BATCH_SIZE \<or> length signatures \<noteq> count * RAW_SIGNATURE_BYTES then
             Inl (Backend ''mint replay payload has an invalid shape'')
           else Inr (chunks RAW_SIGNATURE_BYTES count signatures)))"

section \<open>Results\<close>

record mint_quota =
  mq_quota_key :: bytes
  mq_window_start :: u64
  mq_window_end :: u64
  mq_cost :: u32
  mq_max :: u32

definition is_well_formed :: "mint_quota \<Rightarrow> u64 \<Rightarrow> bool" where
  "is_well_formed q now \<longleftrightarrow> mq_window_start q \<le> now \<and> now < mq_window_end q \<and> mq_cost q \<noteq> 0 \<and> mq_max q \<noteq> 0"

datatype subscription_activation = NewlyActivated u64 | ActivationReplay u64

primrec activation_until :: "subscription_activation \<Rightarrow> u64" where
  "activation_until (NewlyActivated until) = until"
| "activation_until (ActivationReplay until) = until"

record issuance_result =
  ir_request_hash :: bytes
  ir_blind_sig :: bytes
  ir_replay_until :: u64

datatype issuance_lookup = IssuanceMissing | IssuanceReplay bytes | IssuanceConflict
datatype issuance_commit = IssuanceStored | IssuanceCommitReplay bytes | IssuanceCommitConflict

record mint_result =
  mr_request_hash :: bytes
  mr_blind_sigs :: "bytes list"
  mr_expires_at :: u64

datatype mint_lookup = MintMissing | MintReplay "bytes list" | MintConflict
datatype mint_commit = MintStored | MintCommitReplay "bytes list" | MintCommitConflict | QuotaExceeded

section \<open>The volatile store\<close>

record portal_state =
  ps_accounts :: "(bytes \<times> account_record) list"
  ps_activation_results :: "(bytes \<times> u64) list"
  ps_issuance_results :: "(bytes \<times> issuance_result) list"
  ps_mint_results :: "(bytes \<times> mint_result) list"
  ps_mint_quotas :: "((bytes \<times> u64) \<times> (u64 \<times> u32 \<times> u32)) list"

definition empty_state :: portal_state where
  "empty_state = \<lparr>ps_accounts = [], ps_activation_results = [], ps_issuance_results = [], ps_mint_results = [], ps_mint_quotas = []\<rparr>"

definition store_insert :: "account_record \<Rightarrow> portal_state \<Rightarrow> (store_error + unit) \<times> portal_state" where
  "store_insert r s =
     (if map_of (ps_accounts s) (ar_account_number r) \<noteq> None then (Inl Duplicate, s)
      else (Inr (), s\<lparr>ps_accounts := AList.update (ar_account_number r) r (ps_accounts s)\<rparr>))"

definition store_get :: "bytes \<Rightarrow> portal_state \<Rightarrow> account_record option" where
  "store_get account_number s = map_of (ps_accounts s) account_number"

definition activate_subscription ::
  "bytes \<Rightarrow> bytes \<Rightarrow> u64 \<Rightarrow> u64 \<Rightarrow> portal_state \<Rightarrow> subscription_activation option \<times> portal_state" where
  "activate_subscription account_number activation_key now by s =
     (case map_of (ps_accounts s) account_number of
        None \<Rightarrow> (None, s)
      | Some rec \<Rightarrow>
          (case map_of (ps_activation_results s) activation_key of
             Some until \<Rightarrow> (Some (ActivationReplay until), s)
           | None \<Rightarrow>
               (let base = (case active_until (ar_entitlement rec) now of Some u \<Rightarrow> u | None \<Rightarrow> now);
                    until = saturating_add base by
                in (Some (NewlyActivated until),
                    s\<lparr>ps_accounts := AList.update account_number (rec\<lparr>ar_entitlement := EntActive until\<rparr>) (ps_accounts s),
                      ps_activation_results := AList.update activation_key until (ps_activation_results s)\<rparr>))))"

definition replayable :: "issuance_result \<Rightarrow> bytes \<Rightarrow> u64 \<Rightarrow> bool" where
  "replayable r request_hash now \<longleftrightarrow> ir_request_hash r = request_hash \<and> now < ir_replay_until r \<and> ir_blind_sig r \<noteq> []"

definition lookup_issuance :: "bytes \<Rightarrow> bytes \<Rightarrow> u64 \<Rightarrow> portal_state \<Rightarrow> issuance_lookup" where
  "lookup_issuance issuance_key request_hash now s =
     (case map_of (ps_issuance_results s) issuance_key of
        None \<Rightarrow> IssuanceMissing
      | Some r \<Rightarrow> if replayable r request_hash now then IssuanceReplay (ir_blind_sig r) else IssuanceConflict)"

definition commit_issuance ::
  "bytes \<Rightarrow> issuance_result \<Rightarrow> u64 \<Rightarrow> portal_state \<Rightarrow> (store_error + issuance_commit) \<times> portal_state" where
  "commit_issuance issuance_key r now s =
     (if ir_replay_until r \<le> now \<or> ir_blind_sig r = [] then
        (Inl (Backend ''refusing to store an expired or empty issuance result''), s)
      else
        case map_of (ps_issuance_results s) issuance_key of
          Some existing \<Rightarrow>
            (Inr (if replayable existing (ir_request_hash r) now then IssuanceCommitReplay (ir_blind_sig existing)
                  else IssuanceCommitConflict), s)
        | None \<Rightarrow> (Inr IssuanceStored, s\<lparr>ps_issuance_results := AList.update issuance_key r (ps_issuance_results s)\<rparr>))"

definition scrubs :: "u64 \<Rightarrow> issuance_result \<Rightarrow> bool" where
  "scrubs now r \<longleftrightarrow> ir_replay_until r \<le> now \<and> ir_blind_sig r \<noteq> []"

definition prune_issuance_results :: "u64 \<Rightarrow> portal_state \<Rightarrow> nat \<times> portal_state" where
  "prune_issuance_results now s =
     (length (filter (\<lambda>(_, r). scrubs now r) (ps_issuance_results s)),
      s\<lparr>ps_issuance_results :=
          map (\<lambda>(k, r). (k, if scrubs now r then r\<lparr>ir_blind_sig := []\<rparr> else r)) (ps_issuance_results s)\<rparr>)"

text \<open>Both mint operations first drop the entry of the request when it has expired.\<close>

definition drop_expired_mint :: "bytes \<Rightarrow> u64 \<Rightarrow> portal_state \<Rightarrow> portal_state" where
  "drop_expired_mint request_key now s =
     (case map_of (ps_mint_results s) request_key of
        Some r \<Rightarrow> if mr_expires_at r \<le> now then s\<lparr>ps_mint_results := AList.delete request_key (ps_mint_results s)\<rparr> else s
      | None \<Rightarrow> s)"

definition lookup_mint :: "bytes \<Rightarrow> bytes \<Rightarrow> u64 \<Rightarrow> portal_state \<Rightarrow> mint_lookup \<times> portal_state" where
  "lookup_mint request_key request_hash now s =
     (let s1 = drop_expired_mint request_key now s in
      (case map_of (ps_mint_results s1) request_key of
         None \<Rightarrow> MintMissing
       | Some r \<Rightarrow> if mr_request_hash r = request_hash \<and> mr_blind_sigs r \<noteq> [] then MintReplay (mr_blind_sigs r) else MintConflict,
       s1))"

text \<open>The charge of a quota window: the next entry of the window, or why there is none.\<close>

datatype charge_error = BadQuota string | NoQuota

definition charge_quota :: "mint_quota \<Rightarrow> u64 \<Rightarrow> portal_state \<Rightarrow> charge_error + (u64 \<times> u32 \<times> u32)" where
  "charge_quota q now s =
     (if \<not> is_well_formed q now then Inl (BadQuota ''invalid mint quota window'')
      else if mq_cost q > mq_max q then Inl NoQuota
      else
        let (window_end, used, stored_max) =
          (case map_of (ps_mint_quotas s) (mq_quota_key q, mq_window_start q) of
             Some e \<Rightarrow> e | None \<Rightarrow> (mq_window_end q, 0, mq_max q))
        in if window_end \<noteq> mq_window_end q \<or> stored_max \<noteq> mq_max q then
             Inl (BadQuota ''mint quota window/max conflicts with persisted state'')
           else
             case checked_add used (mq_cost q) of
               None \<Rightarrow> Inl NoQuota
             | Some next_used \<Rightarrow>
                 if next_used > mq_max q then Inl NoQuota else Inr (mq_window_end q, next_used, mq_max q))"

definition commit_mint ::
  "bytes \<Rightarrow> mint_result \<Rightarrow> mint_quota \<Rightarrow> u64 \<Rightarrow> portal_state \<Rightarrow> (store_error + mint_commit) \<times> portal_state" where
  "commit_mint request_key r q now s =
     (if mr_expires_at r \<le> now then (Inl (Backend ''refusing to store an already-expired mint result''), s)
      else
        let s1 = drop_expired_mint request_key now s in
        case map_of (ps_mint_results s1) request_key of
          Some existing \<Rightarrow>
            (Inr (if mr_request_hash existing = mr_request_hash r \<and> mr_blind_sigs existing \<noteq> []
                  then MintCommitReplay (mr_blind_sigs existing) else MintCommitConflict), s1)
        | None \<Rightarrow>
            (case charge_quota q now s1 of
               Inl (BadQuota reason) \<Rightarrow> (Inl (Backend reason), s1)
             | Inl NoQuota \<Rightarrow> (Inr QuotaExceeded, s1)
             | Inr entry \<Rightarrow>
                 (Inr MintStored,
                  s1\<lparr>ps_mint_results := AList.update request_key r (ps_mint_results s1),
                     ps_mint_quotas := AList.update (mq_quota_key q, mq_window_start q) entry (ps_mint_quotas s1)\<rparr>)))"

definition prune_mint_results :: "u64 \<Rightarrow> portal_state \<Rightarrow> nat \<times> portal_state" where
  "prune_mint_results now s =
     (let results = filter (\<lambda>(_, r). now < mr_expires_at r) (ps_mint_results s);
          quotas = filter (\<lambda>(_, window_end, _). now < window_end) (ps_mint_quotas s)
      in ((length (ps_mint_results s) - length results) + (length (ps_mint_quotas s) - length quotas),
          s\<lparr>ps_mint_results := results, ps_mint_quotas := quotas\<rparr>))"

section \<open>The encodings lose nothing\<close>

lemma hex32_to_hex: "hex32 = to_hex"
  by (rule ext) (simp add: hex32_def to_hex_def fmt_02x_hex_byte [abs_def])

lemma unhex32_hex32: "length b = 32 \<Longrightarrow> unhex32 (hex32 b) = Some b"
  by (simp add: unhex32_def hex32_to_hex hex_chunks_to_hex)

lemma length_unhex32: "unhex32 s = Some b \<Longrightarrow> length b = 32"
proof -
  assume "unhex32 s = Some b"
  then have "length s = 64" "hex_chunks s = Some b" by (auto simp: unhex32_def split: if_splits)
  then have "from_hex s = Some b" by (simp add: from_hex_def)
  then show "length b = 32" using length_from_hex \<open>length s = 64\<close> by fastforce
qed

lemma ent_from_str: "ent_from (ent_str e) = Some e"
  by (cases e) (auto simp: ent_from_def lit_def parse_u_to_string)

lemma auth_from_str: "length pk = 32 \<Longrightarrow> auth_from (auth_str pk) = Some pk"
proof -
  assume l: "length pk = 32"
  then have "hex32 pk \<noteq> []" using length_to_hex [of pk] by (auto simp: hex32_to_hex simp del: length_to_hex)
  then show "auth_from (auth_str pk) = Some pk" using unhex32_hex32 [OF l] by (simp add: auth_from_def auth_str_def)
qed

lemma chunks_concat: "list_all (\<lambda>s. length s = n) ss \<Longrightarrow> chunks n (length ss) (concat ss) = ss"
  by (induction ss) auto

lemma concat_chunks: "length bs = count * n \<Longrightarrow> concat (chunks n count bs) = bs \<and> list_all (\<lambda>s. length s = n) (chunks n count bs)"
proof (induction count arbitrary: bs)
  case (Suc count)
  then show ?case using Suc.IH [of "drop n bs"] by auto
qed simp

lemma length_chunks [simp]: "length (chunks n count bs) = count"
  by (induction count arbitrary: bs) auto

lemma encode_signatures_Inr:
  "encode_signatures ss = Inr bs \<longleftrightarrow> list_all (\<lambda>s. length s = RAW_SIGNATURE_BYTES) ss \<and> bs = concat ss"
  by (induction ss arbitrary: bs) (auto split: if_splits)

text \<open>The batches that can be stored, and the exact bytes that decode.\<close>

definition batch_ok :: "bytes list \<Rightarrow> bool" where
  "batch_ok ss \<longleftrightarrow> ss \<noteq> [] \<and> length ss \<le> MAX_MINT_BATCH_SIZE \<and> list_all (\<lambda>s. length s = RAW_SIGNATURE_BYTES) ss"

lemma encode_mint_payload_Inr: "encode_mint_payload ss = Inr p \<longleftrightarrow> batch_ok ss \<and> p = word_of_nat (length ss) # concat ss"
  by (auto simp: encode_mint_payload_def encode_signatures_Inr batch_ok_def split: if_splits)

lemma length_concat_batch: "list_all (\<lambda>s. length s = n) ss \<Longrightarrow> length (concat ss) = length ss * n"
  by (induction ss) auto

lemma unat_batch_length: "batch_ok ss \<Longrightarrow> unat (word_of_nat (length ss) :: byte) = length ss"
  by (simp add: batch_ok_def MAX_MINT_BATCH_SIZE_def unat_of_nat)

lemma decode_mint_payload_Inr: "decode_mint_payload p = Inr ss \<longleftrightarrow> encode_mint_payload ss = Inr p"
proof
  assume "decode_mint_payload p = Inr ss"
  then obtain c rest where p: "p = c # rest" "unat c \<noteq> 0" "unat c \<le> MAX_MINT_BATCH_SIZE" "length rest = unat c * RAW_SIGNATURE_BYTES"
    "ss = chunks RAW_SIGNATURE_BYTES (unat c) rest"
    by (auto simp: decode_mint_payload_def Let_def split: list.splits if_splits)
  then have "ss \<noteq> []" by (metis length_chunks length_0_conv)
  then have "batch_ok ss" "concat ss = rest"
    using p concat_chunks [OF p(4)] by (auto simp: batch_ok_def)
  then show "encode_mint_payload ss = Inr p" using p(1,5) by (simp add: encode_mint_payload_Inr)
next
  assume e: "encode_mint_payload ss = Inr p"
  then have b: "batch_ok ss" "p = word_of_nat (length ss) # concat ss" by (auto simp: encode_mint_payload_Inr)
  then show "decode_mint_payload p = Inr ss"
    using unat_batch_length [OF b(1)] chunks_concat [of RAW_SIGNATURE_BYTES ss]
    by (auto simp: decode_mint_payload_def Let_def batch_ok_def length_concat_batch)
qed

lemma result_seal_Inr:
  assumes "aead_ok A" and "result_seal A ckey kind k h until p (Some nonce) = Inr ct" and "length nonce = RESULT_NONCE_LEN"
  shows "result_open A ckey kind k h until ct = Inr p"
proof -
  have p: "p \<noteq> []" "length p \<le> MAX_RESULT_PLAINTEXT_BYTES" "length ckey = 32"
    and e: "\<exists>enc. ae_encrypt A ckey nonce (result_aad kind k h until) p = Some enc \<and> ct = nonce @ enc"
    using assms(2) by (auto simp: result_seal_def split: if_splits)
  have "length p \<le> MAX_REPLAY_RESULT_BYTES"
    using p(2) by (simp add: MAX_RESULT_PLAINTEXT_BYTES_def MAX_MINT_BATCH_SIZE_def RAW_SIGNATURE_BYTES_def BLIND_TOKEN_HEX_LEN_def
        MAX_REPLAY_RESULT_BYTES_def)
  moreover have "length nonce = NF_NONCE_LEN" using assms(3) by (simp add: RESULT_NONCE_LEN_def NF_NONCE_LEN_def)
  ultimately obtain enc where enc: "ae_encrypt A ckey nonce (result_aad kind k h until) p = Some enc" "length enc = length p + TAG_LEN"
    "ae_decrypt A ckey nonce (result_aad kind k h until) enc = Some p"
    using aead_okD [OF assms(1) p(3), of nonce p "result_aad kind k h until"] by metis
  then have "ct = nonce @ enc" using e by auto
  then show ?thesis
    using enc p assms(3) by (simp add: result_open_def TAG_LEN_def RESULT_TAG_LEN_def)
qed

end
