(* ===== verification/Portal_Histories.thy ===== *)
theory Portal_Histories
  imports Portal_Store
begin

text \<open>
  Histories of the Portal's account store. The operations of the trait \<open>Store\<close>
  (nil-portal/src/store/mod.rs) are one step function over the volatile store; the locale
  \<open>portal_backend\<close> is what a backend promises with respect to it, and the properties of histories
  (a payment is credited once, a checkout reference buys one signature, a mint quota is never
  exceeded) are proved there once, for every backend. A backend says which of its answers are firm, that
  is, rest on a state that no later event takes back.
\<close>

section \<open>Operations\<close>

datatype portal_op =
    OpInsert account_record
  | OpGet bytes
  | OpActivate bytes bytes u64 u64
  | OpLookupIssuance bytes bytes u64
  | OpCommitIssuance bytes issuance_result u64
  | OpPruneIssuance u64
  | OpLookupMint bytes bytes u64
  | OpCommitMint bytes mint_result mint_quota u64
  | OpPruneMint u64

datatype portal_out =
    Inserted "store_error + unit"
  | Got "store_error + account_record option"
  | Activated "store_error + subscription_activation option"
  | IssuanceFound "store_error + issuance_lookup"
  | IssuanceDone "store_error + issuance_commit"
  | IssuancePruned "store_error + nat"
  | MintFound "store_error + mint_lookup"
  | MintDone "store_error + mint_commit"
  | MintPruned "store_error + nat"
  | Unavailable

fun portal_step :: "portal_op \<Rightarrow> portal_state \<Rightarrow> portal_out \<times> portal_state" where
  "portal_step (OpInsert r) s = apfst Inserted (store_insert r s)"
| "portal_step (OpGet a) s = (Got (Inr (store_get a s)), s)"
| "portal_step (OpActivate a k now by) s = apfst (Activated \<circ> Inr) (activate_subscription a k now by s)"
| "portal_step (OpLookupIssuance k h now) s = (IssuanceFound (Inr (lookup_issuance k h now s)), s)"
| "portal_step (OpCommitIssuance k r now) s = apfst IssuanceDone (commit_issuance k r now s)"
| "portal_step (OpPruneIssuance now) s = apfst (IssuancePruned \<circ> Inr) (prune_issuance_results now s)"
| "portal_step (OpLookupMint k h now) s = apfst (MintFound \<circ> Inr) (lookup_mint k h now s)"
| "portal_step (OpCommitMint k r q now) s = apfst MintDone (commit_mint k r q now s)"
| "portal_step (OpPruneMint now) s = apfst (MintPruned \<circ> Inr) (prune_mint_results now s)"

text \<open>An answer that is a failure of the backend says nothing about the accounts.\<close>

definition err :: "store_error + 'a \<Rightarrow> store_error option" where
  "err r = (case r of Inl e \<Rightarrow> Some e | Inr _ \<Rightarrow> None)"

primrec failure :: "portal_out \<Rightarrow> store_error option" where
  "failure (Inserted r) = err r"
| "failure (Got r) = err r"
| "failure (Activated r) = err r"
| "failure (IssuanceFound r) = err r"
| "failure (IssuanceDone r) = err r"
| "failure (IssuancePruned r) = err r"
| "failure (MintFound r) = err r"
| "failure (MintDone r) = err r"
| "failure (MintPruned r) = err r"
| "failure Unavailable = Some (Backend '''')"

definition failed :: "portal_out \<Rightarrow> bool" where
  "failed out \<longleftrightarrow> (case failure out of Some (Backend _) \<Rightarrow> True | _ \<Rightarrow> False)"

lemma err_simps [simp]: "err (Inl e) = Some e" "err (Inr x) = None"
  by (simp_all add: err_def)

text \<open>What an operation leaves alone.\<close>

lemma store_insert_frame:
  "ps_activation_results (snd (store_insert r s)) = ps_activation_results s" "ps_issuance_results (snd (store_insert r s)) = ps_issuance_results s"
  "ps_mint_results (snd (store_insert r s)) = ps_mint_results s" "ps_mint_quotas (snd (store_insert r s)) = ps_mint_quotas s"
  by (simp_all add: store_insert_def)

lemma activate_frame:
  "ps_issuance_results (snd (activate_subscription a k now by s)) = ps_issuance_results s"
  "ps_mint_results (snd (activate_subscription a k now by s)) = ps_mint_results s"
  "ps_mint_quotas (snd (activate_subscription a k now by s)) = ps_mint_quotas s"
  by (simp_all add: activate_subscription_def Let_def split: option.splits)

lemma commit_issuance_frame:
  "ps_accounts (snd (commit_issuance k r now s)) = ps_accounts s"
  "ps_activation_results (snd (commit_issuance k r now s)) = ps_activation_results s"
  "ps_mint_results (snd (commit_issuance k r now s)) = ps_mint_results s"
  "ps_mint_quotas (snd (commit_issuance k r now s)) = ps_mint_quotas s"
  by (simp_all add: commit_issuance_def split: option.splits)

lemma prune_issuance_frame:
  "ps_accounts (snd (prune_issuance_results now s)) = ps_accounts s"
  "ps_activation_results (snd (prune_issuance_results now s)) = ps_activation_results s"
  "ps_mint_results (snd (prune_issuance_results now s)) = ps_mint_results s"
  "ps_mint_quotas (snd (prune_issuance_results now s)) = ps_mint_quotas s"
  by (simp_all add: prune_issuance_results_def)

lemma drop_expired_frame:
  "ps_accounts (drop_expired_mint k now s) = ps_accounts s" "ps_activation_results (drop_expired_mint k now s) = ps_activation_results s"
  "ps_issuance_results (drop_expired_mint k now s) = ps_issuance_results s" "ps_mint_quotas (drop_expired_mint k now s) = ps_mint_quotas s"
  by (simp_all add: drop_expired_mint_def split: option.splits)

lemma lookup_mint_snd [simp]: "snd (lookup_mint k h now s) = drop_expired_mint k now s"
  by (simp add: lookup_mint_def Let_def)

lemma commit_mint_frame:
  "ps_accounts (snd (commit_mint k r q now s)) = ps_accounts s" "ps_activation_results (snd (commit_mint k r q now s)) = ps_activation_results s"
  "ps_issuance_results (snd (commit_mint k r q now s)) = ps_issuance_results s"
  by (simp_all add: commit_mint_def Let_def drop_expired_frame split: option.splits sum.splits charge_error.splits)

lemma prune_mint_frame:
  "ps_accounts (snd (prune_mint_results now s)) = ps_accounts s"
  "ps_activation_results (snd (prune_mint_results now s)) = ps_activation_results s"
  "ps_issuance_results (snd (prune_mint_results now s)) = ps_issuance_results s"
  by (simp_all add: prune_mint_results_def Let_def)

lemmas portal_frames =
  store_insert_frame activate_frame commit_issuance_frame prune_issuance_frame drop_expired_frame commit_mint_frame prune_mint_frame

section \<open>Backends\<close>

text \<open>
  \<open>agrees t s\<close>: a durable image \<open>t\<close> of the state \<open>s\<close> has its accounts, activations, quotas, claims and
  live batches; the signatures of a claim or batch may have become unreadable, and an expired batch
  may still be there.
\<close>

definition quotas_distinct :: "portal_state \<Rightarrow> bool" where
  "quotas_distinct s \<longleftrightarrow> distinct (map fst (ps_mint_quotas s))"

definition claim_agrees :: "issuance_result \<Rightarrow> issuance_result \<Rightarrow> bool" where
  "claim_agrees r' r \<longleftrightarrow> ir_request_hash r' = ir_request_hash r \<and> ir_replay_until r' = ir_replay_until r \<and>
     (ir_blind_sig r' = ir_blind_sig r \<or> ir_blind_sig r' = [])"

definition batch_agrees :: "mint_result \<Rightarrow> mint_result \<Rightarrow> bool" where
  "batch_agrees r' r \<longleftrightarrow> mr_request_hash r' = mr_request_hash r \<and> mr_expires_at r' = mr_expires_at r \<and>
     (mr_blind_sigs r' = mr_blind_sigs r \<or> mr_blind_sigs r' = [])"

definition agrees :: "portal_state \<Rightarrow> portal_state \<Rightarrow> bool" where
  "agrees t s \<longleftrightarrow>
     map_of (ps_accounts t) = map_of (ps_accounts s) \<and>
     map_of (ps_activation_results t) = map_of (ps_activation_results s) \<and>
     (\<forall>k. rel_option claim_agrees (map_of (ps_issuance_results t) k) (map_of (ps_issuance_results s) k)) \<and>
     (\<forall>k r. map_of (ps_mint_results s) k = Some r \<longrightarrow> (\<exists>r'. map_of (ps_mint_results t) k = Some r' \<and> batch_agrees r' r)) \<and>
     map_of (ps_mint_quotas t) = map_of (ps_mint_quotas s) \<and> (quotas_distinct s \<longrightarrow> quotas_distinct t)"

definition durable_fact :: "(portal_state \<Rightarrow> bool) \<Rightarrow> bool" where
  "durable_fact Q \<longleftrightarrow> (\<forall>t s. agrees t s \<longrightarrow> Q s \<longrightarrow> Q t)"

lemma claim_agrees_refl [simp]: "claim_agrees r r"
  by (simp add: claim_agrees_def)

lemma batch_agrees_refl [simp]: "batch_agrees r r"
  by (simp add: batch_agrees_def)

lemma claim_agrees_trans: "claim_agrees a b \<Longrightarrow> claim_agrees b c \<Longrightarrow> claim_agrees a c"
  by (auto simp: claim_agrees_def)

lemma batch_agrees_trans: "batch_agrees a b \<Longrightarrow> batch_agrees b c \<Longrightarrow> batch_agrees a c"
  by (auto simp: batch_agrees_def)

lemma agrees_refl [simp]: "agrees s s"
  by (auto simp: agrees_def intro: option.rel_refl)

lemma rel_claim_trans:
  "rel_option claim_agrees x y \<Longrightarrow> rel_option claim_agrees y z \<Longrightarrow> rel_option claim_agrees x z"
  by (cases x; cases y; cases z) (auto intro: claim_agrees_trans)

lemma agrees_trans:
  assumes "agrees t s" and "agrees s u"
  shows "agrees t u"
proof -
  have "rel_option claim_agrees (map_of (ps_issuance_results t) k) (map_of (ps_issuance_results u) k)" for k
    by (rule rel_claim_trans) (use assms in \<open>auto simp: agrees_def\<close>)
  moreover have "\<exists>r'. map_of (ps_mint_results t) k = Some r' \<and> batch_agrees r' r" if "map_of (ps_mint_results u) k = Some r" for k r
    using that assms batch_agrees_trans unfolding agrees_def by meson
  ultimately show ?thesis using assms unfolding agrees_def by presburger
qed

lemma durable_factD: "durable_fact Q \<Longrightarrow> agrees t s \<Longrightarrow> Q s \<Longrightarrow> Q t"
  by (auto simp: durable_fact_def)

text \<open>
  A backend: its step function over its own inputs, the store operation an input stands for (none for
  a restart), \<open>holds Q s\<close> for a fact \<open>Q\<close> that is true of the accounts whatever failure comes next, and
  the inputs it is given. An answer that is no failure is the one of the volatile store, and what the
  operation makes true is then true durably if the answer is \<open>firm\<close>, as the one that a batch was stored
  has to be; any step keeps a fact that the operation keeps.
\<close>

locale portal_backend =
  fixes step :: "'i \<Rightarrow> 's \<Rightarrow> portal_out \<times> 's" and op_of :: "'i \<Rightarrow> portal_op option"
    and holds :: "(portal_state \<Rightarrow> bool) \<Rightarrow> 's \<Rightarrow> bool" and fits :: "'i \<Rightarrow> 's \<Rightarrow> bool" and firm :: "portal_out \<Rightarrow> bool"
  assumes keeps: "fits i s \<Longrightarrow> holds Q s \<Longrightarrow> durable_fact Q' \<Longrightarrow> (\<And>m. Q m \<Longrightarrow> Q' m) \<Longrightarrow>
      (\<And>m f. op_of i = Some f \<Longrightarrow> Q m \<Longrightarrow> Q' (snd (portal_step f m))) \<Longrightarrow> holds Q' (snd (step i s))"
    and answers: "fits i s \<Longrightarrow> holds Q s \<Longrightarrow> \<not> failed (fst (step i s)) \<Longrightarrow>
      \<exists>f m. op_of i = Some f \<and> Q m \<and> fst (step i s) = fst (portal_step f m) \<and>
        (firm (fst (step i s)) \<longrightarrow> (\<forall>Q'. durable_fact Q' \<longrightarrow> Q' (snd (portal_step f m)) \<longrightarrow> holds Q' (snd (step i s))))"
    and firm_stored: "firm (MintDone (Inr MintStored))"
begin

definition fit_run :: "'i list \<Rightarrow> 's \<Rightarrow> bool" where
  "fit_run is s \<longleftrightarrow> (\<forall>n<length is. fits (is ! n) (snd (run step (take n is) s)))"

abbreviation before :: "'i list \<Rightarrow> 's \<Rightarrow> nat \<Rightarrow> 's" where
  "before is s n \<equiv> snd (run step (take n is) s)"

lemma before_Suc: "n < length is \<Longrightarrow> before is s (Suc n) = snd (step (is ! n) (before is s n))"
  by (simp add: take_Suc_conv_app_nth run_append case_prod_unfold Let_def)

lemma holds_kept:
  assumes "fit_run is s" and "durable_fact Q" and "\<And>f m. Q m \<Longrightarrow> Q (snd (portal_step f m))"
    and "i \<le> j" and "j \<le> length is" and "holds Q (before is s i)"
  shows "holds Q (before is s j)"
  using assms(4,5)
proof (induction j rule: dec_induct)
  case (step n)
  then have "fits (is ! n) (before is s n)" using assms(1) by (simp add: fit_run_def)
  then show ?case using step keeps [of "is ! n" "before is s n" Q Q] assms(2,3) by (simp add: before_Suc)
qed (rule assms(6))

lemma fit_run_snoc: "fit_run (is @ [i]) s \<longleftrightarrow> fit_run is s \<and> fits i (snd (run step is s))"
  by (auto simp: fit_run_def nth_append less_Suc_eq)

lemma reaches: "fit_run is s \<Longrightarrow> holds (\<lambda>_. True) s \<Longrightarrow> j \<le> length is \<Longrightarrow> holds (\<lambda>_. True) (before is s j)"
  using holds_kept [of "is" s "\<lambda>_. True" 0 j] by (simp add: durable_fact_def)

text \<open>A fact a firm answer establishes and every operation keeps is true of the state a later answer comes from.\<close>

lemma established:
  assumes fr: "fit_run is s" and top: "holds (\<lambda>_. True) s" and ij: "i < j" "j < length is"
    and Q: "durable_fact Q" "\<And>f m. Q m \<Longrightarrow> Q (snd (portal_step f m))"
    and est: "\<And>m. out1 = fst (portal_step f1 m) \<Longrightarrow> Q (snd (portal_step f1 m))"
    and o1: "op_of (is ! i) = Some f1" "fst (run step is s) ! i = out1" "\<not> failed out1" "firm out1"
    and o2: "op_of (is ! j) = Some f2" "fst (run step is s) ! j = out2" "\<not> failed out2"
  shows "\<exists>m. Q m \<and> out2 = fst (portal_step f2 m)"
proof -
  have i: "i < length is" using ij by simp
  have o: "out1 = fst (step (is ! i) (before is s i))" "out2 = fst (step (is ! j) (before is s j))"
    using o1(2) o2(2) run_nth [OF i, of step s] run_nth [OF ij(2), of step s] by simp_all
  have fit: "fits (is ! i) (before is s i)" "fits (is ! j) (before is s j)"
    using fr i ij(2) by (simp_all add: fit_run_def)
  have "holds (\<lambda>_. True) (before is s i)" using reaches [OF fr top] i by simp
  from answers [OF fit(1) this] o(1) o1 obtain m where "out1 = fst (portal_step f1 m)"
    and m: "\<forall>Q'. durable_fact Q' \<longrightarrow> Q' (snd (portal_step f1 m)) \<longrightarrow> holds Q' (snd (step (is ! i) (before is s i)))" by auto
  then have "holds Q (before is s (Suc i))" using est Q(1) i by (simp add: before_Suc)
  then have "holds Q (before is s j)"
    using holds_kept [OF fr Q, of "Suc i" j] ij by simp
  from answers [OF fit(2) this] o(2) o2 show ?thesis by auto
qed

end

section \<open>Facts that operations keep\<close>

subsection \<open>Payments\<close>

lemma activation_kept:
  assumes "map_of (ps_activation_results s) k = Some u"
  shows "map_of (ps_activation_results (snd (portal_step i s))) k = Some u"
proof (cases i)
  case (OpActivate a k2 now period)
  then show ?thesis using assms by (auto simp: activate_subscription_def Let_def update_conv' split: option.splits)
qed (simp_all add: portal_frames assms)

lemma activation_recorded:
  "fst (activate_subscription a k now by s) = Some x \<Longrightarrow>
     map_of (ps_activation_results (snd (activate_subscription a k now by s))) k = Some (activation_until x)"
  by (auto simp: activate_subscription_def Let_def update_conv' split: option.splits)

lemma first_activation:
  "fst (activate_subscription a k now period s) = Some x \<Longrightarrow>
     \<forall>u. x = NewlyActivated u \<longrightarrow> (\<exists>r. map_of (ps_accounts s) a = Some r \<and>
       u = saturating_add (case ar_entitlement r of EntActive e \<Rightarrow> max e now | _ \<Rightarrow> now) period)"
  by (auto simp: activate_subscription_def active_until_def resolved_def Let_def max_def split: option.splits entitlement.splits if_splits)

lemma activation_replayed:
  "map_of (ps_activation_results s) k = Some u \<Longrightarrow> fst (activate_subscription a k now by s) = Some x \<Longrightarrow> x = ActivationReplay u"
  by (auto simp: activate_subscription_def split: option.splits)

subsection \<open>One-shot issuance\<close>

text \<open>The signature an operation hands out for a checkout reference, with the request it is for.\<close>

fun issued :: "portal_op \<Rightarrow> portal_out \<Rightarrow> (bytes \<times> bytes \<times> bytes) option" where
  "issued (OpLookupIssuance k h now) (IssuanceFound (Inr (IssuanceReplay sig))) = Some (k, h, sig)"
| "issued (OpCommitIssuance k r now) (IssuanceDone (Inr IssuanceStored)) = Some (k, ir_request_hash r, ir_blind_sig r)"
| "issued (OpCommitIssuance k r now) (IssuanceDone (Inr (IssuanceCommitReplay sig))) = Some (k, ir_request_hash r, sig)"
| "issued _ _ = None"

definition bound_to :: "bytes \<Rightarrow> bytes \<Rightarrow> bytes \<Rightarrow> portal_state \<Rightarrow> bool" where
  "bound_to k h sig s \<longleftrightarrow> (\<exists>r. map_of (ps_issuance_results s) k = Some r \<and> ir_request_hash r = h \<and> (ir_blind_sig r = sig \<or> ir_blind_sig r = []))"

lemma bound_to_kept:
  assumes "bound_to k h sig s"
  shows "bound_to k h sig (snd (portal_step i s))"
proof (cases i)
  case (OpCommitIssuance k2 r now)
  then show ?thesis using assms by (auto simp: bound_to_def commit_issuance_def update_conv' split: option.splits)
next
  case (OpPruneIssuance now)
  obtain r where r: "map_of (ps_issuance_results s) k = Some r" "ir_request_hash r = h" "ir_blind_sig r = sig \<or> ir_blind_sig r = []"
    using assms by (auto simp: bound_to_def)
  then show ?thesis
    using OpPruneIssuance
    by (auto simp: bound_to_def prune_issuance_results_def map_of_map intro!: exI [of _ "if scrubs now r then r\<lparr>ir_blind_sig := []\<rparr> else r"])
qed (use assms in \<open>simp_all add: bound_to_def portal_frames\<close>)

lemma issued_bound:
  assumes "issued i (fst (portal_step i s)) = Some (k, h, sig)"
  shows "bound_to k h sig (snd (portal_step i s))"
  using assms
  by (cases i) (auto simp: bound_to_def lookup_issuance_def commit_issuance_def replayable_def case_prod_unfold Let_def update_conv'
      split: option.splits if_splits)

lemma bound_to_issued:
  assumes "bound_to k h sig s" and "issued i (fst (portal_step i s)) = Some (k, h2, sig2)"
  shows "h2 = h \<and> sig2 = sig"
  using assms
  by (cases i) (auto simp: bound_to_def lookup_issuance_def commit_issuance_def replayable_def case_prod_unfold Let_def
      split: option.splits if_splits)

lemma issued_not_failed: "issued f out = Some x \<Longrightarrow> \<not> failed out"
  by (cases "(f, out)" rule: issued.cases) (auto simp: failed_def)

subsection \<open>Mint quotas\<close>

fun op_clock :: "portal_op \<Rightarrow> u64 option" where
  "op_clock (OpInsert r) = None"
| "op_clock (OpGet a) = None"
| "op_clock (OpActivate a k now by) = Some now"
| "op_clock (OpLookupIssuance k h now) = Some now"
| "op_clock (OpCommitIssuance k ir now) = Some now"
| "op_clock (OpPruneIssuance now) = Some now"
| "op_clock (OpLookupMint k h now) = Some now"
| "op_clock (OpCommitMint k m q now) = Some now"
| "op_clock (OpPruneMint now) = Some now"

fun stored_cost :: "bytes \<times> u64 \<times> u64 \<Rightarrow> portal_op \<times> portal_out \<Rightarrow> nat" where
  "stored_cost w (OpCommitMint k m q now, MintDone (Inr MintStored)) =
     (if w = (mq_quota_key q, mq_window_start q, mq_window_end q) then unat (mq_cost q) else 0)"
| "stored_cost w _ = 0"

definition window_ok :: "u64 \<Rightarrow> bytes \<times> u64 \<times> u64 \<Rightarrow> nat \<Rightarrow> portal_state \<Rightarrow> bool" where
  "window_ok t w n s \<longleftrightarrow> (case w of (k, ws, we) \<Rightarrow>
     n = 0 \<or> we \<le> t \<or> (\<exists>u m. map_of (ps_mint_quotas s) (k, ws) = Some (we, u, m) \<and> n \<le> unat u))"

lemma quotas_distinct_step: "quotas_distinct s \<Longrightarrow> quotas_distinct (snd (portal_step i s))"
proof (cases i)
  case (OpCommitMint k m q now)
  then show "quotas_distinct s \<Longrightarrow> ?thesis"
    by (auto simp: quotas_distinct_def commit_mint_def Let_def drop_expired_frame distinct_update
        split: option.splits sum.splits charge_error.splits)
next
  case (OpPruneMint now)
  then show "quotas_distinct s \<Longrightarrow> ?thesis"
    by (auto simp: quotas_distinct_def prune_mint_results_def Let_def distinct_map inj_on_def)
qed (simp_all add: quotas_distinct_def portal_frames)

lemma commit_mint_quota:
  "(\<exists>entry. fst (commit_mint k m q now s) = Inr MintStored \<and> charge_quota q now s = Inr entry \<and>
      ps_mint_quotas (snd (commit_mint k m q now s)) = AList.update (mq_quota_key q, mq_window_start q) entry (ps_mint_quotas s)) \<or>
   fst (commit_mint k m q now s) \<noteq> Inr MintStored \<and> ps_mint_quotas (snd (commit_mint k m q now s)) = ps_mint_quotas s"
proof -
  have "charge_quota q now (drop_expired_mint k now s) = charge_quota q now s" by (simp add: charge_quota_def drop_expired_frame)
  then show ?thesis
    by (auto simp: commit_mint_def Let_def drop_expired_frame split: option.splits sum.splits charge_error.splits)
qed

lemma charge_quota_Inr:
  assumes "charge_quota q now s = Inr entry"
  shows "\<exists>u. unat u + unat (mq_cost q) \<le> unat (mq_max q) \<and> entry = (mq_window_end q, u + mq_cost q, mq_max q) \<and> now < mq_window_end q \<and>
    unat (u + mq_cost q) = unat u + unat (mq_cost q) \<and>
    (map_of (ps_mint_quotas s) (mq_quota_key q, mq_window_start q) = Some (mq_window_end q, u, mq_max q) \<or>
     map_of (ps_mint_quotas s) (mq_quota_key q, mq_window_start q) = None \<and> u = 0)"
proof -
  let ?e = "map_of (ps_mint_quotas s) (mq_quota_key q, mq_window_start q)"
  obtain we u m where e: "(case ?e of Some e \<Rightarrow> e | None \<Rightarrow> (mq_window_end q, 0, mq_max q)) = (we, u, m)" by (rule prod_cases3)
  then have w: "we = mq_window_end q" "m = mq_max q" "now < mq_window_end q"
    and c: "checked_add u (mq_cost q) = Some (fst (snd entry))" "fst (snd entry) \<le> mq_max q" "entry = (mq_window_end q, fst (snd entry), mq_max q)"
    using assms by (auto simp: charge_quota_def is_well_formed_def split: option.splits if_splits)
  have "fst (snd entry) = u + mq_cost q" "unat (fst (snd entry)) = unat u + unat (mq_cost q)"
    using c(1) checked_add_Some [OF c(1)] by (auto simp: checked_add_def split: if_splits)
  moreover have "?e = Some (mq_window_end q, u, mq_max q) \<or> ?e = None \<and> u = 0" using e w by (cases ?e) auto
  ultimately show ?thesis using w c by (intro exI [of _ u]) (auto simp: word_le_nat_alt)
qed

lemma window_ok_step:
  assumes ok: "window_ok t w n s" "quotas_distinct s" and clock: "\<And>now. op_clock i = Some now \<Longrightarrow> t \<le> now \<and> now \<le> t2" and t: "t \<le> t2"
  shows "window_ok t2 w (n + stored_cost w (i, fst (portal_step i s))) (snd (portal_step i s))"
proof -
  obtain k ws we where w: "w = (k, ws, we)" by (rule prod_cases3)
  have mono: "window_ok t2 w n s" using ok(1) t by (auto simp: window_ok_def w)
  show ?thesis
  proof (cases i)
    case (OpCommitMint rk m q now)
    have now: "t \<le> now" "now \<le> t2" using clock [of now] OpCommitMint by auto
    from commit_mint_quota [of rk m q now s] show ?thesis
    proof (elim disjE exE conjE)
      fix entry assume c: "fst (commit_mint rk m q now s) = Inr MintStored" "charge_quota q now s = Inr entry"
        "ps_mint_quotas (snd (commit_mint rk m q now s)) = AList.update (mq_quota_key q, mq_window_start q) entry (ps_mint_quotas s)"
      from charge_quota_Inr [OF c(2)] obtain u where u: "entry = (mq_window_end q, u + mq_cost q, mq_max q)" "now < mq_window_end q"
        "unat (u + mq_cost q) = unat u + unat (mq_cost q)"
        "map_of (ps_mint_quotas s) (mq_quota_key q, mq_window_start q) = Some (mq_window_end q, u, mq_max q) \<or>
         map_of (ps_mint_quotas s) (mq_quota_key q, mq_window_start q) = None \<and> u = 0" by blast
      show ?thesis
      proof (cases "w = (mq_quota_key q, mq_window_start q, mq_window_end q)")
        case True
        have "n \<le> unat u" using ok(1) u(2,4) now(1) True by (auto simp: window_ok_def)
        then show ?thesis using True c u OpCommitMint by (auto simp: window_ok_def update_conv')
      next
        case False
        have "n = 0 \<or> we \<le> t2 \<or> (mq_quota_key q, mq_window_start q) \<noteq> (k, ws)"
          using ok(1) u(4) False w t by (auto simp: window_ok_def)
        then show ?thesis using mono False c OpCommitMint w by (auto simp: window_ok_def update_conv')
      qed
    next
      assume c: "fst (commit_mint rk m q now s) \<noteq> Inr MintStored" "ps_mint_quotas (snd (commit_mint rk m q now s)) = ps_mint_quotas s"
      then have "stored_cost w (i, fst (portal_step i s)) = 0"
        using OpCommitMint by (cases "fst (commit_mint rk m q now s)"; cases "projr (fst (commit_mint rk m q now s))") auto
      then show ?thesis using mono c OpCommitMint by (simp add: window_ok_def)
    qed
  next
    case (OpPruneMint now)
    have now: "now \<le> t2" using clock [of now] OpPruneMint by auto
    have "map_of (ps_mint_quotas (snd (prune_mint_results now s))) (k, ws) = Some (we, u, m)"
      if "map_of (ps_mint_quotas s) (k, ws) = Some (we, u, m)" "t2 < we" for u m
      using map_of_filter_distinct [OF ok(2) [unfolded quotas_distinct_def]] that now
      by (simp add: prune_mint_results_def Let_def)
    then show ?thesis using mono OpPruneMint w by (auto simp: window_ok_def not_le)
  qed (use mono w in \<open>simp_all add: window_ok_def portal_frames\<close>)
qed

lemma window_ok_less: "window_ok t w (n + k) s \<Longrightarrow> window_ok t w n s"
  by (cases w) (auto simp: window_ok_def)

text \<open>The costs of the batches stored for a window in a history, and the clock readings of the history.\<close>

definition charged :: "('i \<Rightarrow> portal_op option) \<Rightarrow> bytes \<times> u64 \<times> u64 \<Rightarrow> 'i list \<Rightarrow> portal_out list \<Rightarrow> nat" where
  "charged op_of w is outs =
     sum_list (map (\<lambda>(i, out). case op_of i of None \<Rightarrow> 0 | Some f \<Rightarrow> stored_cost w (f, out)) (zip is outs))"

definition clocks :: "('i \<Rightarrow> portal_op option) \<Rightarrow> 'i list \<Rightarrow> u64 list" where
  "clocks op_of is = List.map_filter (\<lambda>i. Option.bind (op_of i) op_clock) is"

section \<open>Properties of every backend\<close>

lemma durable_activation: "durable_fact (\<lambda>s. map_of (ps_activation_results s) k = Some u)"
  by (simp add: durable_fact_def agrees_def)

lemma durable_bound_to: "durable_fact (bound_to k h sig)"
proof -
  have "bound_to k h sig t" if "agrees t s" "bound_to k h sig s" for t s
  proof -
    have "rel_option claim_agrees (map_of (ps_issuance_results t) k) (map_of (ps_issuance_results s) k)"
      using that(1) by (simp add: agrees_def)
    then show ?thesis using that(2) by (auto simp: bound_to_def claim_agrees_def option_rel_Some2)
  qed
  then show ?thesis by (simp add: durable_fact_def)
qed

definition window_fact :: "u64 \<Rightarrow> bytes \<times> u64 \<times> u64 \<Rightarrow> nat \<Rightarrow> portal_state \<Rightarrow> bool" where
  "window_fact t w n s \<longleftrightarrow> window_ok t w n s \<and> quotas_distinct s"

lemma durable_window: "durable_fact (window_fact t w n)"
  by (cases w) (auto simp: durable_fact_def agrees_def window_fact_def window_ok_def)

lemma window_ok_later: "window_ok t w n s \<Longrightarrow> t \<le> t2 \<Longrightarrow> window_ok t2 w n s"
  by (cases w) (auto simp: window_ok_def)

context portal_backend
begin

lemma activation_once:
  assumes "fit_run is s" and "holds (\<lambda>_. True) s" and "i < j" and "j < length is"
    and "op_of (is ! i) = Some (OpActivate a1 k n1 b1)" and "fst (run step is s) ! i = Activated (Inr (Some x))"
    and "op_of (is ! j) = Some (OpActivate a2 k n2 b2)" and "fst (run step is s) ! j = Activated (Inr (Some y))"
    and "firm (Activated (Inr (Some x)))"
  shows "y = ActivationReplay (activation_until x)"
proof -
  let ?Q = "\<lambda>s. map_of (ps_activation_results s) k = Some (activation_until x)"
  have "?Q (snd (portal_step (OpActivate a1 k n1 b1) m))"
    if "Activated (Inr (Some x)) = fst (portal_step (OpActivate a1 k n1 b1) m)" for m
    using that activation_recorded [of a1 k n1 b1 m x] by simp
  from established [OF assms(1-4) durable_activation activation_kept this assms(5,6) _ assms(9,7,8)]
  obtain m where "?Q m" "Some y = fst (activate_subscription a2 k n2 b2 m)" by (auto simp: failed_def)
  then show ?thesis using activation_replayed [of m k "activation_until x" a2 n2 b2 y] by simp
qed

lemma issued_once:
  assumes "fit_run is s" and "holds (\<lambda>_. True) s" and "i < j" and "j < length is"
    and "op_of (is ! i) = Some f1" and "issued f1 (fst (run step is s) ! i) = Some (k, h1, sig1)"
    and "op_of (is ! j) = Some f2" and "issued f2 (fst (run step is s) ! j) = Some (k, h2, sig2)"
    and "firm (fst (run step is s) ! i)"
  shows "h1 = h2 \<and> sig1 = sig2"
proof -
  have est: "bound_to k h1 sig1 (snd (portal_step f1 m))" if "fst (run step is s) ! i = fst (portal_step f1 m)" for m
    using issued_bound [of f1 m k h1 sig1] assms(6) that by simp
  from established [OF assms(1-4) durable_bound_to bound_to_kept est assms(5) refl _ assms(9,7) refl]
    issued_not_failed [OF assms(6)] issued_not_failed [OF assms(8)]
  obtain m where "bound_to k h1 sig1 m" "fst (run step is s) ! j = fst (portal_step f2 m)" by auto
  then show ?thesis using bound_to_issued [of k h1 sig1 m f2 h2 sig2] assms(8) by simp
qed

text \<open>The step of the induction: what a window was charged is durable after each answer.\<close>

lemma stored_firm: "stored_cost w (f, out) \<noteq> 0 \<Longrightarrow> \<not> failed out \<and> firm out"
  by (cases "(w, f, out)" rule: stored_cost.cases) (auto simp: failed_def firm_stored)

lemma window_step:
  assumes fit: "fits i s" and h: "holds (window_fact t w n) s"
    and clock: "\<And>now. Option.bind (op_of i) op_clock = Some now \<Longrightarrow> t \<le> now \<and> now \<le> t2" and t: "t \<le> t2"
  shows "holds (window_fact t2 w (n + (case op_of i of None \<Rightarrow> 0 | Some f \<Rightarrow> stored_cost w (f, fst (step i s))))) (snd (step i s))"
proof (cases "(case op_of i of None \<Rightarrow> 0 | Some f \<Rightarrow> stored_cost w (f, fst (step i s))) = 0")
  case True
  have "window_fact t2 w n (snd (portal_step f m))" if "op_of i = Some f" "window_fact t w n m" for f m
    using window_ok_step [of t w n m f t2] that clock t quotas_distinct_step [of m f]
    by (auto simp: window_fact_def intro: window_ok_less)
  then show ?thesis
    using True keeps [OF fit h durable_window, of t2 w n] window_ok_later [OF _ t] by (auto simp: window_fact_def)
next
  case False
  then have "\<not> failed (fst (step i s))" "firm (fst (step i s))" using stored_firm by (auto split: option.splits)
  with answers [OF fit h] obtain f m where m: "op_of i = Some f" "window_fact t w n m" "fst (step i s) = fst (portal_step f m)"
    "\<forall>Q'. durable_fact Q' \<longrightarrow> Q' (snd (portal_step f m)) \<longrightarrow> holds Q' (snd (step i s))" by auto
  have "window_fact t2 w (n + stored_cost w (f, fst (portal_step f m))) (snd (portal_step f m))"
    using window_ok_step [of t w n m f t2] m clock t quotas_distinct_step [of m f] by (auto simp: window_fact_def)
  then show ?thesis using m durable_window by simp
qed

lemma window_run:
  assumes "fit_run is s" and "holds quotas_distinct s" and "sorted (clocks op_of is @ [t])"
  shows "holds (window_fact t w (charged op_of w is (fst (run step is s)))) (snd (run step is s))"
  using assms
proof (induction "is" arbitrary: t rule: rev_induct)
  case Nil
  have "quotas_distinct = window_fact t w 0" by (cases w) (auto simp: window_fact_def window_ok_def)
  with Nil show ?case by (simp add: charged_def)
next
  case (snoc i "is")
  let ?s = "snd (run step is s)"
  define t0 where "t0 = (case Option.bind (op_of i) op_clock of Some now \<Rightarrow> now | None \<Rightarrow> t)"
  have srt: "sorted (clocks op_of is @ [t0])" "t0 \<le> t"
    using snoc.prems(3) by (auto simp: clocks_def map_filter_def t0_def sorted_append split: option.splits)
  have "Option.bind (op_of i) op_clock = Some now \<Longrightarrow> t0 \<le> now \<and> now \<le> t" for now using srt(2) by (simp add: t0_def)
  moreover have "fit_run is s" "fits i ?s"
    using snoc.prems(1) by (simp_all add: fit_run_snoc)
  ultimately have "holds (window_fact t w (charged op_of w is (fst (run step is s)) +
      (case op_of i of None \<Rightarrow> 0 | Some f \<Rightarrow> stored_cost w (f, fst (step i ?s))))) (snd (step i ?s))"
    using window_step [OF _ snoc.IH [OF _ snoc.prems(2) srt(1)] _ srt(2)] by blast
  then show ?case by (simp add: run_append run_Cons charged_def del: run.simps(2))
qed

lemma quota_bound:
  assumes "fit_run (is @ [i]) s" and "holds quotas_distinct s" and "sorted (clocks op_of (is @ [i]))"
    and "op_of i = Some (OpCommitMint rk m q now)" and "fst (step i (snd (run step is s))) = MintDone (Inr MintStored)"
  shows "charged op_of (mq_quota_key q, mq_window_start q, mq_window_end q) is (fst (run step is s)) + unat (mq_cost q) \<le> unat (mq_max q)"
proof -
  let ?w = "(mq_quota_key q, mq_window_start q, mq_window_end q)" and ?s = "snd (run step is s)"
  have fit: "fit_run is s" "fits i ?s"
    using assms(1) by (simp_all add: fit_run_snoc)
  have "sorted (clocks op_of is @ [now])" using assms(3,4) by (simp add: clocks_def map_filter_def)
  from answers [OF fit(2) window_run [OF fit(1) assms(2) this, of ?w]] assms(4,5)
  obtain s1 where s1: "window_fact now ?w (charged op_of ?w is (fst (run step is s))) s1" "fst (commit_mint rk m q now s1) = Inr MintStored"
    by (auto simp: failed_def)
  from commit_mint_quota [of rk m q now s1] s1(2) obtain entry where "charge_quota q now s1 = Inr entry" by auto
  from charge_quota_Inr [OF this] s1(1) show ?thesis by (auto simp: window_fact_def window_ok_def)
qed

end

section \<open>The volatile store\<close>

interpretation memory: portal_backend portal_step Some "\<lambda>Q s. Q s" "\<lambda>_ _. True" "\<lambda>_. True"
  by unfold_locales auto

lemma memory_fit_run [simp]: "memory.fit_run is s"
  by (simp add: memory.fit_run_def)

text \<open>
  A payment is credited exactly once. In any history of store operations, once an activation
  key has been answered with an expiry, every later activation with that key, whatever account, time
  and period it names, is a replay of the same expiry and changes nothing; a first activation
  extends the account from the later of now and its current expiry.
\<close>

theorem activation_exactly_once:
  assumes "outs = fst (run portal_step ops s)" and "i < j" and "j < length ops"
    and "ops ! i = OpActivate a1 k n1 b1" and "outs ! i = Activated (Inr (Some x))"
    and "ops ! j = OpActivate a2 k n2 b2" and "outs ! j = Activated (Inr (Some y))"
    and "t = snd (run portal_step (take j ops) s)"
  shows "y = ActivationReplay (activation_until x) \<and> snd (portal_step (ops ! j) t) = t \<and>
    (\<forall>u. x = NewlyActivated u \<longrightarrow>
       (\<exists>r. map_of (ps_accounts (snd (run portal_step (take i ops) s))) a1 = Some r \<and>
          u = saturating_add (case ar_entitlement r of EntActive e \<Rightarrow> max e n1 | _ \<Rightarrow> n1) b1))"
proof -
  have y: "y = ActivationReplay (activation_until x)"
    using memory.activation_once [of ops s i j a1 k n1 b1 x a2 n2 b2 y] assms by simp
  have "fst (activate_subscription a2 k n2 b2 t) = Some y"
    using run_nth [OF assms(3), of portal_step s] assms(1,6,7,8) by simp
  then have "snd (activate_subscription a2 k n2 b2 t) = t"
    using y by (auto simp: activate_subscription_def Let_def split: option.splits)
  moreover have "fst (activate_subscription a1 k n1 b1 (snd (run portal_step (take i ops) s))) = Some x"
    using run_nth [of i ops portal_step s] assms(1-5) by simp
  note first_activation [OF this]
  ultimately show ?thesis using y assms(6) by simp
qed

theorem activation_exactly_once_witness:
  "let ops = [OpInsert \<lparr>ar_account_number = [1], ar_entitlement = EntNone, ar_auth_pubkey = []\<rparr>,
              OpActivate [1] [9] 100 50, OpActivate [1] [9] 200 70];
       t = snd (run portal_step (take 2 ops) empty_state)
   in fst (run portal_step ops empty_state) ! 2 = Activated (Inr (Some (ActivationReplay 150))) \<and> snd (portal_step (ops ! 2) t) = t"
proof -
  let ?ops = "[OpInsert \<lparr>ar_account_number = [1], ar_entitlement = EntNone, ar_auth_pubkey = []\<rparr>,
    OpActivate [1] [9] 100 50, OpActivate [1] [9] 200 70]"
  have r: "fst (run portal_step ?ops empty_state) =
      [Inserted (Inr ()), Activated (Inr (Some (NewlyActivated 150))), Activated (Inr (Some (ActivationReplay 150)))]"
    by (simp add: empty_state_def store_insert_def activate_subscription_def active_until_def resolved_def saturating_add_def)
  show ?thesis
    using activation_exactly_once [OF refl, of 1 2 ?ops "[1]" "[9]" 100 50 empty_state "NewlyActivated 150" "[1]" 200 70 "ActivationReplay 150"]
    unfolding Let_def r by (simp del: portal_step.simps run.simps)
qed

text \<open>
  A checkout reference buys one signature. In any history of store operations, all the
  signatures that are handed out for one reference, by storing, by replaying a commit or by a lookup,
  are the same signature for the same blinded request; scrubbing never frees the reference.
\<close>

theorem issuance_single_signature:
  assumes "outs = fst (run portal_step ops s)" and "i < j" and "j < length ops"
    and "issued (ops ! i) (outs ! i) = Some (k, h1, sig1)" and "issued (ops ! j) (outs ! j) = Some (k, h2, sig2)"
  shows "h1 = h2 \<and> sig1 = sig2"
  using memory.issued_once [of ops s i j "ops ! i" k h1 sig1 "ops ! j" h2 sig2] assms by simp

theorem issuance_single_signature_witness:
  "let ops = [OpCommitIssuance [1] \<lparr>ir_request_hash = [2], ir_blind_sig = [3], ir_replay_until = 100\<rparr> 10, OpPruneMint 20,
              OpLookupIssuance [1] [2] 50];
       outs = fst (run portal_step ops empty_state)
   in \<forall>h sig. issued (ops ! 2) (outs ! 2) = Some ([1], h, sig) \<longrightarrow> h = [2] \<and> sig = [3]"
proof -
  let ?ops = "[OpCommitIssuance [1] \<lparr>ir_request_hash = [2], ir_blind_sig = [3], ir_replay_until = 100\<rparr> 10, OpPruneMint 20,
    OpLookupIssuance [1] [2] 50]"
  have r: "fst (run portal_step ?ops empty_state) = [IssuanceDone (Inr IssuanceStored), MintPruned (Inr 0), IssuanceFound (Inr (IssuanceReplay [3]))]"
    by (simp add: empty_state_def commit_issuance_def prune_mint_results_def lookup_issuance_def replayable_def Let_def)
  show ?thesis
    using issuance_single_signature [OF refl, of 0 2 ?ops empty_state "[1]" "[2]" "[3]" "[2]" "[3]"] r
    by (simp add: Let_def)
qed

text \<open>
  The mint quota is never exceeded. In any history of store operations whose clock never goes
  back, a batch that is stored fits into what its quota window had left: the costs of all batches
  stored for that account key and window before it, plus its own, are at most the window's maximum.
\<close>

theorem mint_quota_bound:
  assumes "sorted (clocks Some (before @ [OpCommitMint rk m q now]))"
    and "fst (commit_mint rk m q now (snd (run portal_step before empty_state))) = Inr MintStored"
  shows "charged Some (mq_quota_key q, mq_window_start q, mq_window_end q) before (fst (run portal_step before empty_state)) + unat (mq_cost q)
    \<le> unat (mq_max q)"
  using memory.quota_bound [of before "OpCommitMint rk m q now" empty_state rk m q now] assms
  by (simp add: quotas_distinct_def empty_state_def)

theorem mint_quota_bound_witness:
  "let q = (\<lambda>c. \<lparr>mq_quota_key = [7], mq_window_start = 0, mq_window_end = 1000, mq_cost = c, mq_max = 10\<rparr>);
       r = \<lparr>mr_request_hash = [2], mr_blind_sigs = [[3]], mr_expires_at = 500\<rparr>;
       before = [OpCommitMint [1] r (q 6) 100]
   in charged Some ([7], 0, 1000) before (fst (run portal_step before empty_state)) = 6 \<and>
      fst (commit_mint [4] r (q 4) 200 (snd (run portal_step before empty_state))) = Inr MintStored \<and>
      6 + 4 \<le> unat (mq_max (q 4))"
proof -
  let ?q = "\<lambda>c. \<lparr>mq_quota_key = [7], mq_window_start = 0, mq_window_end = 1000, mq_cost = c, mq_max = 10\<rparr>"
    and ?r = "\<lparr>mr_request_hash = [2], mr_blind_sigs = [[3]], mr_expires_at = 500\<rparr>"
  let ?ops = "[OpCommitMint [1] ?r (?q 6) 100]"
  note ev = empty_state_def commit_mint_def drop_expired_mint_def charge_quota_def is_well_formed_def checked_add_def
  have c: "charged Some ([7], 0, 1000) ?ops (fst (run portal_step ?ops empty_state)) = 6"
    by (simp add: ev charged_def)
  have f: "fst (commit_mint [4] ?r (?q 4) 200 (snd (run portal_step ?ops empty_state))) = Inr MintStored"
    by (simp add: ev)
  have "sorted (clocks Some (?ops @ [OpCommitMint [4] ?r (?q 4) 200]))" by (simp add: clocks_def map_filter_def)
  from mint_quota_bound [OF this f] c show ?thesis using f by (simp add: Let_def)
qed

end
