(* ===== verification/Portal_File.thy ===== *)
theory Portal_File
  imports Portal_Histories Snapshot_File
begin

text \<open>
  The durable account store of nil-portal/src/store/file.rs: one JSON snapshot of all maps, replaced
  through a temporary file. The file system is the model with failures and crashes; serde_json and
  AES-256-GCM are parameters. Every operation is the function of the source, with its roll-back when
  the snapshot could not be written and the flag for a rename that has not been proved durable.
\<close>

section \<open>The snapshot\<close>

record record_dto =
  rd_account_number :: bytes
  rd_recovery_code_hash :: "bytes option"
  rd_entitlement :: bytes
  rd_auth_pubkey :: bytes

definition from_record :: "account_record \<Rightarrow> record_dto" where
  "from_record r = \<lparr>rd_account_number = hex32 (ar_account_number r), rd_recovery_code_hash = None,
     rd_entitlement = ent_str (ar_entitlement r), rd_auth_pubkey = auth_str (ar_auth_pubkey r)\<rparr>"

definition to_record :: "record_dto \<Rightarrow> account_record option" where
  "to_record dto =
     (case unhex32 (rd_account_number dto) of None \<Rightarrow> None
      | Some number \<Rightarrow>
          (case ent_from (rd_entitlement dto) of None \<Rightarrow> None
           | Some ent \<Rightarrow>
               (case auth_from (rd_auth_pubkey dto) of None \<Rightarrow> None
                | Some pk \<Rightarrow> Some \<lparr>ar_account_number = number, ar_entitlement = ent, ar_auth_pubkey = pk\<rparr>)))"

record issuance_dto =
  isd_request_hash :: bytes
  isd_result_blob :: bytes
  isd_blind_sig :: bytes
  isd_replay_until :: u64

record mint_dto =
  md_request_hash :: bytes
  md_result_blob :: bytes
  md_blind_sigs :: "bytes list"
  md_expires_at :: u64

record mint_quota_dto =
  qd_quota_key :: bytes
  qd_window_start :: u64
  qd_window_end :: u64
  qd_used :: u32
  qd_max_value :: u32

record snapshot_dto =
  sn_accounts :: "record_dto list"
  sn_activation_results :: "(bytes \<times> u64) list"
  sn_issuance_results :: "(bytes \<times> issuance_dto) list"
  sn_mint_results :: "(bytes \<times> mint_dto) list"
  sn_mint_quotas :: "mint_quota_dto list"

datatype disk_dto = Snapshot snapshot_dto | LegacyAccounts "record_dto list"

text \<open>What the store takes from libraries: the cipher and the JSON codec of the snapshot.\<close>

record portal_libs =
  pl_aead :: aead
  pl_to_json :: "snapshot_dto \<Rightarrow> bytes option"
  pl_from_json :: "bytes \<Rightarrow> disk_dto option"

definition hex_bytes :: "bytes \<Rightarrow> bytes" where
  "hex_bytes bs = concat (map fmt_02x bs)"

definition lower_nibble :: "byte \<Rightarrow> byte option" where
  "lower_nibble b =
     (if 48 \<le> b \<and> b \<le> 57 then Some (b - 48)
      else if 97 \<le> b \<and> b \<le> 102 then Some (b - 97 + 10)
      else None)"

fun lower_chunks :: "bytes \<Rightarrow> bytes option" where
  "lower_chunks (a # b # rest) =
     (case lower_nibble a of None \<Rightarrow> None
      | Some h \<Rightarrow> (case lower_nibble b of None \<Rightarrow> None
         | Some l \<Rightarrow> map_option (Cons (or (push_bit 4 h) l)) (lower_chunks rest)))"
| "lower_chunks _ = Some []"

definition unhex_bytes :: "bytes \<Rightarrow> bytes option" where
  "unhex_bytes value =
     (if length value mod 2 \<noteq> 0 \<or> \<not> list_all lower_hex_digit value then None else lower_chunks value)"

text \<open>Collecting an iterator of results, and filling a hash map from one.\<close>

fun traverse :: "('a \<Rightarrow> 'e + 'b) \<Rightarrow> 'a list \<Rightarrow> 'e + 'b list" where
  "traverse f [] = Inr []"
| "traverse f (x # xs) = bindE (f x) (\<lambda>y. bindE (traverse f xs) (\<lambda>ys. Inr (y # ys)))"

fun load_map :: "('a \<Rightarrow> 'e + ('k \<times> 'v)) \<Rightarrow> 'a list \<Rightarrow> ('k \<times> 'v) list \<Rightarrow> 'e + ('k \<times> 'v) list" where
  "load_map f [] m = Inr m"
| "load_map f (x # xs) m = bindE (f x) (\<lambda>(k, v). load_map f xs (AList.update k v m))"

definition invalid_data :: "string \<Rightarrow> io_error" where
  "invalid_data reason = IoError InvalidData reason"

definition load_account :: "record_dto \<Rightarrow> io_error + (bytes \<times> account_record)" where
  "load_account dto =
     bindE (ok_or (invalid_data ''account store contains an invalid record'') (to_record dto)) (\<lambda>r.
     Inr (ar_account_number r, r))"

definition load_activation :: "bytes \<times> u64 \<Rightarrow> io_error + (bytes \<times> u64)" where
  "load_activation kv =
     bindE (ok_or (invalid_data ''account store contains an invalid activation key'') (unhex32 (fst kv))) (\<lambda>key.
     Inr (key, snd kv))"

definition load_issuance :: "aead \<Rightarrow> bytes \<Rightarrow> bytes \<times> issuance_dto \<Rightarrow> io_error + (bytes \<times> issuance_result)" where
  "load_issuance A ckey kv =
     bindE (ok_or (invalid_data ''account store contains an invalid issuance key'') (unhex32 (fst kv))) (\<lambda>key.
     bindE (ok_or (invalid_data ''account store contains an invalid issuance request hash'')
              (unhex32 (isd_request_hash (snd kv)))) (\<lambda>request_hash.
     bindE (if isd_result_blob (snd kv) = [] then Inr []
            else
              bindE (ok_or (invalid_data ''account store contains an invalid issuance result ciphertext'')
                       (unhex_bytes (isd_result_blob (snd kv)))) (\<lambda>stored.
              Inr (case result_open A ckey OneShot key request_hash (isd_replay_until (snd kv)) stored of
                     Inr signature \<Rightarrow> if length signature * 2 = BLIND_TOKEN_HEX_LEN then signature else []
                   | Inl _ \<Rightarrow> []))) (\<lambda>blind_sig.
     Inr (key, \<lparr>ir_request_hash = request_hash, ir_blind_sig = blind_sig, ir_replay_until = isd_replay_until (snd kv)\<rparr>))))"

definition load_mint :: "aead \<Rightarrow> bytes \<Rightarrow> bytes \<times> mint_dto \<Rightarrow> io_error + (bytes \<times> mint_result)" where
  "load_mint A ckey kv =
     bindE (ok_or (invalid_data ''account store contains an invalid mint request key'') (unhex32 (fst kv))) (\<lambda>key.
     bindE (ok_or (invalid_data ''account store contains an invalid mint request hash'')
              (unhex32 (md_request_hash (snd kv)))) (\<lambda>request_hash.
     bindE (if md_result_blob (snd kv) = [] then Inr []
            else
              bindE (ok_or (invalid_data ''account store contains an invalid mint result ciphertext'')
                       (unhex_bytes (md_result_blob (snd kv)))) (\<lambda>stored.
              Inr (case bindE (result_open A ckey SubscriptionMint key request_hash (md_expires_at (snd kv)) stored) decode_mint_payload of
                     Inr signatures \<Rightarrow> signatures
                   | Inl _ \<Rightarrow> []))) (\<lambda>blind_sigs.
     Inr (key, \<lparr>mr_request_hash = request_hash, mr_blind_sigs = blind_sigs, mr_expires_at = md_expires_at (snd kv)\<rparr>))))"

definition load_quota :: "mint_quota_dto \<Rightarrow> io_error + ((bytes \<times> u64) \<times> (u64 \<times> u32 \<times> u32))" where
  "load_quota q =
     bindE (ok_or (invalid_data ''invalid mint quota key'') (unhex32 (qd_quota_key q))) (\<lambda>quota_key.
     if qd_window_start q \<ge> qd_window_end q then Inl (invalid_data ''invalid mint quota window'')
     else Inr ((quota_key, qd_window_start q), (qd_window_end q, qd_used q, qd_max_value q)))"

text \<open>The parts of either format.\<close>

primrec disk_snapshot :: "disk_dto \<Rightarrow> snapshot_dto" where
  "disk_snapshot (Snapshot snapshot) = snapshot"
| "disk_snapshot (LegacyAccounts accounts) =
     \<lparr>sn_accounts = accounts, sn_activation_results = [], sn_issuance_results = [], sn_mint_results = [], sn_mint_quotas = []\<rparr>"

text \<open>The state of a snapshot, and whether it still holds cleartext results that must be rewritten.\<close>

definition load_snapshot :: "aead \<Rightarrow> bytes \<Rightarrow> snapshot_dto \<Rightarrow> io_error + (portal_state \<times> bool)" where
  "load_snapshot A ckey sn =
     bindE (load_map load_account (sn_accounts sn) []) (\<lambda>accounts.
     bindE (load_map load_activation (sn_activation_results sn) []) (\<lambda>activation_results.
     bindE (load_map (load_issuance A ckey) (sn_issuance_results sn) []) (\<lambda>issuance_results.
     bindE (load_map (load_mint A ckey) (sn_mint_results sn) []) (\<lambda>mint_results.
     bindE (load_map load_quota (sn_mint_quotas sn) []) (\<lambda>mint_quotas.
     Inr (\<lparr>ps_accounts = accounts, ps_activation_results = activation_results, ps_issuance_results = issuance_results,
           ps_mint_results = mint_results, ps_mint_quotas = mint_quotas\<rparr>,
          list_ex (\<lambda>(_, r). isd_blind_sig r \<noteq> []) (sn_issuance_results sn) \<or>
          list_ex (\<lambda>(_, r). md_blind_sigs r \<noteq> []) (sn_mint_results sn)))))))"

definition load_contents :: "portal_libs \<Rightarrow> bytes \<Rightarrow> bytes option \<Rightarrow> io_error + (portal_state \<times> bool)" where
  "load_contents L ckey found =
     (case found of
        Some bytes \<Rightarrow>
          if bytes \<noteq> [] then
            bindE (ok_or (invalid_data ''snapshot'') (pl_from_json L bytes)) (\<lambda>disk. load_snapshot (pl_aead L) ckey (disk_snapshot disk))
          else Inr (empty_state, False)
      | None \<Rightarrow> Inr (empty_state, False))"

primrec error_text :: "store_error \<Rightarrow> string" where
  "error_text Duplicate = ''account already exists''"
| "error_text (Backend reason) = ''store backend error: '' @ reason"

definition io_other :: "store_error \<Rightarrow> io_error" where
  "io_other e = IoError OtherKind (error_text e)"

text \<open>The nonce a write draws for the result of each kind and key, or the failure to draw it.\<close>

type_synonym nonces = "result_kind \<Rightarrow> bytes \<Rightarrow> bytes option"

definition save_issuance :: "aead \<Rightarrow> bytes \<Rightarrow> nonces \<Rightarrow> bytes \<times> issuance_result \<Rightarrow> io_error + (bytes \<times> issuance_dto)" where
  "save_issuance A ckey nonces kv =
     (let key = fst kv; r = snd kv in
      bindE (if ir_blind_sig r = [] then Inr []
             else bindE (map_err io_other
                    (result_seal A ckey OneShot key (ir_request_hash r) (ir_replay_until r) (ir_blind_sig r) (nonces OneShot key)))
                    (\<lambda>ciphertext. Inr (hex_bytes ciphertext))) (\<lambda>result_blob.
      Inr (hex32 key, \<lparr>isd_request_hash = hex32 (ir_request_hash r), isd_result_blob = result_blob, isd_blind_sig = [],
                       isd_replay_until = ir_replay_until r\<rparr>)))"

definition save_mint :: "aead \<Rightarrow> bytes \<Rightarrow> nonces \<Rightarrow> bytes \<times> mint_result \<Rightarrow> io_error + (bytes \<times> mint_dto)" where
  "save_mint A ckey nonces kv =
     (let key = fst kv; r = snd kv in
      bindE (if mr_blind_sigs r = [] then Inr []
             else
               bindE (map_err io_other (encode_mint_payload (mr_blind_sigs r))) (\<lambda>payload.
               bindE (map_err io_other
                 (result_seal A ckey SubscriptionMint key (mr_request_hash r) (mr_expires_at r) payload (nonces SubscriptionMint key)))
                 (\<lambda>ciphertext. Inr (hex_bytes ciphertext)))) (\<lambda>result_blob.
      Inr (hex32 key, \<lparr>md_request_hash = hex32 (mr_request_hash r), md_result_blob = result_blob, md_blind_sigs = [],
                       md_expires_at = mr_expires_at r\<rparr>)))"

definition save_quota :: "(bytes \<times> u64) \<times> (u64 \<times> u32 \<times> u32) \<Rightarrow> mint_quota_dto" where
  "save_quota e = (case e of ((quota_key, window_start), (window_end, used, max_value)) \<Rightarrow>
     \<lparr>qd_quota_key = hex32 quota_key, qd_window_start = window_start, qd_window_end = window_end, qd_used = used,
      qd_max_value = max_value\<rparr>)"

definition make_snapshot :: "aead \<Rightarrow> bytes \<Rightarrow> nonces \<Rightarrow> portal_state \<Rightarrow> io_error + snapshot_dto" where
  "make_snapshot A ckey nonces s =
     bindE (traverse (save_issuance A ckey nonces) (ps_issuance_results s)) (\<lambda>issuance_results.
     bindE (traverse (save_mint A ckey nonces) (ps_mint_results s)) (\<lambda>mint_results.
     Inr \<lparr>sn_accounts = map (from_record \<circ> snd) (ps_accounts s),
          sn_activation_results = map (\<lambda>(key, until). (hex32 key, until)) (ps_activation_results s),
          sn_issuance_results = issuance_results, sn_mint_results = mint_results,
          sn_mint_quotas = map save_quota (ps_mint_quotas s)\<rparr>))"

section \<open>The store\<close>

record portal_file =
  pf_path :: path
  pf_state :: portal_state
  pf_key :: bytes
  pf_uncertain :: bool

record persist_error =
  pe_error :: io_error
  pe_committed_to_path :: bool

definition snapshot_tmp :: "path \<Rightarrow> bytes" where
  "snapshot_tmp p = with_extension (p_name p) (lit ''tmp'')"

definition write_snapshot_and_rename :: "portal_libs \<Rightarrow> nonces \<Rightarrow> portal_file \<Rightarrow> unit io" where
  "write_snapshot_and_rename L nonces st =
     io_bind (io_lift (make_snapshot (pl_aead L) (pf_key st) nonces (pf_state st))) (\<lambda>snapshot.
     io_bind (io_lift (ok_or (invalid_data ''snapshot'') (pl_to_json L snapshot))) (\<lambda>json.
     replace_file (p_dir (pf_path st)) (snapshot_tmp (pf_path st)) (p_name (pf_path st)) json))"

definition portal_sync_parent :: "path \<Rightarrow> unit io" where
  "portal_sync_parent p = fs_sync_dir (p_dir p)"

definition persist :: "portal_libs \<Rightarrow> nonces \<Rightarrow> portal_file \<Rightarrow> fs \<Rightarrow> (persist_error + unit) \<times> portal_file \<times> fs" where
  "persist L nonces st s =
     (case write_snapshot_and_rename L nonces st s of
        (Inl e, s1) \<Rightarrow> (Inl \<lparr>pe_error = e, pe_committed_to_path = False\<rparr>, st, s1)
      | (Inr _, s1) \<Rightarrow>
          (case portal_sync_parent (pf_path st) s1 of
             (Inl e, s2) \<Rightarrow> (Inl \<lparr>pe_error = e, pe_committed_to_path = True\<rparr>, st\<lparr>pf_uncertain := True\<rparr>, s2)
           | (Inr _, s2) \<Rightarrow> (Inr (), st\<lparr>pf_uncertain := False\<rparr>, s2)))"

definition ensure_durable :: "portal_file \<Rightarrow> fs \<Rightarrow> (store_error + unit) \<times> portal_file \<times> fs" where
  "ensure_durable st s =
     (if \<not> pf_uncertain st then (Inr (), st, s)
      else
        (case portal_sync_parent (pf_path st) s of
           (Inl e, s1) \<Rightarrow> (Inl (Backend (''account-store durability remains uncertain after rename: '' @ err_reason e)), st, s1)
         | (Inr _, s1) \<Rightarrow> (Inr (), st\<lparr>pf_uncertain := False\<rparr>, s1)))"

definition open_process_lock :: "path \<Rightarrow> unit io" where
  "open_process_lock p =
     io_bind (fs_open \<lparr>oo_truncate = False, oo_create = True, oo_create_new = False\<rparr> (sidecar_path p (lit ''.lock''))) (\<lambda>_.
     io_catch fs_check (\<lambda>e. io_throw (IoError (err_kind e) ''account store is already locked by another Portal process'')))"

definition read_snapshot :: "path \<Rightarrow> bytes option io" where
  "read_snapshot p =
     io_catch (io_bind (fs_read_file p) (\<lambda>bytes. io_return (Some bytes)))
       (\<lambda>e. if err_kind e = NotFound then io_return None else io_throw e)"

definition rewrite_results :: "portal_libs \<Rightarrow> nonces \<Rightarrow> bool \<Rightarrow> portal_file \<Rightarrow> portal_file io" where
  "rewrite_results L nonces needed st s =
     (if needed then
        (case persist L nonces st s of (Inl e, _, s1) \<Rightarrow> (Inl (pe_error e), s1) | (Inr _, st1, s1) \<Rightarrow> (Inr st1, s1))
      else (Inr st, s))"

definition open_with_result_key :: "portal_libs \<Rightarrow> nonces \<Rightarrow> path \<Rightarrow> bytes \<Rightarrow> portal_file io" where
  "open_with_result_key L nonces p ckey =
     io_bind (if p_dir p \<noteq> [] then fs_check else io_return ()) (\<lambda>_.
     io_bind (open_process_lock p) (\<lambda>_.
     io_bind (read_snapshot p) (\<lambda>found.
     io_bind (io_lift (load_contents L ckey found)) (\<lambda>(state, result_payload_rewrite_needed).
     rewrite_results L nonces result_payload_rewrite_needed \<lparr>pf_path = p, pf_state = state, pf_key = ckey, pf_uncertain = False\<rparr>))))"

section \<open>Operations\<close>

text \<open>
  Every operation starts with \<open>ensure_durable\<close>, and one that changed the state ends in \<open>persist\<close>, whose
  failure is reported after the change has been undone, unless the new snapshot is already in place.
\<close>

type_synonym 'a file_result = "(store_error + 'a) \<times> portal_file \<times> fs"

definition when_durable :: "portal_file \<Rightarrow> fs \<Rightarrow> (portal_file \<Rightarrow> fs \<Rightarrow> 'a file_result) \<Rightarrow> 'a file_result" where
  "when_durable st s f =
     (case ensure_durable st s of (Inl e, st1, s1) \<Rightarrow> (Inl e, st1, s1) | (Inr _, st1, s1) \<Rightarrow> f st1 s1)"

definition persist_or_undo ::
  "portal_libs \<Rightarrow> nonces \<Rightarrow> (portal_state \<Rightarrow> portal_state) \<Rightarrow> 'a \<Rightarrow> portal_file \<Rightarrow> fs \<Rightarrow> 'a file_result" where
  "persist_or_undo L nonces undo answer st s =
     (case persist L nonces st s of
        (Inl e, st1, s1) \<Rightarrow>
          (Inl (Backend (err_reason (pe_error e))),
           if pe_committed_to_path e then st1 else st1\<lparr>pf_state := undo (pf_state st1)\<rparr>, s1)
      | (Inr _, st1, s1) \<Rightarrow> (Inr answer, st1, s1))"

definition file_insert :: "portal_libs \<Rightarrow> nonces \<Rightarrow> account_record \<Rightarrow> portal_file \<Rightarrow> fs \<Rightarrow> unit file_result" where
  "file_insert L nonces r st s = when_durable st s (\<lambda>st s.
     (let state = pf_state st; key = ar_account_number r in
      if map_of (ps_accounts state) key \<noteq> None then (Inl Duplicate, st, s)
      else
        persist_or_undo L nonces (\<lambda>state. state\<lparr>ps_accounts := AList.delete key (ps_accounts state)\<rparr>) ()
          (st\<lparr>pf_state := state\<lparr>ps_accounts := AList.update key r (ps_accounts state)\<rparr>\<rparr>) s))"

definition file_get :: "bytes \<Rightarrow> portal_file \<Rightarrow> fs \<Rightarrow> account_record option file_result" where
  "file_get account_number st s = when_durable st s (\<lambda>st s.
     (Inr (map_of (ps_accounts (pf_state st)) account_number), st, s))"

definition file_activate ::
  "portal_libs \<Rightarrow> nonces \<Rightarrow> bytes \<Rightarrow> bytes \<Rightarrow> u64 \<Rightarrow> u64 \<Rightarrow> portal_file \<Rightarrow> fs \<Rightarrow> subscription_activation option file_result" where
  "file_activate L nonces account_number activation_key now period st s = when_durable st s (\<lambda>st s.
     (let state = pf_state st in
      case map_of (ps_accounts state) account_number of
        None \<Rightarrow> (Inr None, st, s)
      | Some rec \<Rightarrow>
          (case map_of (ps_activation_results state) activation_key of
             Some until \<Rightarrow> (Inr (Some (ActivationReplay until)), st, s)
           | None \<Rightarrow>
               (let previous = ar_entitlement rec;
                    base = (case active_until (ar_entitlement rec) now of Some u \<Rightarrow> u | None \<Rightarrow> now);
                    until = saturating_add base period
                in persist_or_undo L nonces
                     (\<lambda>state. state\<lparr>
                        ps_activation_results := AList.delete activation_key (ps_activation_results state),
                        ps_accounts :=
                          (case map_of (ps_accounts state) account_number of
                             Some rec \<Rightarrow> AList.update account_number (rec\<lparr>ar_entitlement := previous\<rparr>) (ps_accounts state)
                           | None \<Rightarrow> ps_accounts state)\<rparr>)
                     (Some (NewlyActivated until))
                     (st\<lparr>pf_state := state\<lparr>
                        ps_accounts := AList.update account_number (rec\<lparr>ar_entitlement := EntActive until\<rparr>) (ps_accounts state),
                        ps_activation_results := AList.update activation_key until (ps_activation_results state)\<rparr>\<rparr>) s))))"

definition file_lookup_issuance :: "bytes \<Rightarrow> bytes \<Rightarrow> u64 \<Rightarrow> portal_file \<Rightarrow> fs \<Rightarrow> issuance_lookup file_result" where
  "file_lookup_issuance issuance_key request_hash now st s = when_durable st s (\<lambda>st s.
     (Inr (case map_of (ps_issuance_results (pf_state st)) issuance_key of
             None \<Rightarrow> IssuanceMissing
           | Some r \<Rightarrow>
               if ir_request_hash r = request_hash \<and> now < ir_replay_until r \<and> ir_blind_sig r \<noteq> []
               then IssuanceReplay (ir_blind_sig r) else IssuanceConflict), st, s))"

definition file_commit_issuance ::
  "portal_libs \<Rightarrow> nonces \<Rightarrow> bytes \<Rightarrow> issuance_result \<Rightarrow> u64 \<Rightarrow> portal_file \<Rightarrow> fs \<Rightarrow> issuance_commit file_result" where
  "file_commit_issuance L nonces issuance_key r now st s =
     (if ir_replay_until r \<le> now \<or> ir_blind_sig r = [] then
        (Inl (Backend ''refusing to store an expired or empty issuance result''), st, s)
      else when_durable st s (\<lambda>st s.
        (let state = pf_state st in
         case map_of (ps_issuance_results state) issuance_key of
           Some existing \<Rightarrow>
             (Inr (if ir_request_hash existing = ir_request_hash r \<and> now < ir_replay_until existing \<and> ir_blind_sig existing \<noteq> []
                   then IssuanceCommitReplay (ir_blind_sig existing) else IssuanceCommitConflict), st, s)
         | None \<Rightarrow>
             persist_or_undo L nonces
               (\<lambda>state. state\<lparr>ps_issuance_results := AList.delete issuance_key (ps_issuance_results state)\<rparr>) IssuanceStored
               (st\<lparr>pf_state := state\<lparr>ps_issuance_results := AList.update issuance_key r (ps_issuance_results state)\<rparr>\<rparr>) s)))"

definition file_prune_issuance :: "portal_libs \<Rightarrow> nonces \<Rightarrow> u64 \<Rightarrow> portal_file \<Rightarrow> fs \<Rightarrow> nat file_result" where
  "file_prune_issuance L nonces now st s = when_durable st s (\<lambda>st s.
     (let state = pf_state st;
          previous = ps_issuance_results state;
          removed = length (filter (\<lambda>(_, r). scrubs now r) previous)
      in if removed = 0 then (Inr 0, st, s)
         else
           persist_or_undo L nonces (\<lambda>state. state\<lparr>ps_issuance_results := previous\<rparr>) removed
             (st\<lparr>pf_state := state\<lparr>ps_issuance_results :=
                map (\<lambda>(k, r). (k, if scrubs now r then r\<lparr>ir_blind_sig := []\<rparr> else r)) previous\<rparr>\<rparr>) s))"

definition mint_answer :: "mint_result option \<Rightarrow> bytes \<Rightarrow> mint_lookup" where
  "mint_answer found request_hash =
     (case found of
        None \<Rightarrow> MintMissing
      | Some r \<Rightarrow> if mr_request_hash r = request_hash \<and> mr_blind_sigs r \<noteq> [] then MintReplay (mr_blind_sigs r) else MintConflict)"

definition file_lookup_mint :: "portal_libs \<Rightarrow> nonces \<Rightarrow> bytes \<Rightarrow> bytes \<Rightarrow> u64 \<Rightarrow> portal_file \<Rightarrow> fs \<Rightarrow> mint_lookup file_result" where
  "file_lookup_mint L nonces request_key request_hash now st s = when_durable st s (\<lambda>st s.
     (let state = pf_state st in
      case map_of (ps_mint_results state) request_key of
        None \<Rightarrow> (Inr (mint_answer None request_hash), st, s)
      | Some r \<Rightarrow>
          if mr_expires_at r \<le> now then
            (let state1 = state\<lparr>ps_mint_results := AList.delete request_key (ps_mint_results state)\<rparr> in
             persist_or_undo L nonces (\<lambda>state. state\<lparr>ps_mint_results := AList.update request_key r (ps_mint_results state)\<rparr>)
               (mint_answer (map_of (ps_mint_results state1) request_key) request_hash) (st\<lparr>pf_state := state1\<rparr>) s)
          else (Inr (mint_answer (Some r) request_hash), st, s)))"

definition undo_mint ::
  "bytes \<Rightarrow> mint_result option \<Rightarrow> bytes \<times> u64 \<Rightarrow> (u64 \<times> u32 \<times> u32) option \<Rightarrow> portal_state \<Rightarrow> portal_state" where
  "undo_mint request_key expired quota_key quota_previous state =
     (let removed = AList.delete request_key (ps_mint_results state) in
      state\<lparr>ps_mint_results := (case expired of Some r \<Rightarrow> AList.update request_key r removed | None \<Rightarrow> removed),
            ps_mint_quotas := (case quota_previous of Some q \<Rightarrow> AList.update quota_key q (ps_mint_quotas state)
                               | None \<Rightarrow> AList.delete quota_key (ps_mint_quotas state))\<rparr>)"

text \<open>The part of \<open>commit_mint\<close> under the write lock, once the store is known to be durable.\<close>

definition commit_mint_locked ::
  "portal_libs \<Rightarrow> nonces \<Rightarrow> bytes \<Rightarrow> mint_result \<Rightarrow> mint_quota \<Rightarrow> u64 \<Rightarrow> portal_file \<Rightarrow> fs \<Rightarrow> mint_commit file_result" where
  "commit_mint_locked L nonces request_key r q now st0 s =
     (let state0 = pf_state st0;
          expired = (case map_of (ps_mint_results state0) request_key of
                       Some existing \<Rightarrow> if mr_expires_at existing \<le> now then Some existing else None | None \<Rightarrow> None);
          state = (if expired \<noteq> None then state0\<lparr>ps_mint_results := AList.delete request_key (ps_mint_results state0)\<rparr> else state0);
          st = st0\<lparr>pf_state := state\<rparr>
      in case map_of (ps_mint_results state) request_key of
           Some existing \<Rightarrow>
             (Inr (if mr_request_hash existing = mr_request_hash r \<and> mr_blind_sigs existing \<noteq> []
                   then MintCommitReplay (mr_blind_sigs existing) else MintCommitConflict), st, s)
         | None \<Rightarrow>
             if \<not> is_well_formed q now then (Inl (Backend ''invalid mint quota window''), st, s)
             else if mq_cost q > mq_max q then (Inr QuotaExceeded, st, s)
             else
               (let quota_key = (mq_quota_key q, mq_window_start q);
                    quota_previous = map_of (ps_mint_quotas state) quota_key;
                    (window_end, used, stored_max) =
                      (case quota_previous of Some e \<Rightarrow> e | None \<Rightarrow> (mq_window_end q, 0, mq_max q))
                in if window_end \<noteq> mq_window_end q \<or> stored_max \<noteq> mq_max q then
                     (Inl (Backend ''mint quota window/max conflicts with persisted state''), st, s)
                   else
                     (case checked_add used (mq_cost q) of
                        None \<Rightarrow> (Inr QuotaExceeded, st, s)
                      | Some next_used \<Rightarrow>
                          if next_used > mq_max q then (Inr QuotaExceeded, st, s)
                          else
                            persist_or_undo L nonces (undo_mint request_key expired quota_key quota_previous) MintStored
                              (st\<lparr>pf_state := state\<lparr>
                                 ps_mint_results := AList.update request_key r (ps_mint_results state),
                                 ps_mint_quotas := AList.update quota_key (mq_window_end q, next_used, mq_max q) (ps_mint_quotas state)\<rparr>\<rparr>)
                              s)))"

definition file_commit_mint ::
  "portal_libs \<Rightarrow> nonces \<Rightarrow> bytes \<Rightarrow> mint_result \<Rightarrow> mint_quota \<Rightarrow> u64 \<Rightarrow> portal_file \<Rightarrow> fs \<Rightarrow> mint_commit file_result" where
  "file_commit_mint L nonces request_key r q now st s =
     (if mr_expires_at r \<le> now then (Inl (Backend ''refusing to store an already-expired mint result''), st, s)
      else when_durable st s (commit_mint_locked L nonces request_key r q now))"

definition file_prune_mint :: "portal_libs \<Rightarrow> nonces \<Rightarrow> u64 \<Rightarrow> portal_file \<Rightarrow> fs \<Rightarrow> nat file_result" where
  "file_prune_mint L nonces now st s = when_durable st s (\<lambda>st s.
     (let state = pf_state st;
          previous_results = ps_mint_results state;
          previous_quotas = ps_mint_quotas state;
          results = filter (\<lambda>(_, r). now < mr_expires_at r) previous_results;
          quotas = filter (\<lambda>(_, window_end, _). now < window_end) previous_quotas;
          removed = (length previous_results - length results) + (length previous_quotas - length quotas)
      in if removed = 0 then (Inr 0, st\<lparr>pf_state := state\<lparr>ps_mint_results := results, ps_mint_quotas := quotas\<rparr>\<rparr>, s)
         else
           persist_or_undo L nonces
             (\<lambda>state. state\<lparr>ps_mint_results := previous_results, ps_mint_quotas := previous_quotas\<rparr>) removed
             (st\<lparr>pf_state := state\<lparr>ps_mint_results := results, ps_mint_quotas := quotas\<rparr>\<rparr>) s))"

section \<open>The store as a machine\<close>

definition answer :: "(store_error + 'a \<Rightarrow> portal_out) \<Rightarrow> 'a file_result \<Rightarrow> portal_out \<times> portal_file \<times> fs" where
  "answer f = apfst f"

fun file_step :: "portal_libs \<Rightarrow> nonces \<Rightarrow> portal_op \<Rightarrow> portal_file \<Rightarrow> fs \<Rightarrow> portal_out \<times> portal_file \<times> fs" where
  "file_step L nonces (OpInsert r) st s = answer Inserted (file_insert L nonces r st s)"
| "file_step L nonces (OpGet a) st s = answer Got (file_get a st s)"
| "file_step L nonces (OpActivate a k now period) st s = answer Activated (file_activate L nonces a k now period st s)"
| "file_step L nonces (OpLookupIssuance k h now) st s = answer IssuanceFound (file_lookup_issuance k h now st s)"
| "file_step L nonces (OpCommitIssuance k r now) st s = answer IssuanceDone (file_commit_issuance L nonces k r now st s)"
| "file_step L nonces (OpPruneIssuance now) st s = answer IssuancePruned (file_prune_issuance L nonces now st s)"
| "file_step L nonces (OpLookupMint k h now) st s = answer MintFound (file_lookup_mint L nonces k h now st s)"
| "file_step L nonces (OpCommitMint k r q now) st s = answer MintDone (file_commit_mint L nonces k r q now st s)"
| "file_step L nonces (OpPruneMint now) st s = answer MintPruned (file_prune_mint L nonces now st s)"

text \<open>
  What happens to a Portal: an operation on the open store, or a restart of the process, after a crash
  of the machine or not. A store that did not open answers nothing.
\<close>

datatype portal_event = FileOp nonces portal_op | Restart nonces "crash_choice option"

type_synonym portal_world = "portal_file option \<times> fs"

fun portal_event_step :: "portal_libs \<Rightarrow> path \<Rightarrow> bytes \<Rightarrow> portal_event \<Rightarrow> portal_world \<Rightarrow> portal_out \<times> portal_world" where
  "portal_event_step L p ckey (FileOp nonces f) (opened, s) =
     (case opened of
        None \<Rightarrow> (Unavailable, None, s)
      | Some st \<Rightarrow> (let (out, st1, s1) = file_step L nonces f st s in (out, Some st1, s1)))"
| "portal_event_step L p ckey (Restart nonces cc) (opened, s) =
     (Unavailable,
      case open_with_result_key L nonces p ckey (case cc of None \<Rightarrow> s | Some c \<Rightarrow> crash c s) of
        (Inl e, s1) \<Rightarrow> (None, s1)
      | (Inr st, s1) \<Rightarrow> (Some st, s1))"

fun event_op :: "portal_event \<Rightarrow> portal_op option" where
  "event_op (FileOp nonces f) = Some f"
| "event_op (Restart nonces cc) = None"

end
