(* ===== verification/Portal_Durable.thy ===== *)
theory Portal_Durable
  imports Portal_File
begin

text \<open>
  The file store keeps what it acknowledged. A snapshot reads back to the state it was made from (up
  to signatures that can no longer be used); every operation of the file store either fails or
  answers as the volatile store; and the store, with failures, crashes and restarts in any order, is
  an instance of the contract \<open>portal_backend\<close>, so that the properties of histories hold for it. The
  answers of fresh writes are firm in every history, all answers in those where no process was restarted
  while a rename was pending.
\<close>

section \<open>Well-formed states\<close>

text \<open>The fixed-size arrays of the source as lengths, and keys that occur once.\<close>

definition map_ok :: "('k \<Rightarrow> 'v \<Rightarrow> bool) \<Rightarrow> ('k \<times> 'v) list \<Rightarrow> bool" where
  "map_ok P m \<longleftrightarrow> distinct (map fst m) \<and> (\<forall>(k, v)\<in>set m. P k v)"

definition account_ok :: "bytes \<Rightarrow> account_record \<Rightarrow> bool" where
  "account_ok k r \<longleftrightarrow> k = ar_account_number r \<and> length k = 32 \<and> length (ar_auth_pubkey r) = 32"

definition claim_ok :: "bytes \<Rightarrow> issuance_result \<Rightarrow> bool" where
  "claim_ok k r \<longleftrightarrow> length k = 32 \<and> length (ir_request_hash r) = 32"

definition mint_ok :: "bytes \<Rightarrow> mint_result \<Rightarrow> bool" where
  "mint_ok k r \<longleftrightarrow> length k = 32 \<and> length (mr_request_hash r) = 32"

definition quota_ok :: "bytes \<times> u64 \<Rightarrow> u64 \<times> u32 \<times> u32 \<Rightarrow> bool" where
  "quota_ok k e \<longleftrightarrow> length (fst k) = 32 \<and> snd k < fst e"

definition state_ok :: "portal_state \<Rightarrow> bool" where
  "state_ok s \<longleftrightarrow> map_ok account_ok (ps_accounts s) \<and> map_ok (\<lambda>k _. length k = 32) (ps_activation_results s) \<and>
     map_ok claim_ok (ps_issuance_results s) \<and> map_ok mint_ok (ps_mint_results s) \<and> map_ok quota_ok (ps_mint_quotas s)"

fun op_sized :: "portal_op \<Rightarrow> bool" where
  "op_sized (OpInsert r) \<longleftrightarrow> length (ar_account_number r) = 32 \<and> length (ar_auth_pubkey r) = 32"
| "op_sized (OpActivate a k now period) \<longleftrightarrow> length a = 32 \<and> length k = 32"
| "op_sized (OpCommitIssuance k r now) \<longleftrightarrow> length k = 32 \<and> length (ir_request_hash r) = 32"
| "op_sized (OpCommitMint k r q now) \<longleftrightarrow> length k = 32 \<and> length (mr_request_hash r) = 32 \<and> length (mq_quota_key q) = 32"
| "op_sized _ \<longleftrightarrow> True"

lemma map_ok_Nil [simp]: "map_ok P []"
  by (simp add: map_ok_def)

lemma map_ok_update: "map_ok P m \<Longrightarrow> P k v \<Longrightarrow> map_ok P (AList.update k v m)"
  using set_update_subset [of k v m] by (auto simp: map_ok_def distinct_update)

lemma map_ok_filter: "map_ok P m \<Longrightarrow> map_ok P (filter f m)"
  by (auto simp: map_ok_def distinct_map inj_on_def)

lemma map_ok_delete: "map_ok P m \<Longrightarrow> map_ok P (AList.delete k m)"
  by (simp add: AList.delete_eq map_ok_filter)

lemma map_ok_map_of: "map_ok P m \<Longrightarrow> map_of m k = Some v \<Longrightarrow> P k v"
  by (auto simp: map_ok_def dest: map_of_SomeD)

lemma empty_state_ok [simp]: "state_ok empty_state"
  by (simp add: state_ok_def empty_state_def)

lemma state_ok_drop: "state_ok s \<Longrightarrow> state_ok (drop_expired_mint k now s)"
  by (auto simp: state_ok_def drop_expired_mint_def map_ok_delete split: option.splits)

lemma state_ok_prune_issuance: "state_ok s \<Longrightarrow> state_ok (snd (prune_issuance_results now s))"
  by (auto simp: state_ok_def prune_issuance_results_def map_ok_def claim_ok_def comp_def case_prod_unfold)

lemma state_ok_commit_mint:
  assumes "state_ok s" and "op_sized (OpCommitMint k r q now)"
  shows "state_ok (snd (commit_mint k r q now s))"
proof -
  let ?s = "drop_expired_mint k now s"
  have s: "state_ok ?s" by (rule state_ok_drop [OF assms(1)])
  have "quota_ok (mq_quota_key q, mq_window_start q) entry" if "charge_quota q now ?s = Inr entry" for entry
    using that assms(2) by (auto simp: charge_quota_def is_well_formed_def quota_ok_def Let_def split: if_splits option.splits)
  moreover have "mint_ok k r" using assms(2) by (simp add: mint_ok_def)
  ultimately show ?thesis
    using assms(1) s by (auto simp: commit_mint_def Let_def state_ok_def map_ok_update split: option.splits sum.splits charge_error.splits)
qed

lemma portal_step_ok:
  assumes "state_ok s" and "op_sized f"
  shows "state_ok (snd (portal_step f s))"
proof (cases f)
  case (OpInsert r)
  then show ?thesis using assms by (auto simp: state_ok_def store_insert_def account_ok_def map_ok_update)
next
  case (OpActivate a k now period)
  have "account_ok a r" if "map_of (ps_accounts s) a = Some r" for r
    using assms(1) that by (auto simp: state_ok_def dest: map_ok_map_of)
  then show ?thesis
    using assms OpActivate
    by (auto simp: state_ok_def activate_subscription_def account_ok_def Let_def split: option.splits intro!: map_ok_update)
next
  case (OpCommitIssuance k r now)
  then show ?thesis using assms by (auto simp: state_ok_def commit_issuance_def claim_ok_def map_ok_update split: option.splits)
next
  case (OpCommitMint k r q now)
  then show ?thesis using assms state_ok_commit_mint by simp
next
  case (OpPruneMint now)
  then show ?thesis using assms by (auto simp: state_ok_def prune_mint_results_def Let_def map_ok_filter)
qed (use assms state_ok_drop state_ok_prune_issuance in simp_all)

section \<open>Snapshots read back\<close>

lemma hex_bytes_to_hex: "hex_bytes = to_hex"
  by (rule ext) (simp add: hex_bytes_def to_hex_def fmt_02x_hex_byte [abs_def])

lemma lower_nibble_nib: "lower_hex_digit c \<Longrightarrow> lower_nibble c = nib c"
  by (auto simp: lower_hex_digit_def lower_nibble_def nib_def)

lemma lower_chunks_hex_chunks: "list_all lower_hex_digit s \<Longrightarrow> lower_chunks s = hex_chunks s"
  by (induction s rule: lower_chunks.induct) (auto simp: lower_nibble_nib split: option.splits)

lemma unhex_hex_bytes: "unhex_bytes (hex_bytes bs) = Some bs"
  using to_hex_lower [of bs]
  by (simp add: unhex_bytes_def hex_bytes_to_hex lower_chunks_hex_chunks hex_chunks_to_hex)

lemma to_record_from_record: "account_ok k r \<Longrightarrow> to_record (from_record r) = Some r"
  by (auto simp: account_ok_def to_record_def from_record_def unhex32_hex32 ent_from_str auth_from_str)

lemma load_map_traverse:
  assumes "traverse enc m = Inr ds" and "distinct (map fst m)"
    and "\<And>k v d. (k, v) \<in> set m \<Longrightarrow> enc (k, v) = Inr d \<Longrightarrow> \<exists>v'. f d = Inr (k, v') \<and> R v' v"
    and "fst ` set m \<inter> fst ` set acc = {}"
  shows "\<exists>ms. load_map f ds acc = Inr (acc @ ms) \<and> list_all2 (\<lambda>x y. fst x = fst y \<and> R (snd x) (snd y)) ms m"
  using assms
proof (induction m arbitrary: ds acc)
  case (Cons x m)
  obtain k v where x: "x = (k, v)" by (cases x)
  obtain d ds' where d: "ds = d # ds'" "enc (k, v) = Inr d" "traverse enc m = Inr ds'" using Cons.prems(1) x by auto
  obtain v' where v': "f d = Inr (k, v')" "R v' v" using Cons.prems(3) [of k v d] d(2) x by auto
  have upd: "AList.update k v' acc = acc @ [(k, v')]" by (rule alist_update_new) (use Cons.prems(4) x in auto)
  have "\<exists>ms. load_map f ds' (acc @ [(k, v')]) = Inr ((acc @ [(k, v')]) @ ms) \<and> list_all2 (\<lambda>x y. fst x = fst y \<and> R (snd x) (snd y)) ms m"
    by (rule Cons.IH [OF d(3)]) (use Cons.prems x in auto)
  then show ?case using d(1) v' upd x by auto
qed simp

lemma map_of_list_all2:
  "list_all2 (\<lambda>x y. fst x = fst y \<and> R (snd x) (snd y)) ms m \<Longrightarrow> rel_option R (map_of ms k) (map_of m k)"
  by (induction rule: list_all2_induct) auto

lemma load_map_ok:
  assumes "load_map f ds acc = Inr m" and "map_ok P acc" and "\<And>d k v. f d = Inr (k, v) \<Longrightarrow> P k v"
  shows "map_ok P m"
  using assms(1,2)
proof (induction ds arbitrary: acc)
  case (Cons d ds)
  then obtain k v where "f d = Inr (k, v)" "load_map f ds (AList.update k v acc) = Inr m" by auto
  then show ?case using Cons.IH Cons.prems(2) assms(3) map_ok_update by metis
qed simp

text \<open>Each part of a snapshot.\<close>

definition nonces_ok :: "nonces \<Rightarrow> bool" where
  "nonces_ok nonces \<longleftrightarrow> (\<forall>kind key n. nonces kind key = Some n \<longrightarrow> length n = RESULT_NONCE_LEN)"

lemma seal_opens:
  assumes "aead_ok A" and "nonces_ok nonces" and "result_seal A ckey kind k h until p (nonces kind k) = Inr ct"
  shows "result_open A ckey kind k h until ct = Inr p"
proof (cases "nonces kind k")
  case (Some n)
  then have "length n = RESULT_NONCE_LEN" using assms(2) by (auto simp: nonces_ok_def)
  then show ?thesis using result_seal_Inr [OF assms(1)] assms(3) Some by simp
qed (use assms(3) in \<open>simp add: result_seal_def split: if_splits\<close>)

lemma hex_bytes_empty: "hex_bytes ct = [] \<longleftrightarrow> ct = []"
  using length_to_hex [of ct] by (auto simp: hex_bytes_to_hex simp del: length_to_hex)

lemma result_seal_nonempty: "result_seal A ckey kind k h until p (nonces kind k) = Inr ct \<Longrightarrow> nonces_ok nonces \<Longrightarrow> ct \<noteq> []"
proof -
  assume h: "result_seal A ckey kind k h until p (nonces kind k) = Inr ct" "nonces_ok nonces"
  then obtain n c where "nonces kind k = Some n" "ct = n @ c" by (auto simp: result_seal_def split: if_splits)
  then show "ct \<noteq> []" using h(2) by (fastforce simp: nonces_ok_def RESULT_NONCE_LEN_def)
qed

lemma load_save_issuance:
  assumes "aead_ok A" and "nonces_ok nonces" and "claim_ok k r" and "save_issuance A ckey nonces (k, r) = Inr d"
  shows "\<exists>r'. load_issuance A ckey d = Inr (k, r') \<and> claim_agrees r' r"
proof (cases "ir_blind_sig r = []")
  case True
  then show ?thesis
    using assms(3,4) by (auto simp: claim_ok_def save_issuance_def load_issuance_def unhex32_hex32 claim_agrees_def)
next
  case False
  then obtain ct where ct: "result_seal A ckey OneShot k (ir_request_hash r) (ir_replay_until r) (ir_blind_sig r) (nonces OneShot k) = Inr ct"
    and d: "d = (hex32 k, \<lparr>isd_request_hash = hex32 (ir_request_hash r), isd_result_blob = hex_bytes ct, isd_blind_sig = [],
      isd_replay_until = ir_replay_until r\<rparr>)" using assms(4) by (auto simp: save_issuance_def Let_def)
  show ?thesis
    using seal_opens [OF assms(1,2) ct] result_seal_nonempty [OF ct assms(2)] assms(3)
    by (auto simp: d claim_ok_def load_issuance_def unhex32_hex32 unhex_hex_bytes hex_bytes_empty claim_agrees_def)
qed

lemma load_save_mint:
  assumes "aead_ok A" and "nonces_ok nonces" and "mint_ok k r" and "save_mint A ckey nonces (k, r) = Inr d"
  shows "\<exists>r'. load_mint A ckey d = Inr (k, r') \<and> batch_agrees r' r"
proof (cases "mr_blind_sigs r = []")
  case True
  then show ?thesis
    using assms(3,4) by (auto simp: mint_ok_def save_mint_def load_mint_def unhex32_hex32 batch_agrees_def)
next
  case False
  then obtain p ct where p: "encode_mint_payload (mr_blind_sigs r) = Inr p"
    and ct: "result_seal A ckey SubscriptionMint k (mr_request_hash r) (mr_expires_at r) p (nonces SubscriptionMint k) = Inr ct"
    and d: "d = (hex32 k, \<lparr>md_request_hash = hex32 (mr_request_hash r), md_result_blob = hex_bytes ct, md_blind_sigs = [],
      md_expires_at = mr_expires_at r\<rparr>)" using assms(4) by (auto simp: save_mint_def Let_def)
  have "decode_mint_payload p = Inr (mr_blind_sigs r)" using p by (simp add: decode_mint_payload_Inr)
  then show ?thesis
    using seal_opens [OF assms(1,2) ct] result_seal_nonempty [OF ct assms(2)] assms(3)
    by (auto simp: d mint_ok_def load_mint_def unhex32_hex32 unhex_hex_bytes hex_bytes_empty batch_agrees_def)
qed

lemma load_save_quota: "quota_ok k e \<Longrightarrow> load_quota (save_quota (k, e)) = Inr (k, e)"
  by (auto simp: quota_ok_def load_quota_def save_quota_def unhex32_hex32 split: prod.splits)

lemma traverse_mem: "traverse f xs = Inr ys \<Longrightarrow> y \<in> set ys \<Longrightarrow> \<exists>x\<in>set xs. f x = Inr y"
  by (induction xs arbitrary: ys) auto

lemma traverse_pure: "traverse (\<lambda>x. Inr (g x)) m = Inr (map g m)"
  by (induction m) auto

text \<open>Loading what a map of well-formed entries was saved as.\<close>

lemma load_saved:
  assumes "traverse enc m = Inr ds" and "map_ok P m"
    and "\<And>k v d. P k v \<Longrightarrow> enc (k, v) = Inr d \<Longrightarrow> \<exists>v'. f d = Inr (k, v') \<and> R v' v"
  shows "\<exists>ms. load_map f ds [] = Inr ms \<and> distinct (map fst ms) \<and> (\<forall>k. rel_option R (map_of ms k) (map_of m k))"
proof -
  have "\<exists>v'. f d = Inr (k, v') \<and> R v' v" if "(k, v) \<in> set m" "enc (k, v) = Inr d" for k v d
    using that assms(2,3) by (auto simp: map_ok_def)
  from load_map_traverse [of enc m ds f R "[]", OF assms(1) _ this] assms(2)
  obtain ms where ms: "load_map f ds [] = Inr ms" "list_all2 (\<lambda>x y. fst x = fst y \<and> R (snd x) (snd y)) ms m"
    by (auto simp: map_ok_def)
  then have "map fst ms = map fst m" by (auto simp: list_all2_conv_all_nth intro: nth_equalityI)
  then show ?thesis using ms assms(2) map_of_list_all2 [OF ms(2)] by (auto simp: map_ok_def)
qed

lemma load_saved_exactly:
  assumes "map_ok P m" and "\<And>k v. P k v \<Longrightarrow> f (g (k, v)) = Inr (k, v)"
  shows "\<exists>ms. load_map f (map g m) [] = Inr ms \<and> distinct (map fst ms) \<and> map_of ms = map_of m"
proof -
  have "\<exists>v'. f d = Inr (k, v') \<and> v' = v" if "P k v" "Inr (g (k, v)) = Inr d" for k v d
    using that assms(2) by auto
  from load_saved [where R = "(=)", OF traverse_pure assms(1) this]
  show ?thesis by (auto simp: option.rel_eq fun_eq_iff)
qed

lemma load_snapshot_ok:
  assumes "load_snapshot A ckey sn = Inr (t, b)"
  shows "state_ok t"
proof -
  have "account_ok k r" if "load_account d = Inr (k, r)" for d k r
    using that by (auto simp: load_account_def account_ok_def to_record_def auth_from_def dest: length_unhex32 split: option.splits if_splits)
  moreover have "length k = 32" if "load_activation d = Inr (k, r)" for d k r
    using that by (auto simp: load_activation_def dest: length_unhex32)
  moreover have "claim_ok k r" if "load_issuance A ckey d = Inr (k, r)" for d k r
    using that by (auto simp: load_issuance_def claim_ok_def dest: length_unhex32)
  moreover have "mint_ok k r" if "load_mint A ckey d = Inr (k, r)" for d k r
    using that by (auto simp: load_mint_def mint_ok_def dest: length_unhex32)
  moreover have "quota_ok k r" if "load_quota d = Inr (k, r)" for d k r
    using that by (auto simp: load_quota_def quota_ok_def not_le dest: length_unhex32 split: if_splits)
  ultimately show ?thesis
    using assms by (auto simp: load_snapshot_def state_ok_def elim!: load_map_ok)
qed

lemma snapshot_roundtrip:
  assumes "aead_ok A" and "nonces_ok nonces" and "state_ok s" and "make_snapshot A ckey nonces s = Inr sn"
  shows "\<exists>t. load_snapshot A ckey sn = Inr (t, False) \<and> agrees t s"
proof -
  obtain iss ms where i: "traverse (save_issuance A ckey nonces) (ps_issuance_results s) = Inr iss"
    and m: "traverse (save_mint A ckey nonces) (ps_mint_results s) = Inr ms"
    and sn: "sn = \<lparr>sn_accounts = map (from_record \<circ> snd) (ps_accounts s),
          sn_activation_results = map (\<lambda>(key, until). (hex32 key, until)) (ps_activation_results s),
          sn_issuance_results = iss, sn_mint_results = ms, sn_mint_quotas = map save_quota (ps_mint_quotas s)\<rparr>"
    using assms(4) by (auto simp: make_snapshot_def)
  have "\<exists>x. load_map load_account (sn_accounts sn) [] = Inr x \<and> distinct (map fst x) \<and> map_of x = map_of (ps_accounts s)"
    unfolding sn using assms(3)
    by (simp, intro load_saved_exactly [where P = account_ok]) (auto simp: state_ok_def load_account_def to_record_from_record, simp add: account_ok_def)
  moreover have "\<exists>x. load_map load_activation (sn_activation_results sn) [] = Inr x \<and> distinct (map fst x) \<and> map_of x = map_of (ps_activation_results s)"
    unfolding sn using assms(3)
    by (simp, intro load_saved_exactly [where P = "\<lambda>k _. length k = 32"]) (auto simp: state_ok_def load_activation_def unhex32_hex32)
  moreover have "\<exists>x. load_map (load_issuance A ckey) (sn_issuance_results sn) [] = Inr x \<and> distinct (map fst x) \<and>
      (\<forall>k. rel_option claim_agrees (map_of x k) (map_of (ps_issuance_results s) k))"
    unfolding sn using assms(3) by (simp, intro load_saved [OF i, where P = claim_ok]) (auto simp: state_ok_def intro: load_save_issuance [OF assms(1,2)])
  moreover have "\<exists>x. load_map (load_mint A ckey) (sn_mint_results sn) [] = Inr x \<and> distinct (map fst x) \<and>
      (\<forall>k. rel_option batch_agrees (map_of x k) (map_of (ps_mint_results s) k))"
    unfolding sn using assms(3) by (simp, intro load_saved [OF m, where P = mint_ok]) (auto simp: state_ok_def intro: load_save_mint [OF assms(1,2)])
  moreover have "\<exists>x. load_map load_quota (sn_mint_quotas sn) [] = Inr x \<and> distinct (map fst x) \<and> map_of x = map_of (ps_mint_quotas s)"
    unfolding sn using assms(3)
    by (simp, intro load_saved_exactly [where P = quota_ok]) (auto simp: state_ok_def load_save_quota)
  moreover have "\<not> list_ex (\<lambda>(_, r). isd_blind_sig r \<noteq> []) (sn_issuance_results sn)" "\<not> list_ex (\<lambda>(_, r). md_blind_sigs r \<noteq> []) (sn_mint_results sn)"
    using i m by (auto simp: sn list_ex_iff dest!: traverse_mem, auto simp: save_issuance_def save_mint_def Let_def split: if_splits)
  ultimately obtain a b c d e where
      ld: "load_map load_account (sn_accounts sn) [] = Inr a" "load_map load_activation (sn_activation_results sn) [] = Inr b"
      "load_map (load_issuance A ckey) (sn_issuance_results sn) [] = Inr c" "load_map (load_mint A ckey) (sn_mint_results sn) [] = Inr d"
      "load_map load_quota (sn_mint_quotas sn) [] = Inr e" "distinct (map fst e)"
      "\<not> list_ex (\<lambda>(_, r). isd_blind_sig r \<noteq> []) (sn_issuance_results sn)" "\<not> list_ex (\<lambda>(_, r). md_blind_sigs r \<noteq> []) (sn_mint_results sn)"
    and eq: "map_of a = map_of (ps_accounts s)" "map_of b = map_of (ps_activation_results s)" "map_of e = map_of (ps_mint_quotas s)"
      "\<And>k. rel_option claim_agrees (map_of c k) (map_of (ps_issuance_results s) k)"
      "\<And>k. rel_option batch_agrees (map_of d k) (map_of (ps_mint_results s) k)" by blast
  define t where "t = \<lparr>ps_accounts = a, ps_activation_results = b, ps_issuance_results = c, ps_mint_results = d, ps_mint_quotas = e\<rparr>"
  have "load_snapshot A ckey sn = Inr (t, False)" unfolding load_snapshot_def t_def using ld by simp
  moreover have "\<exists>r'. map_of d k = Some r' \<and> batch_agrees r' r" if "map_of (ps_mint_results s) k = Some r" for k r
    using eq(5) [of k] that by (auto simp: option_rel_Some2)
  then have "agrees t s" using ld(6) eq by (auto simp: agrees_def t_def quotas_distinct_def)
  ultimately show ?thesis by blast
qed

section \<open>What is in the file\<close>

text \<open>
  What the store relies on of serde_json: a snapshot without legacy fields, its hash maps without
  repeated keys, when it can be written, is a non-empty text that reads back as that snapshot.
\<close>

definition plain_snapshot :: "snapshot_dto \<Rightarrow> bool" where
  "plain_snapshot sn \<longleftrightarrow> list_all (\<lambda>r. rd_recovery_code_hash r = None) (sn_accounts sn) \<and>
     list_all (\<lambda>(_, r). isd_blind_sig r = []) (sn_issuance_results sn) \<and> list_all (\<lambda>(_, r). md_blind_sigs r = []) (sn_mint_results sn) \<and>
     distinct (map fst (sn_activation_results sn)) \<and> distinct (map fst (sn_issuance_results sn)) \<and> distinct (map fst (sn_mint_results sn))"

definition snapshot_json_ok :: "portal_libs \<Rightarrow> bool" where
  "snapshot_json_ok L \<longleftrightarrow> (\<forall>sn bs. plain_snapshot sn \<longrightarrow> pl_to_json L sn = Some bs \<longrightarrow>
     bs \<noteq> [] \<and> pl_from_json L bs = Some (Snapshot sn))"

definition portal_libs_ok :: "portal_libs \<Rightarrow> bool" where
  "portal_libs_ok L \<longleftrightarrow> aead_ok (pl_aead L) \<and> snapshot_json_ok L"

text \<open>The state in the file agrees with a state, or has a fact if it can be read.\<close>

definition loads :: "portal_libs \<Rightarrow> bytes \<Rightarrow> portal_state \<Rightarrow> bytes option \<Rightarrow> bool" where
  "loads L ckey s c \<longleftrightarrow> (\<exists>t. load_contents L ckey c = Inr (t, False) \<and> agrees t s)"

definition reads :: "portal_libs \<Rightarrow> bytes \<Rightarrow> (portal_state \<Rightarrow> bool) \<Rightarrow> bytes option \<Rightarrow> bool" where
  "reads L ckey Q c \<longleftrightarrow> (\<forall>t b. load_contents L ckey c = Inr (t, b) \<longrightarrow> Q t)"

lemma loads_reads: "loads L ckey s c \<Longrightarrow> durable_fact Q \<Longrightarrow> Q s \<Longrightarrow> reads L ckey Q c"
  by (auto simp: loads_def reads_def dest: durable_factD)

lemma loads_agrees: "loads L ckey s c \<Longrightarrow> agrees s u \<Longrightarrow> loads L ckey u c"
  unfolding loads_def using agrees_trans by blast

lemma hex32_inj: "hex32 a = hex32 b \<longleftrightarrow> a = b"
  unfolding hex32_to_hex by (metis from_hex_to_hex option.inject)

lemma traverse_keys:
  "traverse f m = Inr ds \<Longrightarrow> (\<And>x d. f x = Inr d \<Longrightarrow> fst d = hex32 (fst x)) \<Longrightarrow> map fst ds = map (hex32 \<circ> fst) m"
  by (induction m arbitrary: ds) auto

lemma distinct_hex: "distinct (map (hex32 \<circ> fst) m) \<longleftrightarrow> distinct (map fst m)"
  by (simp add: distinct_map comp_inj_on_iff inj_on_def hex32_inj flip: map_map)

lemma make_snapshot_plain:
  assumes "make_snapshot A ckey nonces s = Inr sn" and "state_ok s"
  shows "plain_snapshot sn"
proof -
  obtain iss ms where i: "traverse (save_issuance A ckey nonces) (ps_issuance_results s) = Inr iss"
    and m: "traverse (save_mint A ckey nonces) (ps_mint_results s) = Inr ms"
    and sn: "sn = \<lparr>sn_accounts = map (from_record \<circ> snd) (ps_accounts s),
          sn_activation_results = map (\<lambda>(key, until). (hex32 key, until)) (ps_activation_results s),
          sn_issuance_results = iss, sn_mint_results = ms, sn_mint_quotas = map save_quota (ps_mint_quotas s)\<rparr>"
    using assms(1) by (auto simp: make_snapshot_def)
  have "map fst iss = map (hex32 \<circ> fst) (ps_issuance_results s)" "map fst ms = map (hex32 \<circ> fst) (ps_mint_results s)"
    using i m by (auto simp: save_issuance_def save_mint_def Let_def elim!: traverse_keys)
  moreover have "fst \<circ> (\<lambda>(key, until). (hex32 key, until)) = (hex32 \<circ> fst :: bytes \<times> u64 \<Rightarrow> bytes)" by auto
  moreover have "list_all (\<lambda>(_, r). isd_blind_sig r = []) iss" "list_all (\<lambda>(_, r). md_blind_sigs r = []) ms"
    using i m by (auto simp: list_all_iff dest!: traverse_mem, auto simp: save_issuance_def save_mint_def Let_def split: if_splits)
  ultimately show ?thesis
    using assms(2) by (simp add: plain_snapshot_def sn distinct_hex state_ok_def map_ok_def from_record_def list_all_iff)
qed

lemma saved_loads:
  assumes "portal_libs_ok L" and "nonces_ok nonces" and "state_ok s"
    and "make_snapshot (pl_aead L) ckey nonces s = Inr sn" and "pl_to_json L sn = Some bs"
  shows "loads L ckey s (Some bs)"
proof -
  have "bs \<noteq> []" "pl_from_json L bs = Some (Snapshot sn)"
    using make_snapshot_plain [OF assms(4,3)] assms(1,5) by (auto simp: portal_libs_ok_def snapshot_json_ok_def)
  moreover have "aead_ok (pl_aead L)" using assms(1) by (simp add: portal_libs_ok_def)
  ultimately show ?thesis
    using snapshot_roundtrip [OF _ assms(2-4)] by (auto simp: loads_def load_contents_def)
qed

section \<open>Persisting\<close>

abbreviation file_ok :: "path \<Rightarrow> (bytes option \<Rightarrow> bool) \<Rightarrow> fs \<Rightarrow> bool" where
  "file_ok p R \<equiv> snap_ok (p_dir p) (p_name p) (snapshot_tmp p) R"

abbreviation file_contents :: "path \<Rightarrow> fs \<Rightarrow> bytes option" where
  "file_contents p \<equiv> contents (p_dir p) (p_name p)"

lemma spec_write_snapshot:
  assumes "portal_libs_ok L" and "nonces_ok nonces" and "state_ok (pf_state st)" and "p = pf_path st" and "snapshot_tmp p \<noteq> p_name p"
  shows "spec (\<lambda>s. file_ok p R s \<and> file_contents p s = c) (write_snapshot_and_rename L nonces st)
     (\<lambda>_ s. \<exists>bs. loads L (pf_key st) (pf_state st) (Some bs) \<and> file_ok p (\<lambda>x. R x \<or> x = Some bs) s \<and> file_contents p s = Some bs)
     (\<lambda>s. file_ok p R s \<and> file_contents p s = c)"
proof -
  let ?I = "\<lambda>s. file_ok p R s \<and> file_contents p s = c"
  have w: "spec ?I (replace_file (p_dir p) (snapshot_tmp p) (p_name p) bs)
     (\<lambda>_ s. \<exists>bs. loads L (pf_key st) (pf_state st) (Some bs) \<and> file_ok p (\<lambda>x. R x \<or> x = Some bs) s \<and> file_contents p s = Some bs) ?I"
    if "make_snapshot (pl_aead L) (pf_key st) nonces (pf_state st) = Inr sn" "pl_to_json L sn = Some bs" for sn bs
    by (rule spec_weaken [OF spec_replace_file]) (use saved_loads [OF assms(1-3) that] assms(5) in auto)
  show ?thesis
  proof (cases "make_snapshot (pl_aead L) (pf_key st) nonces (pf_state st)")
    case (Inr sn)
    then show ?thesis
      using w [OF Inr] assms(4)
      by (cases "pl_to_json L sn") (simp_all add: write_snapshot_and_rename_def spec_def io_bind_def io_lift_def)
  qed (simp add: write_snapshot_and_rename_def spec_def io_bind_def io_lift_def)
qed

lemma persist_effect:
  assumes "portal_libs_ok L" and "nonces_ok nonces" and "state_ok (pf_state st)" and "p = pf_path st" and "snapshot_tmp p \<noteq> p_name p"
    and "file_ok p R s" and "persist L nonces st s = (r, st1, s1)"
  shows "case r of
      Inr _ \<Rightarrow> st1 = st\<lparr>pf_uncertain := False\<rparr> \<and> loads L (pf_key st) (pf_state st) (file_contents p s1) \<and>
        file_ok p (\<lambda>x. x = file_contents p s1) s1
    | Inl e \<Rightarrow>
        if pe_committed_to_path e then
          st1 = st\<lparr>pf_uncertain := True\<rparr> \<and> loads L (pf_key st) (pf_state st) (file_contents p s1) \<and>
          file_ok p (\<lambda>x. R x \<or> x = file_contents p s1) s1
        else st1 = st \<and> file_ok p R s1 \<and> file_contents p s1 = file_contents p s"
proof -
  obtain r2 s2 where w: "write_snapshot_and_rename L nonces st s = (r2, s2)" by fastforce
  note sp = spec_write_snapshot [OF assms(1-5), of R "file_contents p s"]
  show ?thesis
  proof (cases r2)
    case (Inl e)
    then show ?thesis using spec_Inl [OF sp, of s e s2] w assms(6,7) by (auto simp: persist_def)
  next
    case (Inr u)
    then obtain bs where bs: "loads L (pf_key st) (pf_state st) (Some bs)" "file_ok p (\<lambda>x. R x \<or> x = Some bs) s2" "file_contents p s2 = Some bs"
      using spec_Inr [OF sp, of s u s2] w assms(6) by auto
    obtain r3 s3 where y: "fs_sync_dir (p_dir p) s2 = (r3, s3)" by fastforce
    note st = spec_settle [of "p_dir p" "p_name p" "snapshot_tmp p" "\<lambda>x. R x \<or> x = Some bs" "Some bs"]
    show ?thesis
    proof (cases r3)
      case (Inl e)
      then show ?thesis
        using spec_Inl [OF st, of s2 e s3] y bs w assms(4,7) \<open>r2 = Inr u\<close> by (auto simp: persist_def portal_sync_parent_def)
    next
      case (Inr v)
      then show ?thesis
        using spec_Inr [OF st, of s2 v s3] y bs w assms(4,7) \<open>r2 = Inr u\<close> by (auto simp: persist_def portal_sync_parent_def)
    qed
  qed
qed

section \<open>Operations against the volatile store\<close>

definition same_state :: "portal_state \<Rightarrow> portal_state \<Rightarrow> bool" where
  "same_state t s \<longleftrightarrow> agrees t s \<and> agrees s t \<and> state_ok t"

lemma same_state_refl [simp]: "same_state s s \<longleftrightarrow> state_ok s"
  by (simp add: same_state_def)

text \<open>
  What an operation of the file store can do, given the answer \<open>mout\<close> and the next state \<open>m\<close> of the
  volatile store on the same state: refuse its arguments; fail because an earlier rename is not known
  to be durable; give that answer and state without a write, where the file still agrees with it and the
  answer acknowledges nothing new;
  or write the state, with its answer on success and, on failure, the old state unless the new file
  is in place.
\<close>

text \<open>The answers that acknowledge something new.\<close>

fun fresh_write :: "portal_out \<Rightarrow> bool" where
  "fresh_write (Activated (Inr (Some (NewlyActivated u)))) \<longleftrightarrow> True"
| "fresh_write (IssuanceDone (Inr IssuanceStored)) \<longleftrightarrow> True"
| "fresh_write (MintDone (Inr MintStored)) \<longleftrightarrow> True"
| "fresh_write _ \<longleftrightarrow> False"

definition file_effect ::
  "portal_libs \<Rightarrow> nonces \<Rightarrow> portal_file \<Rightarrow> fs \<Rightarrow> portal_out \<Rightarrow> portal_state \<Rightarrow> portal_out \<times> portal_file \<times> fs \<Rightarrow> bool" where
  "file_effect L nonces st s mout m r \<longleftrightarrow> (case r of (out, st2, s2) \<Rightarrow>
     failed out \<and> out = mout \<and> m = pf_state st \<and> st2 = st \<and> s2 = s \<or>
     (\<exists>u st1 s1. ensure_durable st s = (u, st1, s1) \<and>
        (case u of
           Inl _ \<Rightarrow> failed out \<and> st2 = st1 \<and> s2 = s1
         | Inr _ \<Rightarrow>
             out = mout \<and> st2 = st1\<lparr>pf_state := m\<rparr> \<and> s2 = s1 \<and> agrees (pf_state st) m \<and> \<not> fresh_write mout \<or>
             (\<exists>v st3. persist L nonces (st1\<lparr>pf_state := m\<rparr>) s1 = (v, st3, s2) \<and>
                (case v of
                   Inr _ \<Rightarrow> out = mout \<and> st2 = st3
                 | Inl e \<Rightarrow> failed out \<and>
                     (if pe_committed_to_path e then st2 = st3
                      else \<exists>old. st2 = st3\<lparr>pf_state := old\<rparr> \<and> same_state old (pf_state st)))))))"

lemma ensure_durable_state: "ensure_durable st s = (u, st1, s1) \<Longrightarrow> pf_state st1 = pf_state st \<and> pf_path st1 = pf_path st \<and> pf_key st1 = pf_key st"
  by (auto simp: ensure_durable_def split: if_splits prod.splits sum.splits)

lemma ensure_durable_Inl: "ensure_durable st s = (Inl e, st1, s1) \<Longrightarrow> \<exists>r. e = Backend r"
  by (auto simp: ensure_durable_def split: if_splits prod.splits sum.splits)

lemma when_durable_cong:
  assumes "\<And>st1 s1. pf_state st1 = pf_state st \<Longrightarrow> f st1 s1 = g st1 s1"
  shows "when_durable st s f = when_durable st s g"
proof -
  obtain u st1 s1 where u: "ensure_durable st s = (u, st1, s1)" by (rule prod_cases3)
  then show ?thesis using assms [of st1 s1] ensure_durable_state [OF u] by (cases u) (simp_all add: when_durable_def)
qed

lemma effect_refused: "failed (f (Inl e)) \<Longrightarrow> file_effect L nonces st s (f (Inl e)) (pf_state st) (answer f (Inl e, st, s))"
  by (simp add: file_effect_def answer_def)

lemma effect_answer:
  assumes "\<And>e. failed (f (Inl (Backend e)))" and "agrees (pf_state st) m" and "\<not> fresh_write (f r)"
  shows "file_effect L nonces st s (f r) m (answer f (when_durable st s (\<lambda>st s. (r, st\<lparr>pf_state := m\<rparr>, s))))"
  using assms ensure_durable_Inl [of st s]
  by (auto simp: file_effect_def answer_def when_durable_def split: prod.splits sum.splits)

lemma effect_write:
  assumes "\<And>e. failed (f (Inl (Backend e)))" and "same_state (undo m) (pf_state st)"
  shows "file_effect L nonces st s (f (Inr x)) m
    (answer f (when_durable st s (\<lambda>st s. persist_or_undo L nonces undo x (st\<lparr>pf_state := m\<rparr>) s)))"
proof -
  obtain u st1 s1 where u: "ensure_durable st s = (u, st1, s1)" by (rule prod_cases3)
  obtain v st2 s2 where v: "persist L nonces (st1\<lparr>pf_state := m\<rparr>) s1 = (v, st2, s2)" by (rule prod_cases3)
  have st2: "pf_state st2 = m" using v by (auto simp: persist_def split: prod.splits sum.splits)
  show ?thesis
  proof (cases u)
    case (Inl e)
    then show ?thesis using u assms(1) ensure_durable_Inl [of st s e st1 s1] by (auto simp: file_effect_def answer_def when_durable_def)
  next
    case (Inr w)
    then show ?thesis
      using u v st2 assms
      by (cases v) (auto simp: file_effect_def answer_def when_durable_def persist_or_undo_def)
  qed
qed

lemma failed_outs [simp]:
  "failed (Inserted (Inl (Backend e)))" "failed (Got (Inl (Backend e)))" "failed (Activated (Inl (Backend e)))"
  "failed (IssuanceFound (Inl (Backend e)))" "failed (IssuanceDone (Inl (Backend e)))" "failed (IssuancePruned (Inl (Backend e)))"
  "failed (MintFound (Inl (Backend e)))" "failed (MintDone (Inl (Backend e)))" "failed (MintPruned (Inl (Backend e)))"
  by (simp_all add: failed_def)

text \<open>Undoing a change gives the state back.\<close>

lemma same_stateI:
  assumes "map_of (ps_accounts t) = map_of (ps_accounts s)" and "map_of (ps_activation_results t) = map_of (ps_activation_results s)"
    and "map_of (ps_issuance_results t) = map_of (ps_issuance_results s)" and "map_of (ps_mint_results t) = map_of (ps_mint_results s)"
    and "map_of (ps_mint_quotas t) = map_of (ps_mint_quotas s)" and "state_ok t" and "state_ok s"
  shows "same_state t s"
  using assms by (auto simp: same_state_def agrees_def state_ok_def map_ok_def quotas_distinct_def intro: option.rel_refl)

lemma map_of_undo_new: "map_of m k = None \<Longrightarrow> map_of (AList.delete k (AList.update k v m)) = map_of m"
  by (auto simp: fun_eq_iff delete_conv' update_conv')

lemma map_of_undo_delete: "map_of m k = Some v \<Longrightarrow> map_of (AList.update k v (AList.delete k m)) = map_of m"
  by (auto simp: fun_eq_iff delete_conv' update_conv')

lemma agrees_drop: "agrees s (drop_expired_mint k now s)"
  by (auto simp: agrees_def drop_expired_mint_def delete_conv' restrict_map_def quotas_distinct_def intro: option.rel_refl
      split: option.splits if_splits)

lemma pf_state_id: "pf_state st1 = m \<Longrightarrow> st1\<lparr>pf_state := m\<rparr> = st1"
  by auto

lemma effect_insert:
  assumes "state_ok (pf_state st)" and "op_sized (OpInsert r)"
  shows "file_effect L nonces st s (Inserted (fst (store_insert r (pf_state st)))) (snd (store_insert r (pf_state st)))
    (answer Inserted (file_insert L nonces r st s))"
proof (cases "map_of (ps_accounts (pf_state st)) (ar_account_number r)")
  case None
  let ?m = "pf_state st" and ?k = "ar_account_number r"
  let ?m1 = "?m\<lparr>ps_accounts := AList.update ?k r (ps_accounts ?m)\<rparr>" and ?undo = "\<lambda>m. m\<lparr>ps_accounts := AList.delete ?k (ps_accounts m)\<rparr>"
  have "state_ok ?m1" using portal_step_ok [OF assms] None by (simp add: store_insert_def)
  then have ok: "state_ok (?undo ?m1)" by (simp add: state_ok_def map_ok_delete)
  have "same_state (?undo ?m1) ?m" by (rule same_stateI) (use ok assms(1) in \<open>simp_all add: map_of_undo_new None\<close>)
  moreover have "file_insert L nonces r st s = when_durable st s (\<lambda>st s. persist_or_undo L nonces ?undo () (st\<lparr>pf_state := ?m1\<rparr>) s)"
    unfolding file_insert_def by (rule when_durable_cong) (simp add: None Let_def)
  ultimately show ?thesis using effect_write [of Inserted ?undo ?m1 st L nonces s "()"] None ok by (simp add: store_insert_def)
next
  case (Some old)
  have "file_insert L nonces r st s = when_durable st s (\<lambda>st1 s. (Inl Duplicate, st1\<lparr>pf_state := pf_state st\<rparr>, s))"
    unfolding file_insert_def by (rule when_durable_cong) (simp add: Some pf_state_id)
  then show ?thesis using effect_answer [of Inserted st "pf_state st" "Inl Duplicate" L nonces s] Some by (simp add: store_insert_def)
qed

lemma effect_get:
  "file_effect L nonces st s (Got (Inr (store_get a (pf_state st)))) (pf_state st) (answer Got (file_get a st s))"
proof -
  have "file_get a st s = when_durable st s (\<lambda>st1 s. (Inr (store_get a (pf_state st)), st1\<lparr>pf_state := pf_state st\<rparr>, s))"
    unfolding file_get_def by (rule when_durable_cong) (simp add: store_get_def pf_state_id)
  then show ?thesis using effect_answer [of Got st "pf_state st"] by simp
qed

lemma effect_activate:
  assumes "state_ok (pf_state st)" and "op_sized (OpActivate a k now period)"
  defines "r \<equiv> activate_subscription a k now period (pf_state st)"
  shows "file_effect L nonces st s (Activated (Inr (fst r))) (snd r) (answer Activated (file_activate L nonces a k now period st s))"
proof (cases "\<exists>rec. map_of (ps_accounts (pf_state st)) a = Some rec \<and> map_of (ps_activation_results (pf_state st)) k = None")
  case True
  then obtain rec where rec: "map_of (ps_accounts (pf_state st)) a = Some rec" "map_of (ps_activation_results (pf_state st)) k = None" by blast
  let ?m = "pf_state st"
  let ?u = "saturating_add (case active_until (ar_entitlement rec) now of Some u \<Rightarrow> u | None \<Rightarrow> now) period"
  let ?m1 = "?m\<lparr>ps_accounts := AList.update a (rec\<lparr>ar_entitlement := EntActive ?u\<rparr>) (ps_accounts ?m),
      ps_activation_results := AList.update k ?u (ps_activation_results ?m)\<rparr>"
    and ?undo = "\<lambda>m. m\<lparr>ps_activation_results := AList.delete k (ps_activation_results m),
      ps_accounts := (case map_of (ps_accounts m) a of
        Some r \<Rightarrow> AList.update a (r\<lparr>ar_entitlement := ar_entitlement rec\<rparr>) (ps_accounts m) | None \<Rightarrow> ps_accounts m)\<rparr>"
  have r: "r = (Some (NewlyActivated ?u), ?m1)" using rec by (simp add: r_def activate_subscription_def Let_def)
  have m1: "state_ok ?m1" using portal_step_ok [OF assms(1,2)] r by (simp add: r_def)
  have "account_ok a rec" using assms(1) rec(1) by (auto simp: state_ok_def dest: map_ok_map_of)
  then have ok: "state_ok (?undo ?m1)"
    using m1 assms(1) by (simp add: state_ok_def map_ok_delete update_conv' map_ok_update)
  have "same_state (?undo ?m1) ?m"
    by (rule same_stateI) (use ok assms(1) in \<open>auto simp: map_of_undo_new rec update_conv' fun_eq_iff\<close>)
  moreover have "file_activate L nonces a k now period st s =
      when_durable st s (\<lambda>st s. persist_or_undo L nonces ?undo (Some (NewlyActivated ?u)) (st\<lparr>pf_state := ?m1\<rparr>) s)"
    unfolding file_activate_def by (rule when_durable_cong) (simp add: rec Let_def)
  ultimately show ?thesis using effect_write [of Activated ?undo ?m1 st L nonces s "Some (NewlyActivated ?u)"] ok r by simp
next
  case False
  then have r: "snd r = pf_state st" "\<not> fresh_write (Activated (Inr (fst r)))"
    by (auto simp: r_def activate_subscription_def split: option.splits)
  have "file_activate L nonces a k now period st s = when_durable st s (\<lambda>st1 s. (Inr (fst r), st1\<lparr>pf_state := pf_state st\<rparr>, s))"
    unfolding file_activate_def
    by (rule when_durable_cong) (use False in \<open>auto simp: r_def activate_subscription_def Let_def pf_state_id split: option.splits\<close>)
  then show ?thesis using effect_answer [of Activated st "pf_state st"] r by simp
qed

lemma effect_lookup_issuance:
  "file_effect L nonces st s (IssuanceFound (Inr (lookup_issuance k h now (pf_state st)))) (pf_state st)
     (answer IssuanceFound (file_lookup_issuance k h now st s))"
proof -
  have "file_lookup_issuance k h now st s =
      when_durable st s (\<lambda>st1 s. (Inr (lookup_issuance k h now (pf_state st)), st1\<lparr>pf_state := pf_state st\<rparr>, s))"
    unfolding file_lookup_issuance_def
    by (rule when_durable_cong) (auto simp: lookup_issuance_def replayable_def pf_state_id split: option.splits)
  then show ?thesis using effect_answer [of IssuanceFound st "pf_state st"] by simp
qed

lemma effect_commit_issuance:
  assumes "state_ok (pf_state st)" and "op_sized (OpCommitIssuance k r now)"
  defines "x \<equiv> commit_issuance k r now (pf_state st)"
  shows "file_effect L nonces st s (IssuanceDone (fst x)) (snd x) (answer IssuanceDone (file_commit_issuance L nonces k r now st s))"
proof (cases "ir_replay_until r \<le> now \<or> ir_blind_sig r = []")
  case True
  then show ?thesis
    using effect_refused [of IssuanceDone "Backend ''refusing to store an expired or empty issuance result''"]
    by (simp add: file_commit_issuance_def x_def commit_issuance_def)
next
  case live: False
  show ?thesis
  proof (cases "map_of (ps_issuance_results (pf_state st)) k")
    case None
    let ?m = "pf_state st"
    let ?m1 = "?m\<lparr>ps_issuance_results := AList.update k r (ps_issuance_results ?m)\<rparr>"
      and ?undo = "\<lambda>m. m\<lparr>ps_issuance_results := AList.delete k (ps_issuance_results m)\<rparr>"
    have x: "x = (Inr IssuanceStored, ?m1)" using live None by (simp add: x_def commit_issuance_def)
    have "state_ok ?m1" using portal_step_ok [OF assms(1,2)] x by (simp add: x_def)
    then have ok: "state_ok (?undo ?m1)" by (simp add: state_ok_def map_ok_delete)
    have "same_state (?undo ?m1) ?m" by (rule same_stateI) (use ok assms(1) in \<open>simp_all add: map_of_undo_new None\<close>)
    moreover have "file_commit_issuance L nonces k r now st s =
        when_durable st s (\<lambda>st s. persist_or_undo L nonces ?undo IssuanceStored (st\<lparr>pf_state := ?m1\<rparr>) s)"
      unfolding file_commit_issuance_def if_not_P [OF live] by (rule when_durable_cong) (simp add: None Let_def)
    ultimately show ?thesis using effect_write [of IssuanceDone ?undo ?m1 st L nonces s IssuanceStored] ok x by simp
  next
    case (Some old)
    have x: "snd x = pf_state st" "\<not> fresh_write (IssuanceDone (fst x))"
      using live Some by (simp_all add: x_def commit_issuance_def)
    have "file_commit_issuance L nonces k r now st s = when_durable st s (\<lambda>st1 s. (fst x, st1\<lparr>pf_state := pf_state st\<rparr>, s))"
      unfolding file_commit_issuance_def if_not_P [OF live]
      by (rule when_durable_cong) (use live Some in \<open>simp add: x_def commit_issuance_def replayable_def pf_state_id\<close>)
    then show ?thesis using effect_answer [of IssuanceDone st "pf_state st"] x by simp
  qed
qed

lemma filter_Nil_map: "filter f xs = [] \<Longrightarrow> map (\<lambda>(k, r). (k, if f (k, r) then g r else r)) xs = xs"
  by (induction xs) (auto split: if_splits)

lemma effect_prune_issuance:
  fixes now :: u64
  assumes "state_ok (pf_state st)"
  defines "x \<equiv> prune_issuance_results now (pf_state st)"
  shows "file_effect L nonces st s (IssuancePruned (Inr (fst x))) (snd x) (answer IssuancePruned (file_prune_issuance L nonces now st s))"
proof (cases "filter (\<lambda>(_, r). scrubs now r) (ps_issuance_results (pf_state st)) = []")
  case True
  then have x: "x = (0, pf_state st)"
    using filter_Nil_map [of "\<lambda>(_, r). scrubs now r" "ps_issuance_results (pf_state st)"] by (simp add: x_def prune_issuance_results_def)
  have "file_prune_issuance L nonces now st s = when_durable st s (\<lambda>st1 s. (Inr 0, st1\<lparr>pf_state := pf_state st\<rparr>, s))"
    unfolding file_prune_issuance_def by (rule when_durable_cong) (simp add: True Let_def pf_state_id)
  then show ?thesis using effect_answer [of IssuancePruned st "pf_state st"] x by simp
next
  case False
  let ?m = "pf_state st"
  let ?undo = "\<lambda>m. m\<lparr>ps_issuance_results := ps_issuance_results ?m\<rparr>"
  have "?undo (snd x) = ?m" by (simp add: x_def prune_issuance_results_def)
  moreover have "file_prune_issuance L nonces now st s =
      when_durable st s (\<lambda>st s. persist_or_undo L nonces ?undo (fst x) (st\<lparr>pf_state := snd x\<rparr>) s)"
    unfolding file_prune_issuance_def
    by (rule when_durable_cong) (use False in \<open>simp add: x_def prune_issuance_results_def Let_def\<close>)
  ultimately show ?thesis using effect_write [of IssuancePruned ?undo "snd x" st L nonces s "fst x"] assms(1) by simp
qed

lemma effect_lookup_mint:
  fixes k h :: bytes and now :: u64
  assumes "state_ok (pf_state st)"
  defines "x \<equiv> lookup_mint k h now (pf_state st)"
  shows "file_effect L nonces st s (MintFound (Inr (fst x))) (snd x) (answer MintFound (file_lookup_mint L nonces k h now st s))"
proof (cases "\<exists>r. map_of (ps_mint_results (pf_state st)) k = Some r \<and> mr_expires_at r \<le> now")
  case True
  then obtain r where r: "map_of (ps_mint_results (pf_state st)) k = Some r" "mr_expires_at r \<le> now" by blast
  let ?m = "pf_state st"
  let ?m1 = "?m\<lparr>ps_mint_results := AList.delete k (ps_mint_results ?m)\<rparr>"
    and ?undo = "\<lambda>m. m\<lparr>ps_mint_results := AList.update k r (ps_mint_results m)\<rparr>"
  have x: "x = (MintMissing, ?m1)" using r by (simp add: x_def lookup_mint_def drop_expired_mint_def delete_conv')
  have "mint_ok k r" using assms(1) r(1) by (auto simp: state_ok_def dest: map_ok_map_of)
  then have ok: "state_ok (?undo ?m1)" using assms(1) by (simp add: state_ok_def map_ok_delete map_ok_update)
  have "same_state (?undo ?m1) ?m" by (rule same_stateI) (use ok assms(1) in \<open>simp_all add: map_of_undo_delete r\<close>)
  moreover have "file_lookup_mint L nonces k h now st s =
      when_durable st s (\<lambda>st s. persist_or_undo L nonces ?undo MintMissing (st\<lparr>pf_state := ?m1\<rparr>) s)"
    unfolding file_lookup_mint_def by (rule when_durable_cong) (simp add: r Let_def mint_answer_def delete_conv')
  ultimately show ?thesis using effect_write [of MintFound ?undo ?m1 st L nonces s MintMissing] ok x by simp
next
  case False
  then have d: "drop_expired_mint k now (pf_state st) = pf_state st" by (auto simp: drop_expired_mint_def split: option.splits)
  then have x: "snd x = pf_state st" by (simp add: x_def)
  have "file_lookup_mint L nonces k h now st s = when_durable st s (\<lambda>st1 s. (Inr (fst x), st1\<lparr>pf_state := pf_state st\<rparr>, s))"
    unfolding file_lookup_mint_def
    by (rule when_durable_cong)
       (use False in \<open>auto simp: x_def lookup_mint_def d Let_def mint_answer_def pf_state_id split: option.splits\<close>)
  then show ?thesis using effect_answer [of MintFound st "pf_state st"] x by simp
qed

lemma filter_keeps_all: "length xs \<le> length (filter f xs) \<Longrightarrow> filter f xs = xs"
  by (metis filter_True length_filter_less not_le)

lemma effect_prune_mint:
  fixes now :: u64
  assumes "state_ok (pf_state st)"
  defines "x \<equiv> prune_mint_results now (pf_state st)"
  shows "file_effect L nonces st s (MintPruned (Inr (fst x))) (snd x) (answer MintPruned (file_prune_mint L nonces now st s))"
proof (cases "fst x = 0")
  case True
  then have "(length (ps_mint_results (pf_state st)) - length (filter (\<lambda>(_, r). now < mr_expires_at r) (ps_mint_results (pf_state st)))) +
      (length (ps_mint_quotas (pf_state st)) - length (filter (\<lambda>(_, window_end, _). now < window_end) (ps_mint_quotas (pf_state st)))) = 0"
    by (simp only: x_def prune_mint_results_def Let_def fst_conv)
  then have le: "length (ps_mint_results (pf_state st)) \<le> length (filter (\<lambda>(_, r). now < mr_expires_at r) (ps_mint_results (pf_state st)))"
    "length (ps_mint_quotas (pf_state st)) \<le> length (filter (\<lambda>(_, window_end, _). now < window_end) (ps_mint_quotas (pf_state st)))"
    by linarith+
  then have "snd x = pf_state st"
    using filter_keeps_all [of "ps_mint_results (pf_state st)"] filter_keeps_all [of "ps_mint_quotas (pf_state st)"]
    by (simp add: x_def prune_mint_results_def Let_def)
  moreover have "file_prune_mint L nonces now st s = when_durable st s (\<lambda>st1 s. (Inr 0, st1\<lparr>pf_state := snd x\<rparr>, s))"
    unfolding file_prune_mint_def
    by (rule when_durable_cong) (use le in \<open>simp add: x_def prune_mint_results_def Let_def\<close>)
  ultimately show ?thesis using effect_answer [of MintPruned st "snd x"] True by simp
next
  case False
  let ?m = "pf_state st"
  let ?undo = "\<lambda>m. m\<lparr>ps_mint_results := ps_mint_results ?m, ps_mint_quotas := ps_mint_quotas ?m\<rparr>"
  have "?undo (snd x) = ?m" by (simp add: x_def prune_mint_results_def Let_def)
  moreover have "file_prune_mint L nonces now st s =
      when_durable st s (\<lambda>st s. persist_or_undo L nonces ?undo (fst x) (st\<lparr>pf_state := snd x\<rparr>) s)"
    unfolding file_prune_mint_def
    by (rule when_durable_cong) (use False in \<open>auto simp: x_def prune_mint_results_def Let_def\<close>)
  ultimately show ?thesis using effect_write [of MintPruned ?undo "snd x" st L nonces s "fst x"] assms(1) by simp
qed

text \<open>Committing a batch: the expired entry it drops, and the entry of the quota window.\<close>

definition expired_entry :: "bytes \<Rightarrow> u64 \<Rightarrow> portal_state \<Rightarrow> mint_result option" where
  "expired_entry k now m =
     (case map_of (ps_mint_results m) k of Some r \<Rightarrow> if mr_expires_at r \<le> now then Some r else None | None \<Rightarrow> None)"

lemma drop_expired_entry:
  "drop_expired_mint k now m =
     (if expired_entry k now m \<noteq> None then m\<lparr>ps_mint_results := AList.delete k (ps_mint_results m)\<rparr> else m)"
  by (simp add: drop_expired_mint_def expired_entry_def split: option.splits)

lemma commit_mint_body:
  fixes m :: portal_state and now :: u64 and k :: bytes and q :: mint_quota
  defines "e \<equiv> drop_expired_mint k now m" and "qk \<equiv> (mq_quota_key q, mq_window_start q)"
  assumes "\<not> mr_expires_at r \<le> now" and "pf_state st = m"
  shows "commit_mint_locked L nonces k r q now st s =
    (case commit_mint k r q now m of
       (Inr MintStored, m1) \<Rightarrow>
         persist_or_undo L nonces (undo_mint k (expired_entry k now m) qk (map_of (ps_mint_quotas e) qk)) MintStored (st\<lparr>pf_state := m1\<rparr>) s
     | (out, m1) \<Rightarrow> (out, st\<lparr>pf_state := m1\<rparr>, s))"
  using assms(3)
  unfolding commit_mint_locked_def commit_mint_def charge_quota_def Let_def assms(4) qk_def [symmetric] expired_entry_def [symmetric]
    drop_expired_entry [symmetric] e_def [symmetric]
  by (auto split: option.splits prod.splits)

lemma undo_mint_agrees:
  assumes "state_ok m" and "fst (commit_mint k r q now m) = Inr MintStored" and "op_sized (OpCommitMint k r q now)"
  defines "e \<equiv> drop_expired_mint k now m" and "qk \<equiv> (mq_quota_key q, mq_window_start q)"
  defines "u \<equiv> undo_mint k (expired_entry k now m) qk (map_of (ps_mint_quotas e) qk) (snd (commit_mint k r q now m))"
  shows "same_state u m"
proof -
  have none: "map_of (ps_mint_results e) k = None"
    and "\<exists>entry. snd (commit_mint k r q now m) = e\<lparr>ps_mint_results := AList.update k r (ps_mint_results e),
      ps_mint_quotas := AList.update qk entry (ps_mint_quotas e)\<rparr>"
    using assms(2) by (auto simp: commit_mint_def Let_def e_def qk_def split: option.splits sum.splits charge_error.splits if_splits)
  then obtain entry where m1: "snd (commit_mint k r q now m) = e\<lparr>ps_mint_results := AList.update k r (ps_mint_results e),
      ps_mint_quotas := AList.update qk entry (ps_mint_quotas e)\<rparr>" by blast
  have ok1: "state_ok (snd (commit_mint k r q now m))" by (rule state_ok_commit_mint [OF assms(1,3)])
  have ex: "mint_ok k x" if "expired_entry k now m = Some x" for x
    using that assms(1) by (auto simp: expired_entry_def state_ok_def dest: map_ok_map_of split: option.splits if_splits)
  have qe: "quota_ok qk x" if "map_of (ps_mint_quotas e) qk = Some x" for x
    using that assms(1) by (auto simp: e_def drop_expired_frame state_ok_def dest: map_ok_map_of)
  have ok: "state_ok u"
    using ok1 ex qe unfolding u_def undo_mint_def Let_def
    by (auto simp: state_ok_def map_ok_delete split: option.splits intro!: map_ok_update map_ok_delete)
  have "map_of (ps_mint_quotas u) = map_of (ps_mint_quotas m)"
    unfolding u_def undo_mint_def Let_def m1
    by (auto simp: e_def drop_expired_frame map_of_undo_new update_conv' fun_eq_iff split: option.splits)
  moreover have "map_of (ps_mint_results u) = map_of (ps_mint_results m)"
    using none unfolding u_def undo_mint_def Let_def m1 e_def drop_expired_entry expired_entry_def
    by (auto simp: update_conv' delete_conv' fun_eq_iff split: option.splits if_splits)
  moreover have "ps_accounts u = ps_accounts m" "ps_activation_results u = ps_activation_results m" "ps_issuance_results u = ps_issuance_results m"
    unfolding u_def undo_mint_def Let_def by (simp_all add: commit_mint_frame)
  ultimately show ?thesis using ok assms(1) same_stateI [of u m] by simp
qed

lemma effect_commit_mint:
  fixes k :: bytes and r :: mint_result and q :: mint_quota and now :: u64
  assumes "state_ok (pf_state st)" and "op_sized (OpCommitMint k r q now)"
  defines "x \<equiv> commit_mint k r q now (pf_state st)"
  shows "file_effect L nonces st s (MintDone (fst x)) (snd x) (answer MintDone (file_commit_mint L nonces k r q now st s))"
proof (cases "mr_expires_at r \<le> now")
  case True
  then show ?thesis
    using effect_refused [of MintDone "Backend ''refusing to store an already-expired mint result''"]
    by (simp add: file_commit_mint_def x_def commit_mint_def)
next
  case live: False
  let ?m = "pf_state st"
  let ?undo = "undo_mint k (expired_entry k now ?m) (mq_quota_key q, mq_window_start q)
    (map_of (ps_mint_quotas (drop_expired_mint k now ?m)) (mq_quota_key q, mq_window_start q))"
  note body = commit_mint_body [OF live, where m = ?m and k = k and q = q and L = L and nonces = nonces]
  show ?thesis
  proof (cases "fst x = Inr MintStored")
    case True
    have "file_commit_mint L nonces k r q now st s = when_durable st s (\<lambda>st s. persist_or_undo L nonces ?undo MintStored (st\<lparr>pf_state := snd x\<rparr>) s)"
      unfolding file_commit_mint_def if_not_P [OF live]
      by (rule when_durable_cong) (use True in \<open>auto simp: body x_def split: prod.splits\<close>)
    then show ?thesis
      using effect_write [of MintDone ?undo "snd x" st L nonces s MintStored] undo_mint_agrees [OF assms(1) _ assms(2)] True by (simp add: x_def)
  next
    case False
    then have "agrees ?m (snd x)"
      using live agrees_drop [of ?m k now]
      by (auto simp: x_def commit_mint_def Let_def split: option.splits sum.splits charge_error.splits)
    moreover have "\<not> fresh_write (MintDone (fst x))"
      using False by (cases "fst x"; cases "projr (fst x)") auto
    moreover have "file_commit_mint L nonces k r q now st s = when_durable st s (\<lambda>st1 s. (fst x, st1\<lparr>pf_state := snd x\<rparr>, s))"
      unfolding file_commit_mint_def if_not_P [OF live]
      by (rule when_durable_cong) (use False in \<open>auto simp: body x_def split: prod.splits sum.splits mint_commit.splits\<close>)
    ultimately show ?thesis using effect_answer [of MintDone st "snd x"] by simp
  qed
qed

text \<open>Every operation.\<close>

lemma file_step_effect:
  assumes "state_ok (pf_state st)" and "op_sized f"
  shows "file_effect L nonces st s (fst (portal_step f (pf_state st))) (snd (portal_step f (pf_state st))) (file_step L nonces f st s)"
  using assms
  by (cases f) (simp_all add: effect_insert effect_get effect_activate effect_lookup_issuance effect_commit_issuance
      effect_prune_issuance effect_lookup_mint effect_commit_mint effect_prune_mint del: op_sized.simps lookup_mint_snd)

section \<open>The store with failures, crashes and restarts\<close>

text \<open>
  The open store and its file: the file in place reads to a state that agrees with the one in memory.
  In a store that is \<open>sound\<close> it is also the only one a crash can bring back unless the flag says
  otherwise; a process that was started while an earlier one had a rename pending is not.
\<close>

definition open_ok :: "bool \<Rightarrow> portal_libs \<Rightarrow> path \<Rightarrow> bytes \<Rightarrow> portal_file \<Rightarrow> fs \<Rightarrow> bool" where
  "open_ok sound L p ckey st s \<longleftrightarrow> pf_path st = p \<and> pf_key st = ckey \<and> state_ok (pf_state st) \<and>
     loads L ckey (pf_state st) (file_contents p s) \<and> (sound \<longrightarrow> \<not> pf_uncertain st \<longrightarrow> file_ok p (\<lambda>x. x = file_contents p s) s)"

definition file_holds :: "bool \<Rightarrow> portal_libs \<Rightarrow> path \<Rightarrow> bytes \<Rightarrow> (portal_state \<Rightarrow> bool) \<Rightarrow> portal_world \<Rightarrow> bool" where
  "file_holds sound L p ckey Q w \<longleftrightarrow> file_ok p (reads L ckey Q) (snd w) \<and>
     (case fst w of None \<Rightarrow> True | Some st \<Rightarrow> open_ok sound L p ckey st (snd w) \<and> Q (pf_state st))"

text \<open>
  The inputs of a history: byte strings of the sizes the source's types give them and nonces of the size
  of the cipher's. A restart is settled if it comes with a crash or when no rename is pending in the
  directory.
\<close>

fun event_ok :: "portal_event \<Rightarrow> bool" where
  "event_ok (FileOp nonces f) \<longleftrightarrow> nonces_ok nonces \<and> op_sized f"
| "event_ok (Restart nonces cc) \<longleftrightarrow> nonces_ok nonces"

definition settled_dir :: "path \<Rightarrow> fs \<Rightarrow> bool" where
  "settled_dir p s \<longleftrightarrow> (\<forall>v\<in>set (versions (p_dir p) s). v (p_name p) = f_names s (p_dir p) (p_name p))"

fun settled_restart :: "path \<Rightarrow> portal_event \<Rightarrow> portal_world \<Rightarrow> bool" where
  "settled_restart p (Restart nonces None) w \<longleftrightarrow> settled_dir p (snd w)"
| "settled_restart p _ w \<longleftrightarrow> True"

lemma settled_contents: "settled_dir p s \<Longrightarrow> file_ok p R s \<Longrightarrow> file_ok p (\<lambda>x. x = file_contents p s) s"
  by (auto simp: settled_dir_def snap_ok_def contents_def snap_entry_def split: option.splits)

lemma reads_mono: "reads L ckey Q c \<Longrightarrow> (\<And>m. Q m \<Longrightarrow> Q' m) \<Longrightarrow> reads L ckey Q' c"
  by (auto simp: reads_def)

lemma file_ok_reads_mono: "file_ok p (reads L ckey Q) s \<Longrightarrow> (\<And>m. Q m \<Longrightarrow> Q' m) \<Longrightarrow> file_ok p (reads L ckey Q') s"
  by (erule snap_ok_mono) (rule reads_mono)

lemma file_ok_settled: "file_ok p (\<lambda>x. x = c) s \<Longrightarrow> R c \<Longrightarrow> file_ok p R s"
  by (erule snap_ok_mono) simp

lemma ensure_durable_effect:
  assumes "open_ok d L p ckey st s" and "file_ok p R s" and "ensure_durable st s = (u, st1, s1)"
  shows "open_ok d L p ckey st1 s1 \<and> file_ok p R s1 \<and> (\<forall>v. u = Inr v \<longrightarrow> \<not> pf_uncertain st1)"
proof (cases "pf_uncertain st")
  case True
  obtain r s2 where y: "fs_sync_dir (p_dir p) s = (r, s2)" by fastforce
  note sp = spec_settle [of "p_dir p" "p_name p" "snapshot_tmp p" R "file_contents p s"]
  have path: "pf_path st = p" using assms(1) by (simp add: open_ok_def)
  show ?thesis
  proof (cases r)
    case (Inl e)
    then show ?thesis
      using spec_Inl [OF sp, of s e s2] y True path assms by (auto simp: ensure_durable_def portal_sync_parent_def open_ok_def)
  next
    case (Inr v)
    then have y2: "file_ok p (\<lambda>x. x = file_contents p s) s2" "file_contents p s2 = file_contents p s"
      using spec_Inr [OF sp, of s v s2] y assms(2) by auto
    have "file_ok p R s2" by (rule file_ok_settled [where R = R, OF y2(1) snap_ok_contents [OF assms(2)]])
    then show ?thesis
      using y2 Inr y True path assms by (auto simp: ensure_durable_def portal_sync_parent_def open_ok_def)
  qed
qed (use assms in \<open>simp add: ensure_durable_def\<close>)

text \<open>The step of an open store: what holds afterwards, for facts that the operation keeps or makes.\<close>

text \<open>
  The three outcomes of an operation: a failure that leaves the accounts and the file as they were;
  the volatile store's answer, with its next state as the only one a crash can bring back (in a store
  that is sound, or when something new was acknowledged); or a failure with that state in place and
  pending in the directory.
\<close>

lemma file_step_outcome:
  assumes libs: "portal_libs_ok L" "snapshot_tmp p \<noteq> p_name p" and n: "nonces_ok nonces" "op_sized f"
    and ok: "open_ok d L p ckey st s" "file_ok p R s" and step: "file_step L nonces f st s = (out, st2, s2)"
  defines "r \<equiv> portal_step f (pf_state st)"
  shows "open_ok d L p ckey st2 s2 \<and>
    (failed out \<and> same_state (pf_state st2) (pf_state st) \<and> file_ok p R s2 \<or>
     out = fst r \<and> pf_state st2 = snd r \<and> \<not> pf_uncertain st2 \<and>
       (file_ok p (\<lambda>x. x = file_contents p s2) s2 \<or> \<not> d \<and> \<not> fresh_write out \<and> file_ok p R s2) \<or>
     failed out \<and> pf_state st2 = snd r \<and> pf_uncertain st2 \<and> file_ok p (\<lambda>x. R x \<or> x = file_contents p s2) s2)"
proof -
  obtain u st1 s1 where u: "ensure_durable st s = (u, st1, s1)" by (rule prod_cases3)
  have ok0: "state_ok (pf_state st)" "pf_path st = p" "pf_key st = ckey" using ok(1) by (simp_all add: open_ok_def)
  have st1: "pf_state st1 = pf_state st" "pf_path st1 = p" "pf_key st1 = ckey" using ensure_durable_state [OF u] ok0 by simp_all
  have e: "open_ok d L p ckey st1 s1" "file_ok p R s1" "u = Inr w \<Longrightarrow> \<not> pf_uncertain st1" for w
    using ensure_durable_effect [OF ok u] by simp_all
  have okm: "state_ok (snd r)" unfolding r_def by (rule portal_step_ok [OF ok0(1) n(2)])
  obtain v st3 s3 where v: "persist L nonces (st1\<lparr>pf_state := snd r\<rparr>) s1 = (v, st3, s3)" by (rule prod_cases3)
  have "state_ok (pf_state (st1\<lparr>pf_state := snd r\<rparr>))" "p = pf_path (st1\<lparr>pf_state := snd r\<rparr>)" using okm st1 by simp_all
  note persisted = persist_effect [OF libs(1) n(1) this libs(2) _ v]
  note pe = persisted [OF e(2)]
  have "file_effect L nonces st s (fst r) (snd r) (out, st2, s2)" unfolding r_def using file_step_effect [OF ok0(1) n(2)] step by metis
  then consider (refused) "failed out" "st2 = st" "s2 = s" | (unsure) "failed out" "st2 = st1" "s2 = s1"
    | (quiet) w where "u = Inr w" "out = fst r" "st2 = st1\<lparr>pf_state := snd r\<rparr>" "s2 = s1" "agrees (pf_state st) (snd r)" "\<not> fresh_write out"
    | (written) x where "v = Inr x" "out = fst r" "st2 = st3" "s2 = s3"
    | (undone) x old where "v = Inl x" "\<not> pe_committed_to_path x" "failed out" "st2 = st3\<lparr>pf_state := old\<rparr>" "s2 = s3"
        "same_state old (pf_state st)"
    | (pending) x where "v = Inl x" "pe_committed_to_path x" "failed out" "st2 = st3" "s2 = s3"
    using u v by (auto simp: file_effect_def split: sum.splits if_splits)
  then show ?thesis
  proof cases
    case quiet
    then show ?thesis using e(1,2) e(3) [OF quiet(1)] st1 okm loads_agrees by (auto simp: open_ok_def)
  next
    case undone
    then have s3: "st3 = st1\<lparr>pf_state := snd r\<rparr>" "file_ok p R s3" "file_contents p s3 = file_contents p s1" using pe by simp_all
    have old: "agrees (pf_state st) old" "state_ok old" using undone(6) by (simp_all add: same_state_def)
    have "file_ok p (\<lambda>x. x = file_contents p s3) s3" if d "\<not> pf_uncertain st1"
      using persisted [of "\<lambda>x. x = file_contents p s1"] that undone(1,2) s3(3) e(1) by (simp add: open_ok_def)
    then show ?thesis using undone s3 st1 old e(1) loads_agrees [OF _ old(1)] by (simp add: open_ok_def)
  qed (use ok e pe ok0 st1 okm in \<open>auto simp: open_ok_def\<close>)
qed

text \<open>
  The step of an open store: a fact that the operation keeps still holds, and after an answer that
  acknowledges something new (after any, in a sound store) whatever is true of the volatile store's next
  state holds.
\<close>

lemma file_step_holds:
  assumes libs: "portal_libs_ok L" "snapshot_tmp p \<noteq> p_name p" and n: "nonces_ok nonces" "op_sized f"
    and ok: "open_ok d L p ckey st s" "file_ok p (reads L ckey Q) s" and m: "Q (pf_state st)"
    and fact: "durable_fact Q'" and step: "file_step L nonces f st s = (out, st2, s2)"
    and new: "Q' (snd (portal_step f (pf_state st)))"
  shows "(\<And>m. Q m \<Longrightarrow> Q' m) \<Longrightarrow> file_holds d L p ckey Q' (Some st2, s2)"
    and "\<not> failed out \<Longrightarrow> out = fst (portal_step f (pf_state st)) \<and> (d \<or> fresh_write out \<longrightarrow> file_holds d L p ckey Q' (Some st2, s2))"
proof -
  let ?m = "snd (portal_step f (pf_state st))"
  note out = file_step_outcome [OF libs n ok step]
  have loaded: "reads L ckey Q' (file_contents p s2)" if "pf_state st2 = ?m"
    using out that loads_reads [OF _ fact new] by (auto simp: open_ok_def)
  have made: "file_holds d L p ckey Q' (Some st2, s2)" if "pf_state st2 = ?m" "file_ok p (reads L ckey Q') s2"
    using out that new by (simp add: file_holds_def)
  have settled: "file_holds d L p ckey Q' (Some st2, s2)" if "pf_state st2 = ?m" "file_ok p (\<lambda>x. x = file_contents p s2) s2"
    using made [OF that(1)] file_ok_settled [where R = "reads L ckey Q'", OF that(2) loaded [OF that(1)]] by simp
  show "out = fst (portal_step f (pf_state st)) \<and> (d \<or> fresh_write out \<longrightarrow> file_holds d L p ckey Q' (Some st2, s2))" if "\<not> failed out"
    using out that settled by blast
  assume keep: "\<And>m. Q m \<Longrightarrow> Q' m"
  have kept: "file_ok p (reads L ckey Q') s2" if "file_ok p (reads L ckey Q) s2" using file_ok_reads_mono [OF that keep] .
  have "file_holds d L p ckey Q' (Some st2, s2)" if "same_state (pf_state st2) (pf_state st)" "file_ok p (reads L ckey Q) s2"
    using out that(1) kept [OF that(2)] durable_factD [OF fact, of "pf_state st2" "pf_state st"] keep [OF m]
    by (simp add: file_holds_def same_state_def)
  moreover have "file_ok p (reads L ckey Q') s2"
    if "pf_state st2 = ?m" "file_ok p (\<lambda>x. reads L ckey Q x \<or> x = file_contents p s2) s2"
    using loaded [OF that(1)] reads_mono [of L ckey Q _ Q'] keep by (intro snap_ok_mono [OF that(2)]) blast
  ultimately show "file_holds d L p ckey Q' (Some st2, s2)" using out settled made kept by blast
qed

section \<open>Restarts\<close>

lemma read_snapshot_contents:
  assumes "read_snapshot p s = (r, s1)"
  shows "(\<exists>fl. s1 = s\<lparr>f_faults := fl\<rparr>) \<or> s1 = s" and "r = Inr found \<Longrightarrow> found = file_contents p s"
proof -
  obtain r0 s0 where rd: "fs_read_file (Path (p_dir p) (p_name p)) s = (r0, s0)" by fastforce
  note c = read_file_cases [OF rd]
  show "(\<exists>fl. s1 = s\<lparr>f_faults := fl\<rparr>) \<or> s1 = s" and "r = Inr found \<Longrightarrow> found = file_contents p s"
    using assms rd c
    by (cases r0; auto simp: read_snapshot_def io_catch_def io_bind_def io_return_def io_throw_def split: if_splits)+
qed

lemma spec_open_lock:
  "spec (\<lambda>s. file_ok p R s \<and> file_contents p s = c) (open_process_lock p)
     (\<lambda>_ s. file_ok p R s \<and> file_contents p s = c) (\<lambda>s. file_ok p R s \<and> file_contents p s = c)"
proof -
  have lit: "lit ''.lock'' \<noteq> []" by (simp add: lit_def)
  then have "p_name p @ lit ''.lock'' \<noteq> p_name p" by simp
  note o = spec_open_other [OF this, of "p_dir p" "snapshot_tmp p" R c]
  have "spec (\<lambda>s. file_ok p R s \<and> file_contents p s = c)
     (io_catch fs_check (\<lambda>e. io_throw (IoError (err_kind e) ''account store is already locked by another Portal process'')))
     (\<lambda>_ s. file_ok p R s \<and> file_contents p s = c) (\<lambda>s. file_ok p R s \<and> file_contents p s = c)"
    by (rule spec_catch [OF spec_check spec_throw]) auto
  from spec_bind [OF o this] show ?thesis unfolding open_process_lock_def sidecar_path_def by simp
qed

lemma rewrite_results_holds:
  assumes libs: "portal_libs_ok L" "snapshot_tmp p \<noteq> p_name p" "nonces_ok nonces"
    and st: "pf_path st = p" "pf_key st = ckey" "state_ok (pf_state st)" "\<not> pf_uncertain st"
      "b \<or> loads L ckey (pf_state st) (file_contents p s)" "d \<Longrightarrow> file_ok p (\<lambda>x. x = file_contents p s) s"
    and Q: "durable_fact Q" "Q (pf_state st)" and c: "file_ok p (reads L ckey Q) s" and r: "rewrite_results L nonces b st s = (r, s1)"
  shows "file_holds d L p ckey Q (case r of Inl _ \<Rightarrow> None | Inr st1 \<Rightarrow> Some st1, s1)"
proof (cases b)
  case True
  obtain v st2 s2 where v: "persist L nonces st s = (v, st2, s2)" by (rule prod_cases3)
  note pe = persist_effect [OF libs(1,3) st(3) _ libs(2) c v]
  show ?thesis
  proof (cases v)
    case (Inl x)
    then have "file_ok p (\<lambda>x. reads L ckey Q x \<or> loads L ckey (pf_state st) x) s2"
      using pe st(1,2) by (auto split: if_splits elim!: snap_ok_mono)
    then have "file_ok p (reads L ckey Q) s2"
      by (rule snap_ok_mono) (use loads_reads [OF _ Q] in auto)
    then show ?thesis using r True v Inl by (auto simp: rewrite_results_def file_holds_def)
  next
    case (Inr x)
    then show ?thesis
      using r True v pe st Q file_ok_settled [where R = "reads L ckey Q" and c = "file_contents p s2" and s = s2 and p = p] loads_reads [OF _ Q]
      by (auto simp: rewrite_results_def file_holds_def open_ok_def)
  qed
next
  case False
  then show ?thesis
    using r st Q c by (auto simp: rewrite_results_def file_holds_def open_ok_def)
qed

text \<open>
  Opening the store on a file system where a crash can bring back files that satisfy \<open>R\<close>: only the one in
  place, where the store is to be sound.
\<close>

lemma spec_open_store:
  assumes libs: "portal_libs_ok L" "snapshot_tmp p \<noteq> p_name p" "nonces_ok nonces"
    and Q: "durable_fact Q" "R c" "\<And>x. R x \<Longrightarrow> reads L ckey Q x" "\<And>x. d \<Longrightarrow> R x \<Longrightarrow> x = c"
  shows "spec (\<lambda>s. file_ok p R s \<and> file_contents p s = c) (open_with_result_key L nonces p ckey)
    (\<lambda>st s. file_holds d L p ckey Q (Some st, s)) (\<lambda>s. file_holds d L p ckey Q (None, s))"
proof -
  let ?I = "\<lambda>s. file_ok p R s \<and> file_contents p s = c" and ?E = "\<lambda>s. file_holds d L p ckey Q (None, s)"
  have ok: "file_ok p (reads L ckey Q) s" if "?I s" for s by (rule snap_ok_mono [OF conjunct1 [OF that] Q(3)])
  then have down: "?E s" if "?I s" for s using that by (simp add: file_holds_def)
  have "spec ?I (if p_dir p \<noteq> [] then fs_check else io_return ()) (\<lambda>_. ?I) ?I"
    by (auto intro: spec_check [of ?I] spec_return)
  then have parent: "spec ?I (if p_dir p \<noteq> [] then fs_check else io_return ()) (\<lambda>_. ?I) ?E" by (rule spec_weaken) (use down in auto)
  have lock: "spec ?I (open_process_lock p) (\<lambda>_. ?I) ?E" by (rule spec_weaken [OF spec_open_lock]) (use down in auto)
  have "?I s1 \<and> (\<forall>found. r = Inr found \<longrightarrow> found = c)" if "?I s" "read_snapshot p s = (r, s1)" for s r s1
    using read_snapshot_contents [OF that(2)] that(1) by auto
  then have rd: "spec ?I (read_snapshot p) (\<lambda>found s. ?I s \<and> found = c) ?E" using down by (intro specI) blast+
  have ld: "spec (\<lambda>s. ?I s \<and> found = c) (io_lift (load_contents L ckey found)) (\<lambda>x s. ?I s \<and> load_contents L ckey c = Inr x) ?E" for found
    by (rule spec_lift) (use down in auto)
  have rw: "spec (\<lambda>s. ?I s \<and> load_contents L ckey c = Inr (state, b))
      (rewrite_results L nonces b \<lparr>pf_path = p, pf_state = state, pf_key = ckey, pf_uncertain = False\<rparr>)
      (\<lambda>st s. file_holds d L p ckey Q (Some st, s)) ?E" for state b
  proof -
    have facts: "state_ok state" "b \<or> loads L ckey state c" "Q state" if "load_contents L ckey c = Inr (state, b)"
      using that Q(3) [OF Q(2)] by (auto simp: loads_def reads_def load_contents_def dest: load_snapshot_ok split: option.splits if_splits)
    have "file_holds d L p ckey Q (case r of Inl _ \<Rightarrow> None | Inr st1 \<Rightarrow> Some st1, s1)"
      if "?I s \<and> load_contents L ckey c = Inr (state, b)"
        "rewrite_results L nonces b \<lparr>pf_path = p, pf_state = state, pf_key = ckey, pf_uncertain = False\<rparr> s = (r, s1)" for s r s1
      by (rule rewrite_results_holds [OF libs _ _ _ _ _ _ Q(1) _ _ that(2)])
         (use facts that(1) ok [of s] Q(4) snap_ok_mono [of "p_dir p" "p_name p" "snapshot_tmp p" R s] in auto)
    then show ?thesis by (intro specI) fastforce+
  qed
  show ?thesis
    unfolding open_with_result_key_def
    by (rule spec_bind [OF parent], rule spec_bind [OF lock], rule spec_bind [OF rd], rule spec_bind [OF ld]) (use rw in \<open>auto split: prod.splits\<close>)
qed

lemma restart_holds:
  assumes libs: "portal_libs_ok L" "snapshot_tmp p \<noteq> p_name p" "nonces_ok nonces"
    and fit: "d \<Longrightarrow> settled_restart p (Restart nonces cc) (opened, s)"
    and h: "file_holds d L p ckey Q (opened, s)" and Q: "durable_fact Q"
  shows "file_holds d L p ckey Q (snd (portal_event_step L p ckey (Restart nonces cc) (opened, s)))"
proof -
  let ?s = "case cc of None \<Rightarrow> s | Some c \<Rightarrow> crash c s"
  let ?R = "if d then (\<lambda>x. x = file_contents p ?s) else reads L ckey Q"
  have h: "file_ok p (reads L ckey Q) s" using h by (simp add: file_holds_def)
  have "file_ok p ?R ?s \<and> reads L ckey Q (file_contents p ?s)"
  proof (cases cc)
    case None
    then show ?thesis using settled_contents [OF _ h] snap_ok_contents [OF h] fit h by simp
  next
    case (Some c)
    then show ?thesis using snap_ok_crash [OF h, of c] file_ok_settled [of p "file_contents p (crash c s)"] by simp
  qed
  note s = this
  obtain r s1 where r: "open_with_result_key L nonces p ckey ?s = (r, s1)" by fastforce
  note sp = spec_open_store [OF libs Q, of ?R "file_contents p ?s" ckey d]
  have "spec (\<lambda>s. file_ok p ?R s \<and> file_contents p s = file_contents p ?s) (open_with_result_key L nonces p ckey)
    (\<lambda>st s. file_holds d L p ckey Q (Some st, s)) (\<lambda>s. file_holds d L p ckey Q (None, s))"
    by (rule sp) (use s in \<open>auto split: if_splits\<close>)
  note sp = this
  show ?thesis using spec_Inl [OF sp, of ?s _ s1] spec_Inr [OF sp, of ?s _ s1] s r by (cases r) simp_all
qed

section \<open>The store is a backend\<close>

text \<open>
  Twice: with restarts at any time, when the answers that acknowledge something new are firm, and, sound,
  with settled restarts, when every answer is.
\<close>

definition event_fits :: "bool \<Rightarrow> portal_libs \<Rightarrow> path \<Rightarrow> portal_event \<Rightarrow> portal_world \<Rightarrow> bool" where
  "event_fits sound L p ev w \<longleftrightarrow> portal_libs_ok L \<and> snapshot_tmp p \<noteq> p_name p \<and> event_ok ev \<and> (sound \<longrightarrow> settled_restart p ev w)"

interpretation durable_portal: portal_backend "portal_event_step L p ckey" event_op "file_holds d L p ckey" "event_fits d L p"
    "\<lambda>out. d \<or> fresh_write out" for L p ckey d
proof
  fix ev w Q Q'
  assume fit: "event_fits d L p ev w" and h: "file_holds d L p ckey Q w"
    and fact: "durable_fact Q'" and keep: "\<And>m. Q m \<Longrightarrow> Q' m"
    and op: "\<And>m f. event_op ev = Some f \<Longrightarrow> Q m \<Longrightarrow> Q' (snd (portal_step f m))"
  obtain opened s where w: "w = (opened, s)" by (cases w)
  have h': "file_ok p (reads L ckey Q') s" using h file_ok_reads_mono [of p L ckey Q s Q'] keep by (simp add: file_holds_def w)
  show "file_holds d L p ckey Q' (snd (portal_event_step L p ckey ev w))"
  proof (cases ev)
    case (Restart nonces cc)
    have "file_holds d L p ckey Q' w" using h h' keep by (auto simp: file_holds_def w split: option.splits)
    then show ?thesis using restart_holds [of L p nonces d cc opened s ckey Q'] fit fact Restart w by (simp add: event_fits_def)
  next
    case (FileOp nonces f)
    show ?thesis
    proof (cases opened)
      case None
      then show ?thesis using FileOp w h' by (simp add: file_holds_def)
    next
      case (Some st)
      obtain out st2 s2 where step: "file_step L nonces f st s = (out, st2, s2)" by (rule prod_cases3)
      then show ?thesis
        using file_step_holds(1) [OF _ _ _ _ _ _ _ fact step, of p d ckey Q] fit h keep op [of f "pf_state st"] FileOp Some w
        by (simp add: file_holds_def event_fits_def)
    qed
  qed
next
  fix ev w Q
  assume fit: "event_fits d L p ev w" and h: "file_holds d L p ckey Q w"
    and answer: "\<not> failed (fst (portal_event_step L p ckey ev w))"
  obtain opened s where w: "w = (opened, s)" by (cases w)
  have unavailable: "failed Unavailable" by (simp add: failed_def)
  obtain nonces f st where ev: "ev = FileOp nonces f" "opened = Some st"
    using answer unavailable w by (cases ev; cases opened) auto
  obtain out st2 s2 where step: "file_step L nonces f st s = (out, st2, s2)" by (rule prod_cases3)
  note hs = file_step_holds(2) [OF _ _ _ _ _ _ _ _ step, of p d ckey Q]
  have "out = fst (portal_step f (pf_state st))"
    using hs [of "\<lambda>_. True"] fit h answer ev w step by (simp add: file_holds_def durable_fact_def event_fits_def)
  moreover have "file_holds d L p ckey Q' (Some st2, s2)"
    if "durable_fact Q'" "Q' (snd (portal_step f (pf_state st)))" "d \<or> fresh_write out" for Q'
    using hs [OF _ _ _ _ _ _ _ that(1,2)] that(3) fit h answer ev w step by (simp add: file_holds_def event_fits_def)
  ultimately show "\<exists>f m. event_op ev = Some f \<and> Q m \<and> fst (portal_event_step L p ckey ev w) = fst (portal_step f m) \<and>
      (d \<or> fresh_write (fst (portal_event_step L p ckey ev w)) \<longrightarrow>
       (\<forall>Q'. durable_fact Q' \<longrightarrow> Q' (snd (portal_step f m)) \<longrightarrow> file_holds d L p ckey Q' (snd (portal_event_step L p ckey ev w))))"
    using ev w step h by (auto simp: file_holds_def intro!: exI [of _ "pf_state st"])
qed simp

section \<open>Without failures\<close>

lemma quiet_syscall: "f_faults s = [] \<Longrightarrow> syscall ok part s = ok s"
  by (simp add: syscall_def)

lemma quiet_replace:
  assumes "f_faults s = []"
  shows "\<exists>s1. replace_file d t n bs s = (Inr (), s1) \<and> f_faults s1 = []"
proof -
  obtain f s1 where o: "fs_open \<lparr>oo_truncate = True, oo_create = True, oo_create_new = False\<rparr> (Path d t) s = (Inr f, s1)"
    "f_faults s1 = []" "f_names s1 d t = Some f"
    using assms by (cases "f_names s d t") (auto simp: fs_open_def quiet_syscall lookup_def create_file_def Let_def)
  then show ?thesis
    by (simp add: replace_file_def io_bind_def fs_write_all_def fs_flush_def io_return_def fs_sync_all_def fs_rename_def quiet_syscall)
qed

lemma quiet_sync: "f_faults s = [] \<Longrightarrow> \<exists>s1. fs_sync_dir d s = (Inr (), s1) \<and> f_faults s1 = []"
  by (simp add: fs_sync_dir_def fs_check_def io_bind_def io_return_def quiet_syscall)

lemma quiet_persist:
  assumes "f_faults s = []" and "make_snapshot (pl_aead L) (pf_key st) nonces (pf_state st) = Inr sn" and "pl_to_json L sn = Some bs"
  shows "\<exists>s1. persist L nonces st s = (Inr (), st\<lparr>pf_uncertain := False\<rparr>, s1) \<and> f_faults s1 = []"
proof -
  obtain s1 where s1: "replace_file (p_dir (pf_path st)) (snapshot_tmp (pf_path st)) (p_name (pf_path st)) bs s = (Inr (), s1)" "f_faults s1 = []"
    using quiet_replace [OF assms(1)] by blast
  obtain s2 where "fs_sync_dir (p_dir (pf_path st)) s1 = (Inr (), s2)" "f_faults s2 = []" using quiet_sync [OF s1(2)] by blast
  with s1 assms(2,3) show ?thesis
    by (simp add: persist_def write_snapshot_and_rename_def io_bind_def io_lift_def portal_sync_parent_def)
qed

lemma quiet_step:
  assumes "f_faults s = []" and "\<not> pf_uncertain st" and "state_ok (pf_state st)" and "op_sized f"
    and "make_snapshot (pl_aead L) (pf_key st) nonces (snd (portal_step f (pf_state st))) = Inr sn" and "pl_to_json L sn = Some bs"
  shows "\<exists>s1. file_step L nonces f st s = (fst (portal_step f (pf_state st)), st\<lparr>pf_state := snd (portal_step f (pf_state st))\<rparr>, s1) \<and> f_faults s1 = []"
proof -
  obtain out st2 s2 where step: "file_step L nonces f st s = (out, st2, s2)" by (rule prod_cases3)
  have e: "ensure_durable st s = (Inr (), st, s)" using assms(2) by (simp add: ensure_durable_def)
  have un: "st\<lparr>pf_uncertain := False\<rparr> = st" "st\<lparr>pf_state := m, pf_uncertain := False\<rparr> = st\<lparr>pf_state := m\<rparr>" for m using assms(2) by simp_all
  from quiet_persist [OF assms(1), of L "st\<lparr>pf_state := snd (portal_step f (pf_state st))\<rparr>" nonces sn bs] assms(5,6)
  obtain s3 where "persist L nonces (st\<lparr>pf_state := snd (portal_step f (pf_state st))\<rparr>) s =
      (Inr (), st\<lparr>pf_state := snd (portal_step f (pf_state st))\<rparr>, s3)" "f_faults s3 = []" by (auto simp: un)
  with file_step_effect [OF assms(3,4), of L nonces s] step e assms(1) show ?thesis by (auto simp: file_effect_def)
qed

lemma quiet_open:
  assumes "f_faults s = []" and "load_contents L ckey (file_contents p s) = Inr (t, False)" and "file_ok p R s"
  shows "\<exists>s1. open_with_result_key L nonces p ckey s = (Inr \<lparr>pf_path = p, pf_state = t, pf_key = ckey, pf_uncertain = False\<rparr>, s1) \<and> f_faults s1 = []"
proof -
  have check: "(if p_dir p \<noteq> [] then fs_check else io_return ()) s = (Inr (), s)"
    using assms(1) by (simp add: fs_check_def io_return_def quiet_syscall)
  obtain s1 where s1: "open_process_lock p s = (Inr (), s1)" "f_faults s1 = []"
    using assms(1)
    by (cases "f_names s (p_dir p) (p_name p @ lit ''.lock'')")
      (simp_all add: open_process_lock_def sidecar_path_def io_bind_def io_catch_def fs_open_def fs_check_def io_return_def quiet_syscall
        lookup_def create_file_def Let_def)
  have "file_contents p s1 = file_contents p s"
    using spec_Inr [OF spec_open_lock, of p R s "file_contents p s" "()" s1] s1(1) assms(3) by simp
  note s1 = s1 this
  have "read_snapshot p s1 = (Inr (file_contents p s), s1)"
    using s1 by (cases p) (auto simp: read_snapshot_def io_catch_def io_bind_def io_return_def fs_read_file_def quiet_syscall lookup_def contents_def split: option.splits)
  then show ?thesis
    using check s1 assms(2) by (simp add: open_with_result_key_def io_bind_def io_lift_def rewrite_results_def)
qed

section \<open>Histories of a Portal\<close>

text \<open>
  A history: the libraries do what is relied on, the snapshot has a temporary file of its own, the
  Portal starts with no store open on a file system in which its file, if there, is on disk, and the byte
  strings of every event have the sizes of their types. Failures, crashes and restarts come in any order.
  The stronger \<open>settled_restarts\<close> says that the process is never restarted on a running machine while a
  rename that an earlier process could not sync is pending in the directory.
\<close>

definition portal_history :: "portal_libs \<Rightarrow> path \<Rightarrow> fs \<Rightarrow> portal_event list \<Rightarrow> bool" where
  "portal_history L p s evs \<longleftrightarrow> portal_libs_ok L \<and> snapshot_tmp p \<noteq> p_name p \<and> file_ok p (\<lambda>_. True) s \<and> (\<forall>ev\<in>set evs. event_ok ev)"

definition settled_restarts :: "portal_libs \<Rightarrow> path \<Rightarrow> bytes \<Rightarrow> fs \<Rightarrow> portal_event list \<Rightarrow> bool" where
  "settled_restarts L p ckey s evs \<longleftrightarrow>
     (\<forall>n<length evs. settled_restart p (evs ! n) (snd (run (portal_event_step L p ckey) (take n evs) (None, s))))"

lemma history_fits:
  "portal_history L p s evs \<Longrightarrow> (d \<Longrightarrow> settled_restarts L p ckey s evs) \<Longrightarrow> durable_portal.fit_run L p ckey d evs (None, s)"
  unfolding portal_history_def settled_restarts_def durable_portal.fit_run_def event_fits_def by simp

lemma history_starts: "portal_history L p s evs \<Longrightarrow> file_holds d L p ckey quotas_distinct (None, s)"
proof -
  have "reads L ckey quotas_distinct c" for c
    by (auto simp: reads_def load_contents_def quotas_distinct_def empty_state_def state_ok_def map_ok_def
        dest!: load_snapshot_ok split: option.splits if_splits)
  then show "portal_history L p s evs \<Longrightarrow> file_holds d L p ckey quotas_distinct (None, s)"
    by (auto simp: portal_history_def file_holds_def elim!: snap_ok_mono)
qed

lemma history_begins: "portal_history L p s evs \<Longrightarrow> file_holds d L p ckey (\<lambda>_. True) (None, s)"
  by (auto simp: portal_history_def file_holds_def reads_def elim!: snap_ok_mono)

lemma history_reaches:
  assumes "portal_history L p s evs" and "d \<Longrightarrow> settled_restarts L p ckey s evs" and "n \<le> length evs"
  shows "file_holds d L p ckey (\<lambda>_. True) (snd (run (portal_event_step L p ckey) (take n evs) (None, s)))"
  using durable_portal.reaches [OF history_fits [OF assms(1,2)] history_begins [OF assms(1)] assms(3)] .

text \<open>
  C20: the file store refines the volatile one. In any history of operations, failures, crashes and
  restarts, an operation on the open store gives the answer and the next state of the volatile store,
  or fails; after a failure the accounts are the old ones, or the new ones with the flag set that
  keeps every later operation from answering before the directory is synced.
\<close>

theorem file_store_refines:
  assumes "portal_history L p s0 evs" and "n < length evs" and "evs ! n = FileOp nonces f"
    and "snd (run (portal_event_step L p ckey) (take n evs) (None, s0)) = (Some st, s)"
    and "portal_event_step L p ckey (evs ! n) (Some st, s) = (out, Some st2, s2)"
  shows "(out, pf_state st2) = portal_step f (pf_state st) \<or>
    failed out \<and> (same_state (pf_state st2) (pf_state st) \<or> pf_state st2 = snd (portal_step f (pf_state st)) \<and> pf_uncertain st2)"
proof -
  have "file_holds False L p ckey (\<lambda>_. True) (Some st, s)" using history_reaches [OF assms(1), of False ckey n] assms(2,4) by simp
  then have ok: "open_ok False L p ckey st s" "file_ok p (reads L ckey (\<lambda>_. True)) s" by (simp_all add: file_holds_def)
  have "portal_libs_ok L" "snapshot_tmp p \<noteq> p_name p" "nonces_ok nonces" "op_sized f"
    using assms(1-3) nth_mem [OF assms(2)] by (auto simp: portal_history_def dest!: bspec)
  moreover have "file_step L nonces f st s = (out, st2, s2)" using assms(3,5) by (auto split: prod.splits)
  ultimately show ?thesis using file_step_outcome [OF _ _ _ _ ok] by (auto simp: prod_eq_iff)
qed

lemma reopens:
  assumes "file_holds True L p ckey (\<lambda>_. True) (Some st, s)" and "\<not> pf_uncertain st" and "cc_faults cc = []"
  shows "\<exists>t s2. open_with_result_key L nonces p ckey (crash cc s) =
      (Inr \<lparr>pf_path = p, pf_state = t, pf_key = ckey, pf_uncertain = False\<rparr>, s2) \<and> agrees t (pf_state st)"
proof -
  have ok: "loads L ckey (pf_state st) (file_contents p s)" "file_ok p (\<lambda>x. x = file_contents p s) s"
    using assms(1,2) by (simp_all add: file_holds_def open_ok_def)
  obtain t where "load_contents L ckey (file_contents p (crash cc s)) = Inr (t, False)" "agrees t (pf_state st)"
    using snap_ok_crash(2) [OF ok(2), of cc] ok(1) by (auto simp: loads_def)
  moreover have "f_faults (crash cc s) = []" using assms(3) by (simp add: crash_def)
  ultimately show ?thesis using quiet_open [OF _ _ snap_ok_crash(1) [OF ok(2)]] by blast
qed


text \<open>
  C21: a payment is credited exactly once, durably. In any history of operations, failures, crashes
  and restarts of the file store, once an activation with a key has been acknowledged as new, every later
  answer to an activation with that key is a replay of that expiry: no key is credited twice. Where no
  process was restarted while a rename was pending, the same follows from any answer with an expiry.
\<close>

theorem file_activation_once:
  assumes "portal_history L p s evs" and "outs = fst (run (portal_event_step L p ckey) evs (None, s))"
    and "i < j" and "j < length evs"
    and "evs ! i = FileOp ns1 (OpActivate a1 k n1 b1)" and "outs ! i = Activated (Inr (Some x))"
    and "evs ! j = FileOp ns2 (OpActivate a2 k n2 b2)" and "outs ! j = Activated (Inr (Some y))"
    and "(\<exists>u. x = NewlyActivated u) \<or> settled_restarts L p ckey s evs"
  shows "y = ActivationReplay (activation_until x)"
proof -
  let ?d = "settled_restarts L p ckey s evs"
  have "?d \<or> fresh_write (Activated (Inr (Some x)))" using assms(9) by auto
  then show ?thesis
    using durable_portal.activation_once [OF history_fits [OF assms(1), of ?d ckey] history_begins [OF assms(1)] assms(3,4),
        where k = k and x = x and y = y] assms(2,5-8) by simp
qed

text \<open>
  C22: a checkout reference buys one signature, durably. In any history of operations, failures,
  crashes and restarts of the file store, once a signature has been acknowledged as stored for a
  reference, every signature handed out later for that reference is that signature for the same blinded
  request. Where no process was restarted while a rename was pending, the same follows from any signature
  that was handed out.
\<close>

theorem file_issuance_once:
  assumes "portal_history L p s evs" and "outs = fst (run (portal_event_step L p ckey) evs (None, s))"
    and "i < j" and "j < length evs"
    and "evs ! i = FileOp ns1 f1" and "issued f1 (outs ! i) = Some (k, h1, sig1)"
    and "evs ! j = FileOp ns2 f2" and "issued f2 (outs ! j) = Some (k, h2, sig2)"
    and "outs ! i = IssuanceDone (Inr IssuanceStored) \<or> settled_restarts L p ckey s evs"
  shows "h1 = h2 \<and> sig1 = sig2"
proof -
  let ?d = "settled_restarts L p ckey s evs"
  have "?d \<or> fresh_write (outs ! i)" using assms(9) by auto
  then show ?thesis
    using durable_portal.issued_once [OF history_fits [OF assms(1), of ?d ckey] history_begins [OF assms(1)] assms(3,4),
        where ?f1.0 = f1 and ?f2.0 = f2 and k = k] assms(2,5-8) by simp
qed

text \<open>
  C23: the mint quota is never exceeded, durably. In any history of operations, failures, crashes and
  restarts of the file store whose clock never goes back, the costs of the batches it answered as
  stored for a quota window are at most the window's maximum.
\<close>

theorem file_quota_bound:
  assumes "portal_history L p s (evs @ [FileOp ns (OpCommitMint rk m q now)])"
    and "sorted (clocks event_op (evs @ [FileOp ns (OpCommitMint rk m q now)]))"
    and "fst (portal_event_step L p ckey (FileOp ns (OpCommitMint rk m q now)) (snd (run (portal_event_step L p ckey) evs (None, s)))) =
      MintDone (Inr MintStored)"
  shows "charged event_op (mq_quota_key q, mq_window_start q, mq_window_end q) evs (fst (run (portal_event_step L p ckey) evs (None, s))) +
    unat (mq_cost q) \<le> unat (mq_max q)"
  using durable_portal.quota_bound [OF history_fits [OF assms(1), of False ckey] history_starts [OF assms(1)] assms(2)] assms(3) by simp

section \<open>A Portal at work\<close>

text \<open>Operations on a working disk, for states that the codec can write.\<close>

definition saves :: "portal_libs \<Rightarrow> bytes \<Rightarrow> nonces \<Rightarrow> portal_state \<Rightarrow> bool" where
  "saves L ckey nonces m \<longleftrightarrow> (\<exists>sn bs. make_snapshot (pl_aead L) ckey nonces m = Inr sn \<and> pl_to_json L sn = Some bs)"

lemma quiet_run:
  assumes "f_faults s = []" and "\<not> pf_uncertain st" and "state_ok (pf_state st)" and "list_all op_sized ops"
    and "\<And>k. k < length ops \<Longrightarrow> saves L (pf_key st) nonces (snd (run portal_step (take (Suc k) ops) (pf_state st)))"
  shows "\<exists>s1. run (portal_event_step L p ckey) (map (FileOp nonces) ops) (Some st, s) =
    (fst (run portal_step ops (pf_state st)), Some (st\<lparr>pf_state := snd (run portal_step ops (pf_state st))\<rparr>), s1) \<and> f_faults s1 = []"
  using assms
proof (induction ops arbitrary: st s)
  case (Cons f ops)
  let ?m = "snd (portal_step f (pf_state st))"
  obtain sn bs where "make_snapshot (pl_aead L) (pf_key st) nonces ?m = Inr sn" "pl_to_json L sn = Some bs"
    using Cons.prems(5) [of 0] by (auto simp: saves_def run_Cons simp del: run.simps(2))
  then obtain s1 where s1: "file_step L nonces f st s = (fst (portal_step f (pf_state st)), st\<lparr>pf_state := ?m\<rparr>, s1)" "f_faults s1 = []"
    using quiet_step [OF Cons.prems(1-3)] Cons.prems(4) by fastforce
  have "state_ok ?m" using portal_step_ok [OF Cons.prems(3)] Cons.prems(4) by simp
  then have "\<exists>s2. run (portal_event_step L p ckey) (map (FileOp nonces) ops) (Some (st\<lparr>pf_state := ?m\<rparr>), s1) =
    (fst (run portal_step ops ?m), Some ((st\<lparr>pf_state := ?m\<rparr>)\<lparr>pf_state := snd (run portal_step ops ?m)\<rparr>), s2) \<and> f_faults s2 = []"
    using Cons.IH [OF s1(2), of "st\<lparr>pf_state := ?m\<rparr>"] Cons.prems(2,4,5) by (force simp: run_Cons simp del: run.simps(2))
  then show ?case using s1(1) by (auto simp: run_Cons simp del: run.simps(2))
qed (use assms in simp)

definition demo_portal :: "snapshot_dto \<Rightarrow> snapshot_dto \<Rightarrow> portal_libs" where
  "demo_portal a b = \<lparr>pl_aead = demo_aead,
     pl_to_json = (\<lambda>sn. if sn = a then Some [1] else if sn = b then Some [2] else None),
     pl_from_json = (\<lambda>bs. if bs = [1] then Some (Snapshot a) else if bs = [2] then Some (Snapshot b) else None)\<rparr>"

definition demo_file :: path where "demo_file = Path [] [97]"

definition demo_key :: bytes where "demo_key = replicate 32 7"

definition demo_nonces :: nonces where "demo_nonces kind key = Some (replicate 12 0)"

definition demo_lost :: crash_choice where "demo_lost = \<lparr>cc_version = (\<lambda>_. 0), cc_tail = (\<lambda>_. [0]), cc_faults = []\<rparr>"

lemma demo_portal_ok: "portal_libs_ok (demo_portal a b)"
  by (auto simp: portal_libs_ok_def snapshot_json_ok_def demo_portal_def demo_aead_ok)

lemma demo_file_ok: "snapshot_tmp demo_file \<noteq> p_name demo_file" "file_ok demo_file (\<lambda>_. True) (empty_fs [])" "settled_dir demo_file (empty_fs [])"
  by (auto simp: snapshot_tmp_def demo_file_def with_extension_def file_stem_def lit_def snap_ok_def fs_wf_def tmp_apart_def
      settled_dir_def versions_def empty_fs_def empty_inode_def)

lemma demo_nonces_ok: "nonces_ok demo_nonces"
  by (simp add: nonces_ok_def demo_nonces_def RESULT_NONCE_LEN_def)

lemma demo_history:
  assumes "list_all op_sized ops" and "\<And>e. e \<in> set evs \<Longrightarrow> event_ok e"
  shows "portal_history (demo_portal a b) demo_file (empty_fs []) (Restart demo_nonces None # map (FileOp demo_nonces) ops @ evs)"
  using assms demo_portal_ok demo_file_ok demo_nonces_ok by (auto simp: portal_history_def list_all_iff)

lemma demo_run:
  assumes "list_all op_sized ops"
    and "\<And>k. k < length ops \<Longrightarrow> saves (demo_portal a b) demo_key demo_nonces (snd (run portal_step (take (Suc k) ops) empty_state))"
  obtains s where "run (portal_event_step (demo_portal a b) demo_file demo_key) (Restart demo_nonces None # map (FileOp demo_nonces) ops) (None, empty_fs []) =
      (Unavailable # fst (run portal_step ops empty_state),
       Some \<lparr>pf_path = demo_file, pf_state = snd (run portal_step ops empty_state), pf_key = demo_key, pf_uncertain = False\<rparr>, s)"
    and "f_faults s = []"
proof -
  let ?st = "\<lparr>pf_path = demo_file, pf_state = empty_state, pf_key = demo_key, pf_uncertain = False\<rparr>"
  have "load_contents (demo_portal a b) demo_key (file_contents demo_file (empty_fs [])) = Inr (empty_state, False)"
    by (simp add: load_contents_def contents_def empty_fs_def)
  then obtain s where s: "open_with_result_key (demo_portal a b) demo_nonces demo_file demo_key (empty_fs []) = (Inr ?st, s)" "f_faults s = []"
    using quiet_open [OF _ _ demo_file_ok(2)] by (fastforce simp: empty_fs_def)
  from quiet_run [OF s(2), of ?st ops "demo_portal a b" demo_nonces demo_file demo_key] assms
  obtain s1 where "run (portal_event_step (demo_portal a b) demo_file demo_key) (map (FileOp demo_nonces) ops) (Some ?st, s) =
    (fst (run portal_step ops empty_state), Some (?st\<lparr>pf_state := snd (run portal_step ops empty_state)\<rparr>), s1)" "f_faults s1 = []" by auto
  then show ?thesis using that [of s1] s(1) by (simp add: run_Cons del: run.simps(2))
qed

definition demo_account :: account_record where
  "demo_account = \<lparr>ar_account_number = replicate 32 1, ar_entitlement = EntNone, ar_auth_pubkey = replicate 32 2\<rparr>"

definition demo_signup :: "portal_op list" where
  "demo_signup = [OpInsert demo_account, OpActivate (replicate 32 1) (replicate 32 9) 100 50]"

definition demo_accounts :: "entitlement \<Rightarrow> (bytes \<times> u64) list \<Rightarrow> portal_state" where
  "demo_accounts ent acts = empty_state\<lparr>ps_accounts := [(replicate 32 1, demo_account\<lparr>ar_entitlement := ent\<rparr>)], ps_activation_results := acts\<rparr>"

definition demo_signup_libs :: portal_libs where
  "demo_signup_libs = demo_portal
     (projr (make_snapshot demo_aead demo_key demo_nonces (demo_accounts EntNone [])))
     (projr (make_snapshot demo_aead demo_key demo_nonces (demo_accounts (EntActive 150) [(replicate 32 9, 150)])))"

lemma demo_signup_run:
  "run portal_step demo_signup empty_state =
     ([Inserted (Inr ()), Activated (Inr (Some (NewlyActivated 150)))], demo_accounts (EntActive 150) [(replicate 32 9, 150)])"
  "run portal_step [OpInsert demo_account] empty_state = ([Inserted (Inr ())], demo_accounts EntNone [])"
  by (simp_all add: demo_signup_def demo_accounts_def demo_account_def empty_state_def store_insert_def activate_subscription_def
      active_until_def resolved_def saturating_add_def)

lemma demo_signup_saves:
  "saves demo_signup_libs demo_key demo_nonces (demo_accounts EntNone [])"
  "saves demo_signup_libs demo_key demo_nonces (demo_accounts (EntActive 150) [(replicate 32 9, 150)])"
  by (simp_all add: saves_def demo_signup_libs_def demo_portal_def make_snapshot_def demo_accounts_def empty_state_def)

lemma demo_signup_sized: "list_all op_sized demo_signup"
  by (simp add: demo_signup_def demo_account_def)

lemma demo_signup_world:
  obtains s where "run (portal_event_step demo_signup_libs demo_file demo_key) (Restart demo_nonces None # map (FileOp demo_nonces) demo_signup) (None, empty_fs []) =
      ([Unavailable, Inserted (Inr ()), Activated (Inr (Some (NewlyActivated 150)))],
       Some \<lparr>pf_path = demo_file, pf_state = demo_accounts (EntActive 150) [(replicate 32 9, 150)], pf_key = demo_key, pf_uncertain = False\<rparr>, s)"
    and "f_faults s = []"
proof -
  have "saves demo_signup_libs demo_key demo_nonces (snd (run portal_step (take (Suc k) demo_signup) empty_state))" if "k < length demo_signup" for k
  proof (cases k)
    case 0
    have "take (Suc 0) demo_signup = [OpInsert demo_account]" by (simp add: demo_signup_def)
    with 0 show ?thesis using demo_signup_run(2) demo_signup_saves(1) by simp
  next
    case (Suc j)
    then have "take (Suc k) demo_signup = demo_signup" using that by (simp add: demo_signup_def)
    then show ?thesis using demo_signup_run(1) demo_signup_saves(2) by simp
  qed
  note saved = this [unfolded demo_signup_libs_def]
  obtain s where "run (portal_event_step demo_signup_libs demo_file demo_key) (Restart demo_nonces None # map (FileOp demo_nonces) demo_signup) (None, empty_fs []) =
      (Unavailable # fst (run portal_step demo_signup empty_state),
       Some \<lparr>pf_path = demo_file, pf_state = snd (run portal_step demo_signup empty_state), pf_key = demo_key, pf_uncertain = False\<rparr>, s)"
    "f_faults s = []" unfolding demo_signup_libs_def by (rule demo_run [OF demo_signup_sized saved])
  then show ?thesis by (intro that [of s]) (simp_all only: demo_signup_run fst_conv snd_conv)
qed

theorem file_store_refines_witness:
  "\<exists>s st2 s2. portal_event_step demo_signup_libs demo_file demo_key (FileOp demo_nonces (OpGet (replicate 32 1)))
       (Some \<lparr>pf_path = demo_file, pf_state = demo_accounts (EntActive 150) [(replicate 32 9, 150)], pf_key = demo_key, pf_uncertain = False\<rparr>, s) =
     (Got (Inr (Some (demo_account\<lparr>ar_entitlement := EntActive 150\<rparr>))), Some st2, s2) \<and>
     pf_state st2 = demo_accounts (EntActive 150) [(replicate 32 9, 150)]"
proof -
  let ?st = "\<lparr>pf_path = demo_file, pf_state = demo_accounts (EntActive 150) [(replicate 32 9, 150)], pf_key = demo_key, pf_uncertain = False\<rparr>"
    and ?f = "OpGet (replicate 32 1)"
  let ?evs = "Restart demo_nonces None # map (FileOp demo_nonces) demo_signup @ [FileOp demo_nonces ?f]"
  obtain s where s: "run (portal_event_step demo_signup_libs demo_file demo_key) (Restart demo_nonces None # map (FileOp demo_nonces) demo_signup) (None, empty_fs []) =
      ([Unavailable, Inserted (Inr ()), Activated (Inr (Some (NewlyActivated 150)))], Some ?st, s)" by (rule demo_signup_world)
  have h: "portal_history demo_signup_libs demo_file (empty_fs []) ?evs"
    unfolding demo_signup_libs_def by (rule demo_history [OF demo_signup_sized]) (simp add: demo_nonces_ok)
  obtain out st2 s2 where "file_step demo_signup_libs demo_nonces ?f ?st s = (out, st2, s2)" by (rule prod_cases3)
  then have step: "portal_event_step demo_signup_libs demo_file demo_key (FileOp demo_nonces ?f) (Some ?st, s) = (out, Some st2, s2)" by simp
  have n: "?evs ! 3 = FileOp demo_nonces ?f" "take 3 ?evs = Restart demo_nonces None # map (FileOp demo_nonces) demo_signup"
    by (simp_all add: demo_signup_def eval_nat_numeral)
  have out: "out = Got (Inr (Some (demo_account\<lparr>ar_entitlement := EntActive 150\<rparr>)))"
    using step by (auto simp: answer_def file_get_def when_durable_def ensure_durable_def demo_accounts_def empty_state_def)
  from file_store_refines [OF h _ n(1), of demo_key ?st s out st2 s2] s n step
  have "(out, pf_state st2) = portal_step ?f (pf_state ?st) \<or> failed out" by (auto simp: demo_signup_def)
  then show ?thesis using step out by (auto simp: failed_def)
qed


theorem file_activation_once_witness:
  "\<exists>s y. fst (run (portal_event_step demo_signup_libs demo_file demo_key)
       (Restart demo_nonces None # map (FileOp demo_nonces) demo_signup @
        [Restart demo_nonces (Some demo_lost), FileOp demo_nonces (OpActivate (replicate 32 1) (replicate 32 9) 200 70)]) (None, s)) ! 4 =
     Activated (Inr (Some y)) \<and> y = ActivationReplay 150"
proof -
  let ?step = "portal_event_step demo_signup_libs demo_file demo_key" and ?again = "OpActivate (replicate 32 1) (replicate 32 9) 200 70"
  let ?st = "\<lparr>pf_path = demo_file, pf_state = demo_accounts (EntActive 150) [(replicate 32 9, 150)], pf_key = demo_key, pf_uncertain = False\<rparr>"
  let ?pre = "Restart demo_nonces None # map (FileOp demo_nonces) demo_signup"
  let ?evs = "?pre @ [Restart demo_nonces (Some demo_lost), FileOp demo_nonces ?again]"
  obtain s where s: "run ?step ?pre (None, empty_fs []) =
      ([Unavailable, Inserted (Inr ()), Activated (Inr (Some (NewlyActivated 150)))], Some ?st, s)" by (rule demo_signup_world)
  have h: "portal_history demo_signup_libs demo_file (empty_fs []) ?evs"
    unfolding demo_signup_libs_def append_Cons by (rule demo_history [OF demo_signup_sized]) (auto simp: demo_nonces_ok)
  have "settled_restarts demo_signup_libs demo_file demo_key (empty_fs []) ?evs"
    using demo_file_ok(3) by (auto simp: settled_restarts_def nth_Cons' nth_append)
  then have "file_holds True demo_signup_libs demo_file demo_key (\<lambda>_. True) (Some ?st, s)"
    using history_reaches [OF h, of True demo_key "length ?pre"] s by simp
  from reopens [OF this, of demo_lost demo_nonces] obtain t s2 where t: "agrees t (pf_state ?st)"
    "open_with_result_key demo_signup_libs demo_nonces demo_file demo_key (crash demo_lost s) =
      (Inr \<lparr>pf_path = demo_file, pf_state = t, pf_key = demo_key, pf_uncertain = False\<rparr>, s2)" by (auto simp: demo_lost_def)
  have "map_of (ps_accounts t) (replicate 32 1) \<noteq> None" "map_of (ps_activation_results t) (replicate 32 9) = Some 150"
    using t(1) by (auto simp: agrees_def demo_accounts_def empty_state_def)
  then have outs: "fst (run ?step ?evs (None, empty_fs [])) =
      [Unavailable, Inserted (Inr ()), Activated (Inr (Some (NewlyActivated 150))), Unavailable, Activated (Inr (Some (ActivationReplay 150)))]"
    using t(2) unfolding run_append s by (auto simp: answer_def file_activate_def when_durable_def ensure_durable_def Let_def split: option.splits)
  from file_activation_once [OF h refl, where i = 2 and j = 4 and k = "replicate 32 9" and x = "NewlyActivated 150" and ckey = demo_key
      and y = "ActivationReplay 150"] outs
  show ?thesis by (intro exI [of _ "empty_fs []"] exI [of _ "ActivationReplay 150"]) (simp add: demo_signup_def eval_nat_numeral)
qed

definition demo_claim :: issuance_result where
  "demo_claim = \<lparr>ir_request_hash = replicate 32 3, ir_blind_sig = replicate 256 5, ir_replay_until = 100\<rparr>"

definition demo_checkout :: "portal_op list" where
  "demo_checkout = [OpCommitIssuance (replicate 32 4) demo_claim 10, OpLookupIssuance (replicate 32 4) (replicate 32 3) 20]"

definition demo_claims :: portal_state where
  "demo_claims = empty_state\<lparr>ps_issuance_results := [(replicate 32 4, demo_claim)]\<rparr>"

definition demo_checkout_libs :: portal_libs where
  "demo_checkout_libs = (let sn = projr (make_snapshot demo_aead demo_key demo_nonces demo_claims) in demo_portal sn sn)"

lemma demo_checkout_run:
  "run portal_step demo_checkout empty_state = ([IssuanceDone (Inr IssuanceStored), IssuanceFound (Inr (IssuanceReplay (replicate 256 5)))], demo_claims)"
  "run portal_step [OpCommitIssuance (replicate 32 4) demo_claim 10] empty_state = ([IssuanceDone (Inr IssuanceStored)], demo_claims)"
  by (simp_all add: demo_checkout_def demo_claims_def demo_claim_def empty_state_def commit_issuance_def lookup_issuance_def replayable_def)

lemma demo_checkout_saves: "saves demo_checkout_libs demo_key demo_nonces demo_claims"
proof -
  have "\<exists>ct. result_seal demo_aead demo_key OneShot (replicate 32 4) (replicate 32 3) 100 (replicate 256 5) (demo_nonces OneShot (replicate 32 4)) = Inr ct"
    by (simp add: result_seal_def demo_key_def demo_nonces_def demo_aead_def MAX_RESULT_PLAINTEXT_BYTES_def MAX_MINT_BATCH_SIZE_def
        RAW_SIGNATURE_BYTES_def BLIND_TOKEN_HEX_LEN_def)
  then show ?thesis
    by (auto simp: saves_def demo_checkout_libs_def Let_def demo_portal_def make_snapshot_def demo_claims_def demo_claim_def empty_state_def save_issuance_def)
qed

lemma demo_checkout_sized: "list_all op_sized demo_checkout"
  by (simp add: demo_checkout_def demo_claim_def)

theorem file_issuance_once_witness:
  "fst (run (portal_event_step demo_checkout_libs demo_file demo_key) (Restart demo_nonces None # map (FileOp demo_nonces) demo_checkout) (None, empty_fs [])) ! 2 =
     IssuanceFound (Inr (IssuanceReplay (ir_blind_sig demo_claim)))"
proof -
  let ?evs = "Restart demo_nonces None # map (FileOp demo_nonces) demo_checkout"
  have "saves demo_checkout_libs demo_key demo_nonces (snd (run portal_step (take (Suc k) demo_checkout) empty_state))" if "k < length demo_checkout" for k
  proof -
    have "take (Suc k) demo_checkout = [OpCommitIssuance (replicate 32 4) demo_claim 10] \<or> take (Suc k) demo_checkout = demo_checkout"
      using that by (cases k) (auto simp: demo_checkout_def)
    then show ?thesis using demo_checkout_run demo_checkout_saves by auto
  qed
  note saved = this [unfolded demo_checkout_libs_def Let_def]
  obtain s where "run (portal_event_step demo_checkout_libs demo_file demo_key) ?evs (None, empty_fs []) =
      (Unavailable # fst (run portal_step demo_checkout empty_state),
       Some \<lparr>pf_path = demo_file, pf_state = snd (run portal_step demo_checkout empty_state), pf_key = demo_key, pf_uncertain = False\<rparr>, s)"
    unfolding demo_checkout_libs_def Let_def by (rule demo_run [OF demo_checkout_sized saved])
  then have outs: "fst (run (portal_event_step demo_checkout_libs demo_file demo_key) ?evs (None, empty_fs [])) =
      [Unavailable, IssuanceDone (Inr IssuanceStored), IssuanceFound (Inr (IssuanceReplay (replicate 256 5)))]"
    by (simp only: demo_checkout_run fst_conv)
  have h: "portal_history demo_checkout_libs demo_file (empty_fs []) ?evs"
    using demo_history [OF demo_checkout_sized, of "[]"] by (simp add: demo_checkout_libs_def Let_def)
  from file_issuance_once [OF h refl, where i = 1 and j = 2 and ckey = demo_key and ?f1.0 = "OpCommitIssuance (replicate 32 4) demo_claim 10"
      and k = "replicate 32 4" and ?h1.0 = "replicate 32 3" and ?sig1.0 = "ir_blind_sig demo_claim" and ?h2.0 = "replicate 32 3"
      and ?sig2.0 = "replicate 256 5" and ?f2.0 = "OpLookupIssuance (replicate 32 4) (replicate 32 3) 20"]
  show ?thesis unfolding outs by (simp add: demo_checkout_def demo_claim_def)
qed

definition demo_batch :: mint_result where
  "demo_batch = \<lparr>mr_request_hash = replicate 32 3, mr_blind_sigs = [], mr_expires_at = 500\<rparr>"

definition demo_quota :: "u32 \<Rightarrow> mint_quota" where
  "demo_quota c = \<lparr>mq_quota_key = replicate 32 7, mq_window_start = 0, mq_window_end = 1000, mq_cost = c, mq_max = 10\<rparr>"

definition demo_mints :: "(bytes \<times> mint_result) list \<Rightarrow> u32 \<Rightarrow> portal_state" where
  "demo_mints batches used = empty_state\<lparr>ps_mint_results := batches, ps_mint_quotas := [((replicate 32 7, 0), (1000, used, 10))]\<rparr>"

definition demo_mint_libs :: portal_libs where
  "demo_mint_libs = demo_portal
     (projr (make_snapshot demo_aead demo_key demo_nonces (demo_mints [(replicate 32 4, demo_batch)] 6)))
     (projr (make_snapshot demo_aead demo_key demo_nonces (demo_mints [(replicate 32 4, demo_batch), (replicate 32 5, demo_batch)] 10)))"

definition demo_first :: portal_op where "demo_first = OpCommitMint (replicate 32 4) demo_batch (demo_quota 6) 100"

definition demo_second :: portal_op where "demo_second = OpCommitMint (replicate 32 5) demo_batch (demo_quota 4) 200"

lemma demo_mint_run:
  "run portal_step [demo_first] empty_state = ([MintDone (Inr MintStored)], demo_mints [(replicate 32 4, demo_batch)] 6)"
  "portal_step demo_second (demo_mints [(replicate 32 4, demo_batch)] 6) =
     (MintDone (Inr MintStored), demo_mints [(replicate 32 4, demo_batch), (replicate 32 5, demo_batch)] 10)"
  by (simp_all add: demo_first_def demo_second_def demo_mints_def demo_batch_def demo_quota_def empty_state_def commit_mint_def
      drop_expired_mint_def charge_quota_def is_well_formed_def checked_add_def)

theorem file_quota_bound_witness:
  "charged event_op (replicate 32 7, 0, 1000) [Restart demo_nonces None, FileOp demo_nonces demo_first]
     (fst (run (portal_event_step demo_mint_libs demo_file demo_key) [Restart demo_nonces None, FileOp demo_nonces demo_first] (None, empty_fs []))) = 6 \<and>
   6 + unat (mq_cost (demo_quota 4)) \<le> unat (mq_max (demo_quota 4))"
proof -
  let ?pre = "[Restart demo_nonces None, FileOp demo_nonces demo_first]"
  have sized: "list_all op_sized [demo_first]" "list_all op_sized [demo_first, demo_second]"
    by (simp_all add: demo_first_def demo_second_def demo_batch_def demo_quota_def)
  have saves: "saves demo_mint_libs demo_key demo_nonces (demo_mints [(replicate 32 4, demo_batch)] 6)"
    "saves demo_mint_libs demo_key demo_nonces (demo_mints [(replicate 32 4, demo_batch), (replicate 32 5, demo_batch)] 10)"
    by (simp_all add: saves_def demo_mint_libs_def demo_portal_def make_snapshot_def demo_mints_def empty_state_def save_mint_def demo_batch_def)
  have "saves demo_mint_libs demo_key demo_nonces (snd (run portal_step (take (Suc k) [demo_first]) empty_state))" if "k < length [demo_first]" for k
    using that demo_mint_run(1) saves(1) by simp
  note saved = this [unfolded demo_mint_libs_def]
  obtain s where s: "run (portal_event_step demo_mint_libs demo_file demo_key) (Restart demo_nonces None # map (FileOp demo_nonces) [demo_first]) (None, empty_fs []) =
      (Unavailable # fst (run portal_step [demo_first] empty_state),
       Some \<lparr>pf_path = demo_file, pf_state = snd (run portal_step [demo_first] empty_state), pf_key = demo_key, pf_uncertain = False\<rparr>, s)" "f_faults s = []"
    unfolding demo_mint_libs_def by (rule demo_run [OF sized(1) saved])
  let ?st = "\<lparr>pf_path = demo_file, pf_state = demo_mints [(replicate 32 4, demo_batch)] 6, pf_key = demo_key, pf_uncertain = False\<rparr>"
  have r: "run (portal_event_step demo_mint_libs demo_file demo_key) ?pre (None, empty_fs []) = ([Unavailable, MintDone (Inr MintStored)], Some ?st, s)"
    using s(1) unfolding demo_mint_run by (simp only: list.map fst_conv snd_conv)
  have h: "portal_history demo_mint_libs demo_file (empty_fs []) (?pre @ [FileOp demo_nonces demo_second])"
    using demo_history [OF sized(2), of "[]"] by (simp add: demo_mint_libs_def)
  have "state_ok (pf_state ?st)" using portal_step_ok [of empty_state demo_first] sized(1) demo_mint_run(1) by (simp add: case_prod_unfold Let_def)
  note ok = this
  obtain sn bs where "make_snapshot (pl_aead demo_mint_libs) demo_key demo_nonces
      (demo_mints [(replicate 32 4, demo_batch), (replicate 32 5, demo_batch)] 10) = Inr sn" "pl_to_json demo_mint_libs sn = Some bs"
    using saves(2) by (auto simp: saves_def)
  then have "\<exists>s1. file_step demo_mint_libs demo_nonces demo_second ?st s =
      (fst (portal_step demo_second (pf_state ?st)), ?st\<lparr>pf_state := snd (portal_step demo_second (pf_state ?st))\<rparr>, s1) \<and> f_faults s1 = []"
    using sized(2) demo_mint_run(2) by (intro quiet_step [OF s(2) _ ok]) simp_all
  then have "fst (portal_event_step demo_mint_libs demo_file demo_key (FileOp demo_nonces demo_second) (Some ?st, s)) = MintDone (Inr MintStored)"
    using demo_mint_run(2) by auto
  moreover have "sorted (clocks event_op (?pre @ [FileOp demo_nonces demo_second]))"
    by (simp add: clocks_def map_filter_def demo_first_def demo_second_def)
  moreover have "charged event_op (replicate 32 7, 0, 1000) ?pre [Unavailable, MintDone (Inr MintStored)] = 6"
    by (simp add: charged_def demo_first_def demo_quota_def)
  ultimately show ?thesis
    using file_quota_bound [where ckey = demo_key, of demo_mint_libs demo_file "empty_fs []" ?pre demo_nonces "replicate 32 5" demo_batch "demo_quota 4" 200] h r
    unfolding demo_second_def by (simp add: demo_quota_def del: run.simps)
qed

end
