(* ===== verification/Attest.thy ===== *)
theory Attest
  imports Pathsel Translog
begin

text \<open>
  Remote attestation (nil-attest): the framing of the evidence, the verification of SEV-SNP reports
  and TDX quotes, and \<open>appraise\<close>, the gate a tunnel comes up behind. The hash functions, the vendor
  verifiers (\<open>sev\<close> and \<open>dcap-qvl\<close>), the certificate parser and the signature of the synthetic test
  reports are third-party code: fields of a record. \<open>synthetic\<close> says whether the build has the test
  feature and \<open>checks\<close> whether it has overflow checks. The last section is the node's side, which
  builds the evidence.
\<close>

section \<open>Data\<close>

datatype attest_error =
    CertError bytes | Malformed bytes | UnsupportedTee byte | TeeMismatch tee tee | ChainVerification bytes
  | MeasurementMismatch | TlsSpkiMismatch | ReportDataMismatch | TcbNotUpToDate bytes | PolicyViolation bytes
  | TransparencyNotLogged bytes

datatype tcb_status = UpToDate | OutOfDate bytes

record appraisal_policy =
  ap_tee :: tee
  ap_expected_measurement :: bytes
  ap_tls_spki_sha256 :: "bytes option"
  ap_allow_tcb_out_of_date :: bool
  ap_min_tcb_sevsnp :: "tcb_floor option"
  ap_tdx_policy :: "tdx_policy option"
  ap_transparency_log_key :: "bytes option"

definition policy_new :: "tee \<Rightarrow> bytes \<Rightarrow> appraisal_policy" where
  "policy_new t m =
     \<lparr>ap_tee = t, ap_expected_measurement = m, ap_tls_spki_sha256 = None, ap_allow_tcb_out_of_date = False,
      ap_min_tcb_sevsnp = None, ap_tdx_policy = None, ap_transparency_log_key = None\<rparr>"

record verdict =
  vd_tee :: tee
  vd_measurement :: bytes
  vd_tcb_status :: tcb_status

record evidence =
  ev_tee :: tee
  ev_measurement :: bytes
  ev_report_data :: bytes
  ev_tcb_status :: tcb_status

text \<open>What the vendor libraries decode: the fields the code reads.\<close>

record tcb_version =
  tv_fmc :: "byte option"
  tv_bootloader :: byte
  tv_tee :: byte
  tv_snp :: byte
  tv_microcode :: byte

record snp_report =
  sr_debug_allowed :: bool
  sr_migrate_ma_allowed :: bool
  sr_current_tcb :: tcb_version
  sr_committed_tcb :: tcb_version
  sr_measurement :: bytes
  sr_report_data :: bytes

record td_report =
  td_td_attributes :: bytes
  td_xfam :: bytes
  td_mr_td :: bytes
  td_mr_config_id :: bytes
  td_mr_owner :: bytes
  td_mr_owner_config :: bytes
  td_rt_mr0 :: bytes
  td_rt_mr1 :: bytes
  td_rt_mr2 :: bytes
  td_rt_mr3 :: bytes
  td_report_data :: bytes

datatype quote_report = SgxEnclave | TD10 td_report | TD15 td_report bytes

record verified_report =
  vr_status :: bytes
  vr_advisory_ids :: "bytes list"
  vr_report :: quote_report

datatype generation = Milan | Genoa | Turin

record ('c, 'k) attest_lib =
  at_sha256 :: "bytes \<Rightarrow> bytes"
  at_sha384 :: "bytes \<Rightarrow> bytes"
  at_sha512 :: "bytes \<Rightarrow> bytes"
  at_snp_from_bytes :: "bytes \<Rightarrow> bytes + snp_report"
  at_cert_from_der :: "bytes \<Rightarrow> bytes + 'c"
  at_ark :: "generation \<Rightarrow> 'c option"
  at_ask :: "generation \<Rightarrow> 'c option"
  at_snp_verify :: "'c \<Rightarrow> 'c \<Rightarrow> 'c \<Rightarrow> snp_report \<Rightarrow> bytes + unit"
  at_tcb_less :: "tcb_version \<Rightarrow> tcb_version \<Rightarrow> bool"
  at_collateral :: "bytes \<Rightarrow> bytes + 'k"
  at_dcap_verify :: "bool \<Rightarrow> bytes \<Rightarrow> 'k \<Rightarrow> u64 \<Rightarrow> bytes + verified_report"
  at_log :: log_lib
  at_ed_public :: "bytes \<Rightarrow> bytes"
  at_ed_sign :: "bytes \<Rightarrow> bytes \<Rightarrow> bytes"
  at_ed_signature_ok :: "bytes \<Rightarrow> bool"
  at_ed_verify :: "bytes \<Rightarrow> bytes \<Rightarrow> bytes \<Rightarrow> bool"

section \<open>Framing\<close>

definition TAG_SEVSNP :: byte where "TAG_SEVSNP = 1"
definition TAG_TDX :: byte where "TAG_TDX = 2"
definition TAG_SYNTHETIC :: byte where "TAG_SYNTHETIC = 255"

text \<open>\<open>p.len() as u32\<close> keeps the low 32 bits of a length.\<close>

definition encode_part :: "bytes \<Rightarrow> bytes" where
  "encode_part p = to_be 4 (word_of_nat (length p) :: u32) @ p"

definition evidence_encode :: "byte \<Rightarrow> bytes list \<Rightarrow> bytes" where
  "evidence_encode tag parts = tag # concat (map encode_part parts)"

definition encode_sevsnp :: "bytes \<Rightarrow> bytes \<Rightarrow> bytes" where
  "encode_sevsnp report vcek_der = evidence_encode TAG_SEVSNP [report, vcek_der]"

definition encode_tdx :: "bytes \<Rightarrow> bytes \<Rightarrow> bytes" where
  "encode_tdx quote collateral_json = evidence_encode TAG_TDX [quote, collateral_json]"

function decode_parts :: "bytes \<Rightarrow> attest_error + bytes list" where
  "decode_parts rest =
     (if rest = [] then Inr []
      else if length rest < 4 then Inl (Malformed (lit ''truncated length prefix''))
      else
        let len = unat (of_be (take 4 rest) :: u32); rest1 = drop 4 rest in
        if length rest1 < len then Inl (Malformed (lit ''truncated evidence part''))
        else bindE (decode_parts (drop len rest1)) (\<lambda>parts. Inr (take len rest1 # parts)))"
  by pat_completeness auto
termination by (relation "measure length") auto

declare decode_parts.simps [simp del]

definition bind_report_data :: "('c, 'k) attest_lib \<Rightarrow> bytes \<Rightarrow> bytes \<Rightarrow> bytes" where
  "bind_report_data A spki nonce = at_sha512 A (at_sha256 A spki @ nonce)"

section \<open>SEV-SNP reports\<close>

definition is_met_by :: "tcb_floor \<Rightarrow> byte option \<Rightarrow> byte \<Rightarrow> byte \<Rightarrow> byte \<Rightarrow> byte \<Rightarrow> bool" where
  "is_met_by f fmc bootloader t snp microcode \<longleftrightarrow>
     bootloader \<ge> tf_bootloader f \<and> t \<ge> tf_tee f \<and> snp \<ge> tf_snp f \<and> microcode \<ge> tf_microcode f \<and>
     (case tf_fmc f of Some required \<Rightarrow> (case fmc of None \<Rightarrow> 0 | Some v \<Rightarrow> v) \<ge> required | None \<Rightarrow> True)"

definition snp_tcb_status :: "('c, 'k) attest_lib \<Rightarrow> tcb_floor option \<Rightarrow> snp_report \<Rightarrow> tcb_status" where
  "snp_tcb_status A min_tcb r =
     (let tcb = sr_current_tcb r in
      if at_tcb_less A tcb (sr_committed_tcb r) then OutOfDate (lit ''SEV-SNP current_tcb below committed_tcb'')
      else if (case min_tcb of None \<Rightarrow> False
               | Some f \<Rightarrow> \<not> is_met_by f (tv_fmc tcb) (tv_bootloader tcb) (tv_tee tcb) (tv_snp tcb) (tv_microcode tcb))
      then OutOfDate (lit ''SEV-SNP current_tcb below pinned minimum floor'')
      else UpToDate)"

definition snp_appraise_report :: "('c, 'k) attest_lib \<Rightarrow> snp_report \<Rightarrow> tcb_floor option \<Rightarrow> attest_error + evidence" where
  "snp_appraise_report A r min_tcb =
     (if sr_debug_allowed r then Inl (PolicyViolation (lit ''SEV-SNP guest policy permits DEBUG (memory introspection)''))
      else if sr_migrate_ma_allowed r then Inl (PolicyViolation (lit ''SEV-SNP guest policy permits migration (MIGRATE_MA)''))
      else Inr \<lparr>ev_tee = SevSnp, ev_measurement = sr_measurement r, ev_report_data = sr_report_data r,
                ev_tcb_status = snp_tcb_status A min_tcb r\<rparr>)"

primrec generation_name :: "generation \<Rightarrow> bytes" where
  "generation_name Milan = lit ''milan''"
| "generation_name Genoa = lit ''genoa''"
| "generation_name Turin = lit ''turin''"

fun try_generations ::
  "('c, 'k) attest_lib \<Rightarrow> 'c \<Rightarrow> snp_report \<Rightarrow> generation list \<Rightarrow> bytes \<Rightarrow> attest_error + ('c \<times> 'c)" where
  "try_generations A vek r [] msg = Inl (ChainVerification msg)"
| "try_generations A vek r (g # gs) msg =
     (case (at_ark A g, at_ask A g) of
        (Some ark, Some ask) \<Rightarrow>
          (case at_snp_verify A ark ask vek r of
             Inr _ \<Rightarrow> Inr (ark, ask)
           | Inl e \<Rightarrow> try_generations A vek r gs (generation_name g @ lit '': '' @ e))
      | _ \<Rightarrow> try_generations A vek r gs msg)"

definition verifying_chain :: "('c, 'k) attest_lib \<Rightarrow> 'c \<Rightarrow> snp_report \<Rightarrow> attest_error + ('c \<times> 'c)" where
  "verifying_chain A vek r = try_generations A vek r [Milan, Genoa, Turin] (lit ''no built-in AMD generation matched'')"

definition snp_verify :: "('c, 'k) attest_lib \<Rightarrow> bytes \<Rightarrow> bytes \<Rightarrow> tcb_floor option \<Rightarrow> attest_error + evidence" where
  "snp_verify A report_bytes vcek_der min_tcb =
     bindE (map_err (\<lambda>e. Malformed (lit ''SEV-SNP report decode: '' @ e)) (at_snp_from_bytes A report_bytes)) (\<lambda>r.
     bindE (map_err (\<lambda>e. CertError (lit ''VCEK DER: '' @ e)) (at_cert_from_der A vcek_der)) (\<lambda>vek.
     bindE (verifying_chain A vek r) (\<lambda>(ark, ask).
     bindE (map_err (\<lambda>e. ChainVerification (lit ''SEV-SNP chain/report: '' @ e)) (at_snp_verify A ark ask vek r)) (\<lambda>_.
     snp_appraise_report A r min_tcb))))"

section \<open>TDX quotes\<close>

definition HEADER_BYTE_LEN :: nat where "HEADER_BYTE_LEN = 48"
definition TEE_TYPE_TDX :: u32 where "TEE_TYPE_TDX = 0x81"
definition ALLOWED_TDX_QUOTE_VERSIONS :: "u16 list" where "ALLOWED_TDX_QUOTE_VERSIONS = [4, 5]"
definition TD_REPORT10_BYTE_LEN :: nat where "TD_REPORT10_BYTE_LEN = 584"
definition TDX_IDENTITY_DOMAIN :: bytes where "TDX_IDENTITY_DOMAIN = lit ''nil/attestation/tdx-identity/v1'' @ [0]"

text \<open>\<open>from_le_bytes\<close>; \<open>{:#010x}\<close> prints eight hexadecimal digits after \<open>0x\<close>.\<close>

definition of_le :: "bytes \<Rightarrow> 'a::len word" where
  "of_le bs = of_be (rev bs)"

definition fmt_010x :: "u32 \<Rightarrow> bytes" where
  "fmt_010x w = lit ''0x'' @ to_hex (to_be 4 w)"

definition prevalidate_quote :: "bytes \<Rightarrow> attest_error + unit" where
  "prevalidate_quote quote =
     (let min_len = HEADER_BYTE_LEN + TD_REPORT10_BYTE_LEN in
      if length quote < min_len then
        Inl (Malformed (lit ''TDX quote too short: '' @ dec_of_nat (length quote) @ lit '' bytes, need >= '' @ dec_of_nat min_len))
      else
        let version = (of_le [quote ! 0, quote ! 1] :: u16) in
        if version \<notin> set ALLOWED_TDX_QUOTE_VERSIONS then
          Inl (Malformed (lit ''TDX quote header version '' @ u_to_string version @ lit '' not in [4, 5]''))
        else
          let tee_type = (of_le [quote ! 4, quote ! 5, quote ! 6, quote ! 7] :: u32) in
          if tee_type \<noteq> TEE_TYPE_TDX then
            Inl (Malformed (lit ''quote tee_type '' @ fmt_010x tee_type @ lit '' is not TDX ('' @ fmt_010x TEE_TYPE_TDX @ lit '')''))
          else Inr ())"

definition verify_dcap :: "('c, 'k) attest_lib \<Rightarrow> bytes \<Rightarrow> 'k \<Rightarrow> u64 \<Rightarrow> bool \<Rightarrow> attest_error + verified_report" where
  "verify_dcap A quote collateral now allow_service_td =
     map_err (\<lambda>e. ChainVerification (lit ''TDX DCAP verify: '' @ e)) (at_dcap_verify A allow_service_td quote collateral now)"

definition require_exact :: "string \<Rightarrow> bytes \<Rightarrow> bytes \<Rightarrow> attest_error + unit" where
  "require_exact label actual expected =
     (if actual \<noteq> expected then Inl (PolicyViolation (lit ''TDX '' @ lit label @ lit '' does not match the pinned policy''))
      else Inr ())"

definition td_parts :: "quote_report \<Rightarrow> attest_error + (td_report \<times> bytes option)" where
  "td_parts report =
     (case report of
        TD10 td \<Rightarrow> Inr (td, None)
      | TD15 td service_td \<Rightarrow> Inr (td, Some service_td)
      | SgxEnclave \<Rightarrow> Inl (Malformed (lit ''expected a TDX quote, got an SGX enclave report'')))"

fun require_registers :: "(string \<times> bytes \<times> bytes) list \<Rightarrow> attest_error + unit" where
  "require_registers [] = Inr ()"
| "require_registers ((name, actual, expected) # rest) =
     (if list_all (\<lambda>b. b = 0) actual \<or> list_all (\<lambda>b. b = 0) expected then
        Inl (PolicyViolation (lit ''TDX '' @ lit name @ lit '' must be nonzero in NIL production workload policy''))
      else require_registers rest)"

definition match_service_td :: "bytes option \<Rightarrow> bytes option \<Rightarrow> attest_error + unit" where
  "match_service_td service_td pinned =
     (case (service_td, pinned) of
        (None, None) \<Rightarrow> Inr ()
      | (Some actual, Some expected) \<Rightarrow> require_exact ''MRSERVICETD'' actual expected
      | (None, Some _) \<Rightarrow> Inl (PolicyViolation (lit ''TDX quote uses a TDREPORT 1.0 body but policy requires TDREPORT 1.5''))
      | (Some _, None) \<Rightarrow> Inl (PolicyViolation (lit ''TDX quote uses an unpinned TDREPORT 1.5 body'')))"

definition tdx_identity :: "td_report \<Rightarrow> bytes option \<Rightarrow> bytes" where
  "tdx_identity b service_td =
     TDX_IDENTITY_DOMAIN @ td_mr_td b @ td_td_attributes b @ td_xfam b @ td_mr_config_id b @ td_mr_owner b @
     td_mr_owner_config b @ td_rt_mr0 b @ td_rt_mr1 b @ td_rt_mr2 b @ td_rt_mr3 b @
     (case service_td of None \<Rightarrow> [0] | Some v \<Rightarrow> 1 # v)"

definition tdx_appraise_report :: "('c, 'k) attest_lib \<Rightarrow> quote_report \<Rightarrow> tdx_policy \<Rightarrow> attest_error + bytes" where
  "tdx_appraise_report A report p =
     bindE (td_parts report) (\<lambda>(base, service_td).
     if (tp_td_attributes p ! 0) AND 1 \<noteq> 0 \<or> (td_td_attributes base ! 0) AND 1 \<noteq> 0
     then Inl (PolicyViolation (lit ''TDX debug mode is forbidden''))
     else
     bindE (require_registers
       [(''RTMR0'', td_rt_mr0 base, tp_rt_mr0 p), (''RTMR1'', td_rt_mr1 base, tp_rt_mr1 p),
        (''RTMR2'', td_rt_mr2 base, tp_rt_mr2 p), (''RTMR3'', td_rt_mr3 base, tp_rt_mr3 p)]) (\<lambda>_.
     bindE (require_exact ''TDATTRIBUTES'' (td_td_attributes base) (tp_td_attributes p)) (\<lambda>_.
     bindE (require_exact ''XFAM'' (td_xfam base) (tp_xfam p)) (\<lambda>_.
     bindE (require_exact ''MRCONFIGID'' (td_mr_config_id base) (tp_mr_config_id p)) (\<lambda>_.
     bindE (require_exact ''MROWNER'' (td_mr_owner base) (tp_mr_owner p)) (\<lambda>_.
     bindE (require_exact ''MROWNERCONFIG'' (td_mr_owner_config base) (tp_mr_owner_config p)) (\<lambda>_.
     bindE (require_exact ''RTMR0'' (td_rt_mr0 base) (tp_rt_mr0 p)) (\<lambda>_.
     bindE (require_exact ''RTMR1'' (td_rt_mr1 base) (tp_rt_mr1 p)) (\<lambda>_.
     bindE (require_exact ''RTMR2'' (td_rt_mr2 base) (tp_rt_mr2 p)) (\<lambda>_.
     bindE (require_exact ''RTMR3'' (td_rt_mr3 base) (tp_rt_mr3 p)) (\<lambda>_.
     bindE (match_service_td service_td (tp_mr_service_td p)) (\<lambda>_.
     Inr (at_sha384 A (tdx_identity base service_td))))))))))))))"

definition strict_tcb_status :: "bytes \<Rightarrow> bytes list \<Rightarrow> tcb_status" where
  "strict_tcb_status status advisory_ids =
     (if status = lit ''UpToDate'' \<and> advisory_ids = [] then UpToDate
      else OutOfDate (status @ lit '' ('' @ dec_of_nat (length advisory_ids) @ lit '' advisory IDs)''))"

record identity_candidate =
  ic_mr_td :: bytes
  ic_policy :: tdx_policy
  ic_measurement :: bytes

definition observed_policy :: "td_report \<Rightarrow> bytes option \<Rightarrow> tdx_policy" where
  "observed_policy b service_td =
     \<lparr>tp_td_attributes = td_td_attributes b, tp_xfam = td_xfam b, tp_mr_config_id = td_mr_config_id b,
      tp_mr_owner = td_mr_owner b, tp_mr_owner_config = td_mr_owner_config b, tp_rt_mr0 = td_rt_mr0 b,
      tp_rt_mr1 = td_rt_mr1 b, tp_rt_mr2 = td_rt_mr2 b, tp_rt_mr3 = td_rt_mr3 b, tp_mr_service_td = service_td\<rparr>"

definition parse_collateral :: "('c, 'k) attest_lib \<Rightarrow> bytes \<Rightarrow> attest_error + 'k" where
  "parse_collateral A json = map_err (\<lambda>e. Malformed (lit ''TDX collateral JSON: '' @ e)) (at_collateral A json)"

definition verified_identity_candidate :: "('c, 'k) attest_lib \<Rightarrow> bytes \<Rightarrow> bytes \<Rightarrow> u64 \<Rightarrow> attest_error + identity_candidate" where
  "verified_identity_candidate A quote json now =
     bindE (prevalidate_quote quote) (\<lambda>_.
     bindE (parse_collateral A json) (\<lambda>collateral.
     bindE (verify_dcap A quote collateral now True) (\<lambda>verified.
     if strict_tcb_status (vr_status verified) (vr_advisory_ids verified) \<noteq> UpToDate then
       Inl (PolicyViolation (lit ''TDX identity candidates require an UpToDate collateral verdict with no advisories''))
     else
     bindE (td_parts (vr_report verified)) (\<lambda>(base, mr_service_td).
     let policy = observed_policy base mr_service_td in
     bindE (tdx_appraise_report A (vr_report verified) policy) (\<lambda>measurement.
     Inr \<lparr>ic_mr_td = td_mr_td base, ic_policy = policy, ic_measurement = measurement\<rparr>)))))"

definition tdx_verify :: "('c, 'k) attest_lib \<Rightarrow> bytes \<Rightarrow> bytes \<Rightarrow> u64 \<Rightarrow> tdx_policy \<Rightarrow> attest_error + evidence" where
  "tdx_verify A quote json now p =
     bindE (prevalidate_quote quote) (\<lambda>_.
     bindE (parse_collateral A json) (\<lambda>collateral.
     bindE (verify_dcap A quote collateral now (tp_mr_service_td p \<noteq> None)) (\<lambda>verified.
     bindE (tdx_appraise_report A (vr_report verified) p) (\<lambda>measurement.
     bindE (td_parts (vr_report verified)) (\<lambda>(base, _).
     Inr \<lparr>ev_tee = Tdx, ev_measurement = measurement, ev_report_data = td_report_data base,
          ev_tcb_status = strict_tcb_status (vr_status verified) (vr_advisory_ids verified)\<rparr>)))))"

section \<open>Synthetic reports\<close>

definition TEST_CA_SEED :: bytes where "TEST_CA_SEED = lit ''nil-vpn.synthetic-attest.testca.''"

primrec tee_byte :: "tee \<Rightarrow> byte" where
  "tee_byte SevSnp = 0"
| "tee_byte Tdx = 1"

definition tee_from_byte :: "byte \<Rightarrow> attest_error + tee" where
  "tee_from_byte b =
     (if b = 0 then Inr SevSnp else if b = 1 then Inr Tdx
      else Inl (Malformed (lit ''synthetic tee byte '' @ u_to_string b)))"

definition synthetic_sign :: "('c, 'k) attest_lib \<Rightarrow> tee \<Rightarrow> bytes \<Rightarrow> bytes \<Rightarrow> bytes" where
  "synthetic_sign A t measurement report_data =
     (let signed = tee_byte t # measurement @ report_data in signed @ at_ed_sign A TEST_CA_SEED signed)"

definition synthetic_verify :: "('c, 'k) attest_lib \<Rightarrow> bytes \<Rightarrow> attest_error + evidence" where
  "synthetic_verify A payload =
     (if length payload \<noteq> 1 + 48 + 64 + 64 then Inl (Malformed (lit ''synthetic payload length''))
      else
        let signed = take (1 + 48 + 64) payload; sig = drop (1 + 48 + 64) payload in
        if \<not> at_ed_signature_ok A sig then Inl (Malformed (lit ''synthetic signature''))
        else if \<not> at_ed_verify A (at_ed_public A TEST_CA_SEED) signed sig
        then Inl (ChainVerification (lit ''synthetic CA signature''))
        else
        bindE (tee_from_byte (signed ! 0)) (\<lambda>t.
        Inr \<lparr>ev_tee = t, ev_measurement = take 48 (drop 1 signed), ev_report_data = take 64 (drop 49 signed),
             ev_tcb_status = UpToDate\<rparr>))"

section \<open>Appraisal\<close>

text \<open>The number of parts the evidence of a tag has before a stapled proof.\<close>

definition base_count :: "bool \<Rightarrow> byte \<Rightarrow> attest_error + nat" where
  "base_count synthetic tag =
     (if tag = TAG_SEVSNP \<or> tag = TAG_TDX then Inr 2
      else if synthetic \<and> tag = TAG_SYNTHETIC then Inr 1
      else Inl (UnsupportedTee tag))"

definition split_stapled :: "nat \<Rightarrow> bytes list \<Rightarrow> attest_error + (bytes list \<times> bytes option)" where
  "split_stapled base parts =
     (if length parts = base then Inr (parts, None)
      else if length parts = base + 1 then Inr (take base parts, Some (parts ! base))
      else Inl (Malformed (lit ''unexpected attestation evidence part count'')))"

definition verify_report ::
  "('c, 'k) attest_lib \<Rightarrow> bool \<Rightarrow> byte \<Rightarrow> bytes list \<Rightarrow> appraisal_policy \<Rightarrow> u64 \<Rightarrow> attest_error + evidence" where
  "verify_report A synthetic tag parts p now =
     (if tag = TAG_SEVSNP then
        (case parts of
           [report, vcek] \<Rightarrow> snp_verify A report vcek (ap_min_tcb_sevsnp p)
         | _ \<Rightarrow> Inl (Malformed (lit ''SEV-SNP evidence expects [report, vcek]'')))
      else if tag = TAG_TDX then
        (case parts of
           [quote, collateral] \<Rightarrow>
             if ap_tee p \<noteq> Tdx then Inl (TeeMismatch (ap_tee p) Tdx)
             else if ap_min_tcb_sevsnp p \<noteq> None then Inl (PolicyViolation (lit ''SEV-SNP TCB floor is invalid for a TDX policy''))
             else if ap_allow_tcb_out_of_date p then
               Inl (PolicyViolation (lit ''TDX policy must require an UpToDate collateral verdict with no advisories''))
             else
             bindE (ok_or (PolicyViolation (lit ''TDX policy is incomplete: MRTD alone is not sufficient'')) (ap_tdx_policy p)) (\<lambda>tdx_policy.
             tdx_verify A quote collateral now tdx_policy)
         | _ \<Rightarrow> Inl (Malformed (lit ''TDX evidence expects [quote, collateral]'')))
      else if synthetic \<and> tag = TAG_SYNTHETIC then
        (case parts of
           [report] \<Rightarrow> synthetic_verify A report
         | _ \<Rightarrow> Inl (Malformed (lit ''synthetic evidence expects [report]'')))
      else Inl (UnsupportedTee tag))"

text \<open>\<open>appraise\<close> up to the transparency gate: the verified report and the stapled proof.\<close>

definition appraise_claims ::
  "('c, 'k) attest_lib \<Rightarrow> bool \<Rightarrow> bytes \<Rightarrow> bytes \<Rightarrow> appraisal_policy \<Rightarrow> bytes \<Rightarrow> u64 \<Rightarrow> attest_error + (evidence \<times> bytes option)" where
  "appraise_claims A synthetic ev tls_spki p nonce now =
     bindE (case ap_tls_spki_sha256 p of
              Some expected \<Rightarrow> if at_sha256 A tls_spki \<noteq> expected then Inl TlsSpkiMismatch else Inr ()
            | None \<Rightarrow> Inr ()) (\<lambda>_.
     bindE (case ev of [] \<Rightarrow> Inl (Malformed (lit ''empty attestation evidence'')) | tag # rest \<Rightarrow> Inr (tag, rest)) (\<lambda>(tag, rest).
     bindE (decode_parts rest) (\<lambda>parts.
     bindE (base_count synthetic tag) (\<lambda>base.
     bindE (split_stapled base parts) (\<lambda>(base_parts, stapled).
     bindE (verify_report A synthetic tag base_parts p now) (\<lambda>report.
     if ev_tee report \<noteq> ap_tee p then Inl (TeeMismatch (ap_tee p) (ev_tee report))
     else if ev_tee report = SevSnp \<and> ap_tdx_policy p \<noteq> None then
       Inl (PolicyViolation (lit ''TDX workload policy is invalid for SEV-SNP evidence''))
     else if ev_report_data report \<noteq> bind_report_data A tls_spki nonce then Inl ReportDataMismatch
     else if ev_measurement report \<noteq> ap_expected_measurement p then Inl MeasurementMismatch
     else
     bindE (case ev_tcb_status report of
              OutOfDate reason \<Rightarrow> if \<not> ap_allow_tcb_out_of_date p then Inl (TcbNotUpToDate reason) else Inr ()
            | UpToDate \<Rightarrow> Inr ()) (\<lambda>_.
     Inr (report, stapled))))))))"

definition transparency_gate :: "('c, 'k) attest_lib \<Rightarrow> bool \<Rightarrow> bytes option \<Rightarrow> bytes \<Rightarrow> bytes option \<Rightarrow> panic + (attest_error + unit)" where
  "transparency_gate A checks key measurement stapled =
     (case key of
        None \<Rightarrow> Inr (Inr ())
      | Some log_key \<Rightarrow>
          (case stapled of
             None \<Rightarrow> Inr (Inl (TransparencyNotLogged (lit ''no stapled inclusion proof'')))
           | Some proof_bytes \<Rightarrow>
               (case log_decode proof_bytes of
                  None \<Rightarrow> Inr (Inl (TransparencyNotLogged (lit ''malformed inclusion proof'')))
                | Some pf \<Rightarrow>
                    bindE (verify_logged checks (at_log A) measurement pf log_key) (\<lambda>logged.
                    Inr (if logged then Inr ()
                         else Inl (TransparencyNotLogged (lit ''measurement not included under the pinned log checkpoint'')))))))"

definition appraise ::
  "('c, 'k) attest_lib \<Rightarrow> bool \<Rightarrow> bool \<Rightarrow> bytes \<Rightarrow> bytes \<Rightarrow> appraisal_policy \<Rightarrow> bytes \<Rightarrow> u64 \<Rightarrow> panic + (attest_error + verdict)" where
  "appraise A synthetic checks ev tls_spki p nonce now =
     (case appraise_claims A synthetic ev tls_spki p nonce now of
        Inl e \<Rightarrow> Inr (Inl e)
      | Inr (report, stapled) \<Rightarrow>
          bindE (transparency_gate A checks (ap_transparency_log_key p) (ev_measurement report) stapled) (\<lambda>gate.
          Inr (bindE gate (\<lambda>_.
            Inr \<lparr>vd_tee = ev_tee report, vd_measurement = ev_measurement report, vd_tcb_status = ev_tcb_status report\<rparr>))))"

text \<open>\<open>now_unix\<close>: the clock, or a far-future value when the clock is before the epoch.\<close>

definition attest_now :: "u64 option \<Rightarrow> u64" where
  "attest_now clock = (case clock of Some t \<Rightarrow> t | None \<Rightarrow> (- 1) div 2)"


section \<open>The framing is a code\<close>

lemma decode_parts_part:
  assumes "length p < 2 ^ 32"
  shows "decode_parts (encode_part p @ rest) = bindE (decode_parts rest) (\<lambda>ps. Inr (p # ps))"
proof -
  have n: "unat (of_be (to_be 4 (word_of_nat (length p) :: u32)) :: u32) = length p"
    using assms by (simp add: of_be_to_be unat_of_nat)
  define bs where "bs = encode_part p @ rest"
  have "take 4 bs = to_be 4 (word_of_nat (length p) :: u32)" "drop 4 bs = p @ rest" "4 \<le> length bs"
    by (simp_all add: bs_def encode_part_def)
  moreover from this(3) have "bs \<noteq> []" by auto
  ultimately show ?thesis using n unfolding bs_def [symmetric] by (subst decode_parts.simps) (simp add: Let_def)
qed

lemma decode_parts_encode:
  "list_all (\<lambda>p. length p < 2 ^ 32) parts \<Longrightarrow> decode_parts (concat (map encode_part parts)) = Inr parts"
  by (induction parts) (simp_all add: decode_parts.simps [of "[]"] decode_parts_part)

lemma decode_parts_sound:
  "decode_parts bs = Inr parts \<Longrightarrow> bs = concat (map encode_part parts) \<and> list_all (\<lambda>p. length p < 2 ^ 32) parts"
proof (induction bs arbitrary: parts rule: decode_parts.induct)
  case (1 bs)
  show ?case
  proof (cases "bs = []")
    case False
    define len where "len = unat (of_be (take 4 bs) :: u32)"
    from 1(2) False obtain ps where b: "4 \<le> length bs" "len \<le> length (drop 4 bs)"
        "decode_parts (drop len (drop 4 bs)) = Inr ps" "parts = take len (drop 4 bs) # ps"
      by (subst (asm) decode_parts.simps) (auto simp: Let_def len_def not_less split: if_splits)
    from b have ih: "drop len (drop 4 bs) = concat (map encode_part ps)" "list_all (\<lambda>p. length p < 2 ^ 32) ps"
      using 1(1) [OF False _ refl refl, of ps] by (auto simp: len_def not_less)
    have n: "len < 2 ^ 32" unfolding len_def using unsigned_less [of "of_be (take 4 bs) :: u32"] by simp
    have w: "to_be 4 (word_of_nat len :: u32) = take 4 bs" using b(1) by (simp add: len_def to_be_of_be)
    have "bs = take 4 bs @ take len (drop 4 bs) @ drop len (drop 4 bs)" by (metis append_take_drop_id)
    also have "\<dots> = encode_part (take len (drop 4 bs)) @ concat (map encode_part ps)"
      using b(2) w ih(1) by (simp add: encode_part_def min_def)
    finally show ?thesis using b(4) ih(2) n b(2) by (simp add: min_def)
  qed (use 1(2) in \<open>simp add: decode_parts.simps\<close>)
qed

lemma decode_parts_iff:
  "decode_parts bs = Inr parts \<longleftrightarrow> bs = concat (map encode_part parts) \<and> list_all (\<lambda>p. length p < 2 ^ 32) parts"
  using decode_parts_encode decode_parts_sound by blast

section \<open>What the report verifiers accept\<close>

lemma try_generations_Inr:
  "try_generations A vek r gs msg = Inr (ark, ask) \<Longrightarrow>
     \<exists>g\<in>set gs. at_ark A g = Some ark \<and> at_ask A g = Some ask \<and> at_snp_verify A ark ask vek r = Inr ()"
  by (induction gs arbitrary: msg) (auto split: option.splits sum.splits)

lemma try_generations_finds:
  assumes "g \<in> set gs" and "at_ark A g = Some ark" and "at_ask A g = Some ask" and "at_snp_verify A ark ask vek r = Inr ()"
  shows "\<exists>x. try_generations A vek r gs msg = Inr x"
  using assms by (induction gs arbitrary: msg) (auto split: option.splits sum.splits)

lemma generations_all: "g \<in> set [Milan, Genoa, Turin]"
  by (cases g) auto

text \<open>A report some built-in root vouches for.\<close>

definition amd_verified :: "('c, 'k) attest_lib \<Rightarrow> 'c \<Rightarrow> snp_report \<Rightarrow> bool" where
  "amd_verified A vek r \<longleftrightarrow>
     (\<exists>g ark ask. at_ark A g = Some ark \<and> at_ask A g = Some ask \<and> at_snp_verify A ark ask vek r = Inr ())"

lemma snp_verify_iff:
  "snp_verify A report vcek f = Inr e \<longleftrightarrow>
     (\<exists>r vek. at_snp_from_bytes A report = Inr r \<and> at_cert_from_der A vcek = Inr vek \<and> amd_verified A vek r \<and>
        \<not> sr_debug_allowed r \<and> \<not> sr_migrate_ma_allowed r \<and>
        e = \<lparr>ev_tee = SevSnp, ev_measurement = sr_measurement r, ev_report_data = sr_report_data r,
             ev_tcb_status = snp_tcb_status A f r\<rparr>)" (is "?L \<longleftrightarrow> ?R")
proof
  assume ?L
  then obtain r vek ark ask where r: "at_snp_from_bytes A report = Inr r" "at_cert_from_der A vcek = Inr vek"
      "verifying_chain A vek r = Inr (ark, ask)" "snp_appraise_report A r f = Inr e"
    by (auto simp: snp_verify_def)
  from r(3) have "amd_verified A vek r"
    unfolding verifying_chain_def amd_verified_def by (blast dest: try_generations_Inr)
  with r show ?R by (auto simp: snp_appraise_report_def split: if_splits)
next
  assume ?R
  then obtain r vek where r: "at_snp_from_bytes A report = Inr r" "at_cert_from_der A vcek = Inr vek" "amd_verified A vek r"
      "\<not> sr_debug_allowed r" "\<not> sr_migrate_ma_allowed r"
      "e = \<lparr>ev_tee = SevSnp, ev_measurement = sr_measurement r, ev_report_data = sr_report_data r, ev_tcb_status = snp_tcb_status A f r\<rparr>"
    by blast
  from r(3) obtain g ark ask where "at_ark A g = Some ark" "at_ask A g = Some ask" "at_snp_verify A ark ask vek r = Inr ()"
    by (auto simp: amd_verified_def)
  then obtain ark' ask' where c: "verifying_chain A vek r = Inr (ark', ask')"
    using try_generations_finds [OF generations_all] unfolding verifying_chain_def by (metis surj_pair)
  then have "at_snp_verify A ark' ask' vek r = Inr ()"
    unfolding verifying_chain_def using try_generations_Inr by metis
  with r c show ?L by (simp add: snp_verify_def snp_appraise_report_def)
qed

lemma require_exact_Inr [simp]: "require_exact l a e = Inr u \<longleftrightarrow> a = e"
  by (simp add: require_exact_def)

lemma match_service_td_Inr [simp]: "match_service_td s p = Inr u \<longleftrightarrow> s = p"
  by (auto simp: match_service_td_def split: option.splits)

definition registers_set :: "td_report \<Rightarrow> bool" where
  "registers_set b \<longleftrightarrow> list_all (\<lambda>r. \<not> list_all (\<lambda>x. x = 0) r) [td_rt_mr0 b, td_rt_mr1 b, td_rt_mr2 b, td_rt_mr3 b]"

definition debug_off :: "td_report \<Rightarrow> bool" where
  "debug_off b \<longleftrightarrow> (td_td_attributes b ! 0) AND 1 = 0"

lemma observed_policy_eq:
  "p = observed_policy b s \<longleftrightarrow>
     tp_td_attributes p = td_td_attributes b \<and> tp_xfam p = td_xfam b \<and> tp_mr_config_id p = td_mr_config_id b \<and>
     tp_mr_owner p = td_mr_owner b \<and> tp_mr_owner_config p = td_mr_owner_config b \<and> tp_rt_mr0 p = td_rt_mr0 b \<and>
     tp_rt_mr1 p = td_rt_mr1 b \<and> tp_rt_mr2 p = td_rt_mr2 b \<and> tp_rt_mr3 p = td_rt_mr3 b \<and> tp_mr_service_td p = s"
  by (cases p) (simp add: observed_policy_def)

lemma require_registers_Inr:
  "require_registers xs = Inr u \<longleftrightarrow>
     list_all (\<lambda>(_, a, e). \<not> list_all (\<lambda>x. x = 0) a \<and> \<not> list_all (\<lambda>x. x = 0) e) xs"
  by (induction xs rule: require_registers.induct) auto

lemma tdx_appraise_iff:
  "tdx_appraise_report A report p = Inr m \<longleftrightarrow>
     (\<exists>b s. td_parts report = Inr (b, s) \<and> p = observed_policy b s \<and> debug_off b \<and> registers_set b \<and>
        m = at_sha384 A (tdx_identity b s))"
  unfolding observed_policy_eq tdx_appraise_report_def bindE_eq_Inr require_registers_Inr debug_off_def registers_set_def
  by (cases "td_parts report") (auto simp: require_registers_Inr split: if_splits)

lemma tdx_verify_iff:
  "tdx_verify A quote json now p = Inr e \<longleftrightarrow>
     (\<exists>k vr b s. prevalidate_quote quote = Inr () \<and> at_collateral A json = Inr k \<and>
        at_dcap_verify A (s \<noteq> None) quote k now = Inr vr \<and> td_parts (vr_report vr) = Inr (b, s) \<and>
        p = observed_policy b s \<and> debug_off b \<and> registers_set b \<and>
        e = \<lparr>ev_tee = Tdx, ev_measurement = at_sha384 A (tdx_identity b s), ev_report_data = td_report_data b,
             ev_tcb_status = strict_tcb_status (vr_status vr) (vr_advisory_ids vr)\<rparr>)"
  by (fastforce simp: tdx_verify_def parse_collateral_def verify_dcap_def tdx_appraise_iff observed_policy_def)

section \<open>Acceptance\<close>

text \<open>
  Evidence the vendor verifiers vouch for, with the claims the policy pins: the SEV-SNP report was
  signed under a built-in AMD root and its guest policy forbids debugging and migration; the TDX quote
  was verified with its collateral at this time, its body is exactly the pinned workload policy, it is
  not a debug domain and every runtime register is set.
\<close>

inductive genuine :: "('c, 'k) attest_lib \<Rightarrow> appraisal_policy \<Rightarrow> u64 \<Rightarrow> byte \<Rightarrow> bytes list \<Rightarrow> evidence \<Rightarrow> bool"
  for A :: "('c, 'k) attest_lib" and p :: appraisal_policy and now :: u64 where
  genuine_snp:
    "at_snp_from_bytes A report = Inr r \<Longrightarrow> at_cert_from_der A vcek = Inr vek \<Longrightarrow> amd_verified A vek r \<Longrightarrow>
     \<not> sr_debug_allowed r \<Longrightarrow> \<not> sr_migrate_ma_allowed r \<Longrightarrow> ap_tdx_policy p = None \<Longrightarrow>
     genuine A p now TAG_SEVSNP [report, vcek]
       \<lparr>ev_tee = SevSnp, ev_measurement = sr_measurement r, ev_report_data = sr_report_data r,
        ev_tcb_status = snp_tcb_status A (ap_min_tcb_sevsnp p) r\<rparr>"
| genuine_tdx:
    "prevalidate_quote quote = Inr () \<Longrightarrow> at_collateral A json = Inr k \<Longrightarrow>
     at_dcap_verify A (s \<noteq> None) quote k now = Inr vr \<Longrightarrow> td_parts (vr_report vr) = Inr (b, s) \<Longrightarrow>
     ap_tdx_policy p = Some (observed_policy b s) \<Longrightarrow> debug_off b \<Longrightarrow> registers_set b \<Longrightarrow>
     ap_min_tcb_sevsnp p = None \<Longrightarrow> \<not> ap_allow_tcb_out_of_date p \<Longrightarrow>
     genuine A p now TAG_TDX [quote, json]
       \<lparr>ev_tee = Tdx, ev_measurement = at_sha384 A (tdx_identity b s), ev_report_data = td_report_data b,
        ev_tcb_status = strict_tcb_status (vr_status vr) (vr_advisory_ids vr)\<rparr>"

inductive_cases genuineE: "genuine A p now tag parts e"

lemma tags_differ [simp]: "TAG_SEVSNP \<noteq> TAG_TDX" "TAG_TDX \<noteq> TAG_SEVSNP" "TAG_SYNTHETIC \<noteq> TAG_SEVSNP" "TAG_SYNTHETIC \<noteq> TAG_TDX"
    "TAG_SEVSNP \<noteq> TAG_SYNTHETIC" "TAG_TDX \<noteq> TAG_SYNTHETIC"
  by (simp_all add: TAG_SEVSNP_def TAG_TDX_def TAG_SYNTHETIC_def)

lemma base_count_release [simp]: "base_count False tag = Inr n \<longleftrightarrow> (tag = TAG_SEVSNP \<or> tag = TAG_TDX) \<and> n = 2"
  by (auto simp: base_count_def)

lemma split_stapled_Inr:
  "split_stapled n parts = Inr (base, stapled) \<longleftrightarrow>
     length base = n \<and> parts = base @ (case stapled of None \<Rightarrow> [] | Some s \<Rightarrow> [s])"
proof (cases stapled)
  case (Some s)
  have "parts = take n parts @ [parts ! n]" if "length parts = Suc n"
    using that take_Suc_conv_app_nth [of n parts] by simp
  then show ?thesis using Some by (auto simp: split_stapled_def)
qed (auto simp: split_stapled_def)

text \<open>The checks on a verified report, apart from the order they are made in.\<close>

definition claims_ok :: "('c, 'k) attest_lib \<Rightarrow> appraisal_policy \<Rightarrow> bytes \<Rightarrow> bytes \<Rightarrow> evidence \<Rightarrow> bool" where
  "claims_ok A p tls_spki nonce e \<longleftrightarrow>
     (case ap_tls_spki_sha256 p of None \<Rightarrow> True | Some d \<Rightarrow> at_sha256 A tls_spki = d) \<and>
     ev_tee e = ap_tee p \<and>
     ev_report_data e = bind_report_data A tls_spki nonce \<and>
     ev_measurement e = ap_expected_measurement p \<and>
     (ap_allow_tcb_out_of_date p \<or> ev_tcb_status e = UpToDate)"

lemma genuine_snp_iff:
  "genuine A p now TAG_SEVSNP parts e \<longleftrightarrow>
     (\<exists>report vcek. parts = [report, vcek] \<and> snp_verify A report vcek (ap_min_tcb_sevsnp p) = Inr e) \<and> ap_tdx_policy p = None"
  unfolding snp_verify_iff by (auto elim!: genuineE intro: genuine.intros)

lemma genuine_tdx_iff:
  "genuine A p now TAG_TDX parts e \<longleftrightarrow>
     (\<exists>quote json q. parts = [quote, json] \<and> ap_tdx_policy p = Some q \<and> tdx_verify A quote json now q = Inr e) \<and>
     ap_min_tcb_sevsnp p = None \<and> \<not> ap_allow_tcb_out_of_date p" (is "?L \<longleftrightarrow> ?R")
proof
  assume ?L then show ?R
  proof (cases rule: genuine.cases)
    case (genuine_tdx quote json k s vr b)
    from genuine_tdx(3-6,8,9) have "tdx_verify A quote json now (observed_policy b s) = Inr e"
      unfolding tdx_verify_iff genuine_tdx(2) by blast
    with genuine_tdx show ?thesis by blast
  qed simp
next
  assume ?R then show ?L unfolding tdx_verify_iff by (blast intro: genuine_tdx)
qed

lemma genuine_tag: "genuine A p now tag parts e \<Longrightarrow> (tag = TAG_SEVSNP \<or> tag = TAG_TDX) \<and> length parts = 2"
  by (auto elim: genuineE)

lemma genuine_tee: "genuine A p now tag parts e \<Longrightarrow> ev_tee e = (if tag = TAG_SEVSNP then SevSnp else Tdx)"
  by (auto elim: genuineE)

lemma verify_report_genuine:
  assumes "ev_tee e = ap_tee p"
  shows "verify_report A False tag parts p now = Inr e \<and> \<not> (ev_tee e = SevSnp \<and> ap_tdx_policy p \<noteq> None) \<longleftrightarrow> genuine A p now tag parts e"
    (is "?L \<longleftrightarrow> ?R")
proof (cases "tag = TAG_SEVSNP")
  case True
  have "ev_tee e = SevSnp" if "snp_verify A r v f = Inr e" for r v f using that by (auto simp: snp_verify_iff)
  with True show ?thesis
    by (auto simp: verify_report_def genuine_snp_iff split: list.splits)
next
  case snp: False
  show ?thesis
  proof (cases "tag = TAG_TDX")
    case True
    have "ev_tee e = Tdx" if "tdx_verify A r v n f = Inr e" for r v n f using that by (auto simp: tdx_verify_iff)
    with True assms show ?thesis
      by (auto simp: verify_report_def genuine_tdx_iff split: list.splits if_splits)
  qed (use snp in \<open>auto simp: verify_report_def dest: genuine_tag\<close>)
qed

lemma appraise_claims_iff:
  "appraise_claims A False ev tls_spki p nonce now = Inr (e, stapled) \<longleftrightarrow>
     (\<exists>tag parts. let all = parts @ (case stapled of None \<Rightarrow> [] | Some s \<Rightarrow> [s]) in
        ev = evidence_encode tag all \<and> list_all (\<lambda>q. length q < 2 ^ 32) all \<and>
        genuine A p now tag parts e \<and> claims_ok A p tls_spki nonce e)" (is "?L \<longleftrightarrow> ?R")
proof
  assume ?L
  then obtain tag rest parts base where
      c: "case ap_tls_spki_sha256 p of Some d \<Rightarrow> at_sha256 A tls_spki = d | None \<Rightarrow> True" "ev = tag # rest"
      "decode_parts rest = Inr parts" "split_stapled 2 parts = Inr (base, stapled)" "verify_report A False tag base p now = Inr e"
      "ev_tee e = ap_tee p" "\<not> (ev_tee e = SevSnp \<and> ap_tdx_policy p \<noteq> None)" "ev_report_data e = bind_report_data A tls_spki nonce"
      "ev_measurement e = ap_expected_measurement p" "ap_allow_tcb_out_of_date p \<or> ev_tcb_status e = UpToDate"
    unfolding appraise_claims_def
    by (auto simp: split: if_splits option.splits list.splits tcb_status.splits)
  then have "genuine A p now tag base e" using verify_report_genuine [of e p A tag base now] by blast
  with c show ?R
    by (auto simp: Let_def evidence_encode_def decode_parts_iff split_stapled_Inr claims_ok_def split: option.splits
        intro!: exI [of _ tag] exI [of _ base])
next
  assume ?R
  then obtain tag parts where r: "ev = evidence_encode tag (parts @ (case stapled of None \<Rightarrow> [] | Some s \<Rightarrow> [s]))"
      "list_all (\<lambda>q. length q < 2 ^ 32) (parts @ (case stapled of None \<Rightarrow> [] | Some s \<Rightarrow> [s]))"
      "genuine A p now tag parts e" "claims_ok A p tls_spki nonce e"
    by (auto simp: Let_def)
  have v: "verify_report A False tag parts p now = Inr e" "\<not> (ev_tee e = SevSnp \<and> ap_tdx_policy p \<noteq> None)"
    using verify_report_genuine [of e p A tag parts now] r(3,4) by (auto simp: claims_ok_def)
  have d: "decode_parts (concat (map encode_part (parts @ (case stapled of None \<Rightarrow> [] | Some s \<Rightarrow> [s])))) =
      Inr (parts @ (case stapled of None \<Rightarrow> [] | Some s \<Rightarrow> [s]))"
    using r(2) by (rule decode_parts_encode)
  have s: "split_stapled 2 (parts @ (case stapled of None \<Rightarrow> [] | Some s \<Rightarrow> [s])) = Inr (parts, stapled)"
    using genuine_tag [OF r(3)] by (simp add: split_stapled_Inr)
  have t: "base_count False tag = Inr 2" using genuine_tag [OF r(3)] by simp
  show ?L using v d s t r(4) unfolding appraise_claims_def r(1) evidence_encode_def
    by (auto simp: claims_ok_def split: option.splits tcb_status.splits)
qed

text \<open>The transparency gate lets a measurement pass exactly when no log is pinned or a stapled proof shows it.\<close>

definition logged_under :: "('c, 'k) attest_lib \<Rightarrow> bool \<Rightarrow> bytes option \<Rightarrow> bytes \<Rightarrow> bytes option \<Rightarrow> bool" where
  "logged_under A checks key measurement stapled \<longleftrightarrow>
     (case key of None \<Rightarrow> True
      | Some k \<Rightarrow> (\<exists>bs pf. stapled = Some bs \<and> log_decode bs = Some pf \<and> verify_logged checks (at_log A) measurement pf k = Inr True))"

lemma transparency_gate_iff: "transparency_gate A checks key m stapled = Inr (Inr u) \<longleftrightarrow> logged_under A checks key m stapled"
  by (auto simp: transparency_gate_def logged_under_def split: option.splits)

lemma appraise_iff:
  "appraise A False checks ev tls_spki p nonce now = Inr (Inr v) \<longleftrightarrow>
     (\<exists>e stapled. appraise_claims A False ev tls_spki p nonce now = Inr (e, stapled) \<and>
        logged_under A checks (ap_transparency_log_key p) (ev_measurement e) stapled \<and>
        v = \<lparr>vd_tee = ev_tee e, vd_measurement = ev_measurement e, vd_tcb_status = ev_tcb_status e\<rparr>)"
  by (auto simp: appraise_def transparency_gate_iff split: sum.splits)

text \<open>
  C13: what a release client requires of a node. Appraisal gives a verdict exactly when the evidence is
  the framing of genuine evidence (an SEV-SNP report under a built-in AMD root with debugging and
  migration off, or a TDX quote verified now whose body is exactly the pinned workload policy) with at
  most one stapled proof, the TLS key has the pinned digest, the report data binds that key and this
  nonce, TEE and measurement are the pinned ones, the platform is up to date unless the policy allows
  otherwise, and the measurement is proved to be in the pinned log, if one is pinned. A synthetic
  test report is never accepted.
\<close>

theorem appraise_accepts_iff:
  "appraise A False checks ev tls_spki p nonce now = Inr (Inr v) \<longleftrightarrow>
     (\<exists>tag parts stapled e. let all = parts @ (case stapled of None \<Rightarrow> [] | Some s \<Rightarrow> [s]) in
        ev = evidence_encode tag all \<and> list_all (\<lambda>q. length q < 2 ^ 32) all \<and>
        genuine A p now tag parts e \<and> claims_ok A p tls_spki nonce e \<and>
        logged_under A checks (ap_transparency_log_key p) (ap_expected_measurement p) stapled \<and>
        v = \<lparr>vd_tee = ap_tee p, vd_measurement = ap_expected_measurement p, vd_tcb_status = ev_tcb_status e\<rparr>)"
  unfolding appraise_iff appraise_claims_iff Let_def claims_ok_def by (rule iffI) (metis+)

section \<open>Binding\<close>

text \<open>Two different inputs with one digest.\<close>

definition collides :: "('a \<Rightarrow> 'b) \<Rightarrow> 'a \<Rightarrow> 'a \<Rightarrow> bool" where
  "collides h x y \<longleftrightarrow> x \<noteq> y \<and> h x = h y"

text \<open>
  What the code relies on in the DCAP verifier: the report it returns is the one in the quote, and the
  switch for service domains makes no difference to a quote whose report has none.
\<close>

definition dcap_ok :: "('c, 'k) attest_lib \<Rightarrow> bool" where
  "dcap_ok A \<longleftrightarrow>
     (\<forall>a a' q k k' t t' v v'. at_dcap_verify A a q k t = Inr v \<longrightarrow> at_dcap_verify A a' q k' t' = Inr v' \<longrightarrow> vr_report v = vr_report v') \<and>
     (\<forall>a a' q k t v b. at_dcap_verify A a q k t = Inr v \<longrightarrow> vr_report v = TD10 b \<longrightarrow> at_dcap_verify A a' q k t = Inr v)"

lemma encode_parts_inject:
  assumes "evidence_encode tag ps = evidence_encode tag' qs" and "list_all (\<lambda>p. length p < 2 ^ 32) ps" and "list_all (\<lambda>p. length p < 2 ^ 32) qs"
  shows "tag = tag' \<and> ps = qs"
proof -
  have e: "tag = tag' \<and> concat (map encode_part ps) = concat (map encode_part qs)"
    using assms(1) unfolding evidence_encode_def list.inject .
  have "(Inr ps :: attest_error + bytes list) = Inr qs"
    using decode_parts_encode [OF assms(2)] decode_parts_encode [OF assms(3)] unfolding conjunct2 [OF e] by (rule trans [OF sym])
  with e show ?thesis by simp
qed

lemma genuine_report_data:
  assumes "dcap_ok A" and "genuine A p1 t1 tag parts e1" and "genuine A p2 t2 tag parts e2"
  shows "ev_report_data e1 = ev_report_data e2"
  using assms(2)
proof (cases rule: genuine.cases)
  case (genuine_snp report r vcek vek)
  from assms(3) genuine_snp show ?thesis by (auto elim!: genuineE)
next
  case tdx: (genuine_tdx quote json k s vr b)
  from assms(3) obtain k' s' vr' b' where o: "at_dcap_verify A (s' \<noteq> None) quote k' t2 = Inr vr'"
      "td_parts (vr_report vr') = Inr (b', s')" "ev_report_data e2 = td_report_data b'"
    unfolding tdx(1,2) by (rule genuineE) auto
  have "vr_report vr = vr_report vr'" using assms(1) tdx(6) o(1) unfolding dcap_ok_def by blast
  then show ?thesis using o tdx by simp
qed

text \<open>
  C16: evidence is good for one connection. If the same evidence is accepted for two TLS keys and
  nonces, whatever the policies and clocks, they are the same key and nonce, or the two exhibit a
  collision of SHA-256 on the keys or of SHA-512 on the bound data.
\<close>

theorem evidence_is_fresh:
  assumes "dcap_ok A" and "\<And>x. length (at_sha256 A x) = 32"
    and "appraise A False c1 ev k1 p1 n1 t1 = Inr (Inr v1)" and "appraise A False c2 ev k2 p2 n2 t2 = Inr (Inr v2)"
  shows "k1 = k2 \<and> n1 = n2 \<or> collides (at_sha256 A) k1 k2 \<or>
    collides (at_sha512 A) (at_sha256 A k1 @ n1) (at_sha256 A k2 @ n2)"
proof -
  obtain tag1 ps1 st1 e1 where a1: "ev = evidence_encode tag1 (ps1 @ (case st1 of None \<Rightarrow> [] | Some s \<Rightarrow> [s]))"
      "list_all (\<lambda>q. length q < 2 ^ 32) (ps1 @ (case st1 of None \<Rightarrow> [] | Some s \<Rightarrow> [s]))"
      "genuine A p1 t1 tag1 ps1 e1" "claims_ok A p1 k1 n1 e1"
    using assms(3) unfolding appraise_iff appraise_claims_iff Let_def by blast
  obtain tag2 ps2 st2 e2 where a2: "ev = evidence_encode tag2 (ps2 @ (case st2 of None \<Rightarrow> [] | Some s \<Rightarrow> [s]))"
      "list_all (\<lambda>q. length q < 2 ^ 32) (ps2 @ (case st2 of None \<Rightarrow> [] | Some s \<Rightarrow> [s]))"
      "genuine A p2 t2 tag2 ps2 e2" "claims_ok A p2 k2 n2 e2"
    using assms(4) unfolding appraise_iff appraise_claims_iff Let_def by blast
  have "tag1 = tag2 \<and> ps1 @ (case st1 of None \<Rightarrow> [] | Some s \<Rightarrow> [s]) = ps2 @ (case st2 of None \<Rightarrow> [] | Some s \<Rightarrow> [s])"
    using a1(1,2) a2(1,2) encode_parts_inject by metis
  then have same: "tag1 = tag2" "ps1 = ps2" using genuine_tag [OF a1(3)] genuine_tag [OF a2(3)] by (auto simp: append_eq_append_conv)
  have "bind_report_data A k1 n1 = bind_report_data A k2 n2"
    using genuine_report_data [OF assms(1) a1(3), of p2 t2 e2] a2(3) same a1(4) a2(4) by (simp add: claims_ok_def)
  then show ?thesis using assms(2) [of k1] assms(2) [of k2] by (auto simp: bind_report_data_def collides_def append_eq_append_conv)
qed

text \<open>The sizes of the fields of a TD report.\<close>

definition td_sized :: "td_report \<Rightarrow> bytes option \<Rightarrow> bool" where
  "td_sized b s \<longleftrightarrow>
     length (td_td_attributes b) = 8 \<and> length (td_xfam b) = 8 \<and>
     list_all (\<lambda>x. length x = 48) [td_mr_td b, td_mr_config_id b, td_mr_owner b, td_mr_owner_config b, td_rt_mr0 b, td_rt_mr1 b,
       td_rt_mr2 b, td_rt_mr3 b] \<and> (case s of None \<Rightarrow> True | Some v \<Rightarrow> length v = 48)"

lemma tdx_identity_inject:
  assumes "td_sized b s" and "td_sized b' s'" and "tdx_identity b s = tdx_identity b' s'"
  shows "td_mr_td b = td_mr_td b' \<and> observed_policy b s = observed_policy b' s'"
  using assms
  by (auto simp: tdx_identity_def td_sized_def observed_policy_def append_eq_append_conv split: option.splits)

text \<open>
  The DCAP library returns a report only as its Rust types hold it: byte arrays of the sizes the TD report
  has. \<open>tdx_report\<close> is the report it gives for a quote.
\<close>

definition dcap_sized :: "('c, 'k) attest_lib \<Rightarrow> bool" where
  "dcap_sized A \<longleftrightarrow>
     (\<forall>a q k t v b s. at_dcap_verify A a q k t = Inr v \<longrightarrow> td_parts (vr_report v) = Inr (b, s) \<longrightarrow> td_sized b s)"

definition tdx_report :: "('c, 'k) attest_lib \<Rightarrow> bytes \<Rightarrow> bytes \<Rightarrow> u64 \<Rightarrow> tdx_policy \<Rightarrow> td_report \<Rightarrow> bytes option \<Rightarrow> bool" where
  "tdx_report A quote json now p b s \<longleftrightarrow>
     (\<exists>k v. at_collateral A json = Inr k \<and> at_dcap_verify A (tp_mr_service_td p \<noteq> None) quote k now = Inr v \<and>
        td_parts (vr_report v) = Inr (b, s))"

lemma tdx_verify_report:
  assumes "tdx_verify A quote json now p = Inr e"
  obtains b s where "tdx_report A quote json now p b s" and "p = observed_policy b s"
    and "ev_measurement e = at_sha384 A (tdx_identity b s)"
  using assms unfolding tdx_verify_iff tdx_report_def by (auto simp: observed_policy_def)

lemma tdx_report_sized: "dcap_sized A \<Longrightarrow> tdx_report A quote json now p b s \<Longrightarrow> td_sized b s"
  unfolding dcap_sized_def tdx_report_def by blast

text \<open>
  C17: the pinned TDX measurement fixes the whole workload. Take two verifications, of any quotes and
  collateral, at any times, against any policies, that succeed with the same measurement: the reports the
  DCAP library verified have the same launch digest and the two policies are the same policy, or the
  identities of the two reports are different inputs of SHA-384 with one digest. A Coordinator that keeps
  a pinned measurement cannot widen the policy.
\<close>

theorem tdx_measurement_binds_policy:
  assumes "dcap_sized A" and "tdx_verify A q1 j1 t1 p1 = Inr e1" and "tdx_verify A q2 j2 t2 p2 = Inr e2"
    and "ev_measurement e1 = ev_measurement e2"
  shows "\<exists>b1 s1 b2 s2. tdx_report A q1 j1 t1 p1 b1 s1 \<and> tdx_report A q2 j2 t2 p2 b2 s2 \<and>
    (td_mr_td b1 = td_mr_td b2 \<and> p1 = p2 \<or> collides (at_sha384 A) (tdx_identity b1 s1) (tdx_identity b2 s2))"
proof -
  obtain b1 s1 where r1: "tdx_report A q1 j1 t1 p1 b1 s1" "p1 = observed_policy b1 s1"
      "ev_measurement e1 = at_sha384 A (tdx_identity b1 s1)" using assms(2) by (rule tdx_verify_report)
  obtain b2 s2 where r2: "tdx_report A q2 j2 t2 p2 b2 s2" "p2 = observed_policy b2 s2"
      "ev_measurement e2 = at_sha384 A (tdx_identity b2 s2)" using assms(3) by (rule tdx_verify_report)
  have "td_mr_td b1 = td_mr_td b2 \<and> p1 = p2 \<or> collides (at_sha384 A) (tdx_identity b1 s1) (tdx_identity b2 s2)"
    using tdx_identity_inject [OF tdx_report_sized [OF assms(1) r1(1)] tdx_report_sized [OF assms(1) r2(1)]] r1 r2 assms(4)
    by (auto simp: collides_def)
  then show ?thesis using r1(1) r2(1) by blast
qed

text \<open>
  C18: what the release tool publishes is what clients accept. For a candidate identity taken from a
  quote, the same quote and collateral at the same time verify against the candidate's policy, with
  its measurement and an up-to-date platform.
\<close>

theorem identity_candidate_accepted:
  assumes "dcap_ok A" and "verified_identity_candidate A quote json now = Inr c"
  shows "\<exists>e. tdx_verify A quote json now (ic_policy c) = Inr e \<and> ev_measurement e = ic_measurement c \<and> ev_tcb_status e = UpToDate"
proof -
  obtain k vr b s where c: "prevalidate_quote quote = Inr ()" "at_collateral A json = Inr k" "at_dcap_verify A True quote k now = Inr vr"
      "strict_tcb_status (vr_status vr) (vr_advisory_ids vr) = UpToDate" "td_parts (vr_report vr) = Inr (b, s)"
      "tdx_appraise_report A (vr_report vr) (observed_policy b s) = Inr (ic_measurement c)" "ic_policy c = observed_policy b s"
    using assms(2) by (auto simp: verified_identity_candidate_def parse_collateral_def verify_dcap_def Let_def split: if_splits)
  have "at_dcap_verify A (s \<noteq> None) quote k now = Inr vr"
  proof (cases s)
    case None
    then have "\<exists>td. vr_report vr = TD10 td" using c(5) by (auto simp: td_parts_def split: quote_report.splits)
    then show ?thesis using assms(1) c(3) unfolding dcap_ok_def by blast
  qed (use c(3) in simp)
  with c have "tdx_verify A quote json now (ic_policy c) =
      Inr \<lparr>ev_tee = Tdx, ev_measurement = ic_measurement c, ev_report_data = td_report_data b, ev_tcb_status = UpToDate\<rparr>"
    by (simp add: tdx_verify_def parse_collateral_def verify_dcap_def observed_policy_def)
  then show ?thesis by simp
qed

section \<open>Concrete evidence\<close>

text \<open>A platform whose verifiers accept one report and one quote, for evaluating the hypotheses.\<close>

definition demo_tcb :: tcb_version where
  "demo_tcb = \<lparr>tv_fmc = None, tv_bootloader = 3, tv_tee = 0, tv_snp = 8, tv_microcode = 115\<rparr>"

definition demo_snp :: snp_report where
  "demo_snp = \<lparr>sr_debug_allowed = False, sr_migrate_ma_allowed = False, sr_current_tcb = demo_tcb, sr_committed_tcb = demo_tcb,
     sr_measurement = replicate 48 5, sr_report_data = replicate 64 2\<rparr>"

definition demo_td :: td_report where
  "demo_td = \<lparr>td_td_attributes = replicate 8 0, td_xfam = replicate 8 1, td_mr_td = replicate 48 6, td_mr_config_id = replicate 48 0,
     td_mr_owner = replicate 48 0, td_mr_owner_config = replicate 48 0, td_rt_mr0 = replicate 48 1, td_rt_mr1 = replicate 48 2,
     td_rt_mr2 = replicate 48 3, td_rt_mr3 = replicate 48 4, td_report_data = replicate 64 2\<rparr>"

definition demo_attest :: "(unit, unit) attest_lib" where
  "demo_attest = \<lparr>at_sha256 = (\<lambda>x. replicate 32 1), at_sha384 = (\<lambda>x. replicate 48 3), at_sha512 = (\<lambda>x. replicate 64 2),
     at_snp_from_bytes = (\<lambda>x. Inr demo_snp), at_cert_from_der = (\<lambda>x. Inr ()),
     at_ark = (\<lambda>g. if g = Genoa then Some () else None), at_ask = (\<lambda>g. Some ()),
     at_snp_verify = (\<lambda>ark ask vek r. Inr ()), at_tcb_less = (\<lambda>a b. False), at_collateral = (\<lambda>x. Inr ()),
     at_dcap_verify = (\<lambda>a q k t. Inr \<lparr>vr_status = lit ''UpToDate'', vr_advisory_ids = [], vr_report = TD10 demo_td\<rparr>),
     at_log = \<lparr>ll_sha256 = (\<lambda>x. x), ll_key_ok = (\<lambda>x. True), ll_sig_ok = (\<lambda>x. True), ll_verify = (\<lambda>k m s. True), ll_base64 = (\<lambda>x. x)\<rparr>,
     at_ed_public = (\<lambda>x. x), at_ed_sign = (\<lambda>k m. replicate 64 0), at_ed_signature_ok = (\<lambda>x. True), at_ed_verify = (\<lambda>k m s. True)\<rparr>"

definition demo_policy :: appraisal_policy where
  "demo_policy = (policy_new SevSnp (replicate 48 5))\<lparr>ap_tls_spki_sha256 := Some (replicate 32 1)\<rparr>"

lemma demo_dcap_ok [simp]: "dcap_ok demo_attest"
  by (simp add: dcap_ok_def demo_attest_def)

lemma demo_genuine:
  "genuine demo_attest demo_policy now TAG_SEVSNP [r, v]
     \<lparr>ev_tee = SevSnp, ev_measurement = replicate 48 5, ev_report_data = replicate 64 2, ev_tcb_status = UpToDate\<rparr>"
  unfolding genuine_snp_iff snp_verify_iff
  by (simp add: demo_attest_def demo_policy_def policy_new_def demo_snp_def snp_tcb_status_def amd_verified_def Let_def)

lemma demo_appraise:
  assumes "length r < 2 ^ 32" and "length v < 2 ^ 32"
  shows "appraise demo_attest False checks (evidence_encode TAG_SEVSNP [r, v]) spki demo_policy nonce now =
    Inr (Inr \<lparr>vd_tee = SevSnp, vd_measurement = replicate 48 5, vd_tcb_status = UpToDate\<rparr>)"
  unfolding appraise_iff appraise_claims_iff Let_def
  using assms demo_genuine [of now r v]
  by (intro exI [of _ "\<lparr>ev_tee = SevSnp, ev_measurement = replicate 48 5, ev_report_data = replicate 64 2, ev_tcb_status = UpToDate\<rparr>"]
      exI [of _ None] conjI exI [of _ TAG_SEVSNP] exI [of _ "[r, v]"])
    (simp_all add: claims_ok_def logged_under_def demo_policy_def policy_new_def demo_attest_def bind_report_data_def)

theorem evidence_is_fresh_witness:
  "appraise demo_attest False True (evidence_encode TAG_SEVSNP [[7], [8]]) [1] demo_policy [2] 0 =
     Inr (Inr \<lparr>vd_tee = SevSnp, vd_measurement = replicate 48 5, vd_tcb_status = UpToDate\<rparr>) \<and>
   (([1 :: byte] = [1] \<and> [2 :: byte] = [2]) \<or> collides (at_sha256 demo_attest) [1] [1] \<or>
    collides (at_sha512 demo_attest) (at_sha256 demo_attest [1] @ [2]) (at_sha256 demo_attest [1] @ [2]))"
  using evidence_is_fresh [of demo_attest True "evidence_encode TAG_SEVSNP [[7], [8]]" "[1]" demo_policy "[2]" 0
      "\<lparr>vd_tee = SevSnp, vd_measurement = replicate 48 5, vd_tcb_status = UpToDate\<rparr>" True "[1]" demo_policy "[2]" 0
      "\<lparr>vd_tee = SevSnp, vd_measurement = replicate 48 5, vd_tcb_status = UpToDate\<rparr>"]
    demo_appraise [of "[7]" "[8]" True "[1]" "[2]" 0]
  by (simp add: demo_attest_def)

lemma demo_tdx_appraise:
  "tdx_appraise_report demo_attest (TD10 demo_td) (observed_policy demo_td None) = Inr (replicate 48 3)"
  by (simp add: tdx_appraise_iff td_parts_def debug_off_def registers_set_def demo_td_def demo_attest_def list_all_iff)

definition demo_quote :: bytes where
  "demo_quote = [4, 0, 0, 0, 0x81, 0, 0, 0] @ replicate 624 0"

lemma demo_prevalidate: "prevalidate_quote demo_quote = Inr ()"
  by (simp add: prevalidate_quote_def demo_quote_def HEADER_BYTE_LEN_def TD_REPORT10_BYTE_LEN_def ALLOWED_TDX_QUOTE_VERSIONS_def
      TEE_TYPE_TDX_def of_le_def of_be_def nat_of_be_def Let_def nth_append)

text \<open>
  A library with a broken SHA-384 that verifies two quotes of different workloads: both verify with one
  measurement against different policies, and the collision is that of their identities.
\<close>

definition demo_td2 :: td_report where
  "demo_td2 = demo_td\<lparr>td_mr_config_id := replicate 48 9\<rparr>"

definition demo_attest2 :: "(unit, unit) attest_lib" where
  "demo_attest2 = demo_attest\<lparr>at_dcap_verify := (\<lambda>a q k t. Inr \<lparr>vr_status = lit ''UpToDate'', vr_advisory_ids = [],
     vr_report = TD10 (if q = demo_quote then demo_td else demo_td2)\<rparr>)\<rparr>"

lemma demo_prevalidate2: "prevalidate_quote (demo_quote @ [0]) = Inr ()"
  by (simp add: prevalidate_quote_def demo_quote_def HEADER_BYTE_LEN_def TD_REPORT10_BYTE_LEN_def ALLOWED_TDX_QUOTE_VERSIONS_def
      TEE_TYPE_TDX_def of_le_def of_be_def nat_of_be_def Let_def nth_append)

lemma demo_dcap_sized: "dcap_sized demo_attest2"
  by (auto simp: dcap_sized_def demo_attest2_def td_parts_def td_sized_def demo_td2_def demo_td_def)

lemma demo_verify2:
  "\<exists>e. tdx_verify demo_attest2 demo_quote [] 0 (observed_policy demo_td None) = Inr e \<and> ev_measurement e = replicate 48 3"
  "\<exists>e. tdx_verify demo_attest2 (demo_quote @ [0]) [] 0 (observed_policy demo_td2 None) = Inr e \<and> ev_measurement e = replicate 48 3"
  unfolding tdx_verify_iff
  by (simp_all add: demo_prevalidate demo_prevalidate2 demo_attest2_def demo_attest_def td_parts_def debug_off_def
      registers_set_def observed_policy_def demo_td2_def list_all_iff) (simp_all add: demo_td_def)

theorem tdx_measurement_binds_policy_witness:
  "\<exists>b1 s1 b2 s2. tdx_report demo_attest2 demo_quote [] 0 (observed_policy demo_td None) b1 s1 \<and>
     tdx_report demo_attest2 (demo_quote @ [0]) [] 0 (observed_policy demo_td2 None) b2 s2 \<and>
     observed_policy demo_td None \<noteq> observed_policy demo_td2 None \<and>
     collides (at_sha384 demo_attest2) (tdx_identity b1 s1) (tdx_identity b2 s2)"
proof -
  obtain e1 e2 where e: "tdx_verify demo_attest2 demo_quote [] 0 (observed_policy demo_td None) = Inr e1"
      "tdx_verify demo_attest2 (demo_quote @ [0]) [] 0 (observed_policy demo_td2 None) = Inr e2"
      "ev_measurement e1 = ev_measurement e2"
    using demo_verify2 by (metis (full_types))
  have n: "observed_policy demo_td None \<noteq> observed_policy demo_td2 None"
    by (simp add: observed_policy_def demo_td_def demo_td2_def)
  show ?thesis using tdx_measurement_binds_policy [OF demo_dcap_sized e] n by blast
qed

lemma demo_candidate:
  "verified_identity_candidate demo_attest demo_quote [] now =
     Inr \<lparr>ic_mr_td = replicate 48 6, ic_policy = observed_policy demo_td None, ic_measurement = replicate 48 3\<rparr>"
  using demo_tdx_appraise
  by (simp add: verified_identity_candidate_def demo_prevalidate parse_collateral_def verify_dcap_def strict_tcb_status_def
      demo_attest_def td_parts_def Let_def) (simp add: demo_td_def)

theorem identity_candidate_accepted_witness:
  "\<exists>e. tdx_verify demo_attest demo_quote [] 9 (observed_policy demo_td None) = Inr e \<and> ev_measurement e = replicate 48 3 \<and>
     ev_tcb_status e = UpToDate"
  using identity_candidate_accepted [OF demo_dcap_ok demo_candidate [of 9]] by simp

end
