(* ===== verification/Attest_Gate.thy ===== *)
theory Attest_Gate
  imports Attest Coord_Config
begin

text \<open>
  The two ends of an attested connection: the node's report provider (nil-node/src/attest.rs and
  hw.rs, over the kernel's TSM interface) and the gate of the MASQUE client
  (\<open>policy_for\<close>, \<open>attest_peer\<close> and \<open>unattested_gate\<close> of nil-transport/src/masque/mod.rs). The kernel, the
  provisioned files and the certificate parser are parameters. \<open>release\<close> is \<open>!cfg!(debug_assertions)\<close>.
\<close>

section \<open>The node\<close>

record node_attest =
  na_tee :: tee
  na_measurement :: bytes

definition parse_attestation :: "bytes \<Rightarrow> bytes \<Rightarrow> string + node_attest" where
  "parse_attestation raw t =
     bindE (ok_or ''NW_NODE_MEASUREMENT must be hex'' (connectip_from_hex (trim raw))) (\<lambda>bs.
     if length bs \<noteq> 48 then Inl ''NW_NODE_MEASUREMENT must be exactly 48 bytes of hex''
     else
     bindE (if t = lit ''sev-snp'' then Inr SevSnp else if t = lit ''tdx'' then Inr Tdx
            else Inl ''NW_NODE_TEE must be one of: sev-snp, tdx'') (\<lambda>k.
     Inr \<lparr>na_tee = k, na_measurement = bs\<rparr>))"

definition node_attest_from_env :: "environment \<Rightarrow> string + node_attest option" where
  "node_attest_from_env env =
     (case (env_var env ''NW_NODE_MEASUREMENT'', env_var env ''NW_NODE_TEE'') of
        (EnvNotPresent, EnvNotPresent) \<Rightarrow> Inr None
      | (EnvOk raw, EnvOk t) \<Rightarrow> bindE (parse_attestation raw t) (\<lambda>a. Inr (Some a))
      | (EnvNotPresent, EnvOk _) \<Rightarrow> Inl ''NW_NODE_TEE requires NW_NODE_MEASUREMENT''
      | (EnvOk _, EnvNotPresent) \<Rightarrow> Inl ''NW_NODE_MEASUREMENT requires explicit NW_NODE_TEE''
      | (EnvOk _, EnvNotUnicode) \<Rightarrow> Inl ''NW_NODE_TEE''
      | _ \<Rightarrow> Inl ''NW_NODE_MEASUREMENT'')"

definition MAX_VCEK_BYTES :: nat where "MAX_VCEK_BYTES = 64 * 1024"
definition MAX_TDX_COLLATERAL_BYTES :: nat where "MAX_TDX_COLLATERAL_BYTES = 4 * 1024 * 1024"
definition MAX_TRANSPARENCY_PROOF_BYTES :: nat where "MAX_TRANSPARENCY_PROOF_BYTES = 256 * 1024"

definition read_bounded_regular :: "key_files \<Rightarrow> bytes \<Rightarrow> nat \<Rightarrow> string + bytes" where
  "read_bounded_regular files p max_bytes =
     bindE (ok_or ''open'' (files p)) (\<lambda>f.
     if \<not> kf_is_file f then Inl ''not a regular file''
     else if kf_len f = 0 \<or> kf_len f > max_bytes then Inl ''size out of bounds''
     else
     bindE (ok_or ''read'' (kf_contents f)) (\<lambda>contents.
     let bs = take (max_bytes + 1) contents in
     if bs = [] \<or> length bs > max_bytes then Inl ''changed size while reading'' else Inr bs))"

definition transparency_bundle :: "environment \<Rightarrow> key_files \<Rightarrow> string + bytes option" where
  "transparency_bundle env files =
     (case env_ok env ''NW_TRANSPARENCY_BUNDLE'' of
        Some p \<Rightarrow> bindE (read_bounded_regular files p MAX_TRANSPARENCY_PROOF_BYTES) (\<lambda>bs. Inr (Some bs))
      | None \<Rightarrow> Inr None)"

text \<open>
  The kernel's report directory: whether a slot can be created, whether the request can be written,
  and what reading the report gives for a request.
\<close>

record tsm =
  tsm_create :: bool
  tsm_write :: bool
  tsm_outblob :: "bytes \<Rightarrow> bytes option"

definition fetch_outblob :: "tsm \<Rightarrow> bytes \<Rightarrow> string + bytes" where
  "fetch_outblob K report_data =
     (if \<not> tsm_create K then Inl ''create''
      else if \<not> tsm_write K then Inl ''write inblob (report_data)''
      else
      bindE (ok_or ''read outblob (report)'' (tsm_outblob K report_data)) (\<lambda>outblob.
      if outblob = [] then Inl ''configfs-TSM returned an empty report'' else Inr outblob))"

text \<open>The tag and the artefact for offline verification of each TEE.\<close>

definition provisioned :: "environment \<Rightarrow> key_files \<Rightarrow> tee \<Rightarrow> string + (byte \<times> bytes)" where
  "provisioned env files t =
     (case t of
        SevSnp \<Rightarrow>
          bindE (ok_or ''NW_VCEK_PATH unset'' (env_ok env ''NW_VCEK_PATH'')) (\<lambda>p.
          bindE (read_bounded_regular files p MAX_VCEK_BYTES) (\<lambda>vcek. Inr (TAG_SEVSNP, vcek)))
      | Tdx \<Rightarrow>
          bindE (ok_or ''NW_TDX_COLLATERAL unset'' (env_ok env ''NW_TDX_COLLATERAL'')) (\<lambda>p.
          bindE (read_bounded_regular files p MAX_TDX_COLLATERAL_BYTES) (\<lambda>collateral. Inr (TAG_TDX, collateral))))"

definition report_evidence ::
  "('c, 'k) attest_lib \<Rightarrow> environment \<Rightarrow> key_files \<Rightarrow> tsm \<Rightarrow> tee \<Rightarrow> bytes \<Rightarrow> bytes \<Rightarrow> string + bytes" where
  "report_evidence A env files K t spki nonce =
     bindE (fetch_outblob K (bind_report_data A spki nonce)) (\<lambda>outblob.
     bindE (transparency_bundle env files) (\<lambda>stapled.
     bindE (provisioned env files t) (\<lambda>(tag, artefact).
     Inr (evidence_encode tag ([outblob, artefact] @ (case stapled of None \<Rightarrow> [] | Some pf \<Rightarrow> [pf]))))))"

definition synthetic_evidence :: "('c, 'k) attest_lib \<Rightarrow> tee \<Rightarrow> bytes \<Rightarrow> bytes \<Rightarrow> bytes \<Rightarrow> bytes" where
  "synthetic_evidence A t measurement spki nonce =
     evidence_encode TAG_SYNTHETIC [synthetic_sign A t measurement (bind_report_data A spki nonce)]"

text \<open>The features \<open>hw-attest\<close> and \<open>synthetic-attest\<close> exclude each other; a build has at most one.\<close>

datatype provider = NoProvider | HardwareProvider | SyntheticProvider

definition report_hex ::
  "('c, 'k) attest_lib \<Rightarrow> provider \<Rightarrow> environment \<Rightarrow> key_files \<Rightarrow> tsm \<Rightarrow> bytes \<Rightarrow> node_attest option \<Rightarrow> bytes \<Rightarrow> bytes option" where
  "report_hex A prov env files K spki attest nonce =
     (case attest of
        None \<Rightarrow> None
      | Some a \<Rightarrow>
          (case prov of
             SyntheticProvider \<Rightarrow> Some (connectip_to_hex (synthetic_evidence A (na_tee a) (na_measurement a) spki nonce))
           | HardwareProvider \<Rightarrow>
               (case report_evidence A env files K (na_tee a) spki nonce of
                  Inr ev \<Rightarrow> Some (connectip_to_hex ev)
                | Inl _ \<Rightarrow> None)
           | NoProvider \<Rightarrow> None))"

section \<open>The client\<close>

record attest_expectation =
  ae_tee :: tee
  ae_measurement :: bytes
  ae_tls_spki_sha256 :: "bytes option"
  ae_min_tcb_sevsnp :: "tcb_floor option"
  ae_tdx_policy :: "tdx_policy option"
  ae_transparency_log_key :: "bytes option"

datatype transport_kind = KMasque | KAmneziaWg | KWstunnel | KReality | KLoopback

record node_endpoint =
  ne_host :: bytes
  ne_port :: u16
  ne_kind :: transport_kind
  ne_wg_pub :: "bytes option"
  ne_expected :: "attest_expectation option"
  ne_grant :: "grant option"

definition policy_for :: "node_endpoint \<Rightarrow> appraisal_policy option" where
  "policy_for target =
     map_option (\<lambda>e. (policy_new (ae_tee e) (ae_measurement e))
       \<lparr>ap_tls_spki_sha256 := ae_tls_spki_sha256 e, ap_min_tcb_sevsnp := ae_min_tcb_sevsnp e,
        ap_tdx_policy := ae_tdx_policy e, ap_transparency_log_key := ae_transparency_log_key e\<rparr>) (ne_expected target)"

definition ATTEST_NONCE_HEADER :: bytes where "ATTEST_NONCE_HEADER = lit ''nil-attest-nonce''"
definition ATTEST_REPORT_HEADER :: bytes where "ATTEST_REPORT_HEADER = lit ''nil-attest-report''"

definition header_value :: "headers \<Rightarrow> bytes \<Rightarrow> bytes option" where
  "header_value hs name = map_option snd (find (\<lambda>h. fst h = name) hs)"

datatype gate_error =
    NoTlsPin | NoCertificate | BadCertificate bytes | NoReport | BadReportHeader | AppraisalFailed attest_error | Unattested

definition unattested_gate :: "bool \<Rightarrow> bool \<Rightarrow> gate_error + unit" where
  "unattested_gate release allow_unattested =
     (if release then Inl Unattested else if allow_unattested then Inr () else Inl Unattested)"

definition attest_peer ::
  "('c, 'k) attest_lib \<Rightarrow> (bytes \<Rightarrow> bytes + bytes) \<Rightarrow> bool \<Rightarrow> bool \<Rightarrow> bool \<Rightarrow> bytes option \<Rightarrow> headers \<Rightarrow>
   appraisal_policy option \<Rightarrow> bool \<Rightarrow> bytes \<Rightarrow> u64 \<Rightarrow> panic + (gate_error + unit)" where
  "attest_peer A spki_of synthetic release checks peer_cert hs policy allow_unattested nonce now =
     (case policy of
        None \<Rightarrow> Inr (unattested_gate release allow_unattested)
      | Some p \<Rightarrow>
          if release \<and> ap_tls_spki_sha256 p = None then Inr (Inl NoTlsPin)
          else
          (case peer_cert of
             None \<Rightarrow> Inr (Inl NoCertificate)
           | Some cert \<Rightarrow>
               (case spki_of cert of
                  Inl e \<Rightarrow> Inr (Inl (BadCertificate e))
                | Inr spki \<Rightarrow>
                    (case header_value hs ATTEST_REPORT_HEADER of
                       None \<Rightarrow> Inr (Inl NoReport)
                     | Some hex \<Rightarrow>
                         (case connectip_from_hex hex of
                            None \<Rightarrow> Inr (Inl BadReportHeader)
                          | Some ev \<Rightarrow>
                              bindE (appraise A synthetic checks ev spki p nonce now) (\<lambda>r.
                              Inr (bindE (map_err AppraisalFailed r) (\<lambda>_. Inr ()))))))))"

section \<open>A node's evidence at the client\<close>

lemma read_bounded_length: "read_bounded_regular files p n = Inr bs \<Longrightarrow> bs \<noteq> [] \<and> length bs \<le> n"
  by (auto simp: read_bounded_regular_def Let_def split: if_splits)

lemma provisioned_Inr:
  assumes "provisioned env files t = Inr (tag, artefact)"
  shows "tag = (case t of SevSnp \<Rightarrow> TAG_SEVSNP | Tdx \<Rightarrow> TAG_TDX) \<and> length artefact < 2 ^ 32"
  using assms
  by (auto simp: provisioned_def MAX_VCEK_BYTES_def MAX_TDX_COLLATERAL_BYTES_def split: tee.splits dest!: read_bounded_length)

lemma transparency_bundle_length: "transparency_bundle env files = Inr (Some pf) \<Longrightarrow> length pf < 2 ^ 32"
  by (auto simp: transparency_bundle_def MAX_TRANSPARENCY_PROOF_BYTES_def split: option.splits dest!: read_bounded_length)

lemma report_hex_hardware:
  "report_hex A HardwareProvider env files K spki (Some a) nonce = Some hex \<longleftrightarrow>
     (\<exists>outblob stapled tag artefact.
        fetch_outblob K (bind_report_data A spki nonce) = Inr outblob \<and> transparency_bundle env files = Inr stapled \<and>
        provisioned env files (na_tee a) = Inr (tag, artefact) \<and>
        hex = connectip_to_hex (evidence_encode tag ([outblob, artefact] @ (case stapled of None \<Rightarrow> [] | Some pf \<Rightarrow> [pf]))))"
  by (auto simp: report_hex_def report_evidence_def split: sum.splits; fastforce)

lemma attest_peer_iff:
  "attest_peer A spki_of synthetic True checks peer_cert hs policy allow nonce now = Inr (Inr ()) \<longleftrightarrow>
     (\<exists>p cert spki d hex ev v.
        policy = Some p \<and> peer_cert = Some cert \<and> spki_of cert = Inr spki \<and> ap_tls_spki_sha256 p = Some d \<and>
        header_value hs ATTEST_REPORT_HEADER = Some hex \<and> connectip_from_hex hex = Some ev \<and>
        appraise A synthetic checks ev spki p nonce now = Inr (Inr v))"
  by (auto simp: attest_peer_def unattested_gate_def split: option.splits sum.splits)

text \<open>
  C14: a release client only talks to an attested node. When the gate of a release build opens, the
  endpoint had an expectation with a TLS pin, the certificate's key has the pinned digest, and the node
  returned genuine evidence with the pinned TEE and measurement whose report data binds that key and
  the nonce of this connection; no flag of the environment opens it otherwise.
\<close>

theorem release_gate_attests:
  assumes "attest_peer A spki_of False True checks peer_cert hs policy allow nonce now = Inr (Inr ())"
  shows "\<exists>p cert spki hex tag parts stapled e.
    policy = Some p \<and> peer_cert = Some cert \<and> spki_of cert = Inr spki \<and> ap_tls_spki_sha256 p = Some (at_sha256 A spki) \<and>
    header_value hs ATTEST_REPORT_HEADER = Some hex \<and> connectip_from_hex hex = Some (evidence_encode tag (parts @ stapled)) \<and>
    genuine A p now tag parts e \<and> ev_report_data e = bind_report_data A spki nonce \<and>
    ev_tee e = ap_tee p \<and> ev_measurement e = ap_expected_measurement p"
proof -
  obtain p cert spki d hex ev v where g: "policy = Some p" "peer_cert = Some cert" "spki_of cert = Inr spki"
      "ap_tls_spki_sha256 p = Some d" "header_value hs ATTEST_REPORT_HEADER = Some hex" "connectip_from_hex hex = Some ev"
      "appraise A False checks ev spki p nonce now = Inr (Inr v)"
    using assms unfolding attest_peer_iff by blast
  from g(7) obtain tag parts stapled e where "ev = evidence_encode tag (parts @ (case stapled of None \<Rightarrow> [] | Some s \<Rightarrow> [s]))"
      "genuine A p now tag parts e" "claims_ok A p spki nonce e"
    unfolding appraise_iff appraise_claims_iff Let_def by blast
  with g show ?thesis
    by (intro exI [of _ p] exI [of _ cert] exI [of _ spki] exI [of _ hex] exI [of _ tag] exI [of _ parts]
        exI [of _ "case stapled of None \<Rightarrow> [] | Some s \<Rightarrow> [s]"] exI [of _ e]) (simp add: claims_ok_def)
qed

text \<open>
  C15: an honest hardware node gets through. When the node answers a nonce with a report header, the
  kernel put the requested report data into a report that the vendor verifier accepts with the
  provisioned artefact, and measurement, patch level, TLS key and log are the ones the endpoint
  expects, the client's gate opens.
\<close>

theorem hardware_node_accepted:
  assumes "report_hex A HardwareProvider env files K spki (Some a) nonce = Some hex"
    and "header_value hs ATTEST_REPORT_HEADER = Some hex" and "spki_of cert = Inr spki"
    and "policy_for target = Some p" and "ap_tls_spki_sha256 p = Some (at_sha256 A spki)" and "na_tee a = ap_tee p"
    and "fetch_outblob K (bind_report_data A spki nonce) = Inr outblob" and "length outblob < 2 ^ 32"
    and "provisioned env files (na_tee a) = Inr (tag, artefact)" and "transparency_bundle env files = Inr stapled"
    and "genuine A p now tag [outblob, artefact] e" and "ev_report_data e = bind_report_data A spki nonce"
    and "ev_measurement e = ap_expected_measurement p" and "ev_tcb_status e = UpToDate"
    and "logged_under A checks (ap_transparency_log_key p) (ap_expected_measurement p) stapled"
  shows "attest_peer A spki_of False True checks (Some cert) hs (policy_for target) allow nonce now = Inr (Inr ())"
proof -
  let ?all = "[outblob, artefact] @ (case stapled of None \<Rightarrow> [] | Some s \<Rightarrow> [s])"
  have hex: "connectip_from_hex hex = Some (evidence_encode tag ?all)"
    using assms(1,7,9,10) by (auto simp: report_hex_hardware connectip_hex_eq)
  have tag: "tag = (case ap_tee p of SevSnp \<Rightarrow> TAG_SEVSNP | Tdx \<Rightarrow> TAG_TDX)" "length artefact < 2 ^ 32"
    using provisioned_Inr [OF assms(9)] assms(6) by auto
  have len: "list_all (\<lambda>q. length q < 2 ^ 32) ?all"
    using tag(2) assms(8) transparency_bundle_length [of env files] assms(10) by (auto split: option.splits)
  have tee: "ev_tee e = ap_tee p" using genuine_tee [OF assms(11)] tag(1) by (cases "ap_tee p") auto
  have "claims_ok A p spki nonce e" using assms(5,12-14) tee by (simp add: claims_ok_def)
  then have c: "appraise_claims A False (evidence_encode tag ?all) spki p nonce now = Inr (e, stapled)"
    unfolding appraise_claims_iff Let_def using assms(11) len by blast
  have "transparency_gate A checks (ap_transparency_log_key p) (ev_measurement e) stapled = Inr (Inr ())"
    unfolding transparency_gate_iff using assms(13,15) by simp
  with c obtain v where "appraise A False checks (evidence_encode tag ?all) spki p nonce now = Inr (Inr v)"
    by (simp add: appraise_def)
  then show ?thesis unfolding attest_peer_iff using assms(2-5) hex by blast
qed

section \<open>A node and a client at work\<close>

definition demo_env :: environment where
  "demo_env name = (if name = ''NW_VCEK_PATH'' then Some [112] else None)"

definition demo_files :: key_files where
  "demo_files p = (if p = [112] then Some \<lparr>kf_is_file = True, kf_len = 1, kf_mode = 0, kf_contents = Some [8]\<rparr> else None)"

definition demo_tsm :: tsm where
  "demo_tsm = \<lparr>tsm_create = True, tsm_write = True, tsm_outblob = (\<lambda>rd. Some [7])\<rparr>"

definition demo_target :: node_endpoint where
  "demo_target = \<lparr>ne_host = [110], ne_port = 443, ne_kind = KMasque, ne_wg_pub = None,
     ne_expected = Some \<lparr>ae_tee = SevSnp, ae_measurement = replicate 48 5, ae_tls_spki_sha256 = Some (replicate 32 1),
       ae_min_tcb_sevsnp = None, ae_tdx_policy = None, ae_transparency_log_key = None\<rparr>,
     ne_grant = None\<rparr>"

definition demo_node :: node_attest where
  "demo_node = \<lparr>na_tee = SevSnp, na_measurement = replicate 48 5\<rparr>"

definition demo_report_header :: bytes where
  "demo_report_header = connectip_to_hex (evidence_encode TAG_SEVSNP [[7], [8]])"

lemma demo_provisioned:
  "provisioned demo_env demo_files SevSnp = Inr (TAG_SEVSNP, [8])" "transparency_bundle demo_env demo_files = Inr None"
  "fetch_outblob demo_tsm rd = Inr [7]"
  by (simp_all add: provisioned_def transparency_bundle_def fetch_outblob_def read_bounded_regular_def demo_env_def demo_files_def
      demo_tsm_def env_ok_def env_var_def MAX_VCEK_BYTES_def Let_def)

lemma demo_report_hex:
  "report_hex demo_attest HardwareProvider demo_env demo_files demo_tsm spki (Some demo_node) nonce = Some demo_report_header"
  by (simp add: report_hex_hardware demo_provisioned demo_node_def demo_report_header_def)

lemma demo_policy_for: "policy_for demo_target = Some demo_policy"
  by (simp add: policy_for_def demo_target_def demo_policy_def policy_new_def)

lemma demo_claims:
  "ap_tls_spki_sha256 demo_policy = Some (at_sha256 demo_attest spki)" "ap_tee demo_policy = SevSnp"
  "bind_report_data demo_attest spki nonce = replicate 64 2" "ap_expected_measurement demo_policy = replicate 48 5"
  "ap_transparency_log_key demo_policy = None"
  by (simp_all add: demo_policy_def policy_new_def demo_attest_def bind_report_data_def)

theorem hardware_node_accepted_witness:
  "attest_peer demo_attest (\<lambda>c. Inr c) False True True (Some [48]) [(ATTEST_REPORT_HEADER, demo_report_header)]
     (policy_for demo_target) False (replicate 32 9) 0 = Inr (Inr ())"
  by (rule hardware_node_accepted [OF demo_report_hex [of "[48]" "replicate 32 9"] _ _ demo_policy_for _ _ demo_provisioned(3) _ _
        demo_provisioned(2) demo_genuine [of 0 "[7]" "[8]"]])
    (simp_all add: header_value_def demo_claims demo_node_def demo_provisioned logged_under_def)

theorem release_gate_attests_witness:
  "\<exists>p cert spki hex tag parts stapled e.
    policy_for demo_target = Some p \<and> Some [48] = Some cert \<and> (Inr cert :: bytes + bytes) = Inr spki \<and>
    ap_tls_spki_sha256 p = Some (at_sha256 demo_attest spki) \<and>
    header_value [(ATTEST_REPORT_HEADER, demo_report_header)] ATTEST_REPORT_HEADER = Some hex \<and>
    connectip_from_hex hex = Some (evidence_encode tag (parts @ stapled)) \<and>
    genuine demo_attest p 0 tag parts e \<and> ev_report_data e = bind_report_data demo_attest spki (replicate 32 9) \<and>
    ev_tee e = ap_tee p \<and> ev_measurement e = ap_expected_measurement p"
proof -
  have "appraise demo_attest False True (evidence_encode TAG_SEVSNP [[7], [8]]) [48] demo_policy (replicate 32 9) 0 =
      Inr (Inr \<lparr>vd_tee = SevSnp, vd_measurement = replicate 48 5, vd_tcb_status = UpToDate\<rparr>)"
    by (rule demo_appraise) simp_all
  then have "attest_peer demo_attest (\<lambda>c. Inr c) False True True (Some [48]) [(ATTEST_REPORT_HEADER, demo_report_header)]
     (policy_for demo_target) False (replicate 32 9) 0 = Inr (Inr ())"
    unfolding attest_peer_iff
    by (auto simp: demo_policy_for demo_claims(1) [of "[48]"] header_value_def demo_report_header_def connectip_hex_eq)
  from release_gate_attests [OF this] show ?thesis .
qed

end
