(* ===== verification/Retry_Token.thy ===== *)
theory Retry_Token
  imports Coord_Config
begin

unbundle bit_operations_syntax

text \<open>
  Source-address validation of the node's QUIC listener (nil-node/src/retry.rs): stateless tokens that
  bind a client's address and the connection identifier of its first packet under an HMAC with a
  per-process key. SHA-256 is a parameter; the HMAC construction is the module's own.
\<close>

section \<open>Tokens\<close>

definition TOKEN_TAG :: bytes where "TOKEN_TAG = lit ''nil-quic-retry-v1''"
definition MAC_LEN :: nat where "MAC_LEN = 16"

definition hmac_block :: nat where "hmac_block = 64"

definition hmac_key :: "(bytes \<Rightarrow> bytes) \<Rightarrow> bytes \<Rightarrow> bytes" where
  "hmac_key sha256 key =
     (let k0 = replicate hmac_block 0 in
      if length key > hmac_block then copy_at 0 (sha256 key) k0 else copy_at 0 key k0)"

definition hmac_sha256 :: "(bytes \<Rightarrow> bytes) \<Rightarrow> bytes \<Rightarrow> bytes \<Rightarrow> bytes" where
  "hmac_sha256 sha256 key msg =
     (let k0 = hmac_key sha256 key;
          ipad = map (\<lambda>i. 0x36 XOR k0 ! i) [0..<hmac_block];
          opad = map (\<lambda>i. 0x5c XOR k0 ! i) [0..<hmac_block];
          inner = sha256 (ipad @ msg)
      in sha256 (opad @ inner))"

definition ipv6_octets :: "ipv6addr \<Rightarrow> bytes" where
  "ipv6_octets a = concat (map (to_be 2) (v6_segments a))"

fun addr_bytes :: "socket_addr \<Rightarrow> bytes" where
  "addr_bytes (SockV4 ip port) = 4 # ipv4_octets ip @ to_be 2 port"
| "addr_bytes (SockV6 ip scope port) = 6 # ipv6_octets ip @ to_be 2 port"

definition mac_message :: "socket_addr \<Rightarrow> bytes \<Rightarrow> bytes" where
  "mac_message src odcid = TOKEN_TAG @ addr_bytes src @ odcid"

definition mac :: "(bytes \<Rightarrow> bytes) \<Rightarrow> bytes \<Rightarrow> socket_addr \<Rightarrow> bytes \<Rightarrow> bytes" where
  "mac sha256 key src odcid = take MAC_LEN (hmac_sha256 sha256 key (mac_message src odcid))"

text \<open>\<open>odcid.len() as u8\<close> keeps the low eight bits of a length.\<close>

definition retry_mint :: "(bytes \<Rightarrow> bytes) \<Rightarrow> bytes \<Rightarrow> socket_addr \<Rightarrow> bytes \<Rightarrow> bytes" where
  "retry_mint sha256 key src odcid =
     TOKEN_TAG @ [word_of_nat (length odcid)] @ odcid @ mac sha256 key src odcid"

text \<open>The comparison accumulates the differences of all bytes.\<close>

definition ct_eq :: "bytes \<Rightarrow> bytes \<Rightarrow> bool" where
  "ct_eq a b =
     (if length a \<noteq> length b then False
      else foldl (\<lambda>diff (x, y). diff OR (x XOR y)) 0 (zip a b) = 0)"

definition strip_prefix :: "bytes \<Rightarrow> bytes \<Rightarrow> bytes option" where
  "strip_prefix p xs = (if starts_with xs p then Some (drop (length p) xs) else None)"

definition retry_validate :: "(bytes \<Rightarrow> bytes) \<Rightarrow> bytes \<Rightarrow> socket_addr \<Rightarrow> bytes \<Rightarrow> bytes option" where
  "retry_validate sha256 key src token =
     Option.bind (strip_prefix TOKEN_TAG token) (\<lambda>rest.
     (case rest of
        [] \<Rightarrow> None
      | len # rest1 \<Rightarrow>
          let odcid_len = unat len in
          if length rest1 \<noteq> odcid_len + MAC_LEN then None
          else
            let odcid = take odcid_len rest1; m = drop odcid_len rest1 in
            if ct_eq m (mac sha256 key src odcid) then Some odcid else None))"

section \<open>Comparison\<close>

lemma fold_diff_zero:
  "foldl (\<lambda>diff (x, y). diff OR (x XOR y)) d ps = 0 \<longleftrightarrow> d = 0 \<and> list_all (\<lambda>(x, y). x = y) ps"
  for d :: byte
proof (induction ps arbitrary: d)
  case (Cons p ps)
  have "d OR (x XOR y) = 0 \<longleftrightarrow> d = 0 \<and> x = y" for x y :: byte
    by (auto simp: bit_eq_iff bit_or_iff bit_xor_iff)
  with Cons show ?case by (cases p) auto
qed simp

lemma ct_eq_iff [simp]: "ct_eq a b \<longleftrightarrow> a = b"
proof -
  have "list_all (\<lambda>(x, y). x = y) (zip a b) \<longleftrightarrow> a = b" if "length a = length b"
    using that by (induction a b rule: list_induct2) auto
  then show ?thesis by (auto simp: ct_eq_def fold_diff_zero)
qed

section \<open>Round trip and binding\<close>

lemma strip_prefix_Some: "strip_prefix p xs = Some ys \<longleftrightarrow> xs = p @ ys"
  by (auto simp: strip_prefix_def starts_with_def) (metis append_take_drop_id)

text \<open>A token validates exactly when it is the token minted for that address and identifier.\<close>

lemma retry_validate_iff:
  assumes "\<And>x. length (sha256 x) = 32"
  shows "retry_validate sha256 key src token = Some odcid \<longleftrightarrow>
    length odcid < 256 \<and> token = retry_mint sha256 key src odcid"
proof -
  have m: "length (mac sha256 key s o1) = MAC_LEN" for s o1
    using assms by (simp add: mac_def MAC_LEN_def hmac_sha256_def Let_def)
  show ?thesis
  proof
    assume "retry_validate sha256 key src token = Some odcid"
    then obtain r where r: "token = TOKEN_TAG @ r" "retry_validate sha256 key src (TOKEN_TAG @ r) = Some odcid"
      by (auto simp: retry_validate_def bind_eq_Some_conv strip_prefix_Some)
    then obtain len rest where l: "r = len # rest"
      by (cases r) (auto simp: retry_validate_def bind_eq_Some_conv strip_prefix_Some)
    with r have t: "token = TOKEN_TAG @ len # rest" "length rest = unat len + MAC_LEN"
        "odcid = take (unat len) rest" "drop (unat len) rest = mac sha256 key src odcid"
      by (auto simp: retry_validate_def bind_eq_Some_conv strip_prefix_Some Let_def split: if_splits)
    have "rest = odcid @ mac sha256 key src odcid" using t(3,4) by (metis append_take_drop_id)
    moreover have "length odcid = unat len" using t(2,3) by simp
    ultimately show "length odcid < 256 \<and> token = retry_mint sha256 key src odcid"
      using t(1) by (simp add: retry_mint_def)
  next
    assume "length odcid < 256 \<and> token = retry_mint sha256 key src odcid"
    then show "retry_validate sha256 key src token = Some odcid"
      by (simp add: retry_validate_def retry_mint_def strip_prefix_Some [THEN iffD2, OF refl] Let_def m unat_of_nat)
  qed
qed

text \<open>The address and port a token is bound to; the scope of an IPv6 address is not part of it.\<close>

fun bound_address :: "socket_addr \<Rightarrow> ip_addr \<times> u16" where
  "bound_address (SockV4 ip port) = (V4 ip, port)"
| "bound_address (SockV6 ip scope port) = (V6 ip, port)"

fun sized_address :: "socket_addr \<Rightarrow> bool" where
  "sized_address (SockV4 ip port) = True"
| "sized_address (SockV6 ip scope port) = (length (v6_segments ip) = 8)"

lemma concat_to_be_inject:
  "length xs = length ys \<Longrightarrow> concat (map (to_be 2) xs) = concat (map (to_be 2) ys) \<Longrightarrow> xs = (ys :: u16 list)"
  by (induction xs ys rule: list_induct2) (auto simp: to_be_inject)

lemma length_concat_to_be [simp]: "length (concat (map (to_be 2) xs)) = 2 * length xs"
  by (induction xs) auto

lemma mac_message_inject:
  assumes "sized_address a" and "sized_address b" and "mac_message a o1 = mac_message b o2"
  shows "bound_address a = bound_address b \<and> o1 = o2"
proof -
  have e: "addr_bytes a @ o1 = addr_bytes b @ o2" using assms(3) by (simp add: mac_message_def)
  have v6: "x = y" if "length (v6_segments x) = 8" "length (v6_segments y) = 8"
      "concat (map (to_be 2) (v6_segments x)) = concat (map (to_be 2) (v6_segments y))" for x y
    using concat_to_be_inject [of "v6_segments x" "v6_segments y"] that by (simp add: ipv6addr.expand)
  show ?thesis using assms(1,2) e
    by (cases a; cases b) (auto simp: append_eq_append_conv ipv6_octets_def to_be_inject intro: v6)
qed

text \<open>
  C19: an address is validated only by a token minted for it. Whatever bytes a client presents, they
  validate for a source address and return a connection identifier exactly when they are the token the
  node mints for that address and identifier; and bytes that validate for two addresses return one
  identifier and were minted for one IP address and port, or the two addresses exhibit a collision of the
  truncated HMAC on different messages.
\<close>

theorem retry_token_binds_address:
  assumes "\<And>x. length (sha256 x) = 32" and "sized_address src" and "sized_address src'"
  shows "(retry_validate sha256 key src token = Some odcid \<longleftrightarrow> length odcid < 256 \<and> token = retry_mint sha256 key src odcid) \<and>
    (\<forall>o1 o2. retry_validate sha256 key src token = Some o1 \<and> retry_validate sha256 key src' token = Some o2 \<longrightarrow>
       o2 = o1 \<and>
       (bound_address src' = bound_address src \<or>
        mac_message src' o1 \<noteq> mac_message src o1 \<and> mac sha256 key src' o1 = mac sha256 key src o1))"
proof -
  have "o2 = o1 \<and> mac sha256 key src' o1 = mac sha256 key src o1"
    if v: "retry_validate sha256 key src token = Some o1" "retry_validate sha256 key src' token = Some o2" for o1 o2
  proof -
    have o: "length o1 < 256" "length o2 < 256" "retry_mint sha256 key src o1 = retry_mint sha256 key src' o2"
      using v unfolding retry_validate_iff [OF assms(1)] by auto
    then have "word_of_nat (length o1) = (word_of_nat (length o2) :: byte)" by (simp add: retry_mint_def)
    then have "unat (word_of_nat (length o1) :: byte) = unat (word_of_nat (length o2) :: byte)" by simp
    then have "length o1 = length o2" using o(1,2) by (simp add: unat_of_nat)
    then show ?thesis using o(3) by (auto simp: retry_mint_def append_eq_append_conv)
  qed
  then show ?thesis
    using retry_validate_iff [of sha256 key src token odcid, OF assms(1)] mac_message_inject [OF assms(3,2)] by blast
qed

theorem retry_token_binds_address_witness:
  "let h = (\<lambda>m. replicate 32 (word_of_nat (length m))); src = SockV4 (Ipv4Addr 203 0 113 5) 443;
       token = retry_mint h [1] src [7, 8]
   in retry_validate h [1] src token = Some [7, 8] \<and> retry_validate h [1] src (token @ [0]) = None"
proof -
  let ?h = "\<lambda>m. replicate 32 (word_of_nat (length m)) :: bytes" and ?src = "SockV4 (Ipv4Addr 203 0 113 5) 443"
  let ?t = "retry_mint ?h [1] ?src [7, 8]"
  note claim = retry_token_binds_address [of ?h ?src ?src "[1]", simplified]
  have "retry_validate ?h [1] ?src ?t = Some [7, 8]" using claim [of ?t "[7, 8]"] by simp
  moreover have "retry_validate ?h [1] ?src (?t @ [0]) \<noteq> Some od" for od
  proof
    assume v: "retry_validate ?h [1] ?src (?t @ [0]) = Some od"
    then have od: "length od < 256" "?t @ [0] = retry_mint ?h [1] ?src od" using claim [of "?t @ [0]" od] by simp_all
    then have "word_of_nat (length od) = (2 :: byte)" by (simp add: retry_mint_def)
    then have "unat (word_of_nat (length od) :: byte) = 2" by simp
    then have "length od = 2" using od(1) by (simp add: unat_of_nat)
    then have "length (?t @ [0]) = length ?t" unfolding od(2) by (simp add: retry_mint_def mac_def hmac_sha256_def Let_def)
    then show False by simp
  qed
  ultimately show ?thesis by (auto simp: Let_def)
qed

end
