(* ===== verification/Node_Config.thy ===== *)
theory Node_Config
  imports Attest_Gate
begin

text \<open>
  The node's configuration (nil-node/src/config.rs) and the packet-filter rules it installs
  (nil-node/src/exit.rs). The process environment, the list of its variable names and the reader of the
  key file are parameters; \<open>debug\<close> and \<open>hw\<close> are the build flags \<open>debug_assertions\<close> and \<open>hw-attest\<close>.
  What \<open>iptables\<close> does with a rule is not modelled; its exit status is a parameter of the set-up.
\<close>

section \<open>Data\<close>

datatype node_role = EntryNode | MiddleNode | ExitNode

datatype node_config_error =
    BadBind | LegacyGrantKey | BothVerifyKeys | ReadVerifyKeys bytes | InlineVerifyKeys
  | VerifyKeyNotHex string | VerifyKeyLength string | VerifyKeysInvalid string grant_error
  | BadIdentifier string grant_error | IncompleteIdentity
  | StrictVerifier | StrictRealm | StrictNodeId | StrictTlsKey | StrictRole | BadRole | RoleVar | StrictUngranted
  | BadCount string | ZeroCount string | VarNotUnicode string
  | PerIpTooLarge | ReplayTooSmall | BadAttestation string

record node_config =
  nc_bind :: socket_addr
  nc_tun_name :: bytes
  nc_node_tun_ip :: ipv4addr
  nc_prefix :: byte
  nc_tunnel_cidr :: bytes
  nc_egress :: bytes
  nc_mtu :: u16
  nc_attest :: "node_attest option"
  nc_role :: node_role
  nc_grant_verifier :: "verifier option"
  nc_grant_realm :: "bytes option"
  nc_node_id :: "bytes option"
  nc_tls_key_file :: "bytes option"
  nc_allow_ungranted :: bool
  nc_max_connections :: nat
  nc_max_connections_per_ip :: nat
  nc_grant_replay_capacity :: nat

definition DEFAULT_MAX_CONNECTIONS :: nat where "DEFAULT_MAX_CONNECTIONS = 1024"
definition DEFAULT_MAX_CONNECTIONS_PER_IP :: nat where "DEFAULT_MAX_CONNECTIONS_PER_IP = 32"
definition DEFAULT_GRANT_REPLAY_CAPACITY :: nat where "DEFAULT_GRANT_REPLAY_CAPACITY = 65536"

definition node_role_parse :: "bytes \<Rightarrow> node_config_error + node_role" where
  "node_role_parse s =
     (if s = lit ''entry'' then Inr EntryNode
      else if s = lit ''middle'' then Inr MiddleNode
      else if s = lit ''exit'' then Inr ExitNode
      else Inl BadRole)"

primrec node_grant_role :: "node_role \<Rightarrow> grant_role" where
  "node_grant_role EntryNode = Entry"
| "node_grant_role MiddleNode = Middle"
| "node_grant_role ExitNode = Exit"

section \<open>Reading the environment\<close>

definition positive_usize_env :: "environment \<Rightarrow> string \<Rightarrow> nat \<Rightarrow> node_config_error + nat" where
  "positive_usize_env env name dflt =
     (case env_var env name of
        EnvOk raw \<Rightarrow>
          bindE (ok_or (BadCount name) (parse_uint (2 ^ 64 - 1) raw)) (\<lambda>v.
          if v = 0 then Inl (ZeroCount name) else Inr v)
      | EnvNotPresent \<Rightarrow> Inr dflt
      | EnvNotUnicode \<Rightarrow> Inl (VarNotUnicode name))"

definition reject_legacy_grant_key_env :: "string list \<Rightarrow> node_config_error + unit" where
  "reject_legacy_grant_key_env names =
     (if list_ex (\<lambda>n. take 12 n = ''NW_GRANT_KEY'') names then Inl LegacyGrantKey else Inr ())"

definition optional_identifier_env :: "environment \<Rightarrow> string \<Rightarrow> node_config_error + bytes option" where
  "optional_identifier_env env name =
     (case env_var env name of
        EnvOk v \<Rightarrow> bindE (map_err (BadIdentifier name) (validate_identifier v)) (\<lambda>_. Inr (Some v))
      | EnvNotPresent \<Rightarrow> Inr None
      | EnvNotUnicode \<Rightarrow> Inl (VarNotUnicode name))"

definition validate_complete_grant_identity ::
  "verifier option \<Rightarrow> bytes option \<Rightarrow> bytes option \<Rightarrow> node_config_error + unit" where
  "validate_complete_grant_identity v realm node_id =
     (let configured = [v \<noteq> None, realm \<noteq> None, node_id \<noteq> None] in
      if list_ex id configured \<and> \<not> list_all id configured then Inl IncompleteIdentity else Inr ())"

text \<open>
  \<open>str::lines\<close>: the pieces between newlines, without one carriage return before the newline; the
  piece after the last newline counts when it is not empty.
\<close>

definition drop_cr :: "bytes \<Rightarrow> bytes" where
  "drop_cr l = (if l \<noteq> [] \<and> last l = 13 then butlast l else l)"

definition str_lines :: "bytes \<Rightarrow> bytes list" where
  "str_lines s =
     (let ls = split_at 10 s in map drop_cr (butlast ls) @ (if last ls = [] then [] else [last ls]))"

text \<open>The encoded keys of one line, up to a comment sign.\<close>

definition line_keys :: "bytes \<Rightarrow> bytes list" where
  "line_keys line =
     (let data = (case split_once 35 line of Some (d, _) \<Rightarrow> d | None \<Rightarrow> line) in
      filter (\<lambda>v. v \<noteq> []) (map trim (split_at 44 data)))"

fun decode_keys :: "string \<Rightarrow> bytes list \<Rightarrow> node_config_error + bytes list" where
  "decode_keys source [] = Inr []"
| "decode_keys source (encoded # rest) =
     bindE (ok_or (VerifyKeyNotHex source) (from_hex encoded)) (\<lambda>key.
     if length key \<noteq> 32 then Inl (VerifyKeyLength source)
     else bindE (decode_keys source rest) (\<lambda>keys. Inr (key # keys)))"

definition parse_grant_verifier :: "crypto \<Rightarrow> bytes \<Rightarrow> string \<Rightarrow> node_config_error + verifier" where
  "parse_grant_verifier C raw source =
     bindE (decode_keys source (concat (map line_keys (str_lines raw)))) (\<lambda>keys.
     map_err (VerifyKeysInvalid source) (verifier_new C keys))"

definition load_grant_verifier ::
  "crypto \<Rightarrow> environment \<Rightarrow> (bytes \<Rightarrow> bytes option) \<Rightarrow> bool \<Rightarrow> bool \<Rightarrow> node_config_error + (verifier option \<times> bool)" where
  "load_grant_verifier C env read_to_string debug hw =
     (case (env_ok env ''NW_GRANT_VERIFY_KEYS_FILE'', env_ok env ''NW_GRANT_VERIFY_KEYS'') of
        (Some _, Some _) \<Rightarrow> Inl BothVerifyKeys
      | (Some path, None) \<Rightarrow>
          bindE (ok_or (ReadVerifyKeys path) (read_to_string path)) (\<lambda>raw.
          bindE (parse_grant_verifier C raw ''NW_GRANT_VERIFY_KEYS_FILE'') (\<lambda>v. Inr (Some v, True)))
      | (None, Some raw) \<Rightarrow>
          if \<not> debug \<or> hw then Inl InlineVerifyKeys
          else bindE (parse_grant_verifier C raw ''NW_GRANT_VERIFY_KEYS'') (\<lambda>v. Inr (Some v, False))
      | (None, None) \<Rightarrow> Inr (None, False))"

definition load_node_role :: "environment \<Rightarrow> bool \<Rightarrow> node_config_error + node_role" where
  "load_node_role env strict =
     (case env_var env ''NW_NODE_ROLE'' of
        EnvOk v \<Rightarrow> node_role_parse v
      | EnvNotPresent \<Rightarrow> if \<not> strict then Inr ExitNode else Inl StrictRole
      | EnvNotUnicode \<Rightarrow> Inl RoleVar)"

definition env_or :: "environment \<Rightarrow> string \<Rightarrow> bytes \<Rightarrow> bytes" where
  "env_or env name dflt = (case env_ok env name of Some v \<Rightarrow> v | None \<Rightarrow> dflt)"

definition load_identity ::
  "crypto \<Rightarrow> environment \<Rightarrow> (bytes \<Rightarrow> bytes option) \<Rightarrow> bool \<Rightarrow> bool \<Rightarrow>
   node_config_error + (verifier option \<times> bytes option \<times> bytes option \<times> bytes option)" where
  "load_identity C env read_to_string debug hw =
     (let strict = hw \<or> \<not> debug in
      bindE (load_grant_verifier C env read_to_string debug hw) (\<lambda>(v, verifier_from_file).
      bindE (optional_identifier_env env ''NW_GRANT_REALM'') (\<lambda>realm.
      bindE (optional_identifier_env env ''NW_NODE_ID'') (\<lambda>node_id.
      bindE (validate_complete_grant_identity v realm node_id) (\<lambda>_.
      if strict \<and> (\<not> verifier_from_file \<or> v = None) then Inl StrictVerifier
      else if strict \<and> realm = None then Inl StrictRealm
      else if strict \<and> node_id = None then Inl StrictNodeId
      else
        let tls_key_file = env ''NW_NODE_TLS_KEY_FILE'' in
        if strict \<and> tls_key_file = None then Inl StrictTlsKey
        else Inr (v, realm, node_id, tls_key_file))))))"

definition load_limits :: "environment \<Rightarrow> node_config_error + (nat \<times> nat \<times> nat)" where
  "load_limits env =
     bindE (positive_usize_env env ''NW_NODE_MAX_CONNECTIONS'' DEFAULT_MAX_CONNECTIONS) (\<lambda>max_connections.
     bindE (positive_usize_env env ''NW_NODE_MAX_CONNECTIONS_PER_IP''
              (min DEFAULT_MAX_CONNECTIONS_PER_IP max_connections)) (\<lambda>per_ip.
     if per_ip > max_connections then Inl PerIpTooLarge
     else
     bindE (positive_usize_env env ''NW_NODE_GRANT_REPLAY_CAPACITY'' DEFAULT_GRANT_REPLAY_CAPACITY) (\<lambda>capacity.
     if capacity < max_connections then Inl ReplayTooSmall
     else Inr (max_connections, per_ip, capacity))))"

definition node_config_from_env ::
  "crypto \<Rightarrow> environment \<Rightarrow> string list \<Rightarrow> (bytes \<Rightarrow> bytes option) \<Rightarrow> bool \<Rightarrow> bool \<Rightarrow> node_config_error + node_config" where
  "node_config_from_env C env names read_to_string debug hw =
     bindE (ok_or BadBind (parse_socket_addr (env_or env ''NW_NODE_BIND'' (lit ''0.0.0.0:443'')))) (\<lambda>bind_addr.
     bindE (reject_legacy_grant_key_env names) (\<lambda>_.
     bindE (load_identity C env read_to_string debug hw) (\<lambda>(v, realm, node_id, tls_key_file).
     bindE (load_node_role env (hw \<or> \<not> debug)) (\<lambda>role.
     let allow_ungranted = dev_env_flag debug env ''NW_ALLOW_UNGRANTED'' in
     if (hw \<or> \<not> debug) \<and> allow_ungranted then Inl StrictUngranted
     else
     bindE (load_limits env) (\<lambda>(max_connections, per_ip, capacity).
     bindE (map_err BadAttestation (node_attest_from_env env)) (\<lambda>attest.
     Inr \<lparr>nc_bind = bind_addr, nc_tun_name = env_or env ''NW_NODE_TUN'' (lit ''nil0''),
          nc_node_tun_ip = Ipv4Addr 10 74 0 1, nc_prefix = 24, nc_tunnel_cidr = lit ''10.74.0.0/24'',
          nc_egress = env_or env ''NW_NODE_EGRESS'' (lit ''eth0''), nc_mtu = 1420, nc_attest = attest, nc_role = role,
          nc_grant_verifier = v, nc_grant_realm = realm, nc_node_id = node_id, nc_tls_key_file = tls_key_file,
          nc_allow_ungranted = allow_ungranted, nc_max_connections = max_connections,
          nc_max_connections_per_ip = per_ip, nc_grant_replay_capacity = capacity\<rparr>))))))"

section \<open>Packet-filter rules\<close>

definition NODE_QUIC_PORT :: bytes where "NODE_QUIC_PORT = lit ''443''"

definition role_has_open_egress :: "node_role \<Rightarrow> bool" where
  "role_has_open_egress role \<longleftrightarrow> role = ExitNode"

definition nat_rules :: "node_config \<Rightarrow> bytes list list" where
  "nat_rules cfg =
     (let tun = nc_tun_name cfg; cidr = nc_tunnel_cidr cfg; eg = nc_egress cfg in
      if role_has_open_egress (nc_role cfg) then
        [[lit ''-t'', lit ''nat'', lit ''-A'', lit ''POSTROUTING'', lit ''-s'', cidr, lit ''-o'', eg, lit ''-j'', lit ''MASQUERADE''],
         [lit ''-A'', lit ''FORWARD'', lit ''-i'', tun, lit ''-j'', lit ''ACCEPT''],
         [lit ''-A'', lit ''FORWARD'', lit ''-o'', tun, lit ''-j'', lit ''ACCEPT'']]
      else
        [[lit ''-t'', lit ''nat'', lit ''-A'', lit ''POSTROUTING'', lit ''-s'', cidr, lit ''-o'', eg, lit ''-p'', lit ''udp'',
          lit ''--dport'', NODE_QUIC_PORT, lit ''-j'', lit ''MASQUERADE''],
         [lit ''-A'', lit ''FORWARD'', lit ''-o'', tun, lit ''-j'', lit ''ACCEPT''],
         [lit ''-A'', lit ''FORWARD'', lit ''-i'', tun, lit ''-p'', lit ''udp'', lit ''--dport'', NODE_QUIC_PORT, lit ''-j'', lit ''ACCEPT''],
         [lit ''-A'', lit ''FORWARD'', lit ''-i'', tun, lit ''-j'', lit ''DROP'']])"

text \<open>
  The set-up runs commands and fails on the first packet-filter rule that fails; the two commands
  before them are best effort. The result lists the commands that ran. On drop every rule is deleted.
\<close>

fun install_rules :: "(bytes list \<Rightarrow> bool) \<Rightarrow> bytes list list \<Rightarrow> bool \<times> bytes list list" where
  "install_rules sh [] = (True, [])"
| "install_rules sh (r # rs) =
     (let cmd = lit ''iptables'' # r in
      if sh cmd then (let (ok, ran) = install_rules sh rs in (ok, cmd # ran)) else (False, [cmd]))"

definition exit_setup :: "(bytes list \<Rightarrow> bool) \<Rightarrow> node_config \<Rightarrow> bool \<Rightarrow> bool \<times> bytes list list" where
  "exit_setup sh cfg tun_ok =
     (if \<not> tun_ok then (False, [])
      else
        let (ok, ran) = install_rules sh (nat_rules cfg) in
        (ok, [lit ''ethtool'', lit ''-K'', nc_tun_name cfg, lit ''tx'', lit ''off'']
             # [lit ''sysctl'', lit ''-w'', lit ''net.ipv4.ip_forward=1''] # ran))"

definition delete_rule :: "bytes list \<Rightarrow> bytes list" where
  "delete_rule r = map (\<lambda>tok. if tok = lit ''-A'' then lit ''-D'' else tok) r"

definition exit_drop :: "node_config \<Rightarrow> bytes list list" where
  "exit_drop cfg = map (\<lambda>r. lit ''iptables'' # delete_rule r) (nat_rules cfg)"

section \<open>What a configuration guarantees\<close>

lemma positive_usize_env_Inr: "positive_usize_env env name d = Inr n \<Longrightarrow> 0 < d \<Longrightarrow> 0 < n"
  by (auto simp: positive_usize_env_def split: env_result.splits if_splits)

lemma optional_identifier_env_Inr:
  "optional_identifier_env env name = Inr (Some i) \<Longrightarrow> env name = Some i \<and> validate_identifier i = Inr ()"
  by (auto simp: optional_identifier_env_def env_var_def split: env_result.splits option.splits if_splits)

text \<open>The keys listed in a key file.\<close>

definition listed_keys :: "bytes \<Rightarrow> bytes list \<Rightarrow> bool" where
  "listed_keys raw keys \<longleftrightarrow> map from_hex (concat (map line_keys (str_lines raw))) = map Some keys \<and> list_all (\<lambda>k. length k = 32) keys"

lemma decode_keys_Inr: "decode_keys src es = Inr ks \<Longrightarrow> map from_hex es = map Some ks \<and> list_all (\<lambda>k. length k = 32) ks"
  by (induction es arbitrary: ks) (auto split: if_splits)

lemma load_grant_verifier_Inr:
  assumes "load_grant_verifier C env rd debug hw = Inr (v, ff)"
  shows "ff \<Longrightarrow> \<exists>path raw keys. env ''NW_GRANT_VERIFY_KEYS_FILE'' = Some path \<and> rd path = Some raw \<and>
           listed_keys raw keys \<and> (\<exists>v'. v = Some v' \<and> verifier_new C keys = Inr v')"
    and "\<not> ff \<Longrightarrow> hw \<or> \<not> debug \<Longrightarrow> v = None"
  using assms decode_keys_Inr
  by (auto simp: load_grant_verifier_def env_ok_def env_var_def parse_grant_verifier_def listed_keys_def
      split: option.splits env_result.splits if_splits)

lemma load_identity_Inr:
  assumes "load_identity C env rd debug hw = Inr (v, realm, node_id, tls)"
  obtains ff where "load_grant_verifier C env rd debug hw = Inr (v, ff)"
    and "optional_identifier_env env ''NW_GRANT_REALM'' = Inr realm"
    and "optional_identifier_env env ''NW_NODE_ID'' = Inr node_id"
    and "tls = env ''NW_NODE_TLS_KEY_FILE''"
    and "hw \<or> \<not> debug \<Longrightarrow> ff \<and> v \<noteq> None \<and> realm \<noteq> None \<and> node_id \<noteq> None \<and> tls \<noteq> None"
    and "(v = None) = (realm = None)" and "(v = None) = (node_id = None)"
  using assms
  by (auto simp: load_identity_def Let_def validate_complete_grant_identity_def split: if_splits)

definition limits_ok :: "node_config \<Rightarrow> bool" where
  "limits_ok cfg \<longleftrightarrow>
     0 < nc_max_connections_per_ip cfg \<and> nc_max_connections_per_ip cfg \<le> nc_max_connections cfg \<and>
     nc_max_connections cfg \<le> nc_grant_replay_capacity cfg"

lemma load_limits_Inr: "load_limits env = Inr (m, p, c) \<Longrightarrow> 0 < p \<and> p \<le> m \<and> m \<le> c"
  by (auto simp: load_limits_def DEFAULT_MAX_CONNECTIONS_def DEFAULT_MAX_CONNECTIONS_PER_IP_def
      dest!: positive_usize_env_Inr split: if_splits)

lemma node_config_from_env_Inr:
  assumes "node_config_from_env C env names rd debug hw = Inr cfg"
  obtains "reject_legacy_grant_key_env names = Inr ()"
    and "load_identity C env rd debug hw = Inr (nc_grant_verifier cfg, nc_grant_realm cfg, nc_node_id cfg, nc_tls_key_file cfg)"
    and "load_node_role env (hw \<or> \<not> debug) = Inr (nc_role cfg)"
    and "nc_allow_ungranted cfg = dev_env_flag debug env ''NW_ALLOW_UNGRANTED''"
    and "hw \<or> \<not> debug \<Longrightarrow> \<not> nc_allow_ungranted cfg"
    and "load_limits env = Inr (nc_max_connections cfg, nc_max_connections_per_ip cfg, nc_grant_replay_capacity cfg)"
    and "node_attest_from_env env = Inr (nc_attest cfg)"
proof -
  from assms obtain v realm node_id tls role m p c att where
    "reject_legacy_grant_key_env names = Inr ()" "load_identity C env rd debug hw = Inr (v, realm, node_id, tls)"
    "load_node_role env (hw \<or> \<not> debug) = Inr role" "\<not> ((hw \<or> \<not> debug) \<and> dev_env_flag debug env ''NW_ALLOW_UNGRANTED'')"
    "load_limits env = Inr (m, p, c)" "node_attest_from_env env = Inr att"
    "nc_grant_verifier cfg = v" "nc_grant_realm cfg = realm" "nc_node_id cfg = node_id" "nc_tls_key_file cfg = tls"
    "nc_role cfg = role" "nc_allow_ungranted cfg = dev_env_flag debug env ''NW_ALLOW_UNGRANTED''"
    "nc_max_connections cfg = m" "nc_max_connections_per_ip cfg = p" "nc_grant_replay_capacity cfg = c" "nc_attest cfg = att"
    unfolding node_config_from_env_def Let_def
    by (auto split: if_splits)
  then show thesis using that by blast
qed

text \<open>
  C11: what a release or hardware node starts with. Its configuration has a public-key set read from the
  configured file, a valid realm and node identifier, a TLS key file and an explicit role; it never
  serves clients without a grant, no retired key variable is set, and the limits are positive and
  ordered so that the replay cache holds at least one entry per connection.
\<close>

theorem release_node_enforces:
  assumes "node_config_from_env C env names rd debug hw = Inr cfg" and "hw \<or> \<not> debug"
  shows "(\<exists>path raw keys v. env ''NW_GRANT_VERIFY_KEYS_FILE'' = Some path \<and> rd path = Some raw \<and> listed_keys raw keys \<and>
            verifier_new C keys = Inr v \<and> nc_grant_verifier cfg = Some v) \<and>
    (\<exists>realm node_id. nc_grant_realm cfg = Some realm \<and> nc_node_id cfg = Some node_id \<and>
       validate_identifier realm = Inr () \<and> validate_identifier node_id = Inr ()) \<and>
    nc_tls_key_file cfg \<noteq> None \<and>
    (\<exists>r. env ''NW_NODE_ROLE'' = Some r \<and> node_role_parse r = Inr (nc_role cfg)) \<and>
    \<not> nc_allow_ungranted cfg \<and> (\<forall>n. n \<in> set names \<longrightarrow> take 12 n \<noteq> ''NW_GRANT_KEY'') \<and> limits_ok cfg"
  using assms
proof (cases rule: node_config_from_env_Inr)
  case 1
  from 1(2) obtain ff where i: "load_grant_verifier C env rd debug hw = Inr (nc_grant_verifier cfg, ff)"
    "optional_identifier_env env ''NW_GRANT_REALM'' = Inr (nc_grant_realm cfg)"
    "optional_identifier_env env ''NW_NODE_ID'' = Inr (nc_node_id cfg)"
    "ff" "nc_grant_realm cfg \<noteq> None" "nc_node_id cfg \<noteq> None" "nc_tls_key_file cfg \<noteq> None"
    using assms(2) by (elim load_identity_Inr) blast
  moreover have "\<exists>r. env ''NW_NODE_ROLE'' = Some r \<and> node_role_parse r = Inr (nc_role cfg)"
    using 1(3) assms(2) by (auto simp: load_node_role_def env_var_def split: env_result.splits option.splits if_splits)
  moreover have "\<forall>n. n \<in> set names \<longrightarrow> take 12 n \<noteq> ''NW_GRANT_KEY''"
    using 1(1) by (auto simp: reject_legacy_grant_key_env_def list_ex_iff split: if_splits)
  moreover have "\<exists>path raw keys v. env ''NW_GRANT_VERIFY_KEYS_FILE'' = Some path \<and> rd path = Some raw \<and> listed_keys raw keys \<and>
      verifier_new C keys = Inr v \<and> nc_grant_verifier cfg = Some v"
    using load_grant_verifier_Inr(1) [OF i(1,4)] by blast
  moreover have "\<exists>realm node_id. nc_grant_realm cfg = Some realm \<and> nc_node_id cfg = Some node_id \<and>
      validate_identifier realm = Inr () \<and> validate_identifier node_id = Inr ()"
    using i(2,3,5,6) optional_identifier_env_Inr by fastforce
  moreover have "limits_ok cfg" "\<not> nc_allow_ungranted cfg"
    using load_limits_Inr [OF 1(6)] 1(5) assms(2) by (simp_all add: limits_ok_def)
  ultimately show ?thesis by blast
qed

text \<open>A node that starts.\<close>

definition node_env :: environment where
  "node_env name =
     (if name = ''NW_NODE_BIND'' then Some (ipv4_to_string (Ipv4Addr 127 0 0 1) @ 58 # u_to_string (443 :: u16))
      else if name = ''NW_GRANT_VERIFY_KEYS_FILE'' then Some [107]
      else if name = ''NW_GRANT_REALM'' then Some [114]
      else if name = ''NW_NODE_ID'' then Some [110]
      else if name = ''NW_NODE_TLS_KEY_FILE'' then Some [116]
      else if name = ''NW_NODE_ROLE'' then Some (lit ''middle'')
      else None)"

definition node_key_text :: bytes where
  "node_key_text = to_hex (replicate 32 1) @ [10]"

lemma node_keys_listed: "concat (map line_keys (str_lines node_key_text)) = [to_hex (replicate 32 1)]"
proof -
  let ?h = "to_hex (replicate 32 1) :: bytes"
  have g: "list_all graphic ?h" using to_hex_lower [of "replicate 32 1"]
    by (auto simp: list_all_iff lower_hex_digit_def graphic_def word_le_nat_alt)
  have f: "c \<notin> set ?h" if "\<not> lower_hex_digit c" for c using that to_hex_lower [of "replicate 32 1"] by (auto simp: list_all_iff)
  have ne: "?h \<noteq> []" by (metis length_0_conv length_to_hex length_replicate mult_eq_0_iff zero_neq_numeral)
  have "str_lines node_key_text = [drop_cr ?h]"
    using split_at_append [of 10 ?h "[]"] f [of 10] by (simp add: str_lines_def node_key_text_def lower_hex_digit_def)
  moreover have "drop_cr ?h = ?h"
    using f [of 13] last_in_set [OF ne] by (auto simp: drop_cr_def lower_hex_digit_def)
  moreover have "split_once 35 ?h = None"
    using f [of 35] split_once_Some [of 35 ?h] by (cases "split_once 35 ?h") (auto simp: lower_hex_digit_def)
  ultimately show ?thesis
    using split_at_free [of 44 ?h] f [of 44] ne trim_graphic [OF g]
    by (simp add: line_keys_def lower_hex_digit_def)
qed

lemma node_env_identity:
  obtains v where "load_identity demo_crypto node_env (\<lambda>_. Some node_key_text) False False = Inr (Some v, Some [114], Some [110], Some [116])"
proof -
  obtain v where v: "verifier_new demo_crypto [replicate 32 1] = Inr v"
    using verifier_new_correct_witness by blast
  have "parse_grant_verifier demo_crypto node_key_text src = Inr v" for src
    using v by (simp add: parse_grant_verifier_def node_keys_listed)
  then have "load_grant_verifier demo_crypto node_env (\<lambda>_. Some node_key_text) False False = Inr (Some v, True)"
    by (simp add: load_grant_verifier_def node_env_def env_ok_def env_var_def)
  moreover have "optional_identifier_env node_env ''NW_GRANT_REALM'' = Inr (Some [114])" "optional_identifier_env node_env ''NW_NODE_ID'' = Inr (Some [110])"
    by (simp_all add: optional_identifier_env_def node_env_def env_var_def validate_identifier_def validate_named_identifier_def
        is_edge_def is_inner_def is_ascii_lowercase_def MAX_GRANT_IDENTIFIER_LEN_def)
  ultimately have "load_identity demo_crypto node_env (\<lambda>_. Some node_key_text) False False = Inr (Some v, Some [114], Some [110], Some [116])"
    by (simp add: load_identity_def validate_complete_grant_identity_def node_env_def)
  then show thesis by (rule that)
qed

lemma node_env_scalars:
  "parse_socket_addr (env_or node_env ''NW_NODE_BIND'' d) = Some (SockV4 (Ipv4Addr 127 0 0 1) 443)"
  "load_node_role node_env True = Inr MiddleNode" "load_limits node_env = Inr (1024, 32, 65536)"
  "node_attest_from_env node_env = Inr None" "dev_env_flag False node_env n = False"
proof -
  have "utf8_valid (ipv4_to_string (Ipv4Addr 127 0 0 1) @ 58 # u_to_string (443 :: u16))"
    using digits_utf8 [of "443 :: u16" "[]"] by (simp add: digits_utf8)
  then show "parse_socket_addr (env_or node_env ''NW_NODE_BIND'' d) = Some (SockV4 (Ipv4Addr 127 0 0 1) 443)"
    using parse_socket_addr_v4 [of "Ipv4Addr 127 0 0 1" 443]
    by (simp add: node_env_def env_or_def env_ok_def env_var_def del: ipv4_to_string.simps)
qed (simp_all add: load_node_role_def node_role_parse_def load_limits_def positive_usize_env_def node_attest_from_env_def
    node_env_def env_var_def lit_def dev_env_flag_def DEFAULT_MAX_CONNECTIONS_def DEFAULT_MAX_CONNECTIONS_PER_IP_def
    DEFAULT_GRANT_REPLAY_CAPACITY_def)

lemma node_env_config:
  obtains cfg where "node_config_from_env demo_crypto node_env [''NW_NODE_ROLE''] (\<lambda>_. Some node_key_text) False False = Inr cfg"
proof -
  obtain v where "load_identity demo_crypto node_env (\<lambda>_. Some node_key_text) False False = Inr (Some v, Some [114], Some [110], Some [116])"
    by (rule node_env_identity)
  then obtain cfg where "node_config_from_env demo_crypto node_env [''NW_NODE_ROLE''] (\<lambda>_. Some node_key_text) False False = Inr cfg"
    by (simp add: node_config_from_env_def node_env_scalars reject_legacy_grant_key_env_def)
  then show thesis by (rule that)
qed

theorem release_node_enforces_witness:
  "\<exists>cfg v. node_config_from_env demo_crypto node_env [''NW_NODE_ROLE''] (\<lambda>_. Some node_key_text) False False = Inr cfg \<and>
     nc_grant_verifier cfg = Some v \<and> \<not> nc_allow_ungranted cfg \<and> limits_ok cfg"
  using node_env_config release_node_enforces by metis

end
