(* ===== verification/Pq_Handshake.thy ===== *)
theory Pq_Handshake
  imports Attest
begin

text \<open>
  The post-quantum key of the inner tunnel: the hybrid derivation (nil-crypto/src/psk.rs), the message
  codec (\<open>encode_parts\<close> and \<open>decode_parts\<close> of nil-transport/src/pqwg.rs), the frames of the control
  stream on both ends (nil-transport/src/masque/mod.rs and nil-node/src/pqwg.rs), the node's responder
  and the client's half of the exchange. The two key encapsulation mechanisms, SHA-256 and HKDF are
  parameters, and so are the sizes of a McEliece key and ciphertext. An inner tunnel is represented by
  what \<open>PqWgCore::new\<close> is built from: the peer's WireGuard key and the shared key.
\<close>

section \<open>The hybrid key\<close>

record ('d, 's) pq_lib =
  pq_sha256 :: "bytes \<Rightarrow> bytes"
  pq_hkdf :: "bytes \<Rightarrow> bytes \<Rightarrow> bytes \<Rightarrow> bytes"
  pq_ek_ok :: "bytes \<Rightarrow> bool"
  pq_mlkem_encapsulate :: "bytes \<Rightarrow> bytes \<times> bytes"
  pq_mlkem_decapsulate :: "'d \<Rightarrow> bytes \<Rightarrow> bytes option"
  pq_mc_encapsulate :: "bytes \<Rightarrow> bytes \<times> bytes"
  pq_mc_decapsulate :: "'s \<Rightarrow> bytes \<Rightarrow> bytes"
  pq_mc_pk_len :: nat
  pq_mc_ct_len :: nat

datatype psk_error = BadPublicKey string | BadCiphertext string

record pq_offer =
  of_mlkem_ek :: bytes
  of_mceliece_pk :: bytes

record pq_ciphertexts =
  ct_mlkem_ct :: bytes
  ct_mceliece_ct :: bytes

record ('d, 's) pq_initiator =
  pi_mlkem_dk :: 'd
  pi_mceliece_sk :: 's
  pi_mlkem_ek :: bytes
  pi_mceliece_pk :: bytes

record pq_transcript =
  tr_mlkem_ek :: bytes
  tr_mlkem_ct :: bytes
  tr_mceliece_pk :: bytes
  tr_mceliece_ct :: bytes

definition MLKEM_EK_LEN :: nat where "MLKEM_EK_LEN = 1568"
definition MLKEM_CT_LEN :: nat where "MLKEM_CT_LEN = 1568"
definition PSK_SALT :: bytes where "PSK_SALT = lit ''nil.psk.v2.hkdf-salt''"
definition PSK_INFO :: bytes where "PSK_INFO = lit ''nil.psk.v2.wireguard-preshared-key''"
definition PSK_TRANSCRIPT_LABEL :: bytes where "PSK_TRANSCRIPT_LABEL = lit ''nil.psk.v2.kem-transcript''"

text \<open>\<open>generate\<close>, given the two key pairs the libraries generate.\<close>

definition pq_generate :: "'d \<times> bytes \<Rightarrow> 's \<times> bytes \<Rightarrow> ('d, 's) pq_initiator \<times> pq_offer" where
  "pq_generate mlkem mc =
     (\<lparr>pi_mlkem_dk = fst mlkem, pi_mceliece_sk = fst mc, pi_mlkem_ek = snd mlkem, pi_mceliece_pk = snd mc\<rparr>,
      \<lparr>of_mlkem_ek = snd mlkem, of_mceliece_pk = snd mc\<rparr>)"

text \<open>The hashed transcript: each part with its length, cast to 32 bits, before it.\<close>

definition transcript_bytes :: "pq_transcript \<Rightarrow> bytes" where
  "transcript_bytes t =
     PSK_TRANSCRIPT_LABEL @
     concat (map (\<lambda>part. to_be 4 (word_of_nat (length part) :: u32) @ part)
       [tr_mlkem_ek t, tr_mlkem_ct t, tr_mceliece_pk t, tr_mceliece_ct t])"

text \<open>The two shared secrets have 32 bytes each by their types.\<close>

definition pq_combine :: "('d, 's) pq_lib \<Rightarrow> bytes \<Rightarrow> bytes \<Rightarrow> pq_transcript \<Rightarrow> bytes" where
  "pq_combine L ss_mlkem ss_mceliece t =
     pq_hkdf L PSK_SALT (ss_mlkem @ ss_mceliece) (PSK_INFO @ pq_sha256 L (transcript_bytes t))"

definition mceliece_pk_from_bytes :: "('d, 's) pq_lib \<Rightarrow> bytes \<Rightarrow> psk_error + bytes" where
  "mceliece_pk_from_bytes L b =
     (if length b \<noteq> pq_mc_pk_len L then Inl (BadPublicKey ''mceliece public-key length'') else Inr b)"

definition mceliece_ct_from_bytes :: "('d, 's) pq_lib \<Rightarrow> bytes \<Rightarrow> psk_error + bytes" where
  "mceliece_ct_from_bytes L b =
     (if length b \<noteq> pq_mc_ct_len L then Inl (BadCiphertext ''mceliece ciphertext length'') else Inr b)"

definition pq_finish :: "('d, 's) pq_lib \<Rightarrow> ('d, 's) pq_initiator \<Rightarrow> pq_ciphertexts \<Rightarrow> psk_error + bytes" where
  "pq_finish L i cts =
     bindE (ok_or (BadCiphertext ''ml-kem ciphertext length'') (pq_mlkem_decapsulate L (pi_mlkem_dk i) (ct_mlkem_ct cts))) (\<lambda>ss_mlkem.
     bindE (mceliece_ct_from_bytes L (ct_mceliece_ct cts)) (\<lambda>mc_ct.
     let ss_mc = pq_mc_decapsulate L (pi_mceliece_sk i) mc_ct in
     Inr (pq_combine L ss_mlkem ss_mc
       \<lparr>tr_mlkem_ek = pi_mlkem_ek i, tr_mlkem_ct = ct_mlkem_ct cts,
        tr_mceliece_pk = pi_mceliece_pk i, tr_mceliece_ct = ct_mceliece_ct cts\<rparr>)))"

definition responder_encapsulate :: "('d, 's) pq_lib \<Rightarrow> pq_offer \<Rightarrow> psk_error + (pq_ciphertexts \<times> bytes)" where
  "responder_encapsulate L offer =
     (if \<not> pq_ek_ok L (of_mlkem_ek offer) then Inl (BadPublicKey ''ml-kem encapsulation key'')
      else
        let (mlkem_ct, ss_mlkem) = pq_mlkem_encapsulate L (of_mlkem_ek offer) in
        bindE (mceliece_pk_from_bytes L (of_mceliece_pk offer)) (\<lambda>mc_pk.
        let (mc_ct, ss_mc) = pq_mc_encapsulate L mc_pk;
            cts = \<lparr>ct_mlkem_ct = mlkem_ct, ct_mceliece_ct = mc_ct\<rparr>
        in Inr (cts, pq_combine L ss_mlkem ss_mc
             \<lparr>tr_mlkem_ek = of_mlkem_ek offer, tr_mlkem_ct = mlkem_ct,
              tr_mceliece_pk = of_mceliece_pk offer, tr_mceliece_ct = mc_ct\<rparr>)))"

section \<open>Messages and frames\<close>

definition pq_encode_parts :: "bytes list \<Rightarrow> bytes" where
  "pq_encode_parts parts = concat (map (\<lambda>p. to_be 4 (word_of_nat (length p) :: u32) @ p) parts)"

definition MAX_PART :: "('d, 's) pq_lib \<Rightarrow> nat" where
  "MAX_PART L = pq_mc_pk_len L + 4096"

function pq_decode_parts :: "nat \<Rightarrow> bytes \<Rightarrow> bytes list option" where
  "pq_decode_parts max_part b =
     (if b = [] then Some []
      else if length b < 4 then None
      else
        let len = unat (of_be (take 4 b) :: u32); b1 = drop 4 b in
        if len > max_part then None
        else if length b1 < len then None
        else map_option (\<lambda>ps. take len b1 # ps) (pq_decode_parts max_part (drop len b1)))"
  by pat_completeness auto
termination by (relation "measure (length \<circ> snd)") auto

declare pq_decode_parts.simps [simp del]

text \<open>A control message on the stream, and the reassembly loop of the client's driver.\<close>

definition ctrl_frame :: "bytes \<Rightarrow> bytes" where
  "ctrl_frame msg = to_be 4 (word_of_nat (length msg) :: u32) @ msg"

definition CLIENT_MAX_CTRL_FRAME :: nat where "CLIENT_MAX_CTRL_FRAME = 8 * 1024"

function take_frames :: "nat \<Rightarrow> bytes \<Rightarrow> bytes list \<times> bytes" where
  "take_frames cap ctrl_in =
     (if length ctrl_in < 4 then ([], ctrl_in)
      else
        let len = unat (of_be (take 4 ctrl_in) :: u32) in
        if len > cap then ([], [])
        else if length ctrl_in < 4 + len then ([], ctrl_in)
        else
          let (frames, rest) = take_frames cap (drop (4 + len) ctrl_in) in
          (take len (drop 4 ctrl_in) # frames, rest))"
  by pat_completeness auto
termination by (relation "measure (length \<circ> snd)") auto

declare take_frames.simps [simp del]

section \<open>The node's responder\<close>

record client_pqwg =
  cq_ctrl_in :: bytes
  cq_ctrl_out :: bytes
  cq_tunn :: "(bytes \<times> bytes) option"

definition client_pqwg_default :: client_pqwg where
  "client_pqwg_default = \<lparr>cq_ctrl_in = [], cq_ctrl_out = [], cq_tunn = None\<rparr>"

definition NODE_MAX_CTRL_FRAME :: "('d, 's) pq_lib \<Rightarrow> nat" where
  "NODE_MAX_CTRL_FRAME L = pq_mc_pk_len L + MLKEM_EK_LEN + 4096"

definition handle_offer :: "('d, 's) pq_lib \<Rightarrow> bytes \<Rightarrow> client_pqwg \<Rightarrow> bytes option \<times> client_pqwg" where
  "handle_offer L offer_msg c =
     (case pq_decode_parts (MAX_PART L) offer_msg of
        None \<Rightarrow> (None, c)
      | Some parts \<Rightarrow>
          if length parts \<noteq> 3 then (None, c)
          else if length (parts ! 0) \<noteq> 32 then (None, c)
          else
            (case responder_encapsulate L \<lparr>of_mlkem_ek = parts ! 1, of_mceliece_pk = parts ! 2\<rparr> of
               Inl _ \<Rightarrow> (None, c)
             | Inr (cts, psk) \<Rightarrow>
                 (Some (pq_encode_parts [ct_mlkem_ct cts, ct_mceliece_ct cts]), c\<lparr>cq_tunn := Some (parts ! 0, psk)\<rparr>)))"

definition answer_offer :: "('d, 's) pq_lib \<Rightarrow> bytes \<Rightarrow> client_pqwg \<Rightarrow> client_pqwg" where
  "answer_offer L offer_msg c =
     (case handle_offer L offer_msg c of
        (Some cts_msg, c1) \<Rightarrow> c1\<lparr>cq_ctrl_out := cq_ctrl_out c1 @ to_be 4 (word_of_nat (length cts_msg) :: u32) @ cts_msg\<rparr>
      | (None, c1) \<Rightarrow> c1)"

lemma answer_offer_ctrl_in [simp]: "cq_ctrl_in (answer_offer L m c) = cq_ctrl_in c"
  by (auto simp: answer_offer_def handle_offer_def split: option.splits sum.splits prod.splits if_splits)

function control_loop :: "('d, 's) pq_lib \<Rightarrow> client_pqwg \<Rightarrow> client_pqwg" where
  "control_loop L c =
     (if length (cq_ctrl_in c) < 4 then c
      else
        let len = unat (of_be (take 4 (cq_ctrl_in c)) :: u32) in
        if len > NODE_MAX_CTRL_FRAME L then c\<lparr>cq_ctrl_in := []\<rparr>
        else if length (cq_ctrl_in c) < 4 + len then c
        else
          let offer_msg = take len (drop 4 (cq_ctrl_in c));
              c1 = c\<lparr>cq_ctrl_in := drop (4 + len) (cq_ctrl_in c)\<rparr>
          in control_loop L (answer_offer L offer_msg c1))"
  by pat_completeness auto
termination by (relation "measure (\<lambda>(_, c). length (cq_ctrl_in c))") auto

declare control_loop.simps [simp del]

definition on_control_bytes :: "('d, 's) pq_lib \<Rightarrow> bytes \<Rightarrow> client_pqwg \<Rightarrow> client_pqwg" where
  "on_control_bytes L bs c = control_loop L (c\<lparr>cq_ctrl_in := cq_ctrl_in c @ bs\<rparr>)"

section \<open>The client's half\<close>

datatype exchange_error = MalformedCiphertexts | CiphertextParts | Decapsulate psk_error

definition offer_message :: "bytes \<Rightarrow> pq_offer \<Rightarrow> bytes" where
  "offer_message wg_public offer = pq_encode_parts [wg_public, of_mlkem_ek offer, of_mceliece_pk offer]"

definition receive_ciphertexts :: "('d, 's) pq_lib \<Rightarrow> ('d, 's) pq_initiator \<Rightarrow> bytes \<Rightarrow> exchange_error + bytes" where
  "receive_ciphertexts L i cts_msg =
     bindE (ok_or MalformedCiphertexts (pq_decode_parts (MAX_PART L) cts_msg)) (\<lambda>parts.
     if length parts \<noteq> 2 then Inl CiphertextParts
     else map_err Decapsulate (pq_finish L i \<lparr>ct_mlkem_ct = parts ! 0, ct_mceliece_ct = parts ! 1\<rparr>))"

text \<open>The driver's control input: the reassembly buffer and the messages handed to the application.\<close>

definition client_on_data :: "bytes \<Rightarrow> bytes \<times> bytes list \<Rightarrow> bytes \<times> bytes list" where
  "client_on_data bs s =
     (let (frames, rest) = take_frames CLIENT_MAX_CTRL_FRAME (fst s @ bs) in (rest, snd s @ frames))"

section \<open>Codecs\<close>

lemma be4_length: "n < 2 ^ 32 \<Longrightarrow> unat (of_be (to_be 4 (word_of_nat n :: u32)) :: u32) = n"
  by (simp add: of_be_to_be unat_of_nat take_bit_nat_eq_self)

lemma to_be_4_ne [simp]: "to_be 4 w \<noteq> []"
  by (metis length_to_be list.size(3) zero_neq_numeral)

lemma pq_decode_encode_parts:
  assumes "\<And>p. p \<in> set ps \<Longrightarrow> length p \<le> m \<and> length p < 2 ^ 32"
  shows "pq_decode_parts m (pq_encode_parts ps) = Some ps"
  using assms
proof (induction ps)
  case Nil
  then show ?case by (simp add: pq_encode_parts_def pq_decode_parts.simps)
next
  case (Cons p ps)
  have e: "pq_encode_parts (p # ps) = to_be 4 (word_of_nat (length p) :: u32) @ p @ pq_encode_parts ps"
    by (simp add: pq_encode_parts_def)
  have "pq_decode_parts m (pq_encode_parts ps) = Some ps" using Cons by simp
  moreover have "unat (of_be (to_be 4 (word_of_nat (length p) :: u32)) :: u32) = length p"
    using Cons.prems [of p] by (intro be4_length) simp
  ultimately show ?case using Cons.prems [of p] unfolding e
    by (subst pq_decode_parts.simps) (simp add: Let_def)
qed

lemma ctrl_frame_parts:
  assumes "length m < 2 ^ 32"
  shows "length (ctrl_frame m) = 4 + length m" and "drop 4 (ctrl_frame m) = m" and "unat (of_be (take 4 (ctrl_frame m)) :: u32) = length m"
  using be4_length [OF assms] by (simp_all add: ctrl_frame_def)

text \<open>A proper prefix of a frame that is long enough shows the length of the message.\<close>

lemma frame_prefix:
  assumes "length m < 2 ^ 32" and "b @ r = ctrl_frame m" and "r \<noteq> []"
  shows "length b < 4 + length m" and "4 \<le> length b \<Longrightarrow> unat (of_be (take 4 b) :: u32) = length m"
proof -
  have l: "length b + length r = 4 + length m" using arg_cong [OF assms(2), of length] ctrl_frame_parts(1) [OF assms(1)] by simp
  with assms(3) show "length b < 4 + length m" by (cases r) auto
  assume "4 \<le> length b"
  then have "take 4 (ctrl_frame m) = take 4 b" using assms(2) [symmetric] by simp
  then show "unat (of_be (take 4 b) :: u32) = length m" using ctrl_frame_parts(3) [OF assms(1)] by simp
qed

section \<open>Readers of framed messages\<close>

text \<open>
  What both ends of the control stream promise: bytes that do not complete a frame are kept, and a
  completed frame is delivered. However the stream is cut into pieces, a framed message then arrives
  once and whole.
\<close>

locale frame_reader =
  fixes cap :: nat and buf :: "'s \<Rightarrow> bytes" and keep :: "bytes \<Rightarrow> 's \<Rightarrow> 's"
    and deliver :: "bytes \<Rightarrow> 's \<Rightarrow> 's" and feed :: "bytes \<Rightarrow> 's \<Rightarrow> 's"
  assumes buf_keep: "buf (keep b s) = b"
    and keep_keep: "keep b (keep a s) = keep b s"
    and keep_buf: "keep (buf s) s = s"
    and buf_deliver: "buf (deliver m s) = buf s"
    and feed_partial: "length m \<le> cap \<Longrightarrow> length m < 2 ^ 32 \<Longrightarrow> buf s @ bs @ r = ctrl_frame m \<Longrightarrow> r \<noteq> [] \<Longrightarrow>
      feed bs s = keep (buf s @ bs) s"
    and feed_whole: "length m \<le> cap \<Longrightarrow> length m < 2 ^ 32 \<Longrightarrow> buf s @ bs = ctrl_frame m \<Longrightarrow> feed bs s = deliver m (keep [] s)"
begin

lemma feed_nothing: "buf s = [] \<Longrightarrow> concat cs = [] \<Longrightarrow> fold feed cs s = s"
proof (induction cs)
  case (Cons c cs)
  have "feed [] s = keep [] s" using feed_partial [of "[]" s "[]" "ctrl_frame []"] Cons.prems(1) by (simp add: ctrl_frame_def)
  also have "\<dots> = s" using keep_buf [of s] Cons.prems(1) by simp
  finally show ?case using Cons by simp
qed simp

lemma feed_chunks:
  assumes "length m \<le> cap" and "length m < 2 ^ 32" and "buf s @ concat cs = ctrl_frame m" and "concat cs \<noteq> []"
  shows "fold feed cs s = deliver m (keep [] s)"
  using assms(3,4)
proof (induction cs arbitrary: s)
  case (Cons c cs)
  show ?case
  proof (cases "concat cs = []")
    case True
    have "buf s @ c = ctrl_frame m" using Cons.prems(1) unfolding concat.simps True append_Nil2 .
    then have "feed c s = deliver m (keep [] s)" by (rule feed_whole [OF assms(1,2)])
    moreover have "buf (deliver m (keep [] s)) = []" by (simp add: buf_deliver buf_keep)
    ultimately show ?thesis using feed_nothing True by simp
  next
    case False
    then have "feed c s = keep (buf s @ c) s" using feed_partial [OF assms(1,2), of s c "concat cs"] Cons.prems(1) by simp
    moreover have "fold feed cs (keep (buf s @ c) s) = deliver m (keep [] (keep (buf s @ c) s))"
      using Cons.prems(1) False by (intro Cons.IH) (simp_all add: buf_keep)
    ultimately show ?thesis by (simp add: keep_keep)
  qed
qed simp

lemma message_arrives:
  assumes "length m \<le> cap" and "length m < 2 ^ 32" and "buf s = []" and "concat cs = ctrl_frame m"
  shows "fold feed cs s = deliver m s"
proof -
  have "concat cs \<noteq> []" using assms(4) ctrl_frame_parts(1) [OF assms(2)] by (metis length_0_conv add_is_0 zero_neq_numeral)
  then show ?thesis using feed_chunks [OF assms(1,2), of s cs] keep_buf [of s] assms(3,4) by simp
qed

end

lemma take_frames_partial:
  "length m \<le> cap \<Longrightarrow> length m < 2 ^ 32 \<Longrightarrow> b @ r = ctrl_frame m \<Longrightarrow> r \<noteq> [] \<Longrightarrow> take_frames cap b = ([], b)"
  using frame_prefix [of m b r] by (subst take_frames.simps) (simp add: Let_def)

lemma take_frames_whole: "length m \<le> cap \<Longrightarrow> length m < 2 ^ 32 \<Longrightarrow> take_frames cap (ctrl_frame m) = ([m], [])"
  using ctrl_frame_parts [of m] by (subst take_frames.simps) (simp add: Let_def take_frames.simps [of _ "[]"])

interpretation client_control: frame_reader CLIENT_MAX_CTRL_FRAME fst "\<lambda>b s. (b, snd s)" "\<lambda>m s. (fst s, snd s @ [m])" client_on_data
  by unfold_locales (auto simp: client_on_data_def take_frames_partial take_frames_whole append_assoc [symmetric] simp del: append_assoc)

lemma control_loop_partial:
  "length m \<le> NODE_MAX_CTRL_FRAME L \<Longrightarrow> length m < 2 ^ 32 \<Longrightarrow> cq_ctrl_in c @ r = ctrl_frame m \<Longrightarrow> r \<noteq> [] \<Longrightarrow> control_loop L c = c"
  using frame_prefix [of m "cq_ctrl_in c" r] by (subst control_loop.simps) (simp add: Let_def)

lemma control_loop_whole:
  "length m \<le> NODE_MAX_CTRL_FRAME L \<Longrightarrow> length m < 2 ^ 32 \<Longrightarrow> cq_ctrl_in c = ctrl_frame m \<Longrightarrow>
   control_loop L c = answer_offer L m (c\<lparr>cq_ctrl_in := []\<rparr>)"
  using ctrl_frame_parts [of m] by (subst control_loop.simps) (simp add: Let_def control_loop.simps [of _ "answer_offer L m x" for x])

interpretation node_control: frame_reader "NODE_MAX_CTRL_FRAME L" cq_ctrl_in "\<lambda>b c. c\<lparr>cq_ctrl_in := b\<rparr>" "answer_offer L" "on_control_bytes L"
  for L :: "('d, 's) pq_lib"
  by unfold_locales (auto simp: on_control_bytes_def control_loop_partial control_loop_whole)

text \<open>Whatever a client sends, the node never holds more than one frame of it.\<close>

lemma control_loop_bounded: "length (cq_ctrl_in (control_loop L c)) < 4 + NODE_MAX_CTRL_FRAME L"
proof (induction L c rule: control_loop.induct)
  case (1 L c)
  then show ?case by (subst control_loop.simps) (auto simp: Let_def)
qed

section \<open>Properties\<close>

text \<open>Key encapsulation as its libraries document it: what is encapsulated to a key is what its secret opens.\<close>

definition kem_pair :: "('d, 's) pq_lib \<Rightarrow> 'd \<times> bytes \<Rightarrow> 's \<times> bytes \<Rightarrow> bool" where
  "kem_pair L mlkem mc \<longleftrightarrow>
     pq_ek_ok L (snd mlkem) \<and> length (snd mlkem) = MLKEM_EK_LEN \<and>
     length (fst (pq_mlkem_encapsulate L (snd mlkem))) = MLKEM_CT_LEN \<and>
     pq_mlkem_decapsulate L (fst mlkem) (fst (pq_mlkem_encapsulate L (snd mlkem))) = Some (snd (pq_mlkem_encapsulate L (snd mlkem))) \<and>
     length (snd mc) = pq_mc_pk_len L \<and> pq_mc_pk_len L < 2 ^ 31 \<and>
     length (fst (pq_mc_encapsulate L (snd mc))) = pq_mc_ct_len L \<and> pq_mc_ct_len L \<le> 4096 \<and>
     pq_mc_decapsulate L (fst mc) (fst (pq_mc_encapsulate L (snd mc))) = snd (pq_mc_encapsulate L (snd mc))"

text \<open>The node's key and reply for a well-formed offer.\<close>

definition agreed :: "('d, 's) pq_lib \<Rightarrow> pq_offer \<Rightarrow> pq_ciphertexts \<Rightarrow> bytes \<Rightarrow> bool" where
  "agreed L offer cts psk \<longleftrightarrow> responder_encapsulate L offer = Inr (cts, psk)"

lemma kem_pair_responds:
  assumes "kem_pair L mlkem mc" and "pq_generate mlkem mc = (i, offer)"
  obtains cts psk where "agreed L offer cts psk" and "pq_finish L i cts = Inr psk"
    and "length (ct_mlkem_ct cts) = MLKEM_CT_LEN" and "length (ct_mceliece_ct cts) = pq_mc_ct_len L"
proof -
  obtain c1 s1 c2 s2 where e: "pq_mlkem_encapsulate L (snd mlkem) = (c1, s1)" "pq_mc_encapsulate L (snd mc) = (c2, s2)"
    by (meson surj_pair)
  show thesis
    using assms e
    by (intro that [of "\<lparr>ct_mlkem_ct = c1, ct_mceliece_ct = c2\<rparr>"])
      (auto simp: agreed_def kem_pair_def pq_generate_def responder_encapsulate_def mceliece_pk_from_bytes_def pq_finish_def
        mceliece_ct_from_bytes_def Let_def)
qed

lemma length_offer_message:
  "length (offer_message wg offer) = 12 + length wg + length (of_mlkem_ek offer) + length (of_mceliece_pk offer)"
  by (simp add: offer_message_def pq_encode_parts_def)

lemma handle_offer_message:
  assumes "length wg = 32" and "length (of_mlkem_ek offer) = MLKEM_EK_LEN" and "length (of_mceliece_pk offer) = pq_mc_pk_len L"
    and "pq_mc_pk_len L < 2 ^ 31" and "agreed L offer cts psk"
  shows "handle_offer L (offer_message wg offer) c =
    (Some (pq_encode_parts [ct_mlkem_ct cts, ct_mceliece_ct cts]), c\<lparr>cq_tunn := Some (wg, psk)\<rparr>)"
proof -
  have "pq_decode_parts (MAX_PART L) (offer_message wg offer) = Some [wg, of_mlkem_ek offer, of_mceliece_pk offer]"
    unfolding offer_message_def using assms(1-4)
    by (intro pq_decode_encode_parts) (auto simp: MAX_PART_def MLKEM_EK_LEN_def)
  then show ?thesis using assms(1,5) by (cases offer) (simp add: handle_offer_def agreed_def)
qed

text \<open>
  C9: the two ends of the post-quantum exchange agree. However the control stream cuts the client's
  offer into pieces, the node builds one inner tunnel for the client's WireGuard key and answers with one
  framed reply; however that reply is cut into pieces, the client receives it whole and derives the key
  the node's tunnel has.
\<close>

theorem pq_exchange_agrees:
  assumes "kem_pair L mlkem mc" and "pq_generate mlkem mc = (i, offer)" and "length wg = 32"
    and "concat pieces = ctrl_frame (offer_message wg offer)"
  shows "\<exists>psk reply.
    fold (on_control_bytes L) pieces client_pqwg_default = \<lparr>cq_ctrl_in = [], cq_ctrl_out = ctrl_frame reply, cq_tunn = Some (wg, psk)\<rparr> \<and>
    (\<forall>pieces'. concat pieces' = ctrl_frame reply \<longrightarrow> fold client_on_data pieces' ([], []) = ([], [reply])) \<and>
    receive_ciphertexts L i reply = Inr psk"
proof -
  obtain cts psk where a: "agreed L offer cts psk" "pq_finish L i cts = Inr psk"
      "length (ct_mlkem_ct cts) = MLKEM_CT_LEN" "length (ct_mceliece_ct cts) = pq_mc_ct_len L"
    using kem_pair_responds [OF assms(1,2)] by metis
  have o: "length (of_mlkem_ek offer) = MLKEM_EK_LEN" "length (of_mceliece_pk offer) = pq_mc_pk_len L" "pq_mc_pk_len L < 2 ^ 31"
      "pq_mc_ct_len L \<le> 4096"
    using assms(1,2) by (auto simp: kem_pair_def pq_generate_def)
  let ?reply = "pq_encode_parts [ct_mlkem_ct cts, ct_mceliece_ct cts]"
  have r: "length ?reply \<le> CLIENT_MAX_CTRL_FRAME" "length ?reply < 2 ^ 32"
    using a(3,4) o(4) by (simp_all add: pq_encode_parts_def CLIENT_MAX_CTRL_FRAME_def MLKEM_CT_LEN_def)
  have "fold (on_control_bytes L) pieces client_pqwg_default = answer_offer L (offer_message wg offer) client_pqwg_default"
    using assms(3,4) o by (intro node_control.message_arrives)
      (simp_all add: length_offer_message NODE_MAX_CTRL_FRAME_def MLKEM_EK_LEN_def client_pqwg_default_def)
  also have "\<dots> = \<lparr>cq_ctrl_in = [], cq_ctrl_out = ctrl_frame ?reply, cq_tunn = Some (wg, psk)\<rparr>"
    using handle_offer_message [OF assms(3) o(1-3) a(1)] by (simp add: answer_offer_def client_pqwg_default_def ctrl_frame_def)
  finally have node: "fold (on_control_bytes L) pieces client_pqwg_default = \<dots>" .
  have client: "fold client_on_data pieces' ([], []) = ([], [?reply])" if "concat pieces' = ctrl_frame ?reply" for pieces'
    using client_control.message_arrives [OF r _ that, of "([], [])"] by simp
  have "pq_decode_parts (MAX_PART L) ?reply = Some [ct_mlkem_ct cts, ct_mceliece_ct cts]"
    using a(3,4) o(4) by (intro pq_decode_encode_parts) (auto simp: MAX_PART_def MLKEM_CT_LEN_def)
  then have "receive_ciphertexts L i ?reply = Inr psk" using a(2) by (cases cts) (simp add: receive_ciphertexts_def)
  with node client show ?thesis by blast
qed

lemma length_prefixed_inject:
  assumes "to_be 4 (word_of_nat (length p) :: u32) @ p @ r = to_be 4 (word_of_nat (length q) :: u32) @ q @ t"
    and "length p < 2 ^ 32" and "length q < 2 ^ 32"
  shows "p = q \<and> r = t"
proof -
  have "to_be 4 (word_of_nat (length p) :: u32) = to_be 4 (word_of_nat (length q) :: u32) \<and> p @ r = q @ t"
    using assms(1) by (rule iffD1 [OF append_eq_append_conv, rotated]) simp
  note e = conjunct1 [OF this] conjunct2 [OF this]
  have "length p = length q"
    using be4_length [OF assms(2)] be4_length [OF assms(3)] unfolding e(1) by (rule trans [OF sym])
  then show ?thesis using iffD1 [OF append_eq_append_conv e(2)] by blast
qed

definition sized_transcript :: "pq_transcript \<Rightarrow> bool" where
  "sized_transcript t \<longleftrightarrow>
     length (tr_mlkem_ek t) < 2 ^ 32 \<and> length (tr_mlkem_ct t) < 2 ^ 32 \<and> length (tr_mceliece_pk t) < 2 ^ 32 \<and> length (tr_mceliece_ct t) < 2 ^ 32"

lemma transcript_bytes_inject:
  assumes "transcript_bytes t = transcript_bytes u" and "sized_transcript t" and "sized_transcript u"
  shows "t = u"
proof -
  note len = assms(2,3) [unfolded sized_transcript_def]
  from assms(1) have 1: "to_be 4 (word_of_nat (length (tr_mlkem_ek t)) :: u32) @ tr_mlkem_ek t @
      to_be 4 (word_of_nat (length (tr_mlkem_ct t)) :: u32) @ tr_mlkem_ct t @
      to_be 4 (word_of_nat (length (tr_mceliece_pk t)) :: u32) @ tr_mceliece_pk t @
      to_be 4 (word_of_nat (length (tr_mceliece_ct t)) :: u32) @ tr_mceliece_ct t @ [] =
    to_be 4 (word_of_nat (length (tr_mlkem_ek u)) :: u32) @ tr_mlkem_ek u @
      to_be 4 (word_of_nat (length (tr_mlkem_ct u)) :: u32) @ tr_mlkem_ct u @
      to_be 4 (word_of_nat (length (tr_mceliece_pk u)) :: u32) @ tr_mceliece_pk u @
      to_be 4 (word_of_nat (length (tr_mceliece_ct u)) :: u32) @ tr_mceliece_ct u @ []"
    by (simp add: transcript_bytes_def)
  note 2 = length_prefixed_inject [OF 1]
  note 3 = length_prefixed_inject [OF conjunct2 [OF 2]]
  note 4 = length_prefixed_inject [OF conjunct2 [OF 3]]
  note 5 = length_prefixed_inject [OF conjunct2 [OF 4]]
  from 2 3 4 5 len show ?thesis by (simp add: pq_transcript.equality)
qed

lemma pq_combine_binds:
  assumes "pq_combine L a b t = pq_combine L a' b' t'" and "length a = length a'" and "sized_transcript t" and "sized_transcript t'"
  shows "t = t' \<and> a = a' \<and> b = b' \<or> collides (pq_sha256 L) (transcript_bytes t) (transcript_bytes t') \<or>
    collides (\<lambda>(ikm, info). pq_hkdf L PSK_SALT ikm info) (a @ b, PSK_INFO @ pq_sha256 L (transcript_bytes t))
      (a' @ b', PSK_INFO @ pq_sha256 L (transcript_bytes t'))"
  using assms transcript_bytes_inject [of t t'] by (auto simp: pq_combine_def collides_def append_eq_append_conv)

text \<open>What the client and the node derive their key from.\<close>

definition client_transcript :: "('d, 's) pq_initiator \<Rightarrow> pq_ciphertexts \<Rightarrow> pq_transcript" where
  "client_transcript i cts =
     \<lparr>tr_mlkem_ek = pi_mlkem_ek i, tr_mlkem_ct = ct_mlkem_ct cts,
      tr_mceliece_pk = pi_mceliece_pk i, tr_mceliece_ct = ct_mceliece_ct cts\<rparr>"

definition node_transcript :: "pq_offer \<Rightarrow> pq_ciphertexts \<Rightarrow> pq_transcript" where
  "node_transcript offer cts =
     \<lparr>tr_mlkem_ek = of_mlkem_ek offer, tr_mlkem_ct = ct_mlkem_ct cts,
      tr_mceliece_pk = of_mceliece_pk offer, tr_mceliece_ct = ct_mceliece_ct cts\<rparr>"

definition client_secrets :: "('d, 's) pq_lib \<Rightarrow> ('d, 's) pq_initiator \<Rightarrow> pq_ciphertexts \<Rightarrow> bytes \<times> bytes" where
  "client_secrets L i cts =
     (case pq_mlkem_decapsulate L (pi_mlkem_dk i) (ct_mlkem_ct cts) of None \<Rightarrow> [] | Some ss \<Rightarrow> ss,
      pq_mc_decapsulate L (pi_mceliece_sk i) (ct_mceliece_ct cts))"

definition node_secrets :: "('d, 's) pq_lib \<Rightarrow> pq_offer \<Rightarrow> bytes \<times> bytes" where
  "node_secrets L offer = (snd (pq_mlkem_encapsulate L (of_mlkem_ek offer)), snd (pq_mc_encapsulate L (of_mceliece_pk offer)))"

definition kdf_input :: "('d, 's) pq_lib \<Rightarrow> bytes \<times> bytes \<Rightarrow> pq_transcript \<Rightarrow> bytes \<times> bytes" where
  "kdf_input L ss t = (fst ss @ snd ss, PSK_INFO @ pq_sha256 L (transcript_bytes t))"

lemma pq_finish_combines:
  "pq_finish L i cts = Inr psk \<Longrightarrow>
     psk = pq_combine L (fst (client_secrets L i cts)) (snd (client_secrets L i cts)) (client_transcript i cts)"
  by (auto simp: pq_finish_def client_secrets_def client_transcript_def mceliece_ct_from_bytes_def Let_def split: if_splits)

lemma responder_combines:
  "responder_encapsulate L offer = Inr (cts, psk) \<Longrightarrow>
     psk = pq_combine L (fst (node_secrets L offer)) (snd (node_secrets L offer)) (node_transcript offer cts)"
  by (auto simp: responder_encapsulate_def node_secrets_def node_transcript_def mceliece_pk_from_bytes_def Let_def
      split: if_splits prod.splits)

text \<open>
  C10: the shared key commits to the exchange. When a client and a node end up with one key, the offer the
  node answered and the ciphertexts the client opened are the ones the other end sent, or the two runs
  exhibit a collision of SHA-256 on the transcripts or of HKDF on its inputs. Changing a public key or a
  ciphertext on the way leaves the ends with different keys.
\<close>

theorem psk_binds_exchange:
  assumes "pq_finish L i cts = Inr psk" and "responder_encapsulate L offer = Inr (cts', psk)"
    and "length (fst (client_secrets L i cts)) = 32" and "length (fst (node_secrets L offer)) = 32"
    and "sized_transcript (client_transcript i cts)" and "sized_transcript (node_transcript offer cts')"
  shows "cts = cts' \<and> offer = \<lparr>of_mlkem_ek = pi_mlkem_ek i, of_mceliece_pk = pi_mceliece_pk i\<rparr> \<or>
    collides (pq_sha256 L) (transcript_bytes (client_transcript i cts)) (transcript_bytes (node_transcript offer cts')) \<or>
    collides (\<lambda>(ikm, info). pq_hkdf L PSK_SALT ikm info)
      (kdf_input L (client_secrets L i cts) (client_transcript i cts)) (kdf_input L (node_secrets L offer) (node_transcript offer cts'))"
proof -
  have "pq_combine L (fst (client_secrets L i cts)) (snd (client_secrets L i cts)) (client_transcript i cts) =
      pq_combine L (fst (node_secrets L offer)) (snd (node_secrets L offer)) (node_transcript offer cts')"
    using pq_finish_combines [OF assms(1)] responder_combines [OF assms(2)] by simp
  from pq_combine_binds [OF this _ assms(5,6)] assms(3,4)
  have "client_transcript i cts = node_transcript offer cts' \<or>
    collides (pq_sha256 L) (transcript_bytes (client_transcript i cts)) (transcript_bytes (node_transcript offer cts')) \<or>
    collides (\<lambda>(ikm, info). pq_hkdf L PSK_SALT ikm info)
      (kdf_input L (client_secrets L i cts) (client_transcript i cts)) (kdf_input L (node_secrets L offer) (node_transcript offer cts'))"
    by (auto simp: kdf_input_def)
  moreover have "cts = cts' \<and> offer = \<lparr>of_mlkem_ek = pi_mlkem_ek i, of_mceliece_pk = pi_mceliece_pk i\<rparr>"
    if "client_transcript i cts = node_transcript offer cts'"
    using that by (cases cts; cases cts'; cases offer) (simp add: client_transcript_def node_transcript_def)
  ultimately show ?thesis by blast
qed

text \<open>An instance with fixed secrets.\<close>

definition demo_pq :: "(unit, unit) pq_lib" where
  "demo_pq = \<lparr>pq_sha256 = (\<lambda>m. take 32 (rev m)), pq_hkdf = (\<lambda>_ ikm info. take 32 (rev info)), pq_ek_ok = (\<lambda>ek. length ek = MLKEM_EK_LEN),
     pq_mlkem_encapsulate = (\<lambda>_. (replicate MLKEM_CT_LEN 1, replicate 32 2)), pq_mlkem_decapsulate = (\<lambda>_ _. Some (replicate 32 2)),
     pq_mc_encapsulate = (\<lambda>_. ([7], replicate 32 3)), pq_mc_decapsulate = (\<lambda>_ _. replicate 32 3), pq_mc_pk_len = 1, pq_mc_ct_len = 1\<rparr>"

lemma demo_pq_pair: "kem_pair demo_pq ((), replicate MLKEM_EK_LEN 0) ((), [9])"
  by (simp add: kem_pair_def demo_pq_def)

theorem pq_exchange_agrees_witness:
  "\<exists>psk reply. cq_tunn (fold (on_control_bytes demo_pq)
       [take 3 (ctrl_frame (offer_message (replicate 32 5) (snd (pq_generate ((), replicate MLKEM_EK_LEN 0) ((), [9]))))),
        drop 3 (ctrl_frame (offer_message (replicate 32 5) (snd (pq_generate ((), replicate MLKEM_EK_LEN 0) ((), [9])))))]
       client_pqwg_default) = Some (replicate 32 5, psk) \<and>
     receive_ciphertexts demo_pq (fst (pq_generate ((), replicate MLKEM_EK_LEN 0) ((), [9]))) reply = Inr psk"
proof -
  let ?g = "pq_generate ((), replicate MLKEM_EK_LEN 0) ((), [9])"
  let ?f = "ctrl_frame (offer_message (replicate 32 5) (snd ?g))"
  have "concat [take 3 ?f, drop 3 ?f] = ?f" by simp
  from pq_exchange_agrees [OF demo_pq_pair surjective_pairing [of ?g] _ this] show ?thesis by force
qed

theorem psk_binds_exchange_witness:
  "\<exists>psk cts. responder_encapsulate demo_pq \<lparr>of_mlkem_ek = replicate MLKEM_EK_LEN 0, of_mceliece_pk = [9]\<rparr> = Inr (cts, psk) \<and>
     (\<forall>offer. responder_encapsulate demo_pq offer = Inr (cts, psk) \<and> length (of_mlkem_ek offer) = MLKEM_EK_LEN \<longrightarrow>
        offer = \<lparr>of_mlkem_ek = replicate MLKEM_EK_LEN 0, of_mceliece_pk = [9]\<rparr> \<or>
        collides (pq_sha256 demo_pq) (transcript_bytes (node_transcript \<lparr>of_mlkem_ek = replicate MLKEM_EK_LEN 0, of_mceliece_pk = [9]\<rparr> cts))
          (transcript_bytes (node_transcript offer cts)) \<or>
        collides (\<lambda>(ikm, info). pq_hkdf demo_pq PSK_SALT ikm info)
          (kdf_input demo_pq (replicate 32 2, replicate 32 3) (node_transcript \<lparr>of_mlkem_ek = replicate MLKEM_EK_LEN 0, of_mceliece_pk = [9]\<rparr> cts))
          (kdf_input demo_pq (node_secrets demo_pq offer) (node_transcript offer cts)))"
proof -
  let ?o = "\<lparr>of_mlkem_ek = replicate MLKEM_EK_LEN 0, of_mceliece_pk = [9 :: byte]\<rparr>"
  let ?i = "\<lparr>pi_mlkem_dk = (), pi_mceliece_sk = (), pi_mlkem_ek = replicate MLKEM_EK_LEN 0, pi_mceliece_pk = [9 :: byte]\<rparr>"
  have "pq_generate ((), replicate MLKEM_EK_LEN 0) ((), [9]) = (?i, ?o)" by (simp add: pq_generate_def)
  then obtain cts psk where a: "agreed demo_pq ?o cts psk" "pq_finish demo_pq ?i cts = Inr psk"
      "length (ct_mlkem_ct cts) = MLKEM_CT_LEN" "length (ct_mceliece_ct cts) = pq_mc_ct_len demo_pq"
    using kem_pair_responds [OF demo_pq_pair] by metis
  have s: "client_secrets demo_pq ?i cts = (replicate 32 2, replicate 32 3)" "length (fst (node_secrets demo_pq offer)) = 32" for offer
    by (simp_all add: client_secrets_def node_secrets_def demo_pq_def)
  have t: "client_transcript ?i cts = node_transcript ?o cts" by (simp add: client_transcript_def node_transcript_def)
  have "offer = ?o \<or>
      collides (pq_sha256 demo_pq) (transcript_bytes (node_transcript ?o cts)) (transcript_bytes (node_transcript offer cts)) \<or>
      collides (\<lambda>(ikm, info). pq_hkdf demo_pq PSK_SALT ikm info)
        (kdf_input demo_pq (replicate 32 2, replicate 32 3) (node_transcript ?o cts))
        (kdf_input demo_pq (node_secrets demo_pq offer) (node_transcript offer cts))"
    if "responder_encapsulate demo_pq offer = Inr (cts, psk)" "length (of_mlkem_ek offer) = MLKEM_EK_LEN" for offer
  proof -
    have "length (of_mceliece_pk offer) = 1"
      using that(1) by (auto simp: responder_encapsulate_def mceliece_pk_from_bytes_def demo_pq_def split: if_splits)
    then have "sized_transcript (node_transcript offer cts)" "sized_transcript (client_transcript ?i cts)"
      using a(3,4) that(2) by (auto simp: sized_transcript_def node_transcript_def client_transcript_def demo_pq_def
          MLKEM_CT_LEN_def MLKEM_EK_LEN_def)
    from psk_binds_exchange [OF a(2) that(1) _ s(2) this(2,1)] show ?thesis by (simp add: s t)
  qed
  with a(1) show ?thesis unfolding agreed_def by blast
qed

end
