(* ===== verification/Node_Server.thy ===== *)
theory Node_Server
  imports Node_Config Grant_Replay Address_Pool Connectip Checksum Retry_Token Pq_Handshake
begin

text \<open>
  The node's server (nil-node/src/server.rs): connection acceptance, the authorisation of a tunnel, the
  packets of a client and the replies to it. QUIC, HTTP/3 and WireGuard are third-party code. Of a
  connection the model keeps what the server's own record keeps beside the QUIC state; what the libraries
  report (a parsed packet header, a request, whether a response was sent, what the inner tunnel
  decrypted, which connections are closed) and the clock are inputs of the steps. The event loop is a
  sequence of steps: a packet from the network or from the TUN device, then one step per client, then the
  removal of closed connections.
\<close>

section \<open>Packets\<close>

datatype packet_policy = ExitPolicy | RelayPolicy socket_addr_v4

definition relay_packet_targets :: "bytes \<Rightarrow> socket_addr_v4 \<Rightarrow> bool" where
  "relay_packet_targets packet endpoint =
     (case endpoint of SocketAddrV4 ip port \<Rightarrow>
      if length packet < 28 \<or> drop_bit 4 (packet ! 0) \<noteq> 4 then False
      else
        let ihl = unat (packet ! 0 AND 0x0f) * 4 in
        if ihl < 20 \<or> ihl + 8 > length packet then False
        else
          let total_len = unat (of_be [packet ! 2, packet ! 3] :: u16) in
          if total_len \<noteq> length packet \<or> total_len < ihl + 8 then False
          else
            let flags_and_offset = (of_be [packet ! 6, packet ! 7] :: u16) in
            if flags_and_offset AND 0xbfff \<noteq> 0 \<or> packet ! 9 \<noteq> 17 then False
            else if take 4 (drop 16 packet) \<noteq> ipv4_octets ip then False
            else
              let udp_len = unat (of_be [packet ! (ihl + 4), packet ! (ihl + 5)] :: u16) in
              if udp_len < 8 \<or> ihl + udp_len \<noteq> total_len then False
              else (of_be [packet ! (ihl + 2), packet ! (ihl + 3)] :: u16) = port)"

fun admits :: "packet_policy \<Rightarrow> bytes \<Rightarrow> bool" where
  "admits ExitPolicy packet = True"
| "admits (RelayPolicy endpoint) packet = relay_packet_targets packet endpoint"

definition ipv6_of_octets :: "bytes \<Rightarrow> ipv6addr" where
  "ipv6_of_octets bs = Ipv6Addr (map (\<lambda>i. of_be [bs ! (2 * i), bs ! (2 * i + 1)]) [0..<8])"

definition packet_ip :: "bytes \<Rightarrow> bool \<Rightarrow> ip_addr option" where
  "packet_ip packet source =
     (case packet of
        [] \<Rightarrow> None
      | b # _ \<Rightarrow>
          let version = drop_bit 4 b in
          if version = 4 \<and> length packet \<ge> 20 then
            (let offset = (if source then 12 else 16) in
             Some (V4 (Ipv4Addr (packet ! offset) (packet ! (offset + 1)) (packet ! (offset + 2)) (packet ! (offset + 3)))))
          else if version = 6 \<and> length packet \<ge> 40 then
            (let offset = (if source then 8 else 24) in Some (V6 (ipv6_of_octets (take 16 (drop offset packet)))))
          else None)"

definition packet_src_ip :: "bytes \<Rightarrow> ip_addr option" where
  "packet_src_ip packet = packet_ip packet True"

definition packet_dst_ip :: "bytes \<Rightarrow> ip_addr option" where
  "packet_dst_ip packet = packet_ip packet False"

type_synonym client_id = bytes

type_synonym routes = "(ip_addr \<times> client_id) list"

definition MAX_LEARNED_ROUTES_PER_CLIENT :: nat where "MAX_LEARNED_ROUTES_PER_CLIENT = 4"

definition learn_client_route :: "routes \<Rightarrow> client_id \<Rightarrow> ipv4addr option \<Rightarrow> bytes \<Rightarrow> bool \<times> routes" where
  "learn_client_route rs cid assigned packet =
     (case packet_src_ip packet of
        None \<Rightarrow> (False, rs)
      | Some src \<Rightarrow>
          (case map_of rs src of
             Some owner \<Rightarrow> if owner \<noteq> cid then (False, rs) else (True, rs)
           | None \<Rightarrow>
               (case assigned of
                  Some ip \<Rightarrow> if V4 ip = src then (True, AList.update src cid rs) else (False, rs)
                | None \<Rightarrow>
                    let learned = length (filter (\<lambda>e. snd e = cid) rs) in
                    if learned \<ge> MAX_LEARNED_ROUTES_PER_CLIENT then (False, rs)
                    else (True, AList.update src cid rs))))"

definition accepts_client_datagrams :: "bool \<Rightarrow> u64 \<Rightarrow> u64 \<Rightarrow> bool" where
  "accepts_client_datagrams tunnel_up flow_id authorized_flow_id \<longleftrightarrow> tunnel_up \<and> flow_id = authorized_flow_id"

section \<open>Authorisation\<close>

definition TUNNEL_GRANT_HEADER :: bytes where "TUNNEL_GRANT_HEADER = lit ''nil-tunnel-grant''"
definition ASSIGNED_IP_HEADER :: bytes where "ASSIGNED_IP_HEADER = lit ''nil-assigned-ip''"

definition unique_header_value :: "headers \<Rightarrow> bytes \<Rightarrow> string + bytes option" where
  "unique_header_value hs name =
     (case filter (\<lambda>h. fst h = name) hs of
        [] \<Rightarrow> Inr None
      | [h] \<Rightarrow> Inr (Some (snd h))
      | _ \<Rightarrow> Inl ''duplicate authorization header'')"

definition is_lower_hex :: "bytes \<Rightarrow> bool" where
  "is_lower_hex v \<longleftrightarrow> list_all (\<lambda>b. is_ascii_digit b \<or> 97 \<le> b \<and> b \<le> 102) v"

text \<open>
  The process: its libraries, configuration, build and keys. \<open>sv_report\<close> gives the attestation header
  for a nonce, and \<open>sv_pqwg\<close> says whether the inner tunnel layer is on.
\<close>

record ('d, 's) server =
  sv_crypto :: crypto
  sv_pq :: "('d, 's) pq_lib"
  sv_cfg :: node_config
  sv_debug :: bool
  sv_spki :: bytes
  sv_report :: "bytes \<Rightarrow> node_attest option \<Rightarrow> bytes \<Rightarrow> bytes option"
  sv_pqwg :: bool
  sv_retry_key :: bytes

definition request_nonce :: "headers \<Rightarrow> string + bytes" where
  "request_nonce hs =
     bindE (unique_header_value hs ATTEST_NONCE_HEADER) (\<lambda>v.
     bindE (ok_or ''missing attestation nonce'' v) (\<lambda>nonce_hex.
     if length nonce_hex \<noteq> 64 \<or> \<not> is_lower_hex nonce_hex then Inl ''malformed attestation nonce''
     else
     bindE (ok_or ''malformed attestation nonce'' (connectip_from_hex nonce_hex)) (\<lambda>nonce_bytes.
     if length nonce_bytes \<noteq> 32 then Inl ''malformed attestation nonce'' else Inr nonce_bytes)))"

definition request_grant :: "headers \<Rightarrow> string + bytes" where
  "request_grant hs =
     bindE (unique_header_value hs TUNNEL_GRANT_HEADER) (\<lambda>v.
     bindE (ok_or ''missing tunnel grant'' v) (\<lambda>grant_hex.
     if grant_hex = [] \<or> length grant_hex > MAX_GRANT_TOKEN_LEN * 2 \<or> length grant_hex mod 2 \<noteq> 0 \<or> \<not> is_lower_hex grant_hex
     then Inl ''malformed tunnel grant''
     else ok_or ''malformed tunnel grant'' (connectip_from_hex grant_hex)))"

text \<open>\<open>authorize_connect\<close> up to the replay cache: \<open>None\<close> is a tunnel of a development node without a grant.\<close>

definition check_connect ::
  "('d, 's) server \<Rightarrow> headers \<Rightarrow> ip_addr \<Rightarrow> u64 \<Rightarrow> string + verified_grant option" where
  "check_connect S hs peer_ip now =
     (let cfg = sv_cfg S in
      bindE (request_nonce hs) (\<lambda>nonce.
      case nc_grant_verifier cfg of
        None \<Rightarrow>
          if sv_debug S \<and> nc_allow_ungranted cfg then
            if nc_role cfg \<noteq> ExitNode then Inl ''ungranted intermediate has no exact next-hop policy'' else Inr None
          else Inl ''grant verifier not configured''
      | Some v \<Rightarrow>
          bindE (ok_or ''attested node identity not configured'' (nc_attest cfg)) (\<lambda>attest.
          bindE (ok_or ''grant realm not configured'' (nc_grant_realm cfg)) (\<lambda>realm.
          bindE (ok_or ''node id not configured'' (nc_node_id cfg)) (\<lambda>node_id.
          bindE (map_err (\<lambda>_. ''invalid node grant identity'')
                   (node_identity_new realm node_id (node_grant_role (nc_role cfg)) Masque (na_tee attest) (na_measurement attest)
                      (cr_sha256 (sv_crypto S) (sv_spki S)))) (\<lambda>identity.
          bindE (request_grant hs) (\<lambda>grant.
          bindE (map_err (\<lambda>_. ''invalid tunnel grant'') (grant_verify_for_node (sv_crypto S) grant v identity now)) (\<lambda>verified.
          if (case au_previous_hop (vg_audience verified) of None \<Rightarrow> False | Some expected \<Rightarrow> peer_ip \<noteq> V4 expected)
          then Inl ''tunnel grant predecessor mismatch''
          else if vg_nonce verified \<noteq> nonce then Inl ''tunnel grant nonce mismatch''
          else Inr (Some verified)))))))))"

primrec replay_reason :: "replay_error \<Rightarrow> string" where
  "replay_reason Replayed = ''tunnel grant already used''"
| "replay_reason PredatesProcess = ''tunnel grant predates node process''"
| "replay_reason Capacity = ''tunnel grant replay cache full''"
| "replay_reason ReplayExpired = ''invalid tunnel grant''"

definition grant_policy :: "verified_grant \<Rightarrow> packet_policy" where
  "grant_policy g = (case au_next_hop (vg_audience g) of Some endpoint \<Rightarrow> RelayPolicy endpoint | None \<Rightarrow> ExitPolicy)"

definition authorize_connect ::
  "('d, 's) server \<Rightarrow> headers \<Rightarrow> ip_addr \<Rightarrow> u64 \<Rightarrow> replay_cache \<Rightarrow> (string + packet_policy) \<times> replay_cache" where
  "authorize_connect S hs peer_ip now cache =
     (case check_connect S hs peer_ip now of
        Inl reason \<Rightarrow> (Inl reason, cache)
      | Inr None \<Rightarrow> (Inr ExitPolicy, cache)
      | Inr (Some verified) \<Rightarrow>
          (case replay_consume (verified, now) cache of
             (Inl e, cache1) \<Rightarrow> (Inl (replay_reason e), cache1)
           | (Inr _, cache1) \<Rightarrow> (Inr (grant_policy verified), cache1)))"

definition build_connect_ok_response :: "('d, 's) server \<Rightarrow> headers \<Rightarrow> ipv4addr option \<Rightarrow> headers" where
  "build_connect_ok_response S hs assigned =
     [(lit '':status'', lit ''200''), (lit ''capsule-protocol'', lit ''?1'')] @
     (case assigned of None \<Rightarrow> [] | Some ip \<Rightarrow> [(ASSIGNED_IP_HEADER, ipv4_to_string ip)]) @
     (case unique_header_value hs ATTEST_NONCE_HEADER of
        Inr (Some nonce_hex) \<Rightarrow>
          if length nonce_hex = 64 \<and> is_lower_hex nonce_hex then
            (case connectip_from_hex nonce_hex of
               None \<Rightarrow> []
             | Some nonce \<Rightarrow>
                 if length nonce = 32 then
                   (case sv_report S (sv_spki S) (nc_attest (sv_cfg S)) nonce of
                      Some report \<Rightarrow> [(ATTEST_REPORT_HEADER, report)]
                    | None \<Rightarrow> [])
                 else [])
          else []
      | _ \<Rightarrow> [])"

section \<open>Clients\<close>

record client =
  cl_peer_ip :: ip_addr
  cl_h3 :: bool
  cl_ci_stream :: "u64 option"
  cl_flow_id :: u64
  cl_tunnel_up :: bool
  cl_packet_policy :: "packet_policy option"
  cl_assigned_ip :: "ipv4addr option"
  cl_pqwg :: "client_pqwg option"

record shared =
  sh_pool :: pool
  sh_routes :: routes
  sh_replays :: replay_cache

text \<open>The events of a connection's HTTP/3 layer. A request carries the clock and whether its response could be sent.\<close>

datatype h3_event =
    EvHeaders u64 headers "duration option" bool
  | EvData u64 "bytes list"
  | EvFinished u64
  | EvReset u64
  | EvOther

text \<open>A CONNECT-IP request on a connection that has no tunnel yet, once it is authorised.\<close>

definition bring_up ::
  "('d, 's) server \<Rightarrow> client_id \<Rightarrow> u64 \<Rightarrow> headers \<Rightarrow> bool \<Rightarrow> packet_policy \<Rightarrow> client \<times> shared \<Rightarrow> headers \<times> client \<times> shared" where
  "bring_up S cid stream_id hs sent policy s =
     (let (c, sh) = s;
          (assigned, pool1) = pool_assign cid (sh_pool sh);
          resp = build_connect_ok_response S hs assigned
      in if sent then
           (resp,
            c\<lparr>cl_ci_stream := Some stream_id, cl_flow_id := stream_id div 4, cl_tunnel_up := True,
              cl_packet_policy := Some policy,
              cl_assigned_ip := (case assigned of Some ip \<Rightarrow> Some ip | None \<Rightarrow> cl_assigned_ip c)\<rparr>,
            sh\<lparr>sh_pool := pool1,
               sh_routes := (case assigned of Some ip \<Rightarrow> AList.update (V4 ip) cid (sh_routes sh) | None \<Rightarrow> sh_routes sh)\<rparr>)
         else
           (resp, c,
            sh\<lparr>sh_pool := (case assigned of Some _ \<Rightarrow> pool_release cid pool1 | None \<Rightarrow> pool1)\<rparr>))"

fun h3_event_step ::
  "('d, 's) server \<Rightarrow> client_id \<Rightarrow> h3_event \<Rightarrow> client \<times> shared \<Rightarrow> headers option \<times> client \<times> shared" where
  "h3_event_step S cid (EvHeaders stream_id hs clock sent) (c, sh) =
     (if header_value hs (lit '':method'') = Some (lit ''CONNECT'') \<and> header_value hs (lit '':protocol'') = Some (lit ''connect-ip'') then
        if cl_ci_stream c \<noteq> None then (Some [(lit '':status'', lit ''409'')], c, sh)
        else
          (case authorize_connect S hs (cl_peer_ip c) (now_unix_secs_for_expiry clock) (sh_replays sh) of
             (Inl _, replays1) \<Rightarrow> (Some [(lit '':status'', lit ''403'')], c, sh\<lparr>sh_replays := replays1\<rparr>)
           | (Inr policy, replays1) \<Rightarrow>
               (let (resp, s1) = bring_up S cid stream_id hs sent policy (c, sh\<lparr>sh_replays := replays1\<rparr>) in (Some resp, s1)))
      else (Some [(lit '':status'', lit ''501'')], c, sh))"
| "h3_event_step S cid (EvData sid chunks) (c, sh) =
     (case cl_pqwg c of
        Some cpq \<Rightarrow>
          if Some sid = cl_ci_stream c \<and> sv_pqwg S then
            (None, c\<lparr>cl_pqwg := Some (fold (on_control_bytes (sv_pq S)) chunks cpq)\<rparr>, sh)
          else (None, c, sh)
      | None \<Rightarrow> (None, c, sh))"
| "h3_event_step S cid (EvFinished sid) (c, sh) =
     (if Some sid = cl_ci_stream c then (None, c\<lparr>cl_tunnel_up := False, cl_packet_policy := None\<rparr>, sh) else (None, c, sh))"
| "h3_event_step S cid (EvReset sid) (c, sh) =
     (if Some sid = cl_ci_stream c then (None, c\<lparr>cl_tunnel_up := False, cl_packet_policy := None\<rparr>, sh) else (None, c, sh))"
| "h3_event_step S cid EvOther (c, sh) = (None, c, sh)"

fun h3_events ::
  "('d, 's) server \<Rightarrow> client_id \<Rightarrow> h3_event list \<Rightarrow> client \<times> shared \<Rightarrow> headers list \<times> client \<times> shared" where
  "h3_events S cid [] s = ([], s)"
| "h3_events S cid (e # es) s =
     (let (r, s1) = h3_event_step S cid e s; (rs, s2) = h3_events S cid es s1 in
      (case r of None \<Rightarrow> rs | Some hs \<Rightarrow> hs # rs, s2))"

text \<open>What the libraries did for one client since the last step.\<close>

datatype wg_step = WgIp bytes | WgNetwork bytes | WgDone | WgErr

record client_work =
  cw_established :: bool
  cw_h3_ok :: bool
  cw_events :: "h3_event list"
  cw_ctrl_written :: "nat option"
  cw_datagrams :: "(bytes \<times> wg_step list) list"

definition flush_control :: "nat option \<Rightarrow> client \<Rightarrow> client" where
  "flush_control written c =
     (case (cl_ci_stream c, cl_pqwg c) of
        (Some _, Some cpq) \<Rightarrow>
          if cq_ctrl_out cpq \<noteq> [] then
            (case written of Some n \<Rightarrow> c\<lparr>cl_pqwg := Some (cpq\<lparr>cq_ctrl_out := drop n (cq_ctrl_out cpq)\<rparr>)\<rparr> | None \<Rightarrow> c)
          else c
      | _ \<Rightarrow> c)"

definition drive_h3 ::
  "('d, 's) server \<Rightarrow> client_id \<Rightarrow> client_work \<Rightarrow> client \<times> shared \<Rightarrow> headers list \<times> client \<times> shared" where
  "drive_h3 S cid w s =
     (let (c, sh) = s in
      if \<not> cl_h3 c \<and> cw_established w \<and> \<not> cw_h3_ok w then ([], c, sh)
      else
        let c1 = (if \<not> cl_h3 c \<and> cw_established w then c\<lparr>cl_h3 := True\<rparr> else c) in
        if \<not> cl_h3 c1 then ([], c1, sh)
        else
          let (rs, c2, sh2) = h3_events S cid (cw_events w) (c1, sh) in (rs, flush_control (cw_ctrl_written w) c2, sh2))"

text \<open>
  Draining the inner tunnel for one datagram, given the library's answers: control messages go back to
  the client until a packet comes out or there is nothing left.
\<close>

fun wg_drain :: "wg_step list \<Rightarrow> bytes option \<times> bytes list" where
  "wg_drain [] = (None, [])"
| "wg_drain (WgIp ip # _) = (Some ip, [])"
| "wg_drain (WgNetwork b # rest) = (let (ip, replies) = wg_drain rest in (ip, b # replies))"
| "wg_drain (WgDone # _) = (None, [])"
| "wg_drain (WgErr # _) = (None, [])"

definition route_packet :: "client_id \<Rightarrow> client \<Rightarrow> bytes \<Rightarrow> routes \<Rightarrow> bytes list \<times> routes" where
  "route_packet cid c ip rs =
     (if (case cl_packet_policy c of None \<Rightarrow> False | Some policy \<Rightarrow> admits policy ip) then
        (let (ok, rs1) = learn_client_route rs cid (cl_assigned_ip c) ip in (if ok then [ip] else [], rs1))
      else ([], rs))"

definition client_datagram ::
  "('d, 's) server \<Rightarrow> client_id \<Rightarrow> client \<Rightarrow> bytes \<times> wg_step list \<Rightarrow> routes \<Rightarrow> bytes list \<times> bytes list \<times> routes" where
  "client_datagram S cid c d rs =
     (case decode_datagram (fst d) of
        Inr (fid, Ip payload) \<Rightarrow>
          if accepts_client_datagrams (cl_tunnel_up c) fid (cl_flow_id c) then
            (case Option.bind (cl_pqwg c) cq_tunn of
               Some _ \<Rightarrow>
                 (case wg_drain (snd d) of
                    (Some ip, replies) \<Rightarrow> (let (out, rs1) = route_packet cid c ip rs in (out, replies, rs1))
                  | (None, replies) \<Rightarrow> ([], replies, rs))
             | None \<Rightarrow>
                 if sv_pqwg S then ([], [], rs)
                 else (let (out, rs1) = route_packet cid c payload rs in (out, [], rs1)))
          else ([], [], rs)
      | _ \<Rightarrow> ([], [], rs))"

fun client_datagrams ::
  "('d, 's) server \<Rightarrow> client_id \<Rightarrow> client \<Rightarrow> (bytes \<times> wg_step list) list \<Rightarrow> routes \<Rightarrow> bytes list \<times> bytes list \<times> routes" where
  "client_datagrams S cid c [] rs = ([], [], rs)"
| "client_datagrams S cid c (d # ds) rs =
     (let (out, replies, rs1) = client_datagram S cid c d rs;
          (outs, repliess, rs2) = client_datagrams S cid c ds rs1
      in (out @ outs, replies @ repliess, rs2))"

section \<open>The event loop\<close>

record node =
  nd_clients :: "(client_id \<times> client) list"
  nd_shared :: shared

text \<open>A parsed long header: what \<open>handle_packet\<close> reads of it.\<close>

record quic_header =
  qh_dcid :: bytes
  qh_initial :: bool
  qh_version_ok :: bool
  qh_token :: bytes

fun sock_ip :: "socket_addr \<Rightarrow> ip_addr" where
  "sock_ip (SockV4 ip _) = V4 ip"
| "sock_ip (SockV6 ip _ _) = V6 ip"

datatype packet_reply = NoReply | Fed | VersionNegotiation | RetryReply bytes | PacketError

definition connection_capacity_available :: "nat \<Rightarrow> nat \<Rightarrow> nat \<Rightarrow> nat \<Rightarrow> bool" where
  "connection_capacity_available n same_source max_total max_per_source \<longleftrightarrow>
     n < max_total \<and> same_source < max_per_source"

definition new_client :: "bool \<Rightarrow> ip_addr \<Rightarrow> client" where
  "new_client pqwg_enabled peer =
     \<lparr>cl_peer_ip = peer, cl_h3 = False, cl_ci_stream = None, cl_flow_id = 0, cl_tunnel_up = False, cl_packet_policy = None,
      cl_assigned_ip = None, cl_pqwg = (if pqwg_enabled then Some client_pqwg_default else None)\<rparr>"

text \<open>
  \<open>handle_packet\<close>: the header is \<open>None\<close> when it does not parse; \<open>entropy\<close> and \<open>accepted\<close> say whether the
  identifier of a retry could be drawn and whether the library accepted the connection. \<open>Fed\<close> is a packet
  handed to its connection.
\<close>

definition handle_packet ::
  "('d, 's) server \<Rightarrow> quic_header option \<Rightarrow> socket_addr \<Rightarrow> bool \<Rightarrow> bool \<Rightarrow> (client_id \<times> client) list \<Rightarrow>
   packet_reply \<times> (client_id \<times> client) list" where
  "handle_packet S hdr from entropy accepted clients =
     (case hdr of
        None \<Rightarrow> (PacketError, clients)
      | Some h \<Rightarrow>
          let key = qh_dcid h in
          case map_of clients key of
            Some c \<Rightarrow> (if cl_peer_ip c \<noteq> sock_ip from then NoReply else Fed, clients)
          | None \<Rightarrow>
          if \<not> qh_initial h then (NoReply, clients)
          else if \<not> qh_version_ok h then (VersionNegotiation, clients)
          else if qh_token h = [] then
            if entropy then (RetryReply (retry_mint (cr_sha256 (sv_crypto S)) (sv_retry_key S) from (qh_dcid h)), clients)
            else (PacketError, clients)
          else
            (case retry_validate (cr_sha256 (sv_crypto S)) (sv_retry_key S) from (qh_token h) of
               None \<Rightarrow> (NoReply, clients)
             | Some odcid \<Rightarrow>
                 let same_source = length (take (nc_max_connections_per_ip (sv_cfg S))
                       (filter (\<lambda>e. cl_peer_ip (snd e) = sock_ip from) clients)) in
                 if \<not> connection_capacity_available (length clients) same_source
                       (nc_max_connections (sv_cfg S)) (nc_max_connections_per_ip (sv_cfg S)) then (NoReply, clients)
                 else if \<not> accepted then (PacketError, clients)
                 else (Fed, AList.update key (new_client (sv_pqwg S) (sock_ip from)) clients)))"

text \<open>A packet from the TUN device; \<open>sealed\<close> is what the inner tunnel makes of it, when there is one.\<close>

definition tun_packet :: "bytes \<Rightarrow> bytes option \<Rightarrow> node \<Rightarrow> (client_id \<times> bytes) option" where
  "tun_packet raw sealed nd =
     (let pkt = fix_l4_checksums raw in
      case Option.bind (packet_dst_ip pkt) (map_of (sh_routes (nd_shared nd))) of
        None \<Rightarrow> None
      | Some cid \<Rightarrow>
          (case map_of (nd_clients nd) cid of
             None \<Rightarrow> None
           | Some c \<Rightarrow>
               if \<not> cl_tunnel_up c then None
               else
                 let payload = (case Option.bind (cl_pqwg c) cq_tunn of Some _ \<Rightarrow> sealed | None \<Rightarrow> Some pkt) in
                 map_option (\<lambda>pl. (cid, encode_datagram (cl_flow_id c) pl)) payload))"

definition serve_client ::
  "('d, 's) server \<Rightarrow> client_id \<Rightarrow> client_work \<Rightarrow> client \<times> shared \<Rightarrow> (headers list \<times> bytes list \<times> bytes list) \<times> client \<times> shared" where
  "serve_client S cid w s =
     (let (rs, c, sh) = drive_h3 S cid w s in
      if \<not> cl_h3 c then ((rs, [], []), c, sh)
      else if \<not> cl_tunnel_up c then ((rs, [], []), c, sh)
      else
        let (outs, replies, routes1) = client_datagrams S cid c (cw_datagrams w) (sh_routes sh) in
        ((rs, outs, map (encode_datagram (cl_flow_id c)) replies), c, sh\<lparr>sh_routes := routes1\<rparr>))"

text \<open>Removing the closed connections, in the order the table lists them.\<close>

definition reap :: "(client_id \<Rightarrow> bool) \<Rightarrow> node \<Rightarrow> node" where
  "reap closed nd =
     (let cs = filter (\<lambda>e. \<not> closed (fst e)) (nd_clients nd);
          sh = nd_shared nd;
          pool1 = fold (\<lambda>e p. if closed (fst e) then pool_release (fst e) p else p) (nd_clients nd) (sh_pool sh)
      in nd\<lparr>nd_clients := cs,
            nd_shared := sh\<lparr>sh_pool := pool1, sh_routes := filter (\<lambda>r. map_of cs (snd r) \<noteq> None) (sh_routes sh)\<rparr>\<rparr>)"

datatype node_event =
    UdpPacket "quic_header option" socket_addr bool bool
  | TunPacket bytes "bytes option"
  | Serve client_id client_work
  | Reap "client_id list"

record node_output =
  no_reply :: packet_reply
  no_to_client :: "(client_id \<times> bytes) list"
  no_responses :: "headers list"
  no_to_tun :: "bytes list"

definition quiet :: node_output where
  "quiet = \<lparr>no_reply = NoReply, no_to_client = [], no_responses = [], no_to_tun = []\<rparr>"

fun node_step :: "('d, 's) server \<Rightarrow> node_event \<Rightarrow> node \<Rightarrow> node_output \<times> node" where
  "node_step S (UdpPacket hdr from entropy accepted) nd =
     (let (reply, cs) = handle_packet S hdr from entropy accepted (nd_clients nd) in
      (quiet\<lparr>no_reply := reply\<rparr>, nd\<lparr>nd_clients := cs\<rparr>))"
| "node_step S (TunPacket raw sealed) nd =
     (quiet\<lparr>no_to_client := (case tun_packet raw sealed nd of None \<Rightarrow> [] | Some d \<Rightarrow> [d])\<rparr>, nd)"
| "node_step S (Serve cid w) nd =
     (case map_of (nd_clients nd) cid of
        None \<Rightarrow> (quiet, nd)
      | Some c \<Rightarrow>
          let ((rs, outs, dgs), c1, sh1) = serve_client S cid w (c, nd_shared nd) in
          (quiet\<lparr>no_responses := rs, no_to_tun := outs, no_to_client := map (Pair cid) dgs\<rparr>,
           nd\<lparr>nd_clients := AList.update cid c1 (nd_clients nd), nd_shared := sh1\<rparr>))"
| "node_step S (Reap closed) nd = (quiet, reap (\<lambda>cid. cid \<in> set closed) nd)"

text \<open>Starting: the replay cache and the pool, either of which panics when its parameters are unusable.\<close>

definition node_start :: "('d, 's) server \<Rightarrow> duration option \<Rightarrow> panic + node" where
  "node_start S clock =
     (case replay_new (now_unix_secs_for_expiry clock) (nc_grant_replay_capacity (sv_cfg S)) of
        None \<Rightarrow> Inl Panic
      | Some cache \<Rightarrow>
          bindE default_v4 (\<lambda>p.
          case p of
            None \<Rightarrow> Inl Panic
          | Some pool0 \<Rightarrow> Inr \<lparr>nd_clients = [], nd_shared = \<lparr>sh_pool = pool0, sh_routes = [], sh_replays = cache\<rparr>\<rparr>))"

text \<open>One turn of the loop: what woke it, every client, and the closed connections.\<close>

definition loop_turn :: "node_event option \<Rightarrow> (client_id \<times> client_work) list \<Rightarrow> client_id list \<Rightarrow> node_event list" where
  "loop_turn woken work closed =
     (case woken of Some e \<Rightarrow> [e] | None \<Rightarrow> []) @ map (\<lambda>(cid, w). Serve cid w) work @ [Reap closed]"

end
