(* ===== verification/Node_Safety.thy ===== *)
theory Node_Safety
  imports Node_Server
begin

text \<open>
  What the server's tables keep true, whatever packets, requests and failures come in: every inner
  address has one holder, replies are routed to it, every packet that reaches the TUN device was
  authorised by a grant that was used once, and the tables stay within their limits.
\<close>

section \<open>Association lists\<close>

lemma map_of_update [simp]: "map_of (AList.update k v xs) = (map_of xs)(k \<mapsto> v)"
  by (rule AList.update_conv')

lemma update_same_field:
  "map_of xs k = Some a \<Longrightarrow> f b = f a \<Longrightarrow> map (\<lambda>e. f (snd e)) (AList.update k b xs) = map (\<lambda>e. f (snd e)) xs"
  by (induction xs) auto

lemma length_update: "map_of xs k = Some a \<Longrightarrow> length (AList.update k b xs) = length xs"
  by (induction xs) auto

lemma update_new: "map_of xs k = None \<Longrightarrow> AList.update k v xs = xs @ [(k, v)]"
  by (simp add: alist_update_new map_of_eq_None_iff)

lemma owned_update:
  "length (filter (\<lambda>e. snd e = x) (AList.update k v xs)) \<le> length (filter (\<lambda>e. snd e = x) xs) + (if x = v then 1 else 0)"
  by (induction xs) auto

lemma map_of_filter_keys: "map_of (filter (\<lambda>e. \<not> closed (fst e)) xs) k = (if closed k then None else map_of xs k)"
  by (induction xs) auto

lemma map_of_filter_values:
  "distinct (map fst xs) \<Longrightarrow>
   map_of (filter (\<lambda>e. P (snd e)) xs) k = (case map_of xs k of Some v \<Rightarrow> if P v then Some v else None | None \<Rightarrow> None)"
  by (induction xs) (auto split: option.splits simp: map_of_eq_None_iff rev_image_eqI dest: map_of_SomeD)

lemma none_owned: "(\<And>a. map_of xs a \<noteq> Some x) \<Longrightarrow> distinct (map fst xs) \<Longrightarrow> filter (\<lambda>e. snd e = x) xs = []"
  by (auto simp: filter_empty_conv)

lemma filter_conj_length: "length (filter P (filter Q xs)) \<le> length (filter P xs)"
  by (induction xs) auto

section \<open>The pool\<close>

lemma pool_ok_injective:
  assumes "pool_ok R p" and "map_of (pl_by_conn p) k1 = Some a" and "map_of (pl_by_conn p) k2 = Some a"
  shows "k1 = k2"
proof -
  have "inj_on snd (set (pl_by_conn p))" using assms(1) by (simp add: pool_ok_def distinct_map)
  from inj_onD [OF this _ map_of_SomeD [OF assms(2)] map_of_SomeD [OF assms(3)]] have "(k1, a) = (k2, a)" by simp
  then show ?thesis by simp
qed

lemma pool_assign_cases:
  assumes "pool_ok R p" and "map_of (pl_by_conn p) k = None" and "pool_assign k p = (r, p')"
  obtains (full) "r = None" "pool_ok R p'" "pl_by_conn p' = pl_by_conn p"
  | (fresh) a where "r = Some (ipv4_of_u32 a)" "pool_ok R p'" "map_of (pl_by_conn p') = (map_of (pl_by_conn p))(k \<mapsto> a)"
      "\<And>k'. map_of (pl_by_conn p) k' \<noteq> Some a"
proof -
  have l: "assign_loop (unat (pl_last p - pl_first p + 1)) k p = (r, p')" using assms(2,3) by (simp add: pool_assign_def)
  have new: "k \<notin> fst ` set (pl_by_conn p)" using assms(2) by (simp add: map_of_eq_None_iff)
  note ok = assign_loop_ok [OF assms(1,2) l]
  show thesis
  proof (cases r)
    case None
    with ok full show ?thesis by simp
  next
    case (Some ip)
    with ok obtain a where a: "ip = ipv4_of_u32 a" "a \<notin> pl_in_use p" "pl_by_conn p' = pl_by_conn p @ [(k, a)]" by auto
    have "a \<notin> snd ` set (pl_by_conn p)" using a(2) assms(1) by (simp add: pool_ok_def)
    then have "map_of (pl_by_conn p) k' \<noteq> Some a" for k'
      using map_of_SomeD [of "pl_by_conn p" k' a] by (auto simp: rev_image_eqI)
    moreover have "map_of (pl_by_conn p') = (map_of (pl_by_conn p))(k \<mapsto> a)"
      using a(3) assms(2) by (auto simp: map_add_def fun_eq_iff split: option.splits)
    ultimately show ?thesis using fresh [of a] ok a(1) Some by simp
  qed
qed

lemma pool_release_map: "map_of (pl_by_conn (pool_release k p)) = (map_of (pl_by_conn p))(k := None)"
  by (auto simp: pool_release_def AList.delete_conv' fun_eq_iff split: option.split)

lemma release_closed:
  assumes "pool_ok R p"
  shows "pool_ok R (fold (\<lambda>e p. if closed (fst e) then pool_release (fst e) p else p) xs p)"
    and "map_of (pl_by_conn (fold (\<lambda>e p. if closed (fst e) then pool_release (fst e) p else p) xs p)) k =
      (if closed k \<and> k \<in> fst ` set xs then None else map_of (pl_by_conn p) k)"
  using assms by (induction xs arbitrary: p) (auto simp: pool_release_ok pool_release_map)

section \<open>The tables\<close>

definition client_ok :: "client \<Rightarrow> bool" where
  "client_ok c \<longleftrightarrow>
     (cl_ci_stream c = None \<longrightarrow> \<not> cl_tunnel_up c \<and> cl_packet_policy c = None \<and> cl_assigned_ip c = None) \<and>
     (cl_tunnel_up c \<longrightarrow> cl_packet_policy c \<noteq> None)"

text \<open>The leases of the pool are the addresses the clients hold.\<close>

definition leases_ok :: "(client_id \<rightharpoonup> client) \<Rightarrow> pool \<Rightarrow> bool" where
  "leases_ok m p \<longleftrightarrow>
     (\<exists>R. pool_ok R p) \<and>
     (\<forall>cid a. map_of (pl_by_conn p) cid = Some a \<longleftrightarrow> (\<exists>c. m cid = Some c \<and> cl_assigned_ip c = Some (ipv4_of_u32 a)))"

text \<open>
  A held address is routed to its holder, a holder owns no other route, and routes belong to clients with
  a tunnel request. No client owns more routes than the limit.
\<close>

definition owns_ok :: "(client_id \<rightharpoonup> client) \<Rightarrow> (ip_addr \<rightharpoonup> client_id) \<Rightarrow> bool" where
  "owns_ok m r \<longleftrightarrow>
     (\<forall>cid c ip. m cid = Some c \<longrightarrow> cl_assigned_ip c = Some ip \<longrightarrow> r (V4 ip) = Some cid) \<and>
     (\<forall>a cid. r a = Some cid \<longrightarrow>
        (\<exists>c. m cid = Some c \<and> cl_ci_stream c \<noteq> None \<and> (\<forall>ip. cl_assigned_ip c = Some ip \<longrightarrow> a = V4 ip)))"

definition routes_ok :: "routes \<Rightarrow> bool" where
  "routes_ok rs \<longleftrightarrow> distinct (map fst rs) \<and> (\<forall>cid. length (filter (\<lambda>e. snd e = cid) rs) \<le> MAX_LEARNED_ROUTES_PER_CLIENT)"

definition tables_ok :: "(client_id \<rightharpoonup> client) \<Rightarrow> shared \<Rightarrow> bool" where
  "tables_ok m sh \<longleftrightarrow>
     leases_ok m (sh_pool sh) \<and> owns_ok m (map_of (sh_routes sh)) \<and> routes_ok (sh_routes sh) \<and>
     replay_inv (sh_replays sh) \<and> (\<forall>cid c. m cid = Some c \<longrightarrow> client_ok c)"

lemma owns_ok_holder: "owns_ok m r \<Longrightarrow> m cid = Some c \<Longrightarrow> cl_assigned_ip c = Some ip \<Longrightarrow> r (V4 ip) = Some cid"
  by (simp add: owns_ok_def)

lemma owns_ok_owner:
  assumes "owns_ok m r" and "r a = Some cid"
  obtains c where "m cid = Some c" and "cl_ci_stream c \<noteq> None" and "\<And>ip. cl_assigned_ip c = Some ip \<Longrightarrow> a = V4 ip"
  using assms by (fastforce simp: owns_ok_def)

lemma owns_ok_update:
  assumes "owns_ok m r"
    and "\<And>ip. cl_assigned_ip c' = Some ip \<Longrightarrow> r' (V4 ip) = Some cid"
    and "\<And>cid' c ip. cid' \<noteq> cid \<Longrightarrow> m cid' = Some c \<Longrightarrow> cl_assigned_ip c = Some ip \<Longrightarrow> r' (V4 ip) = Some cid'"
    and "\<And>a cid'. r' a = Some cid' \<Longrightarrow> cid' \<noteq> cid \<Longrightarrow> r a = Some cid'"
    and "\<And>a. r' a = Some cid \<Longrightarrow> cl_ci_stream c' \<noteq> None \<and> (\<forall>ip. cl_assigned_ip c' = Some ip \<longrightarrow> a = V4 ip)"
  shows "owns_ok (m(cid \<mapsto> c')) r'"
  unfolding owns_ok_def
proof (intro conjI allI impI)
  fix k c ip
  assume "(m(cid \<mapsto> c')) k = Some c" and "cl_assigned_ip c = Some ip"
  then show "r' (V4 ip) = Some k" using assms(2,3) by (cases "k = cid") auto
next
  fix a k
  assume k: "r' a = Some k"
  show "\<exists>c. (m(cid \<mapsto> c')) k = Some c \<and> cl_ci_stream c \<noteq> None \<and> (\<forall>ip. cl_assigned_ip c = Some ip \<longrightarrow> a = V4 ip)"
  proof (cases "k = cid")
    case True
    then show ?thesis using assms(5) k by simp
  next
    case False
    obtain c where "m k = Some c" "cl_ci_stream c \<noteq> None" "\<And>ip. cl_assigned_ip c = Some ip \<Longrightarrow> a = V4 ip"
      using owns_ok_owner [OF assms(1) assms(4) [OF k False]] by blast
    with False show ?thesis by auto
  qed
qed

lemma leases_ok_update:
  assumes "leases_ok m p" and "m cid = Some c" and "cl_assigned_ip c' = cl_assigned_ip c"
  shows "leases_ok (m(cid \<mapsto> c')) p"
  using assms unfolding leases_ok_def by (simp split: if_splits)

lemma tables_ok_clientD: "tables_ok m sh \<Longrightarrow> m cid = Some c \<Longrightarrow> client_ok c"
  by (simp add: tables_ok_def)

lemma routes_same: "sh_routes sh = rs \<Longrightarrow> sh\<lparr>sh_routes := rs\<rparr> = sh"
  by (cases sh) simp

lemma tables_ok_client:
  assumes "tables_ok m sh" and "m cid = Some c" and "cl_ci_stream c' = cl_ci_stream c" and "cl_assigned_ip c' = cl_assigned_ip c"
    and "client_ok c'"
  shows "tables_ok (m(cid \<mapsto> c')) sh"
proof -
  have o: "owns_ok m (map_of (sh_routes sh))" using assms(1) by (simp add: tables_ok_def)
  have "owns_ok (m(cid \<mapsto> c')) (map_of (sh_routes sh))"
  proof (rule owns_ok_update [OF o])
    fix a
    assume "map_of (sh_routes sh) a = Some cid"
    from owns_ok_owner [OF o this] assms(2,3,4)
    show "cl_ci_stream c' \<noteq> None \<and> (\<forall>ip. cl_assigned_ip c' = Some ip \<longrightarrow> a = V4 ip)" by force
  qed (use owns_ok_holder [OF o] assms in auto)
  moreover have "leases_ok (m(cid \<mapsto> c')) (sh_pool sh)" using assms by (intro leases_ok_update) (auto simp: tables_ok_def)
  ultimately show ?thesis using assms(1,5) by (simp add: tables_ok_def)
qed

lemma tables_ok_replays: "tables_ok m sh \<Longrightarrow> replay_inv r \<Longrightarrow> tables_ok m (sh\<lparr>sh_replays := r\<rparr>)"
  by (simp add: tables_ok_def)

lemma unrequested_owns_nothing:
  assumes "tables_ok m sh" and "m cid = Some c" and "cl_ci_stream c = None"
  shows "map_of (sh_routes sh) a \<noteq> Some cid" and "map_of (pl_by_conn (sh_pool sh)) cid = None" and "filter (\<lambda>e. snd e = cid) (sh_routes sh) = []"
proof -
  have o: "owns_ok m (map_of (sh_routes sh))" "routes_ok (sh_routes sh)" using assms(1) by (simp_all add: tables_ok_def)
  have *: "map_of (sh_routes sh) a \<noteq> Some cid" for a
    using owns_ok_owner [OF o(1), of a cid] assms(2,3) by force
  then show "map_of (sh_routes sh) a \<noteq> Some cid" .
  show "filter (\<lambda>e. snd e = cid) (sh_routes sh) = []" using none_owned [OF *] o(2) by (simp add: routes_ok_def)
  have "cl_assigned_ip c = None" using assms by (auto simp: tables_ok_def client_ok_def)
  then show "map_of (pl_by_conn (sh_pool sh)) cid = None"
    using assms(1,2) by (cases "map_of (pl_by_conn (sh_pool sh)) cid") (auto simp: tables_ok_def leases_ok_def)
qed

text \<open>Inserting a route keeps the limit when the owner stays within it.\<close>

lemma routes_ok_insert:
  assumes "routes_ok rs" and "length (filter (\<lambda>e. snd e = cid) rs) < MAX_LEARNED_ROUTES_PER_CLIENT"
  shows "routes_ok (AList.update a cid rs)"
proof -
  have "length (filter (\<lambda>e. snd e = x) (AList.update a cid rs)) \<le> MAX_LEARNED_ROUTES_PER_CLIENT" for x
  proof (cases "x = cid")
    case True
    then show ?thesis using owned_update [of cid a cid rs] assms(2) by simp
  next
    case False
    then show ?thesis using owned_update [of x a cid rs] assms(1) le_trans by (fastforce simp: routes_ok_def)
  qed
  then show ?thesis using assms(1) by (simp add: routes_ok_def distinct_update)
qed

section \<open>Requests\<close>

lemma leases_ok_pool: "leases_ok m p \<Longrightarrow> pool_ok R p' \<Longrightarrow> map_of (pl_by_conn p') = map_of (pl_by_conn p) \<Longrightarrow> leases_ok m p'"
  by (auto simp: leases_ok_def)

lemma leases_ok_holder: "leases_ok m p \<Longrightarrow> m cid = Some c \<Longrightarrow> cl_assigned_ip c = Some ip \<Longrightarrow> map_of (pl_by_conn p) cid = Some (ipv4_to_u32 ip)"
  by (simp add: leases_ok_def)

lemma leases_ok_assign:
  assumes "leases_ok m p" and "pool_ok R p'" and "map_of (pl_by_conn p') = (map_of (pl_by_conn p))(cid \<mapsto> a)"
    and "cl_assigned_ip c' = Some (ipv4_of_u32 a)"
  shows "leases_ok (m(cid \<mapsto> c')) p'"
  using assms unfolding leases_ok_def by auto

lemma bring_up_fields:
  assumes "bring_up S cid sid hs sent policy (c, sh) = (resp, c', sh')"
  shows "cl_peer_ip c' = cl_peer_ip c" and "cl_h3 c' = cl_h3 c" and "sh_replays sh' = sh_replays sh"
    and "cl_tunnel_up c' \<Longrightarrow> \<not> cl_tunnel_up c \<Longrightarrow> cl_packet_policy c' = Some policy"
  using assms by (auto simp: bring_up_def Let_def split: prod.splits if_splits)

lemma bring_up_ok:
  assumes t: "tables_ok m sh" and c: "m cid = Some c" "cl_ci_stream c = None"
    and b: "bring_up S cid sid hs sent policy (c, sh) = (resp, c', sh')"
  shows "tables_ok (m(cid \<mapsto> c')) sh'"
proof -
  have parts: "leases_ok m (sh_pool sh)" "owns_ok m (map_of (sh_routes sh))" "routes_ok (sh_routes sh)" "client_ok c"
    using t c by (auto simp: tables_ok_def)
  then obtain R where R: "pool_ok R (sh_pool sh)" by (auto simp: leases_ok_def)
  note none = unrequested_owns_nothing [OF t c]
  have na: "cl_assigned_ip c = None" using parts(4) c(2) by (simp add: client_ok_def)
  obtain r p' where a: "pool_assign cid (sh_pool sh) = (r, p')" by fastforce
  note same = tables_ok_client [OF t c(1), of c] parts(4)
  show ?thesis
  proof (cases sent)
    case False
    have c': "c' = c" "sh' = sh\<lparr>sh_pool := (case r of Some _ \<Rightarrow> pool_release cid p' | None \<Rightarrow> p')\<rparr>"
      using b a False by (simp_all add: bring_up_def)
    have "leases_ok m (sh_pool sh')"
      using R none(2) a
    proof (cases rule: pool_assign_cases)
      case full
      then show ?thesis using leases_ok_pool [OF parts(1)] c'(2) by simp
    next
      case (fresh a)
      then show ?thesis using leases_ok_pool [OF parts(1) pool_release_ok [OF fresh(2)], of cid] c'(2) none(2)
        by (simp add: pool_release_map fun_upd_idem)
    qed
    then have "tables_ok m sh'" using t c'(2) by (simp add: tables_ok_def)
    moreover have "m(cid \<mapsto> c') = m" using c(1) c'(1) by auto
    ultimately show ?thesis by simp
  next
    case True
    have c'c: "cl_ci_stream c' = Some sid" "cl_packet_policy c' = Some policy" "cl_assigned_ip c' = r"
      using b a True na by (auto simp: bring_up_def split: option.splits)
    have ok: "client_ok c'" using c'c by (simp add: client_ok_def)
    have sh': "sh_pool sh' = p'" "sh_replays sh' = sh_replays sh"
      "sh_routes sh' = (case r of Some ip \<Rightarrow> AList.update (V4 ip) cid (sh_routes sh) | None \<Rightarrow> sh_routes sh)"
      using b a True by (auto simp: bring_up_def)
    from R none(2) a show ?thesis
    proof (cases rule: pool_assign_cases)
      case full
      have "leases_ok (m(cid \<mapsto> c')) p'" using full na c'c leases_ok_pool [OF leases_ok_update [OF parts(1) c(1), of c']] by simp
      moreover have "owns_ok (m(cid \<mapsto> c')) (map_of (sh_routes sh))"
        by (rule owns_ok_update [OF parts(2)]) (use owns_ok_holder [OF parts(2)] none(1) full c'c in auto)
      ultimately show ?thesis using t sh' full ok by (simp add: tables_ok_def)
    next
      case (fresh a)
      have "leases_ok (m(cid \<mapsto> c')) p'" using leases_ok_assign [OF parts(1) fresh(2,3)] c'c fresh(1) by simp
      moreover have "owns_ok (m(cid \<mapsto> c')) (map_of (sh_routes sh'))"
      proof (rule owns_ok_update [OF parts(2)])
        fix k d ip
        assume k: "k \<noteq> cid" "m k = Some d" "cl_assigned_ip d = Some ip"
        then have "ip \<noteq> ipv4_of_u32 a" using leases_ok_holder [OF parts(1)] fresh(4) [of k] by force
        then show "map_of (sh_routes sh') (V4 ip) = Some k" using owns_ok_holder [OF parts(2) k(2,3)] sh'(3) fresh(1) by simp
      qed (use none(1) c'c sh'(3) fresh(1) in \<open>auto split: if_splits\<close>)
      moreover have "routes_ok (sh_routes sh')"
        using routes_ok_insert [OF parts(3), of cid] none(3) sh'(3) fresh(1) by (simp add: MAX_LEARNED_ROUTES_PER_CLIENT_def)
      ultimately show ?thesis using t sh' ok by (simp add: tables_ok_def)
    qed
  qed
qed

lemma authorize_connect_inv: "replay_inv r \<Longrightarrow> authorize_connect S hs ip now r = (x, r') \<Longrightarrow> replay_inv r'"
  using replay.step_inv [of r]
  by (auto simp: authorize_connect_def split: sum.splits option.splits prod.splits) (metis snd_conv)+

fun is_request :: "h3_event \<Rightarrow> bool" where
  "is_request (EvHeaders _ _ _ _) = True"
| "is_request _ = False"

lemma other_event_fields:
  assumes "h3_event_step S cid e (c, sh) = (r, c', sh')" and "\<not> is_request e"
  shows "sh' = sh" and "cl_ci_stream c' = cl_ci_stream c" and "cl_assigned_ip c' = cl_assigned_ip c"
    and "cl_peer_ip c' = cl_peer_ip c" and "cl_h3 c' = cl_h3 c" and "client_ok c \<Longrightarrow> client_ok c'"
    and "cl_tunnel_up c' \<Longrightarrow> cl_tunnel_up c \<and> cl_packet_policy c' = cl_packet_policy c"
  using assms by (cases e; auto simp: client_ok_def split: if_splits option.splits)+

lemma h3_event_step_ok:
  assumes t: "tables_ok m sh" and c: "m cid = Some c" and e: "h3_event_step S cid e (c, sh) = (r, c', sh')"
  shows "tables_ok (m(cid \<mapsto> c')) sh' \<and> cl_peer_ip c' = cl_peer_ip c \<and> cl_h3 c' = cl_h3 c"
proof -
  have ok: "client_ok c" "replay_inv (sh_replays sh)" using t c by (auto simp: tables_ok_def)
  have same: "tables_ok (m(cid \<mapsto> c)) sh" using tables_ok_client [OF t c, of c] ok by simp
  note upd = tables_ok_client [OF t c]
  show ?thesis
  proof (cases e)
    case (EvHeaders sid hs clock sent)
    obtain a r1 where a: "authorize_connect S hs (cl_peer_ip c) (now_unix_secs_for_expiry clock) (sh_replays sh) = (a, r1)"
      by fastforce
    have inv: "replay_inv r1" by (rule authorize_connect_inv [OF ok(2) a])
    have t1: "tables_ok m (sh\<lparr>sh_replays := r1\<rparr>)" by (rule tables_ok_replays [OF t inv])
    show ?thesis
    proof (cases "cl_ci_stream c = None \<and> isl a = False \<and> header_value hs (lit '':method'') = Some (lit ''CONNECT'') \<and>
        header_value hs (lit '':protocol'') = Some (lit ''connect-ip'')")
      case True
      then obtain policy where p: "a = Inr policy" by (cases a) auto
      obtain resp c1 sh1 where b: "bring_up S cid sid hs sent policy (c, sh\<lparr>sh_replays := r1\<rparr>) = (resp, c1, sh1)"
        by (metis surj_pair)
      with e EvHeaders a p True have "c' = c1" "sh' = sh1" by auto
      with bring_up_ok [OF t1 c _ b] bring_up_fields [OF b] True show ?thesis by simp
    next
      case False
      then have "c' = c \<and> (sh' = sh \<or> sh' = sh\<lparr>sh_replays := r1\<rparr>)"
        using e EvHeaders a by (cases a) (auto split: if_splits)
      with same tables_ok_replays [OF same inv] show ?thesis by auto
    qed
  qed (use upd [of c'] ok other_event_fields [OF e] in simp_all)
qed

lemma h3_events_ok:
  assumes "tables_ok m sh" and "m cid = Some c" and "h3_events S cid es (c, sh) = (rs, c', sh')"
  shows "tables_ok (m(cid \<mapsto> c')) sh' \<and> cl_peer_ip c' = cl_peer_ip c \<and> cl_h3 c' = cl_h3 c"
  using assms
proof (induction es arbitrary: m c sh rs)
  case Nil
  moreover from Nil have "m(cid \<mapsto> c') = m" by auto
  ultimately show ?case by simp
next
  case (Cons e es)
  obtain r c1 sh1 where e: "h3_event_step S cid e (c, sh) = (r, c1, sh1)" by (metis surj_pair)
  obtain rs1 where es: "h3_events S cid es (c1, sh1) = (rs1, c', sh')"
    using Cons.prems(3) e by (auto split: prod.splits)
  note 1 = h3_event_step_ok [OF Cons.prems(1,2) e]
  define m1 where "m1 = m(cid \<mapsto> c1)"
  have "tables_ok m1 sh1" "m1 cid = Some c1" using 1 by (simp_all add: m1_def)
  from Cons.IH [OF this es] have "tables_ok (m1(cid \<mapsto> c')) sh' \<and> cl_peer_ip c' = cl_peer_ip c1 \<and> cl_h3 c' = cl_h3 c1" .
  with 1 have "tables_ok (m(cid \<mapsto> c')) sh' \<and> cl_peer_ip c' = cl_peer_ip c \<and> cl_h3 c' = cl_h3 c" by (simp add: m1_def)
  then show ?case .
qed

lemma flush_control_fields:
  "cl_ci_stream (flush_control w c) = cl_ci_stream c" "cl_assigned_ip (flush_control w c) = cl_assigned_ip c"
  "cl_peer_ip (flush_control w c) = cl_peer_ip c" "cl_h3 (flush_control w c) = cl_h3 c" "cl_tunnel_up (flush_control w c) = cl_tunnel_up c"
  "cl_packet_policy (flush_control w c) = cl_packet_policy c" "cl_flow_id (flush_control w c) = cl_flow_id c"
  by (auto simp: flush_control_def split: option.splits)

text \<open>\<open>drive_h3\<close> either changes nothing but the HTTP/3 flag or runs the events.\<close>

lemma drive_h3_cases:
  assumes "drive_h3 S cid w (c, sh) = (rs, c', sh')"
  obtains (idle) "c' = c" "sh' = sh" "rs = []" "\<not> cl_h3 c"
  | (run) c1 c2 where "c1 = c\<lparr>cl_h3 := True\<rparr>" "h3_events S cid (cw_events w) (c1, sh) = (rs, c2, sh')"
      "c' = flush_control (cw_ctrl_written w) c2"
proof (cases "cl_h3 c \<or> cw_established w \<and> cw_h3_ok w")
  case False
  with assms idle show thesis by (auto simp: drive_h3_def split: if_splits)
next
  case True
  then have "(if \<not> cl_h3 c \<and> cw_established w then c\<lparr>cl_h3 := True\<rparr> else c) = c\<lparr>cl_h3 := True\<rparr>" by (cases c) auto
  with True assms run show thesis by (auto simp: drive_h3_def Let_def split: if_splits prod.splits)
qed

lemma drive_h3_ok:
  assumes t: "tables_ok m sh" and c: "m cid = Some c" and d: "drive_h3 S cid w (c, sh) = (rs, c', sh')"
  shows "tables_ok (m(cid \<mapsto> c')) sh' \<and> cl_peer_ip c' = cl_peer_ip c"
  using d
proof (cases rule: drive_h3_cases)
  case idle
  then show ?thesis using t c by (simp add: fun_upd_idem)
next
  case (run c1 c2)
  have "client_ok c" using t c by (auto simp: tables_ok_def)
  then have "tables_ok (m(cid \<mapsto> c1)) sh" using run(1) by (intro tables_ok_client [OF t c]) (simp_all add: client_ok_def)
  from h3_events_ok [OF this _ run(2)] have 2: "tables_ok (m(cid \<mapsto> c2)) sh'" "cl_peer_ip c2 = cl_peer_ip c"
    using run(1) by simp_all
  then have "client_ok c2" using tables_ok_clientD [OF 2(1), of cid c2] by simp
  then have "client_ok c'" using run(3) by (simp add: client_ok_def flush_control_fields)
  with tables_ok_client [OF 2(1), of cid c2 c'] 2(2) run(3) show ?thesis by (simp add: flush_control_fields)
qed

section \<open>Packets of a client\<close>

definition source_ok :: "client_id \<Rightarrow> client \<Rightarrow> (ip_addr \<rightharpoonup> client_id) \<Rightarrow> bytes \<Rightarrow> bool" where
  "source_ok cid c r p \<longleftrightarrow>
     (\<exists>src. packet_src_ip p = Some src \<and> r src = Some cid \<and> (\<forall>ip. cl_assigned_ip c = Some ip \<longrightarrow> src = V4 ip))"

lemma learn_client_route_ok:
  assumes t: "tables_ok m sh" and c: "m cid = Some c" "cl_ci_stream c \<noteq> None"
    and l: "learn_client_route (sh_routes sh) cid (cl_assigned_ip c) p = (ok, rs')"
  shows "tables_ok m (sh\<lparr>sh_routes := rs'\<rparr>)" and "ok \<Longrightarrow> source_ok cid c (map_of rs') p"
    and "map_of (sh_routes sh) \<subseteq>\<^sub>m map_of rs'"
proof -
  have parts: "owns_ok m (map_of (sh_routes sh))" "routes_ok (sh_routes sh)" using t by (auto simp: tables_ok_def)
  have "tables_ok m (sh\<lparr>sh_routes := rs'\<rparr>) \<and> (ok \<longrightarrow> source_ok cid c (map_of rs') p) \<and> map_of (sh_routes sh) \<subseteq>\<^sub>m map_of rs'"
  proof (cases "ok \<and> rs' \<noteq> sh_routes sh")
    case False
    have "source_ok cid c (map_of (sh_routes sh)) p" if accepted: ok
    proof -
      obtain src where src: "packet_src_ip p = Some src" "map_of (sh_routes sh) src = Some cid"
        using False accepted l by (auto simp: learn_client_route_def Let_def update_new split: option.splits if_splits)
      moreover obtain c1 where "m cid = Some c1" "\<And>ip. cl_assigned_ip c1 = Some ip \<Longrightarrow> src = V4 ip"
        using owns_ok_owner [OF parts(1) src(2)] by blast
      ultimately show ?thesis using c(1) by (auto simp: source_ok_def)
    qed
    moreover have "rs' = sh_routes sh" using False l by (auto simp: learn_client_route_def Let_def split: option.splits if_splits)
    ultimately show ?thesis using t by (simp add: routes_same)
  next
    case True
    then obtain src where src: "packet_src_ip p = Some src" "map_of (sh_routes sh) src = None" "rs' = AList.update src cid (sh_routes sh)"
        "\<And>ip. cl_assigned_ip c = Some ip \<Longrightarrow> src = V4 ip"
        "cl_assigned_ip c = None \<Longrightarrow> length (filter (\<lambda>e. snd e = cid) (sh_routes sh)) < MAX_LEARNED_ROUTES_PER_CLIENT"
      using l by (cases "packet_src_ip p"; cases "cl_assigned_ip c")
        (auto simp: learn_client_route_def Let_def split: option.splits if_splits)
    have "cl_assigned_ip c = None" using src(2,4) owns_ok_holder [OF parts(1) c(1)] by (cases "cl_assigned_ip c") auto
    then have "routes_ok rs'" using routes_ok_insert [OF parts(2) src(5)] src(3) by simp
    moreover have "owns_ok (m(cid \<mapsto> c)) (map_of rs')"
    proof (rule owns_ok_update [OF parts(1)])
      fix a
      assume "map_of rs' a = Some cid"
      then have "a = src \<or> map_of (sh_routes sh) a = Some cid" using src(3) by (auto split: if_splits)
      then show "cl_ci_stream c \<noteq> None \<and> (\<forall>ip. cl_assigned_ip c = Some ip \<longrightarrow> a = V4 ip)"
        using \<open>cl_assigned_ip c = None\<close> c(2) by simp
    qed (use src(2,3) owns_ok_holder [OF parts(1)] c in \<open>auto split: if_splits\<close>)
    moreover have "m(cid \<mapsto> c) = m" using c(1) by auto
    ultimately have "tables_ok m (sh\<lparr>sh_routes := rs'\<rparr>)" using t by (simp add: tables_ok_def)
    moreover have "source_ok cid c (map_of rs') p" using src by (simp add: source_ok_def)
    moreover have "map_of (sh_routes sh) \<subseteq>\<^sub>m map_of rs'" using src(2,3) by (auto simp: map_le_def)
    ultimately show ?thesis by simp
  qed
  then show "tables_ok m (sh\<lparr>sh_routes := rs'\<rparr>)" "ok \<Longrightarrow> source_ok cid c (map_of rs') p"
    "map_of (sh_routes sh) \<subseteq>\<^sub>m map_of rs'" by blast+
qed

text \<open>A packet on its way out: admitted by the client's policy, from an address that is routed to it.\<close>

definition forward_ok :: "client_id \<Rightarrow> client \<Rightarrow> (ip_addr \<rightharpoonup> client_id) \<Rightarrow> bytes \<Rightarrow> bool" where
  "forward_ok cid c r p \<longleftrightarrow> (\<exists>policy. cl_packet_policy c = Some policy \<and> admits policy p) \<and> source_ok cid c r p"

lemma forward_ok_mono: "forward_ok cid c r p \<Longrightarrow> r \<subseteq>\<^sub>m r' \<Longrightarrow> forward_ok cid c r' p"
  by (auto simp: forward_ok_def source_ok_def map_le_def dom_def)

lemma route_packet_ok:
  assumes t: "tables_ok m sh" and c: "m cid = Some c" "cl_ci_stream c \<noteq> None"
    and r: "route_packet cid c ip (sh_routes sh) = (outs, rs')"
  shows "tables_ok m (sh\<lparr>sh_routes := rs'\<rparr>) \<and> (\<forall>p\<in>set outs. forward_ok cid c (map_of rs') p) \<and>
    map_of (sh_routes sh) \<subseteq>\<^sub>m map_of rs'"
proof -
  obtain ok rs1 where l: "learn_client_route (sh_routes sh) cid (cl_assigned_ip c) ip = (ok, rs1)" by fastforce
  note lr = learn_client_route_ok [OF t c l]
  show ?thesis
    using r l lr t
    by (auto simp: route_packet_def forward_ok_def routes_same split: if_splits option.splits)
qed

lemma client_datagram_ok:
  assumes t: "tables_ok m sh" and c: "m cid = Some c" "cl_ci_stream c \<noteq> None"
    and r: "client_datagram S cid c d (sh_routes sh) = (outs, replies, rs')"
  shows "tables_ok m (sh\<lparr>sh_routes := rs'\<rparr>) \<and> (\<forall>p\<in>set outs. forward_ok cid c (map_of rs') p) \<and>
    map_of (sh_routes sh) \<subseteq>\<^sub>m map_of rs'"
proof -
  have "(outs = [] \<and> rs' = sh_routes sh) \<or> (\<exists>ip. route_packet cid c ip (sh_routes sh) = (outs, rs'))"
    using r unfolding client_datagram_def
    by (auto split: sum.splits datagram_payload.splits if_splits option.splits prod.splits)
  then show ?thesis using route_packet_ok [OF t c] t by (auto simp: routes_same)
qed

lemma client_datagrams_ok:
  assumes "tables_ok m sh" and "m cid = Some c" "cl_ci_stream c \<noteq> None"
    and "client_datagrams S cid c ds (sh_routes sh) = (outs, replies, rs')"
  shows "tables_ok m (sh\<lparr>sh_routes := rs'\<rparr>) \<and> (\<forall>p\<in>set outs. forward_ok cid c (map_of rs') p) \<and>
    map_of (sh_routes sh) \<subseteq>\<^sub>m map_of rs'"
  using assms(1,4)
proof (induction ds arbitrary: sh outs replies)
  case (Cons d ds)
  obtain o1 p1 rs1 where d: "client_datagram S cid c d (sh_routes sh) = (o1, p1, rs1)" by (metis surj_pair)
  obtain o2 p2 where ds: "client_datagrams S cid c ds rs1 = (o2, p2, rs')" "outs = o1 @ o2"
    using Cons.prems(2) d by (auto split: prod.splits)
  note 1 = client_datagram_ok [OF Cons.prems(1) assms(2,3) d]
  from Cons.IH [of "sh\<lparr>sh_routes := rs1\<rparr>" o2 p2] 1 ds(1)
  have "tables_ok m (sh\<lparr>sh_routes := rs'\<rparr>)" "\<forall>p\<in>set o2. forward_ok cid c (map_of rs') p" "map_of rs1 \<subseteq>\<^sub>m map_of rs'"
    by simp_all
  with 1 ds(2) show ?case using forward_ok_mono map_le_trans by (auto simp: Ball_def) blast+
qed (simp add: routes_same)

lemma serve_client_ok:
  assumes t: "tables_ok m sh" and c: "m cid = Some c" and s: "serve_client S cid w (c, sh) = ((rs, outs, dgs), c', sh')"
  shows "tables_ok (m(cid \<mapsto> c')) sh'" and "cl_peer_ip c' = cl_peer_ip c"
    and "p \<in> set outs \<Longrightarrow> cl_tunnel_up c' \<and> forward_ok cid c' (map_of (sh_routes sh')) p"
proof -
  obtain rs1 c1 sh1 where d: "drive_h3 S cid w (c, sh) = (rs1, c1, sh1)" by (metis surj_pair)
  note 1 = drive_h3_ok [OF t c d]
  have "tables_ok (m(cid \<mapsto> c')) sh' \<and> cl_peer_ip c' = cl_peer_ip c \<and>
      (\<forall>p\<in>set outs. cl_tunnel_up c' \<and> forward_ok cid c' (map_of (sh_routes sh')) p)"
  proof (cases "cl_h3 c1 \<and> cl_tunnel_up c1")
    case False
    then have "c' = c1" "sh' = sh1" "outs = []" using s d by (auto simp: serve_client_def split: if_splits)
    with 1 show ?thesis by simp
  next
    case True
    obtain o1 p1 r1 where ds: "client_datagrams S cid c1 (cw_datagrams w) (sh_routes sh1) = (o1, p1, r1)" by (metis surj_pair)
    have e: "c' = c1" "sh' = sh1\<lparr>sh_routes := r1\<rparr>" "outs = o1" using s d ds True by (auto simp: serve_client_def)
    have "client_ok c1" using 1 tables_ok_clientD [of "m(cid \<mapsto> c1)" sh1 cid c1] by simp
    then have "cl_ci_stream c1 \<noteq> None" using True by (auto simp: client_ok_def)
    with client_datagrams_ok [OF conjunct1 [OF 1] _ _ ds] 1 e True show ?thesis by simp
  qed
  then show "tables_ok (m(cid \<mapsto> c')) sh'" "cl_peer_ip c' = cl_peer_ip c"
    "p \<in> set outs \<Longrightarrow> cl_tunnel_up c' \<and> forward_ok cid c' (map_of (sh_routes sh')) p" by blast+
qed

section \<open>The node\<close>

definition peer_count :: "(client_id \<times> client) list \<Rightarrow> ip_addr \<Rightarrow> nat" where
  "peer_count cs ip = length (filter (\<lambda>e. cl_peer_ip (snd e) = ip) cs)"

definition node_inv :: "('d, 's) server \<Rightarrow> node \<Rightarrow> bool" where
  "node_inv S nd \<longleftrightarrow>
     distinct (map fst (nd_clients nd)) \<and> tables_ok (map_of (nd_clients nd)) (nd_shared nd) \<and>
     length (nd_clients nd) \<le> nc_max_connections (sv_cfg S) \<and>
     (\<forall>ip. peer_count (nd_clients nd) ip \<le> nc_max_connections_per_ip (sv_cfg S))"

lemma peer_count_map: "peer_count cs ip = length (filter (\<lambda>x. x = ip) (map (\<lambda>e. cl_peer_ip (snd e)) cs))"
  by (induction cs) (auto simp: peer_count_def)

lemma tables_ok_new:
  assumes "tables_ok m sh" and "m cid = None" and "cl_ci_stream c = None" and "cl_assigned_ip c = None" and "client_ok c"
  shows "tables_ok (m(cid \<mapsto> c)) sh"
proof -
  have o: "owns_ok m (map_of (sh_routes sh))" "leases_ok m (sh_pool sh)" using assms(1) by (auto simp: tables_ok_def)
  have none: "map_of (sh_routes sh) a \<noteq> Some cid" for a using owns_ok_owner [OF o(1), of a cid] assms(2) by force
  have "owns_ok (m(cid \<mapsto> c)) (map_of (sh_routes sh))"
    by (rule owns_ok_update [OF o(1)]) (use owns_ok_holder [OF o(1)] none assms(4) in auto)
  moreover have "leases_ok (m(cid \<mapsto> c)) (sh_pool sh)" using o(2) assms(2,4) by (auto simp: leases_ok_def split: if_splits)
  ultimately show ?thesis using assms(1,5) by (auto simp: tables_ok_def)
qed

lemma handle_packet_cases:
  assumes "handle_packet S hdr from ent acc cs = (r, cs')"
  obtains (same) "cs' = cs"
  | (new) h where "hdr = Some h" "map_of cs (qh_dcid h) = None" "qh_initial h"
      "cs' = AList.update (qh_dcid h) (new_client (sv_pqwg S) (sock_ip from)) cs"
      "length cs < nc_max_connections (sv_cfg S)" "peer_count cs (sock_ip from) < nc_max_connections_per_ip (sv_cfg S)"
      "retry_validate (cr_sha256 (sv_crypto S)) (sv_retry_key S) from (qh_token h) \<noteq> None"
  using assms
  by (auto simp: handle_packet_def Let_def connection_capacity_available_def peer_count_def
      split: option.splits if_splits)

lemma node_inv_update:
  assumes "node_inv S nd" and "map_of (nd_clients nd) cid = Some c" and "tables_ok ((map_of (nd_clients nd))(cid \<mapsto> c')) sh'"
    and "cl_peer_ip c' = cl_peer_ip c"
  shows "node_inv S (nd\<lparr>nd_clients := AList.update cid c' (nd_clients nd), nd_shared := sh'\<rparr>)"
  using assms update_same_field [OF assms(2), of cl_peer_ip c'] length_update [OF assms(2)]
  by (simp add: node_inv_def peer_count_map distinct_update)

lemma reap_inv:
  assumes "node_inv S nd"
  shows "node_inv S (reap closed nd)"
proof -
  let ?m = "map_of (nd_clients nd)" and ?sh = "nd_shared nd"
  define cs where "cs = filter (\<lambda>e. \<not> closed (fst e)) (nd_clients nd)"
  define p where "p = fold (\<lambda>e p. if closed (fst e) then pool_release (fst e) p else p) (nd_clients nd) (sh_pool ?sh)"
  define rs where "rs = filter (\<lambda>r. map_of cs (snd r) \<noteq> None) (sh_routes ?sh)"
  have t: "tables_ok ?m ?sh" and d: "distinct (map fst (nd_clients nd))" using assms by (auto simp: node_inv_def)
  then have parts: "leases_ok ?m (sh_pool ?sh)" "owns_ok ?m (map_of (sh_routes ?sh))" "routes_ok (sh_routes ?sh)"
    by (auto simp: tables_ok_def)
  then obtain R where R: "pool_ok R (sh_pool ?sh)" by (auto simp: leases_ok_def)
  have m: "map_of cs k = (if closed k then None else ?m k)" for k by (simp add: cs_def map_of_filter_keys)
  note rel = release_closed [OF R, of closed "nd_clients nd", folded p_def]
  have live: "?m k \<noteq> None \<Longrightarrow> k \<in> fst ` set (nd_clients nd)" for k by (metis map_of_eq_None_iff)
  have r: "map_of rs a = (case map_of (sh_routes ?sh) a of Some k \<Rightarrow> if map_of cs k \<noteq> None then Some k else None | None \<Rightarrow> None)" for a
    using map_of_filter_values [of "sh_routes ?sh" "\<lambda>k. map_of cs k \<noteq> None" a] parts(3) by (simp add: rs_def routes_ok_def)
  have "leases_ok (map_of cs) p"
    unfolding leases_ok_def
  proof (intro conjI allI)
    show "\<exists>R. pool_ok R p" using rel(1) by blast
    fix k a
    show "map_of (pl_by_conn p) k = Some a \<longleftrightarrow> (\<exists>c. map_of cs k = Some c \<and> cl_assigned_ip c = Some (ipv4_of_u32 a))"
      using parts(1) live [of k] by (auto simp: rel(2) m leases_ok_def)
  qed
  moreover have "owns_ok (map_of cs) (map_of rs)"
    unfolding owns_ok_def
  proof (intro conjI allI impI)
    fix k c ip
    assume "map_of cs k = Some c" "cl_assigned_ip c = Some ip"
    then show "map_of rs (V4 ip) = Some k" using owns_ok_holder [OF parts(2), of k c ip] by (auto simp: r m split: if_splits)
  next
    fix a k
    assume "map_of rs a = Some k"
    then have "map_of (sh_routes ?sh) a = Some k" "map_of cs k \<noteq> None" by (auto simp: r split: option.splits if_splits)
    moreover from owns_ok_owner [OF parts(2) this(1)] obtain c where "?m k = Some c" "cl_ci_stream c \<noteq> None"
        "\<And>ip. cl_assigned_ip c = Some ip \<Longrightarrow> a = V4 ip" by blast
    ultimately show "\<exists>c. map_of cs k = Some c \<and> cl_ci_stream c \<noteq> None \<and> (\<forall>ip. cl_assigned_ip c = Some ip \<longrightarrow> a = V4 ip)"
      by (auto simp: m split: if_splits)
  qed
  moreover have "length (filter (\<lambda>e. snd e = k) rs) \<le> MAX_LEARNED_ROUTES_PER_CLIENT" for k
    using filter_conj_length [of "\<lambda>e. snd e = k" _ "sh_routes ?sh"] parts(3) le_trans unfolding rs_def routes_ok_def by blast
  then have "routes_ok rs" using parts(3) by (simp add: routes_ok_def rs_def distinct_map_filter)
  moreover have "\<forall>k c. map_of cs k = Some c \<longrightarrow> client_ok c" using t by (auto simp: m tables_ok_def split: if_splits)
  ultimately have "tables_ok (map_of cs) (?sh\<lparr>sh_pool := p, sh_routes := rs\<rparr>)" using t by (simp add: tables_ok_def)
  moreover have "distinct (map fst cs)" using d by (simp add: cs_def distinct_map_filter)
  moreover have "length cs \<le> length (nd_clients nd)" by (simp add: cs_def)
  moreover have "peer_count cs ip \<le> peer_count (nd_clients nd) ip" for ip unfolding cs_def peer_count_def by (rule filter_conj_length)
  moreover have "reap closed nd = nd\<lparr>nd_clients := cs, nd_shared := ?sh\<lparr>sh_pool := p, sh_routes := rs\<rparr>\<rparr>"
    by (simp add: reap_def Let_def cs_def p_def rs_def)
  ultimately show ?thesis using assms unfolding node_inv_def by (simp add: le_trans [where j = "length (nd_clients nd)"])
    (meson le_trans)
qed

lemma new_client_fields [simp]:
  "cl_ci_stream (new_client q ip) = None" "cl_assigned_ip (new_client q ip) = None" "cl_peer_ip (new_client q ip) = ip"
  "cl_tunnel_up (new_client q ip) = False" "client_ok (new_client q ip)"
  by (simp_all add: new_client_def client_ok_def)

lemma node_step_inv:
  assumes "node_inv S nd"
  shows "node_inv S (snd (node_step S e nd))"
proof (cases e)
  case (UdpPacket hdr src ent acc)
  obtain r cs where h: "handle_packet S hdr src ent acc (nd_clients nd) = (r, cs)" by fastforce
  then show ?thesis
  proof (cases rule: handle_packet_cases)
    case same
    then show ?thesis using assms UdpPacket h by simp
  next
    case (new p)
    let ?c = "new_client (sv_pqwg S) (sock_ip src)"
    have cs: "cs = nd_clients nd @ [(qh_dcid p, ?c)]" using new(2,4) by (simp add: update_new)
    have "tables_ok ((map_of (nd_clients nd))(qh_dcid p \<mapsto> ?c)) (nd_shared nd)"
      using assms new(2) by (intro tables_ok_new) (simp_all add: node_inv_def)
    moreover have "peer_count cs ip \<le> nc_max_connections_per_ip (sv_cfg S)" for ip
      using assms new(6) by (auto simp: cs peer_count_def node_inv_def)
    moreover have "distinct (map fst cs)" using assms new(2) by (simp add: cs node_inv_def map_of_eq_None_iff)
    moreover have "map_of cs = (map_of (nd_clients nd))(qh_dcid p \<mapsto> ?c)" using new(4) by simp
    moreover have "length cs \<le> nc_max_connections (sv_cfg S)" using new(5) by (simp add: cs)
    ultimately show ?thesis using UdpPacket h by (simp add: node_inv_def)
  qed
next
  case (Serve cid w)
  show ?thesis
  proof (cases "map_of (nd_clients nd) cid")
    case (Some c)
    obtain rs outs dgs c' sh' where s: "serve_client S cid w (c, nd_shared nd) = ((rs, outs, dgs), c', sh')" by (metis surj_pair)
    have t: "tables_ok (map_of (nd_clients nd)) (nd_shared nd)" using assms by (simp add: node_inv_def)
    show ?thesis using node_inv_update [OF assms Some serve_client_ok(1,2) [OF t Some s]] Serve Some s by simp
  qed (use assms Serve in simp)
next
  case (Reap closed)
  then show ?thesis using reap_inv [OF assms] by simp
qed (use assms in simp)

interpretation node_run: machine "node_step S" "node_inv S" for S
  using node_step_inv by unfold_locales

lemma node_start_Inr:
  assumes "node_start S clock = Inr nd"
  obtains p cache where "default_v4 = Inr (Some p)"
    and "replay_new (now_unix_secs_for_expiry clock) (nc_grant_replay_capacity (sv_cfg S)) = Some cache"
    and "nd = \<lparr>nd_clients = [], nd_shared = \<lparr>sh_pool = p, sh_routes = [], sh_replays = cache\<rparr>\<rparr>"
  using assms by (auto simp: node_start_def split: option.splits)

lemma node_start_inv:
  assumes "node_start S clock = Inr nd"
  shows "node_inv S nd"
  using assms
proof (cases rule: node_start_Inr)
  case (1 p cache)
  have "pool_ok (pool_reserved p (ipv4_to_u32 (Ipv4Addr 10 74 0 1))) p" "pl_by_conn p = []"
    by (rule pool_new_Some [OF 1(1) [unfolded default_v4_def]])+
  then have "leases_ok Map.empty p" by (auto simp: leases_ok_def)
  moreover have "owns_ok Map.empty (map_of [])" "routes_ok []" by (simp_all add: owns_ok_def routes_ok_def)
  ultimately show ?thesis using replay_new_inv [OF 1(2)] by (simp add: node_inv_def tables_ok_def 1(3) peer_count_def)
qed

section \<open>The tunnels that were opened\<close>

text \<open>
  The requests the node authorised, in order: the client, the address it was validated at, the grant and
  the time.
\<close>

type_synonym tunnel_opening = "client_id \<times> ip_addr \<times> verified_grant \<times> u64"

definition is_connect :: "headers \<Rightarrow> bool" where
  "is_connect hs \<longleftrightarrow>
     header_value hs (lit '':method'') = Some (lit ''CONNECT'') \<and> header_value hs (lit '':protocol'') = Some (lit ''connect-ip'')"

fun event_log :: "('d, 's) server \<Rightarrow> client_id \<Rightarrow> h3_event \<Rightarrow> client \<times> shared \<Rightarrow> tunnel_opening list" where
  "event_log S cid (EvHeaders sid hs clock sent) (c, sh) =
     (let now = now_unix_secs_for_expiry clock in
      if is_connect hs \<and> cl_ci_stream c = None then
        (case check_connect S hs (cl_peer_ip c) now of
           Inr (Some g) \<Rightarrow> if fst (replay_consume (g, now) (sh_replays sh)) = Inr () then [(cid, cl_peer_ip c, g, now)] else []
         | _ \<Rightarrow> [])
      else [])"
| "event_log S cid e s = []"

fun events_log :: "('d, 's) server \<Rightarrow> client_id \<Rightarrow> h3_event list \<Rightarrow> client \<times> shared \<Rightarrow> tunnel_opening list" where
  "events_log S cid [] s = []"
| "events_log S cid (e # es) s = event_log S cid e s @ events_log S cid es (snd (h3_event_step S cid e s))"

fun step_log :: "('d, 's) server \<Rightarrow> node_event \<Rightarrow> node \<Rightarrow> tunnel_opening list" where
  "step_log S (Serve cid w) nd =
     (case map_of (nd_clients nd) cid of
        None \<Rightarrow> []
      | Some c \<Rightarrow>
          if cl_h3 c \<or> cw_established w \<and> cw_h3_ok w then events_log S cid (cw_events w) (c\<lparr>cl_h3 := True\<rparr>, nd_shared nd) else [])"
| "step_log S e nd = []"

fun node_log :: "('d, 's) server \<Rightarrow> node_event list \<Rightarrow> node \<Rightarrow> tunnel_opening list" where
  "node_log S [] nd = []"
| "node_log S (e # es) nd = step_log S e nd @ node_log S es (snd (node_step S e nd))"

lemma node_log_append: "node_log S (es @ fs) nd = node_log S es nd @ node_log S fs (snd (run (node_step S) es nd))"
  by (induction es arbitrary: nd) (simp_all add: run_Cons del: run.simps(2))

text \<open>An tunnel_opening rests on a request whose grant verified for this node, at that address and time.\<close>

definition opened_by_grant :: "('d, 's) server \<Rightarrow> tunnel_opening \<Rightarrow> bool" where
  "opened_by_grant S x \<longleftrightarrow> (case x of (cid, peer, g, now) \<Rightarrow> \<exists>hs. check_connect S hs peer now = Inr (Some g) \<and> now < vg_expires_at g)"

lemma event_log_cases:
  assumes "x \<in> set (event_log S cid e (c, sh))"
  obtains sid hs clock sent g where "e = EvHeaders sid hs clock sent" and "is_connect hs" and "cl_ci_stream c = None"
    and "check_connect S hs (cl_peer_ip c) (now_unix_secs_for_expiry clock) = Inr (Some g)"
    and "fst (replay_consume (g, now_unix_secs_for_expiry clock) (sh_replays sh)) = Inr ()"
    and "x = (cid, cl_peer_ip c, g, now_unix_secs_for_expiry clock)"
    and "event_log S cid e (c, sh) = [x]"
proof (cases e)
  case (EvHeaders sid hs clock sent)
  let ?now = "now_unix_secs_for_expiry clock"
  have ne: "event_log S cid e (c, sh) \<noteq> []" using assms by auto
  have req: "is_connect hs" "cl_ci_stream c = None" using ne EvHeaders by (auto simp: Let_def split: if_splits)
  obtain g where g: "check_connect S hs (cl_peer_ip c) ?now = Inr (Some g)"
    using ne EvHeaders req by (cases "check_connect S hs (cl_peer_ip c) ?now") (auto simp: Let_def split: option.splits)
  have r: "fst (replay_consume (g, ?now) (sh_replays sh)) = Inr ()" using ne EvHeaders req g by (simp add: Let_def split: if_splits)
  with EvHeaders req g have "event_log S cid e (c, sh) = [(cid, cl_peer_ip c, g, ?now)]" by simp
  with that [OF EvHeaders req g r] assms show thesis by simp
qed (use assms in simp_all)

lemma replay_consume_unexpired: "fst (replay_consume (g, now) c0) = Inr () \<Longrightarrow> now < vg_expires_at g"
  by (auto simp: replay_consume_def Let_def not_le split: if_splits)

lemma event_log_granted: "x \<in> set (event_log S cid e s) \<Longrightarrow> opened_by_grant S x"
  by (cases s) (auto elim!: event_log_cases dest: replay_consume_unexpired simp: opened_by_grant_def)

lemma events_log_granted: "x \<in> set (events_log S cid es s) \<Longrightarrow> opened_by_grant S x"
proof (induction es arbitrary: s)
  case (Cons e es)
  then show ?case using event_log_granted [of x S cid e s] by (cases "x \<in> set (event_log S cid e s)") simp_all
qed simp

lemma node_log_granted: "x \<in> set (node_log S es nd) \<Longrightarrow> opened_by_grant S x"
proof (induction es arbitrary: nd)
  case (Cons e es)
  have "x \<in> set (step_log S e nd) \<Longrightarrow> opened_by_grant S x"
    by (cases e) (auto split: option.splits if_splits dest: events_log_granted)
  with Cons show ?case by auto
qed simp

text \<open>Without the development flag, a tunnel comes up only for a grant that the replay cache accepted.\<close>

lemma check_connect_granted: "\<not> sv_debug S \<Longrightarrow> check_connect S hs ip now \<noteq> Inr None"
  by (auto simp: check_connect_def Let_def split: option.splits)

lemma authorize_granted:
  assumes "authorize_connect S hs ip now cache = (Inr policy, cache')" and "\<not> sv_debug S"
  obtains g where "check_connect S hs ip now = Inr (Some g)" and "replay_consume (g, now) cache = (Inr (), cache')"
    and "policy = grant_policy g"
  using assms check_connect_granted [OF assms(2), of hs ip now]
  by (auto simp: authorize_connect_def split: sum.splits option.splits prod.splits)

definition opened_for :: "client_id \<Rightarrow> client \<Rightarrow> tunnel_opening list \<Rightarrow> bool" where
  "opened_for cid c L \<longleftrightarrow> (\<exists>g now. (cid, cl_peer_ip c, g, now) \<in> set L \<and> cl_packet_policy c = Some (grant_policy g))"

lemma opened_for_mono: "opened_for cid c L \<Longrightarrow> set L \<subseteq> set L' \<Longrightarrow> opened_for cid c L'"
  by (auto simp: opened_for_def)

lemma opened_for_fields:
  "opened_for cid c L \<Longrightarrow> cl_peer_ip c' = cl_peer_ip c \<Longrightarrow> cl_packet_policy c' = cl_packet_policy c \<Longrightarrow> opened_for cid c' L"
  by (simp add: opened_for_def)

lemma event_opens:
  assumes "h3_event_step S cid e (c, sh) = (r, c', sh')" and "\<not> sv_debug S" and "client_ok c" and "cl_tunnel_up c'"
    and "cl_tunnel_up c \<Longrightarrow> opened_for cid c L"
  shows "opened_for cid c' (L @ event_log S cid e (c, sh))"
proof (cases "is_request e")
  case False
  then show ?thesis using other_event_fields [OF assms(1) False] assms(4,5) opened_for_fields opened_for_mono [of cid c' L] by simp
next
  case True
  then obtain sid hs clock sent where e: "e = EvHeaders sid hs clock sent" by (cases e) auto
  let ?now = "now_unix_secs_for_expiry clock"
  obtain a r1 where a: "authorize_connect S hs (cl_peer_ip c) ?now (sh_replays sh) = (a, r1)" by fastforce
  show ?thesis
  proof (cases "is_connect hs \<and> cl_ci_stream c = None \<and> \<not> isl a")
    case False
    then have "c' = c" using assms(1) e a by (cases a) (auto simp: is_connect_def split: if_splits)
    then show ?thesis using assms(4,5) opened_for_mono [of cid c L] by simp
  next
    case True
    then obtain policy where p: "a = Inr policy" by (cases a) auto
    obtain resp where b: "bring_up S cid sid hs sent policy (c, sh\<lparr>sh_replays := r1\<rparr>) = (resp, c', sh')"
      using assms(1) e a p True by (auto simp: is_connect_def split: prod.splits)
    have "\<not> cl_tunnel_up c" using True assms(3) by (simp add: client_ok_def)
    with bring_up_fields [OF b] assms(4) have f: "cl_packet_policy c' = Some policy" "cl_peer_ip c' = cl_peer_ip c" by simp_all
    obtain g where g: "check_connect S hs (cl_peer_ip c) ?now = Inr (Some g)" "replay_consume (g, ?now) (sh_replays sh) = (Inr (), r1)"
        "policy = grant_policy g"
      using authorize_granted a p assms(2) by blast
    then have "event_log S cid e (c, sh) = [(cid, cl_peer_ip c, g, ?now)]" using e True by simp
    with f g(3) show ?thesis by (auto simp: opened_for_def)
  qed
qed

lemma events_open:
  assumes "tables_ok m sh" and "m cid = Some c" and "h3_events S cid es (c, sh) = (rs, c', sh')" and "\<not> sv_debug S"
    and "cl_tunnel_up c'" and "cl_tunnel_up c \<Longrightarrow> opened_for cid c L"
  shows "opened_for cid c' (L @ events_log S cid es (c, sh))"
  using assms(1-3,6)
proof (induction es arbitrary: m c sh rs L)
  case Nil
  then show ?case using assms(5) by simp
next
  case (Cons e es)
  obtain r c1 sh1 where e: "h3_event_step S cid e (c, sh) = (r, c1, sh1)" by (metis surj_pair)
  obtain rs1 where es: "h3_events S cid es (c1, sh1) = (rs1, c', sh')" using Cons.prems(3) e by (auto split: prod.splits)
  define m1 where "m1 = m(cid \<mapsto> c1)"
  have m1: "tables_ok m1 sh1" "m1 cid = Some c1" using h3_event_step_ok [OF Cons.prems(1,2) e] by (simp_all add: m1_def)
  have "client_ok c" using tables_ok_clientD Cons.prems(1,2) by blast
  then have "cl_tunnel_up c1 \<Longrightarrow> opened_for cid c1 (L @ event_log S cid e (c, sh))"
    using event_opens [OF e assms(4)] Cons.prems(4) by blast
  from Cons.IH [OF m1 es this] show ?case using e by simp
qed

definition tunnels_opened :: "tunnel_opening list \<Rightarrow> node \<Rightarrow> bool" where
  "tunnels_opened L nd \<longleftrightarrow> (\<forall>cid c. map_of (nd_clients nd) cid = Some c \<longrightarrow> cl_tunnel_up c \<longrightarrow> opened_for cid c L)"

lemma serve_opens:
  assumes "tables_ok m sh" and "m cid = Some c" and "serve_client S cid w (c, sh) = (out, c', sh')" and "\<not> sv_debug S"
    and "cl_tunnel_up c'" and "cl_tunnel_up c \<Longrightarrow> opened_for cid c L"
  shows "opened_for cid c' (L @ (if cl_h3 c \<or> cw_established w \<and> cw_h3_ok w then events_log S cid (cw_events w) (c\<lparr>cl_h3 := True\<rparr>, sh) else []))"
proof -
  obtain rs sh1 where d: "drive_h3 S cid w (c, sh) = (rs, c', sh1)"
    using assms(3) by (auto simp: serve_client_def split: prod.splits if_splits)
  show ?thesis
  proof (cases "cl_h3 c \<or> cw_established w \<and> cw_h3_ok w")
    case False
    then have "c' = c" using d by (auto simp: drive_h3_def split: if_splits)
    then show ?thesis using False assms(5,6) by auto
  next
    case True
    have eta: "(if \<not> cl_h3 c \<and> cw_established w then c\<lparr>cl_h3 := True\<rparr> else c) = c\<lparr>cl_h3 := True\<rparr>" using True by (cases c) auto
    obtain c2 where run: "h3_events S cid (cw_events w) (c\<lparr>cl_h3 := True\<rparr>, sh) = (rs, c2, sh1)" "c' = flush_control (cw_ctrl_written w) c2"
      using d True eta by (auto simp: drive_h3_def Let_def split: if_splits prod.splits)
    define m1 where "m1 = m(cid \<mapsto> c\<lparr>cl_h3 := True\<rparr>)"
    have "client_ok c" using tables_ok_clientD assms(1,2) by blast
    then have "tables_ok m1 sh" "m1 cid = Some (c\<lparr>cl_h3 := True\<rparr>)"
      unfolding m1_def by (intro tables_ok_client [OF assms(1,2)]) (simp_all add: client_ok_def)
    from events_open [OF this run(1) assms(4), of L] assms(5,6) run(2)
    have "opened_for cid c2 (L @ events_log S cid (cw_events w) (c\<lparr>cl_h3 := True\<rparr>, sh))"
      by (simp add: flush_control_fields opened_for_def)
    then show ?thesis using True run(2) by (simp add: flush_control_fields opened_for_def)
  qed
qed

lemma step_opens:
  assumes "node_inv S nd" and "\<not> sv_debug S" and "tunnels_opened L nd"
  shows "tunnels_opened (L @ step_log S e nd) (snd (node_step S e nd))"
proof (cases e)
  case (UdpPacket hdr src ent acc)
  obtain r cs where h: "handle_packet S hdr src ent acc (nd_clients nd) = (r, cs)" by fastforce
  then have "tunnels_opened L (nd\<lparr>nd_clients := cs\<rparr>)"
    using assms(3) by (cases rule: handle_packet_cases) (auto simp: tunnels_opened_def split: if_splits)
  then show ?thesis using UdpPacket h by simp
next
  case (Serve cid w)
  show ?thesis
  proof (cases "map_of (nd_clients nd) cid")
    case (Some c)
    obtain rs outs dgs c' sh' where s: "serve_client S cid w (c, nd_shared nd) = ((rs, outs, dgs), c', sh')" by (metis surj_pair)
    have t: "tables_ok (map_of (nd_clients nd)) (nd_shared nd)" using assms(1) by (simp add: node_inv_def)
    have "cl_tunnel_up c \<Longrightarrow> opened_for cid c L" using assms(3) Some by (simp add: tunnels_opened_def)
    from serve_opens [OF t Some s assms(2) _ this]
    have new: "cl_tunnel_up c' \<Longrightarrow> opened_for cid c' (L @ step_log S e nd)" using Serve Some by simp
    have "opened_for k d (L @ step_log S e nd)" if "map_of (nd_clients nd) k = Some d" "cl_tunnel_up d" for k d
      using that assms(3) opened_for_mono [of k d L "L @ step_log S e nd"] by (simp add: tunnels_opened_def)
    moreover have "map_of (nd_clients (snd (node_step S e nd))) = (map_of (nd_clients nd))(cid \<mapsto> c')" using Serve Some s by simp
    ultimately show ?thesis using new unfolding tunnels_opened_def by (auto split: if_splits)
  qed (use assms Serve in \<open>simp add: tunnels_opened_def\<close>)
next
  case (Reap closed)
  then show ?thesis using assms(3) by (auto simp: tunnels_opened_def reap_def Let_def map_of_filter_keys [of "\<lambda>k. k \<in> set closed"] split: if_splits)
qed (use assms in simp)

lemma run_opens:
  assumes "node_inv S nd" and "\<not> sv_debug S" and "tunnels_opened L nd"
  shows "tunnels_opened (L @ node_log S es nd) (snd (run (node_step S) es nd))"
  using assms(1,3)
proof (induction es arbitrary: nd L)
  case (Cons e es)
  from Cons.IH [OF node_step_inv [OF Cons.prems(1)] step_opens [OF Cons.prems(1) assms(2) Cons.prems(2)]]
  show ?case by (simp add: run_Cons del: run.simps(2))
qed simp

section \<open>A grant opens one tunnel\<close>

fun request_clocks :: "h3_event list \<Rightarrow> u64 list" where
  "request_clocks [] = []"
| "request_clocks (EvHeaders sid hs clock sent # es) = now_unix_secs_for_expiry clock # request_clocks es"
| "request_clocks (_ # es) = request_clocks es"

fun event_clocks :: "node_event \<Rightarrow> u64 list" where
  "event_clocks (Serve cid w) = request_clocks (cw_events w)"
| "event_clocks _ = []"

definition log_grants :: "tunnel_opening list \<Rightarrow> verified_grant list" where
  "log_grants L = map (\<lambda>(cid, peer, g, now). g) L"

lemma log_grants_simps [simp]: "log_grants [] = []" "log_grants ((cid, peer, g, now) # L) = g # log_grants L"
  "log_grants (L @ L') = log_grants L @ log_grants L'"
  by (simp_all add: log_grants_def)

text \<open>Every grant used so far has expired or is still in the cache, and none was used twice.\<close>

definition used_ok :: "tunnel_opening list \<Rightarrow> u64 \<Rightarrow> replay_cache \<Rightarrow> bool" where
  "used_ok L t c \<longleftrightarrow>
     distinct (log_grants L) \<and>
     (\<forall>g\<in>set (log_grants L). vg_expires_at g \<le> t \<or> (ReplayKey (vg_key_id g) (vg_nonce g), vg_expires_at g) \<in> set (rc_entries c))"

lemma used_ok_later: "used_ok L t c \<Longrightarrow> t \<le> t' \<Longrightarrow> used_ok L t' c"
  by (auto simp: used_ok_def intro: order_trans)

lemma used_ok_consume:
  assumes "replay_inv c" and "used_ok L t c" and "t \<le> now" and "replay_consume (g, now) c = (r, c')"
  shows "used_ok L now c'" and "r = Inr () \<Longrightarrow> used_ok (L @ [(cid, peer, g, now)]) now c'"
proof -
  have keep: "vg_expires_at h \<le> now \<or> (ReplayKey (vg_key_id h) (vg_nonce h), vg_expires_at h) \<in> set (rc_entries c')"
    if h: "h \<in> set (log_grants L)" for h
  proof (cases "vg_expires_at h \<le> now")
    case False
    then have "(ReplayKey (vg_key_id h) (vg_nonce h), vg_expires_at h) \<in> set (rc_entries c)"
      using assms(2,3) h by (auto simp: used_ok_def)
    from replay_consume_keeps(1) [OF assms(1) this, of now g] False assms(4) show ?thesis by simp
  qed simp
  then show "used_ok L now c'" using assms(2) by (simp add: used_ok_def)
  assume "r = Inr ()"
  then have acc: "fst (replay_consume (g, now) c) = Inr ()" using assms(4) by simp
  have "g \<notin> set (log_grants L)"
  proof
    assume g: "g \<in> set (log_grants L)"
    have live: "now < vg_expires_at g" by (rule replay_consume_unexpired [OF acc])
    then have "(ReplayKey (vg_key_id g) (vg_nonce g), vg_expires_at g) \<in> set (rc_entries c)"
      using g assms(2,3) by (auto simp: used_ok_def)
    from replay_consume_keeps(2) [OF assms(1) this live refl] acc show False by simp
  qed
  moreover have "(ReplayKey (vg_key_id g) (vg_nonce g), vg_expires_at g) \<in> set (rc_entries c')"
    using replay_consume_records [OF assms(1) acc] assms(4) by simp
  ultimately show "used_ok (L @ [(cid, peer, g, now)]) now c'" using keep assms(2) by (auto simp: used_ok_def)
qed

lemma event_used:
  assumes e: "h3_event_step S cid e (c, sh) = (r, c', sh')" and inv: "replay_inv (sh_replays sh)" and u: "used_ok L t (sh_replays sh)"
    and s: "sorted (t # request_clocks [e])" and rel: "\<not> sv_debug S"
  shows "used_ok (L @ event_log S cid e (c, sh)) (last (t # request_clocks [e])) (sh_replays sh')"
proof (cases "is_request e")
  case False
  then have "request_clocks [e] = []" "event_log S cid e (c, sh) = []" by (cases e; simp)+
  then show ?thesis using u other_event_fields(1) [OF e False] by simp
next
  case True
  then obtain sid hs clock sent where ev: "e = EvHeaders sid hs clock sent" by (cases e) auto
  let ?now = "now_unix_secs_for_expiry clock"
  have t: "t \<le> ?now" "last (t # request_clocks [e]) = ?now" using s ev by simp_all
  note later = used_ok_later [OF u t(1)]
  show ?thesis
  proof (cases "is_connect hs \<and> cl_ci_stream c = None")
    case False
    then have "sh' = sh" "event_log S cid e (c, sh) = []" using e ev by (auto simp: is_connect_def Let_def split: if_splits)
    then show ?thesis using later t by simp
  next
    case conn: True
    show ?thesis
    proof (cases "check_connect S hs (cl_peer_ip c) ?now")
      case (Inl m)
      then have "sh' = sh" "event_log S cid e (c, sh) = []" using e ev conn by (auto simp: is_connect_def authorize_connect_def)
      then show ?thesis using later t by simp
    next
      case (Inr og)
      then obtain g where g: "check_connect S hs (cl_peer_ip c) ?now = Inr (Some g)"
        using check_connect_granted [OF rel, of hs "cl_peer_ip c" ?now] by (cases og) auto
      obtain x r1 where x: "replay_consume (g, ?now) (sh_replays sh) = (x, r1)" by fastforce
      have "sh_replays sh' = r1"
      proof (cases x)
        case (Inl y)
        then show ?thesis using e ev conn g x by (auto simp: is_connect_def authorize_connect_def)
      next
        case (Inr y)
        then obtain resp where "bring_up S cid sid hs sent (grant_policy g) (c, sh\<lparr>sh_replays := r1\<rparr>) = (resp, c', sh')"
          using e ev conn g x by (auto simp: is_connect_def authorize_connect_def split: prod.splits)
        from bring_up_fields(3) [OF this] show ?thesis by simp
      qed
      moreover have "event_log S cid e (c, sh) = (if x = Inr () then [(cid, cl_peer_ip c, g, ?now)] else [])"
        using ev conn g x by simp
      ultimately show ?thesis using used_ok_consume [OF inv u t(1) x] t(2) by simp
    qed
  qed
qed

lemma request_clocks_Cons: "request_clocks (e # es) = request_clocks [e] @ request_clocks es"
  by (cases e) simp_all

lemma sorted_clocks:
  "sorted (t # xs @ ys) \<Longrightarrow> sorted (t # xs) \<and> sorted (last (t # xs) # ys)" "last (t # xs @ ys) = last (last (t # xs) # ys)"
  by (auto simp: sorted_append dest: last_in_set split: if_splits)

lemma sorted_last: "sorted (t # xs) \<Longrightarrow> t \<le> last (t # xs)"
  by (cases "xs = []") auto

lemma events_used:
  assumes "tables_ok m sh" and "m cid = Some c" and "h3_events S cid es (c, sh) = (rs, c', sh')" and "\<not> sv_debug S"
    and "used_ok L t (sh_replays sh)" and "sorted (t # request_clocks es)"
  shows "used_ok (L @ events_log S cid es (c, sh)) (last (t # request_clocks es)) (sh_replays sh')"
  using assms(1-3,5,6)
proof (induction es arbitrary: m c sh rs L t)
  case (Cons e es)
  obtain r c1 sh1 where e: "h3_event_step S cid e (c, sh) = (r, c1, sh1)" by (metis surj_pair)
  obtain rs1 where es: "h3_events S cid es (c1, sh1) = (rs1, c', sh')" using Cons.prems(3) e by (auto split: prod.splits)
  define m1 where "m1 = m(cid \<mapsto> c1)"
  have m1: "tables_ok m1 sh1" "m1 cid = Some c1" using h3_event_step_ok [OF Cons.prems(1,2) e] by (simp_all add: m1_def)
  have inv: "replay_inv (sh_replays sh)" using Cons.prems(1) by (simp add: tables_ok_def)
  note s = sorted_clocks [of t "request_clocks [e]" "request_clocks es", folded request_clocks_Cons]
  have s1: "sorted (t # request_clocks [e])" "sorted (last (t # request_clocks [e]) # request_clocks es)" using s(1) Cons.prems(5) by auto
  note u = event_used [OF e inv Cons.prems(4) s1(1) assms(4)]
  from Cons.IH [OF m1 es u s1(2)] show ?case using e s(2) by simp
qed simp

lemma step_used:
  assumes "node_inv S nd" and "\<not> sv_debug S" and "used_ok L t (sh_replays (nd_shared nd))" and "sorted (t # event_clocks e)"
  shows "used_ok (L @ step_log S e nd) (last (t # event_clocks e)) (sh_replays (nd_shared (snd (node_step S e nd))))"
proof (cases e)
  case (Serve cid w)
  have t: "tables_ok (map_of (nd_clients nd)) (nd_shared nd)" using assms(1) by (simp add: node_inv_def)
  note later = used_ok_later [OF assms(3) sorted_last [OF assms(4)]]
  show ?thesis
  proof (cases "map_of (nd_clients nd) cid")
    case (Some c)
    obtain out c' sh' where s: "serve_client S cid w (c, nd_shared nd) = (out, c', sh')" by (metis surj_pair)
    obtain rs c1 sh1 where d: "drive_h3 S cid w (c, nd_shared nd) = (rs, c1, sh1)" by (metis surj_pair)
    have "sh_replays sh' = sh_replays sh1" using s d by (auto simp: serve_client_def split: prod.splits if_splits)
    moreover have "used_ok (L @ step_log S e nd) (last (t # event_clocks e)) (sh_replays sh1)"
    proof (cases "cl_h3 c \<or> cw_established w \<and> cw_h3_ok w")
      case False
      then have "sh1 = nd_shared nd" "step_log S e nd = []" using d Serve Some by (auto simp: drive_h3_def split: if_splits)
      then show ?thesis using later by simp
    next
      case True
      have eta: "(if \<not> cl_h3 c \<and> cw_established w then c\<lparr>cl_h3 := True\<rparr> else c) = c\<lparr>cl_h3 := True\<rparr>" using True by (cases c) auto
      obtain c2 where run: "h3_events S cid (cw_events w) (c\<lparr>cl_h3 := True\<rparr>, nd_shared nd) = (rs, c2, sh1)"
        using d True eta by (auto simp: drive_h3_def Let_def split: if_splits prod.splits)
      define m1 where "m1 = (map_of (nd_clients nd))(cid \<mapsto> c\<lparr>cl_h3 := True\<rparr>)"
      have "client_ok c" using tables_ok_clientD [OF t Some] .
      then have m1: "tables_ok m1 (nd_shared nd)" "m1 cid = Some (c\<lparr>cl_h3 := True\<rparr>)"
        unfolding m1_def by (intro tables_ok_client [OF t Some]) (simp_all add: client_ok_def)
      from events_used [OF m1 run assms(2,3)] assms(4) Serve Some True show ?thesis by auto
    qed
    moreover have "nd_shared (snd (node_step S e nd)) = sh'" using Serve Some s by (cases out) simp
    ultimately show ?thesis by simp
  qed (use later Serve in simp)
qed (use assms in \<open>auto simp: reap_def Let_def split: prod.splits\<close>)

lemma run_used:
  assumes "node_inv S nd" and "\<not> sv_debug S" and "used_ok L t (sh_replays (nd_shared nd))"
    and "sorted (t # concat (map event_clocks es))"
  shows "used_ok (L @ node_log S es nd) (last (t # concat (map event_clocks es))) (sh_replays (nd_shared (snd (run (node_step S) es nd))))"
  using assms(1,3,4)
proof (induction es arbitrary: nd L t)
  case (Cons e es)
  note s = sorted_clocks [of t "event_clocks e" "concat (map event_clocks es)"]
  have s1: "sorted (t # event_clocks e)" "sorted (last (t # event_clocks e) # concat (map event_clocks es))"
    using s(1) Cons.prems(3) by auto
  from Cons.IH [OF node_step_inv [OF Cons.prems(1)] step_used [OF Cons.prems(1) assms(2) Cons.prems(2) s1(1)] s1(2)]
  show ?case using s(2) by (simp add: run_Cons del: run.simps(2))
qed simp

end
