(* ===== verification/Node_Service.thy ===== *)
theory Node_Service
  imports Node_Safety
begin

text \<open>
  What the node of \<open>nil-node/src/server.rs\<close> does for its clients and what it does not: a valid grant
  opens a tunnel with an address of its own, its packets are forwarded, and nothing else is. Built on the
  invariant and the log of opened tunnels of \<open>Node_Safety\<close>.
\<close>

section \<open>The pool of a running node\<close>

definition pool_from :: "pool \<Rightarrow> pool \<Rightarrow> bool" where
  "pool_from p0 p \<longleftrightarrow> (\<exists>ops. p = snd (run pool_step ops p0))"

lemma pool_from_refl: "pool_from p p"
  unfolding pool_from_def by (rule exI [of _ "[]"]) simp

lemma pool_from_step: "pool_from p0 p \<Longrightarrow> pool_from p0 (snd (pool_step op p))"
  unfolding pool_from_def
proof (elim exE)
  fix ops
  assume "p = snd (run pool_step ops p0)"
  then show "\<exists>ops. snd (pool_step op p) = snd (run pool_step ops p0)"
    by (intro exI [of _ "ops @ [op]"]) (simp add: run_append case_prod_unfold Let_def)
qed

lemma pool_from_ops: "pool_from p0 p \<Longrightarrow> pool_from p0 (snd (pool_assign k p))" "pool_from p0 p \<Longrightarrow> pool_from p0 (pool_release k p)"
  using pool_from_step [of p0 p "Assign k"] pool_from_step [of p0 p "Release k"] by simp_all

lemma event_pool:
  assumes "h3_event_step S cid e (c, sh) = (r, c', sh')" and "pool_from p0 (sh_pool sh)"
  shows "pool_from p0 (sh_pool sh')"
proof (cases e)
  case (EvHeaders sid hs clock sent)
  obtain a p1 where a: "pool_assign cid (sh_pool sh) = (a, p1)" by fastforce
  have "pool_from p0 p1" using pool_from_ops(1) [OF assms(2), of cid] a by simp
  then show ?thesis using assms a EvHeaders
    by (auto simp: bring_up_def Let_def pool_from_ops(2) split: if_splits prod.splits sum.splits option.splits)
qed (use assms in \<open>auto split: if_splits option.splits\<close>)

lemma events_pool:
  "h3_events S cid es (c, sh) = (rs, c', sh') \<Longrightarrow> pool_from p0 (sh_pool sh) \<Longrightarrow> pool_from p0 (sh_pool sh')"
proof (induction es arbitrary: c sh rs c' sh')
  case (Cons e es)
  obtain r c1 sh1 where e: "h3_event_step S cid e (c, sh) = (r, c1, sh1)" by (metis surj_pair)
  obtain rs1 c2 sh2 where es: "h3_events S cid es (c1, sh1) = (rs1, c2, sh2)" by (metis surj_pair)
  have "sh' = sh2" using Cons.prems(1) e es by (auto split: option.splits)
  then show ?case using Cons.IH [OF es event_pool [OF e Cons.prems(2)]] by simp
qed simp

lemma serve_pool:
  assumes "serve_client S cid w (c, sh) = (x, c', sh')" and "pool_from p0 (sh_pool sh)"
  shows "pool_from p0 (sh_pool sh')"
  using assms events_pool [of S cid "cw_events w"]
  by (auto simp: serve_client_def drive_h3_def Let_def split: prod.splits if_splits)

lemma reap_pool: "pool_from p0 (sh_pool (nd_shared nd)) \<Longrightarrow> pool_from p0 (sh_pool (nd_shared (reap closed nd)))"
proof -
  have "pool_from p0 p \<Longrightarrow> pool_from p0 (fold (\<lambda>e p. if closed (fst e) then pool_release (fst e) p else p) xs p)"
    for p and xs :: "(client_id \<times> client) list"
    by (induction xs arbitrary: p) (auto simp: pool_from_ops)
  then show "pool_from p0 (sh_pool (nd_shared nd)) \<Longrightarrow> pool_from p0 (sh_pool (nd_shared (reap closed nd)))"
    by (simp add: reap_def Let_def)
qed

lemma step_pool:
  assumes "pool_from p0 (sh_pool (nd_shared nd))"
  shows "pool_from p0 (sh_pool (nd_shared (snd (node_step S e nd))))"
proof (cases e)
  case (Serve cid w)
  then show ?thesis using assms serve_pool
    by (cases "map_of (nd_clients nd) cid") (fastforce split: prod.splits)+
qed (use assms in \<open>auto simp: reap_pool split: prod.splits\<close>)

interpretation node_pool: machine "node_step S" "\<lambda>nd. pool_from p0 (sh_pool (nd_shared nd))" for S p0
  using step_pool by unfold_locales

text \<open>The pool has an address for every client of a node whose connection limit is below its size.\<close>

definition default_pool :: pool where
  "default_pool = \<lparr>pl_first = 172621825, pl_last = 172687358, pl_cursor = 172621825, pl_in_use = {172621825}, pl_by_conn = []\<rparr>"

lemma default_v4_pool: "default_v4 = Inr (Some default_pool)"
  by (simp add: default_v4_def pool_new_def default_pool_def Let_def ipv4_to_u32_def of_be_def nat_of_be_def mask_eq_exp_minus_1)

lemma default_pool_span: "pool_span default_pool = 65534"
  by (simp add: pool_span_def default_pool_def)

lemma address_available:
  assumes "node_start S clock = Inr nd0" and "nd = snd (run (node_step S) es nd0)"
    and "nc_max_connections (sv_cfg S) \<le> 65532"
    and "map_of (nd_clients nd) cid = Some c" and "cl_ci_stream c = None"
  obtains ip p1 where "pool_assign cid (sh_pool (nd_shared nd)) = (Some ip, p1)"
proof -
  let ?p = "sh_pool (nd_shared nd)"
  from assms(1) obtain p0 where p0: "default_v4 = Inr (Some p0)" "sh_pool (nd_shared nd0) = p0" by (auto elim: node_start_Inr)
  have "pool_from p0 ?p" unfolding assms(2) by (rule node_pool.run_inv) (simp add: p0(2) pool_from_refl)
  then obtain ops where ops: "?p = snd (run pool_step ops p0)" by (auto simp: pool_from_def)
  have inv: "node_inv S nd" unfolding assms(2) by (rule node_run.run_inv [OF node_start_inv [OF assms(1)]])
  then have t: "tables_ok (map_of (nd_clients nd)) (nd_shared nd)" by (simp add: node_inv_def)
  have none: "map_of (pl_by_conn ?p) cid = None" by (rule unrequested_owns_nothing(2) [OF t assms(4,5)])
  have sub: "set (map fst (pl_by_conn ?p)) \<subseteq> set (map fst (nd_clients nd))"
  proof
    fix k
    assume "k \<in> set (map fst (pl_by_conn ?p))"
    then obtain a where "map_of (pl_by_conn ?p) k = Some a" by (auto dest: weak_map_of_SomeI)
    then obtain d where "map_of (nd_clients nd) k = Some d" using t unfolding tables_ok_def leases_ok_def by blast
    from map_of_SomeD [OF this] show "k \<in> set (map fst (nd_clients nd))" by force
  qed
  have d: "distinct (map fst (pl_by_conn ?p))" using t by (auto simp: tables_ok_def leases_ok_def pool_ok_def)
  have "length (pl_by_conn ?p) = card (set (map fst (pl_by_conn ?p)))" using distinct_card [OF d] by simp
  also have "\<dots> \<le> card (set (map fst (nd_clients nd)))" by (rule card_mono [OF _ sub]) simp
  also have "\<dots> \<le> length (nd_clients nd)" using card_length [of "map fst (nd_clients nd)"] by simp
  finally have le: "length (pl_by_conn ?p) \<le> length (nd_clients nd)" .
  note op = pool_operations [OF p0(1) [unfolded default_v4_def] ops, of cid]
  have "p0 = default_pool" using p0(1) [unfolded default_v4_pool] by simp
  then have "pool_span ?p = 65534"
    using pool_run_range [OF pool_new_Some(1) [OF p0(1) [unfolded default_v4_def]], of ops] default_pool_span ops
    by (simp add: pool_span_def)
  then have "fst (pool_assign cid ?p) \<noteq> None" using op none le inv assms(3) by (auto simp: node_inv_def split: option.splits)
  then show thesis using that by (metis not_None_eq prod.collapse)
qed

section \<open>Serving a valid request\<close>

lemma is_lower_hex_encode: "is_lower_hex (connectip_to_hex bs)"
  using connectip_hex.enc_lower [of bs]
  by (auto simp: is_lower_hex_def list_all_iff lower_hex_digit_def is_ascii_digit_def)

lemma request_nonce_encode:
  assumes "filter (\<lambda>h. fst h = ATTEST_NONCE_HEADER) hs = [(ATTEST_NONCE_HEADER, connectip_to_hex nonce)]" and "length nonce = 32"
  shows "request_nonce hs = Inr nonce"
  using assms by (simp add: request_nonce_def unique_header_value_def is_lower_hex_encode connectip_hex.dec_enc connectip_hex.enc_length)

lemma request_grant_encode:
  assumes "filter (\<lambda>h. fst h = TUNNEL_GRANT_HEADER) hs = [(TUNNEL_GRANT_HEADER, connectip_to_hex token)]"
    and "token \<noteq> []" and "length token \<le> MAX_GRANT_TOKEN_LEN"
  shows "request_grant hs = Inr token"
proof -
  have "connectip_to_hex token \<noteq> []" using assms(2) connectip_hex.enc_length [of token] by fastforce
  with assms show ?thesis
    by (simp add: request_grant_def unique_header_value_def is_lower_hex_encode connectip_hex.dec_enc connectip_hex.enc_length)
qed

text \<open>The identity a node checks a grant against.\<close>

definition node_identity_of :: "('d, 's) server \<Rightarrow> node_identity option" where
  "node_identity_of S =
     (case (nc_attest (sv_cfg S), nc_grant_realm (sv_cfg S), nc_node_id (sv_cfg S)) of
        (Some attest, Some realm, Some node_id) \<Rightarrow>
          (case node_identity_new realm node_id (node_grant_role (nc_role (sv_cfg S))) Masque (na_tee attest) (na_measurement attest)
                  (cr_sha256 (sv_crypto S) (sv_spki S)) of
             Inr identity \<Rightarrow> Some identity
           | Inl _ \<Rightarrow> None)
      | _ \<Rightarrow> None)"

lemma check_connect_accepts:
  assumes "nc_grant_verifier (sv_cfg S) = Some v" and "node_identity_of S = Some identity"
    and "request_grant hs = Inr token" and "request_nonce hs = Inr (vg_nonce g)"
    and "grant_verify_for_node (sv_crypto S) token v identity now = Inr g"
    and "\<And>ip. au_previous_hop (vg_audience g) = Some ip \<Longrightarrow> peer = V4 ip"
  shows "check_connect S hs peer now = Inr (Some g)"
  using assms by (auto simp: check_connect_def node_identity_of_def Let_def split: option.splits sum.splits)

lemma granted_request_served:
  assumes "node_start S clock0 = Inr nd0" and "nd = snd (run (node_step S) es nd0)"
    and "nc_max_connections (sv_cfg S) \<le> 65532"
    and "map_of (nd_clients nd) cid = Some c" and "cl_ci_stream c = None"
    and "cl_h3 c \<or> cw_established w \<and> cw_h3_ok w"
    and "cw_events w = [EvHeaders sid hs clock True]" and "is_connect hs"
    and "check_connect S hs (cl_peer_ip c) (now_unix_secs_for_expiry clock) = Inr (Some g)"
    and "fst (replay_consume (g, now_unix_secs_for_expiry clock) (sh_replays (nd_shared nd))) = Inr ()"
  obtains ip sh1 where "drive_h3 S cid w (c, nd_shared nd) =
      ([build_connect_ok_response S hs (Some ip)],
       flush_control (cw_ctrl_written w) (c\<lparr>cl_h3 := True, cl_ci_stream := Some sid, cl_flow_id := sid div 4, cl_tunnel_up := True,
         cl_packet_policy := Some (grant_policy g), cl_assigned_ip := Some ip\<rparr>), sh1)"
    and "sh_routes sh1 = AList.update (V4 ip) cid (sh_routes (nd_shared nd))"
proof -
  let ?now = "now_unix_secs_for_expiry clock"
  obtain ip p1 where a: "pool_assign cid (sh_pool (nd_shared nd)) = (Some ip, p1)"
    by (rule address_available [OF assms(1-5)])
  obtain cache1 where "authorize_connect S hs (cl_peer_ip c) ?now (sh_replays (nd_shared nd)) = (Inr (grant_policy g), cache1)"
    using assms(9,10) by (cases "replay_consume (g, ?now) (sh_replays (nd_shared nd))") (auto simp: authorize_connect_def)
  note auth = this
  show thesis
  proof (rule that)
    show "drive_h3 S cid w (c, nd_shared nd) =
      ([build_connect_ok_response S hs (Some ip)],
       flush_control (cw_ctrl_written w) (c\<lparr>cl_h3 := True, cl_ci_stream := Some sid, cl_flow_id := sid div 4, cl_tunnel_up := True,
         cl_packet_policy := Some (grant_policy g), cl_assigned_ip := Some ip\<rparr>),
       (nd_shared nd)\<lparr>sh_replays := cache1, sh_pool := p1, sh_routes := AList.update (V4 ip) cid (sh_routes (nd_shared nd))\<rparr>)"
      using assms(5-8) auth a by (cases c) (auto simp: drive_h3_def bring_up_def is_connect_def Let_def)
  qed simp
qed

text \<open>A packet with the assigned source that the policy admits is forwarded.\<close>

lemma learn_own_route:
  assumes "map_of rs (V4 ip) = Some cid" and "packet_src_ip p = Some (V4 ip)"
  shows "learn_client_route rs cid (Some ip) p = (True, rs)"
  using assms by (auto simp: learn_client_route_def Let_def split: option.splits)

lemma datagram_forwarded:
  assumes "cl_tunnel_up c" and "cl_packet_policy c = Some policy" and "cl_assigned_ip c = Some ip"
    and "Option.bind (cl_pqwg c) cq_tunn = None" and "\<not> sv_pqwg S" and "cl_flow_id c \<le> MAX_VARINT"
    and "map_of rs (V4 ip) = Some cid" and "packet_src_ip p = Some (V4 ip)" and "admits policy p"
  shows "client_datagram S cid c (encode_datagram (cl_flow_id c) p, wg) rs = ([p], [], rs)"
proof -
  have "decode_datagram (encode_datagram (cl_flow_id c) p) = Inr (cl_flow_id c, Ip p)"
    using assms(6) by (simp add: datagram_roundtrip)
  with assms learn_own_route [OF assms(7,8)] show ?thesis
    by (simp add: client_datagram_def accepts_client_datagrams_def route_packet_def)
qed

section \<open>The pool and the packet filter\<close>















section \<open>A history to evaluate\<close>

text \<open>A relay, a client that presents the grant of \<open>Grant\<close>, and one packet to the signed next hop.\<close>

definition demo_server :: "(unit, unit) server" where
  "demo_server =
     \<lparr>sv_crypto = demo_crypto, sv_pq = demo_pq,
      sv_cfg = \<lparr>nc_bind = SockV4 (Ipv4Addr 0 0 0 0) 443, nc_tun_name = lit ''nil0'', nc_node_tun_ip = Ipv4Addr 10 74 0 1, nc_prefix = 24,
        nc_tunnel_cidr = lit ''10.74.0.0/24'', nc_egress = lit ''eth0'', nc_mtu = 1420,
        nc_attest = Some \<lparr>na_tee = SevSnp, na_measurement = replicate 48 1\<rparr>, nc_role = EntryNode,
        nc_grant_verifier = Some demo_verifier, nc_grant_realm = Some (lit ''nil''), nc_node_id = Some (lit ''n1''),
        nc_tls_key_file = None, nc_allow_ungranted = False, nc_max_connections = 8, nc_max_connections_per_ip = 2,
        nc_grant_replay_capacity = 4\<rparr>,
      sv_debug = False, sv_spki = replicate 32 2, sv_report = (\<lambda>_ _ _. None), sv_pqwg = False, sv_retry_key = [1]\<rparr>"

definition demo_src :: socket_addr where
  "demo_src = SockV4 (Ipv4Addr 192 0 2 1) 5000"

definition demo_request :: headers where
  "demo_request =
     [(lit '':method'', lit ''CONNECT''), (lit '':protocol'', lit ''connect-ip''),
      (ATTEST_NONCE_HEADER, connectip_to_hex (replicate 32 3)), (TUNNEL_GRANT_HEADER, connectip_to_hex (gr_token demo_grant))]"

definition demo_packet :: bytes where
  "demo_packet = [0x45, 0, 0, 28, 0, 0, 0, 0, 64, 17, 0, 0, 10, 74, 0, 2, 10, 0, 0, 2, 0xc3, 0x50, 1, 187, 0, 8, 0, 0]"

definition demo_work :: client_work where
  "demo_work =
     \<lparr>cw_established = True, cw_h3_ok = True, cw_events = [EvHeaders 0 demo_request (Some \<lparr>du_secs = 1010, du_nanos = 0\<rparr>) True],
      cw_ctrl_written = None, cw_datagrams = [(encode_datagram 0 demo_packet, [])]\<rparr>"

definition demo_events :: "node_event list" where
  "demo_events =
     [UdpPacket (Some \<lparr>qh_dcid = [9], qh_initial = True, qh_version_ok = True,
        qh_token = retry_mint (cr_sha256 demo_crypto) [1] demo_src [7]\<rparr>) demo_src True True,
      Serve [9] demo_work]"

definition demo_start :: node where
  "demo_start = \<lparr>nd_clients = [], nd_shared = \<lparr>sh_pool = default_pool, sh_routes = [],
     sh_replays = \<lparr>rc_process_started_at = 900, rc_capacity = 4, rc_entries = [], rc_expirations = []\<rparr>\<rparr>\<rparr>"

lemma demo_node_start: "node_start demo_server (Some \<lparr>du_secs = 900, du_nanos = 0\<rparr>) = Inr demo_start"
  by (simp add: node_start_def replay_new_def default_v4_pool demo_server_def demo_start_def now_unix_secs_for_expiry_def)

lemma demo_identity: "node_identity_of demo_server = Some Grant.demo_node"
proof -
  have "cr_sha256 demo_crypto (replicate 32 2) = replicate 32 2" by (simp add: demo_crypto_def)
  then show ?thesis
    by (simp add: node_identity_of_def demo_server_def Grant.demo_node_def node_identity_new_def validate_named_identifier_def
        validate_identifier_def lit_def is_edge_def is_inner_def is_ascii_lowercase_def is_ascii_digit_def MAX_GRANT_IDENTIFIER_LEN_def)
qed

lemma demo_node_check: "check_connect demo_server demo_request (V4 (Ipv4Addr 192 0 2 1)) 1010 = Inr (Some (into_verified demo_parsed))"
proof (rule check_connect_accepts)
  show "nc_grant_verifier (sv_cfg demo_server) = Some demo_verifier" by (simp add: demo_server_def)
  show "node_identity_of demo_server = Some Grant.demo_node" by (rule demo_identity)
  have h: "ATTEST_NONCE_HEADER \<noteq> TUNNEL_GRANT_HEADER" "lit '':method'' \<noteq> TUNNEL_GRANT_HEADER" "lit '':method'' \<noteq> ATTEST_NONCE_HEADER"
    "lit '':protocol'' \<noteq> TUNNEL_GRANT_HEADER" "lit '':protocol'' \<noteq> ATTEST_NONCE_HEADER"
    by (simp_all add: ATTEST_NONCE_HEADER_def TUNNEL_GRANT_HEADER_def lit_def)
  show "request_grant demo_request = Inr (gr_token demo_grant)"
    using h grant_parse_length [OF demo_parse] by (intro request_grant_encode) (auto simp: demo_request_def grant_offsets)
  show "request_nonce demo_request = Inr (vg_nonce (into_verified demo_parsed))"
    using h by (intro request_nonce_encode) (auto simp: demo_request_def into_verified_def demo_parsed_def)
  show "grant_verify_for_node (sv_crypto demo_server) (gr_token demo_grant) demo_verifier Grant.demo_node 1010 = Inr (into_verified demo_parsed)"
    using demo_authentic by (auto simp: grant_verify_for_node_Inr demo_audience_def demo_parsed_def demo_server_def)
qed (simp add: into_verified_def demo_parsed_def demo_audience_def)

lemma demo_assigned:
  "pool_assign [9] default_pool = (Some (Ipv4Addr 10 74 0 2),
     default_pool\<lparr>pl_cursor := 172621827, pl_in_use := {172621826, 172621825}, pl_by_conn := [([9], 172621826)]\<rparr>)"
  by (simp add: pool_assign_def default_pool_def assign_loop_numeral next_cursor_def ipv4_of_u32_def ipv4_of_octets_def to_be_def
      be_of_nat_numeral del: assign_loop.simps(2))

lemma demo_accepted: "replay_consume (into_verified demo_parsed, 1010) (sh_replays (nd_shared demo_start)) = (Inr (),
    \<lparr>rc_process_started_at = 900, rc_capacity = 4, rc_entries = [(ReplayKey (pg_key_id demo_parsed) (replicate 32 3), 1060)],
     rc_expirations = [(1060, ReplayKey (pg_key_id demo_parsed) (replicate 32 3))]\<rparr>)"
  by (simp add: replay_consume_def demo_start_def replay_prune_def into_verified_def demo_parsed_def Let_def)

lemma demo_connected:
  "node_step demo_server (demo_events ! 0) demo_start =
     (quiet\<lparr>no_reply := Fed\<rparr>, demo_start\<lparr>nd_clients := [([9], new_client False (V4 (Ipv4Addr 192 0 2 1)))]\<rparr>)"
proof -
  have "length (cr_sha256 demo_crypto x) = 32" for x by (simp add: demo_crypto_def)
  then have "retry_validate (cr_sha256 demo_crypto) [1] demo_src (retry_mint (cr_sha256 demo_crypto) [1] demo_src [7]) = Some [7]"
    by (simp add: retry_validate_iff)
  moreover have "retry_mint (cr_sha256 demo_crypto) [1] demo_src [7] \<noteq> []" by (simp add: retry_mint_def)
  ultimately show ?thesis
    by (simp add: demo_events_def handle_packet_def demo_start_def demo_server_def connection_capacity_available_def demo_src_def)
qed

lemma demo_admitted:
  "admits (grant_policy (into_verified demo_parsed)) demo_packet" "packet_src_ip demo_packet = Some (V4 (Ipv4Addr 10 74 0 2))"
  by (simp_all add: grant_policy_def into_verified_def demo_parsed_def demo_audience_def relay_packet_targets_def demo_packet_def
      packet_src_ip_def packet_ip_def of_be_def nat_of_be_def)

definition demo_client :: client where
  "demo_client = (new_client False (V4 (Ipv4Addr 192 0 2 1)))\<lparr>cl_h3 := True, cl_ci_stream := Some 0, cl_tunnel_up := True,
     cl_packet_policy := Some (grant_policy (into_verified demo_parsed)), cl_assigned_ip := Some (Ipv4Addr 10 74 0 2)\<rparr>"

definition demo_shared :: shared where
  "demo_shared = \<lparr>sh_pool = snd (pool_assign [9] default_pool), sh_routes = [(V4 (Ipv4Addr 10 74 0 2), [9])],
     sh_replays = snd (replay_consume (into_verified demo_parsed, 1010) (sh_replays (nd_shared demo_start)))\<rparr>"

lemma demo_drive:
  "drive_h3 demo_server [9] demo_work (new_client False (V4 (Ipv4Addr 192 0 2 1)), nd_shared demo_start) =
     ([build_connect_ok_response demo_server demo_request (Some (Ipv4Addr 10 74 0 2))], demo_client, demo_shared)"
proof -
  have a: "authorize_connect demo_server demo_request (V4 (Ipv4Addr 192 0 2 1)) 1010 (sh_replays (nd_shared demo_start)) =
      (Inr (grant_policy (into_verified demo_parsed)), sh_replays demo_shared)"
    by (simp add: authorize_connect_def demo_node_check demo_accepted demo_shared_def)
  have c: "is_connect demo_request" by (simp add: is_connect_def demo_request_def header_value_def lit_def)
  have "sh_pool (nd_shared demo_start) = default_pool" "sh_routes (nd_shared demo_start) = []" by (simp_all add: demo_start_def)
  with a c show ?thesis
    by (simp add: drive_h3_def demo_work_def new_client_def is_connect_def now_unix_secs_for_expiry_def bring_up_def demo_assigned
        flush_control_def demo_client_def demo_shared_def)
qed

lemma demo_served:
  "node_step demo_server (demo_events ! 1) (demo_start\<lparr>nd_clients := [([9], new_client False (V4 (Ipv4Addr 192 0 2 1)))]\<rparr>) =
     (quiet\<lparr>no_responses := [build_connect_ok_response demo_server demo_request (Some (Ipv4Addr 10 74 0 2))], no_to_tun := [demo_packet]\<rparr>,
      \<lparr>nd_clients = [([9], demo_client)], nd_shared = demo_shared\<rparr>)"
proof -
  have "client_datagram demo_server [9] demo_client (encode_datagram (cl_flow_id demo_client) demo_packet, []) (sh_routes demo_shared) =
      ([demo_packet], [], sh_routes demo_shared)"
    using demo_admitted by (intro datagram_forwarded) (simp_all add: demo_client_def demo_shared_def new_client_def demo_server_def MAX_VARINT_def)
  moreover have "cl_flow_id demo_client = 0" "cl_h3 demo_client" "cl_tunnel_up demo_client" "cw_datagrams demo_work = [(encode_datagram 0 demo_packet, [])]"
    by (simp_all add: demo_client_def new_client_def demo_work_def)
  ultimately have "serve_client demo_server [9] demo_work (new_client False (V4 (Ipv4Addr 192 0 2 1)), nd_shared demo_start) =
      (([build_connect_ok_response demo_server demo_request (Some (Ipv4Addr 10 74 0 2))], [demo_packet], []), demo_client, demo_shared)"
    by (simp add: serve_client_def demo_drive)
  then show ?thesis by (simp add: demo_events_def demo_start_def quiet_def)
qed

lemma run_two: "run f [a, b] s = ([fst (f a s), fst (f b (snd (f a s)))], snd (f b (snd (f a s))))"
  by (simp add: case_prod_unfold Let_def)

lemma demo_events_two: "demo_events = [demo_events ! 0, demo_events ! 1]"
  by (simp add: demo_events_def)

lemma demo_node_run:
  "fst (run (node_step demo_server) demo_events demo_start) ! 1 =
     quiet\<lparr>no_responses := [build_connect_ok_response demo_server demo_request (Some (Ipv4Addr 10 74 0 2))], no_to_tun := [demo_packet]\<rparr>"
  "snd (run (node_step demo_server) demo_events demo_start) = \<lparr>nd_clients = [([9], demo_client)], nd_shared = demo_shared\<rparr>"
proof -
  have "run (node_step demo_server) demo_events demo_start =
      ([fst (node_step demo_server (demo_events ! 0) demo_start),
        fst (node_step demo_server (demo_events ! 1) (snd (node_step demo_server (demo_events ! 0) demo_start)))],
       snd (node_step demo_server (demo_events ! 1) (snd (node_step demo_server (demo_events ! 0) demo_start))))"
    by (rule trans [OF arg_cong [OF demo_events_two, of "\<lambda>es. run (node_step demo_server) es demo_start"] run_two])
  note r = this [unfolded demo_connected snd_conv demo_served fst_conv]
  show "fst (run (node_step demo_server) demo_events demo_start) ! 1 =
     quiet\<lparr>no_responses := [build_connect_ok_response demo_server demo_request (Some (Ipv4Addr 10 74 0 2))], no_to_tun := [demo_packet]\<rparr>"
    unfolding r by simp
  show "snd (run (node_step demo_server) demo_events demo_start) = \<lparr>nd_clients = [([9], demo_client)], nd_shared = demo_shared\<rparr>"
    unfolding r by simp
qed

lemma demo_logged: "node_log demo_server demo_events demo_start = [([9], V4 (Ipv4Addr 192 0 2 1), into_verified demo_parsed, 1010)]"
proof -
  have l: "step_log demo_server (demo_events ! 0) nd = []" for nd by (simp add: demo_events_def)
  have c: "is_connect demo_request" by (simp add: is_connect_def demo_request_def header_value_def lit_def)
  have "sh_replays (nd_shared (demo_start\<lparr>nd_clients := cs\<rparr>)) = sh_replays (nd_shared demo_start)" for cs by simp
  with c have "step_log demo_server (demo_events ! 1) (demo_start\<lparr>nd_clients := [([9], new_client False (V4 (Ipv4Addr 192 0 2 1)))]\<rparr>) =
      [([9], V4 (Ipv4Addr 192 0 2 1), into_verified demo_parsed, 1010)]"
    by (simp add: demo_events_def demo_work_def now_unix_secs_for_expiry_def demo_node_check demo_accepted)
  moreover have "node_log demo_server demo_events demo_start = node_log demo_server [demo_events ! 0, demo_events ! 1] demo_start"
    by (rule arg_cong [OF demo_events_two])
  ultimately show ?thesis by (simp only: node_log.simps demo_connected l snd_conv append_Nil append_Nil2)
qed

text \<open>An answer to the client's inner address.\<close>

definition demo_reply :: bytes where
  "demo_reply = [0x45, 0, 0, 20, 0, 0, 0, 0, 64, 1, 0, 0, 10, 0, 0, 2, 10, 74, 0, 2]"

lemma demo_reply_dst: "packet_dst_ip (fix_l4_checksums demo_reply) = Some (V4 (Ipv4Addr 10 74 0 2))"
proof -
  obtain a b where "fix_l4_checksums demo_reply = [0x45, 0, 0, 20, 0, 0, 0, 0, 64, 1, a, b, 10, 0, 0, 2, 10, 74, 0, 2]"
  proof -
    let ?z = "ones_complement demo_reply 0"
    have "to_be 2 ?z = [to_be 2 ?z ! 0, to_be 2 ?z ! 1]" by (simp add: to_be_def be_of_nat_numeral)
    then show thesis using that [of "to_be 2 ?z ! 0" "to_be 2 ?z ! 1"]
      by (simp add: fix_l4_checksums_def get_at_def fix_ipv4_checksums_def fix_ipv4_l4_def demo_reply_def copy_at_def of_be_def nat_of_be_def)
  qed
  then show ?thesis by (simp add: packet_dst_ip_def packet_ip_def)
qed

lemma demo_reply_sent: "\<exists>d. tun_packet demo_reply None (snd (run (node_step demo_server) demo_events demo_start)) = Some d"
  by (simp add: tun_packet_def demo_node_run(2) demo_reply_dst demo_shared_def demo_client_def new_client_def)

section \<open>Properties\<close>

text \<open>
  A grant that holds at this node: a token signed by one of its keys for its realm, identifier, role, TEE,
  measurement and live TLS key, presented with the grant's own nonce from the address it names, and not
  expired.
\<close>

definition valid_here :: "('d, 's) server \<Rightarrow> ip_addr \<Rightarrow> verified_grant \<Rightarrow> u64 \<Rightarrow> bool" where
  "valid_here S peer g now \<longleftrightarrow>
     (\<exists>v attest realm node_id hs token.
        nc_grant_verifier (sv_cfg S) = Some v \<and> nc_attest (sv_cfg S) = Some attest \<and> nc_grant_realm (sv_cfg S) = Some realm \<and>
        nc_node_id (sv_cfg S) = Some node_id \<and> request_grant hs = Inr token \<and> request_nonce hs = Inr (vg_nonce g) \<and>
        grant_verify_for_node (sv_crypto S) token v
          \<lparr>gi_realm = realm, gi_node_id = node_id, gi_role = node_grant_role (nc_role (sv_cfg S)), gi_transport = Masque,
           gi_tee = na_tee attest, gi_measurement = na_measurement attest, gi_tls_spki_sha256 = cr_sha256 (sv_crypto S) (sv_spki S)\<rparr>
          now = Inr g) \<and>
     (\<forall>ip. au_previous_hop (vg_audience g) = Some ip \<longrightarrow> peer = V4 ip) \<and> now < vg_expires_at g"

lemma check_connect_valid:
  assumes "check_connect S hs peer now = Inr (Some g)" and "now < vg_expires_at g"
  shows "valid_here S peer g now"
proof -
  from assms(1) obtain v where "nc_grant_verifier (sv_cfg S) = Some v"
    by (auto simp: check_connect_def Let_def split: option.splits if_splits)
  with assms show ?thesis
    unfolding valid_here_def check_connect_def
    by (auto simp: Let_def node_identity_new_def split: option.splits if_splits)
qed

lemma opened_valid: "opened_by_grant S (cid, peer, g, now) \<Longrightarrow> valid_here S peer g now"
  by (auto simp: opened_by_grant_def intro: check_connect_valid)

text \<open>
  C3: the node forwards only what a grant allows. In a build without the development flag, over any
  history of packets, requests and failures, every packet given to the TUN device came from a client whose
  tunnel was opened for a grant that held at this node at that time and was accepted by the replay cache;
  the packet is admitted by that grant (an intermediate node's grant admits one unfragmented UDP datagram
  to the signed next hop), and its source is an address routed to this client, the assigned one if there
  is one.
\<close>

theorem forwarded_packets_authorised:
  assumes "node_start S clock = Inr nd0" and "\<not> sv_debug S" and "j < length es"
    and "p \<in> set (no_to_tun (fst (run (node_step S) es nd0) ! j))"
  shows "\<exists>cid w c g now.
    es ! j = Serve cid w \<and> map_of (nd_clients (snd (run (node_step S) (take (Suc j) es) nd0))) cid = Some c \<and>
    (cid, cl_peer_ip c, g, now) \<in> set (node_log S (take (Suc j) es) nd0) \<and> valid_here S (cl_peer_ip c) g now \<and>
    admits (grant_policy g) p \<and>
    source_ok cid c (map_of (sh_routes (nd_shared (snd (run (node_step S) (take (Suc j) es) nd0))))) p"
proof -
  let ?nd = "snd (run (node_step S) (take j es) nd0)" and ?nd' = "snd (run (node_step S) (take (Suc j) es) nd0)"
  note inv0 = node_start_inv [OF assms(1)]
  have take: "take (Suc j) es = take j es @ [es ! j]" using assms(3) by (simp add: take_Suc_conv_app_nth)
  have nd': "?nd' = snd (node_step S (es ! j) ?nd)" by (simp add: take run_append case_prod_unfold Let_def)
  have out: "p \<in> set (no_to_tun (fst (node_step S (es ! j) ?nd)))" using assms(4) by (simp add: run_nth [OF assms(3)])
  have inv: "node_inv S ?nd" by (rule node_run.run_inv [OF inv0])
  obtain cid w c where e: "es ! j = Serve cid w" "map_of (nd_clients ?nd) cid = Some c"
    using out by (cases "es ! j") (auto simp: quiet_def split: option.splits prod.splits)
  obtain rs outs dgs c' sh' where s: "serve_client S cid w (c, nd_shared ?nd) = ((rs, outs, dgs), c', sh')" by (metis surj_pair)
  have p: "p \<in> set outs" and c': "map_of (nd_clients ?nd') cid = Some c'" "nd_shared ?nd' = sh'"
    using out e s unfolding nd' by (simp_all add: quiet_def)
  have t: "tables_ok (map_of (nd_clients ?nd)) (nd_shared ?nd)" using inv by (simp add: node_inv_def)
  note f = serve_client_ok(3) [OF t e(2) s p]
  have "tunnels_opened [] nd0" using assms(1) by (auto simp: tunnels_opened_def elim: node_start_Inr)
  from run_opens [OF inv0 assms(2) this, of "take (Suc j) es"] f c'(1)
  obtain g now where g: "(cid, cl_peer_ip c', g, now) \<in> set (node_log S (take (Suc j) es) nd0)" "cl_packet_policy c' = Some (grant_policy g)"
    unfolding tunnels_opened_def opened_for_def append_Nil by meson
  have "valid_here S (cl_peer_ip c') g now" using opened_valid node_log_granted [OF g(1)] .
  moreover have "admits (grant_policy g) p" "source_ok cid c' (map_of (sh_routes (nd_shared ?nd'))) p"
    using f g(2) c'(2) by (auto simp: forward_ok_def)
  ultimately show ?thesis using e(1) c'(1) g(1) by blast
qed

theorem forwarded_packets_authorised_witness:
  "\<exists>cid w c g now.
    demo_events ! 1 = Serve cid w \<and> map_of (nd_clients (snd (run (node_step demo_server) demo_events demo_start))) cid = Some c \<and>
    (cid, cl_peer_ip c, g, now) \<in> set (node_log demo_server demo_events demo_start) \<and> valid_here demo_server (cl_peer_ip c) g now \<and>
    admits (grant_policy g) demo_packet"
proof -
  have "take (Suc 1) demo_events = demo_events" "1 < length demo_events" "\<not> sv_debug demo_server"
    by (simp_all add: demo_events_def demo_server_def)
  moreover have "demo_packet \<in> set (no_to_tun (fst (run (node_step demo_server) demo_events demo_start) ! 1))" unfolding demo_node_run(1) by simp
  ultimately show ?thesis
    using forwarded_packets_authorised [OF demo_node_start, of 1 demo_events demo_packet] by simp blast
qed

text \<open>
  C4: a grant opens one tunnel. In a build without the development flag, while the clock does not run
  backwards, no grant appears twice among the requests the node authorised, over any history.
\<close>

theorem grant_opens_one_tunnel:
  assumes "node_start S clock = Inr nd0" and "\<not> sv_debug S" and "sorted (concat (map event_clocks es))"
  shows "distinct (log_grants (node_log S es nd0))"
proof -
  have "used_ok [] 0 (sh_replays (nd_shared nd0))" by (simp add: used_ok_def)
  moreover have "sorted (0 # concat (map event_clocks es))" using assms(3) by simp
  ultimately show ?thesis using run_used [OF node_start_inv [OF assms(1)] assms(2), of "[]" 0 es] by (auto simp: used_ok_def)
qed

theorem grant_opens_one_tunnel_witness:
  "distinct (log_grants (node_log demo_server (demo_events @ demo_events) demo_start)) \<and> node_log demo_server (demo_events @ demo_events) demo_start \<noteq> []"
proof -
  have "sorted (concat (map event_clocks (demo_events @ demo_events)))" "\<not> sv_debug demo_server"
    by (simp_all add: demo_events_def demo_server_def demo_work_def)
  then show ?thesis
    using grant_opens_one_tunnel [OF demo_node_start, of "demo_events @ demo_events"] demo_logged
    by (simp add: node_log_append)
qed

text \<open>
  C7: clients are kept apart. In every state the node reaches, at most one client holds an inner address,
  and a packet from the TUN device to that address is delivered to its holder or to nobody.
\<close>

theorem replies_reach_the_holder:
  assumes "node_start S clock = Inr nd0" and "nd = snd (run (node_step S) es nd0)"
    and "map_of (nd_clients nd) holder = Some c" and "cl_assigned_ip c = Some ip"
  shows "(\<forall>k d. map_of (nd_clients nd) k = Some d \<and> cl_assigned_ip d = Some ip \<longrightarrow> k = holder) \<and>
    (\<forall>raw sealed k dg. packet_dst_ip (fix_l4_checksums raw) = Some (V4 ip) \<and> tun_packet raw sealed nd = Some (k, dg) \<longrightarrow> k = holder)"
proof -
  have "node_inv S nd" unfolding assms(2) by (rule node_run.run_inv [OF node_start_inv [OF assms(1)]])
  then have o: "owns_ok (map_of (nd_clients nd)) (map_of (sh_routes (nd_shared nd)))" by (simp add: node_inv_def tables_ok_def)
  note h = owns_ok_holder [OF o assms(3,4)]
  have "k = holder" if "map_of (nd_clients nd) k = Some d" "cl_assigned_ip d = Some ip" for k d
    using owns_ok_holder [OF o that] h by simp
  moreover have "k = holder" if "packet_dst_ip (fix_l4_checksums raw) = Some (V4 ip)" "tun_packet raw sealed nd = Some (k, dg)" for raw sealed k dg
    using that h by (auto simp: tun_packet_def Let_def split: option.splits if_splits)
  ultimately show ?thesis by blast
qed

theorem replies_reach_the_holder_witness:
  "\<exists>dg. tun_packet demo_reply None (snd (run (node_step demo_server) demo_events demo_start)) = Some ([9], dg)"
proof -
  let ?nd = "snd (run (node_step demo_server) demo_events demo_start)"
  have c: "map_of (nd_clients ?nd) [9] = Some demo_client" "cl_assigned_ip demo_client = Some (Ipv4Addr 10 74 0 2)"
    by (simp_all add: demo_node_run(2) demo_client_def)
  obtain k dg where t: "tun_packet demo_reply None ?nd = Some (k, dg)" using demo_reply_sent by auto
  have "k = [9]" using replies_reach_the_holder [OF demo_node_start refl c] demo_reply_dst t by blast
  with t show ?thesis by simp
qed

lemma owners_bound:
  assumes "\<And>e. e \<in> set rs \<Longrightarrow> snd e \<in> set ks" and "\<And>k. length (filter (\<lambda>e. snd e = k) rs) \<le> n"
  shows "length rs \<le> n * length ks"
  using assms
proof (induction ks arbitrary: rs)
  case Nil
  then show ?case by (cases rs) auto
next
  case (Cons k ks)
  have "length rs = length (filter (\<lambda>e. snd e = k) rs) + length (filter (\<lambda>e. snd e \<noteq> k) rs)"
    by (simp add: sum_length_filter_compl)
  moreover have "length (filter (\<lambda>e. snd e \<noteq> k) rs) \<le> n * length ks"
  proof (rule Cons.IH)
    fix x
    show "length (filter (\<lambda>e. snd e = x) (filter (\<lambda>e. snd e \<noteq> k) rs)) \<le> n"
      using filter_conj_length Cons.prems(2) le_trans by blast
  qed (use Cons.prems(1) in auto)
  ultimately show ?case using Cons.prems(2) [of k] by simp
qed

text \<open>
  C8: the node's memory is bounded. In every state the node reaches it keeps at most the configured number
  of connections, at most the configured number per source address, and at most four routes per connection.
\<close>

theorem node_tables_bounded:
  assumes "node_start S clock = Inr nd0" and "nd = snd (run (node_step S) es nd0)"
  shows "length (nd_clients nd) \<le> nc_max_connections (sv_cfg S) \<and>
    (\<forall>ip. peer_count (nd_clients nd) ip \<le> nc_max_connections_per_ip (sv_cfg S)) \<and>
    length (sh_routes (nd_shared nd)) \<le> 4 * length (nd_clients nd)"
proof -
  have inv: "node_inv S nd" unfolding assms(2) by (rule node_run.run_inv [OF node_start_inv [OF assms(1)]])
  then have o: "owns_ok (map_of (nd_clients nd)) (map_of (sh_routes (nd_shared nd)))" "routes_ok (sh_routes (nd_shared nd))"
    by (simp_all add: node_inv_def tables_ok_def)
  have "snd e \<in> set (map fst (nd_clients nd))" if "e \<in> set (sh_routes (nd_shared nd))" for e
  proof -
    have "map_of (sh_routes (nd_shared nd)) (fst e) = Some (snd e)" using that o(2) by (simp add: routes_ok_def)
    from owns_ok_owner [OF o(1) this] obtain d where "map_of (nd_clients nd) (snd e) = Some d" by blast
    from map_of_SomeD [OF this] show ?thesis by force
  qed
  then have "length (sh_routes (nd_shared nd)) \<le> MAX_LEARNED_ROUTES_PER_CLIENT * length (map fst (nd_clients nd))"
    using o(2) by (intro owners_bound) (auto simp: routes_ok_def)
  with inv show ?thesis by (simp add: node_inv_def MAX_LEARNED_ROUTES_PER_CLIENT_def)
qed

theorem node_tables_bounded_witness:
  "length (nd_clients (snd (run (node_step demo_server) demo_events demo_start))) \<le> 8 \<and>
   length (sh_routes (nd_shared (snd (run (node_step demo_server) demo_events demo_start)))) \<le> 32"
  using node_tables_bounded [OF demo_node_start refl, of demo_events] by (auto simp: demo_server_def)



end
