(* ===== verification/Spec2Isabelle.thy ===== *)
theory Spec2Isabelle
  imports Nil_Prelude Machines Hex Grant Grant_Replay Address_Pool Checksum Connectip Text Filesystem Log_File Durable
    Ratelimit Client_Ip Coord_Config Coord_Api Nullifier Nullifier_Backends Ip_Text Net Pathsel Path_Search Token Translog
    Snapshot_File Portal_Store Portal_Histories Portal_File Portal_Durable
    Attest Attest_Gate Retry_Token Node_Config Pq_Handshake Node_Server Node_Safety Node_Service
begin

text \<open>
  A verification library for the Nil VPN workspace.

  \<^bold>\<open>The program.\<close> Nil splits a VPN into planes that must not be able to link a customer to traffic.
  The Portal (\<open>crates/nil-portal\<close>, the business plane) keeps anonymous accounts, credits payments and
  signs blinded tokens. The client unblinds a token and hands it to the Coordinator
  (\<open>crates/nil-coordinator\<close>, the control plane), which checks the signature, records the token as spent,
  selects a path of nodes that no single operator controls, and signs one short-lived grant per hop. A
  node (\<open>crates/nil-node\<close>, the data plane) verifies its grant, uses it up, leases an inner address and
  forwards IP packets that arrive as CONNECT-IP datagrams. Shared code is in \<open>crates/nil-core\<close> (grants,
  durable sets, checksums, URL guards), \<open>crates/nil-crypto\<close> (tokens, transparency log) and
  \<open>crates/nil-proto\<close> (wire types).

  \<^bold>\<open>Conventions.\<close> A byte is an \<open>8 word\<close> and a string of the source is the list of its UTF-8 bytes; \<open>u16\<close>,
  \<open>u32\<close>, \<open>u64\<close> are words, with the wrapping, checked or saturating operation the source uses. A
  fallible function returns \<open>error + value\<close>, chained by \<open>bindE\<close>; a hash map is an association list; a
  panic is a value. Clocks, entropy, the environment and failures of the disk are arguments. What the
  source takes from third-party packages (Ed25519, SHA-256, AES-256-GCM, blind RSA, serde_json, the URL
  parser, Base64, the Postgres server) is a record or function parameter; where a theorem relies on it, a
  predicate such as \<open>crypto_ok\<close>, \<open>aead_ok\<close>, \<open>blind_rsa_ok\<close> or \<open>portal_libs_ok\<close> states the documented
  behaviour and a witness instantiates it.

  \<^bold>\<open>Foundations.\<close>
  \<^item> \<open>Nil_Prelude\<close>: types, results, big-endian codecs and the list, option and word facts all theories share.
  \<^item> \<open>Machines\<close>: running a step function over a sequence of inputs; the locale \<open>machine\<close> (a step that
    keeps an invariant) gives invariance and the facts about the n-th answer once for all machines.
  \<^item> \<open>Text\<close>, \<open>Ip_Text\<close>: the text operations of the Rust standard library the sources use, and the parser
    and printer of IP addresses with their round trip.
  \<^item> \<open>Filesystem\<close>: directories, inodes, what has reached the disk and what a crash keeps, with a stream of
    faults that decides which operation fails. \<open>Log_File\<close> is a Hoare logic over it with the theory of
    append-only files (locales \<open>log_content\<close> and \<open>log_store\<close>); \<open>Snapshot_File\<close> is the theory of files that
    are replaced through a temporary file.

  \<^bold>\<open>Components.\<close>
  \<^item> \<open>Hex\<close>: the three hexadecimal codecs of \<open>nil-core/src/grant.rs\<close>, \<open>nil-transport/src/connectip.rs\<close> and
    the Coordinator, each an interpretation of \<open>hex_codec\<close>, and their interchangeability.
  \<^item> \<open>Grant\<close>: \<open>nil-core/src/grant.rs\<close>, identities, audiences, keys, \<open>mint\<close>, \<open>parse\<close>, \<open>verify\<close> and
    \<open>verify_for_node\<close>. Minting and verifying are inverse, an accepted token is the canonical encoding of
    its fields with a trusted signature, and parsing is unambiguous.
  \<^item> \<open>Grant_Replay\<close>: \<open>nil-node/src/grant_replay.rs\<close>, the bounded cache that makes a grant single use, and
    what a restart exposes: only grants issued at or after the new start, so within the clock-skew tolerance. \<open>Address_Pool\<close>: \<open>nil-node/src/pool.rs\<close>, leases of inner addresses.
  \<^item> \<open>Checksum\<close>: \<open>nil-core/src/checksum.rs\<close>; after the call every checksum verifies. \<open>Connectip\<close>:
    \<open>nil-transport/src/connectip.rs\<close>, QUIC variable-length integers and the framing round trip.
  \<^item> \<open>Durable\<close>: \<open>nil-core/src/durable.rs\<close>, three append-only sets. For every interleaving of operations,
    failed writes and syncs, restarts and crashes, what was accepted once is not accepted again. The
    partitioned set also takes over a legacy file: the keys of a first start that succeeded stay spent. A first
    start whose sync fails is outside that statement, since a plain restart then moves the legacy file aside
    without a sync.
  \<^item> \<open>Nullifier\<close>, \<open>Nullifier_Backends\<close>: \<open>nil-coordinator/src/nullifier.rs\<close>, the ledger of spent tokens with
    its encrypted responses; the volatile, file and Postgres stores give the same answers, and a Postgres store
    whose calls fail still follows the ledger, each failed call applied or not.
  \<^item> \<open>Net\<close>: \<open>nil-core/src/net.rs\<close>, the guards of sensitive URLs.
  \<^item> \<open>Pathsel\<close>, \<open>Path_Search\<close>: \<open>nil-coordinator/src/pathsel.rs\<close>, loading and validating the registry, and the
    backtracking search, which terminates and finds a trust-split path whenever there is one.
  \<^item> \<open>Token\<close>: \<open>nil-crypto/src/token.rs\<close>, message format, issuer, verifier and client state. \<open>Translog\<close>:
    \<open>nil-crypto/src/translog.rs\<close>; the bit-level inclusion walk is that of RFC 6962.
  \<^item> \<open>Ratelimit\<close>, \<open>Client_Ip\<close>, \<open>Coord_Config\<close>: the rate limiters and the source attribution of Coordinator
    and Portal, and the Coordinator's configuration.
  \<^item> \<open>Coord_Api\<close>: \<open>nil-coordinator/src/api.rs\<close>. The locale \<open>ledger\<close> is the contract of the trait
    \<open>NullifierStore\<close>; the redemption theorems are proved in it and hold for the model's store.
  \<^item> \<open>Portal_Store\<close>, \<open>Portal_Histories\<close>: \<open>nil-portal/src/account/model.rs\<close>, \<open>store/mod.rs\<close> and
    \<open>store/memory.rs\<close>. The locale \<open>portal_backend\<close> is the contract of the trait \<open>Store\<close>: a payment is credited
    once, a checkout buys one signature and a mint quota is never exceeded. Its parameter \<open>firm\<close> says which
    answers of the backend rest on data that survives a crash.
  \<^item> \<open>Portal_File\<close>, \<open>Portal_Durable\<close>: \<open>nil-portal/src/store/file.rs\<close>. The file store refines the volatile
    one over the file-system model and is an interpretation of \<open>portal_backend\<close> for histories with failed
    writes and syncs, crashes and restarts. In every history the answers of a fresh write are firm. A process
    that is restarted while a rename is pending opens the new snapshot as if it were durable; replays and the
    state after a crash are firm in histories without such a restart (\<open>settled_restarts\<close>).
  \<^item> \<open>Attest\<close>: \<open>nil-attest\<close>, evidence framing, the parsers of SEV-SNP reports and TDX quotes, policies and
    appraisal. Evidence is accepted exactly when a genuine report binds this key and nonce, and it is fresh
    up to collisions of the hash. \<open>Attest_Gate\<close>: the report of a node (\<open>nil-node/src/attest.rs\<close>, \<open>hw.rs\<close>) and
    the gate of the client (\<open>nil-transport/src/masque/mod.rs\<close>): a release gate opens only for attested peers,
    and an honest node opens it.
  \<^item> \<open>Retry_Token\<close>: \<open>nil-node/src/retry.rs\<close>, the stateless address validation of QUIC.
  \<^item> \<open>Node_Config\<close>: \<open>nil-node/src/config.rs\<close> and \<open>exit.rs\<close>, the configuration and the packet-filter rules.
  \<^item> \<open>Pq_Handshake\<close>: \<open>nil-crypto/src/psk.rs\<close> and both ends of the control stream (\<open>nil-transport/src/pqwg.rs\<close>,
    \<open>nil-node/src/pqwg.rs\<close>); the locale \<open>frame_reader\<close> is the contract of a reassembling reader. Both sides
    derive one key, which binds the exchange.
  \<^item> \<open>Node_Server\<close>: \<open>nil-node/src/server.rs\<close>, the event loop as a step function whose inputs are what the
    QUIC, HTTP/3 and WireGuard libraries report. \<open>Node_Safety\<close> has its invariant (leases, routes, limits,
    replay cache) and the log of opened tunnels; \<open>Node_Service\<close> has the properties over all histories: only
    packets a valid grant allows are forwarded, a grant opens one tunnel, replies reach the holder of the
    address, the tables are bounded, and the address of a client is the next one of the pool, which leaves the
    subnet of the packet-filter rules after 254 authorised requests.

  \<^bold>\<open>Termination and bounds.\<close> No definition uses fuel. Loops recurse structurally (the address pool on the
  probes left) or with a termination proof by a measure (\<open>fold_carry\<close>, \<open>load_loop\<close>, \<open>take_frames\<close>, \<open>control_loop\<close>);
  the backtracking search \<open>extend_loop\<close> is a partial function, and \<open>extend_path_terminates\<close> proves that it
  returns from every start. Lengths and counters are bounded where the source bounds them, and overflow is a
  branch of the model where it can happen.

  \<^bold>\<open>Not modelled.\<close> The sockets, timers, TLS and QUIC state machines, TUN devices and the batching of egress
  packets of the node, and the asynchronous drivers of \<open>nil-transport\<close> and \<open>nil-datapath\<close>, are input and output
  around libraries that are not part of the sources; of the client's side only the framing, the attestation
  gate and the key exchange are modelled. The HTTP handlers of the Portal, its payment, HSM and Postgres
  backends call services outside the sources; the store they rest on is modelled. Account keys are thin
  layers over libraries. The desktop and mobile applications, their token wallet and secure stores are user
  interface and operating-system bindings. File permissions, memory wiping and log messages have no effect
  on the modelled results; locks are modelled by running each critical section as one step.
\<close>

end
